(* ===== verification/Prelude.thy ===== *)
theory Prelude
  imports Main "HOL-Library.Word" "HOL-Library.Monad_Syntax" "HOL-Library.Multiset"
begin

text \<open>
  Shared vocabulary of the development: Rust's integer widths, byte strings and their
  big-endian reading, parsers in the style of the source (a function from the remaining input
  to the rest of it and a value, with \<open>None\<close> for \<^verbatim>\<open>Err(nom::Err::Error(_))\<close>), and the lemmas
  on them that the component theories share.

  The do-notation of the option monad is the source's \<^verbatim>\<open>?\<close> operator:
  \<^verbatim>\<open>let (input, x) = p(input)?;\<close> is written \<open>(input, x) \<leftarrow> p input\<close>.
\<close>

unbundle bit_operations_syntax

named_theorems byte_simps \<open>lengths and round trips of big-endian byte strings\<close>
named_theorems nonincr_intros \<open>parsers that return no more input than they were given\<close>
named_theorems nom_simps \<open>what the parsing primitives return\<close>

type_synonym u8 = "8 word"
type_synonym u16 = "16 word"
type_synonym u32 = "32 word"
type_synonym u64 = "64 word"
type_synonym u128 = "128 word"

type_synonym bytes = "u8 list"

type_synonym 'a parser = "bytes \<Rightarrow> (bytes \<times> 'a) option"

text \<open>\<^verbatim>\<open>uN::try_from\<close> on an integer of another width: \<open>None\<close> when it does not fit.\<close>

definition try_from_u64 :: "u64 \<Rightarrow> 'a::len word option" where
  "try_from_u64 v = (if unat v < 2 ^ LENGTH('a) then Some (ucast v) else None)"

section \<open>Big-endian byte strings\<close>

definition be_nat :: "bytes \<Rightarrow> nat" where
  "be_nat bs = foldl (\<lambda>acc b. acc * 256 + unat b) 0 bs"

primrec nat_be :: "nat \<Rightarrow> nat \<Rightarrow> bytes" where
  "nat_be 0 k = []"
| "nat_be (Suc n) k = nat_be n (k div 256) @ [word_of_nat k]"

text \<open>\<open>uN::from_be_bytes\<close> and \<open>uN::to_be_bytes\<close> of the standard library.\<close>

definition from_be_bytes :: "bytes \<Rightarrow> 'a::len word" where
  "from_be_bytes bs = word_of_nat (be_nat bs)"

definition to_be_bytes :: "'a::len word \<Rightarrow> bytes" where
  "to_be_bytes w = nat_be (LENGTH('a) div 8) (unat w)"

section \<open>Parsers that never grow their input\<close>

definition nonincr :: "'a parser \<Rightarrow> bool" where
  "nonincr p \<longleftrightarrow> (\<forall>i i' x. p i = Some (i', x) \<longrightarrow> length i' \<le> length i)"

section \<open>Lemmas on byte strings\<close>

lemma be_nat_Nil [simp]: "be_nat [] = 0"
  by (simp add: be_nat_def)

lemma be_nat_snoc [simp]: "be_nat (bs @ [b]) = be_nat bs * 256 + unat b"
  by (simp add: be_nat_def)

lemma length_nat_be [simp, byte_simps]: "length (nat_be n k) = n"
  by (induction n arbitrary: k) auto

lemma be_nat_bound: "be_nat bs < 256 ^ length bs"
proof (induction bs rule: rev_induct)
  case (snoc b bs)
  have "unat b < 256"
    using unsigned_less [of b] by simp
  with snoc.IH show ?case
    by simp
qed simp

lemma unat_word_of_nat_u8: "unat (word_of_nat k :: u8) = k mod 256"
  by (simp add: unsigned_of_nat take_bit_eq_mod)

lemma be_nat_nat_be [byte_simps]: "be_nat (nat_be n k) = k mod 256 ^ n"
proof (induction n arbitrary: k)
  case (Suc n)
  have "k mod 256 ^ Suc n = (k div 256 mod 256 ^ n) * 256 + k mod 256"
    by (simp add: mod_mult2_eq mult.commute)
  with Suc.IH show ?case
    by (simp add: unat_word_of_nat_u8)
qed simp

lemma nat_be_be_nat [byte_simps]: "nat_be (length bs) (be_nat bs) = bs"
proof (induction bs rule: rev_induct)
  case (snoc b bs)
  have b: "unat b < 256"
    using unsigned_less [of b] by simp
  then have "(be_nat bs * 256 + unat b) div 256 = be_nat bs"
    by simp
  moreover have "(word_of_nat (be_nat bs * 256 + unat b) :: u8) = b"
    by (metis b mod_less mod_mult_self3 unat_word_of_nat_u8 word_unat_eq_iff)
  ultimately show ?case
    using snoc.IH by simp
qed simp

lemma unat_bounds: "unat (a :: u8) < 2 ^ 8" "unat (b :: u16) < 2 ^ 16" "unat (c :: u32) < 2 ^ 32"
proof -
  have "unat a < 2 ^ LENGTH(8)" "unat b < 2 ^ LENGTH(16)" "unat c < 2 ^ LENGTH(32)"
    by (rule unsigned_less)+
  then show "unat a < 2 ^ 8" "unat b < 2 ^ 16" "unat c < 2 ^ 32" by simp_all
qed

lemma length_to_be_bytes [simp, byte_simps]:
  "length (to_be_bytes (w :: 'a::len word)) = LENGTH('a) div 8"
  by (simp add: to_be_bytes_def)

lemma from_to_be_bytes [byte_simps]:
  assumes "8 dvd LENGTH('a::len)"
  shows "from_be_bytes (to_be_bytes (w :: 'a word)) = w"
proof -
  have "(256::nat) ^ (LENGTH('a) div 8) = 2 ^ LENGTH('a)"
  proof -
    have "(256::nat) = 2 ^ 8" by simp
    then have "(256::nat) ^ (LENGTH('a) div 8) = 2 ^ (8 * (LENGTH('a) div 8))"
      by (simp only: power_mult)
    with assms show ?thesis by simp
  qed
  moreover have "unat w < 2 ^ LENGTH('a)"
    by (rule unsigned_less)
  ultimately show ?thesis
    by (simp add: from_be_bytes_def to_be_bytes_def be_nat_nat_be)
qed

lemma to_from_be_bytes [byte_simps]:
  assumes "8 * length bs = LENGTH('a::len)"
  shows "to_be_bytes (from_be_bytes bs :: 'a word) = bs"
proof -
  have "(256::nat) ^ length bs = 2 ^ LENGTH('a)"
  proof -
    have "(256::nat) = 2 ^ 8" by simp
    then have "(256::nat) ^ length bs = 2 ^ (8 * length bs)"
      by (simp only: power_mult)
    with assms show ?thesis by simp
  qed
  then have "be_nat bs < 2 ^ LENGTH('a)"
    using be_nat_bound [of bs] by simp
  then have "unat (from_be_bytes bs :: 'a word) = be_nat bs"
    by (simp add: from_be_bytes_def unsigned_of_nat take_bit_nat_eq_self)
  moreover have "LENGTH('a) div 8 = length bs"
    using assms [symmetric] by simp
  ultimately show ?thesis
    by (simp add: to_be_bytes_def nat_be_be_nat)
qed

lemma unat_word_of_nat: "k < 2 ^ LENGTH('a::len) \<Longrightarrow> unat (word_of_nat k :: 'a word) = k"
  by (simp add: unsigned_of_nat take_bit_nat_eq_self)

lemma word_of_nat_unat_eq: "unat w = k \<Longrightarrow> w = word_of_nat k" for w :: "'a::len word"
  by auto

lemma take_bit_unat_less: "unat w < 2 ^ n \<Longrightarrow> take_bit n w = w" for w :: "'a::len word"
  by (simp add: word_unat_eq_iff unsigned_take_bit_eq take_bit_nat_eq_self)

lemma bit_unat_less: "unat w < 2 ^ n \<Longrightarrow> bit w k \<Longrightarrow> k < n" for w :: "'a::len word"
  by (metis take_bit_unat_less bit_take_bit_iff)

lemma unat_take_bit_less: "unat (take_bit n w) < 2 ^ n" for w :: "'a::len word"
  by (simp add: unsigned_take_bit_eq)

section \<open>Lemmas on parsers\<close>

lemma nonincrD: "nonincr p \<Longrightarrow> p i = Some (i', x) \<Longrightarrow> length i' \<le> length i"
  by (simp add: nonincr_def)

lemma nonincrI: "(\<And>i i' x. p i = Some (i', x) \<Longrightarrow> length i' \<le> length i) \<Longrightarrow> nonincr p"
  by (simp add: nonincr_def)

lemma nonincr_return [nonincr_intros]: "nonincr (\<lambda>i. Some (i, x))"
  by (simp add: nonincr_def)

lemma nonincr_fail [nonincr_intros]: "nonincr (\<lambda>i. None)"
  by (simp add: nonincr_def)

lemma nonincr_bind [nonincr_intros]:
  assumes "nonincr p" and "\<And>x. nonincr (\<lambda>i. f i x)"
  shows "nonincr (\<lambda>i. p i \<bind> (\<lambda>(i', x). f i' x))"
proof (rule nonincrI)
  fix i i'' y
  assume "p i \<bind> (\<lambda>(i', x). f i' x) = Some (i'', y)"
  then obtain i' x where "p i = Some (i', x)" and "f i' x = Some (i'', y)"
    by (auto simp: bind_eq_Some_conv)
  then have "length i' \<le> length i" and "length i'' \<le> length i'"
    using assms by (auto dest: nonincrD)
  then show "length i'' \<le> length i" by simp
qed

lemma nonincr_if [nonincr_intros]:
  "(b \<Longrightarrow> nonincr p) \<Longrightarrow> (\<not> b \<Longrightarrow> nonincr q) \<Longrightarrow> nonincr (\<lambda>i. if b then p i else q i)"
  by (simp add: nonincr_def)

end
