(* ===== verification/CryptoPan.thy ===== *)
theory CryptoPan
  imports Prelude
begin

text \<open>
  \<^verbatim>\<open>common/cryptopan.rs\<close>: prefix-preserving anonymization of IP addresses. The AES block cipher
  is a parameter: \<open>aes key block\<close> is the encryption of the 16-byte \<open>block\<close> under \<open>key\<close>, a
  block being represented by the \<^verbatim>\<open>u128\<close> whose big-endian bytes it is. Nothing is assumed of it:
  prefix preservation does not depend on the cipher.
\<close>

datatype ip_addr = V4 u32 | V6 u128

definition KEY_LEN :: nat where
  "KEY_LEN = 32"

type_synonym aes = "bytes \<Rightarrow> u128 \<Rightarrow> u128"

record crypto_pan =
  cp_cipher :: "u128 \<Rightarrow> u128"
  cp_pad :: u128

definition crypto_pan_new :: "aes \<Rightarrow> bytes \<Rightarrow> crypto_pan" where
  "crypto_pan_new aes key =
     (let aes_key = take 16 key; pad_seed = drop 16 key; cipher = aes aes_key
      in \<lparr>cp_cipher = cipher, cp_pad = cipher (from_be_bytes pad_seed)\<rparr>)"

definition prefix_mask :: "nat \<Rightarrow> u128" where
  "prefix_mask i = (if i = 0 then 0 else push_bit (128 - i) (- 1))"

text \<open>One round of the loop in \<^verbatim>\<open>anonymize_bits\<close>: the flip bit for position \<open>i\<close>.\<close>

definition flip_at :: "crypto_pan \<Rightarrow> u128 \<Rightarrow> nat \<Rightarrow> u128" where
  "flip_at self addr i =
     (let input = (addr AND prefix_mask i) OR (cp_pad self AND NOT (prefix_mask i));
          block = to_be_bytes (cp_cipher self input)
      in ucast (drop_bit 7 (block ! 0)))"

definition anonymize_bits :: "crypto_pan \<Rightarrow> u128 \<Rightarrow> nat \<Rightarrow> u128" where
  "anonymize_bits self addr bits =
     addr XOR fold (\<lambda>i flips. flips OR push_bit (127 - i) (flip_at self addr i)) [0..<bits] 0"

definition anonymize_v4 :: "crypto_pan \<Rightarrow> u32 \<Rightarrow> u32" where
  "anonymize_v4 self addr =
     (let bits = push_bit 96 (ucast addr); out = anonymize_bits self bits 32
      in ucast (drop_bit 96 out))"

definition anonymize_v6 :: "crypto_pan \<Rightarrow> u128 \<Rightarrow> u128" where
  "anonymize_v6 self addr = anonymize_bits self addr 128"

definition anonymize :: "crypto_pan \<Rightarrow> ip_addr \<Rightarrow> ip_addr" where
  "anonymize self addr =
     (case addr of V4 v4 \<Rightarrow> V4 (anonymize_v4 self v4) | V6 v6 \<Rightarrow> V6 (anonymize_v6 self v6))"

text \<open>The first \<open>n\<close> bits of two addresses are the same.\<close>

definition same_prefix :: "nat \<Rightarrow> 'a::len word \<Rightarrow> 'a word \<Rightarrow> bool" where
  "same_prefix n a b \<longleftrightarrow> drop_bit (LENGTH('a) - n) a = drop_bit (LENGTH('a) - n) b"

section \<open>Bits of the output\<close>

lemma same_prefix_bits:
  "same_prefix n a b \<longleftrightarrow> (\<forall>j \<ge> LENGTH('a) - n. bit a j = bit b j)" for a b :: "'a::len word"
proof
  assume "same_prefix n a b"
  then have eq: "drop_bit (LENGTH('a) - n) a = drop_bit (LENGTH('a) - n) b"
    by (simp add: same_prefix_def)
  have *: "bit a (LENGTH('a) - n + k) = bit b (LENGTH('a) - n + k)" for k
    using arg_cong [OF eq, of "\<lambda>w. bit w k"] by (simp add: bit_drop_bit_eq)
  show "\<forall>j \<ge> LENGTH('a) - n. bit a j = bit b j"
  proof (intro allI impI)
    show "bit a j = bit b j" if "LENGTH('a) - n \<le> j" for j
      using * [of "j - (LENGTH('a) - n)"] that by simp
  qed
next
  assume "\<forall>j \<ge> LENGTH('a) - n. bit a j = bit b j"
  then show "same_prefix n a b"
    by (auto simp: same_prefix_def bit_eq_iff bit_drop_bit_eq)
qed

lemma same_prefix_0 [simp]: "same_prefix 0 a b"
  by (auto simp: same_prefix_bits dest: bit_imp_le_length)

lemma flip_at_bit: "bit (flip_at self addr i) k \<longleftrightarrow> k = 0 \<and> bit (flip_at self addr i) 0"
proof -
  have "bit (ucast (drop_bit 7 b) :: u128) k \<longleftrightarrow> k = 0 \<and> bit b 7" for b :: u8 and k
    using bit_imp_le_length [of b "7 + k"] by (auto simp: bit_simps)
  then show ?thesis
    unfolding flip_at_def Let_def by blast
qed

lemma flips_bit:
  assumes "bits \<le> 128"
  shows "bit (fold (\<lambda>i flips. flips OR push_bit (127 - i) (flip_at self addr i)) [0..<bits] 0) j \<longleftrightarrow>
    128 - bits \<le> j \<and> j < 128 \<and> bit (flip_at self addr (127 - j)) 0"
  using assms
proof (induction bits)
  case 0
  then show ?case by simp
next
  case (Suc n)
  then show ?case
    using flip_at_bit [of self addr n "j - (127 - n)"]
    by (auto simp: bit_simps le_eq_less_or_eq not_less_eq)
qed

lemma anonymize_bits_bit:
  assumes "bits \<le> 128"
  shows "bit (anonymize_bits self addr bits) j \<longleftrightarrow>
    bit addr j \<noteq> (128 - bits \<le> j \<and> j < 128 \<and> bit (flip_at self addr (127 - j)) 0)"
  unfolding anonymize_bits_def bit_xor_iff flips_bit [OF assms] by blast

lemma prefix_mask_bit: "i \<le> 128 \<Longrightarrow> bit (prefix_mask i) j \<longleftrightarrow> 128 - i \<le> j \<and> j < 128"
  by (auto simp: prefix_mask_def bit_simps)

text \<open>The flip of a bit depends on the bits before it only.\<close>

lemma flip_at_cong:
  assumes "same_prefix i a b" and "i \<le> 128"
  shows "flip_at self a i = flip_at self b i"
proof -
  have "a AND prefix_mask i = b AND prefix_mask i"
    using assms
    by (intro bit_word_eqI) (auto simp: same_prefix_bits bit_simps prefix_mask_bit)
  then show ?thesis by (simp add: flip_at_def)
qed

lemma same_prefix_Suc:
  fixes a b :: "'a::len word"
  assumes "n < LENGTH('a)"
  shows "same_prefix (Suc n) a b \<longleftrightarrow>
    same_prefix n a b \<and> bit a (LENGTH('a) - Suc n) = bit b (LENGTH('a) - Suc n)"
proof -
  have "LENGTH('a) - Suc n \<le> j \<longleftrightarrow> LENGTH('a) - n \<le> j \<or> j = LENGTH('a) - Suc n" for j
    using assms by linarith
  then show ?thesis
    unfolding same_prefix_bits by blast
qed

lemma anonymize_bits_prefix:
  assumes "bits \<le> 128" and "n \<le> bits"
  shows "same_prefix n (anonymize_bits self a bits) (anonymize_bits self b bits) \<longleftrightarrow> same_prefix n a b"
  using assms(2)
proof (induction n)
  case 0
  then show ?case by simp
next
  case (Suc n)
  have "flip_at self a n = flip_at self b n" if "same_prefix n a b"
    using that Suc.prems assms(1) by (intro flip_at_cong) simp_all
  with Suc assms(1) show ?case
    by (auto simp: same_prefix_Suc anonymize_bits_bit)
qed

lemma same_prefix_v4:
  fixes a b :: u32
  assumes "n \<le> 32"
  shows "same_prefix n (push_bit 96 (ucast a) :: u128) (push_bit 96 (ucast b)) \<longleftrightarrow> same_prefix n a b"
proof -
  have *: "bit (push_bit 96 (ucast w) :: u128) j \<longleftrightarrow> 96 \<le> j \<and> bit w (j - 96)" for w :: u32 and j
    using bit_imp_le_length [of w "j - 96"] by (auto simp: bit_simps)
  show ?thesis
    unfolding same_prefix_bits *
  proof (rule iffI; intro allI impI)
    fix j
    assume "\<forall>j \<ge> LENGTH(128) - n. (96 \<le> j \<and> bit a (j - 96)) = (96 \<le> j \<and> bit b (j - 96))"
      and "LENGTH(32) - n \<le> j"
    then show "bit a j = bit b j"
      using assms by (auto dest: spec [of _ "j + 96"])
  next
    fix j
    assume "\<forall>j \<ge> LENGTH(32) - n. bit a j = bit b j" and "LENGTH(128) - n \<le> j"
    then show "(96 \<le> j \<and> bit a (j - 96)) = (96 \<le> j \<and> bit b (j - 96))"
      using assms by (auto dest: spec [of _ "j - 96"])
  qed
qed

lemma same_prefix_high:
  fixes x y :: u128
  assumes "n \<le> 32"
  shows "same_prefix n (ucast (drop_bit 96 x) :: u32) (ucast (drop_bit 96 y)) \<longleftrightarrow> same_prefix n x y"
proof -
  have *: "bit (ucast (drop_bit 96 w) :: u32) j \<longleftrightarrow> bit w (j + 96)" for w :: u128 and j
    using bit_imp_le_length [of w "j + 96"] by (auto simp: bit_simps add.commute)
  show ?thesis
    unfolding same_prefix_bits *
  proof (rule iffI; intro allI impI)
    fix j
    assume "\<forall>j \<ge> LENGTH(32) - n. bit x (j + 96) = bit y (j + 96)" and "LENGTH(128) - n \<le> j"
    then show "bit x j = bit y j"
      using assms by (auto dest: spec [of _ "j - 96"])
  next
    fix j
    assume "\<forall>j \<ge> LENGTH(128) - n. bit x j = bit y j" and "LENGTH(32) - n \<le> j"
    then show "bit x (j + 96) = bit y (j + 96)"
      using assms by auto
  qed
qed

lemma same_prefix_full: "same_prefix LENGTH('a) a b \<longleftrightarrow> a = b" for a b :: "'a::len word"
  by (simp add: same_prefix_def)

lemma anonymize_v6_prefix:
  "n \<le> 128 \<Longrightarrow> same_prefix n (anonymize_v6 self a) (anonymize_v6 self b) \<longleftrightarrow> same_prefix n a b"
  unfolding anonymize_v6_def by (intro anonymize_bits_prefix) simp_all

lemma anonymize_v4_prefix:
  "n \<le> 32 \<Longrightarrow> same_prefix n (anonymize_v4 self a) (anonymize_v4 self b) \<longleftrightarrow> same_prefix n a b"
  by (simp add: anonymize_v4_def Let_def same_prefix_high anonymize_bits_prefix same_prefix_v4)

section \<open>Properties\<close>

text \<open>Crypto-PAn preserves prefixes and nothing more: for every cipher and pad, two IPv6
  addresses share their first \<open>n\<close> bits exactly when their anonymized forms do, for every
  \<open>n\<close> up to 128.\<close>

theorem anonymize_v6_prefix_preserving:
  assumes "n \<le> 128"
  shows "same_prefix n (anonymize_v6 self a) (anonymize_v6 self b) \<longleftrightarrow> same_prefix n a b"
  using assms by (rule anonymize_v6_prefix)

theorem anonymize_v6_prefix_preserving_witness:
  "same_prefix 64 (anonymize_v6 (crypto_pan_new (\<lambda>k b. NOT b) []) 0x20010db8000000010000000000000001)
     (anonymize_v6 (crypto_pan_new (\<lambda>k b. NOT b) []) 0x20010db800000001ffff000000000002)"
  using anonymize_v6_prefix_preserving [of 64 "crypto_pan_new (\<lambda>k b. NOT b) []"
      "0x20010db8000000010000000000000001" "0x20010db800000001ffff000000000002"]
  by (simp add: same_prefix_def)

text \<open>C40. The same for IPv4 addresses, which the code places in the first 32 bits of the block, for
  every \<open>n\<close> up to 32.\<close>

theorem anonymize_v4_prefix_preserving:
  assumes "n \<le> 32"
  shows "same_prefix n (anonymize_v4 self a) (anonymize_v4 self b) \<longleftrightarrow> same_prefix n a b"
  using assms by (rule anonymize_v4_prefix)

theorem anonymize_v4_prefix_preserving_witness:
  "same_prefix 24 (anonymize_v4 (crypto_pan_new (\<lambda>k b. NOT b) []) 0xC0000201)
     (anonymize_v4 (crypto_pan_new (\<lambda>k b. NOT b) []) 0xC00002FE)"
  using anonymize_v4_prefix_preserving [of 24 "crypto_pan_new (\<lambda>k b. NOT b) []" "0xC0000201" "0xC00002FE"]
  by (simp add: same_prefix_def)

text \<open>Anonymization is one-to-one on addresses of either family, so distinct hosts stay
  distinct, and it never changes the family.\<close>

theorem anonymize_injective: "anonymize self a = anonymize self b \<longleftrightarrow> a = b"
proof (cases a; cases b)
  fix x y
  assume "a = V4 x" "b = V4 y"
  then show ?thesis
    using anonymize_v4_prefix [of 32 self x y] by (simp add: anonymize_def same_prefix_def)
next
  fix x y
  assume "a = V6 x" "b = V6 y"
  then show ?thesis
    using anonymize_v6_prefix [of 128 self x y] by (simp add: anonymize_def same_prefix_def)
qed (simp_all add: anonymize_def)

end
