(* ===== verification/Nom.thy ===== *)
theory Nom
  imports Prelude
begin

text \<open>
  The parsing and byte-writing libraries the source calls, \<^verbatim>\<open>nom\<close> and \<^verbatim>\<open>bytes\<close>, as parameters of
  the model. A parser of the source becomes a definition whose first argument is a record of the
  library functions it calls; what their documentation says of them is the locale \<open>nom_spec\<close>
  (and \<open>bufmut_spec\<close>), whose predicate is the hypothesis of the theorems. The records
  \<open>nom_ref\<close> and \<open>bufmut_ref\<close> show that the documented behaviour can be implemented.

  \<^verbatim>\<open>nom\<close>'s transforming combinators (\<^verbatim>\<open>map\<close>, \<^verbatim>\<open>map_opt\<close>, \<^verbatim>\<open>map_res\<close>, \<^verbatim>\<open>map_parser\<close>, \<^verbatim>\<open>verify\<close>,
  \<^verbatim>\<open>cond\<close>, \<^verbatim>\<open>peek\<close>, \<^verbatim>\<open>fail\<close>) are written out at their use as a step on the result of the
  parser they wrap. Its loops (\<^verbatim>\<open>many0\<close>, \<^verbatim>\<open>count\<close>, \<^verbatim>\<open>many\<close>) are parameters, one per type of
  element since a parameter has one type; each protocol extends the record \<open>nom\<close> by the
  loops it uses.
\<close>

section \<open>The interface\<close>

record nom =
  nom_take :: "nat \<Rightarrow> bytes parser"
  nom_be_u8 :: "u8 parser"
  nom_be_u16 :: "u16 parser"
  nom_be_u24 :: "u32 parser"
  nom_be_u32 :: "u32 parser"
  nom_be_u64 :: "u64 parser"
  nom_be_u128 :: "u128 parser"
  nom_be_i8 :: "u8 parser" \<comment> \<open>signed integers and floats are the words of their bits\<close>
  nom_be_i16 :: "u16 parser"
  nom_be_i24 :: "u32 parser"
  nom_be_i32 :: "u32 parser"
  nom_be_i64 :: "u64 parser"
  nom_be_f32 :: "u32 parser"
  nom_be_f64 :: "u64 parser"

text \<open>A big-endian read of \<open>n\<close> bytes, an error when there are fewer.\<close>

definition be_read :: "nat \<Rightarrow> 'a::len word parser" where
  "be_read n i = (if n \<le> length i then Some (drop n i, from_be_bytes (take n i)) else None)"

definition be_read_i24 :: "u32 parser" where
  "be_read_i24 i = map_option (\<lambda>(i, w). (i, signed_take_bit 23 w)) (be_read 3 i)"

text \<open>
  The loops. \<^verbatim>\<open>count\<close> runs its parser a given number of times. \<^verbatim>\<open>many0\<close> runs it until it fails
  and returns what it gathered, but fails itself when the parser succeeds without consuming,
  which would never end. A closure that mutates its environment is a parser with a state; the
  state keeps the changes of a failing run.
\<close>

primrec count_loop :: "'a parser \<Rightarrow> nat \<Rightarrow> 'a list parser" where
  "count_loop p 0 i = Some (i, [])"
| "count_loop p (Suc n) i = do {
     (i, x) \<leftarrow> p i;
     (i, xs) \<leftarrow> count_loop p n i;
     Some (i, x # xs)
   }"

function (sequential) many0_loop :: "'a parser \<Rightarrow> 'a list parser" where
  "many0_loop p i =
     (case p i of
        None \<Rightarrow> Some (i, [])
      | Some (i', x) \<Rightarrow>
          if length i' < length i
          then (case many0_loop p i' of None \<Rightarrow> None | Some (i'', xs) \<Rightarrow> Some (i'', x # xs))
          else None)"
  by pat_completeness auto
termination
  by (relation "measure (\<lambda>(p, i). length i)") auto

type_synonym ('s, 'a) st_parser = "'s \<Rightarrow> bytes \<Rightarrow> 's \<times> (bytes \<times> 'a) option"

function (sequential) many0_st_loop :: "('s, 'a) st_parser \<Rightarrow> ('s, 'a list) st_parser" where
  "many0_st_loop p s i =
     (case p s i of
        (s', None) \<Rightarrow> (s', Some (i, []))
      | (s', Some (i', x)) \<Rightarrow>
          if length i' < length i
          then (case many0_st_loop p s' i' of
                  (s'', None) \<Rightarrow> (s'', None)
                | (s'', Some (i'', xs)) \<Rightarrow> (s'', Some (i'', x # xs)))
          else (s', None))"
  by pat_completeness auto
termination
  by (relation "measure (\<lambda>(p, s, i). length i)") auto

declare many0_loop.simps [simp del] many0_st_loop.simps [simp del]

definition st_nonincr :: "('s, 'a) st_parser \<Rightarrow> bool" where
  "st_nonincr p \<longleftrightarrow> (\<forall>s i s' i' x. p s i = (s', Some (i', x)) \<longrightarrow> length i' \<le> length i)"

text \<open>
  What the documentation says of a function that stands for one of the loops. Parsers that
  return more input than they were given do not exist: a parser returns a suffix of its input.
\<close>

definition is_count :: "('a parser \<Rightarrow> nat \<Rightarrow> 'a list parser) \<Rightarrow> bool" where
  "is_count f \<longleftrightarrow> (\<forall>p n i. nonincr p \<longrightarrow> f p n i = count_loop p n i)"

definition consuming :: "'a parser \<Rightarrow> bool" where
  "consuming p \<longleftrightarrow> (\<forall>i i' x. p i = Some (i', x) \<longrightarrow> length i' < length i)"

text \<open>\<^verbatim>\<open>many(n, p)\<close> with a number for its range: exactly \<open>n\<close> runs, for a parser that consumes.\<close>

definition is_many :: "(nat \<Rightarrow> 'a parser \<Rightarrow> 'a list parser) \<Rightarrow> bool" where
  "is_many f \<longleftrightarrow> (\<forall>n p i. consuming p \<longrightarrow> f n p i = count_loop p n i)"

definition is_many0 :: "('a parser \<Rightarrow> 'a list parser) \<Rightarrow> bool" where
  "is_many0 f \<longleftrightarrow> (\<forall>p i. nonincr p \<longrightarrow> f p i = many0_loop p i)"

definition is_many0_st :: "(('s, 'a) st_parser \<Rightarrow> ('s, 'a list) st_parser) \<Rightarrow> bool" where
  "is_many0_st f \<longleftrightarrow> (\<forall>p s i. st_nonincr p \<longrightarrow> f p s i = many0_st_loop p s i)"

definition nom_ref :: nom where
  "nom_ref = \<lparr>nom_take = (\<lambda>n i. if n \<le> length i then Some (drop n i, take n i) else None),
     nom_be_u8 = be_read 1, nom_be_u16 = be_read 2, nom_be_u24 = be_read 3,
     nom_be_u32 = be_read 4, nom_be_u64 = be_read 8, nom_be_u128 = be_read 16,
     nom_be_i8 = be_read 1, nom_be_i16 = be_read 2, nom_be_i24 = be_read_i24,
     nom_be_i32 = be_read 4, nom_be_i64 = be_read 8,
     nom_be_f32 = be_read 4, nom_be_f64 = be_read 8\<rparr>"

text \<open>Writing, at \<^verbatim>\<open>B = Vec<u8>\<close>: each function appends to the buffer.\<close>

record bufmut =
  put_u8 :: "u8 \<Rightarrow> bytes \<Rightarrow> bytes"
  put_u16 :: "u16 \<Rightarrow> bytes \<Rightarrow> bytes"
  put_u32 :: "u32 \<Rightarrow> bytes \<Rightarrow> bytes"
  put_u64 :: "u64 \<Rightarrow> bytes \<Rightarrow> bytes"
  put_i8 :: "u8 \<Rightarrow> bytes \<Rightarrow> bytes"
  put_i16 :: "u16 \<Rightarrow> bytes \<Rightarrow> bytes"
  put_i32 :: "u32 \<Rightarrow> bytes \<Rightarrow> bytes"
  put_i64 :: "u64 \<Rightarrow> bytes \<Rightarrow> bytes"
  put_f32 :: "u32 \<Rightarrow> bytes \<Rightarrow> bytes"
  put_f64 :: "u64 \<Rightarrow> bytes \<Rightarrow> bytes"
  put_slice :: "bytes \<Rightarrow> bytes \<Rightarrow> bytes"
  put_bytes :: "u8 \<Rightarrow> nat \<Rightarrow> bytes \<Rightarrow> bytes"

definition bufmut_ref :: bufmut where
  "bufmut_ref = \<lparr>put_u8 = (\<lambda>w b. b @ to_be_bytes w), put_u16 = (\<lambda>w b. b @ to_be_bytes w),
     put_u32 = (\<lambda>w b. b @ to_be_bytes w), put_u64 = (\<lambda>w b. b @ to_be_bytes w),
     put_i8 = (\<lambda>w b. b @ to_be_bytes w), put_i16 = (\<lambda>w b. b @ to_be_bytes w),
     put_i32 = (\<lambda>w b. b @ to_be_bytes w), put_i64 = (\<lambda>w b. b @ to_be_bytes w),
     put_f32 = (\<lambda>w b. b @ to_be_bytes w), put_f64 = (\<lambda>w b. b @ to_be_bytes w),
     put_slice = (\<lambda>s b. b @ s), put_bytes = (\<lambda>v n b. b @ replicate n v)\<rparr>"

text \<open>\<^verbatim>\<open>map(p, f)\<close>, on the result of \<^verbatim>\<open>p\<close>.\<close>

abbreviation mapped :: "('a \<Rightarrow> 'b) \<Rightarrow> (bytes \<times> 'a) option \<Rightarrow> (bytes \<times> 'b) option" where
  "mapped f r \<equiv> map_option (\<lambda>(rest, x). (rest, f x)) r"

section \<open>Parsers of a fixed length\<close>

text \<open>A parser that succeeds exactly when \<open>k\<close> bytes are left, and consumes those.\<close>

definition fixed_len :: "nat \<Rightarrow> 'a parser \<Rightarrow> bool" where
  "fixed_len k p \<longleftrightarrow>
     (\<forall>i. if length i < k then p i = None else (\<exists>x. p i = Some (drop k i, x)))"

named_theorems fixed_len_intros \<open>composition of parsers of a fixed length\<close>

lemma fixed_lenD:
  assumes "fixed_len k p"
  shows "p i = None \<longleftrightarrow> length i < k" and "p i = Some (i', x) \<Longrightarrow> i' = drop k i \<and> k \<le> length i"
  using assms [unfolded fixed_len_def, rule_format, of i] by (auto split: if_splits)

lemma fixed_len_eq: "fixed_len k p \<Longrightarrow> k = n \<Longrightarrow> fixed_len n p"
  by simp

lemma fixed_len_return [fixed_len_intros]: "fixed_len 0 (\<lambda>i. Some (i, x))"
  by (simp add: fixed_len_def)

lemma fixed_len_bind [fixed_len_intros]:
  assumes "fixed_len k p" and "\<And>x. fixed_len n (\<lambda>i. f i x)"
  shows "fixed_len (k + n) (\<lambda>i. p i \<bind> (\<lambda>(i', x). f i' x))"
  unfolding fixed_len_def
proof
  fix i
  show "if length i < k + n then p i \<bind> (\<lambda>(i', x). f i' x) = None
    else \<exists>x. p i \<bind> (\<lambda>(i', x). f i' x) = Some (drop (k + n) i, x)"
  proof (cases "length i < k")
    case True
    then have "p i = None" using fixed_lenD(1) [OF assms(1)] by simp
    with True show ?thesis by simp
  next
    case False
    then obtain x where "p i = Some (drop k i, x)"
      using assms(1) unfolding fixed_len_def by meson
    moreover have "if length (drop k i) < n then f (drop k i) x = None
        else \<exists>y. f (drop k i) x = Some (drop n (drop k i), y)"
      using assms(2) [of x] unfolding fixed_len_def by blast
    ultimately show ?thesis
      using False by (auto simp: add.commute split: if_splits)
  qed
qed

lemma fixed_len_be_read [fixed_len_intros]: "fixed_len n (be_read n)"
  by (simp add: fixed_len_def be_read_def)

lemma fixed_len_nonincr: "fixed_len k p \<Longrightarrow> nonincr p"
  by (auto intro!: nonincrI dest: fixed_lenD(2))

lemma fixed_len_map [fixed_len_intros]:
  "fixed_len k p \<Longrightarrow> fixed_len k (\<lambda>i. map_option (\<lambda>(i', x). (i', g x)) (p i))"
  unfolding fixed_len_def by (metis (mono_tags, lifting) case_prod_conv option.map(1) option.map(2))

lemma fixed_len_if [fixed_len_intros]:
  "(b \<Longrightarrow> fixed_len k p) \<Longrightarrow> (\<not> b \<Longrightarrow> fixed_len k q) \<Longrightarrow> fixed_len k (\<lambda>i. if b then p i else q i)"
  by (cases b) simp_all

text \<open>A parser that also checks something of its input.\<close>

definition guarded_len :: "nat \<Rightarrow> (bytes \<Rightarrow> bool) \<Rightarrow> 'a parser \<Rightarrow> bool" where
  "guarded_len k g p \<longleftrightarrow>
     (\<forall>i. if length i < k \<or> \<not> g i then p i = None else (\<exists>x. p i = Some (drop k i, x)))"

lemma guarded_lenD:
  assumes "guarded_len k g p"
  shows "p i = None \<longleftrightarrow> length i < k \<or> \<not> g i"
    and "p i = Some (i', x) \<Longrightarrow> i' = drop k i \<and> k \<le> length i \<and> g i"
  using assms [unfolded guarded_len_def, rule_format, of i] by (auto split: if_splits)

lemma guarded_len_nonincr: "guarded_len k g p \<Longrightarrow> nonincr p"
  by (auto intro!: nonincrI dest: guarded_lenD(2))

lemma guarded_len_bind:
  assumes "fixed_len k p" and "\<And>x. fixed_len n (\<lambda>i. f i x)"
  shows "guarded_len (k + n) (\<lambda>i. \<exists>i' x. p i = Some (i', x) \<and> P x)
    (\<lambda>i. (p i \<bind> (\<lambda>(i', x). if P x then Some (i', x) else None)) \<bind> (\<lambda>(i', x). f i' x))"
  unfolding guarded_len_def
proof
  fix i
  let ?q = "(p i \<bind> (\<lambda>(i', x). if P x then Some (i', x) else None)) \<bind> (\<lambda>(i', x). f i' x)"
  show "if length i < k + n \<or> \<not> (\<exists>i' x. p i = Some (i', x) \<and> P x) then ?q = None
    else \<exists>x. ?q = Some (drop (k + n) i, x)"
  proof (cases "p i")
    case None
    then show ?thesis by simp
  next
    case (Some r)
    obtain x where r: "r = (drop k i, x)" and k: "k \<le> length i"
      using fixed_lenD(2) [OF assms(1), of i] Some by (cases r) auto
    have "if length (drop k i) < n then f (drop k i) x = None
        else \<exists>y. f (drop k i) x = Some (drop n (drop k i), y)"
      using assms(2) [of x] unfolding fixed_len_def by blast
    with Some r k show ?thesis
      by (auto simp: add.commute split: if_splits)
  qed
qed

section \<open>The loops\<close>

lemma count_loop_fun:
  "count_loop p 0 = (\<lambda>i. Some (i, []))"
  "count_loop p (Suc n) = (\<lambda>i. p i \<bind> (\<lambda>(i, x). count_loop p n i \<bind> (\<lambda>(i, xs). Some (i, x # xs))))"
  by (simp_all add: fun_eq_iff)

lemma nonincr_count_loop [nonincr_intros]: "nonincr p \<Longrightarrow> nonincr (count_loop p n)"
proof (induction n)
  case 0
  show ?case unfolding count_loop_fun by (intro nonincr_intros)
next
  case (Suc n)
  show ?case unfolding count_loop_fun by (intro nonincr_intros Suc)
qed

lemma count_loop_length: "count_loop p n i = Some (i', xs) \<Longrightarrow> length xs = n"
  by (induction n arbitrary: i xs) (auto simp: bind_eq_Some_conv)

lemma fixed_len_count_loop [fixed_len_intros]: "fixed_len k p \<Longrightarrow> fixed_len (n * k) (count_loop p n)"
proof (induction n)
  case 0
  then show ?case by (simp add: fixed_len_def)
next
  case (Suc n)
  have "fixed_len (k + (n * k + 0)) (count_loop p (Suc n))"
    unfolding count_loop_fun by (intro fixed_len_intros Suc)
  then show ?case by (rule fixed_len_eq) simp
qed

lemma count_loop_concat:
  assumes "\<And>x r. x \<in> set xs \<Longrightarrow> p (e x @ r) = Some (r, x)"
  shows "count_loop p (length xs) (concat (map e xs) @ r) = Some (r, xs)"
  using assms by (induction xs) simp_all

lemma nonincr_many0_loop [nonincr_intros]: "nonincr (many0_loop p)"
proof (rule nonincrI)
  show "many0_loop p i = Some (i', xs) \<Longrightarrow> length i' \<le> length i" for i i' xs
  proof (induction p i arbitrary: xs rule: many0_loop.induct)
    case (1 p i)
    then show ?case
      by (subst (asm) (2) many0_loop.simps) (fastforce split: option.splits if_splits)
  qed
qed

text \<open>\<open>many0\<close> never fails on a parser that consumes whenever it succeeds.\<close>

lemma many0_loop_total:
  assumes "\<And>i i' x. p i = Some (i', x) \<Longrightarrow> length i' < length i"
  shows "\<exists>i' xs. many0_loop p i = Some (i', xs) \<and> p i' = None"
proof (induction "length i" arbitrary: i rule: less_induct)
  case less
  show ?case
  proof (cases "p i")
    case None
    then show ?thesis by (subst many0_loop.simps) simp
  next
    case (Some r)
    obtain i1 x where r: "r = (i1, x)" by force
    with Some assms have lt: "length i1 < length i" by simp
    from less [OF this] obtain i' xs where "many0_loop p i1 = Some (i', xs)" "p i' = None"
      by blast
    with Some r lt show ?thesis
      by (subst many0_loop.simps) simp
  qed
qed

lemma many0_loop_elems:
  "many0_loop p i = Some (i', xs) \<Longrightarrow> x \<in> set xs \<Longrightarrow> \<exists>j j'. p j = Some (j', x)"
proof (induction p i arbitrary: xs rule: many0_loop.induct)
  case (1 p i)
  then show ?case
    by (subst (asm) (2) many0_loop.simps) (fastforce split: option.splits if_splits)
qed

text \<open>A loop over a parser that reads a fixed number of bytes.\<close>

lemma many0_loop_fixed:
  assumes "fixed_len k p" and "0 < k"
  shows "\<exists>xs. many0_loop p i = Some (drop (length i div k * k) i, xs) \<and> length xs = length i div k \<and>
    (\<forall>n < length i div k. p (drop (n * k) i) = Some (drop (n * k + k) i, xs ! n))"
proof (induction "length i" arbitrary: i rule: less_induct)
  case less
  show ?case
  proof (cases "length i < k")
    case True
    then have "p i = None" using fixed_lenD(1) [OF assms(1)] by simp
    with True show ?thesis by (subst many0_loop.simps) simp
  next
    case False
    then obtain x where x: "p i = Some (drop k i, x)"
      using assms(1) unfolding fixed_len_def by meson
    let ?i = "drop k i"
    have "length ?i < length i" using False assms(2) by simp
    then obtain xs where xs: "many0_loop p ?i = Some (drop (length ?i div k * k) ?i, xs)"
      "length xs = length ?i div k"
      "\<forall>n < length ?i div k. p (drop (n * k) ?i) = Some (drop (n * k + k) ?i, xs ! n)"
      using less by blast
    have div: "length i div k = Suc (length ?i div k)"
      using False assms(2) by (simp add: le_div_geq)
    have "many0_loop p i = Some (drop (length i div k * k) i, x # xs)"
      using x xs(1) \<open>length ?i < length i\<close>
      by (subst many0_loop.simps) (simp add: div add.commute)
    moreover have "p (drop (n * k) i) = Some (drop (n * k + k) i, (x # xs) ! n)"
      if "n < length i div k" for n
      using that x xs(3) unfolding div by (cases n) (simp_all add: add_ac)
    ultimately show ?thesis
      using xs(2) unfolding div by auto
  qed
qed

lemma many0_loop_zero:
  assumes "fixed_len 0 p"
  shows "many0_loop p i = None"
proof -
  obtain x where "p i = Some (i, x)"
    using assms unfolding fixed_len_def by force
  then show ?thesis by (subst many0_loop.simps) simp
qed

text \<open>The loop over a closure with a state.\<close>

definition st_consuming :: "('s, 'a) st_parser \<Rightarrow> bool" where
  "st_consuming p \<longleftrightarrow> (\<forall>s i s' i' x. p s i = (s', Some (i', x)) \<longrightarrow> length i' < length i)"

lemma st_consuming_nonincr: "st_consuming p \<Longrightarrow> st_nonincr p"
  unfolding st_consuming_def st_nonincr_def by (meson less_imp_le)

lemma many0_st_loop_total:
  assumes "st_consuming p"
  shows "\<exists>s' s0 i' xs. many0_st_loop p s i = (s', Some (i', xs)) \<and> p s0 i' = (s', None)"
proof (induction "length i" arbitrary: s i rule: less_induct)
  case less
  show ?case
  proof (cases "p s i")
    case (Pair s1 r)
    show ?thesis
    proof (cases r)
      case None
      with Pair show ?thesis by (subst many0_st_loop.simps) auto
    next
      case (Some ix)
      obtain i1 x where ix: "ix = (i1, x)" by force
      with Pair Some assms have lt: "length i1 < length i"
        unfolding st_consuming_def by blast
      from less [OF this, of s1] obtain s' s0 i' xs
        where "many0_st_loop p s1 i1 = (s', Some (i', xs))" "p s0 i' = (s', None)" by blast
      with Pair Some ix lt show ?thesis
        by (subst many0_st_loop.simps) auto
    qed
  qed
qed

lemma many0_st_loop_inv:
  assumes "\<And>s i s' r. I s \<Longrightarrow> p s i = (s', r) \<Longrightarrow> I s' \<and> (\<forall>i' x. r = Some (i', x) \<longrightarrow> Q x)"
    and "I s" and "many0_st_loop p s i = (s', r)"
  shows "I s' \<and> (\<forall>i' xs. r = Some (i', xs) \<longrightarrow> (\<forall>x\<in>set xs. Q x))"
  using assms(2,3)
proof (induction "length i" arbitrary: s i s' r rule: less_induct)
  case less
  obtain s1 r1 where p: "p s i = (s1, r1)" by force
  then have I: "I s1" "r1 = Some (i1, x) \<Longrightarrow> Q x" for i1 x
    using assms(1) less.prems(1) by blast+
  show ?case
  proof (cases r1)
    case None
    then show ?thesis
      using less.prems(2) p I(1) by (subst (asm) many0_st_loop.simps) auto
  next
    case (Some ix)
    obtain i1 x where ix: "ix = (i1, x)" by force
    show ?thesis
    proof (cases "length i1 < length i")
      case False
      then show ?thesis
        using less.prems(2) p I(1) Some ix by (subst (asm) many0_st_loop.simps) auto
    next
      case True
      obtain s2 r2 where l: "many0_st_loop p s1 i1 = (s2, r2)" by force
      have "I s2 \<and> (\<forall>i' xs. r2 = Some (i', xs) \<longrightarrow> (\<forall>x\<in>set xs. Q x))"
        using less.hyps [OF True I(1) l] .
      then show ?thesis
        using less.prems(2) p Some ix True l I(2)
        by (subst (asm) many0_st_loop.simps) (auto split: option.splits)
    qed
  qed
qed

lemma many0_st_loop_state:
  assumes "\<And>s i. I s \<Longrightarrow> I (fst (p s i))" and "I s"
  shows "I (fst (many0_st_loop p s i))"
proof -
  have "I s' \<and> (\<forall>i' x. r = Some (i', x) \<longrightarrow> True)" if "I s" "p s i = (s', r)" for s i s' r
    using assms(1) [OF that(1), of i] that(2) by simp
  moreover obtain s' r where "many0_st_loop p s i = (s', r)" by force
  ultimately show ?thesis
    using many0_st_loop_inv [where I = I and Q = "\<lambda>_. True" and p = p and s = s] assms(2) by simp
qed

lemma is_countD: "is_count f \<Longrightarrow> nonincr p \<Longrightarrow> f p n = count_loop p n"
  by (auto simp: is_count_def)

lemma is_many0D: "is_many0 f \<Longrightarrow> nonincr p \<Longrightarrow> f p = many0_loop p"
  by (auto simp: is_many0_def)

lemma is_many0_stD: "is_many0_st f \<Longrightarrow> st_nonincr p \<Longrightarrow> f p s = many0_st_loop p s"
  by (auto simp: is_many0_st_def)

lemma is_manyD: "is_many f \<Longrightarrow> consuming p \<Longrightarrow> f n p = count_loop p n"
  by (auto simp: is_many_def)

lemma is_loops [simp]: "is_count count_loop" "is_many0 many0_loop" "is_many0_st many0_st_loop"
  "is_many (\<lambda>n p. count_loop p n)"
  by (simp_all add: is_count_def is_many0_def is_many0_st_def is_many_def)

lemma consuming_nonincr: "consuming p \<Longrightarrow> nonincr p"
  by (auto simp: consuming_def intro!: nonincrI intro: less_imp_le)

lemma consuming_bind:
  assumes "consuming p" and "\<And>x. nonincr (\<lambda>i. f i x)"
  shows "consuming (\<lambda>i. p i \<bind> (\<lambda>(i', x). f i' x))"
  unfolding consuming_def
proof (intro allI impI)
  fix i i2 y
  assume "p i \<bind> (\<lambda>(i', x). f i' x) = Some (i2, y)"
  then obtain i1 x where "p i = Some (i1, x)" and "f i1 x = Some (i2, y)"
    by (auto simp: bind_eq_Some_conv)
  then have "length i1 < length i" and "length i2 \<le> length i1"
    using assms by (auto simp: consuming_def dest: nonincrD)
  then show "length i2 < length i" by simp
qed

lemma fixed_len_consuming: "fixed_len k p \<Longrightarrow> 0 < k \<Longrightarrow> consuming p"
  by (auto simp: consuming_def dest: fixed_lenD(2))

section \<open>The documented behaviour\<close>

locale nom_spec =
  fixes N :: "'z nom_scheme"
  assumes take_spec: "nom_take N n i = (if n \<le> length i then Some (drop n i, take n i) else None)"
    and be_u8_spec: "nom_be_u8 N = be_read 1"
    and be_u16_spec: "nom_be_u16 N = be_read 2"
    and be_u24_spec: "nom_be_u24 N = be_read 3"
    and be_u32_spec: "nom_be_u32 N = be_read 4"
    and be_u64_spec: "nom_be_u64 N = be_read 8"
    and be_u128_spec: "nom_be_u128 N = be_read 16"
    and be_i8_spec: "nom_be_i8 N = be_read 1"
    and be_i16_spec: "nom_be_i16 N = be_read 2"
    and be_i24_spec: "nom_be_i24 N = be_read_i24"
    and be_i32_spec: "nom_be_i32 N = be_read 4"
    and be_i64_spec: "nom_be_i64 N = be_read 8"
    and be_f32_spec: "nom_be_f32 N = be_read 4"
    and be_f64_spec: "nom_be_f64 N = be_read 8"
begin

lemmas be_specs = be_u8_spec be_u16_spec be_u24_spec be_u32_spec be_u64_spec be_u128_spec
  be_i8_spec be_i16_spec be_i24_spec be_i32_spec be_i64_spec be_f32_spec be_f64_spec

lemma fixed_take [fixed_len_intros]: "fixed_len n (nom_take N n)"
  by (simp add: fixed_len_def take_spec)

lemma fixed_i24: "fixed_len 3 be_read_i24"
  unfolding be_read_i24_def by (intro fixed_len_intros)

lemma fixed_reads [fixed_len_intros]:
  "fixed_len 1 (nom_be_u8 N)" "fixed_len 2 (nom_be_u16 N)" "fixed_len 3 (nom_be_u24 N)"
  "fixed_len 4 (nom_be_u32 N)" "fixed_len 8 (nom_be_u64 N)" "fixed_len 16 (nom_be_u128 N)"
  "fixed_len 1 (nom_be_i8 N)" "fixed_len 2 (nom_be_i16 N)" "fixed_len 3 (nom_be_i24 N)"
  "fixed_len 4 (nom_be_i32 N)" "fixed_len 8 (nom_be_i64 N)"
  "fixed_len 4 (nom_be_f32 N)" "fixed_len 8 (nom_be_f64 N)"
  by (simp_all only: be_specs fixed_len_be_read fixed_i24)

lemmas nonincr_reads [nonincr_intros] = fixed_reads [THEN fixed_len_nonincr]
  fixed_take [THEN fixed_len_nonincr]

lemma take_append [nom_simps]: "length bs = n \<Longrightarrow> nom_take N n (bs @ r) = Some (r, bs)"
  by (simp add: take_spec)

lemma be_read_append:
  "8 * n = LENGTH('a) \<Longrightarrow> be_read n (to_be_bytes (w :: 'a::len word) @ r) = Some (r, w)"
proof -
  assume n: "8 * n = LENGTH('a)"
  then have "8 dvd LENGTH('a)" and "LENGTH('a) div 8 = n"
    by (auto simp: dvd_def intro: sym)
  then show ?thesis
    by (simp add: be_read_def from_to_be_bytes)
qed

lemma reads_append [nom_simps]:
  "nom_be_u8 N (to_be_bytes w8 @ r) = Some (r, w8)"
  "nom_be_u16 N (to_be_bytes w16 @ r) = Some (r, w16)"
  "nom_be_u32 N (to_be_bytes w32 @ r) = Some (r, w32)"
  "nom_be_u64 N (to_be_bytes w64 @ r) = Some (r, w64)"
  "nom_be_u128 N (to_be_bytes w128 @ r) = Some (r, w128)"
  by (simp_all add: be_specs be_read_append)

end

interpretation nom_ref: nom_spec nom_ref
  by unfold_locales (simp_all add: nom_ref_def)

locale bufmut_spec =
  fixes B :: bufmut
  assumes put_u8_spec: "put_u8 B w8 b = b @ to_be_bytes w8"
    and put_u16_spec: "put_u16 B w16 b = b @ to_be_bytes w16"
    and put_u32_spec: "put_u32 B w32 b = b @ to_be_bytes w32"
    and put_u64_spec: "put_u64 B w64 b = b @ to_be_bytes w64"
    and put_i8_spec: "put_i8 B w8 b = b @ to_be_bytes w8"
    and put_i16_spec: "put_i16 B w16 b = b @ to_be_bytes w16"
    and put_i32_spec: "put_i32 B w32 b = b @ to_be_bytes w32"
    and put_i64_spec: "put_i64 B w64 b = b @ to_be_bytes w64"
    and put_f32_spec: "put_f32 B w32 b = b @ to_be_bytes w32"
    and put_f64_spec: "put_f64 B w64 b = b @ to_be_bytes w64"
    and put_slice_spec: "put_slice B s b = b @ s"
    and put_bytes_spec: "put_bytes B v n b = b @ replicate n v"
begin

lemmas put_specs = put_u8_spec put_u16_spec put_u32_spec put_u64_spec put_i8_spec put_i16_spec
  put_i32_spec put_i64_spec put_f32_spec put_f64_spec put_slice_spec put_bytes_spec

end

interpretation bufmut_ref: bufmut_spec bufmut_ref
  by unfold_locales (simp_all add: bufmut_ref_def)

end
