(* ===== verification/Chrono.thy ===== *)
theory Chrono
  imports Nom
begin

text \<open>
  The part of the date and time library \<^verbatim>\<open>chrono\<close> the source calls, as a parameter of the model,
  with what its documentation promises. A \<^verbatim>\<open>DateTime<Utc>\<close> is the number of whole seconds since
  the UNIX epoch, rounded down, and the nanoseconds since that second.
  \<^verbatim>\<open>checked_sub_signed(TimeDelta::milliseconds(ms))\<close> is \<open>ch_checked_sub_millis\<close>.

  The bounds in the laws are far inside the range of dates \<^verbatim>\<open>chrono\<close> documents (the years
  -262143 to 262142, more than \<open>2 ^ 42\<close> seconds on either side of the epoch).
\<close>

datatype datetime = DateTime (dt_secs: int) (dt_nanos: nat)

record chrono =
  ch_from_timestamp :: "int \<Rightarrow> nat \<Rightarrow> datetime option"
  ch_from_timestamp_secs :: "int \<Rightarrow> datetime option"
  ch_from_timestamp_millis :: "int \<Rightarrow> datetime option"
  ch_timestamp :: "datetime \<Rightarrow> int"
  ch_timestamp_subsec_nanos :: "datetime \<Rightarrow> nat"
  ch_timestamp_millis :: "datetime \<Rightarrow> int"
  ch_timestamp_nanos_opt :: "datetime \<Rightarrow> int option"
  ch_checked_sub_millis :: "datetime \<Rightarrow> int \<Rightarrow> datetime option"

text \<open>The nanoseconds since the epoch, and the date with a given number of them.\<close>

definition dt_total :: "datetime \<Rightarrow> int" where
  "dt_total t = dt_secs t * 1000000000 + int (dt_nanos t)"

definition dt_of_total :: "int \<Rightarrow> datetime" where
  "dt_of_total t = DateTime (t div 1000000000) (nat (t mod 1000000000))"

definition dt_ok :: "datetime \<Rightarrow> bool" where
  "dt_ok t \<longleftrightarrow> dt_nanos t < 1000000000"

lemma dt_total_of_total [simp]: "dt_total (dt_of_total t) = t"
  by (simp add: dt_total_def dt_of_total_def)

lemma dt_of_total_ok [simp]: "dt_ok (dt_of_total t)"
  by (simp add: dt_ok_def dt_of_total_def nat_less_iff)

lemma dt_of_total_total: "dt_ok t \<Longrightarrow> dt_of_total (dt_total t) = t"
  by (cases t) (simp add: dt_total_def dt_of_total_def dt_ok_def)

locale chrono_spec =
  fixes C :: chrono
  assumes from_timestamp_spec: "\<bar>s\<bar> \<le> 2 ^ 41 \<Longrightarrow> n < 1000000000 \<Longrightarrow>
      ch_from_timestamp C s n = Some (DateTime s n)"
    and from_timestamp_secs_spec: "\<bar>s\<bar> \<le> 2 ^ 41 \<Longrightarrow> ch_from_timestamp_secs C s = Some (DateTime s 0)"
    and from_timestamp_millis_spec: "\<bar>ms\<bar> \<le> 2 ^ 50 \<Longrightarrow>
      ch_from_timestamp_millis C ms = Some (dt_of_total (ms * 1000000))"
    and timestamp_spec: "ch_timestamp C t = dt_secs t"
    and subsec_nanos_spec: "ch_timestamp_subsec_nanos C t = dt_nanos t"
    and timestamp_millis_spec: "ch_timestamp_millis C t = dt_total t div 1000000"
    and timestamp_nanos_opt_spec: "ch_timestamp_nanos_opt C t =
      (if - (2 ^ 63) \<le> dt_total t \<and> dt_total t < 2 ^ 63 then Some (dt_total t) else None)"
    and checked_sub_millis_spec: "dt_ok t \<Longrightarrow> \<bar>dt_secs t\<bar> \<le> 2 ^ 41 \<Longrightarrow> \<bar>ms\<bar> \<le> 2 ^ 32 \<Longrightarrow>
      ch_checked_sub_millis C t ms = Some (dt_of_total (dt_total t - ms * 1000000))"

text \<open>An implementation of the laws, with the documented range of dates.\<close>

definition dt_in_range :: "int \<Rightarrow> bool" where
  "dt_in_range s \<longleftrightarrow> -8334601228800 \<le> s \<and> s \<le> 8210266876799"

definition dt_checked :: "datetime \<Rightarrow> datetime option" where
  "dt_checked t = (if dt_in_range (dt_secs t) then Some t else None)"

definition chrono_ref :: chrono where
  "chrono_ref =
     \<lparr>ch_from_timestamp = (\<lambda>s n. if n < 1000000000 then dt_checked (DateTime s n) else None),
      ch_from_timestamp_secs = (\<lambda>s. dt_checked (DateTime s 0)),
      ch_from_timestamp_millis = (\<lambda>ms. dt_checked (dt_of_total (ms * 1000000))),
      ch_timestamp = dt_secs,
      ch_timestamp_subsec_nanos = dt_nanos,
      ch_timestamp_millis = (\<lambda>t. dt_total t div 1000000),
      ch_timestamp_nanos_opt =
        (\<lambda>t. if - (2 ^ 63) \<le> dt_total t \<and> dt_total t < 2 ^ 63 then Some (dt_total t) else None),
      ch_checked_sub_millis = (\<lambda>t ms. dt_checked (dt_of_total (dt_total t - ms * 1000000)))\<rparr>"

lemma div_in_range:
  assumes "- 8000000000000 * k \<le> x" and "x \<le> 8000000000000 * k" and "0 < k"
  shows "dt_in_range (x div k)"
proof -
  have "(- 8000000000000) * k div k \<le> x div k" and "x div k \<le> 8000000000000 * k div k"
    using assms by (simp_all only: zdiv_mono1)
  moreover have "(- 8000000000000) * k div k = - 8000000000000"
    using assms(3) by (simp only: nonzero_mult_div_cancel_right)
  ultimately show ?thesis
    using assms(3) by (simp add: dt_in_range_def)
qed

lemma millis_in_range: "\<bar>ms\<bar> \<le> 2 ^ 50 \<Longrightarrow> dt_in_range (ms * 1000000 div 1000000000)"
  by (rule div_in_range) (auto simp: abs_le_iff)

lemma sub_millis_in_range:
  assumes "dt_ok t" and "\<bar>dt_secs t\<bar> \<le> 2 ^ 41" and "\<bar>ms\<bar> \<le> 2 ^ 32"
  shows "dt_in_range ((dt_total t - ms * 1000000) div 1000000000)"
  by (rule div_in_range) (use assms in \<open>auto simp: dt_total_def dt_ok_def abs_le_iff\<close>)

interpretation chrono_ref: chrono_spec chrono_ref
proof unfold_locales
  fix ms :: int
  assume "\<bar>ms\<bar> \<le> 2 ^ 50"
  then show "ch_from_timestamp_millis chrono_ref ms = Some (dt_of_total (ms * 1000000))"
    using millis_in_range [of ms]
    by (simp add: chrono_ref_def dt_checked_def dt_of_total_def del: div_mult_mult1 div_mult_mult1_if)
next
  fix t :: datetime and ms :: int
  assume "dt_ok t" "\<bar>dt_secs t\<bar> \<le> 2 ^ 41" "\<bar>ms\<bar> \<le> 2 ^ 32"
  then show "ch_checked_sub_millis chrono_ref t ms = Some (dt_of_total (dt_total t - ms * 1000000))"
    using sub_millis_in_range [of t ms]
    by (simp add: chrono_ref_def dt_checked_def dt_of_total_def)
qed (auto simp: chrono_ref_def dt_checked_def dt_in_range_def abs_le_iff)

end
