(* ===== verification/CommonParser.thy ===== *)
theory CommonParser
  imports Chrono
begin

text \<open>
  \<^verbatim>\<open>common/parser.rs\<close>: the readers the protocol parsers share. A \<^verbatim>\<open>MacAddr6\<close> is its six bytes, an
  \<^verbatim>\<open>Ipv4Addr\<close> or \<^verbatim>\<open>Ipv6Addr\<close> the integer whose big-endian bytes it is, a \<^verbatim>\<open>String\<close> its UTF-8
  bytes as characters, an \<^verbatim>\<open>i64\<close> the word of its bits.
\<close>

type_synonym ipv4_addr = u32
type_synonym ipv6_addr = u128
type_synonym mac_addr6 = bytes

definition NTP_UNIX_EPOCH_DIFF :: u64 where
  "NTP_UNIX_EPOCH_DIFF = 2208988800"

definition ipv4_addr :: "'z nom_scheme \<Rightarrow> ipv4_addr parser" where
  "ipv4_addr N input = nom_be_u32 N input"

definition ipv6_addr :: "'z nom_scheme \<Rightarrow> ipv6_addr parser" where
  "ipv6_addr N input = map_option (\<lambda>(rest, v). (rest, from_be_bytes v)) (nom_take N 16 input)"

text \<open>The subtraction of two values below \<open>2 ^ 33\<close> in an \<^verbatim>\<open>i64\<close> cannot overflow.\<close>

definition ntp_to_datetime :: "chrono \<Rightarrow> u32 \<Rightarrow> u32 \<Rightarrow> datetime option" where
  "ntp_to_datetime C ntp_secs fraction =
     (let unix_secs = uint ntp_secs - uint NTP_UNIX_EPOCH_DIFF;
          nanos = drop_bit 32 ((ucast fraction :: u64) * 1000000000)
      in ch_from_timestamp C unix_secs (unat (ucast nanos :: u32)))"

definition timestamp_secs :: "'z nom_scheme \<Rightarrow> chrono \<Rightarrow> datetime parser" where
  "timestamp_secs N C input = do {
     (rest, v) \<leftarrow> nom_be_u32 N input;
     t \<leftarrow> ch_from_timestamp_secs C (uint v);
     Some (rest, t)
   }"

text \<open>\<^verbatim>\<open>i64::try_from(v).ok()\<close> is \<open>None\<close> from \<open>2 ^ 63\<close> on.\<close>

definition timestamp_millis :: "'z nom_scheme \<Rightarrow> chrono \<Rightarrow> datetime option parser" where
  "timestamp_millis N C input =
     map_option (\<lambda>(rest, v). (rest,
       if uint v < 2 ^ 63 then ch_from_timestamp_millis C (uint v) else None)) (nom_be_u64 N input)"

definition timestamp_micros :: "'z nom_scheme \<Rightarrow> chrono \<Rightarrow> datetime parser" where
  "timestamp_micros N C input = do {
     (rest, s) \<leftarrow> nom_be_u32 N input;
     (rest, f) \<leftarrow> nom_be_u32 N rest;
     t \<leftarrow> ntp_to_datetime C s f;
     Some (rest, t)
   }"

definition timestamp_nanos :: "'z nom_scheme \<Rightarrow> chrono \<Rightarrow> datetime parser" where
  "timestamp_nanos N C input = do {
     (rest, s) \<leftarrow> nom_be_u32 N input;
     (rest, f) \<leftarrow> nom_be_u32 N rest;
     t \<leftarrow> ntp_to_datetime C s f;
     Some (rest, t)
   }"

definition macaddr6 :: "'z nom_scheme \<Rightarrow> mac_addr6 parser" where
  "macaddr6 N input = nom_take N 6 input"

text \<open>
  \<^verbatim>\<open>str::from_utf8\<close>: the well-formed byte sequences of the Unicode standard, without overlong
  forms, surrogates and code points above \<open>0x10FFFF\<close>.
\<close>

definition utf8_cont :: "u8 \<Rightarrow> bool" where
  "utf8_cont b \<longleftrightarrow> 0x80 \<le> b \<and> b \<le> 0xBF"

definition utf8_second3 :: "u8 \<Rightarrow> u8 \<Rightarrow> bool" where
  "utf8_second3 a b \<longleftrightarrow>
     (a = 0xE0 \<and> 0xA0 \<le> b \<and> b \<le> 0xBF) \<or>
     (((0xE1 \<le> a \<and> a \<le> 0xEC) \<or> a = 0xEE \<or> a = 0xEF) \<and> utf8_cont b) \<or>
     (a = 0xED \<and> 0x80 \<le> b \<and> b \<le> 0x9F)"

definition utf8_second4 :: "u8 \<Rightarrow> u8 \<Rightarrow> bool" where
  "utf8_second4 a b \<longleftrightarrow>
     (a = 0xF0 \<and> 0x90 \<le> b \<and> b \<le> 0xBF) \<or>
     (0xF1 \<le> a \<and> a \<le> 0xF3 \<and> utf8_cont b) \<or>
     (a = 0xF4 \<and> 0x80 \<le> b \<and> b \<le> 0x8F)"

fun utf8_valid :: "bytes \<Rightarrow> bool" where
  "utf8_valid [] = True"
| "utf8_valid (a # bs) =
     (if a < 0x80 then utf8_valid bs
      else case bs of
        [] \<Rightarrow> False
      | b # bs \<Rightarrow>
          if 0xC2 \<le> a \<and> a \<le> 0xDF then utf8_cont b \<and> utf8_valid bs
          else case bs of
            [] \<Rightarrow> False
          | c # bs \<Rightarrow>
              if utf8_second3 a b then utf8_cont c \<and> utf8_valid bs
              else case bs of
                [] \<Rightarrow> False
              | d # bs \<Rightarrow> utf8_second4 a b \<and> utf8_cont c \<and> utf8_cont d \<and> utf8_valid bs)"

definition from_utf8 :: "bytes \<Rightarrow> string option" where
  "from_utf8 v = (if utf8_valid v then Some (map (\<lambda>b. char_of (unat b)) v) else None)"

text \<open>\<^verbatim>\<open>trim_end_matches('\0')\<close>\<close>

definition trim_end_nul :: "string \<Rightarrow> string" where
  "trim_end_nul s = rev (dropWhile (\<lambda>c. c = CHR 0x00) (rev s))"

definition string :: "'z nom_scheme \<Rightarrow> nat \<Rightarrow> string option parser" where
  "string N len input =
     map_option (\<lambda>(rest, v). (rest, map_option trim_end_nul (from_utf8 v))) (nom_take N len input)"

definition boolean :: "'z nom_scheme \<Rightarrow> bool option parser" where
  "boolean N input =
     map_option (\<lambda>(rest, v). (rest, if v = 1 then Some True else if v = 2 then Some False else None))
       (nom_be_u8 N input)"

definition be_uint :: "'z nom_scheme \<Rightarrow> nat \<Rightarrow> u64 parser" where
  "be_uint N len input =
     map_option (\<lambda>(rest, bytes). (rest, foldl (\<lambda>acc b. push_bit 8 acc OR ucast b) 0 bytes))
       (nom_take N len input)"

text \<open>\<^verbatim>\<open>wrapping_shl\<close> and \<^verbatim>\<open>wrapping_shr\<close> take the distance modulo 64; the latter is arithmetic on an
  \<^verbatim>\<open>i64\<close>.\<close>

definition be_int :: "'z nom_scheme \<Rightarrow> nat \<Rightarrow> u64 parser" where
  "be_int N len input =
     map_option (\<lambda>(rest, v). (rest,
       let shift = 64 - 8 * len
       in signed_drop_bit (shift mod 64) (push_bit (shift mod 64) v))) (be_uint N len input)"

definition vector :: "'z nom_scheme \<Rightarrow> nat \<Rightarrow> bytes parser" where
  "vector N len input = nom_take N len input"

definition verify_version :: "'z nom_scheme \<Rightarrow> bytes \<Rightarrow> u16 \<Rightarrow> (bytes \<times> u16) option" where
  "verify_version N input expected_version = do {
     (rest, v) \<leftarrow> nom_be_u16 N input;
     if v = expected_version then Some (rest, v) else None
   }"

section \<open>Integers of odd widths\<close>

lemma uint_fold:
  fixes bs :: bytes
  assumes "8 * length bs \<le> 64"
  shows "unat (foldl (\<lambda>acc b. push_bit 8 acc OR ucast b) (0 :: u64) bs) = be_nat bs"
  using assms
proof (induction bs rule: rev_induct)
  case (snoc b bs)
  let ?acc = "foldl (\<lambda>acc b. push_bit 8 acc OR ucast b) (0 :: u64) bs"
  have IH: "unat ?acc = be_nat bs" using snoc by simp
  have b: "unat b < 256" using unsigned_less [of b] by simp
  have "(256::nat) ^ length bs \<le> 256 ^ 7"
    using snoc.prems by (intro power_increasing) auto
  then have "be_nat bs < 2 ^ 56"
    using be_nat_bound [of bs] by simp
  then have lt: "be_nat bs * 256 + unat b < 2 ^ 64" using b by simp
  have "push_bit 8 ?acc AND ucast b = (0 :: u64)"
    by (rule bit_word_eqI) (auto simp: bit_simps dest: bit_imp_le_length)
  then have "push_bit 8 ?acc OR ucast b = push_bit 8 ?acc + (ucast b :: u64)"
    by (simp add: disjunctive_add_eq_or)
  also have "\<dots> = word_of_nat (be_nat bs * 256 + unat b)"
    by (simp add: push_bit_eq_mult flip: IH)
  finally have "unat (push_bit 8 ?acc OR ucast b) = be_nat bs * 256 + unat b"
    using unat_word_of_nat [of "be_nat bs * 256 + unat b", where 'a = 64] lt by (simp del: of_nat_add)
  then show ?case by simp
qed simp



lemma shl_shr_signed_take_bit:
  assumes "s < 64"
  shows "signed_drop_bit s (push_bit s w) = signed_take_bit (63 - s) (w :: u64)"
proof (rule bit_word_eqI)
  fix n
  assume "n < LENGTH(64)"
  then show "bit (signed_drop_bit s (push_bit s w)) n = bit (signed_take_bit (63 - s) w) n"
    using assms by (cases "n = 63 - s") (auto simp: bit_simps min_def)
qed

lemma sint_signed_take_bit:
  fixes w :: "'a::len word"
  assumes "0 < k" and "k \<le> LENGTH('a)" and "unat w < 2 ^ k"
  shows "sint (signed_take_bit (k - 1) w) =
    (if unat w < 2 ^ (k - 1) then int (unat w) else int (unat w) - 2 ^ k)"
proof -
  obtain n where k: "k = Suc n"
    using assms(1) by (cases k) auto
  have w: "uint w = int (unat w)" by simp
  have "sint (signed_take_bit n w) = signed_take_bit n (uint w)"
    using assms(2) unfolding k by (intro bit_eqI) (auto simp: bit_simps min_def)
  also have "\<dots> = take_bit (Suc n) (uint w) - 2 ^ Suc n * of_bool (bit (uint w) n)"
    by (rule signed_take_bit_eq_take_bit_minus)
  also have "take_bit (Suc n) (uint w) = uint w"
    using assms(3) unfolding k by (simp add: take_bit_unat_less flip: unsigned_take_bit_eq)
  also have "bit (uint w) n \<longleftrightarrow> \<not> unat w < 2 ^ n"
  proof -
    have "unat w div 2 ^ n < 2"
      using assms(3) unfolding k by (simp add: less_mult_imp_div_less)
    then have "odd (unat w div 2 ^ n) \<longleftrightarrow> unat w div 2 ^ n \<noteq> 0"
      by (auto dest: less_2_cases)
    then have "bit (unat w) n \<longleftrightarrow> \<not> unat w < 2 ^ n"
      unfolding bit_iff_odd by (simp add: div_eq_0_iff)
    moreover have "bit (uint w) n = bit (unat w) n"
      by (simp add: bit_simps)
    ultimately show ?thesis by simp
  qed
  finally show ?thesis by (simp add: k)
qed

context nom_spec
begin

lemma be_uint_value:
  assumes "n \<le> 8" and "n \<le> length i"
  shows "be_uint N n i = Some (drop n i, word_of_nat (be_nat (take n i)))"
proof -
  have "unat (foldl (\<lambda>acc b. push_bit 8 acc OR ucast b) (0 :: u64) (take n i)) = be_nat (take n i)"
    using assms by (intro uint_fold) simp
  then have "foldl (\<lambda>acc b. push_bit 8 acc OR ucast b) (0 :: u64) (take n i) = word_of_nat (be_nat (take n i))"
    by (rule word_of_nat_unat_eq)
  then show ?thesis
    using assms by (simp add: be_uint_def take_spec)
qed

lemma be_int_value:
  assumes "0 < n" and "n \<le> 8" and "n \<le> length i"
  shows "\<exists>v. be_int N n i = Some (drop n i, v) \<and>
    sint v = (if be_nat (take n i) < 2 ^ (8 * n - 1) then int (be_nat (take n i))
              else int (be_nat (take n i)) - 2 ^ (8 * n))"
proof -
  let ?b = "be_nat (take n i)" and ?s = "64 - 8 * n"
  have len: "length (take n i) = n" using assms(3) by simp
  have b: "?b < 2 ^ (8 * n)"
    using be_nat_bound [of "take n i"] unfolding len by (simp add: power_mult)
  also have "(2::nat) ^ (8 * n) \<le> 2 ^ 64"
    using assms(2) by (intro power_increasing) auto
  finally have u: "unat (word_of_nat ?b :: u64) = ?b"
    by (intro unat_word_of_nat) simp
  have "be_int N n i = Some (drop n i, signed_drop_bit ?s (push_bit ?s (word_of_nat ?b)))"
    using assms by (simp add: be_int_def be_uint_value Let_def)
  also have "signed_drop_bit ?s (push_bit ?s (word_of_nat ?b)) = (signed_take_bit (8 * n - 1) (word_of_nat ?b) :: u64)"
    using assms(1,2) shl_shr_signed_take_bit [of ?s] by (simp add: Suc_diff_Suc)
  finally show ?thesis
    using sint_signed_take_bit [of "8 * n" "word_of_nat ?b :: u64"] assms(1,2) b by (simp add: u)
qed

end

section \<open>The readers consume what they are given\<close>

locale wire_spec = nom_spec N + chrono_spec C for N :: "'z nom_scheme" and C
begin

lemma ntp_to_datetime_eq:
  "ntp_to_datetime C s f =
     Some (DateTime (uint s - 2208988800) (unat f * 1000000000 div 2 ^ 32))"
proof -
  have f: "unat f < 2 ^ 32" and s: "uint s < 2 ^ 32"
    using unsigned_less [of f] uint_lt2p [of s] by simp_all
  have n: "unat f * 1000000000 div 2 ^ 32 < 1000000000"
    using f by (simp add: div_less_iff_less_mult)
  have "unat (drop_bit 32 ((ucast f :: u64) * 1000000000)) = unat f * 1000000000 div 2 ^ 32"
    using f by (simp add: unsigned_drop_bit_eq drop_bit_eq_div unat_mult_lem unsigned_ucast_eq
        take_bit_nat_eq_self take_bit_eq_mod unat_word_ariths)
  then have "unat (ucast (drop_bit 32 ((ucast f :: u64) * 1000000000)) :: u32) =
      unat f * 1000000000 div 2 ^ 32"
    using n by (simp add: unsigned_ucast_eq take_bit_nat_eq_self)
  moreover have "\<bar>uint s - 2208988800\<bar> \<le> 2 ^ 41"
  proof -
    have "\<bar>x - 2208988800\<bar> \<le> 2 ^ 41" if "0 \<le> x" "x < 2 ^ 32" for x :: int
      using that by simp
    with s show ?thesis by simp
  qed
  ultimately show ?thesis
    using n by (simp only: ntp_to_datetime_def Let_def) (simp add: NTP_UNIX_EPOCH_DIFF_def from_timestamp_spec)
qed

lemma timestamp_secs_eq:
  "timestamp_secs N C = (\<lambda>i. map_option (\<lambda>(i', v). (i', DateTime (uint v) 0)) (nom_be_u32 N i))"
proof
  have "ch_from_timestamp_secs C (uint v) = Some (DateTime (uint v) 0)" for v :: u32
    using uint_lt2p [of v] by (intro from_timestamp_secs_spec) simp
  then show "timestamp_secs N C i = map_option (\<lambda>(i', v). (i', DateTime (uint v) 0)) (nom_be_u32 N i)"
    for i by (cases "nom_be_u32 N i") (auto simp: timestamp_secs_def)
qed

lemma fixed_common [fixed_len_intros]:
  "fixed_len 4 (ipv4_addr N)" "fixed_len 16 (ipv6_addr N)" "fixed_len 4 (timestamp_secs N C)"
  "fixed_len 8 (timestamp_millis N C)" "fixed_len 6 (macaddr6 N)" "fixed_len n (string N n)"
  "fixed_len 1 (boolean N)" "fixed_len n (be_uint N n)" "fixed_len n (vector N n)"
  unfolding ipv4_addr_def [abs_def] ipv6_addr_def [abs_def] timestamp_secs_eq
    timestamp_millis_def [abs_def] macaddr6_def [abs_def] string_def [abs_def] boolean_def [abs_def]
    be_uint_def [abs_def] vector_def [abs_def]
  by (rule fixed_len_intros, (rule fixed_len_intros)?)+

lemma fixed_be_int [fixed_len_intros]: "fixed_len n (be_int N n)"
  unfolding be_int_def [abs_def] by (intro fixed_len_intros)

lemma ntp_pair: "fixed_len 8 (\<lambda>i. nom_be_u32 N i \<bind> (\<lambda>(i, s). nom_be_u32 N i \<bind> (\<lambda>(i, f).
    ntp_to_datetime C s f \<bind> (\<lambda>t. Some (i, t)))))"
  unfolding ntp_to_datetime_eq bind.bind_lunit
  by (rule fixed_len_eq, (rule fixed_len_intros)+) simp

lemma fixed_timestamp_ntp [fixed_len_intros]:
  "fixed_len 8 (timestamp_micros N C)" "fixed_len 8 (timestamp_nanos N C)"
  unfolding timestamp_micros_def [abs_def] timestamp_nanos_def [abs_def] by (rule ntp_pair)+

lemmas nonincr_common [nonincr_intros] = fixed_common [THEN fixed_len_nonincr]
  fixed_be_int [THEN fixed_len_nonincr] fixed_timestamp_ntp [THEN fixed_len_nonincr]

end

interpretation wire_ref: wire_spec nom_ref chrono_ref
  by unfold_locales

section \<open>Properties\<close>

text \<open>The readers for integers of any width up to eight bytes: an unsigned field is the
  big-endian value of its bytes, a signed one their value in two's complement, and both consume
  exactly the bytes of the field or fail when there are fewer.\<close>

theorem odd_width_integers:
  assumes "nom_spec N" and "0 < n" and "n \<le> 8"
  shows "if length i < n then be_uint N n i = None \<and> be_int N n i = None
    else \<exists>u v. be_uint N n i = Some (drop n i, u) \<and> unat u = be_nat (take n i) \<and>
      be_int N n i = Some (drop n i, v) \<and>
      sint v = (if be_nat (take n i) < 2 ^ (8 * n - 1) then int (be_nat (take n i))
                else int (be_nat (take n i)) - 2 ^ (8 * n))"
proof (cases "length i < n")
  case True
  then show ?thesis
    using nom_spec.take_spec [OF assms(1)] by (simp add: be_uint_def be_int_def)
next
  case False
  have "be_nat (take n i) < 256 ^ n"
    using be_nat_bound [of "take n i"] False by simp
  also have "(256::nat) ^ n \<le> 256 ^ 8"
    using assms(3) by (intro power_increasing) auto
  finally have "unat (word_of_nat (be_nat (take n i)) :: u64) = be_nat (take n i)"
    by (intro unat_word_of_nat) simp
  with False show ?thesis
    using nom_spec.be_int_value [OF assms, of i] nom_spec.be_uint_value [OF assms(1,3), of i] by simp
qed

theorem odd_width_integers_witness:
  "\<exists>v. be_int nom_ref 3 [0xFF, 0xFF, 0xFE, 7] = Some ([7], v) \<and> sint v = - 2"
  using odd_width_integers [OF nom_ref.nom_spec_axioms, of 3 "[0xFF, 0xFF, 0xFE, 7]"]
  by (auto simp: be_nat_def)

end
