(* ===== verification/Packet.thy ===== *)
theory Packet
  imports CryptoPan CommonParser
begin

text \<open>
  \<^verbatim>\<open>common/packet.rs\<close>: peeling tunnels off a captured packet. The slicing of the layers is done by
  the library \<^verbatim>\<open>etherparse\<close>, a parameter: its functions that slice bytes are the fields of
  \<open>etherparse\<close>, and a sliced packet is what the source asks of it, one field per accessor.
  \<^verbatim>\<open>EtherType\<close> and \<^verbatim>\<open>IpNumber\<close> are the numbers they wrap.
\<close>

section \<open>Sliced packets\<close>

record ethernet2_header =
  e2_source :: mac_addr6
  e2_destination :: mac_addr6
  e2_ether_type :: u16

datatype link_slice = LinkEthernet2 ethernet2_header | LinkOther

record single_vlan_header =
  vh_vlan_id :: u16
  vh_ether_type :: u16

datatype vlan_header = VlanSingle single_vlan_header | VlanDouble single_vlan_header single_vlan_header

record ether_payload =
  ep_ether_type :: u16
  ep_payload :: bytes

record ip_payload =
  ipp_ip_number :: u8
  ipp_fragmented :: bool
  ipp_incomplete :: bool
  ipp_payload :: bytes

text \<open>\<open>v4_calc_checksum\<close> is \<^verbatim>\<open>to_header().calc_header_checksum()\<close>.\<close>

record ipv4_slice =
  v4_source_addr :: ipv4_addr
  v4_destination_addr :: ipv4_addr
  v4_protocol :: u8
  v4_total_len :: u16
  v4_dcp :: u8
  v4_ecn :: u8
  v4_ttl :: u8
  v4_identification :: u16
  v4_fragments_offset :: u16
  v4_header_checksum :: u16
  v4_calc_checksum :: u16
  v4_payload :: ip_payload

datatype ipv6_extension = ExtFragment u16 | ExtOther

record ipv6_slice =
  v6_source_addr :: ipv6_addr
  v6_destination_addr :: ipv6_addr
  v6_traffic_class :: u8
  v6_hop_limit :: u8
  v6_flow_label :: u32
  v6_payload_length :: u16
  v6_extensions :: "ipv6_extension list"
  v6_payload :: ip_payload

datatype lax_net_slice = NetIpv4 ipv4_slice | NetIpv6 ipv6_slice | NetArp

record tcp_slice =
  tcp_source_port :: u16
  tcp_destination_port :: u16
  tcp_fin :: bool
  tcp_syn :: bool
  tcp_rst :: bool
  tcp_psh :: bool
  tcp_ack :: bool
  tcp_urg :: bool
  tcp_ece :: bool
  tcp_cwr :: bool
  tcp_ns :: bool

record udp_slice =
  udp_source_port :: u16
  udp_destination_port :: u16
  udp_length :: u16
  udp_payload :: bytes

record icmp_slice =
  icmp_type_u8 :: u8
  icmp_code_u8 :: u8

datatype transport_slice =
    TransportUdp udp_slice | TransportTcp tcp_slice
  | TransportIcmpv4 icmp_slice | TransportIcmpv6 icmp_slice

record sliced_packet =
  sp_link :: "link_slice option"
  sp_vlan :: "vlan_header option"
  sp_net :: "lax_net_slice option"
  sp_transport :: "transport_slice option"
  sp_ether_payload :: "ether_payload option"
  sp_ip_payload :: "ip_payload option"

record etherparse =
  from_ethernet :: "bytes \<Rightarrow> sliced_packet option"
  from_ip :: "bytes \<Rightarrow> sliced_packet option"
  from_ether_type :: "u16 \<Rightarrow> bytes \<Rightarrow> sliced_packet"
  tcp_from_slice :: "bytes \<Rightarrow> tcp_slice option"
  udp_from_slice_lax :: "bytes \<Rightarrow> udp_slice option"
  icmpv4_from_slice :: "bytes \<Rightarrow> icmp_slice option"
  icmpv6_from_slice :: "bytes \<Rightarrow> icmp_slice option"

definition IP_ICMP :: u8 where "IP_ICMP = 1"
definition IP_TCP :: u8 where "IP_TCP = 6"
definition IP_UDP :: u8 where "IP_UDP = 17"
definition IP_GRE :: u8 where "IP_GRE = 47"
definition IP_IPV6_ICMP :: u8 where "IP_IPV6_ICMP = 58"
definition ETHER_IPV4 :: u16 where "ETHER_IPV4 = 0x0800"
definition ETHER_IPV6 :: u16 where "ETHER_IPV6 = 0x86dd"

section \<open>What an encapsulation carries\<close>

record peeled =
  pl_link :: "sliced_packet option"
  pl_packet :: sliced_packet

definition MAX_TUNNEL_DEPTH :: nat where
  "MAX_TUNNEL_DEPTH = 4"

datatype inner = InnerEthernet bytes | InnerIp bytes

definition MPLS_UNICAST :: u16 where
  "MPLS_UNICAST = 0x8847"

definition MPLS_MULTICAST :: u16 where
  "MPLS_MULTICAST = 0x8848"

definition TRANSPARENT_ETHERNET_BRIDGING :: u16 where
  "TRANSPARENT_ETHERNET_BRIDGING = 0x6558"

definition ERSPAN_I_II :: u16 where
  "ERSPAN_I_II = 0x88be"

definition ERSPAN_III :: u16 where
  "ERSPAN_III = 0x22eb"

definition UDP_PORT_VXLAN :: u16 where
  "UDP_PORT_VXLAN = 4789"

definition UDP_PORT_GENEVE :: u16 where
  "UDP_PORT_GENEVE = 6081"

definition is_mpls :: "u16 \<Rightarrow> bool" where
  "is_mpls ether_type \<longleftrightarrow> ether_type = MPLS_UNICAST \<or> ether_type = MPLS_MULTICAST"

text \<open>\<^verbatim>\<open>bytes.get(n..)\<close>.\<close>

definition get_from :: "nat \<Rightarrow> bytes \<Rightarrow> bytes option" where
  "get_from n bs = (if n \<le> length bs then Some (drop n bs) else None)"

text \<open>The loop over the label stack: what follows the label with the bottom-of-stack bit.\<close>

fun mpls_payload :: "bytes \<Rightarrow> bytes option" where
  "mpls_payload (l0 # l1 # l2 # l3 # rest) = (if l2 AND 0x01 \<noteq> 0 then Some rest else mpls_payload rest)"
| "mpls_payload _ = None"

definition plausible :: "etherparse \<Rightarrow> inner \<Rightarrow> bool" where
  "plausible E inn =
     (case inn of
        InnerIp bs \<Rightarrow>
          (case from_ip E bs of
             None \<Rightarrow> False
           | Some s \<Rightarrow> (case sp_net s of
                Some (NetIpv4 ipv4) \<Rightarrow> v4_calc_checksum ipv4 = v4_header_checksum ipv4
              | Some (NetIpv6 _) \<Rightarrow> True
              | _ \<Rightarrow> False))
      | InnerEthernet frame \<Rightarrow>
          (case from_ethernet E frame of
             None \<Rightarrow> False
           | Some s \<Rightarrow> sp_net s \<noteq> None \<or>
               (case sp_ether_payload s of Some p \<Rightarrow> is_mpls (ep_ether_type p) | None \<Rightarrow> False)))"

definition mpls_inner :: "etherparse \<Rightarrow> bytes \<Rightarrow> inner option" where
  "mpls_inner E bs =
     (case mpls_payload bs of
        None \<Rightarrow> None
      | Some [] \<Rightarrow> None
      | Some (b # bs) \<Rightarrow>
          let nibble = drop_bit 4 b;
              bytes = b # bs;
              readings =
                (if nibble = 4 \<or> nibble = 6 then [Some (InnerIp bytes), Some (InnerEthernet bytes)]
                 else if nibble = 0 then [map_option InnerEthernet (get_from 4 bytes), Some (InnerEthernet bytes)]
                 else [Some (InnerEthernet bytes), None])
          in find (plausible E) (List.map_filter id readings))"

definition gre_inner :: "etherparse \<Rightarrow> bytes \<Rightarrow> inner option" where
  "gre_inner E bs =
     (if length bs < 4 then None
      else let flags = (from_be_bytes (take 2 bs) :: u16);
               protocol = (from_be_bytes (take 2 (drop 2 bs)) :: u16)
      in if flags AND 0x0007 \<noteq> 0 \<or> flags AND 0x4000 \<noteq> 0 then None
      else let offset = 4;
               offset = (if flags AND 0x8000 \<noteq> 0 then offset + 4 else offset);
               offset = (if flags AND 0x2000 \<noteq> 0 then offset + 4 else offset);
               has_sequence = (flags AND 0x1000 \<noteq> 0);
               offset = (if has_sequence then offset + 4 else offset)
      in case get_from offset bs of
           None \<Rightarrow> None
         | Some payload \<Rightarrow>
             if protocol = ETHER_IPV4 \<or> protocol = ETHER_IPV6 then Some (InnerIp payload)
             else if protocol = TRANSPARENT_ETHERNET_BRIDGING then Some (InnerEthernet payload)
             else if is_mpls protocol then mpls_inner E payload
             else if protocol = ERSPAN_I_II \<and> has_sequence then map_option InnerEthernet (get_from 8 payload)
             else if protocol = ERSPAN_I_II then Some (InnerEthernet payload)
             else if protocol = ERSPAN_III then
               (if length payload < 12 then None
                else let skip = (if payload ! 11 AND 0x01 \<noteq> 0 then 20 else 12)
                     in map_option InnerEthernet (get_from skip payload))
             else None)"

definition vxlan_inner :: "bytes \<Rightarrow> inner option" where
  "vxlan_inner payload =
     (if length payload < 8 then None
      else if payload ! 0 AND 0x08 \<noteq> 0 then Some (InnerEthernet (drop 8 payload)) else None)"

definition geneve_inner :: "bytes \<Rightarrow> inner option" where
  "geneve_inner payload =
     (if length payload < 8 then None
      else if drop_bit 6 (payload ! 0) \<noteq> 0 then None
      else let options_len = unat (payload ! 0 AND 0x3f) * 4;
               protocol = (from_be_bytes (take 2 (drop 2 payload)) :: u16)
      in case get_from (8 + options_len) payload of
           None \<Rightarrow> None
         | Some inn \<Rightarrow>
             if protocol = TRANSPARENT_ETHERNET_BRIDGING then Some (InnerEthernet inn)
             else if protocol = ETHER_IPV4 \<or> protocol = ETHER_IPV6 then Some (InnerIp inn)
             else None)"

definition ip_encapsulated :: "etherparse \<Rightarrow> sliced_packet \<Rightarrow> inner option" where
  "ip_encapsulated E sliced =
     (case sp_ip_payload sliced of
        None \<Rightarrow> None
      | Some ip_payload \<Rightarrow>
          if ipp_fragmented ip_payload then None
          else if ipp_ip_number ip_payload = IP_GRE then gre_inner E (ipp_payload ip_payload)
          else (case sp_transport sliced of
             Some (TransportUdp udp) \<Rightarrow>
               if udp_destination_port udp = UDP_PORT_VXLAN then vxlan_inner (udp_payload udp)
               else if udp_destination_port udp = UDP_PORT_GENEVE then geneve_inner (udp_payload udp)
               else None
           | _ \<Rightarrow> None))"

definition encapsulated :: "etherparse \<Rightarrow> sliced_packet \<Rightarrow> inner option" where
  "encapsulated E sliced =
     (case sp_ether_payload sliced of
        Some payload \<Rightarrow>
          if is_mpls (ep_ether_type payload) then mpls_inner E (ep_payload payload)
          else ip_encapsulated E sliced
      | None \<Rightarrow> ip_encapsulated E sliced)"

section \<open>Peeling\<close>

definition is_complete :: "sliced_packet \<Rightarrow> bool" where
  "is_complete sliced \<longleftrightarrow>
     (case sp_ip_payload sliced of
        None \<Rightarrow> True
      | Some ip_payload \<Rightarrow>
          if ipp_incomplete ip_payload \<or> ipp_fragmented ip_payload then False
          else (case sp_transport sliced of
             Some (TransportUdp udp) \<Rightarrow> length (udp_payload udp) + 8 = unat (udp_length udp)
           | _ \<Rightarrow> True))"

text \<open>The \<^verbatim>\<open>for\<close> loop, with the number of rounds left.\<close>

fun peel_loop ::
    "etherparse \<Rightarrow> bool \<Rightarrow> nat \<Rightarrow> sliced_packet option \<Rightarrow> sliced_packet \<Rightarrow> peeled" where
  "peel_loop E require_complete 0 link packet = \<lparr>pl_link = link, pl_packet = packet\<rparr>"
| "peel_loop E require_complete (Suc n) link packet =
     (if require_complete \<and> \<not> is_complete packet then \<lparr>pl_link = link, pl_packet = packet\<rparr>
      else case encapsulated E packet of
        Some (InnerEthernet frame) \<Rightarrow>
          (case from_ethernet E frame of
             Some inn \<Rightarrow> peel_loop E require_complete n None inn
           | None \<Rightarrow> \<lparr>pl_link = link, pl_packet = packet\<rparr>)
      | Some (InnerIp bs) \<Rightarrow>
          (case from_ip E bs of
             Some inn \<Rightarrow>
               peel_loop E require_complete n
                 (if link = None \<and> sp_link packet \<noteq> None then Some packet else link) inn
           | None \<Rightarrow> \<lparr>pl_link = link, pl_packet = packet\<rparr>)
      | None \<Rightarrow> \<lparr>pl_link = link, pl_packet = packet\<rparr>)"

definition peel_with :: "etherparse \<Rightarrow> sliced_packet \<Rightarrow> bool \<Rightarrow> peeled" where
  "peel_with E sliced require_complete = peel_loop E require_complete MAX_TUNNEL_DEPTH None sliced"

definition peel :: "etherparse \<Rightarrow> sliced_packet \<Rightarrow> peeled" where
  "peel E sliced = peel_with E sliced False"

definition peel_strict :: "etherparse \<Rightarrow> sliced_packet \<Rightarrow> peeled" where
  "peel_strict E sliced = peel_with E sliced True"

definition peel_ethernet :: "etherparse \<Rightarrow> bytes \<Rightarrow> peeled option" where
  "peel_ethernet E frame = map_option (peel E) (from_ethernet E frame)"

definition peel_ip :: "etherparse \<Rightarrow> bytes \<Rightarrow> peeled option" where
  "peel_ip E packet = map_option (peel E) (from_ip E packet)"

section \<open>Fragments\<close>

definition ipv6_fragment_offset :: "ipv6_extension list \<Rightarrow> u16" where
  "ipv6_fragment_offset extensions =
     (case List.map_filter (\<lambda>e. case e of ExtFragment offset \<Rightarrow> Some offset | ExtOther \<Rightarrow> None) extensions of
        offset # _ \<Rightarrow> offset
      | [] \<Rightarrow> 0)"

definition first_fragment_transport :: "etherparse \<Rightarrow> sliced_packet \<Rightarrow> transport_slice option" where
  "first_fragment_transport E sliced =
     (case (case sp_net sliced of
              Some (NetIpv4 ipv4) \<Rightarrow> if v4_fragments_offset ipv4 = 0 then Some (v4_payload ipv4) else None
            | Some (NetIpv6 ipv6) \<Rightarrow>
                if ipv6_fragment_offset (v6_extensions ipv6) = 0 then Some (v6_payload ipv6) else None
            | _ \<Rightarrow> None) of
        None \<Rightarrow> None
      | Some payload \<Rightarrow>
          if \<not> ipp_fragmented payload then None
          else let bs = ipp_payload payload in
            if ipp_ip_number payload = IP_TCP then map_option TransportTcp (tcp_from_slice E bs)
            else if ipp_ip_number payload = IP_UDP then map_option TransportUdp (udp_from_slice_lax E bs)
            else if ipp_ip_number payload = IP_ICMP then map_option TransportIcmpv4 (icmpv4_from_slice E bs)
            else if ipp_ip_number payload = IP_IPV6_ICMP then map_option TransportIcmpv6 (icmpv6_from_slice E bs)
            else None)"

section \<open>Captured datagrams\<close>

datatype link_type = LtEthernet | LtLinuxSll | LtLinuxSll2 | LtRawIp

definition link_type_from_pcap :: "u32 \<Rightarrow> link_type option" where
  "link_type_from_pcap link_type =
     (if link_type = 1 then Some LtEthernet
      else if link_type = 113 then Some LtLinuxSll
      else if link_type = 276 then Some LtLinuxSll2
      else if link_type \<in> {12, 14, 101, 228, 229} then Some LtRawIp
      else None)"

definition LINUX_SLL_HEADER_LEN :: nat where
  "LINUX_SLL_HEADER_LEN = 16"

definition LINUX_SLL2_HEADER_LEN :: nat where
  "LINUX_SLL2_HEADER_LEN = 20"

definition slice_link :: "etherparse \<Rightarrow> link_type \<Rightarrow> bytes \<Rightarrow> sliced_packet option" where
  "slice_link E link_type frame =
     (case link_type of
        LtEthernet \<Rightarrow> from_ethernet E frame
      | LtLinuxSll \<Rightarrow>
          if length frame < LINUX_SLL_HEADER_LEN then None
          else let ether_type = (from_be_bytes [frame ! 14, frame ! 15] :: u16)
               in Some (from_ether_type E ether_type (drop LINUX_SLL_HEADER_LEN frame))
      | LtLinuxSll2 \<Rightarrow>
          if length frame < LINUX_SLL2_HEADER_LEN then None
          else let ether_type = (from_be_bytes [frame ! 0, frame ! 1] :: u16)
               in Some (from_ether_type E ether_type (drop LINUX_SLL2_HEADER_LEN frame))
      | LtRawIp \<Rightarrow> from_ip E frame)"

definition parse_udp_packet :: "etherparse \<Rightarrow> u32 \<Rightarrow> bytes \<Rightarrow> (ip_addr \<times> bytes) option" where
  "parse_udp_packet E link_type frame = do {
     link_type \<leftarrow> link_type_from_pcap link_type;
     sliced \<leftarrow> slice_link E link_type frame;
     let packet = pl_packet (peel_strict E sliced);
     if \<not> is_complete packet then None
     else do {
       source_ip \<leftarrow> (case sp_net packet of
           Some (NetIpv4 ipv4) \<Rightarrow> Some (V4 (v4_source_addr ipv4))
         | Some (NetIpv6 ipv6) \<Rightarrow> Some (V6 (v6_source_addr ipv6))
         | _ \<Rightarrow> None);
       (case sp_transport packet of
          Some (TransportUdp udp) \<Rightarrow> Some (source_ip, udp_payload udp)
        | _ \<Rightarrow> None)
     }
   }"

section \<open>What peeling reaches\<close>

text \<open>One decapsulation step, and a number of them, each from a complete packet when \<open>strict\<close>.\<close>

definition decapsulates :: "etherparse \<Rightarrow> sliced_packet \<Rightarrow> sliced_packet \<Rightarrow> bool" where
  "decapsulates E p q \<longleftrightarrow>
     (case encapsulated E p of
        Some (InnerEthernet frame) \<Rightarrow> from_ethernet E frame = Some q
      | Some (InnerIp bs) \<Rightarrow> from_ip E bs = Some q
      | None \<Rightarrow> False)"

inductive peels :: "etherparse \<Rightarrow> bool \<Rightarrow> nat \<Rightarrow> sliced_packet \<Rightarrow> sliced_packet \<Rightarrow> bool" for E strict where
  here: "peels E strict 0 p p"
| step: "(strict \<Longrightarrow> is_complete p) \<Longrightarrow> decapsulates E p q \<Longrightarrow> peels E strict n q r \<Longrightarrow> peels E strict (Suc n) p r"

lemma peel_loop_reaches:
  "\<exists>k\<le>n. peels E strict k packet (pl_packet (peel_loop E strict n link packet)) \<and>
    (k = n \<or> (strict \<and> \<not> is_complete (pl_packet (peel_loop E strict n link packet))) \<or>
      (\<forall>q. \<not> decapsulates E (pl_packet (peel_loop E strict n link packet)) q))"
proof (induction n arbitrary: link packet)
  case 0
  show ?case by (simp add: peels.here)
next
  case (Suc n)
  have on: "peel_loop E strict (Suc n) link packet = peel_loop E strict n l q \<Longrightarrow> decapsulates E packet q \<Longrightarrow>
      (strict \<Longrightarrow> is_complete packet) \<Longrightarrow> ?case" for l q
    using Suc [of q l] by (metis Suc_le_mono peels.step)
  have stop: "pl_packet (peel_loop E strict (Suc n) link packet) = packet \<Longrightarrow>
      strict \<and> \<not> is_complete packet \<or> (\<forall>q. \<not> decapsulates E packet q) \<Longrightarrow> ?case"
    by (metis le0 peels.here)
  show ?case
  proof (cases "(strict \<longrightarrow> is_complete packet) \<and> (\<exists>q. decapsulates E packet q)")
    case False
    then have "pl_packet (peel_loop E strict (Suc n) link packet) = packet"
      by (auto simp: decapsulates_def split: option.splits inner.splits)
    with False show ?thesis using stop by blast
  next
    case True
    then obtain q where q: "decapsulates E packet q" by blast
    then obtain l where "peel_loop E strict (Suc n) link packet = peel_loop E strict n l q"
      using True by (auto simp: decapsulates_def split: option.splits inner.splits)
    with q True show ?thesis using on by blast
  qed
qed

section \<open>Properties\<close>

text \<open>An implementation of the parameter, for IPv4 with UDP and nothing else.\<close>

definition udp_ref :: "bytes \<Rightarrow> sliced_packet option" where
  "udp_ref bs =
     (if length bs < 28 \<or> bs ! 0 \<noteq> 0x45 \<or> bs ! 9 \<noteq> IP_UDP then None
      else let payload = \<lparr>ipp_ip_number = IP_UDP, ipp_fragmented = False,
                 ipp_incomplete = length bs < be_nat (take 2 (drop 2 bs)), ipp_payload = drop 20 bs\<rparr>
      in Some \<lparr>sp_link = None, sp_vlan = None,
        sp_net = Some (NetIpv4 \<lparr>v4_source_addr = from_be_bytes (take 4 (drop 12 bs)),
          v4_destination_addr = from_be_bytes (take 4 (drop 16 bs)), v4_protocol = IP_UDP,
          v4_total_len = from_be_bytes (take 2 (drop 2 bs)), v4_dcp = 0, v4_ecn = 0,
          v4_ttl = bs ! 8, v4_identification = 0, v4_fragments_offset = 0, v4_header_checksum = 0,
          v4_calc_checksum = 0, v4_payload = payload\<rparr>),
        sp_transport = Some (TransportUdp \<lparr>udp_source_port = from_be_bytes (take 2 (drop 20 bs)),
          udp_destination_port = from_be_bytes (take 2 (drop 22 bs)),
          udp_length = from_be_bytes (take 2 (drop 24 bs)), udp_payload = drop 28 bs\<rparr>),
        sp_ether_payload = None, sp_ip_payload = Some payload\<rparr>)"

definition etherparse_ref :: etherparse where
  "etherparse_ref =
     \<lparr>from_ethernet = (\<lambda>_. None), from_ip = udp_ref,
      from_ether_type = (\<lambda>_ _. \<lparr>sp_link = None, sp_vlan = None, sp_net = None, sp_transport = None,
        sp_ether_payload = None, sp_ip_payload = None\<rparr>),
      tcp_from_slice = (\<lambda>_. None), udp_from_slice_lax = (\<lambda>_. None),
      icmpv4_from_slice = (\<lambda>_. None), icmpv6_from_slice = (\<lambda>_. None)\<rparr>"

text \<open>C24. The datagram taken from a captured frame is a whole one: at most four tunnels deep, out of
  packets that are each neither truncated nor a fragment, and with as many bytes of payload as
  its own UDP header says. Peeling stops for no other reason than the depth, an incomplete packet
  or a packet that carries no other.\<close>

theorem udp_packet_whole:
  assumes "parse_udp_packet E lt bs = Some (ip, payload)"
  shows "\<exists>link s p udp n. link_type_from_pcap lt = Some link \<and> slice_link E link bs = Some s \<and>
    peels E True n s p \<and> n \<le> MAX_TUNNEL_DEPTH \<and>
    (n = MAX_TUNNEL_DEPTH \<or> (\<forall>q. \<not> decapsulates E p q)) \<and>
    sp_transport p = Some (TransportUdp udp) \<and> payload = udp_payload udp \<and>
    (\<forall>ip. sp_ip_payload p = Some ip \<longrightarrow>
      \<not> ipp_incomplete ip \<and> \<not> ipp_fragmented ip \<and> length payload + 8 = unat (udp_length udp))"
proof -
  obtain link s where s: "link_type_from_pcap lt = Some link" "slice_link E link bs = Some s"
    using assms by (auto simp: parse_udp_packet_def bind_eq_Some_conv)
  let ?p = "pl_packet (peel_strict E s)"
  obtain udp where c: "is_complete ?p" and t: "sp_transport ?p = Some (TransportUdp udp)" "payload = udp_payload udp"
    using assms s
    by (cases "sp_transport ?p"; cases "the (sp_transport ?p)")
      (auto simp: parse_udp_packet_def bind_eq_Some_conv Let_def split: if_splits)
  obtain n where "n \<le> MAX_TUNNEL_DEPTH" "peels E True n s ?p" "n = MAX_TUNNEL_DEPTH \<or> (\<forall>q. \<not> decapsulates E ?p q)"
    using peel_loop_reaches [of MAX_TUNNEL_DEPTH E True s None] c unfolding peel_strict_def peel_with_def by metis
  moreover have "\<not> ipp_incomplete ip \<and> \<not> ipp_fragmented ip \<and> length payload + 8 = unat (udp_length udp)"
    if "sp_ip_payload ?p = Some ip" for ip
    using c t that by (simp add: is_complete_def split: if_splits)
  ultimately show ?thesis using s t by metis
qed

definition example_datagram :: bytes where
  "example_datagram = [0x45, 0, 0, 30, 0, 0, 0, 0, 64, 17, 0, 0, 192, 0, 2, 1, 198, 51, 100, 1,
     0x08, 0x07, 0x08, 0x08, 0, 10, 0, 0, 1, 2]"

theorem udp_packet_whole_witness:
  "\<exists>p n. peels etherparse_ref True n (the (udp_ref example_datagram)) p \<and> n \<le> MAX_TUNNEL_DEPTH"
proof -
  obtain sp where ref: "udp_ref example_datagram = Some sp"
    and sp: "is_complete sp" "ip_encapsulated etherparse_ref sp = None" "sp_ether_payload sp = None"
      "\<exists>udp. sp_transport sp = Some (TransportUdp udp)" "\<exists>ip. sp_net sp = Some (NetIpv4 ip)"
    by (simp add: udp_ref_def example_datagram_def IP_UDP_def Let_def is_complete_def ip_encapsulated_def
        be_nat_def from_be_bytes_def UDP_PORT_VXLAN_def UDP_PORT_GENEVE_def IP_GRE_def)
  then have "encapsulated etherparse_ref sp = None"
    by (simp add: encapsulated_def)
  then have "pl_packet (peel_strict etherparse_ref sp) = sp"
    by (simp add: peel_strict_def peel_with_def MAX_TUNNEL_DEPTH_def numeral_eq_Suc)
  then obtain ip payload where "parse_udp_packet etherparse_ref 101 example_datagram = Some (ip, payload)"
    using ref sp by (auto simp: parse_udp_packet_def link_type_from_pcap_def slice_link_def etherparse_ref_def)
  from udp_packet_whole [OF this] show ?thesis
    using ref by (auto simp: link_type_from_pcap_def slice_link_def etherparse_ref_def)
qed

end
