(* ===== verification/HashMap.thy ===== *)
theory HashMap
  imports Prelude "HOL-Library.AList"
begin

text \<open>
  The standard library's \<^verbatim>\<open>HashMap\<close> (the source's \<^verbatim>\<open>FxHashMap\<close> is the same type with another
  hasher). A map is the list of its entries in some iteration order, one entry per key.

  The locale \<open>hash_map\<close> is what the components rely on: what a lookup returns after each
  operation, and that the values a traversal visits are those of the keys, each once. Its
  client lemmas, on sums over the values, carry the accounting proofs of the template cache.
\<close>

type_synonym ('k, 'v) hashmap = "('k \<times> 'v) list"

definition hm_empty :: "('k, 'v) hashmap" where
  "hm_empty = []"

definition hm_get :: "('k, 'v) hashmap \<Rightarrow> 'k \<Rightarrow> 'v option" where
  "hm_get m = map_of m"

definition hm_insert :: "'k \<Rightarrow> 'v \<Rightarrow> ('k, 'v) hashmap \<Rightarrow> ('k, 'v) hashmap" where
  "hm_insert k v m = AList.update k v m"

definition hm_remove :: "'k \<Rightarrow> ('k, 'v) hashmap \<Rightarrow> ('k, 'v) hashmap" where
  "hm_remove k m = AList.delete k m"

text \<open>\<open>retain\<close> hands its closure a mutable reference to each value: the closure returns the
  value it leaves there and whether the entry stays.\<close>

definition hm_retain :: "('k \<Rightarrow> 'v \<Rightarrow> 'v \<times> bool) \<Rightarrow> ('k, 'v) hashmap \<Rightarrow> ('k, 'v) hashmap" where
  "hm_retain f m = map (\<lambda>(k, v). (k, fst (f k v))) (filter (\<lambda>(k, v). snd (f k v)) m)"

definition hm_values_mut :: "('v \<Rightarrow> 'v) \<Rightarrow> ('k, 'v) hashmap \<Rightarrow> ('k, 'v) hashmap" where
  "hm_values_mut f m = map (\<lambda>(k, v). (k, f v)) m"

definition hm_values :: "('k, 'v) hashmap \<Rightarrow> 'v list" where
  "hm_values m = map snd m"

definition hm_ok :: "('k, 'v) hashmap \<Rightarrow> bool" where
  "hm_ok m \<longleftrightarrow> distinct (map fst m)"

section \<open>The interface\<close>

locale hash_map =
  fixes empty :: "'m"
    and get :: "'m \<Rightarrow> 'k \<Rightarrow> 'v option"
    and ins :: "'k \<Rightarrow> 'v \<Rightarrow> 'm \<Rightarrow> 'm"
    and rem :: "'k \<Rightarrow> 'm \<Rightarrow> 'm"
    and retain :: "('k \<Rightarrow> 'v \<Rightarrow> 'v \<times> bool) \<Rightarrow> 'm \<Rightarrow> 'm"
    and vals :: "'m \<Rightarrow> 'v list"
    and ok :: "'m \<Rightarrow> bool"
  assumes ok_empty: "ok empty"
    and ok_ins: "ok m \<Longrightarrow> ok (ins k v m)"
    and ok_rem: "ok m \<Longrightarrow> ok (rem k m)"
    and ok_retain: "ok m \<Longrightarrow> ok (retain f m)"
    and get_empty: "get empty k = None"
    and get_ins: "get (ins k v m) k' = (if k' = k then Some v else get m k')"
    and get_rem: "get (rem k m) k' = (if k' = k then None else get m k')"
    and get_retain: "ok m \<Longrightarrow> get (retain f m) k =
       (case get m k of None \<Rightarrow> None
        | Some v \<Rightarrow> if snd (f k v) then Some (fst (f k v)) else None)"
    and finite_dom: "finite (dom (get m))"
    and vals_get: "ok m \<Longrightarrow>
       mset (vals m) = image_mset (\<lambda>k. the (get m k)) (mset_set (dom (get m)))"
begin

lemma vals_iff: "ok m \<Longrightarrow> v \<in> set (vals m) \<longleftrightarrow> (\<exists>k. get m k = Some v)"
  using vals_get [of m, THEN arg_cong [where f = set_mset]] finite_dom [of m]
  by (auto simp: image_iff domIff) force+

lemma vals_sum:
  "ok m \<Longrightarrow> sum_list (map f (vals m)) = (\<Sum>k\<in>dom (get m). f (the (get m k)))" for f :: "'v \<Rightarrow> nat"
proof -
  assume "ok m"
  then have "sum_mset (image_mset f (mset (vals m))) =
      sum_mset (image_mset f (image_mset (\<lambda>k. the (get m k)) (mset_set (dom (get m)))))"
    by (simp add: vals_get)
  then show ?thesis
    by (simp add: sum_unfold_sum_mset image_mset.compositionality comp_def
        flip: sum_mset_sum_list)
qed

lemma sum_agree: "(\<And>j. j \<noteq> k \<Longrightarrow> g j = h j) \<Longrightarrow>
    (\<Sum>j\<in>A - {k}. f (the (g j))) = (\<Sum>j\<in>A - {k}. f (the (h j)))" for f :: "'v \<Rightarrow> nat"
  by (intro sum.cong) auto

lemma dom_ins: "dom (get (ins k v m)) = insert k (dom (get m))"
  by (auto simp: get_ins domIff split: if_splits)

lemma dom_rem: "dom (get (rem k m)) = dom (get m) - {k}"
  by (auto simp: get_rem domIff split: if_splits)

lemma sum_others: "(\<Sum>j\<in>dom (get m) - {k}. f (the (get m j))) +
    (case get m k of None \<Rightarrow> 0 | Some v \<Rightarrow> f v) = (\<Sum>j\<in>dom (get m). f (the (get m j)))"
  for f :: "'v \<Rightarrow> nat"
proof (cases "get m k")
  case None
  then have "dom (get m) - {k} = dom (get m)"
    by (auto simp: domIff)
  with None show ?thesis by simp
next
  case (Some v)
  then have "k \<in> dom (get m)" by (simp add: domIff)
  with Some show ?thesis
    by (simp add: sum.remove [OF finite_dom, of k m])
qed

lemma vals_sum_ins:
  assumes "ok m"
  shows "sum_list (map f (vals (ins k v m))) + (case get m k of None \<Rightarrow> 0 | Some v' \<Rightarrow> f v') =
    sum_list (map f (vals m)) + (f v :: nat)"
proof -
  have "(\<Sum>j\<in>dom (get (ins k v m)). f (the (get (ins k v m) j))) =
      f v + (\<Sum>j\<in>dom (get m) - {k}. f (the (get m j)))"
    using finite_dom [of m] sum_agree [where k = k and g = "get (ins k v m)" and h = "get m"]
    by (simp add: dom_ins get_ins sum.insert_remove)
  then show ?thesis
    using assms sum_others [where m = m and k = k and f = f] by (simp add: vals_sum ok_ins)
qed

lemma vals_sum_rem:
  assumes "ok m"
  shows "sum_list (map f (vals (rem k m))) + (case get m k of None \<Rightarrow> 0 | Some v' \<Rightarrow> f v') =
    (sum_list (map f (vals m)) :: nat)"
proof -
  have "(\<Sum>j\<in>dom (get (rem k m)). f (the (get (rem k m) j))) =
      (\<Sum>j\<in>dom (get m) - {k}. f (the (get m j)))"
    using sum_agree [where k = k and g = "get (rem k m)" and h = "get m"] by (simp add: dom_rem get_rem)
  then show ?thesis
    using assms sum_others [where m = m and k = k and f = f] by (simp add: vals_sum ok_rem)
qed

lemma get_le_vals_sum:
  assumes "ok m" and "get m k = Some v"
  shows "f v \<le> (sum_list (map f (vals m)) :: nat)"
proof -
  have "v \<in> set (vals m)"
    using assms by (auto simp: vals_iff)
  then have "f v \<in> set (map f (vals m))"
    by simp
  then show ?thesis
    by (intro member_le_sum_list) auto
qed

end

section \<open>The association list implements it\<close>

lemma hm_ok_Cons: "hm_ok ((k, v) # m) \<longleftrightarrow> map_of m k = None \<and> hm_ok m"
  by (auto simp: hm_ok_def map_of_eq_None_iff)

lemma hm_get_retain: "hm_ok m \<Longrightarrow> hm_get (hm_retain f m) k =
   (case hm_get m k of None \<Rightarrow> None
    | Some v \<Rightarrow> if snd (f k v) then Some (fst (f k v)) else None)"
  by (induction m)
    (auto simp: hm_get_def hm_retain_def hm_ok_Cons split: option.splits)

lemma hm_vals_get: "hm_ok m \<Longrightarrow>
   mset (hm_values m) = image_mset (\<lambda>k. the (hm_get m k)) (mset_set (dom (hm_get m)))"
proof (induction m)
  case (Cons kv m)
  obtain k v where kv: "kv = (k, v)" by force
  from Cons.prems have k: "map_of m k = None" and ok: "hm_ok m"
    by (auto simp: kv hm_ok_Cons)
  have "image_mset (\<lambda>j. the (map_of (kv # m) j)) (mset_set (dom (map_of m))) =
      image_mset (\<lambda>j. the (map_of m j)) (mset_set (dom (map_of m)))"
    using k by (intro image_mset_cong) (auto simp: kv finite_dom_map_of)
  moreover have "k \<notin> dom (map_of m)"
    using k by (simp add: domIff)
  moreover have "dom (map_of (kv # m)) = insert k (dom (map_of m))"
    by (simp only: kv map_of.simps) simp
  ultimately show ?case
    using Cons.IH [OF ok]
    by (simp del: map_of.simps add: hm_values_def hm_get_def finite_dom_map_of) (simp add: kv)
qed (simp add: hm_values_def hm_get_def)

interpretation hm: hash_map hm_empty hm_get hm_insert hm_remove hm_retain hm_values hm_ok
proof unfold_locales
  show "hm_ok m \<Longrightarrow> hm_ok (hm_retain f m)" for f :: "'k \<Rightarrow> 'v \<Rightarrow> 'v \<times> bool" and m
    by (auto simp: hm_ok_def hm_retain_def comp_def case_prod_beta distinct_map inj_on_def)
  show "finite (dom (hm_get m))" for m :: "('k, 'v) hashmap"
    by (simp add: hm_get_def finite_dom_map_of)
qed (simp_all add: hm_get_retain hm_vals_get, simp_all add: hm_ok_def hm_empty_def hm_get_def
      hm_insert_def hm_remove_def distinct_update distinct_delete update_conv' delete_conv')

lemma hm_get_values_mut: "hm_get (hm_values_mut f m) k = map_option f (hm_get m k)"
  by (induction m) (auto simp: hm_get_def hm_values_mut_def)

lemma hm_ok_values_mut [simp]: "hm_ok (hm_values_mut f m) = hm_ok m"
  by (simp add: hm_ok_def hm_values_mut_def comp_def case_prod_beta)

lemma hm_values_values_mut: "hm_values (hm_values_mut f m) = map f (hm_values m)"
  by (simp add: hm_values_def hm_values_mut_def comp_def case_prod_beta)

lemma hm_get_Nil [simp]: "hm_get [] k = None"
  by (simp add: hm_get_def)

lemma hm_remove_NilD: "hm_remove k m = [] \<Longrightarrow> k' \<noteq> k \<Longrightarrow> hm_get m k' = None"
  by (metis hm.get_rem hm_get_Nil)

lemma hm_retain_NilD: "hm_retain f m = [] \<Longrightarrow> hm_ok m \<Longrightarrow> hm_get m k = Some v \<Longrightarrow> \<not> snd (f k v)"
  using hm.get_retain [of m f k] by (auto split: if_splits)

lemma hm_insert_not_Nil [simp]: "hm_insert k v m \<noteq> []"
  by (metis hm.get_ins hm_get_Nil option.distinct(1))

lemmas hm_laws = hm.get_empty hm.get_ins hm.get_rem hm.get_retain hm_get_values_mut
  hm.ok_empty hm.ok_ins hm.ok_rem hm.ok_retain

end
