(* ===== verification/Meter.thy ===== *)
theory Meter
  imports Packet HashMap
begin

text \<open>
  The metering of \<^verbatim>\<open>rustflow_export\<close>: \<^verbatim>\<open>sampler.rs\<close>, \<^verbatim>\<open>flow/mod.rs\<close> (the flow cache), \<^verbatim>\<open>flow/parse.rs\<close>
  and \<^verbatim>\<open>meter.rs\<close>. Frames come from a capture; those sampled become flows in a bounded cache, or
  are kept as they are. Instants and durations are in nanoseconds; \<^verbatim>\<open>Instant::now()\<close> is the
  argument \<open>now\<close>. The counters of a flow wrap at 64 bits. An index out of range, where the source
  panics, is the value \<open>None\<close>.
\<close>

section \<open>Sampling\<close>

datatype sampling = SamplingCount u32

datatype sampler = SamplerCount u32 u32

definition sampler_new :: "sampling \<Rightarrow> sampler" where
  "sampler_new sampling = (case sampling of SamplingCount interval \<Rightarrow> SamplerCount (max interval 1) 1)"

definition sampler_select :: "sampler \<Rightarrow> sampler \<times> bool" where
  "sampler_select self =
     (case self of SamplerCount interval countdown \<Rightarrow>
        if countdown > 1 then (SamplerCount interval (countdown - 1), False)
        else (SamplerCount interval interval, True))"

section \<open>Flows\<close>

datatype flow_end_reason = IdleTimeout | ActiveTimeout | ForcedEnd | LackOfResources

definition flow_end_reason_id :: "flow_end_reason \<Rightarrow> u8" where
  "flow_end_reason_id reason =
     (case reason of IdleTimeout \<Rightarrow> 1 | ActiveTimeout \<Rightarrow> 2 | ForcedEnd \<Rightarrow> 4 | LackOfResources \<Rightarrow> 5)"

record flow_key =
  fk_source_ip :: ip_addr
  fk_destination_ip :: ip_addr
  fk_protocol :: u8
  fk_source_port :: u16
  fk_destination_port :: u16

record seen =
  sn_time :: datetime
  sn_instant :: nat

record flow =
  fw_key :: flow_key
  fw_octet_count :: u64
  fw_packet_count :: u64
  fw_tcp_flags :: u16
  fw_flow_start :: datetime
  fw_flow_end :: datetime
  fw_first_seen :: nat
  fw_last_seen :: nat
  fw_flow_end_reason :: "flow_end_reason option"

definition flow_new :: "flow_key \<Rightarrow> seen \<Rightarrow> flow" where
  "flow_new key s =
     \<lparr>fw_key = key, fw_octet_count = 0, fw_packet_count = 0, fw_tcp_flags = 0, fw_flow_start = sn_time s,
      fw_flow_end = sn_time s, fw_first_seen = sn_instant s, fw_last_seen = sn_instant s,
      fw_flow_end_reason = None\<rparr>"

definition flow_ended :: "flow_end_reason \<Rightarrow> flow \<Rightarrow> flow" where
  "flow_ended reason self = self\<lparr>fw_flow_end_reason := Some reason\<rparr>"

definition flow_update :: "u64 \<Rightarrow> u16 \<Rightarrow> seen \<Rightarrow> flow \<Rightarrow> flow" where
  "flow_update packet_size tcp_flags s self =
     self\<lparr>fw_octet_count := fw_octet_count self + packet_size,
       fw_packet_count := fw_packet_count self + 1,
       fw_tcp_flags := fw_tcp_flags self OR tcp_flags,
       fw_flow_end := sn_time s, fw_last_seen := sn_instant s\<rparr>"

section \<open>The flow cache\<close>

definition EVICTION_FRACTION :: nat where
  "EVICTION_FRACTION = 8"

record flow_cache =
  fc_flows :: "(flow_key, flow) hashmap"
  fc_active_timeout :: nat
  fc_inactive_timeout :: nat
  fc_max_flows :: nat
  fc_evicted :: "flow list"

definition flow_cache_new :: "u64 \<Rightarrow> u64 \<Rightarrow> nat \<Rightarrow> flow_cache" where
  "flow_cache_new active_timeout inactive_timeout max_flows =
     \<lparr>fc_flows = hm_empty, fc_active_timeout = unat active_timeout * 10 ^ 9,
      fc_inactive_timeout = unat inactive_timeout * 10 ^ 9, fc_max_flows = max_flows, fc_evicted = []\<rparr>"

text \<open>\<^verbatim>\<open>select_nth_unstable\<close>: the element that sorting would put at the index.\<close>

definition select_nth :: "nat list \<Rightarrow> nat \<Rightarrow> nat option" where
  "select_nth xs i = (if i < length xs then Some (sort xs ! i) else None)"

definition evict_idle_longest :: "flow_cache \<Rightarrow> flow_cache option" where
  "evict_idle_longest self =
     (let count = max (fc_max_flows self div EVICTION_FRACTION) 1;
          ends = map fw_last_seen (hm_values (fc_flows self))
      in map_option (\<lambda>cutoff.
           self\<lparr>fc_flows := hm_retain (\<lambda>_ flow. (flow, fw_last_seen flow > cutoff)) (fc_flows self),
             fc_evicted := fc_evicted self @
               map (flow_ended LackOfResources)
                 (filter (\<lambda>flow. \<not> fw_last_seen flow > cutoff) (hm_values (fc_flows self)))\<rparr>)
         (select_nth ends (count - 1)))"

definition update_flow :: "flow_key \<Rightarrow> u64 \<Rightarrow> u16 \<Rightarrow> seen \<Rightarrow> flow_cache \<Rightarrow> flow_cache option" where
  "update_flow key packet_size tcp_flags s self =
     (case hm_get (fc_flows self) key of
        Some flow \<Rightarrow>
          Some (self\<lparr>fc_flows := hm_insert key (flow_update packet_size tcp_flags s flow) (fc_flows self)\<rparr>)
      | None \<Rightarrow>
          map_option (\<lambda>self.
              let flow = flow_update packet_size tcp_flags s (flow_new key s)
              in self\<lparr>fc_flows := hm_insert key flow (fc_flows self)\<rparr>)
            (if length (fc_flows self) \<ge> fc_max_flows self then evict_idle_longest self else Some self))"

definition has_evicted :: "flow_cache \<Rightarrow> bool" where
  "has_evicted self \<longleftrightarrow> fc_evicted self \<noteq> []"

text \<open>Why a flow ends, if it does.\<close>

definition expiry :: "nat \<Rightarrow> nat \<Rightarrow> nat \<Rightarrow> flow \<Rightarrow> flow_end_reason option" where
  "expiry active_timeout inactive_timeout now flow =
     (let age = now - fw_first_seen flow;
          idle_time = now - fw_last_seen flow
      in if age \<ge> active_timeout then Some ActiveTimeout
         else if idle_time \<ge> inactive_timeout then Some IdleTimeout
         else None)"

text \<open>The source then shrinks the table's capacity, which no operation shows.\<close>

definition check_expired_flows :: "nat \<Rightarrow> flow_cache \<Rightarrow> flow_cache \<times> flow list" where
  "check_expired_flows now self =
     (let reason = expiry (fc_active_timeout self) (fc_inactive_timeout self) now
      in (self\<lparr>fc_flows := hm_retain (\<lambda>_ flow. (flow, reason flow = None)) (fc_flows self), fc_evicted := []\<rparr>,
          fc_evicted self @
            List.map_filter (\<lambda>flow. map_option (\<lambda>r. flow_ended r flow) (reason flow)) (hm_values (fc_flows self))))"

definition export_all :: "flow_cache \<Rightarrow> flow_cache \<times> flow list" where
  "export_all self =
     (self\<lparr>fc_flows := hm_empty, fc_evicted := []\<rparr>,
      fc_evicted self @ map (flow_ended ForcedEnd) (hm_values (fc_flows self)))"

definition flow_cache_len :: "flow_cache \<Rightarrow> nat" where
  "flow_cache_len self = length (fc_flows self)"

section \<open>Packets\<close>

datatype link = LinkLayerEthernet | LinkLayerIp

record packet_info =
  pi_flow_key :: flow_key
  pi_packet_size :: u64
  pi_tcp_flags :: u16

definition packet_info_of :: "sliced_packet \<Rightarrow> packet_info option" where
  "packet_info_of sliced =
     map_option (\<lambda>(source_ip, dest_ip, protocol, total_length).
         let (source_port, dest_port, tcp_flags) =
               (case sp_transport sliced of
                  Some (TransportTcp tcp) \<Rightarrow>
                    (tcp_source_port tcp, tcp_destination_port tcp,
                     push_bit 8 (of_bool (tcp_ns tcp)) OR of_bool (tcp_fin tcp) OR
                     push_bit 1 (of_bool (tcp_syn tcp)) OR push_bit 2 (of_bool (tcp_rst tcp)) OR
                     push_bit 3 (of_bool (tcp_psh tcp)) OR push_bit 4 (of_bool (tcp_ack tcp)) OR
                     push_bit 5 (of_bool (tcp_urg tcp)) OR push_bit 6 (of_bool (tcp_ece tcp)) OR
                     push_bit 7 (of_bool (tcp_cwr tcp)))
                | Some (TransportUdp udp) \<Rightarrow> (udp_source_port udp, udp_destination_port udp, 0)
                | _ \<Rightarrow> (0, 0, 0))
         in \<lparr>pi_flow_key = \<lparr>fk_source_ip = source_ip, fk_destination_ip = dest_ip, fk_protocol = protocol,
               fk_source_port = source_port, fk_destination_port = dest_port\<rparr>,
             pi_packet_size = total_length, pi_tcp_flags = tcp_flags\<rparr>)
       (case sp_net sliced of
          Some (NetIpv4 ipv4) \<Rightarrow>
            Some (V4 (v4_source_addr ipv4), V4 (v4_destination_addr ipv4), v4_protocol ipv4, ucast (v4_total_len ipv4))
        | Some (NetIpv6 ipv6) \<Rightarrow>
            Some (V6 (v6_source_addr ipv6), V6 (v6_destination_addr ipv6), ipp_ip_number (v6_payload ipv6),
              ucast (v6_payload_length ipv6) + 40)
        | _ \<Rightarrow> None)"

definition parse_frame :: "etherparse \<Rightarrow> link \<Rightarrow> bytes \<Rightarrow> packet_info option" where
  "parse_frame E lnk data =
     (case lnk of LinkLayerEthernet \<Rightarrow> from_ethernet E data | LinkLayerIp \<Rightarrow> from_ip E data) \<bind> packet_info_of"

section \<open>The meter\<close>

definition PACKET_BATCH :: nat where
  "PACKET_BATCH = 64"

datatype mode = ModeFlow | ModePacket

record packet_data =
  pd_link :: link
  pd_length :: u32
  pd_section :: bytes

datatype records = RecordsFlows "flow list" | RecordsPackets "packet_data list"

text \<open>The packets pending stand beside the length they are clipped to.\<close>

datatype meter_output = OutputFlows flow_cache | OutputPackets nat "packet_data list"

definition METER_UDP :: u8 where
  "METER_UDP = 17"

record socket_addr =
  sa_ip :: ip_addr
  sa_port :: u16

text \<open>The arguments the meter and the exporter read.\<close>

record export_args =
  ar_mode :: mode
  ar_clip_length :: u16
  ar_observation_domain_id :: u32
  ar_active_timeout :: u64
  ar_inactive_timeout :: u64
  ar_max_flows :: nat
  ar_template_refresh_rate :: u64
  ar_sampling_packet_interval :: u32

definition args_sampling :: "export_args \<Rightarrow> sampling" where
  "args_sampling self = SamplingCount (ar_sampling_packet_interval self)"

record capture_frame =
  fm_data :: bytes
  fm_length :: u32
  fm_time :: datetime

record meter =
  mt_link :: link
  mt_local_port :: u16
  mt_collector :: socket_addr
  mt_sampler :: sampler
  mt_output :: meter_output

definition meter_new :: "export_args \<Rightarrow> link \<Rightarrow> u16 \<Rightarrow> socket_addr \<Rightarrow> meter" where
  "meter_new args lnk local_port collector =
     \<lparr>mt_link = lnk, mt_local_port = local_port, mt_collector = collector,
      mt_sampler = sampler_new (args_sampling args),
      mt_output = (case ar_mode args of
          ModeFlow \<Rightarrow> OutputFlows (flow_cache_new (ar_active_timeout args) (ar_inactive_timeout args) (ar_max_flows args))
        | ModePacket \<Rightarrow> OutputPackets (unat (ar_clip_length args)) [])\<rparr>"

definition is_export :: "meter \<Rightarrow> packet_info \<Rightarrow> bool" where
  "is_export self packet \<longleftrightarrow>
     (let key = pi_flow_key packet in
      fk_protocol key = METER_UDP \<and> fk_source_port key = mt_local_port self \<and>
      fk_destination_ip key = sa_ip (mt_collector self) \<and> fk_destination_port key = sa_port (mt_collector self))"

definition observe :: "etherparse \<Rightarrow> nat \<Rightarrow> capture_frame \<Rightarrow> meter \<Rightarrow> meter option" where
  "observe E now frm self =
     (case sampler_select (mt_sampler self) of (smp, selected) \<Rightarrow>
        let self = self\<lparr>mt_sampler := smp\<rparr> in
        if \<not> selected then Some self
        else
          let packet = parse_frame E (mt_link self) (fm_data frm) in
          if (case packet of Some p \<Rightarrow> is_export self p | None \<Rightarrow> False) then Some self
          else (case mt_output self of
             OutputFlows cache \<Rightarrow>
               (case packet of
                  Some p \<Rightarrow>
                    map_option (\<lambda>cache. self\<lparr>mt_output := OutputFlows cache\<rparr>)
                      (update_flow (pi_flow_key p) (pi_packet_size p) (pi_tcp_flags p)
                        \<lparr>sn_time = fm_time frm, sn_instant = now\<rparr> cache)
                | None \<Rightarrow> Some self)
           | OutputPackets clip_length pending \<Rightarrow>
               Some (self\<lparr>mt_output := OutputPackets clip_length (pending @
                 [\<lparr>pd_link = mt_link self, pd_length = fm_length frm,
                   pd_section = take (min (length (fm_data frm)) clip_length) (fm_data frm)\<rparr>])\<rparr>)))"

definition is_full :: "meter \<Rightarrow> bool" where
  "is_full self =
     (case mt_output self of
        OutputFlows cache \<Rightarrow> has_evicted cache
      | OutputPackets _ pending \<Rightarrow> length pending \<ge> PACKET_BATCH)"

definition take_due :: "nat \<Rightarrow> meter \<Rightarrow> meter \<times> records" where
  "take_due now self =
     (case mt_output self of
        OutputFlows cache \<Rightarrow>
          (case check_expired_flows now cache of (cache, flows) \<Rightarrow>
             (self\<lparr>mt_output := OutputFlows cache\<rparr>, RecordsFlows flows))
      | OutputPackets clip_length pending \<Rightarrow>
          (self\<lparr>mt_output := OutputPackets clip_length []\<rparr>, RecordsPackets pending))"

definition take_all :: "meter \<Rightarrow> meter \<times> records" where
  "take_all self =
     (case mt_output self of
        OutputFlows cache \<Rightarrow>
          (case export_all cache of (cache, flows) \<Rightarrow>
             (self\<lparr>mt_output := OutputFlows cache\<rparr>, RecordsFlows flows))
      | OutputPackets clip_length pending \<Rightarrow>
          (self\<lparr>mt_output := OutputPackets clip_length []\<rparr>, RecordsPackets pending))"

definition active_flows :: "meter \<Rightarrow> nat" where
  "active_flows self =
     (case mt_output self of OutputFlows cache \<Rightarrow> flow_cache_len cache | OutputPackets _ _ \<Rightarrow> 0)"

section \<open>The table of flows\<close>

lemma mset_values_insert:
  "hm_ok m \<Longrightarrow> mset (hm_values (hm_insert k v m)) +
     (case hm_get m k of None \<Rightarrow> {#} | Some v' \<Rightarrow> {#v'#}) = add_mset v (mset (hm_values m))"
proof (induction m)
  case (Cons e m)
  then show ?case
    by (cases e) (auto simp: hm_values_def hm_insert_def hm_get_def hm_ok_Cons split: option.splits)
qed (simp add: hm_values_def hm_insert_def hm_get_def)

lemma values_retain: "hm_values (hm_retain (\<lambda>_ v. (v, keep v)) m) = filter keep (hm_values m)"
  by (induction m) (auto simp: hm_values_def hm_retain_def)

lemma length_values: "length (hm_values m) = length m"
  by (simp add: hm_values_def)

lemma length_retain: "length (hm_retain (\<lambda>_ v. (v, keep v)) m) = length (filter keep (hm_values m))"
  unfolding values_retain [symmetric] length_values ..

lemma in_map_filter: "y \<in> set (List.map_filter f xs) \<longleftrightarrow> (\<exists>x\<in>set xs. f x = Some y)"
  by (induction xs) (auto simp: map_filter_simps split: option.split)

section \<open>The flows idle longest\<close>

lemma select_nth_count:
  assumes "select_nth xs i = Some c"
  shows "i < length (filter (\<lambda>x. x \<le> c) xs)"
proof -
  let ?ys = "sort xs"
  have i: "i < length ?ys" and c: "c = ?ys ! i"
    using assms by (auto simp: select_nth_def split: if_splits)
  have "\<forall>x\<in>set (take (Suc i) ?ys). x \<le> c"
    using i by (auto simp: c in_set_conv_nth intro!: sorted_nth_mono)
  then have "filter (\<lambda>x. x \<le> c) (take (Suc i) ?ys) = take (Suc i) ?ys"
    by (simp add: filter_id_conv)
  then have "length (take (Suc i) ?ys) \<le> length (filter (\<lambda>x. x \<le> c) ?ys)"
    by (metis append_take_drop_id filter_append le_add1 length_append)
  moreover have "length (filter (\<lambda>x. x \<le> c) ?ys) = length (filter (\<lambda>x. x \<le> c) xs)"
    by (metis mset_filter mset_sort size_mset)
  ultimately show ?thesis using i by simp
qed

definition eviction_count :: "flow_cache \<Rightarrow> nat" where
  "eviction_count self = max (fc_max_flows self div EVICTION_FRACTION) 1"

lemma evict_succeeds:
  assumes "1 \<le> fc_max_flows c" and "fc_max_flows c \<le> length (fc_flows c)"
  obtains cutoff where
    "evict_idle_longest c = Some (c\<lparr>fc_flows := hm_retain (\<lambda>_ flow. (flow, fw_last_seen flow > cutoff)) (fc_flows c),
       fc_evicted := fc_evicted c @ map (flow_ended LackOfResources)
         (filter (\<lambda>flow. \<not> fw_last_seen flow > cutoff) (hm_values (fc_flows c)))\<rparr>)"
    and "eviction_count c \<le> length (filter (\<lambda>flow. \<not> fw_last_seen flow > cutoff) (hm_values (fc_flows c)))"
proof -
  have "max a 1 - 1 < l" if "a \<le> m" "1 \<le> m" "m \<le> l" for a m l :: nat
    using that by auto
  from this [OF div_le_dividend assms]
  have "eviction_count c - 1 < length (map fw_last_seen (hm_values (fc_flows c)))"
    by (simp add: eviction_count_def length_values)
  then obtain cutoff where sel: "select_nth (map fw_last_seen (hm_values (fc_flows c))) (eviction_count c - 1) = Some cutoff"
    by (simp add: select_nth_def)
  have "eviction_count c \<le> length (filter (\<lambda>flow. \<not> fw_last_seen flow > cutoff) (hm_values (fc_flows c)))"
    using select_nth_count [OF sel] by (simp add: comp_def not_less)
  then show ?thesis
    using that sel by (simp add: evict_idle_longest_def eviction_count_def Let_def)
qed

section \<open>The state of the cache\<close>

definition flow_cache_ok :: "flow_cache \<Rightarrow> bool" where
  "flow_cache_ok c \<longleftrightarrow> hm_ok (fc_flows c) \<and> 1 \<le> fc_max_flows c \<and> length (fc_flows c) \<le> fc_max_flows c \<and>
     (\<forall>key flow. hm_get (fc_flows c) key = Some flow \<longrightarrow> fw_key flow = key)"

lemma flow_cache_ok_new: "1 \<le> max_flows \<Longrightarrow> flow_cache_ok (flow_cache_new active inactive max_flows)"
  by (simp add: flow_cache_ok_def flow_cache_new_def hm_laws) (simp add: hm_empty_def)

lemma length_hm_insert:
  "hm_ok m \<Longrightarrow> length (hm_insert k v m) = length m + (if hm_get m k = None then 1 else 0)"
  using mset_values_insert [of m k v, THEN arg_cong [where f = size]]
  by (cases "hm_get m k") (simp_all add: length_values)

lemma flow_key_simps [simp]:
  "fw_key (flow_update n t s f) = fw_key f" "fw_key (flow_new k s) = k" "fw_key (flow_ended r f) = fw_key f"
  by (simp_all add: flow_update_def flow_new_def flow_ended_def)

lemma evict_ok:
  assumes "flow_cache_ok c" and "fc_max_flows c \<le> length (fc_flows c)"
  obtains c' where "evict_idle_longest c = Some c'" and "flow_cache_ok c'" and "fc_max_flows c' = fc_max_flows c"
    and "length (fc_flows c') + eviction_count c \<le> length (fc_flows c)"
    and "\<And>key. hm_get (fc_flows c') key = None \<or> hm_get (fc_flows c') key = hm_get (fc_flows c) key"
proof -
  have ok: "hm_ok (fc_flows c)" "1 \<le> fc_max_flows c" "length (fc_flows c) \<le> fc_max_flows c"
    using assms(1) by (simp_all add: flow_cache_ok_def)
  obtain cutoff where e: "evict_idle_longest c = Some (c\<lparr>fc_flows :=
        hm_retain (\<lambda>_ flow. (flow, fw_last_seen flow > cutoff)) (fc_flows c),
      fc_evicted := fc_evicted c @ map (flow_ended LackOfResources)
        (filter (\<lambda>flow. \<not> fw_last_seen flow > cutoff) (hm_values (fc_flows c)))\<rparr>)" (is "_ = Some ?c")
    and n: "eviction_count c \<le> length (filter (\<lambda>flow. \<not> fw_last_seen flow > cutoff) (hm_values (fc_flows c)))"
    using evict_succeeds [OF ok(2) assms(2)] by blast
  have get: "hm_get (fc_flows ?c) key = None \<or> hm_get (fc_flows ?c) key = hm_get (fc_flows c) key" for key
    using ok(1) by (simp add: hm_laws split: option.split)
  have "length (filter (\<lambda>flow. fw_last_seen flow > cutoff) (hm_values (fc_flows c))) +
      length (filter (\<lambda>flow. \<not> fw_last_seen flow > cutoff) (hm_values (fc_flows c))) = length (fc_flows c)"
    by (simp add: sum_length_filter_compl length_values)
  moreover have "length (fc_flows ?c) = length (filter (\<lambda>flow. fw_last_seen flow > cutoff) (hm_values (fc_flows c)))"
    by (simp add: length_retain)
  ultimately have len: "length (fc_flows ?c) + eviction_count c \<le> length (fc_flows c)"
    using n by linarith
  have "flow_cache_ok ?c"
    using assms(1) get len ok unfolding flow_cache_ok_def by (auto simp: hm_laws split: option.splits if_splits)
  then show ?thesis using that e get len by simp
qed

lemma update_flow_ok:
  assumes "flow_cache_ok c"
  obtains c' where "update_flow key n t s c = Some c'" and "flow_cache_ok c'" and "fc_max_flows c' = fc_max_flows c"
proof (cases "hm_get (fc_flows c) key")
  case (Some flow)
  then show ?thesis
    using assms that by (simp add: update_flow_def flow_cache_ok_def length_hm_insert hm_laws)
next
  case None
  have insert_ok: "flow_cache_ok (c'\<lparr>fc_flows := hm_insert key (flow_update n t s (flow_new key s)) (fc_flows c')\<rparr>)"
    if "flow_cache_ok c'" "length (fc_flows c') < fc_max_flows c'" for c'
    using that by (auto simp: flow_cache_ok_def length_hm_insert hm_laws)
  show ?thesis
  proof (cases "fc_max_flows c \<le> length (fc_flows c)")
    case True
    from assms True obtain c' where c': "evict_idle_longest c = Some c'" "flow_cache_ok c'" "fc_max_flows c' = fc_max_flows c"
      "length (fc_flows c') + eviction_count c \<le> length (fc_flows c)"
      by (rule evict_ok)
    have "1 \<le> eviction_count c" by (simp add: eviction_count_def)
    then have "length (fc_flows c') < fc_max_flows c'"
      using c' assms by (simp add: flow_cache_ok_def)
    then show ?thesis
      using that insert_ok [OF c'(2)] True None c' by (simp add: update_flow_def Let_def)
  next
    case False
    then show ?thesis
      using that insert_ok [OF assms] None by (simp add: update_flow_def Let_def)
  qed
qed

lemma check_expired_ok:
  assumes "flow_cache_ok c"
  shows "flow_cache_ok (fst (check_expired_flows now c))"
    and "fc_max_flows (fst (check_expired_flows now c)) = fc_max_flows c"
proof -
  let ?keep = "\<lambda>flow. expiry (fc_active_timeout c) (fc_inactive_timeout c) now flow = None"
  have "length (hm_retain (\<lambda>_ flow. (flow, ?keep flow)) (fc_flows c)) \<le> length (fc_flows c)"
    unfolding length_retain by (metis length_filter_le length_values)
  then show "flow_cache_ok (fst (check_expired_flows now c))"
    using assms unfolding flow_cache_ok_def check_expired_flows_def Let_def
    by (auto simp: hm_laws split: option.splits if_splits)
  show "fc_max_flows (fst (check_expired_flows now c)) = fc_max_flows c"
    by (simp add: check_expired_flows_def Let_def)
qed

section \<open>What the flows add up to\<close>

text \<open>
  A counter of a flow: it starts at zero, each packet adds its step and ending the flow leaves it.
  What the flows of a key add up to is then what its packets add up to.
\<close>

definition key_total :: "(flow \<Rightarrow> u64) \<Rightarrow> flow_key \<Rightarrow> flow multiset \<Rightarrow> u64" where
  "key_total counter key M = sum_mset (image_mset counter (filter_mset (\<lambda>flow. fw_key flow = key) M))"

definition held :: "flow_cache \<Rightarrow> flow multiset" where
  "held c = mset (fc_evicted c) + mset (hm_values (fc_flows c))"

lemma key_total_simps [simp]:
  "key_total counter key {#} = 0"
  "key_total counter key (M + N) = key_total counter key M + key_total counter key N"
  "key_total counter key (add_mset flow M) = (if fw_key flow = key then counter flow else 0) + key_total counter key M"
  by (simp_all add: key_total_def)

lemma key_total_filter:
  "key_total counter key (mset (filter P xs)) + key_total counter key (mset (filter (\<lambda>x. \<not> P x) xs)) =
    key_total counter key (mset xs)"
  by (induction xs) (simp_all add: algebra_simps)

locale flow_counter =
  fixes counter :: "flow \<Rightarrow> u64" and step :: "u64 \<Rightarrow> u64"
  assumes count_new: "counter (flow_new key s) = 0"
    and count_update: "counter (flow_update n t s flow) = counter flow + step n"
    and count_ended: "counter (flow_ended r flow) = counter flow"
begin

lemma total_ended: "key_total counter key (mset (map (flow_ended r) flows)) = key_total counter key (mset flows)"
  by (induction flows) (simp_all add: count_ended)

lemma total_expired:
  "key_total counter key (mset (List.map_filter (\<lambda>flow. map_option (\<lambda>r. flow_ended r flow) (reason flow)) flows)) =
    key_total counter key (mset (filter (\<lambda>flow. reason flow \<noteq> None) flows))"
  by (induction flows) (simp_all add: map_filter_simps count_ended split: option.split)

lemma total_evict:
  assumes "evict_idle_longest c = Some c'"
  shows "key_total counter key (held c') = key_total counter key (held c)"
proof -
  obtain cutoff where c': "c' = c\<lparr>fc_flows := hm_retain (\<lambda>_ flow. (flow, fw_last_seen flow > cutoff)) (fc_flows c),
      fc_evicted := fc_evicted c @ map (flow_ended LackOfResources)
        (filter (\<lambda>flow. \<not> fw_last_seen flow > cutoff) (hm_values (fc_flows c)))\<rparr>"
    using assms by (auto simp: evict_idle_longest_def Let_def)
  show ?thesis
    using key_total_filter [of counter key "\<lambda>flow. fw_last_seen flow > cutoff" "hm_values (fc_flows c)"]
    by (simp add: c' held_def values_retain total_ended algebra_simps flip: mset_map)
qed

lemma total_insert:
  assumes "hm_ok (fc_flows c)"
  shows "key_total counter key (held (c\<lparr>fc_flows := hm_insert k flow (fc_flows c)\<rparr>)) +
      key_total counter key (case hm_get (fc_flows c) k of None \<Rightarrow> {#} | Some old \<Rightarrow> {#old#}) =
    key_total counter key (held c) + (if fw_key flow = key then counter flow else 0)"
  using mset_values_insert [OF assms, of k flow, THEN arg_cong [where f = "key_total counter key"]]
  by (simp add: held_def algebra_simps)

lemma total_update:
  assumes "flow_cache_ok c" and "update_flow k n t s c = Some c'"
  shows "key_total counter key (held c') = key_total counter key (held c) + (if k = key then step n else 0)"
proof (cases "hm_get (fc_flows c) k")
  case (Some flow)
  have "hm_ok (fc_flows c)" "fw_key flow = k"
    using assms(1) Some by (auto simp: flow_cache_ok_def)
  then show ?thesis
    using assms(2) Some total_insert [of c key k "flow_update n t s flow"]
    by (auto simp: update_flow_def count_update algebra_simps split: if_splits)
next
  case None
  then obtain c1 where c1: "(if length (fc_flows c) \<ge> fc_max_flows c then evict_idle_longest c else Some c) = Some c1"
    and c': "c' = c1\<lparr>fc_flows := hm_insert k (flow_update n t s (flow_new k s)) (fc_flows c1)\<rparr>"
    using assms(2) by (auto simp: update_flow_def Let_def)
  have "key_total counter key (held c1) = key_total counter key (held c)"
    using c1 by (auto simp: total_evict split: if_splits)
  moreover have "hm_get (fc_flows c1) k = None \<and> hm_ok (fc_flows c1)"
  proof (cases "length (fc_flows c) \<ge> fc_max_flows c")
    case True
    from assms(1) True obtain c2 where "evict_idle_longest c = Some c2" "flow_cache_ok c2"
      "hm_get (fc_flows c2) k = None \<or> hm_get (fc_flows c2) k = hm_get (fc_flows c) k"
      by (rule evict_ok) blast
    then show ?thesis using c1 True None by (simp add: flow_cache_ok_def)
  next
    case False
    then show ?thesis using c1 None assms(1) by (simp add: flow_cache_ok_def)
  qed
  ultimately show ?thesis
    using total_insert [of c1 key k "flow_update n t s (flow_new k s)"] by (simp add: c' count_update count_new)
qed

lemma total_check:
  "key_total counter key (held (fst (check_expired_flows now c))) +
     key_total counter key (mset (snd (check_expired_flows now c))) = key_total counter key (held c)"
  using key_total_filter [of counter key "\<lambda>flow. expiry (fc_active_timeout c) (fc_inactive_timeout c) now flow = None"
      "hm_values (fc_flows c)"]
  by (simp add: check_expired_flows_def Let_def held_def values_retain total_expired algebra_simps)

lemma total_export: "key_total counter key (mset (snd (export_all c))) = key_total counter key (held c)"
  by (simp add: export_all_def held_def total_ended flip: mset_map)

end

interpretation octets: flow_counter fw_octet_count "\<lambda>n. n"
  by unfold_locales (simp_all add: flow_new_def flow_update_def flow_ended_def)

interpretation packets: flow_counter fw_packet_count "\<lambda>_. 1"
  by unfold_locales (simp_all add: flow_new_def flow_update_def flow_ended_def)

section \<open>Running the cache\<close>

datatype cache_op = Observed flow_key u64 u16 seen | Checked nat

fun cache_run :: "cache_op list \<Rightarrow> flow_cache \<times> flow list \<Rightarrow> (flow_cache \<times> flow list) option" where
  "cache_run [] st = Some st"
| "cache_run (Observed key n t s # ops) (c, out) = update_flow key n t s c \<bind> (\<lambda>c. cache_run ops (c, out))"
| "cache_run (Checked now # ops) (c, out) =
     (case check_expired_flows now c of (c, expired) \<Rightarrow> cache_run ops (c, out @ expired))"

fun sizes :: "flow_key \<Rightarrow> cache_op list \<Rightarrow> u64 list" where
  "sizes key [] = []"
| "sizes key (Observed k n t s # ops) = (if k = key then [n] else []) @ sizes key ops"
| "sizes key (Checked now # ops) = sizes key ops"

lemma cache_run_ok:
  "flow_cache_ok c \<Longrightarrow> \<exists>c' out'. cache_run ops (c, out) = Some (c', out') \<and> flow_cache_ok c' \<and>
    fc_max_flows c' = fc_max_flows c"
proof (induction ops arbitrary: c out)
  case (Cons oper ops)
  show ?case
  proof (cases oper)
    case (Observed key n t s)
    from Cons.prems obtain c1 where "update_flow key n t s c = Some c1" "flow_cache_ok c1" "fc_max_flows c1 = fc_max_flows c"
      by (rule update_flow_ok)
    then show ?thesis using Cons.IH [of c1 out] by (simp add: Observed)
  next
    case (Checked now)
    then show ?thesis
      using Cons.IH [OF check_expired_ok(1) [OF Cons.prems]] check_expired_ok(2) [OF Cons.prems]
      by (simp add: case_prod_beta)
  qed
qed simp

context flow_counter
begin

lemma total_run:
  "flow_cache_ok c \<Longrightarrow> cache_run ops (c, out) = Some (c', out') \<Longrightarrow>
    key_total counter key (mset out') + key_total counter key (held c') =
    key_total counter key (mset out) + key_total counter key (held c) + sum_list (map step (sizes key ops))"
proof (induction ops arbitrary: c out)
  case (Cons oper ops)
  show ?case
  proof (cases oper)
    case (Observed k n t s)
    from Cons.prems(1) obtain c1 where c1: "update_flow k n t s c = Some c1" "flow_cache_ok c1"
      by (rule update_flow_ok)
    then show ?thesis
      using Cons.IH [OF c1(2), of out] Cons.prems(2) total_update [OF Cons.prems(1) c1(1), of key]
      by (simp add: Observed algebra_simps)
  next
    case (Checked now)
    then show ?thesis
      using Cons.IH [OF check_expired_ok(1) [OF Cons.prems(1)]] Cons.prems(2) total_check [of key now c, symmetric]
      by (simp add: case_prod_beta algebra_simps)
  qed
qed simp

lemma total_exported:
  assumes "1 \<le> max_flows" and "cache_run ops (flow_cache_new active inactive max_flows, []) = Some (c, out)"
  shows "key_total counter key (mset (out @ snd (export_all c))) = sum_list (map step (sizes key ops))"
  using total_run [OF flow_cache_ok_new [OF assms(1)] assms(2), of key]
  by (simp add: total_export) (simp add: held_def flow_cache_new_def hm_values_def hm_empty_def)

end

section \<open>Properties\<close>

text \<open>The sampler takes one packet of every \<open>interval\<close>, beginning with the first; an interval of zero
  is one, every packet.\<close>

fun sampler_run :: "nat \<Rightarrow> sampler \<Rightarrow> bool list" where
  "sampler_run 0 self = []"
| "sampler_run (Suc k) self = (case sampler_select self of (self, selected) \<Rightarrow> selected # sampler_run k self)"

lemma sampler_run_nth:
  assumes "1 \<le> interval" and "1 \<le> countdown" and "i < k"
  shows "sampler_run k (SamplerCount interval countdown) ! i \<longleftrightarrow>
    (i + 1 \<ge> unat countdown \<and> unat interval dvd i + 1 - unat countdown)"
  using assms(2,3)
proof (induction k arbitrary: countdown i)
  case (Suc k)
  show ?case
  proof (cases "1 < countdown")
    case True
    then have "1 < unat countdown" by (simp add: word_less_nat_alt)
    moreover from this have "unat (countdown - 1) = unat countdown - 1"
      by (intro unat_minus_one) auto
    ultimately show ?thesis
      using Suc.IH [of "countdown - 1" "i - 1"] Suc.prems True
      by (cases i) (auto simp: sampler_select_def word_le_nat_alt)
  next
    case False
    then have "countdown = 1" using Suc.prems by simp
    moreover have "1 \<le> unat interval" using assms(1) by (simp add: word_le_nat_alt)
    ultimately show ?thesis
      using Suc.IH [of interval "i - 1"] Suc.prems assms(1) False
      by (cases i) (auto simp: sampler_select_def dvd_diff_nat dest: dvd_imp_le dvd_diffD [OF _ dvd_refl])
  qed
qed simp

theorem sampler_one_in_n:
  "sampler_run k (sampler_new (SamplingCount interval)) = map (\<lambda>i. i mod max (unat interval) 1 = 0) [0..<k]"
proof (rule nth_equalityI)
  have len: "length (sampler_run k self) = k" for self
    by (induction k arbitrary: self) (simp_all add: case_prod_beta)
  then show "length (sampler_run k (sampler_new (SamplingCount interval))) =
      length (map (\<lambda>i. i mod max (unat interval) 1 = 0) [0..<k])"
    by simp
  fix i assume "i < length (sampler_run k (sampler_new (SamplingCount interval)))"
  then have i: "i < k" by (simp add: len)
  have "unat (max interval 1) = max (unat interval) 1"
    by (simp add: max_def word_le_nat_alt)
  then show "sampler_run k (sampler_new (SamplingCount interval)) ! i = map (\<lambda>i. i mod max (unat interval) 1 = 0) [0..<k] ! i"
    using sampler_run_nth [of "max interval 1" 1 i k] i
    by (simp add: sampler_new_def dvd_eq_mod_eq_0)
qed

text \<open>C26. The flow cache never panics and holds at most \<open>max_flows\<close> flows, whatever packets come and
  whenever it is checked; no packet is lost and none is counted twice: for every key the flows
  exported by the end, timed out, evicted or ended by force, have as many octets and packets as
  its packets (modulo \<open>2 ^ 64\<close>, as the counters have).\<close>

theorem flow_cache_conserves:
  assumes "1 \<le> max_flows"
  shows "\<exists>c out. cache_run ops (flow_cache_new active inactive max_flows, []) = Some (c, out) \<and>
    flow_cache_len c \<le> max_flows \<and>
    (\<forall>key. key_total fw_octet_count key (mset (out @ snd (export_all c))) = sum_list (sizes key ops) \<and>
      key_total fw_packet_count key (mset (out @ snd (export_all c))) = word_of_nat (length (sizes key ops)))"
proof -
  obtain c out where run: "cache_run ops (flow_cache_new active inactive max_flows, []) = Some (c, out)"
    and "flow_cache_ok c" "fc_max_flows c = max_flows"
    using cache_run_ok [OF flow_cache_ok_new [OF assms]] by (metis flow_cache.select_convs(4) flow_cache_new_def)
  moreover have "sum_list (map (\<lambda>_. 1) (sizes key ops)) = (word_of_nat (length (sizes key ops)) :: u64)" for key
    by (simp add: sum_list_triv)
  ultimately show ?thesis
    using octets.total_exported [OF assms run] packets.total_exported [OF assms run]
    by (auto simp: flow_cache_ok_def flow_cache_len_def)
qed

definition example_key :: "u16 \<Rightarrow> flow_key" where
  "example_key port = \<lparr>fk_source_ip = V4 0x0A000001, fk_destination_ip = V4 0x0A000002, fk_protocol = 17,
     fk_source_port = port, fk_destination_port = 53\<rparr>"

definition example_ops :: "cache_op list" where
  "example_ops = [Observed (example_key 1) 100 0 \<lparr>sn_time = DateTime 0 0, sn_instant = 0\<rparr>,
     Observed (example_key 2) 60 0 \<lparr>sn_time = DateTime 0 0, sn_instant = 5\<rparr>,
     Observed (example_key 1) 40 0 \<lparr>sn_time = DateTime 0 0, sn_instant = 9\<rparr>]"

theorem flow_cache_conserves_witness:
  "\<exists>c out. cache_run example_ops (flow_cache_new 60 15 1, []) = Some (c, out) \<and> flow_cache_len c \<le> 1 \<and>
     key_total fw_octet_count (example_key 1) (mset (out @ snd (export_all c))) = 140 \<and>
     key_total fw_packet_count (example_key 2) (mset (out @ snd (export_all c))) = 1"
proof -
  have "example_key 1 \<noteq> example_key 2" by (simp add: example_key_def)
  then have "sum_list (sizes (example_key 1) example_ops) = 140" "length (sizes (example_key 2) example_ops) = 1"
    by (auto simp: example_ops_def)
  then show ?thesis
    using flow_cache_conserves [of 1 example_ops 60 15] by (metis One_nat_def le_refl of_nat_1)
qed

text \<open>After a check at \<open>now\<close> the flows that are due are gone and the others are as they were: those
  first seen the active timeout ago or last seen the inactive timeout ago have been exported with
  that reason, and nothing else but the flows evicted before, of which none is left.\<close>

theorem check_exports_due:
  assumes "hm_ok (fc_flows c)" and "check_expired_flows now c = (c', out)"
  shows "hm_get (fc_flows c') key = (case hm_get (fc_flows c) key of
       None \<Rightarrow> None
     | Some flow \<Rightarrow>
         if now - fw_first_seen flow \<ge> fc_active_timeout c \<or> now - fw_last_seen flow \<ge> fc_inactive_timeout c
         then None else Some flow) \<and>
     (flow \<in> set out \<longleftrightarrow> flow \<in> set (fc_evicted c) \<or>
       (\<exists>key old. hm_get (fc_flows c) key = Some old \<and>
         (if now - fw_first_seen old \<ge> fc_active_timeout c then flow = flow_ended ActiveTimeout old
          else now - fw_last_seen old \<ge> fc_inactive_timeout c \<and> flow = flow_ended IdleTimeout old))) \<and>
     \<not> has_evicted c'"
proof (intro conjI)
  let ?reason = "expiry (fc_active_timeout c) (fc_inactive_timeout c) now"
  have c': "c' = c\<lparr>fc_flows := hm_retain (\<lambda>_ flow. (flow, ?reason flow = None)) (fc_flows c), fc_evicted := []\<rparr>"
    and out: "out = fc_evicted c @ List.map_filter (\<lambda>flow. map_option (\<lambda>r. flow_ended r flow) (?reason flow)) (hm_values (fc_flows c))"
    using assms(2) by (simp_all add: check_expired_flows_def Let_def)
  show "hm_get (fc_flows c') key = (case hm_get (fc_flows c) key of
       None \<Rightarrow> None
     | Some flow \<Rightarrow>
         if now - fw_first_seen flow \<ge> fc_active_timeout c \<or> now - fw_last_seen flow \<ge> fc_inactive_timeout c
         then None else Some flow)"
    using assms(1) by (simp add: c' hm_laws expiry_def Let_def split: option.split)
  have "flow \<in> set out \<longleftrightarrow> flow \<in> set (fc_evicted c) \<or>
      (\<exists>old\<in>set (hm_values (fc_flows c)). map_option (\<lambda>r. flow_ended r old) (?reason old) = Some flow)"
    by (simp add: out in_map_filter)
  moreover have "map_option (\<lambda>r. flow_ended r old) (?reason old) = Some flow \<longleftrightarrow>
      (if now - fw_first_seen old \<ge> fc_active_timeout c then flow = flow_ended ActiveTimeout old
       else now - fw_last_seen old \<ge> fc_inactive_timeout c \<and> flow = flow_ended IdleTimeout old)" for old
    by (auto simp: expiry_def Let_def)
  ultimately show "flow \<in> set out \<longleftrightarrow> flow \<in> set (fc_evicted c) \<or>
       (\<exists>key old. hm_get (fc_flows c) key = Some old \<and>
         (if now - fw_first_seen old \<ge> fc_active_timeout c then flow = flow_ended ActiveTimeout old
          else now - fw_last_seen old \<ge> fc_inactive_timeout c \<and> flow = flow_ended IdleTimeout old))"
    unfolding Bex_def hm.vals_iff [OF assms(1)] by (simp only:) blast
  show "\<not> has_evicted c'"
    by (simp add: c' has_evicted_def)
qed

definition example_cache :: flow_cache where
  "example_cache = fst (the (cache_run example_ops (flow_cache_new 60 15 8, [])))"

theorem check_exports_due_witness:
  "hm_get (fc_flows (fst (check_expired_flows 15000000007 example_cache))) (example_key 2) = None \<and>
   hm_get (fc_flows (fst (check_expired_flows 15000000007 example_cache))) (example_key 1) \<noteq> None"
proof -
  let ?s = "\<lambda>t. \<lparr>sn_time = DateTime 0 0, sn_instant = t\<rparr>"
  have differ: "example_key 1 \<noteq> example_key 2" by (simp add: example_key_def)
  have c: "fc_flows example_cache =
      [(example_key 1, flow_update 40 0 (?s 9) (flow_update 100 0 (?s 0) (flow_new (example_key 1) (?s 0)))),
       (example_key 2, flow_update 60 0 (?s 5) (flow_new (example_key 2) (?s 5)))]"
    "fc_active_timeout example_cache = 60000000000" "fc_inactive_timeout example_cache = 15000000000"
    using differ by (simp_all add: example_cache_def example_ops_def flow_cache_new_def update_flow_def hm_empty_def
        hm_get_def hm_insert_def Let_def)
  have "hm_ok (fc_flows example_cache)"
    using differ by (simp add: c hm_ok_def)
  from check_exports_due [OF this prod.collapse [symmetric], of 15000000007] show ?thesis
    using differ by (simp add: c hm_get_def flow_update_def flow_new_def)
qed

text \<open>A full cache makes room by ending the flows idle longest: at least one and at least an eighth of
  \<open>max_flows\<close>, every one of them last seen before any that stays, and all of them kept to be exported
  for lack of resources.\<close>

theorem eviction_idle_longest:
  assumes "hm_ok (fc_flows c)" and "1 \<le> fc_max_flows c" and "fc_max_flows c \<le> flow_cache_len c"
  shows "\<exists>c'. evict_idle_longest c = Some c' \<and>
    flow_cache_len c' + max (fc_max_flows c div 8) 1 \<le> flow_cache_len c \<and>
    (\<forall>k idle. hm_get (fc_flows c) k = Some idle \<longrightarrow>
      (if hm_get (fc_flows c') k = Some idle then True
       else hm_get (fc_flows c') k = None \<and> flow_ended LackOfResources idle \<in> set (fc_evicted c') \<and>
         (\<forall>k' busy. hm_get (fc_flows c') k' = Some busy \<longrightarrow> fw_last_seen idle < fw_last_seen busy)))"
proof -
  obtain cutoff where e: "evict_idle_longest c = Some (c\<lparr>fc_flows :=
        hm_retain (\<lambda>_ flow. (flow, fw_last_seen flow > cutoff)) (fc_flows c),
      fc_evicted := fc_evicted c @ map (flow_ended LackOfResources)
        (filter (\<lambda>flow. \<not> fw_last_seen flow > cutoff) (hm_values (fc_flows c)))\<rparr>)" (is "_ = Some ?c")
    and n: "eviction_count c \<le> length (filter (\<lambda>flow. \<not> fw_last_seen flow > cutoff) (hm_values (fc_flows c)))"
    using evict_succeeds [of c] assms by (auto simp: flow_cache_len_def)
  have get: "hm_get (fc_flows ?c) k = (case hm_get (fc_flows c) k of
      None \<Rightarrow> None | Some flow \<Rightarrow> if fw_last_seen flow > cutoff then Some flow else None)" for k
    using assms(1) by (simp add: hm_laws split: option.split)
  have "length (filter (\<lambda>flow. fw_last_seen flow > cutoff) (hm_values (fc_flows c))) +
      length (filter (\<lambda>flow. \<not> fw_last_seen flow > cutoff) (hm_values (fc_flows c))) = length (fc_flows c)"
    by (simp add: sum_length_filter_compl length_values)
  then have "flow_cache_len ?c + max (fc_max_flows c div 8) 1 \<le> flow_cache_len c"
    using n by (simp add: flow_cache_len_def length_retain eviction_count_def EVICTION_FRACTION_def del: max.bounded_iff)
  moreover have "flow_ended LackOfResources idle \<in> set (fc_evicted ?c)"
    if "hm_get (fc_flows c) k = Some idle" "\<not> fw_last_seen idle > cutoff" for k idle
    using that hm.vals_iff [OF assms(1)] by auto
  ultimately show ?thesis
    using e get by (intro exI [of _ ?c]) (fastforce split: option.splits if_splits)
qed

theorem eviction_idle_longest_witness:
  "\<exists>c'. evict_idle_longest (example_cache\<lparr>fc_max_flows := 2\<rparr>) = Some c' \<and> flow_cache_len c' + 1 \<le> 2"
proof -
  have differ: "example_key 1 \<noteq> example_key 2" by (simp add: example_key_def)
  then have "hm_ok (fc_flows example_cache)" "length (fc_flows example_cache) = 2"
    by (simp_all add: example_cache_def example_ops_def flow_cache_new_def update_flow_def hm_empty_def
        hm_get_def hm_insert_def hm_ok_def Let_def)
  then show ?thesis
    using eviction_idle_longest [of "example_cache\<lparr>fc_max_flows := 2\<rparr>"] by (auto simp: flow_cache_len_def)
qed

section \<open>What the meter does with the frames\<close>

datatype meter_event = Captured nat capture_frame | Due nat

fun meter_run :: "etherparse \<Rightarrow> meter_event list \<Rightarrow> meter \<times> records list \<Rightarrow> (meter \<times> records list) option" where
  "meter_run E [] st = Some st"
| "meter_run E (Captured now frm # es) (m, out) = observe E now frm m \<bind> (\<lambda>m. meter_run E es (m, out))"
| "meter_run E (Due now # es) (m, out) = (case take_due now m of (m, rs) \<Rightarrow> meter_run E es (m, out @ [rs]))"

text \<open>The packets that are metered: every \<open>n\<close>-th captured frame, but not the exporter's own.\<close>

fun sampled :: "nat \<Rightarrow> nat \<Rightarrow> (nat \<Rightarrow> capture_frame \<Rightarrow> 'x list) \<Rightarrow> (nat \<Rightarrow> 'x list) \<Rightarrow> meter_event list \<Rightarrow> 'x list" where
  "sampled n i taken due [] = []"
| "sampled n i taken due (Captured now frm # es) = (if i mod n = 0 then taken now frm else []) @ sampled n (Suc i) taken due es"
| "sampled n i taken due (Due now # es) = due now @ sampled n i taken due es"

definition own :: "etherparse \<Rightarrow> meter \<Rightarrow> capture_frame \<Rightarrow> bool" where
  "own E m frm \<longleftrightarrow> (case parse_frame E (mt_link m) (fm_data frm) of None \<Rightarrow> False | Some p \<Rightarrow> is_export m p)"

definition metered_packet :: "etherparse \<Rightarrow> meter \<Rightarrow> nat \<Rightarrow> capture_frame \<Rightarrow> cache_op list" where
  "metered_packet E m now frm =
     (case parse_frame E (mt_link m) (fm_data frm) of
        None \<Rightarrow> []
      | Some p \<Rightarrow> if is_export m p then [] else
          [Observed (pi_flow_key p) (pi_packet_size p) (pi_tcp_flags p) \<lparr>sn_time = fm_time frm, sn_instant = now\<rparr>])"

definition records_flows :: "records \<Rightarrow> flow list" where
  "records_flows rs = (case rs of RecordsFlows flows \<Rightarrow> flows | RecordsPackets _ \<Rightarrow> [])"

text \<open>The sampler before the \<open>i\<close>-th frame.\<close>

definition sampler_at :: "nat \<Rightarrow> nat \<Rightarrow> sampler \<Rightarrow> bool" where
  "sampler_at n i s \<longleftrightarrow> 1 \<le> n \<and> (\<exists>interval countdown. s = SamplerCount interval countdown \<and> unat interval = n \<and>
     unat countdown = (if i mod n = 0 then 1 else n - i mod n + 1))"

lemma sampler_at_select:
  assumes "sampler_at n i s"
  shows "snd (sampler_select s) \<longleftrightarrow> i mod n = 0" and "sampler_at n (Suc i) (fst (sampler_select s))"
proof -
  obtain interval countdown where s: "s = SamplerCount interval countdown" and n: "1 \<le> n" "unat interval = n"
    and cd: "unat countdown = (if i mod n = 0 then 1 else n - i mod n + 1)"
    using assms by (auto simp: sampler_at_def)
  have lt: "i mod n < n" using n by simp
  have one: "1 < countdown \<longleftrightarrow> i mod n \<noteq> 0"
    using cd lt by (simp add: word_less_nat_alt)
  then show "snd (sampler_select s) \<longleftrightarrow> i mod n = 0"
    by (simp add: s sampler_select_def)
  have "unat (countdown - 1) = unat countdown - 1" if "1 < countdown"
    using that by (intro unat_minus_one) auto
  then show "sampler_at n (Suc i) (fst (sampler_select s))"
    using n cd lt one by (auto simp: s sampler_select_def sampler_at_def mod_Suc)
qed

lemma sampler_at_new: "sampler_at (max (unat interval) 1) 0 (sampler_new (SamplingCount interval))"
  by (simp add: sampler_at_def sampler_new_def max_def word_le_nat_alt)

definition same_place :: "meter \<Rightarrow> meter \<Rightarrow> bool" where
  "same_place m m' \<longleftrightarrow> mt_link m' = mt_link m \<and> mt_local_port m' = mt_local_port m \<and> mt_collector m' = mt_collector m"

lemma same_place_views:
  assumes "same_place m m'"
  shows "metered_packet E m' = metered_packet E m" and "own E m' = own E m"
  using assms by (simp_all add: same_place_def metered_packet_def own_def is_export_def fun_eq_iff split: option.split)

lemma is_export_sampler [simp]: "is_export (m\<lparr>mt_sampler := smp\<rparr>) p = is_export m p"
  by (simp add: is_export_def)

lemma cache_run_append: "cache_run (xs @ ys) st = cache_run xs st \<bind> cache_run ys"
  by (induction xs st rule: cache_run.induct) (simp_all add: case_prod_beta split: Option.bind_split)

lemma observe_flows:
  assumes "mt_output m = OutputFlows c" and "sampler_at n i (mt_sampler m)" and "flow_cache_ok c"
  obtains m' c' where "observe E now frm m = Some m'" "mt_output m' = OutputFlows c'" "flow_cache_ok c'"
    "sampler_at n (Suc i) (mt_sampler m')" "same_place m m'"
    "\<forall>out. cache_run (if i mod n = 0 then metered_packet E m now frm else []) (c, out) = Some (c', out)"
proof (cases "i mod n = 0 \<and> \<not> own E m frm \<and> parse_frame E (mt_link m) (fm_data frm) \<noteq> None")
  case True
  then obtain p where p: "parse_frame E (mt_link m) (fm_data frm) = Some p" "\<not> is_export m p"
    by (auto simp: own_def)
  from assms(3) obtain c' where c': "update_flow (pi_flow_key p) (pi_packet_size p) (pi_tcp_flags p)
      \<lparr>sn_time = fm_time frm, sn_instant = now\<rparr> c = Some c'" "flow_cache_ok c'"
    by (rule update_flow_ok)
  show ?thesis
    by (rule that [of "m\<lparr>mt_sampler := fst (sampler_select (mt_sampler m)), mt_output := OutputFlows c'\<rparr>" c'])
      (use True p c' assms(1) sampler_at_select [OF assms(2)] in
        \<open>simp_all add: observe_def case_prod_beta Let_def same_place_def metered_packet_def\<close>)
next
  case False
  have none: "(if i mod n = 0 then metered_packet E m now frm else []) = []"
    using False by (auto simp: metered_packet_def own_def split: option.splits)
  show ?thesis
    by (rule that [of "m\<lparr>mt_sampler := fst (sampler_select (mt_sampler m))\<rparr>" c])
      (use False none assms sampler_at_select [OF assms(2)] in
        \<open>auto simp: observe_def own_def case_prod_beta Let_def same_place_def split: option.splits\<close>)
qed

lemma take_due_flows:
  assumes "mt_output m = OutputFlows c" and "take_due now m = (m', rs)"
  shows "mt_output m' = OutputFlows (fst (check_expired_flows now c)) \<and> mt_sampler m' = mt_sampler m \<and>
    same_place m m' \<and> records_flows rs = snd (check_expired_flows now c)"
  using assms by (auto simp: take_due_def same_place_def records_flows_def split: prod.splits)

lemma meter_run_flows:
  assumes "mt_output m = OutputFlows c" and "sampler_at n i (mt_sampler m)" and "flow_cache_ok c"
  shows "\<exists>m' c' out'. meter_run E es (m, out) = Some (m', out') \<and> mt_output m' = OutputFlows c' \<and>
    cache_run (sampled n i (metered_packet E m) (\<lambda>now. [Checked now]) es) (c, concat (map records_flows out)) =
      Some (c', concat (map records_flows out'))"
  using assms
proof (induction es arbitrary: m c i out)
  case (Cons e es)
  show ?case
  proof (cases e)
    case (Captured now frm)
    from Cons.prems obtain m1 c1 where 1: "observe E now frm m = Some m1" "mt_output m1 = OutputFlows c1" "flow_cache_ok c1"
      "sampler_at n (Suc i) (mt_sampler m1)" "same_place m m1"
      "\<forall>out. cache_run (if i mod n = 0 then metered_packet E m now frm else []) (c, out) = Some (c1, out)"
      by (rule observe_flows)
    then show ?thesis
      using Cons.IH [OF 1(2,4,3), of out] by (simp add: Captured cache_run_append same_place_views(1) [OF 1(5)])
  next
    case (Due now)
    obtain m1 rs where t: "take_due now m = (m1, rs)" by force
    note due = take_due_flows [OF Cons.prems(1) t]
    then show ?thesis
      using Cons.IH [of m1 "fst (check_expired_flows now c)" i "out @ [rs]"] Cons.prems t
        check_expired_ok(1) [OF Cons.prems(3), of now] same_place_views(1) [of m m1 E]
      by (simp add: Due case_prod_beta)
  qed
qed simp

text \<open>C25. The meter in flow mode: of the captured frames every \<open>interval\<close>-th is metered, unless it is one of
  the exporter's own datagrams or no IP packet, and nothing else is: for each key the flows that
  are exported until the end add up to exactly its metered packets, whenever records are taken.\<close>

theorem meter_flow_mode:
  assumes "ar_mode args = ModeFlow" and "1 \<le> ar_max_flows args"
  shows "let m = meter_new args lnk port collector;
      ops = sampled (max (unat (ar_sampling_packet_interval args)) 1) 0 (metered_packet E m) (\<lambda>now. [Checked now]) es
    in \<exists>m' out. meter_run E es (m, []) = Some (m', out) \<and>
      (\<forall>key. let flows = concat (map records_flows (out @ [snd (take_all m')])) in
        key_total fw_octet_count key (mset flows) = sum_list (sizes key ops) \<and>
        key_total fw_packet_count key (mset flows) = word_of_nat (length (sizes key ops)))"
proof -
  let ?m = "meter_new args lnk port collector"
  let ?c = "flow_cache_new (ar_active_timeout args) (ar_inactive_timeout args) (ar_max_flows args)"
  let ?n = "max (unat (ar_sampling_packet_interval args)) 1"
  have "mt_output ?m = OutputFlows ?c" "sampler_at ?n 0 (mt_sampler ?m)"
    using assms(1) sampler_at_new [of "ar_sampling_packet_interval args"] by (simp_all add: meter_new_def args_sampling_def)
  then obtain m' c' out where run: "meter_run E es (?m, []) = Some (m', out)" "mt_output m' = OutputFlows c'"
    "cache_run (sampled ?n 0 (metered_packet E ?m) (\<lambda>now. [Checked now]) es) (?c, []) =
      Some (c', concat (map records_flows out))"
    using meter_run_flows [of ?m ?c ?n 0 E es "[]"] flow_cache_ok_new [OF assms(2)] by auto
  have all: "records_flows (snd (take_all m')) = snd (export_all c')"
    using run(2) by (simp add: take_all_def records_flows_def case_prod_beta)
  have "sum_list (map (\<lambda>_. 1) xs) = (word_of_nat (length xs) :: u64)" for xs :: "u64 list"
    by (simp add: sum_list_triv)
  then show ?thesis
    using run(1) octets.total_exported [OF assms(2) run(3)] packets.total_exported [OF assms(2) run(3)]
    by (simp add: Let_def all del: mset_append)
qed

definition example_args :: "mode \<Rightarrow> export_args" where
  "example_args mode = \<lparr>ar_mode = mode, ar_clip_length = 4, ar_observation_domain_id = 1, ar_active_timeout = 60,
     ar_inactive_timeout = 15, ar_max_flows = 1, ar_template_refresh_rate = 300, ar_sampling_packet_interval = 2\<rparr>"

definition example_meter :: "mode \<Rightarrow> meter" where
  "example_meter mode = meter_new (example_args mode) LinkLayerIp 9 \<lparr>sa_ip = V4 0xC6336401, sa_port = 4739\<rparr>"

definition example_captures :: "meter_event list" where
  "example_captures =
     (let frm = \<lparr>fm_data = example_datagram, fm_length = 30, fm_time = DateTime 0 0\<rparr>
      in [Captured 0 frm, Captured 1 frm, Due 5, Captured 7 frm])"

definition example_flow_key :: flow_key where
  "example_flow_key = \<lparr>fk_source_ip = V4 0xC0000201, fk_destination_ip = V4 0xC6336401, fk_protocol = 17,
     fk_source_port = 0x0807, fk_destination_port = 0x0808\<rparr>"

lemma example_frame:
  "parse_frame etherparse_ref LinkLayerIp example_datagram =
    Some \<lparr>pi_flow_key = example_flow_key, pi_packet_size = 30, pi_tcp_flags = 0\<rparr>"
  by (simp add: parse_frame_def packet_info_of_def etherparse_ref_def udp_ref_def example_datagram_def IP_UDP_def
      example_flow_key_def from_be_bytes_def be_nat_def Let_def)

theorem meter_flow_mode_witness:
  "\<exists>m out. meter_run etherparse_ref example_captures (example_meter ModeFlow, []) = Some (m, out) \<and>
     key_total fw_octet_count example_flow_key (mset (concat (map records_flows (out @ [snd (take_all m)])))) = 60"
proof -
  have "\<not> is_export (example_meter ModeFlow) \<lparr>pi_flow_key = example_flow_key, pi_packet_size = 30, pi_tcp_flags = 0\<rparr>"
    by (simp add: is_export_def example_meter_def meter_new_def example_flow_key_def)
  moreover have "mt_link (example_meter ModeFlow) = LinkLayerIp"
    by (simp add: example_meter_def meter_new_def)
  ultimately have "sum_list (sizes example_flow_key (sampled 2 0 (metered_packet etherparse_ref (example_meter ModeFlow))
      (\<lambda>now. [Checked now]) example_captures)) = 60"
    by (simp add: example_captures_def metered_packet_def example_frame Let_def)
  moreover have "ar_mode (example_args ModeFlow) = ModeFlow" "1 \<le> ar_max_flows (example_args ModeFlow)"
    "max (unat (ar_sampling_packet_interval (example_args ModeFlow))) 1 = 2"
    by (simp_all add: example_args_def)
  ultimately show ?thesis
    using meter_flow_mode [of "example_args ModeFlow" LinkLayerIp 9 "\<lparr>sa_ip = V4 0xC6336401, sa_port = 4739\<rparr>"
        etherparse_ref example_captures]
    unfolding example_meter_def Let_def by metis
qed

definition records_packets :: "records \<Rightarrow> packet_data list" where
  "records_packets rs = (case rs of RecordsPackets packets \<Rightarrow> packets | RecordsFlows _ \<Rightarrow> [])"

definition clipped :: "meter \<Rightarrow> nat \<Rightarrow> capture_frame \<Rightarrow> packet_data" where
  "clipped m clip_length frm =
     \<lparr>pd_link = mt_link m, pd_length = fm_length frm, pd_section = take clip_length (fm_data frm)\<rparr>"

lemma observe_packets:
  assumes "mt_output m = OutputPackets clip pending" and "sampler_at n i (mt_sampler m)"
  shows "\<exists>m'. observe E now frm m = Some m' \<and> same_place m m' \<and> sampler_at n (Suc i) (mt_sampler m') \<and>
    mt_output m' = OutputPackets clip (pending @
      (if i mod n = 0 then (if own E m frm then [] else [clipped m clip frm]) else []))"
proof -
  have "take (min (length xs) k) xs = take k xs" for k and xs :: bytes
    by (simp add: min_def)
  then show ?thesis
    using assms(1) sampler_at_select [OF assms(2)]
    by (auto simp: observe_def own_def clipped_def case_prod_beta Let_def same_place_def split: option.splits)
qed

lemma meter_run_packets:
  assumes "mt_output m = OutputPackets clip pending" and "sampler_at n i (mt_sampler m)"
  shows "\<exists>m' out' pending'. meter_run E es (m, out) = Some (m', out') \<and> mt_output m' = OutputPackets clip pending' \<and>
    concat (map records_packets out') @ pending' = concat (map records_packets out) @ pending @
      sampled n i (\<lambda>_ frm. if own E m frm then [] else [clipped m clip frm]) (\<lambda>_. []) es"
  using assms
proof (induction es arbitrary: m pending i out)
  case (Cons e es)
  show ?case
  proof (cases e)
    case (Captured now frm)
    obtain m1 where 1: "observe E now frm m = Some m1" "same_place m m1" "sampler_at n (Suc i) (mt_sampler m1)"
      "mt_output m1 = OutputPackets clip (pending @
        (if i mod n = 0 then (if own E m frm then [] else [clipped m clip frm]) else []))"
      using observe_packets [OF Cons.prems, of E now frm] by blast
    have cl: "clipped m1 = clipped m" using 1(2) by (simp add: clipped_def same_place_def fun_eq_iff)
    show ?thesis
      using Cons.IH [OF 1(4,3), of out, unfolded cl same_place_views(2) [OF 1(2)]]
      by (simp add: Captured 1(1) split del: if_split)
  next
    case (Due now)
    have kept: "own E (m\<lparr>mt_output := o'\<rparr>) = own E m" "clipped (m\<lparr>mt_output := o'\<rparr>) = clipped m" for o'
      by (simp_all add: own_def is_export_def clipped_def fun_eq_iff split: option.split)
    show ?thesis
      using Cons.IH [of "m\<lparr>mt_output := OutputPackets clip []\<rparr>" "[]" i "out @ [RecordsPackets pending]", unfolded kept]
        Cons.prems
      by (simp add: Due take_due_def records_packets_def)
  qed
qed simp

text \<open>The meter in packet mode: exactly the sampled frames that are not the exporter's own datagrams are
  exported, in order, each with its length on the wire and the start of its bytes, at most
  \<open>clip_length\<close> of them, whenever records are taken.\<close>

theorem meter_packet_mode:
  assumes "ar_mode args = ModePacket"
  shows "let m = meter_new args lnk port collector in
    \<exists>m' out. meter_run E es (m, []) = Some (m', out) \<and>
      concat (map records_packets (out @ [snd (take_all m')])) =
        sampled (max (unat (ar_sampling_packet_interval args)) 1) 0
          (\<lambda>_ frm. if own E m frm then [] else
            [\<lparr>pd_link = lnk, pd_length = fm_length frm, pd_section = take (unat (ar_clip_length args)) (fm_data frm)\<rparr>])
          (\<lambda>_. []) es"
proof -
  let ?m = "meter_new args lnk port collector"
  let ?n = "max (unat (ar_sampling_packet_interval args)) 1"
  have start: "mt_output ?m = OutputPackets (unat (ar_clip_length args)) []" "sampler_at ?n 0 (mt_sampler ?m)"
    and lnk: "mt_link ?m = lnk"
    using assms sampler_at_new [of "ar_sampling_packet_interval args"] by (simp_all add: meter_new_def args_sampling_def)
  obtain m' out pending where "meter_run E es (?m, []) = Some (m', out)"
    "mt_output m' = OutputPackets (unat (ar_clip_length args)) pending"
    "concat (map records_packets out) @ pending = sampled ?n 0 (\<lambda>_ frm. if own E ?m frm then [] else
      [\<lparr>pd_link = lnk, pd_length = fm_length frm, pd_section = take (unat (ar_clip_length args)) (fm_data frm)\<rparr>])
      (\<lambda>_. []) es"
    using meter_run_packets [OF start, of E es "[]", unfolded clipped_def lnk] by auto
  moreover from this(2) have "records_packets (snd (take_all m')) = pending"
    by (simp add: take_all_def records_packets_def)
  ultimately show ?thesis by (simp add: Let_def)
qed

theorem meter_packet_mode_witness:
  "\<exists>m out. meter_run etherparse_ref example_captures (example_meter ModePacket, []) = Some (m, out) \<and>
     map pd_section (concat (map records_packets (out @ [snd (take_all m)]))) = [[0x45, 0, 0, 30], [0x45, 0, 0, 30]]"
proof -
  have own: "\<not> own etherparse_ref (example_meter ModePacket) \<lparr>fm_data = example_datagram, fm_length = 30, fm_time = DateTime 0 0\<rparr>"
    by (simp add: own_def is_export_def example_frame example_meter_def meter_new_def example_flow_key_def)
  have args: "ar_mode (example_args ModePacket) = ModePacket"
    "max (unat (ar_sampling_packet_interval (example_args ModePacket))) 1 = 2" "unat (ar_clip_length (example_args ModePacket)) = 4"
    by (simp_all add: example_args_def)
  from meter_packet_mode [OF args(1), of LinkLayerIp 9 "\<lparr>sa_ip = V4 0xC6336401, sa_port = 4739\<rparr>" etherparse_ref example_captures]
  obtain m out where run: "meter_run etherparse_ref example_captures (example_meter ModePacket, []) = Some (m, out)"
    and out: "concat (map records_packets (out @ [snd (take_all m)])) = sampled 2 0
          (\<lambda>_ frm. if own etherparse_ref (example_meter ModePacket) frm then [] else
            [\<lparr>pd_link = LinkLayerIp, pd_length = fm_length frm, pd_section = take 4 (fm_data frm)\<rparr>]) (\<lambda>_. []) example_captures"
    unfolding Let_def args(2,3) example_meter_def by metis
  have "map pd_section (sampled 2 0
          (\<lambda>_ frm. if own etherparse_ref (example_meter ModePacket) frm then [] else
            [\<lparr>pd_link = LinkLayerIp, pd_length = fm_length frm, pd_section = take 4 (fm_data frm)\<rparr>]) (\<lambda>_. []) example_captures) =
      [[0x45, 0, 0, 30], [0x45, 0, 0, 30]]"
    using own by (simp add: example_captures_def Let_def) (simp add: example_datagram_def)
  then show ?thesis
    by (intro exI [of _ m] exI [of _ out] conjI run) (simp only: out)
qed

end
