(* ===== verification/IERegistry.thy ===== *)
theory IERegistry
  imports HashMap
begin

text \<open>
  \<^verbatim>\<open>common/ie_registry.rs\<close>: information elements by identifier and enterprise number, with the
  table of the IANA elements. The registry is shared by reference and copied when written
  (\<^verbatim>\<open>Arc::make_mut\<close>), so it is a value here. \<^verbatim>\<open>load_from_csv\<close> takes the rows the \<^verbatim>\<open>csv\<close> reader
  yields as an argument. A hash map has no order of its own: what \<^verbatim>\<open>lookup_by_name\<close> returns
  among several elements of the same name is the first in the order of the model's map.
\<close>

datatype data_type =
    DtUnsigned | DtSigned | DtFloat | DtBoolean | DtMacAddress | DtOctetArray | DtString
  | DtDateTimeSeconds | DtDateTimeMilliseconds | DtDateTimeMicroseconds | DtDateTimeNanoseconds
  | DtIpv4Address | DtIpv6Address | DtBasicList | DtSubTemplateList | DtSubTemplateMultiList

record ie_definition =
  def_id :: u16
  def_enterprise_number :: "u32 option"
  def_name :: string
  def_data_type :: data_type

type_synonym ie_registry = "(u16 \<times> u32 option, ie_definition) hashmap"

definition registry_new :: ie_registry where
  "registry_new = hm_empty"

definition add_element :: "u16 \<Rightarrow> u32 option \<Rightarrow> string \<Rightarrow> data_type \<Rightarrow> ie_registry \<Rightarrow> ie_registry" where
  "add_element n enterprise_number name dt elements =
     (let def = \<lparr>def_id = n, def_enterprise_number = enterprise_number, def_name = name,
                 def_data_type = dt\<rparr>
      in hm_insert (n, enterprise_number) def elements)"

definition registry_lookup :: "ie_registry \<Rightarrow> u16 \<Rightarrow> u32 option \<Rightarrow> ie_definition option" where
  "registry_lookup elements n enterprise_number = hm_get elements (n, enterprise_number)"

definition lookup_by_name :: "ie_registry \<Rightarrow> string \<Rightarrow> ie_definition option" where
  "lookup_by_name elements name = find (\<lambda>def. def_name def = name) (hm_values elements)"

text \<open>The loop of \<^verbatim>\<open>load_from_csv\<close>; the rows before one that fails stay in the registry.\<close>

fun load_rows :: "('e + ie_definition) list \<Rightarrow> nat \<Rightarrow> ie_registry \<Rightarrow> ie_registry \<times> ('e + nat)" where
  "load_rows [] cnt elements = (elements, Inr cnt)"
| "load_rows (Inl e # rows) cnt elements = (elements, Inl e)"
| "load_rows (Inr def # rows) cnt elements =
     load_rows rows (cnt + 1) (hm_insert (def_id def, def_enterprise_number def) def elements)"

text \<open>\<open>csv\<close> is what \<^verbatim>\<open>csv::Reader::from_path(path)\<close> gives: an error, or the deserialized rows.\<close>

definition load_from_csv ::
    "('e + ('e + ie_definition) list) \<Rightarrow> ie_registry \<Rightarrow> ie_registry \<times> ('e + nat)" where
  "load_from_csv csv elements =
     (case csv of Inl e \<Rightarrow> (elements, Inl e) | Inr rows \<Rightarrow> load_rows rows 0 elements)"

definition iana_elements_1 :: "(u16 \<times> string \<times> data_type) list" where
  "iana_elements_1 = [
     (1, ''octetDeltaCount'', DtUnsigned),
     (2, ''packetDeltaCount'', DtUnsigned),
     (3, ''deltaFlowCount'', DtUnsigned),
     (4, ''protocolIdentifier'', DtUnsigned),
     (5, ''ipClassOfService'', DtUnsigned),
     (6, ''tcpControlBits'', DtUnsigned),
     (7, ''sourceTransportPort'', DtUnsigned),
     (8, ''sourceIPv4Address'', DtIpv4Address),
     (9, ''sourceIPv4PrefixLength'', DtUnsigned),
     (10, ''ingressInterface'', DtUnsigned),
     (11, ''destinationTransportPort'', DtUnsigned),
     (12, ''destinationIPv4Address'', DtIpv4Address),
     (13, ''destinationIPv4PrefixLength'', DtUnsigned),
     (14, ''egressInterface'', DtUnsigned),
     (15, ''ipNextHopIPv4Address'', DtIpv4Address),
     (16, ''bgpSourceAsNumber'', DtUnsigned),
     (17, ''bgpDestinationAsNumber'', DtUnsigned),
     (18, ''bgpNextHopIPv4Address'', DtIpv4Address),
     (19, ''postMCastPacketDeltaCount'', DtUnsigned),
     (20, ''postMCastOctetDeltaCount'', DtUnsigned),
     (21, ''flowEndSysUpTime'', DtUnsigned),
     (22, ''flowStartSysUpTime'', DtUnsigned),
     (23, ''postOctetDeltaCount'', DtUnsigned),
     (24, ''postPacketDeltaCount'', DtUnsigned),
     (25, ''minimumIpTotalLength'', DtUnsigned),
     (26, ''maximumIpTotalLength'', DtUnsigned),
     (27, ''sourceIPv6Address'', DtIpv6Address),
     (28, ''destinationIPv6Address'', DtIpv6Address),
     (29, ''sourceIPv6PrefixLength'', DtUnsigned),
     (30, ''destinationIPv6PrefixLength'', DtUnsigned),
     (31, ''flowLabelIPv6'', DtUnsigned),
     (32, ''icmpTypeCodeIPv4'', DtUnsigned),
     (33, ''igmpType'', DtUnsigned),
     (34, ''samplingInterval'', DtUnsigned),
     (35, ''samplingAlgorithm'', DtUnsigned),
     (36, ''flowActiveTimeout'', DtUnsigned),
     (37, ''flowIdleTimeout'', DtUnsigned),
     (38, ''engineType'', DtUnsigned),
     (39, ''engineId'', DtUnsigned),
     (40, ''exportedOctetTotalCount'', DtUnsigned),
     (41, ''exportedMessageTotalCount'', DtUnsigned),
     (42, ''exportedFlowRecordTotalCount'', DtUnsigned),
     (43, ''ipv4RouterSc'', DtIpv4Address),
     (44, ''sourceIPv4Prefix'', DtIpv4Address),
     (45, ''destinationIPv4Prefix'', DtIpv4Address),
     (46, ''mplsTopLabelType'', DtUnsigned),
     (47, ''mplsTopLabelIPv4Address'', DtIpv4Address),
     (48, ''samplerId'', DtUnsigned),
     (49, ''samplerMode'', DtUnsigned),
     (50, ''samplerRandomInterval'', DtUnsigned),
     (51, ''classId'', DtUnsigned),
     (52, ''minimumTTL'', DtUnsigned),
     (53, ''maximumTTL'', DtUnsigned),
     (54, ''fragmentIdentification'', DtUnsigned),
     (55, ''postIpClassOfService'', DtUnsigned),
     (56, ''sourceMacAddress'', DtMacAddress),
     (57, ''postDestinationMacAddress'', DtMacAddress),
     (58, ''vlanId'', DtUnsigned),
     (59, ''postVlanId'', DtUnsigned),
     (60, ''ipVersion'', DtUnsigned),
     (61, ''flowDirection'', DtUnsigned),
     (62, ''ipNextHopIPv6Address'', DtIpv6Address),
     (63, ''bgpNextHopIPv6Address'', DtIpv6Address),
     (64, ''ipv6ExtensionHeaders'', DtUnsigned),
     (70, ''mplsTopLabelStackSection'', DtOctetArray),
     (71, ''mplsLabelStackSection2'', DtOctetArray),
     (72, ''mplsLabelStackSection3'', DtOctetArray),
     (73, ''mplsLabelStackSection4'', DtOctetArray),
     (74, ''mplsLabelStackSection5'', DtOctetArray),
     (75, ''mplsLabelStackSection6'', DtOctetArray),
     (76, ''mplsLabelStackSection7'', DtOctetArray),
     (77, ''mplsLabelStackSection8'', DtOctetArray),
     (78, ''mplsLabelStackSection9'', DtOctetArray),
     (79, ''mplsLabelStackSection10'', DtOctetArray),
     (80, ''destinationMacAddress'', DtMacAddress),
     (81, ''postSourceMacAddress'', DtMacAddress),
     (82, ''interfaceName'', DtString),
     (83, ''interfaceDescription'', DtString),
     (84, ''samplerName'', DtString),
     (85, ''octetTotalCount'', DtUnsigned),
     (86, ''packetTotalCount'', DtUnsigned),
     (87, ''flagsAndSamplerId'', DtUnsigned),
     (88, ''fragmentOffset'', DtUnsigned),
     (89, ''forwardingStatus'', DtUnsigned),
     (90, ''mplsVpnRouteDistinguisher'', DtOctetArray),
     (91, ''mplsTopLabelPrefixLength'', DtUnsigned),
     (92, ''srcTrafficIndex'', DtUnsigned),
     (93, ''dstTrafficIndex'', DtUnsigned),
     (94, ''applicationDescription'', DtString),
     (95, ''applicationId'', DtOctetArray),
     (96, ''applicationName'', DtString),
     (98, ''postIpDiffServCodePoint'', DtUnsigned),
     (99, ''multicastReplicationFactor'', DtUnsigned),
     (100, ''className'', DtString),
     (101, ''classificationEngineId'', DtUnsigned),
     (102, ''layer2packetSectionOffset'', DtUnsigned),
     (103, ''layer2packetSectionSize'', DtUnsigned),
     (104, ''layer2packetSectionData'', DtOctetArray),
     (128, ''bgpNextAdjacentAsNumber'', DtUnsigned),
     (129, ''bgpPrevAdjacentAsNumber'', DtUnsigned),
     (130, ''exporterIPv4Address'', DtIpv4Address),
     (131, ''exporterIPv6Address'', DtIpv6Address),
     (132, ''droppedOctetDeltaCount'', DtUnsigned),
     (133, ''droppedPacketDeltaCount'', DtUnsigned),
     (134, ''droppedOctetTotalCount'', DtUnsigned),
     (135, ''droppedPacketTotalCount'', DtUnsigned),
     (136, ''flowEndReason'', DtUnsigned),
     (137, ''commonPropertiesId'', DtUnsigned),
     (138, ''observationPointId'', DtUnsigned),
     (139, ''icmpTypeCodeIPv6'', DtUnsigned),
     (140, ''mplsTopLabelIPv6Address'', DtIpv6Address),
     (141, ''lineCardId'', DtUnsigned),
     (142, ''portId'', DtUnsigned),
     (143, ''meteringProcessId'', DtUnsigned),
     (144, ''exportingProcessId'', DtUnsigned),
     (145, ''templateId'', DtUnsigned),
     (146, ''wlanChannelId'', DtUnsigned),
     (147, ''wlanSSID'', DtString),
     (148, ''flowId'', DtUnsigned),
     (149, ''observationDomainId'', DtUnsigned),
     (150, ''flowStartSeconds'', DtDateTimeSeconds),
     (151, ''flowEndSeconds'', DtDateTimeSeconds),
     (152, ''flowStartMilliseconds'', DtDateTimeMilliseconds),
     (153, ''flowEndMilliseconds'', DtDateTimeMilliseconds),
     (154, ''flowStartMicroseconds'', DtDateTimeMicroseconds),
     (155, ''flowEndMicroseconds'', DtDateTimeMicroseconds)]"

definition iana_elements_2 :: "(u16 \<times> string \<times> data_type) list" where
  "iana_elements_2 = [
     (156, ''flowStartNanoseconds'', DtDateTimeNanoseconds),
     (157, ''flowEndNanoseconds'', DtDateTimeNanoseconds),
     (158, ''flowStartDeltaMicroseconds'', DtUnsigned),
     (159, ''flowEndDeltaMicroseconds'', DtUnsigned),
     (160, ''systemInitTimeMilliseconds'', DtDateTimeMilliseconds),
     (161, ''flowDurationMilliseconds'', DtUnsigned),
     (162, ''flowDurationMicroseconds'', DtUnsigned),
     (163, ''observedFlowTotalCount'', DtUnsigned),
     (164, ''ignoredPacketTotalCount'', DtUnsigned),
     (165, ''ignoredOctetTotalCount'', DtUnsigned),
     (166, ''notSentFlowTotalCount'', DtUnsigned),
     (167, ''notSentPacketTotalCount'', DtUnsigned),
     (168, ''notSentOctetTotalCount'', DtUnsigned),
     (169, ''destinationIPv6Prefix'', DtIpv6Address),
     (170, ''sourceIPv6Prefix'', DtIpv6Address),
     (171, ''postOctetTotalCount'', DtUnsigned),
     (172, ''postPacketTotalCount'', DtUnsigned),
     (173, ''flowKeyIndicator'', DtUnsigned),
     (174, ''postMCastPacketTotalCount'', DtUnsigned),
     (175, ''postMCastOctetTotalCount'', DtUnsigned),
     (176, ''icmpTypeIPv4'', DtUnsigned),
     (177, ''icmpCodeIPv4'', DtUnsigned),
     (178, ''icmpTypeIPv6'', DtUnsigned),
     (179, ''icmpCodeIPv6'', DtUnsigned),
     (180, ''udpSourcePort'', DtUnsigned),
     (181, ''udpDestinationPort'', DtUnsigned),
     (182, ''tcpSourcePort'', DtUnsigned),
     (183, ''tcpDestinationPort'', DtUnsigned),
     (184, ''tcpSequenceNumber'', DtUnsigned),
     (185, ''tcpAcknowledgementNumber'', DtUnsigned),
     (186, ''tcpWindowSize'', DtUnsigned),
     (187, ''tcpUrgentPointer'', DtUnsigned),
     (188, ''tcpHeaderLength'', DtUnsigned),
     (189, ''ipHeaderLength'', DtUnsigned),
     (190, ''totalLengthIPv4'', DtUnsigned),
     (191, ''payloadLengthIPv6'', DtUnsigned),
     (192, ''ipTTL'', DtUnsigned),
     (193, ''nextHeaderIPv6'', DtUnsigned),
     (194, ''mplsPayloadLength'', DtUnsigned),
     (195, ''ipDiffServCodePoint'', DtUnsigned),
     (196, ''ipPrecedence'', DtUnsigned),
     (197, ''fragmentFlags'', DtUnsigned),
     (198, ''octetDeltaSumOfSquares'', DtUnsigned),
     (199, ''octetTotalSumOfSquares'', DtUnsigned),
     (200, ''mplsTopLabelTTL'', DtUnsigned),
     (201, ''mplsLabelStackLength'', DtUnsigned),
     (202, ''mplsLabelStackDepth'', DtUnsigned),
     (203, ''mplsTopLabelExp'', DtUnsigned),
     (204, ''ipPayloadLength'', DtUnsigned),
     (205, ''udpMessageLength'', DtUnsigned),
     (206, ''isMulticast'', DtUnsigned),
     (207, ''ipv4IHL'', DtUnsigned),
     (208, ''ipv4Options'', DtUnsigned),
     (209, ''tcpOptions'', DtUnsigned),
     (210, ''paddingOctets'', DtOctetArray),
     (211, ''collectorIPv4Address'', DtIpv4Address),
     (212, ''collectorIPv6Address'', DtIpv6Address),
     (213, ''exportInterface'', DtUnsigned),
     (214, ''exportProtocolVersion'', DtUnsigned),
     (215, ''exportTransportProtocol'', DtUnsigned),
     (216, ''collectorTransportPort'', DtUnsigned),
     (217, ''exporterTransportPort'', DtUnsigned),
     (218, ''tcpSynTotalCount'', DtUnsigned),
     (219, ''tcpFinTotalCount'', DtUnsigned),
     (220, ''tcpRstTotalCount'', DtUnsigned),
     (221, ''tcpPshTotalCount'', DtUnsigned),
     (222, ''tcpAckTotalCount'', DtUnsigned),
     (223, ''tcpUrgTotalCount'', DtUnsigned),
     (224, ''ipTotalLength'', DtUnsigned),
     (225, ''postNATSourceIPv4Address'', DtIpv4Address),
     (226, ''postNATDestinationIPv4Address'', DtIpv4Address),
     (227, ''postNAPTSourceTransportPort'', DtUnsigned),
     (228, ''postNAPTDestinationTransportPort'', DtUnsigned),
     (229, ''natOriginatingAddressRealm'', DtUnsigned),
     (230, ''natEvent'', DtUnsigned),
     (231, ''initiatorOctets'', DtUnsigned),
     (232, ''responderOctets'', DtUnsigned),
     (233, ''firewallEvent'', DtUnsigned),
     (234, ''ingressVRFID'', DtUnsigned),
     (235, ''egressVRFID'', DtUnsigned),
     (236, ''VRFname'', DtString),
     (237, ''postMplsTopLabelExp'', DtUnsigned),
     (238, ''tcpWindowScale'', DtUnsigned),
     (239, ''biflowDirection'', DtUnsigned),
     (240, ''ethernetHeaderLength'', DtUnsigned),
     (241, ''ethernetPayloadLength'', DtUnsigned),
     (242, ''ethernetTotalLength'', DtUnsigned),
     (243, ''dot1qVlanId'', DtUnsigned),
     (244, ''dot1qPriority'', DtUnsigned),
     (245, ''dot1qCustomerVlanId'', DtUnsigned),
     (246, ''dot1qCustomerPriority'', DtUnsigned),
     (247, ''metroEvcId'', DtString),
     (248, ''metroEvcType'', DtUnsigned),
     (249, ''pseudoWireId'', DtUnsigned),
     (250, ''pseudoWireType'', DtUnsigned),
     (251, ''pseudoWireControlWord'', DtUnsigned),
     (252, ''ingressPhysicalInterface'', DtUnsigned),
     (253, ''egressPhysicalInterface'', DtUnsigned),
     (254, ''postDot1qVlanId'', DtUnsigned),
     (255, ''postDot1qCustomerVlanId'', DtUnsigned),
     (256, ''ethernetType'', DtUnsigned),
     (257, ''postIpPrecedence'', DtUnsigned),
     (258, ''collectionTimeMilliseconds'', DtDateTimeMilliseconds),
     (259, ''exportSctpStreamId'', DtUnsigned),
     (260, ''maxExportSeconds'', DtDateTimeSeconds),
     (261, ''maxFlowEndSeconds'', DtDateTimeSeconds),
     (262, ''messageMD5Checksum'', DtOctetArray),
     (263, ''messageScope'', DtUnsigned),
     (264, ''minExportSeconds'', DtDateTimeSeconds),
     (265, ''minFlowStartSeconds'', DtDateTimeSeconds),
     (266, ''opaqueOctets'', DtOctetArray),
     (267, ''sessionScope'', DtUnsigned),
     (268, ''maxFlowEndMicroseconds'', DtDateTimeMicroseconds),
     (269, ''maxFlowEndMilliseconds'', DtDateTimeMilliseconds),
     (270, ''maxFlowEndNanoseconds'', DtDateTimeNanoseconds),
     (271, ''minFlowStartMicroseconds'', DtDateTimeMicroseconds),
     (272, ''minFlowStartMilliseconds'', DtDateTimeMilliseconds),
     (273, ''minFlowStartNanoseconds'', DtDateTimeNanoseconds),
     (274, ''collectorCertificate'', DtOctetArray),
     (275, ''exporterCertificate'', DtOctetArray),
     (276, ''dataRecordsReliability'', DtBoolean),
     (277, ''observationPointType'', DtUnsigned),
     (278, ''newConnectionDeltaCount'', DtUnsigned),
     (279, ''connectionSumDurationSeconds'', DtUnsigned),
     (280, ''connectionTransactionId'', DtUnsigned),
     (281, ''postNATSourceIPv6Address'', DtIpv6Address)]"

definition iana_elements_3 :: "(u16 \<times> string \<times> data_type) list" where
  "iana_elements_3 = [
     (282, ''postNATDestinationIPv6Address'', DtIpv6Address),
     (283, ''natPoolId'', DtUnsigned),
     (284, ''natPoolName'', DtString),
     (285, ''anonymizationFlags'', DtUnsigned),
     (286, ''anonymizationTechnique'', DtUnsigned),
     (287, ''informationElementIndex'', DtUnsigned),
     (288, ''p2pTechnology'', DtString),
     (289, ''tunnelTechnology'', DtString),
     (290, ''encryptedTechnology'', DtString),
     (291, ''basicList'', DtBasicList),
     (292, ''subTemplateList'', DtSubTemplateList),
     (293, ''subTemplateMultiList'', DtSubTemplateMultiList),
     (294, ''bgpValidityState'', DtUnsigned),
     (295, ''IPSecSPI'', DtUnsigned),
     (296, ''greKey'', DtUnsigned),
     (297, ''natType'', DtUnsigned),
     (298, ''initiatorPackets'', DtUnsigned),
     (299, ''responderPackets'', DtUnsigned),
     (300, ''observationDomainName'', DtString),
     (301, ''selectionSequenceId'', DtUnsigned),
     (302, ''selectorId'', DtUnsigned),
     (303, ''informationElementId'', DtUnsigned),
     (304, ''selectorAlgorithm'', DtUnsigned),
     (305, ''samplingPacketInterval'', DtUnsigned),
     (306, ''samplingPacketSpace'', DtUnsigned),
     (307, ''samplingTimeInterval'', DtUnsigned),
     (308, ''samplingTimeSpace'', DtUnsigned),
     (309, ''samplingSize'', DtUnsigned),
     (310, ''samplingPopulation'', DtUnsigned),
     (311, ''samplingProbability'', DtFloat),
     (312, ''dataLinkFrameSize'', DtUnsigned),
     (313, ''ipHeaderPacketSection'', DtOctetArray),
     (314, ''ipPayloadPacketSection'', DtOctetArray),
     (315, ''dataLinkFrameSection'', DtOctetArray),
     (316, ''mplsLabelStackSection'', DtOctetArray),
     (317, ''mplsPayloadPacketSection'', DtOctetArray),
     (318, ''selectorIdTotalPktsObserved'', DtUnsigned),
     (319, ''selectorIdTotalPktsSelected'', DtUnsigned),
     (320, ''absoluteError'', DtFloat),
     (321, ''relativeError'', DtFloat),
     (322, ''observationTimeSeconds'', DtDateTimeSeconds),
     (323, ''observationTimeMilliseconds'', DtDateTimeMilliseconds),
     (324, ''observationTimeMicroseconds'', DtDateTimeMicroseconds),
     (325, ''observationTimeNanoseconds'', DtDateTimeNanoseconds),
     (326, ''digestHashValue'', DtUnsigned),
     (327, ''hashIPPayloadOffset'', DtUnsigned),
     (328, ''hashIPPayloadSize'', DtUnsigned),
     (329, ''hashOutputRangeMin'', DtUnsigned),
     (330, ''hashOutputRangeMax'', DtUnsigned),
     (331, ''hashSelectedRangeMin'', DtUnsigned),
     (332, ''hashSelectedRangeMax'', DtUnsigned),
     (333, ''hashDigestOutput'', DtBoolean),
     (334, ''hashInitialiserValue'', DtUnsigned),
     (335, ''selectorName'', DtString),
     (336, ''upperCILimit'', DtFloat),
     (337, ''lowerCILimit'', DtFloat),
     (338, ''confidenceLevel'', DtFloat),
     (339, ''informationElementDataType'', DtUnsigned),
     (340, ''informationElementDescription'', DtString),
     (341, ''informationElementName'', DtString),
     (342, ''informationElementRangeBegin'', DtUnsigned),
     (343, ''informationElementRangeEnd'', DtUnsigned),
     (344, ''informationElementSemantics'', DtUnsigned),
     (345, ''informationElementUnits'', DtUnsigned),
     (346, ''privateEnterpriseNumber'', DtUnsigned),
     (347, ''virtualStationInterfaceId'', DtOctetArray),
     (348, ''virtualStationInterfaceName'', DtString),
     (349, ''virtualStationUUID'', DtOctetArray),
     (350, ''virtualStationName'', DtString),
     (351, ''layer2SegmentId'', DtUnsigned),
     (352, ''layer2OctetDeltaCount'', DtUnsigned),
     (353, ''layer2OctetTotalCount'', DtUnsigned),
     (354, ''ingressUnicastPacketTotalCount'', DtUnsigned),
     (355, ''ingressMulticastPacketTotalCount'', DtUnsigned),
     (356, ''ingressBroadcastPacketTotalCount'', DtUnsigned),
     (357, ''egressUnicastPacketTotalCount'', DtUnsigned),
     (358, ''egressBroadcastPacketTotalCount'', DtUnsigned),
     (359, ''monitoringIntervalStartMilliSeconds'', DtDateTimeMilliseconds),
     (360, ''monitoringIntervalEndMilliSeconds'', DtDateTimeMilliseconds),
     (361, ''portRangeStart'', DtUnsigned),
     (362, ''portRangeEnd'', DtUnsigned),
     (363, ''portRangeStepSize'', DtUnsigned),
     (364, ''portRangeNumPorts'', DtUnsigned),
     (365, ''staMacAddress'', DtMacAddress),
     (366, ''staIPv4Address'', DtIpv4Address),
     (367, ''wtpMacAddress'', DtMacAddress),
     (368, ''ingressInterfaceType'', DtUnsigned),
     (369, ''egressInterfaceType'', DtUnsigned),
     (370, ''rtpSequenceNumber'', DtUnsigned),
     (371, ''userName'', DtString),
     (372, ''applicationCategoryName'', DtString),
     (373, ''applicationSubCategoryName'', DtString),
     (374, ''applicationGroupName'', DtString),
     (375, ''originalFlowsPresent'', DtUnsigned),
     (376, ''originalFlowsInitiated'', DtUnsigned),
     (377, ''originalFlowsCompleted'', DtUnsigned),
     (378, ''distinctCountOfSourceIPAddress'', DtUnsigned),
     (379, ''distinctCountOfDestinationIPAddress'', DtUnsigned),
     (380, ''distinctCountOfSourceIPv4Address'', DtUnsigned),
     (381, ''distinctCountOfDestinationIPv4Address'', DtUnsigned),
     (382, ''distinctCountOfSourceIPv6Address'', DtUnsigned),
     (383, ''distinctCountOfDestinationIPv6Address'', DtUnsigned),
     (384, ''valueDistributionMethod'', DtUnsigned),
     (385, ''rfc3550JitterMilliseconds'', DtUnsigned),
     (386, ''rfc3550JitterMicroseconds'', DtUnsigned),
     (387, ''rfc3550JitterNanoseconds'', DtUnsigned),
     (388, ''dot1qDEI'', DtBoolean),
     (389, ''dot1qCustomerDEI'', DtBoolean),
     (390, ''flowSelectorAlgorithm'', DtUnsigned),
     (391, ''flowSelectedOctetDeltaCount'', DtUnsigned),
     (392, ''flowSelectedPacketDeltaCount'', DtUnsigned),
     (393, ''flowSelectedFlowDeltaCount'', DtUnsigned),
     (394, ''selectorIDTotalFlowsObserved'', DtUnsigned),
     (395, ''selectorIDTotalFlowsSelected'', DtUnsigned),
     (396, ''samplingFlowInterval'', DtUnsigned),
     (397, ''samplingFlowSpacing'', DtUnsigned),
     (398, ''flowSamplingTimeInterval'', DtUnsigned),
     (399, ''flowSamplingTimeSpacing'', DtUnsigned),
     (400, ''hashFlowDomain'', DtUnsigned),
     (401, ''transportOctetDeltaCount'', DtUnsigned),
     (402, ''transportPacketDeltaCount'', DtUnsigned),
     (403, ''originalExporterIPv4Address'', DtIpv4Address),
     (404, ''originalExporterIPv6Address'', DtIpv6Address),
     (405, ''originalObservationDomainId'', DtUnsigned),
     (406, ''intermediateProcessId'', DtUnsigned),
     (407, ''ignoredDataRecordTotalCount'', DtUnsigned)]"

definition iana_elements_4 :: "(u16 \<times> string \<times> data_type) list" where
  "iana_elements_4 = [
     (408, ''dataLinkFrameType'', DtUnsigned),
     (409, ''sectionOffset'', DtUnsigned),
     (410, ''sectionExportedOctets'', DtUnsigned),
     (411, ''dot1qServiceInstanceTag'', DtOctetArray),
     (412, ''dot1qServiceInstanceId'', DtUnsigned),
     (413, ''dot1qServiceInstancePriority'', DtUnsigned),
     (414, ''dot1qCustomerSourceMacAddress'', DtMacAddress),
     (415, ''dot1qCustomerDestinationMacAddress'', DtMacAddress),
     (417, ''postLayer2OctetDeltaCount'', DtUnsigned),
     (418, ''postMCastLayer2OctetDeltaCount'', DtUnsigned),
     (420, ''postLayer2OctetTotalCount'', DtUnsigned),
     (421, ''postMCastLayer2OctetTotalCount'', DtUnsigned),
     (422, ''minimumLayer2TotalLength'', DtUnsigned),
     (423, ''maximumLayer2TotalLength'', DtUnsigned),
     (424, ''droppedLayer2OctetDeltaCount'', DtUnsigned),
     (425, ''droppedLayer2OctetTotalCount'', DtUnsigned),
     (426, ''ignoredLayer2OctetTotalCount'', DtUnsigned),
     (427, ''notSentLayer2OctetTotalCount'', DtUnsigned),
     (428, ''layer2OctetDeltaSumOfSquares'', DtUnsigned),
     (429, ''layer2OctetTotalSumOfSquares'', DtUnsigned),
     (430, ''layer2FrameDeltaCount'', DtUnsigned),
     (431, ''layer2FrameTotalCount'', DtUnsigned),
     (432, ''pseudoWireDestinationIPv4Address'', DtIpv4Address),
     (433, ''ignoredLayer2FrameTotalCount'', DtUnsigned),
     (434, ''mibObjectValueInteger'', DtSigned),
     (435, ''mibObjectValueOctetString'', DtOctetArray),
     (436, ''mibObjectValueOID'', DtOctetArray),
     (437, ''mibObjectValueBits'', DtOctetArray),
     (438, ''mibObjectValueIPAddress'', DtIpv4Address),
     (439, ''mibObjectValueCounter'', DtUnsigned),
     (440, ''mibObjectValueGauge'', DtUnsigned),
     (441, ''mibObjectValueTimeTicks'', DtUnsigned),
     (442, ''mibObjectValueUnsigned'', DtUnsigned),
     (443, ''mibObjectValueTable'', DtSubTemplateList),
     (444, ''mibObjectValueRow'', DtSubTemplateList),
     (445, ''mibObjectIdentifier'', DtOctetArray),
     (446, ''mibSubIdentifier'', DtUnsigned),
     (447, ''mibIndexIndicator'', DtUnsigned),
     (448, ''mibCaptureTimeSemantics'', DtUnsigned),
     (449, ''mibContextEngineID'', DtOctetArray),
     (450, ''mibContextName'', DtString),
     (451, ''mibObjectName'', DtString),
     (452, ''mibObjectDescription'', DtString),
     (453, ''mibObjectSyntax'', DtString),
     (454, ''mibModuleName'', DtString),
     (455, ''mobileIMSI'', DtString),
     (456, ''mobileMSISDN'', DtString),
     (457, ''httpStatusCode'', DtUnsigned),
     (458, ''sourceTransportPortsLimit'', DtUnsigned),
     (459, ''httpRequestMethod'', DtString),
     (460, ''httpRequestHost'', DtString),
     (461, ''httpRequestTarget'', DtString),
     (462, ''httpMessageVersion'', DtString),
     (463, ''natInstanceID'', DtUnsigned),
     (464, ''internalAddressRealm'', DtOctetArray),
     (465, ''externalAddressRealm'', DtOctetArray),
     (466, ''natQuotaExceededEvent'', DtUnsigned),
     (467, ''natThresholdEvent'', DtUnsigned),
     (468, ''httpUserAgent'', DtString),
     (469, ''httpContentType'', DtString),
     (470, ''httpReasonPhrase'', DtString),
     (471, ''maxSessionEntries'', DtUnsigned),
     (472, ''maxBIBEntries'', DtUnsigned),
     (473, ''maxEntriesPerUser'', DtUnsigned),
     (474, ''maxSubscribers'', DtUnsigned),
     (475, ''maxFragmentsPendingReassembly'', DtUnsigned),
     (476, ''addressPoolHighThreshold'', DtUnsigned),
     (477, ''addressPoolLowThreshold'', DtUnsigned),
     (478, ''addressPortMappingHighThreshold'', DtUnsigned),
     (479, ''addressPortMappingLowThreshold'', DtUnsigned),
     (480, ''addressPortMappingPerUserHighThreshold'', DtUnsigned),
     (481, ''globalAddressMappingHighThreshold'', DtUnsigned),
     (482, ''vpnIdentifier'', DtOctetArray),
     (483, ''bgpCommunity'', DtUnsigned),
     (484, ''bgpSourceCommunityList'', DtBasicList),
     (485, ''bgpDestinationCommunityList'', DtBasicList),
     (486, ''bgpExtendedCommunity'', DtOctetArray),
     (487, ''bgpSourceExtendedCommunityList'', DtBasicList),
     (488, ''bgpDestinationExtendedCommunityList'', DtBasicList),
     (489, ''bgpLargeCommunity'', DtOctetArray),
     (490, ''bgpSourceLargeCommunityList'', DtBasicList),
     (491, ''bgpDestinationLargeCommunityList'', DtBasicList),
     (492, ''srhFlagsIPv6'', DtUnsigned),
     (493, ''srhTagIPv6'', DtUnsigned),
     (494, ''srhSegmentIPv6'', DtIpv6Address),
     (495, ''srhActiveSegmentIPv6'', DtIpv6Address),
     (496, ''srhSegmentIPv6BasicList'', DtBasicList),
     (497, ''srhSegmentIPv6ListSection'', DtOctetArray),
     (498, ''srhSegmentsIPv6Left'', DtUnsigned),
     (499, ''srhIPv6Section'', DtOctetArray),
     (500, ''srhIPv6ActiveSegmentType'', DtUnsigned),
     (501, ''srhSegmentIPv6LocatorLength'', DtUnsigned),
     (502, ''srhSegmentIPv6EndpointBehavior'', DtUnsigned),
     (503, ''transportChecksum'', DtUnsigned),
     (504, ''icmpHeaderPacketSection'', DtOctetArray),
     (505, ''gtpuFlags'', DtUnsigned),
     (506, ''gtpuMsgType'', DtUnsigned),
     (507, ''gtpuTEid'', DtUnsigned),
     (508, ''gtpuSequenceNum'', DtUnsigned),
     (509, ''gtpuQFI'', DtUnsigned),
     (510, ''gtpuPduType'', DtUnsigned),
     (511, ''bgpSourceAsPathList'', DtBasicList),
     (512, ''bgpDestinationAsPathList'', DtBasicList),
     (513, ''ipv6ExtensionHeaderType'', DtUnsigned),
     (514, ''ipv6ExtensionHeaderCount'', DtUnsigned),
     (515, ''ipv6ExtensionHeadersFull'', DtUnsigned),
     (516, ''ipv6ExtensionHeaderTypeCountList'', DtSubTemplateList),
     (517, ''ipv6ExtensionHeadersLimit'', DtBoolean),
     (518, ''ipv6ExtensionHeadersChainLength'', DtUnsigned),
     (519, ''ipv6ExtensionHeaderChainLengthList'', DtSubTemplateList),
     (520, ''tcpOptionsFull'', DtUnsigned),
     (521, ''tcpSharedOptionExID16'', DtUnsigned),
     (522, ''tcpSharedOptionExID32'', DtUnsigned),
     (523, ''tcpSharedOptionExID16List'', DtBasicList),
     (524, ''tcpSharedOptionExID32List'', DtBasicList),
     (525, ''udpSafeOptions'', DtUnsigned),
     (526, ''udpUnsafeOptions'', DtUnsigned),
     (527, ''udpExID'', DtUnsigned),
     (528, ''udpSafeExIDList'', DtBasicList),
     (529, ''udpUnsafeExIDList'', DtBasicList)]"

definition iana_elements :: "(u16 \<times> string \<times> data_type) list" where
  "iana_elements = iana_elements_1 @ iana_elements_2 @ iana_elements_3 @ iana_elements_4"

definition add_iana_elements :: "ie_registry \<Rightarrow> ie_registry" where
  "add_iana_elements elements =
     fold (\<lambda>(n, name, dt) elements. add_element n None name dt elements) iana_elements elements"

definition new_with_iana_elements :: ie_registry where
  "new_with_iana_elements = add_iana_elements registry_new"

section \<open>Lemmas\<close>

text \<open>A list in increasing order, checked pairwise.\<close>

fun increasing :: "u16 list \<Rightarrow> bool" where
  "increasing (x # y # zs) \<longleftrightarrow> x < y \<and> increasing (y # zs)"
| "increasing _ \<longleftrightarrow> True"

lemma increasing_distinct: "increasing xs \<Longrightarrow> distinct xs \<and> (\<forall>x\<in>set xs. hd xs \<le> x)"
  by (induction xs rule: increasing.induct) fastforce+

lemma iana_ids_increasing: "increasing (map fst iana_elements)"
  unfolding iana_elements_def iana_elements_1_def iana_elements_2_def iana_elements_3_def
    iana_elements_4_def by simp

lemma iana_ids_distinct: "distinct (map fst iana_elements)"
  using increasing_distinct [OF iana_ids_increasing] by simp

lemma lookup_add_element:
  "registry_lookup (add_element n e name dt r) n' e' =
     (if n' = n \<and> e' = e
      then Some \<lparr>def_id = n, def_enterprise_number = e, def_name = name, def_data_type = dt\<rparr>
      else registry_lookup r n' e')"
  by (simp add: registry_lookup_def add_element_def Let_def hm_laws)

lemma lookup_add_elements:
  assumes "distinct (map fst xs)"
  shows "registry_lookup (fold (\<lambda>(n, name, dt) r. add_element n None name dt r) xs r) n e =
    (case map_of xs n of
       Some (name, dt) \<Rightarrow> if e = None
         then Some \<lparr>def_id = n, def_enterprise_number = None, def_name = name, def_data_type = dt\<rparr>
         else registry_lookup r n e
     | None \<Rightarrow> registry_lookup r n e)"
  using assms
proof (induction xs arbitrary: r)
  case (Cons x xs)
  obtain m name dt where x: "x = (m, name, dt)" by (cases x)
  with Cons.prems have "map_of xs m = None"
    by (auto simp: map_of_eq_None_iff)
  with Cons show ?case
    by (auto simp: x lookup_add_element split: option.splits)
qed simp

section \<open>Properties\<close>

text \<open>The default registry answers exactly the table of IANA elements: every row of it is found
  under its identifier with its name and type (no row is overwritten by a later one), every
  other identifier and every enterprise element is unknown.\<close>

theorem iana_lookup:
  "registry_lookup new_with_iana_elements n e =
     (case map_of iana_elements n of
        Some (name, dt) \<Rightarrow> if e = None
          then Some \<lparr>def_id = n, def_enterprise_number = None, def_name = name, def_data_type = dt\<rparr>
          else None
      | None \<Rightarrow> None) \<and> distinct (map fst iana_elements)"
proof -
  have "registry_lookup registry_new n e = None"
    by (simp add: registry_lookup_def registry_new_def hm_laws)
  then show ?thesis
    unfolding new_with_iana_elements_def add_iana_elements_def lookup_add_elements [OF iana_ids_distinct]
    by (auto simp: iana_ids_distinct split: option.splits)
qed

end
