(* ===== verification/DataRecord.thy ===== *)
theory DataRecord
  imports CommonParser IERegistry
begin

text \<open>
  \<^verbatim>\<open>common/data_record.rs\<close>: the fields of a template with their registry metadata, and a record of
  values in template order. The slices are shared (\<^verbatim>\<open>Arc\<close>) and never written, so they are lists.
  The serialization of a record (through \<^verbatim>\<open>serde\<close>) is the sequence of its entries, \<open>record_iter\<close>.
\<close>

record 's resolved_field =
  rf_spec :: 's
  rf_data_type :: data_type
  rf_name :: string

datatype (dead 's, 'v) data_record =
  DataRecord (dr_fields: "'s resolved_field list") (dr_values: "'v list")

definition from_template :: "'s resolved_field list \<Rightarrow> 'v list \<Rightarrow> ('s, 'v) data_record" where
  "from_template fs vs = DataRecord fs vs"

definition record_len :: "('s, 'v) data_record \<Rightarrow> nat" where
  "record_len r = length (dr_values r)"

definition record_is_empty :: "('s, 'v) data_record \<Rightarrow> bool" where
  "record_is_empty r \<longleftrightarrow> dr_values r = []"

definition record_iter :: "('s, 'v) data_record \<Rightarrow> ('s \<times> string \<times> 'v) list" where
  "record_iter r = map (\<lambda>(field, value). (rf_spec field, rf_name field, value))
     (zip (dr_fields r) (dr_values r))"

text \<open>The condition of the \<^verbatim>\<open>debug_assert_eq\<close> in \<^verbatim>\<open>from_template\<close>.\<close>

definition record_ok :: "('s, 'v) data_record \<Rightarrow> bool" where
  "record_ok r \<longleftrightarrow> length (dr_fields r) = length (dr_values r)"

text \<open>\<^verbatim>\<open>to_string\<close> of an unsigned integer: its decimal digits.\<close>

fun dec_string :: "nat \<Rightarrow> string" where
  "dec_string n =
     (if n < 10 then [char_of (48 + n)] else dec_string (n div 10) @ [char_of (48 + n mod 10)])"

declare dec_string.simps [simp del]

lemma length_record_iter: "record_ok r \<Longrightarrow> length (record_iter r) = record_len r"
  by (simp add: record_iter_def record_len_def record_ok_def)

text \<open>
  The values of a record, one after the other, each read by a parser of its own: the loop
  of \<^verbatim>\<open>parse_data_record\<close> in both template-based protocols.
\<close>

fun read_values :: "('f \<Rightarrow> 'v parser) \<Rightarrow> 'f list \<Rightarrow> 'v list parser" where
  "read_values p [] remaining = Some (remaining, [])"
| "read_values p (f # fs) remaining = do {
     (input, value) \<leftarrow> p f remaining;
     (remaining, values) \<leftarrow> read_values p fs input;
     Some (remaining, value # values)
   }"

lemma read_values_length: "read_values p fs i = Some (i', vs) \<Longrightarrow> length vs = length fs"
  by (induction fs arbitrary: i vs) (auto simp: bind_eq_Some_conv)

lemma read_values_fun:
  "read_values p [] = (\<lambda>i. Some (i, []))"
  "read_values p (f # fs) =
     (\<lambda>i. p f i \<bind> (\<lambda>(i, v). read_values p fs i \<bind> (\<lambda>(i, vs). Some (i, v # vs))))"
  by (simp_all add: fun_eq_iff)

lemma fixed_read_values:
  assumes "\<And>f. fixed_len (k f) (p f)"
  shows "fixed_len (sum_list (map k fs)) (read_values p fs)"
proof (induction fs)
  case Nil
  show ?case unfolding read_values_fun by (simp add: fixed_len_return)
next
  case (Cons f fs)
  have "fixed_len (k f + (sum_list (map k fs) + 0)) (read_values p (f # fs))"
    unfolding read_values_fun by (intro fixed_len_intros assms Cons)
  then show ?case by (rule fixed_len_eq) simp
qed

lemma nonincr_read_values [nonincr_intros]:
  assumes "\<And>f. nonincr (p f)"
  shows "nonincr (read_values p fs)"
proof (induction fs)
  case Nil
  show ?case unfolding read_values_fun by (intro nonincr_intros)
next
  case (Cons f fs)
  show ?case unfolding read_values_fun by (intro nonincr_intros assms Cons)
qed

lemma read_values_nth:
  assumes "read_values p fs i = Some (i', vs)" and "\<And>f. fixed_len (k f) (p f)" and "n < length fs"
  shows "p (fs ! n) (drop (sum_list (map k (take n fs))) i) =
    Some (drop (sum_list (map k (take (Suc n) fs))) i, vs ! n)"
  using assms(1,3)
proof (induction fs arbitrary: i vs n)
  case (Cons f fs)
  from Cons.prems obtain i1 v vs1 where p: "p f i = Some (i1, v)"
    and r: "read_values p fs i1 = Some (i', vs1)" and vs: "vs = v # vs1"
    by (auto simp: bind_eq_Some_conv)
  have i1: "i1 = drop (k f) i"
    using fixed_lenD(2) [OF assms(2) p] by simp
  show ?case
  proof (cases n)
    case 0
    with p vs i1 show ?thesis by simp
  next
    case (Suc m)
    with Cons.IH [OF r, of m] Cons.prems(2) show ?thesis
      by (simp add: vs i1 add.commute)
  qed
qed simp

end
