(* ===== verification/InformationElement.thy ===== *)
theory InformationElement
  imports Prelude
begin

text \<open>
  \<^verbatim>\<open>common/information_element.rs\<close>: the IANA information elements the converters know, with
  their identifiers, and the table that finds an element by its identifier.
\<close>

datatype (plugins only: size) information_element =
    OctetDeltaCount | PacketDeltaCount | ProtocolIdentifier | IpClassOfService | TcpControlBits
  | SourceTransportPort | SourceIpv4Address | SourceIpv4PrefixLength | IngressInterface
  | DestinationTransportPort | DestinationIpv4Address | DestinationIpv4PrefixLength
  | EgressInterface | IpVersion | FlowDirection | IpNextHopIpv4Address | BgpSourceAsNumber
  | BgpDestinationAsNumber | BgpNextHopIpv4Address | FlowEndSysUpTime | FlowStartSysUpTime
  | SourceIpv6Address | DestinationIpv6Address | SourceIpv6PrefixLength
  | DestinationIpv6PrefixLength | FlowLabelIpv6 | IcmpTypeCodeIpv4 | FlowEndReason
  | IcmpTypeCodeIpv6 | SamplingInterval | SamplerId | SamplerRandomInterval | MinimumTtl
  | MaximumTtl | FragmentIdentification | SourceMacAddress | PostDestinationMacAddress | SrcVlan
  | DstVlan | IpNextHopIpv6Address | BgpNextHopIpv6Address | DestinationMacAddress
  | PostSourceMacAddress | ForwardingStatus | ObservationDomainId | FlowStartSeconds
  | FlowEndSeconds | FlowStartMilliseconds | FlowEndMilliseconds | FlowStartMicroseconds
  | FlowEndMicroseconds | FlowStartNanoseconds | FlowEndNanoseconds | FlowStartDeltaMicroseconds
  | FlowEndDeltaMicroseconds | SystemInitTimeMilliseconds | IcmpTypeIpv4 | IcmpCodeIpv4
  | IcmpTypeIpv6 | IcmpCodeIpv6 | SelectorId | InformationElementId | SelectorAlgorithm
  | SamplingPacketInterval | SamplingPacketSpace | DataLinkFrameSize | IpHeaderPacketSection
  | DataLinkFrameSection | InformationElementDataType | InformationElementName
  | InformationElementSemantics | PrivateEnterpriseNumber

text \<open>The discriminants of the enum (\<^verbatim>\<open>IntoPrimitive\<close>).\<close>

primrec ie_id :: "information_element \<Rightarrow> u16" where
  "ie_id OctetDeltaCount = 1"
| "ie_id PacketDeltaCount = 2"
| "ie_id ProtocolIdentifier = 4"
| "ie_id IpClassOfService = 5"
| "ie_id TcpControlBits = 6"
| "ie_id SourceTransportPort = 7"
| "ie_id SourceIpv4Address = 8"
| "ie_id SourceIpv4PrefixLength = 9"
| "ie_id IngressInterface = 10"
| "ie_id DestinationTransportPort = 11"
| "ie_id DestinationIpv4Address = 12"
| "ie_id DestinationIpv4PrefixLength = 13"
| "ie_id EgressInterface = 14"
| "ie_id IpVersion = 60"
| "ie_id FlowDirection = 61"
| "ie_id IpNextHopIpv4Address = 15"
| "ie_id BgpSourceAsNumber = 16"
| "ie_id BgpDestinationAsNumber = 17"
| "ie_id BgpNextHopIpv4Address = 18"
| "ie_id FlowEndSysUpTime = 21"
| "ie_id FlowStartSysUpTime = 22"
| "ie_id SourceIpv6Address = 27"
| "ie_id DestinationIpv6Address = 28"
| "ie_id SourceIpv6PrefixLength = 29"
| "ie_id DestinationIpv6PrefixLength = 30"
| "ie_id FlowLabelIpv6 = 31"
| "ie_id IcmpTypeCodeIpv4 = 32"
| "ie_id FlowEndReason = 136"
| "ie_id IcmpTypeCodeIpv6 = 139"
| "ie_id SamplingInterval = 34"
| "ie_id SamplerId = 48"
| "ie_id SamplerRandomInterval = 50"
| "ie_id MinimumTtl = 52"
| "ie_id MaximumTtl = 53"
| "ie_id FragmentIdentification = 54"
| "ie_id SourceMacAddress = 56"
| "ie_id PostDestinationMacAddress = 57"
| "ie_id SrcVlan = 58"
| "ie_id DstVlan = 59"
| "ie_id IpNextHopIpv6Address = 62"
| "ie_id BgpNextHopIpv6Address = 63"
| "ie_id DestinationMacAddress = 80"
| "ie_id PostSourceMacAddress = 81"
| "ie_id ForwardingStatus = 89"
| "ie_id ObservationDomainId = 149"
| "ie_id FlowStartSeconds = 150"
| "ie_id FlowEndSeconds = 151"
| "ie_id FlowStartMilliseconds = 152"
| "ie_id FlowEndMilliseconds = 153"
| "ie_id FlowStartMicroseconds = 154"
| "ie_id FlowEndMicroseconds = 155"
| "ie_id FlowStartNanoseconds = 156"
| "ie_id FlowEndNanoseconds = 157"
| "ie_id FlowStartDeltaMicroseconds = 158"
| "ie_id FlowEndDeltaMicroseconds = 159"
| "ie_id SystemInitTimeMilliseconds = 160"
| "ie_id IcmpTypeIpv4 = 176"
| "ie_id IcmpCodeIpv4 = 177"
| "ie_id IcmpTypeIpv6 = 178"
| "ie_id IcmpCodeIpv6 = 179"
| "ie_id SelectorId = 302"
| "ie_id InformationElementId = 303"
| "ie_id SelectorAlgorithm = 304"
| "ie_id SamplingPacketInterval = 305"
| "ie_id SamplingPacketSpace = 306"
| "ie_id DataLinkFrameSize = 312"
| "ie_id IpHeaderPacketSection = 313"
| "ie_id DataLinkFrameSection = 315"
| "ie_id InformationElementDataType = 339"
| "ie_id InformationElementName = 341"
| "ie_id InformationElementSemantics = 344"
| "ie_id PrivateEnterpriseNumber = 346"

definition ie_variants :: "information_element list" where
  "ie_variants = [
     OctetDeltaCount, PacketDeltaCount, ProtocolIdentifier, IpClassOfService, TcpControlBits,
     SourceTransportPort, SourceIpv4Address, SourceIpv4PrefixLength, IngressInterface,
     DestinationTransportPort, DestinationIpv4Address, DestinationIpv4PrefixLength,
     EgressInterface, IpVersion, FlowDirection, IpNextHopIpv4Address, BgpSourceAsNumber,
     BgpDestinationAsNumber, BgpNextHopIpv4Address, FlowEndSysUpTime, FlowStartSysUpTime,
     SourceIpv6Address, DestinationIpv6Address, SourceIpv6PrefixLength,
     DestinationIpv6PrefixLength, FlowLabelIpv6, IcmpTypeCodeIpv4, FlowEndReason,
     IcmpTypeCodeIpv6, SamplingInterval, SamplerId, SamplerRandomInterval, MinimumTtl,
     MaximumTtl, FragmentIdentification, SourceMacAddress, PostDestinationMacAddress, SrcVlan,
     DstVlan, IpNextHopIpv6Address, BgpNextHopIpv6Address, DestinationMacAddress,
     PostSourceMacAddress, ForwardingStatus, ObservationDomainId, FlowStartSeconds,
     FlowEndSeconds, FlowStartMilliseconds, FlowEndMilliseconds, FlowStartMicroseconds,
     FlowEndMicroseconds, FlowStartNanoseconds, FlowEndNanoseconds, FlowStartDeltaMicroseconds,
     FlowEndDeltaMicroseconds, SystemInitTimeMilliseconds, IcmpTypeIpv4, IcmpCodeIpv4,
     IcmpTypeIpv6, IcmpCodeIpv6, SelectorId, InformationElementId, SelectorAlgorithm,
     SamplingPacketInterval, SamplingPacketSpace, DataLinkFrameSize, IpHeaderPacketSection,
     DataLinkFrameSection, InformationElementDataType, InformationElementName,
     InformationElementSemantics, PrivateEnterpriseNumber]"

text \<open>\<^verbatim>\<open>TryFromPrimitive\<close>: the variant with a given discriminant.\<close>

definition ie_try_from :: "u16 \<Rightarrow> information_element option" where
  "ie_try_from n = find (\<lambda>ie. ie_id ie = n) ie_variants"

definition MAX_IE_ID :: u16 where
  "MAX_IE_ID = 346"

definition IE_BY_ID :: "information_element option list" where
  "IE_BY_ID = map (\<lambda>n. ie_try_from (word_of_nat n)) [0..<Suc (unat MAX_IE_ID)]"

definition ie_from_id :: "u16 \<Rightarrow> information_element option" where
  "ie_from_id n = (if unat n < length IE_BY_ID then IE_BY_ID ! unat n else None)"

section \<open>The table agrees with the enum\<close>

lemma ie_variants_all: "ie \<in> set ie_variants"
  by (cases ie) (simp_all add: ie_variants_def)

lemma ie_ids_distinct: "distinct (map ie_id ie_variants)"
  by (simp add: ie_variants_def)

lemma ie_id_max: "ie_id ie \<le> MAX_IE_ID"
  by (cases ie) (simp_all add: MAX_IE_ID_def)

lemma ie_id_inj: "ie_id a = ie_id b \<longleftrightarrow> a = b"
  using ie_ids_distinct ie_variants_all [of a] ie_variants_all [of b]
  by (auto simp: distinct_map inj_on_def)

lemma ie_try_from_iff: "ie_try_from n = Some ie \<longleftrightarrow> ie_id ie = n"
proof
  assume "ie_try_from n = Some ie"
  then show "ie_id ie = n"
    by (auto simp: ie_try_from_def find_Some_iff)
next
  assume n: "ie_id ie = n"
  then have "find (\<lambda>ie. ie_id ie = n) ie_variants \<noteq> None"
    using ie_variants_all [of ie] by (auto simp: find_None_iff)
  then obtain a where "ie_try_from n = Some a"
    by (auto simp: ie_try_from_def)
  moreover from this have "ie_id a = n"
    by (auto simp: ie_try_from_def find_Some_iff)
  ultimately show "ie_try_from n = Some ie"
    using n ie_id_inj by metis
qed

lemma ie_from_id_iff: "ie_from_id n = Some ie \<longleftrightarrow> ie_id ie = n"
proof (cases "n \<le> MAX_IE_ID")
  case True
  then have "unat n < length IE_BY_ID"
    by (simp add: IE_BY_ID_def word_le_nat_alt less_Suc_eq_le)
  then show ?thesis
    by (simp add: ie_from_id_def IE_BY_ID_def ie_try_from_iff del: upt_Suc)
next
  case False
  then have "\<not> unat n < length IE_BY_ID"
    by (simp add: IE_BY_ID_def word_le_nat_alt less_Suc_eq_le)
  with False show ?thesis
    using ie_id_max [of ie] by (auto simp: ie_from_id_def)
qed

lemma ie_from_id_id [simp]: "ie_from_id (ie_id ie) = Some ie"
  by (simp add: ie_from_id_iff)

section \<open>Properties\<close>

text \<open>The lookup table for information elements agrees with the enum for every identifier:
  it finds exactly the variant with that discriminant, and the largest discriminant is within
  the table.\<close>

theorem ie_table_matches_derive:
  "ie_from_id n = ie_try_from n \<and> (ie_from_id n = Some ie) = (ie_id ie = n)"
proof -
  have "ie_from_id n = ie_try_from n"
    using ie_from_id_iff [of n] ie_try_from_iff [of n]
    by (cases "ie_from_id n"; cases "ie_try_from n") auto
  then show ?thesis by (simp add: ie_try_from_iff)
qed

end
