(* ===== verification/TemplateCache.thy ===== *)
theory TemplateCache
  imports HashMap
begin

text \<open>
  \<^verbatim>\<open>common/template_cache.rs\<close>: the templates of one exporter, by observation domain.

  An \<^verbatim>\<open>Instant\<close> is a \<open>nat\<close> of clock ticks and a \<^verbatim>\<open>Duration\<close> a number of ticks;
  \<^verbatim>\<open>Instant::now()\<close> is the argument \<open>now\<close> of the operations that read the clock.
  \<^verbatim>\<open>duration_since\<close> and \<^verbatim>\<open>elapsed\<close> saturate at zero, as subtraction on \<open>nat\<close> does. The
  \<^verbatim>\<open>usize\<close> counters are \<open>nat\<close>; that no subtraction on them goes below zero is part of
  what is proved (\<open>cache_ok\<close> and \<open>fields_never_underflow\<close>). Log messages are left out; the
  flag \<open>tc_refusing\<close> that decides their level is kept.
\<close>

definition MAX_TEMPLATE_FIELDS :: nat where
  "MAX_TEMPLATE_FIELDS = 65536"

type_synonym template_key = "u32 \<times> u16"

record 'f entry =
  e_fields :: "'f list"
  sent_at :: nat

record 'f template_cache =
  tc_domains :: "(u32, (u16, 'f entry) hashmap) hashmap"
  tc_timeout :: nat
  tc_fields :: nat
  tc_next_sweep :: nat
  tc_next_expiry :: "nat option"
  tc_refusing :: bool

definition cache_new :: "nat \<Rightarrow> nat \<Rightarrow> 'f template_cache" where
  "cache_new now timeout =
     \<lparr>tc_domains = hm_empty, tc_timeout = timeout, tc_fields = 0,
      tc_next_sweep = now + timeout, tc_next_expiry = None, tc_refusing = False\<rparr>"

definition cache_get :: "'f template_cache \<Rightarrow> nat \<Rightarrow> template_key \<Rightarrow> 'f list option" where
  "cache_get c now key = (case key of (domain, tid) \<Rightarrow> do {
     templates \<leftarrow> hm_get (tc_domains c) domain;
     entry \<leftarrow> hm_get templates tid;
     if now - sent_at entry < tc_timeout c then Some (e_fields entry) else None
   })"

definition cache_contains_key :: "'f template_cache \<Rightarrow> nat \<Rightarrow> template_key \<Rightarrow> bool" where
  "cache_contains_key c now key \<longleftrightarrow> cache_get c now key \<noteq> None"

definition cache_fits :: "'f template_cache \<Rightarrow> template_key \<Rightarrow> 'f list \<Rightarrow> bool" where
  "cache_fits c key fs = (case key of (domain, tid) \<Rightarrow>
     (let replaced = (case hm_get (tc_domains c) domain \<bind> (\<lambda>templates. hm_get templates tid) of
                        None \<Rightarrow> 0 | Some entry \<Rightarrow> length (e_fields entry))
      in tc_fields c - replaced + length fs \<le> MAX_TEMPLATE_FIELDS))"

definition min_option :: "nat list \<Rightarrow> nat option" where
  "min_option xs = (if xs = [] then None else Some (min_list xs))"

definition cache_entries :: "(u32, (u16, 'f entry) hashmap) hashmap \<Rightarrow> 'f entry list" where
  "cache_entries ds = concat (map hm_values (hm_values ds))"

definition cache_remove_expired :: "nat \<Rightarrow> 'f template_cache \<Rightarrow> 'f template_cache" where
  "cache_remove_expired now c =
     (let timeout = tc_timeout c;
          ds = hm_retain (\<lambda>_ templates.
                 let templates = hm_retain (\<lambda>_ entry. (entry, now - sent_at entry < timeout)) templates
                 in (templates, templates \<noteq> [])) (tc_domains c)
      in c\<lparr>tc_domains := ds,
           tc_fields := sum_list (map (\<lambda>entry. length (e_fields entry)) (cache_entries ds)),
           tc_next_expiry := min_option (map (\<lambda>entry. sent_at entry + timeout) (cache_entries ds)),
           tc_next_sweep := now + timeout\<rparr>)"

definition cache_remove :: "template_key \<Rightarrow> 'f template_cache \<Rightarrow> 'f template_cache" where
  "cache_remove key c = (case key of (domain, tid) \<Rightarrow>
     (case hm_get (tc_domains c) domain of
        None \<Rightarrow> c
      | Some templates \<Rightarrow>
          (let removed = hm_get templates tid;
               templates = hm_remove tid templates;
               fields = (case removed of
                           None \<Rightarrow> tc_fields c
                         | Some entry \<Rightarrow> tc_fields c - length (e_fields entry))
           in c\<lparr>tc_domains := (if templates = [] then hm_remove domain (tc_domains c)
                               else hm_insert domain templates (tc_domains c)),
                tc_fields := fields\<rparr>)))"

definition cache_refuse :: "template_key \<Rightarrow> 'f template_cache \<Rightarrow> 'f template_cache" where
  "cache_refuse key c =
     cache_remove key (if tc_refusing c then c else c\<lparr>tc_refusing := True\<rparr>)"

text \<open>The tail of \<^verbatim>\<open>insert\<close>, once the template is known to fit.\<close>

definition cache_store :: "nat \<Rightarrow> template_key \<Rightarrow> 'f list \<Rightarrow> 'f template_cache \<Rightarrow> 'f template_cache" where
  "cache_store now key fs c = (case key of (domain, tid) \<Rightarrow>
     (let grown = tc_fields c + length fs;
          templates = (case hm_get (tc_domains c) domain of None \<Rightarrow> hm_empty | Some t \<Rightarrow> t);
          replaced = hm_get templates tid;
          templates = hm_insert tid \<lparr>e_fields = fs, sent_at = now\<rparr> templates;
          expiry = now + tc_timeout c
      in c\<lparr>tc_domains := hm_insert domain templates (tc_domains c),
           tc_fields := (case replaced of None \<Rightarrow> grown | Some e \<Rightarrow> grown - length (e_fields e)),
           tc_refusing := (case replaced of None \<Rightarrow> False | Some _ \<Rightarrow> tc_refusing c),
           tc_next_expiry := Some (case tc_next_expiry c of None \<Rightarrow> expiry
                                   | Some next \<Rightarrow> min next expiry)\<rparr>))"

definition cache_insert :: "nat \<Rightarrow> template_key \<Rightarrow> 'f list \<Rightarrow> 'f template_cache \<Rightarrow> 'f template_cache" where
  "cache_insert now key fs c =
     (let c = (if now \<ge> tc_next_sweep c then cache_remove_expired now c else c)
      in if \<not> cache_fits c key fs then
           (let c = (if (case tc_next_expiry c of None \<Rightarrow> False | Some expiry \<Rightarrow> now \<ge> expiry)
                     then cache_remove_expired now c else c)
            in if \<not> cache_fits c key fs then cache_refuse key c
               else cache_store now key fs c)
         else cache_store now key fs c)"

definition cache_remove_domain :: "u32 \<Rightarrow> 'f template_cache \<Rightarrow> 'f template_cache" where
  "cache_remove_domain domain c =
     (case hm_get (tc_domains c) domain of
        None \<Rightarrow> c
      | Some templates \<Rightarrow>
          c\<lparr>tc_domains := hm_remove domain (tc_domains c),
            tc_fields := tc_fields c -
              sum_list (map (\<lambda>entry. length (e_fields entry)) (hm_values templates))\<rparr>)"

text \<open>The loop of \<^verbatim>\<open>refresh_domain\<close> over \<^verbatim>\<open>values_mut\<close>, with the running field count.\<close>

fun refresh_entries ::
    "('f list \<Rightarrow> 'f list) \<Rightarrow> nat \<Rightarrow> (u16, 'f entry) hashmap \<Rightarrow> nat \<times> (u16, 'f entry) hashmap" where
  "refresh_entries resolve n [] = (n, [])"
| "refresh_entries resolve n ((tid, entry) # rest) =
     (let fs = resolve (e_fields entry);
          n = n - length (e_fields entry) + length fs;
          (n, rest) = refresh_entries resolve n rest
      in (n, (tid, entry\<lparr>e_fields := fs\<rparr>) # rest))"

definition cache_refresh_domain ::
    "u32 \<Rightarrow> ('f list \<Rightarrow> 'f list) \<Rightarrow> 'f template_cache \<Rightarrow> 'f template_cache" where
  "cache_refresh_domain domain resolve c =
     (case hm_get (tc_domains c) domain of
        None \<Rightarrow> c
      | Some templates \<Rightarrow>
          (let (n, templates) = refresh_entries resolve (tc_fields c) templates
           in c\<lparr>tc_domains := hm_insert domain templates (tc_domains c), tc_fields := n\<rparr>))"

definition cache_len :: "'f template_cache \<Rightarrow> nat" where
  "cache_len c = sum_list (map length (hm_values (tc_domains c)))"

definition cache_is_empty :: "'f template_cache \<Rightarrow> bool" where
  "cache_is_empty c \<longleftrightarrow> tc_domains c = []"

section \<open>Views and invariant\<close>

text \<open>The entry a key has, expired or not; and the fields of all of them.\<close>

definition cache_entry :: "'f template_cache \<Rightarrow> template_key \<Rightarrow> 'f entry option" where
  "cache_entry c key = hm_get (tc_domains c) (fst key) \<bind> (\<lambda>templates. hm_get templates (snd key))"

definition templates_fields :: "(u16, 'f entry) hashmap \<Rightarrow> nat" where
  "templates_fields ts = sum_list (map (\<lambda>e. length (e_fields e)) (hm_values ts))"

definition domains_fields :: "(u32, (u16, 'f entry) hashmap) hashmap \<Rightarrow> nat" where
  "domains_fields ds = sum_list (map templates_fields (hm_values ds))"

definition domains_ok :: "(u32, (u16, 'f entry) hashmap) hashmap \<Rightarrow> bool" where
  "domains_ok ds \<longleftrightarrow> hm_ok ds \<and> (\<forall>d ts. hm_get ds d = Some ts \<longrightarrow> hm_ok ts \<and> ts \<noteq> [])"

text \<open>
  What every operation keeps: the maps are well formed with no empty domain, the field count is
  exact and within the budget, and the recorded expiry is a lower bound of the entries'.
\<close>

definition cache_ok :: "'f template_cache \<Rightarrow> bool" where
  "cache_ok c \<longleftrightarrow>
     domains_ok (tc_domains c) \<and>
     tc_fields c = domains_fields (tc_domains c) \<and>
     tc_fields c \<le> MAX_TEMPLATE_FIELDS \<and>
     (\<forall>key e. cache_entry c key = Some e \<longrightarrow>
        (\<exists>x. tc_next_expiry c = Some x \<and> x \<le> sent_at e + tc_timeout c))"

text \<open>What holds of a cache whose operations so far happened at or before \<open>now\<close>.\<close>

definition cache_timely :: "nat \<Rightarrow> 'f template_cache \<Rightarrow> bool" where
  "cache_timely now c \<longleftrightarrow>
     tc_next_sweep c \<le> now + tc_timeout c \<and>
     (\<forall>key e. cache_entry c key = Some e \<longrightarrow>
        sent_at e \<le> now \<and> tc_next_sweep c \<le> sent_at e + 2 * tc_timeout c)"

text \<open>
  The cache as a state machine: its state with the clock, which only moves forward. A refresh
  keeps the number of fields, as the parsers' \<open>resolve\<close> closures do.
\<close>

inductive cache_step :: "nat \<times> 'f template_cache \<Rightarrow> nat \<times> 'f template_cache \<Rightarrow> bool" where
  tick: "now \<le> now' \<Longrightarrow> cache_step (now, c) (now', c)"
| insert: "cache_step (now, c) (now, cache_insert now key fs c)"
| remove: "cache_step (now, c) (now, cache_remove key c)"
| remove_domain: "cache_step (now, c) (now, cache_remove_domain d c)"
| refresh: "(\<And>fs. length (resolve fs) = length fs) \<Longrightarrow>
    cache_step (now, c) (now, cache_refresh_domain d resolve c)"

inductive cache_reachable :: "nat \<Rightarrow> nat \<Rightarrow> 'f template_cache \<Rightarrow> bool" for timeout where
  new: "cache_reachable timeout now (cache_new now timeout)"
| step: "cache_reachable timeout now c \<Longrightarrow> cache_step (now, c) (now', c') \<Longrightarrow>
    cache_reachable timeout now' c'"

section \<open>What each operation does to the entries\<close>

lemma cache_get_entry:
  "cache_get c now key = cache_entry c key \<bind>
     (\<lambda>e. if now - sent_at e < tc_timeout c then Some (e_fields e) else None)"
  by (simp add: cache_get_def cache_entry_def case_prod_beta)

lemma cache_fits_entry:
  "cache_fits c key fs \<longleftrightarrow>
     tc_fields c - (case cache_entry c key of None \<Rightarrow> 0 | Some e \<Rightarrow> length (e_fields e)) + length fs
       \<le> MAX_TEMPLATE_FIELDS"
  by (simp add: cache_fits_def cache_entry_def case_prod_beta)

lemma cache_entry_store:
  "cache_entry (cache_store now key fs c) key' =
     (if key' = key then Some \<lparr>e_fields = fs, sent_at = now\<rparr> else cache_entry c key')"
  by (cases key; cases key')
    (auto simp: cache_store_def cache_entry_def Let_def hm_laws split: option.splits)

lemma cache_entry_remove:
  "cache_entry (cache_remove key c) key' = (if key' = key then None else cache_entry c key')"
proof (cases key)
  case (Pair d t)
  show ?thesis
  proof (cases "hm_get (tc_domains c) d")
    case None
    then show ?thesis
      by (auto simp: Pair cache_remove_def cache_entry_def)
  next
    case (Some ts)
    then show ?thesis
      by (cases key') (auto simp: Pair cache_remove_def cache_entry_def Let_def hm_laws
          dest: hm_remove_NilD)
  qed
qed

lemma cache_entry_refuse:
  "cache_entry (cache_refuse key c) key' = (if key' = key then None else cache_entry c key')"
  by (simp add: cache_refuse_def cache_entry_remove) (simp add: cache_entry_def)

lemma cache_entry_remove_domain:
  "cache_entry (cache_remove_domain d c) key = (if fst key = d then None else cache_entry c key)"
  by (auto simp: cache_remove_domain_def cache_entry_def hm_laws split: option.splits)

lemma cache_entry_remove_expired:
  assumes "domains_ok (tc_domains c)"
  shows "cache_entry (cache_remove_expired now c) key = cache_entry c key \<bind>
     (\<lambda>e. if now - sent_at e < tc_timeout c then Some e else None)"
proof (cases "hm_get (tc_domains c) (fst key)")
  case None
  with assms show ?thesis
    by (simp add: cache_remove_expired_def cache_entry_def Let_def domains_ok_def hm_laws)
next
  case (Some ts)
  with assms have "hm_ok (tc_domains c)" and "hm_ok ts"
    by (auto simp: domains_ok_def)
  with Some show ?thesis
    by (auto simp: cache_remove_expired_def cache_entry_def Let_def hm_laws
        split: option.splits dest: hm_retain_NilD)
qed

lemma refresh_entries_snd:
  "snd (refresh_entries resolve n ts) = hm_values_mut (\<lambda>e. e\<lparr>e_fields := resolve (e_fields e)\<rparr>) ts"
  by (induction resolve n ts rule: refresh_entries.induct)
    (auto simp: hm_values_mut_def Let_def case_prod_beta)

lemma cache_entry_refresh_domain:
  "cache_entry (cache_refresh_domain d resolve c) key =
     (if fst key = d
      then map_option (\<lambda>e. e\<lparr>e_fields := resolve (e_fields e)\<rparr>) (cache_entry c key)
      else cache_entry c key)"
  by (auto simp: cache_refresh_domain_def cache_entry_def case_prod_beta Let_def hm_laws
      refresh_entries_snd split: option.splits)

lemmas cache_entry_simps = cache_entry_store cache_entry_remove cache_entry_refuse
  cache_entry_remove_domain cache_entry_remove_expired cache_entry_refresh_domain

lemma cache_timeout_simps [simp]:
  "tc_timeout (cache_new now t) = t"
  "tc_timeout (cache_store now key fs c) = tc_timeout c"
  "tc_timeout (cache_remove key c) = tc_timeout c"
  "tc_timeout (cache_refuse key c) = tc_timeout c"
  "tc_timeout (cache_remove_domain d c) = tc_timeout c"
  "tc_timeout (cache_remove_expired now c) = tc_timeout c"
  "tc_timeout (cache_refresh_domain d resolve c) = tc_timeout c"
  by (auto simp: cache_new_def cache_store_def cache_remove_def cache_refuse_def
      cache_remove_domain_def cache_remove_expired_def cache_refresh_domain_def Let_def
      split: option.splits prod.splits)

lemma cache_insert_timeout [simp]: "tc_timeout (cache_insert now key fs c) = tc_timeout c"
  by (simp add: cache_insert_def Let_def)

section \<open>Field accounting\<close>

lemma entries_fields:
  "sum_list (map (\<lambda>e. length (e_fields e)) (cache_entries ds)) = domains_fields ds"
  by (induction ds) (auto simp: cache_entries_def domains_fields_def templates_fields_def hm_values_def)

lemma templates_fields_insert:
  "hm_ok ts \<Longrightarrow> templates_fields (hm_insert t e ts) +
     (case hm_get ts t of None \<Rightarrow> 0 | Some e' \<Rightarrow> length (e_fields e')) =
   templates_fields ts + length (e_fields e)"
  unfolding templates_fields_def by (rule hm.vals_sum_ins)

lemma templates_fields_remove:
  "hm_ok ts \<Longrightarrow> templates_fields (hm_remove t ts) +
     (case hm_get ts t of None \<Rightarrow> 0 | Some e' \<Rightarrow> length (e_fields e')) = templates_fields ts"
  unfolding templates_fields_def by (rule hm.vals_sum_rem)

lemma domains_fields_insert:
  "hm_ok ds \<Longrightarrow> domains_fields (hm_insert d ts ds) +
     (case hm_get ds d of None \<Rightarrow> 0 | Some ts' \<Rightarrow> templates_fields ts') =
   domains_fields ds + templates_fields ts"
  unfolding domains_fields_def by (rule hm.vals_sum_ins)

lemma domains_fields_remove:
  "hm_ok ds \<Longrightarrow> domains_fields (hm_remove d ds) +
     (case hm_get ds d of None \<Rightarrow> 0 | Some ts' \<Rightarrow> templates_fields ts') = domains_fields ds"
  unfolding domains_fields_def by (rule hm.vals_sum_rem)

lemma templates_fields_le: "hm_ok ds \<Longrightarrow> hm_get ds d = Some ts \<Longrightarrow> templates_fields ts \<le> domains_fields ds"
  unfolding domains_fields_def by (rule hm.get_le_vals_sum)

lemma entry_fields_le:
  "hm_ok ts \<Longrightarrow> hm_get ts t = Some e \<Longrightarrow> length (e_fields e) \<le> templates_fields ts"
  unfolding templates_fields_def by (rule hm.get_le_vals_sum)

lemma templates_fields_empty [simp]: "templates_fields hm_empty = 0" "templates_fields [] = 0"
  by (simp_all add: templates_fields_def hm_values_def hm_empty_def)

lemma templates_fields_filter:
  "templates_fields (hm_retain (\<lambda>t e. (e, P t e)) ts) \<le> templates_fields ts"
  by (induction ts)
    (auto simp: templates_fields_def hm_values_def hm_retain_def)

lemma domains_fields_retain:
  assumes "\<And>d ts. templates_fields (fst (f d ts)) \<le> templates_fields ts"
  shows "domains_fields (hm_retain f ds) \<le> domains_fields ds"
proof (induction ds)
  case (Cons kv ds)
  obtain d ts where kv: "kv = (d, ts)" by force
  show ?case
    using Cons.IH assms [of d ts]
    by (simp add: kv domains_fields_def hm_values_def hm_retain_def)
qed (simp add: domains_fields_def hm_values_def hm_retain_def)

lemma refresh_entries_count:
  assumes "\<And>fs. length (resolve fs) = length fs" and "templates_fields ts \<le> n"
  shows "fst (refresh_entries resolve n ts) = n"
  using assms
  by (induction resolve n ts rule: refresh_entries.induct)
    (auto simp: templates_fields_def hm_values_def Let_def case_prod_beta)

lemma templates_fields_values_mut:
  assumes "\<And>fs. length (resolve fs) = length fs"
  shows "templates_fields (hm_values_mut (\<lambda>e. e\<lparr>e_fields := resolve (e_fields e)\<rparr>) ts) =
    templates_fields ts"
  by (simp add: templates_fields_def hm_values_values_mut assms comp_def)

section \<open>The invariant is kept\<close>

lemma domains_okD:
  assumes "domains_ok ds"
  shows "hm_ok ds" "hm_get ds d = Some ts \<Longrightarrow> hm_ok ts" "hm_get ds d = Some ts \<Longrightarrow> ts \<noteq> []"
  using assms by (auto simp: domains_ok_def)

lemma domains_ok_insert: "domains_ok ds \<Longrightarrow> hm_ok ts \<Longrightarrow> ts \<noteq> [] \<Longrightarrow> domains_ok (hm_insert d ts ds)"
  by (auto simp: domains_ok_def hm_laws split: if_splits)

lemma domains_ok_remove: "domains_ok ds \<Longrightarrow> domains_ok (hm_remove d ds)"
  by (auto simp: domains_ok_def hm_laws split: if_splits)

lemma cache_okD:
  assumes "cache_ok c"
  shows "domains_ok (tc_domains c)" "tc_fields c = domains_fields (tc_domains c)"
    "tc_fields c \<le> MAX_TEMPLATE_FIELDS"
    "cache_entry c key = Some e \<Longrightarrow> \<exists>x. tc_next_expiry c = Some x \<and> x \<le> sent_at e + tc_timeout c"
  using assms unfolding cache_ok_def by blast+

lemma cache_okI:
  assumes "domains_ok (tc_domains c)" "tc_fields c = domains_fields (tc_domains c)"
    "tc_fields c \<le> MAX_TEMPLATE_FIELDS"
    "\<And>key e. cache_entry c key = Some e \<Longrightarrow>
       \<exists>x. tc_next_expiry c = Some x \<and> x \<le> sent_at e + tc_timeout c"
  shows "cache_ok c"
  using assms by (simp add: cache_ok_def)

lemma cache_ok_new: "cache_ok (cache_new now timeout)"
  by (rule cache_okI)
    (auto simp: cache_new_def domains_ok_def domains_fields_def hm_values_def hm_empty_def
      hm_ok_def hm_get_def cache_entry_def)

lemma cache_entriesI:
  assumes "domains_ok (tc_domains c)" and "cache_entry c key = Some e"
  shows "e \<in> set (cache_entries (tc_domains c))"
proof -
  from assms(2) obtain ts where ts: "hm_get (tc_domains c) (fst key) = Some ts"
    and e: "hm_get ts (snd key) = Some e"
    by (auto simp: cache_entry_def bind_eq_Some_conv)
  with domains_okD [OF assms(1)] have "ts \<in> set (hm_values (tc_domains c))" and "e \<in> set (hm_values ts)"
    by (auto simp: hm.vals_iff)
  then show ?thesis
    by (auto simp: cache_entries_def)
qed

lemma cache_ok_remove_expired:
  assumes "cache_ok c"
  shows "cache_ok (cache_remove_expired now c)"
proof -
  let ?ds = "tc_domains (cache_remove_expired now c)"
  note c = cache_okD [OF assms]
  have ds: "domains_ok ?ds"
    using domains_okD [OF c(1)]
    by (auto simp: domains_ok_def cache_remove_expired_def Let_def hm_laws
        split: option.splits if_splits)
  have fields: "tc_fields (cache_remove_expired now c) = domains_fields ?ds"
    by (simp add: cache_remove_expired_def Let_def entries_fields)
  have "domains_fields ?ds \<le> domains_fields (tc_domains c)"
    by (auto simp: cache_remove_expired_def Let_def intro!: domains_fields_retain
        templates_fields_filter)
  with c fields have budget: "tc_fields (cache_remove_expired now c) \<le> MAX_TEMPLATE_FIELDS"
    by simp
  have "\<exists>x. tc_next_expiry (cache_remove_expired now c) = Some x \<and> x \<le> sent_at e + tc_timeout c"
    if "cache_entry (cache_remove_expired now c) key = Some e" for key e
  proof -
    from that have "e \<in> set (cache_entries ?ds)"
      using ds by (rule cache_entriesI [rotated])
    then show ?thesis
      by (auto simp: cache_remove_expired_def Let_def min_option_def min_list_Min)
  qed
  with ds fields budget show ?thesis
    by (intro cache_okI) simp_all
qed

lemma cache_ok_refusing [simp]: "cache_ok (c\<lparr>tc_refusing := b\<rparr>) = cache_ok c"
  by (simp add: cache_ok_def cache_entry_def)

lemma cache_ok_shrink:
  assumes "cache_ok c" and "domains_ok (tc_domains c')"
    and "tc_fields c' = domains_fields (tc_domains c')" and "tc_fields c' \<le> tc_fields c"
    and "tc_timeout c' = tc_timeout c" and "tc_next_expiry c' = tc_next_expiry c"
    and "\<And>key e. cache_entry c' key = Some e \<Longrightarrow> \<exists>e0. cache_entry c key = Some e0 \<and> sent_at e0 = sent_at e"
  shows "cache_ok c'"
proof (rule cache_okI)
  show "\<exists>x. tc_next_expiry c' = Some x \<and> x \<le> sent_at e + tc_timeout c'"
    if "cache_entry c' key = Some e" for key e
    using assms(5-7) that cache_okD(4) [OF assms(1), of key] by fastforce
qed (use assms cache_okD [OF assms(1)] in simp_all)

lemma cache_ok_remove:
  assumes "cache_ok c"
  shows "cache_ok (cache_remove key c)"
proof (cases "hm_get (tc_domains c) (fst key)")
  case None
  with assms show ?thesis
    by (simp add: cache_remove_def case_prod_beta)
next
  case (Some ts)
  note c = cache_okD [OF assms]
  note ts = domains_okD(1) [OF c(1)] domains_okD(2) [OF c(1) Some]
  let ?rest = "hm_remove (snd key) ts"
  let ?old = "case hm_get ts (snd key) of None \<Rightarrow> 0 | Some e \<Rightarrow> length (e_fields e)"
  have rest: "templates_fields ?rest + ?old = templates_fields ts"
    using ts(2) by (rule templates_fields_remove)
  have le: "templates_fields ts \<le> tc_fields c"
    using templates_fields_le [OF ts(1) Some] c by simp
  have doms: "tc_domains (cache_remove key c) =
      (if ?rest = [] then hm_remove (fst key) (tc_domains c) else hm_insert (fst key) ?rest (tc_domains c))"
    and fields: "tc_fields (cache_remove key c) = tc_fields c - ?old"
    and exp: "tc_next_expiry (cache_remove key c) = tc_next_expiry c"
    using Some by (auto simp: cache_remove_def case_prod_beta Let_def split: option.splits)
  have "domains_ok (tc_domains (cache_remove key c))"
    using c(1) ts by (auto simp: doms intro: domains_ok_insert domains_ok_remove hm.ok_rem)
  moreover have "tc_fields (cache_remove key c) = domains_fields (tc_domains (cache_remove key c))"
    using domains_fields_remove [OF ts(1), of "fst key"]
      domains_fields_insert [OF ts(1), of "fst key" ?rest] rest le c Some
    by (auto simp: doms fields)
  ultimately show ?thesis
    by (rule cache_ok_shrink [OF assms]) (auto simp: fields exp cache_entry_simps split: if_splits)
qed

lemma cache_ok_refuse: "cache_ok c \<Longrightarrow> cache_ok (cache_refuse key c)"
  by (simp add: cache_refuse_def cache_ok_remove)

lemma cache_ok_remove_domain:
  assumes "cache_ok c"
  shows "cache_ok (cache_remove_domain d c)"
proof (cases "hm_get (tc_domains c) d")
  case None
  with assms show ?thesis
    by (simp add: cache_remove_domain_def)
next
  case (Some ts)
  note c = cache_okD [OF assms]
  note ds = domains_okD(1) [OF c(1)]
  have doms: "tc_domains (cache_remove_domain d c) = hm_remove d (tc_domains c)"
    and fields: "tc_fields (cache_remove_domain d c) = tc_fields c - templates_fields ts"
    and exp: "tc_next_expiry (cache_remove_domain d c) = tc_next_expiry c"
    using Some by (simp_all add: cache_remove_domain_def templates_fields_def)
  have "domains_ok (tc_domains (cache_remove_domain d c))"
    using c(1) by (simp add: doms domains_ok_remove)
  moreover have "tc_fields (cache_remove_domain d c) = domains_fields (tc_domains (cache_remove_domain d c))"
    using domains_fields_remove [OF ds, of d] Some c by (simp add: doms fields)
  ultimately show ?thesis
    by (rule cache_ok_shrink [OF assms]) (auto simp: fields exp cache_entry_simps split: if_splits)
qed

lemma cache_ok_refresh_domain:
  assumes "cache_ok c" and len: "\<And>fs. length (resolve fs) = length fs"
  shows "cache_ok (cache_refresh_domain d resolve c)"
proof (cases "hm_get (tc_domains c) d")
  case None
  with assms show ?thesis
    by (simp add: cache_refresh_domain_def)
next
  case (Some ts)
  note c = cache_okD [OF assms(1)]
  note ts = domains_okD(1) [OF c(1)] domains_okD(2,3) [OF c(1) Some]
  let ?ts = "hm_values_mut (\<lambda>e. e\<lparr>e_fields := resolve (e_fields e)\<rparr>) ts"
  have le: "templates_fields ts \<le> tc_fields c"
    using templates_fields_le [OF ts(1) Some] c by simp
  have doms: "tc_domains (cache_refresh_domain d resolve c) = hm_insert d ?ts (tc_domains c)"
    and fields: "tc_fields (cache_refresh_domain d resolve c) = tc_fields c"
    and exp: "tc_next_expiry (cache_refresh_domain d resolve c) = tc_next_expiry c"
    using Some refresh_entries_count [OF len le]
    by (simp_all add: cache_refresh_domain_def case_prod_beta Let_def refresh_entries_snd)
  have "?ts \<noteq> []"
    using ts by (simp add: hm_values_mut_def)
  then have "domains_ok (tc_domains (cache_refresh_domain d resolve c))"
    using c(1) ts by (simp add: doms domains_ok_insert)
  moreover have "tc_fields (cache_refresh_domain d resolve c) =
      domains_fields (tc_domains (cache_refresh_domain d resolve c))"
    using domains_fields_insert [OF ts(1), of d ?ts] Some c
    by (simp add: doms fields templates_fields_values_mut [OF len])
  ultimately show ?thesis
    by (rule cache_ok_shrink [OF assms(1)]) (auto simp: fields exp cache_entry_simps split: if_splits)
qed

lemma cache_ok_store:
  assumes "cache_ok c" and "cache_fits c key fs"
  shows "cache_ok (cache_store now key fs c)"
proof -
  note c = cache_okD [OF assms(1)]
  note ds = domains_okD(1) [OF c(1)]
  define ts where "ts = (case hm_get (tc_domains c) (fst key) of None \<Rightarrow> hm_empty | Some t \<Rightarrow> t)"
  let ?e = "\<lparr>e_fields = fs, sent_at = now\<rparr>"
  let ?old = "case cache_entry c key of None \<Rightarrow> 0 | Some e \<Rightarrow> length (e_fields e)"
  have ts: "hm_ok ts"
    using domains_okD(2) [OF c(1)] by (auto simp: ts_def hm_laws split: option.splits)
  have old: "cache_entry c key = hm_get ts (snd key)"
    by (auto simp: ts_def cache_entry_def hm_laws split: option.splits)
  have tsf: "(case hm_get (tc_domains c) (fst key) of None \<Rightarrow> 0 | Some t \<Rightarrow> templates_fields t) =
      templates_fields ts"
    by (simp add: ts_def split: option.splits)
  have doms: "tc_domains (cache_store now key fs c) =
      hm_insert (fst key) (hm_insert (snd key) ?e ts) (tc_domains c)"
    and fields: "tc_fields (cache_store now key fs c) = tc_fields c + length fs - ?old"
    and exp: "tc_next_expiry (cache_store now key fs c) =
      Some (case tc_next_expiry c of None \<Rightarrow> now + tc_timeout c | Some x \<Rightarrow> min x (now + tc_timeout c))"
    by (auto simp: cache_store_def case_prod_beta Let_def old ts_def split: option.splits)
  have "domains_ok (tc_domains (cache_store now key fs c))"
    using c(1) ts by (simp add: doms domains_ok_insert hm.ok_ins)
  moreover have "tc_fields (cache_store now key fs c) =
      domains_fields (tc_domains (cache_store now key fs c))"
    using domains_fields_insert [OF ds, of "fst key" "hm_insert (snd key) ?e ts"]
      templates_fields_insert [OF ts, of "snd key" ?e] c
    by (simp add: doms fields old tsf)
  moreover have "tc_fields (cache_store now key fs c) \<le> MAX_TEMPLATE_FIELDS"
    using assms(2) by (simp add: fields cache_fits_entry)
  moreover have "\<exists>x. tc_next_expiry (cache_store now key fs c) = Some x \<and> x \<le> sent_at e + tc_timeout c"
    if "cache_entry (cache_store now key fs c) key' = Some e" for key' e
    using that c(4) [of key' e]
    by (auto simp: exp cache_entry_store split: if_splits option.splits)
  ultimately show ?thesis
    by (intro cache_okI) simp_all
qed

lemmas cache_ok_intros = cache_ok_new cache_ok_remove_expired cache_ok_remove cache_ok_refuse
  cache_ok_remove_domain cache_ok_refresh_domain cache_ok_store

lemma cache_ok_insert: "cache_ok c \<Longrightarrow> cache_ok (cache_insert now key fs c)"
  by (auto simp: cache_insert_def Let_def intro: cache_ok_intros)

section \<open>Time\<close>

lemma cache_timely_later: "cache_timely now c \<Longrightarrow> now \<le> now' \<Longrightarrow> cache_timely now' c"
  unfolding cache_timely_def by (meson add_le_mono1 le_trans)

lemma cache_timely_new: "cache_timely now (cache_new now timeout)"
  by (simp add: cache_timely_def cache_new_def cache_entry_def hm_empty_def)

lemma cache_timely_sub:
  assumes "cache_timely now c" and "tc_timeout c' = tc_timeout c"
    and "tc_next_sweep c' = tc_next_sweep c"
    and "\<And>key e. cache_entry c' key = Some e \<Longrightarrow>
      sent_at e = now \<or> (\<exists>e0. cache_entry c key = Some e0 \<and> sent_at e0 = sent_at e)"
  shows "cache_timely now c'"
  unfolding cache_timely_def
proof (intro conjI allI impI)
  note c = assms(1) [unfolded cache_timely_def]
  from c assms(2,3) show sweep: "tc_next_sweep c' \<le> now + tc_timeout c'" by simp
  fix key e
  assume "cache_entry c' key = Some e"
  then consider "sent_at e = now" | e0 where "cache_entry c key = Some e0" "sent_at e0 = sent_at e"
    using assms(4) by blast
  then have "sent_at e \<le> now \<and> tc_next_sweep c' \<le> sent_at e + 2 * tc_timeout c'"
  proof cases
    case 1
    with sweep show ?thesis by simp
  next
    case 2
    with c have "sent_at e0 \<le> now \<and> tc_next_sweep c \<le> sent_at e0 + 2 * tc_timeout c" by blast
    with 2 assms(2,3) show ?thesis by simp
  qed
  then show "sent_at e \<le> now" and "tc_next_sweep c' \<le> sent_at e + 2 * tc_timeout c'"
    by simp_all
qed

lemma cache_next_sweep_simps [simp]:
  "tc_next_sweep (cache_store now key fs c) = tc_next_sweep c"
  "tc_next_sweep (cache_remove key c) = tc_next_sweep c"
  "tc_next_sweep (cache_refuse key c) = tc_next_sweep c"
  "tc_next_sweep (cache_remove_domain d c) = tc_next_sweep c"
  "tc_next_sweep (cache_refresh_domain d resolve c) = tc_next_sweep c"
  "tc_next_sweep (cache_remove_expired now c) = now + tc_timeout c"
  by (auto simp: cache_store_def cache_remove_def cache_refuse_def cache_remove_domain_def
      cache_refresh_domain_def cache_remove_expired_def Let_def split: option.splits prod.splits)

lemma cache_timely_remove_expired:
  assumes "cache_timely now c" and "cache_ok c"
  shows "cache_timely now (cache_remove_expired now c)"
  using assms cache_okD(1) [OF assms(2)]
  by (auto simp: cache_timely_def cache_entry_simps bind_eq_Some_conv split: if_splits)

lemma cache_timely_intros:
  assumes "cache_timely now c"
  shows "cache_timely now (cache_store now key fs c)" "cache_timely now (cache_remove key c)"
    "cache_timely now (cache_refuse key c)" "cache_timely now (cache_remove_domain d c)"
    "cache_timely now (cache_refresh_domain d resolve c)"
  by (rule cache_timely_sub [OF assms]; auto simp: cache_entry_simps split: if_splits)+

lemma cache_timely_insert:
  "cache_timely now c \<Longrightarrow> cache_ok c \<Longrightarrow> cache_timely now (cache_insert now key fs c)"
  by (auto simp: cache_insert_def Let_def
      intro: cache_timely_intros cache_timely_remove_expired cache_ok_remove_expired)

lemma cache_step_ok:
  "cache_step s s' \<Longrightarrow> cache_ok (snd s) \<and> cache_timely (fst s) (snd s) \<Longrightarrow>
   cache_ok (snd s') \<and> cache_timely (fst s') (snd s') \<and> tc_timeout (snd s') = tc_timeout (snd s)"
  by (induction rule: cache_step.induct)
    (auto intro: cache_ok_intros cache_ok_insert cache_timely_later cache_timely_insert
      cache_timely_intros)

lemma cache_reachable_ok:
  "cache_reachable timeout now c \<Longrightarrow> cache_ok c \<and> cache_timely now c \<and> tc_timeout c = timeout"
proof (induction rule: cache_reachable.induct)
  case (new now)
  show ?case by (simp add: cache_ok_new cache_timely_new)
next
  case (step now c now' c')
  then show ?case using cache_step_ok by fastforce
qed

section \<open>What an insertion is worth to a reader\<close>

lemma dom_cache_entry:
  "dom (cache_entry c) = (SIGMA d:dom (hm_get (tc_domains c)). dom (hm_get (the (hm_get (tc_domains c) d))))"
  by (auto simp: cache_entry_def bind_eq_Some_conv)

lemma finite_cache_entry: "finite (dom (cache_entry c))"
  by (auto simp: dom_cache_entry intro!: finite_SigmaI hm.finite_dom)

lemma cache_fields_sum:
  assumes "cache_ok c"
  shows "tc_fields c = (\<Sum>key\<in>dom (cache_entry c). length (e_fields (the (cache_entry c key))))"
proof -
  note c = cache_okD [OF assms]
  let ?ds = "tc_domains c"
  have "domains_fields ?ds = (\<Sum>d\<in>dom (hm_get ?ds). templates_fields (the (hm_get ?ds d)))"
    unfolding domains_fields_def by (rule hm.vals_sum [OF domains_okD(1) [OF c(1)]])
  also have "\<dots> = (\<Sum>d\<in>dom (hm_get ?ds). \<Sum>t\<in>dom (hm_get (the (hm_get ?ds d))).
      length (e_fields (the (hm_get (the (hm_get ?ds d)) t))))"
    using domains_okD(2) [OF c(1)]
    by (intro sum.cong refl) (auto simp: templates_fields_def intro!: hm.vals_sum)
  also have "\<dots> = (\<Sum>(d, t)\<in>dom (cache_entry c).
      length (e_fields (the (hm_get (the (hm_get ?ds d)) t))))"
    unfolding dom_cache_entry by (rule sum.Sigma) (auto intro: hm.finite_dom)
  also have "\<dots> = (\<Sum>key\<in>dom (cache_entry c). length (e_fields (the (cache_entry c key))))"
    by (intro sum.cong refl) (auto simp: cache_entry_def bind_eq_Some_conv)
  finally show ?thesis using c by simp
qed

text \<open>The budget check compares the new template with the fields held for the other keys.\<close>

lemma cache_fits_others:
  assumes "cache_ok c"
  shows "cache_fits c key fs \<longleftrightarrow>
    (\<Sum>k\<in>dom (cache_entry c) - {key}. length (e_fields (the (cache_entry c k)))) + length fs
      \<le> MAX_TEMPLATE_FIELDS"
proof (cases "cache_entry c key")
  case None
  then have "dom (cache_entry c) - {key} = dom (cache_entry c)"
    by (auto simp: domIff)
  with None show ?thesis
    by (simp add: cache_fits_entry cache_fields_sum [OF assms])
next
  case (Some e)
  then have "key \<in> dom (cache_entry c)" by (simp add: domIff)
  with Some show ?thesis
    by (simp add: cache_fits_entry cache_fields_sum [OF assms] sum.remove [OF finite_cache_entry])
qed

lemma cache_fits_after_expiry:
  assumes "cache_ok c" and "cache_fits c key fs"
  shows "cache_fits (cache_remove_expired now c) key fs"
proof -
  let ?c = "cache_remove_expired now c"
  have entry: "cache_entry c k = Some e" if "cache_entry ?c k = Some e" for k e
    using that cache_okD(1) [OF assms(1)]
    by (auto simp: cache_entry_simps bind_eq_Some_conv split: if_splits)
  then have "(\<Sum>k\<in>dom (cache_entry ?c) - {key}. length (e_fields (the (cache_entry ?c k)))) =
      (\<Sum>k\<in>dom (cache_entry ?c) - {key}. length (e_fields (the (cache_entry c k))))"
    by (intro sum.cong) auto
  also have "\<dots> \<le> (\<Sum>k\<in>dom (cache_entry c) - {key}. length (e_fields (the (cache_entry c k))))"
    using entry by (intro sum_mono2) (auto simp: finite_cache_entry)
  finally show ?thesis
    using assms(2) cache_fits_others [OF assms(1)]
      cache_fits_others [OF cache_ok_remove_expired [OF assms(1)]] by fastforce
qed

lemma nothing_expired:
  assumes "cache_ok c" and "cache_timely now c"
    and "\<not> (case tc_next_expiry c of None \<Rightarrow> False | Some x \<Rightarrow> x \<le> now)"
  shows "cache_entry (cache_remove_expired now c) = cache_entry c"
proof
  fix key
  show "cache_entry (cache_remove_expired now c) key = cache_entry c key"
  proof (cases "cache_entry c key")
    case (Some e)
    with assms(3) have "now < sent_at e + tc_timeout c"
      using cache_okD(4) [OF assms(1) Some] by auto
    moreover have "sent_at e \<le> now"
      using Some assms(2) unfolding cache_timely_def by blast
    ultimately show ?thesis
      using Some cache_okD(1) [OF assms(1)] by (simp add: cache_entry_simps)
  qed (use cache_okD(1) [OF assms(1)] in \<open>simp add: cache_entry_simps\<close>)
qed

lemma cache_remove_expired_twice:
  assumes "cache_ok c"
  shows "cache_entry (cache_remove_expired now (cache_remove_expired now c)) =
    cache_entry (cache_remove_expired now c)"
proof
  fix key
  show "cache_entry (cache_remove_expired now (cache_remove_expired now c)) key =
      cache_entry (cache_remove_expired now c) key"
    using cache_okD(1) [OF assms] cache_okD(1) [OF cache_ok_remove_expired [OF assms, of now]]
    by (cases "cache_entry c key") (simp_all add: cache_entry_simps)
qed

lemma cache_fits_cong:
  "cache_ok c \<Longrightarrow> cache_ok c' \<Longrightarrow> cache_entry c = cache_entry c' \<Longrightarrow> cache_fits c key fs = cache_fits c' key fs"
  by (simp add: cache_fits_others)

text \<open>
  Which branch \<^verbatim>\<open>insert\<close> takes does not depend on when the last sweep was: it stores the template
  exactly when it fits beside the unexpired ones.
\<close>

lemma cache_insert_cases [case_names stored refused]:
  assumes "cache_ok c" and "cache_timely now c"
  obtains (stored) c' where "cache_fits (cache_remove_expired now c) key fs"
      "cache_insert now key fs c = cache_store now key fs c'"
      "c' = c \<or> (\<forall>k. cache_entry c' k = cache_entry (cache_remove_expired now c) k)"
      "tc_timeout c' = tc_timeout c"
    | (refused) c' where "\<not> cache_fits (cache_remove_expired now c) key fs"
      "cache_insert now key fs c = cache_refuse key c'"
      "c' = c \<or> (\<forall>k. cache_entry c' k = cache_entry (cache_remove_expired now c) k)"
      "tc_timeout c' = tc_timeout c"
proof -
  let ?sweep = "cache_remove_expired now"
  define c1 where "c1 = (if now \<ge> tc_next_sweep c then ?sweep c else c)"
  define c2 where "c2 = (if (case tc_next_expiry c1 of None \<Rightarrow> False | Some x \<Rightarrow> now \<ge> x)
    then ?sweep c1 else c1)"
  have ins: "cache_insert now key fs c =
      (if cache_fits c1 key fs then cache_store now key fs c1
       else if cache_fits c2 key fs then cache_store now key fs c2 else cache_refuse key c2)"
    by (simp add: cache_insert_def c1_def c2_def Let_def)
  have ok: "cache_ok c1" "cache_ok c2" "cache_ok (?sweep c)" and timely: "cache_timely now c1"
    using assms by (auto simp: c1_def c2_def intro: cache_ok_remove_expired cache_timely_remove_expired)
  have swept: "cache_entry (?sweep c1) = cache_entry (?sweep c)"
    using cache_remove_expired_twice [OF assms(1)] by (simp add: c1_def)
  have c2: "cache_entry c2 = cache_entry (?sweep c)"
    using swept nothing_expired [OF ok(1) timely] by (auto simp: c2_def split: if_splits)
  have fits2: "cache_fits c2 key fs = cache_fits (?sweep c) key fs"
    using ok(2,3) c2 by (rule cache_fits_cong)
  have fits1: "cache_fits (?sweep c) key fs" if "cache_fits c1 key fs"
    using cache_fits_after_expiry [OF ok(1) that, of now] swept
      cache_fits_cong [OF cache_ok_remove_expired [OF ok(1)] ok(3)] by blast
  have c1: "c1 = c \<or> (\<forall>k. cache_entry c1 k = cache_entry (?sweep c) k)"
    by (simp add: c1_def)
  have t: "tc_timeout c1 = tc_timeout c" "tc_timeout c2 = tc_timeout c"
    by (simp_all add: c1_def c2_def)
  show thesis
  proof (cases "cache_fits c1 key fs")
    case True
    then show thesis using fits1 ins c1 t by (intro stored [of c1]) simp_all
  next
    case False
    then show thesis
      using ins fits2 c2 t stored [of c2] refused [of c2] by (cases "cache_fits c2 key fs") simp_all
  qed
qed

lemma get_after_sweep:
  assumes "cache_ok c" and "now \<le> t"
    and "c' = c \<or> (\<forall>k. cache_entry c' k = cache_entry (cache_remove_expired now c) k)"
    and "tc_timeout c' = tc_timeout c"
  shows "cache_get c' t key = cache_get c t key"
proof -
  from assms(3) have "cache_entry c' key = cache_entry c key \<or>
      cache_entry c' key = cache_entry (cache_remove_expired now c) key"
    by blast
  then show ?thesis
    using assms(2,4) cache_okD(1) [OF assms(1)]
    by (cases "cache_entry c key") (auto simp: cache_get_entry cache_entry_simps)
qed

lemma cache_get_insert:
  assumes "cache_ok c" and "cache_timely now c" and "now \<le> t"
  shows "cache_get (cache_insert now key fs c) t key' =
    (if key' = key
     then (if cache_fits (cache_remove_expired now c) key fs \<and> t - now < tc_timeout c
           then Some fs else None)
     else cache_get c t key')"
  using assms(1,2)
proof (cases rule: cache_insert_cases [where key = key and fs = fs])
  case (stored c')
  then show ?thesis
    using get_after_sweep [OF assms(1,3) stored(3,4), of key']
    by (simp add: cache_get_entry cache_entry_store)
next
  case (refused c')
  then show ?thesis
    using get_after_sweep [OF assms(1,3) refused(3,4), of key']
    by (simp add: cache_get_entry cache_entry_refuse)
qed

lemma cache_get_remove:
  "cache_get (cache_remove key c) t key' = (if key' = key then None else cache_get c t key')"
  by (simp add: cache_get_entry cache_entry_remove)

lemma cache_get_remove_domain:
  "cache_get (cache_remove_domain d c) t key = (if fst key = d then None else cache_get c t key)"
  by (simp add: cache_get_entry cache_entry_remove_domain)

lemma cache_get_refresh_domain:
  "cache_get (cache_refresh_domain d f c) t key =
     (if fst key = d then map_option f (cache_get c t key) else cache_get c t key)"
  by (cases "cache_entry c key") (auto simp: cache_get_entry cache_entry_refresh_domain)

text \<open>What an insertion leaves in the cache: the new entry, and entries that were there.\<close>

lemma cache_entry_insert_sub:
  assumes "cache_ok c" and "cache_entry (cache_insert now key fs c) k = Some e"
  shows "k = key \<and> e_fields e = fs \<or> cache_entry c k = Some e"
proof -
  define c1 where "c1 = (if now \<ge> tc_next_sweep c then cache_remove_expired now c else c)"
  define c2 where "c2 = (if (case tc_next_expiry c1 of None \<Rightarrow> False | Some x \<Rightarrow> now \<ge> x)
    then cache_remove_expired now c1 else c1)"
  have ins: "cache_insert now key fs c =
      (if cache_fits c1 key fs then cache_store now key fs c1
       else if cache_fits c2 key fs then cache_store now key fs c2 else cache_refuse key c2)"
    by (simp add: cache_insert_def c1_def c2_def Let_def)
  have ok1: "cache_ok c1"
    using assms(1) by (auto simp: c1_def intro: cache_ok_remove_expired)
  have 1: "cache_entry c1 k = Some e \<Longrightarrow> cache_entry c k = Some e" for e
    using cache_okD(1) [OF assms(1)]
    by (auto simp: c1_def cache_entry_remove_expired bind_eq_Some_conv split: if_splits)
  have 2: "cache_entry c2 k = Some e \<Longrightarrow> cache_entry c1 k = Some e" for e
    using cache_okD(1) [OF ok1]
    by (auto simp: c2_def cache_entry_remove_expired bind_eq_Some_conv split: if_splits)
  show ?thesis
    using assms(2) 1 2 unfolding ins
    by (auto simp: cache_entry_store cache_entry_refuse split: if_splits)
qed

section \<open>How much an insertion adds\<close>

lemma remove_expired_fields_le:
  assumes "cache_ok c"
  shows "tc_fields (cache_remove_expired now c) \<le> tc_fields c"
proof -
  have "domains_fields (tc_domains (cache_remove_expired now c)) \<le> domains_fields (tc_domains c)"
    by (auto simp: cache_remove_expired_def Let_def intro!: domains_fields_retain
        templates_fields_filter)
  then show ?thesis
    using cache_okD(2) [OF assms] by (simp add: cache_remove_expired_def Let_def entries_fields)
qed

lemma store_fields_le: "tc_fields (cache_store now key fs c) \<le> tc_fields c + length fs"
  by (auto simp: cache_store_def Let_def split: prod.splits option.splits)

lemma refuse_fields_le: "tc_fields (cache_refuse key c) \<le> tc_fields c"
  by (auto simp: cache_refuse_def cache_remove_def Let_def split: prod.splits option.splits)

lemma insert_fields_le:
  assumes "cache_ok c"
  shows "tc_fields (cache_insert now key fs c) \<le> tc_fields c + length fs"
proof -
  define c1 where "c1 = (if now \<ge> tc_next_sweep c then cache_remove_expired now c else c)"
  define c2 where "c2 = (if (case tc_next_expiry c1 of None \<Rightarrow> False | Some x \<Rightarrow> now \<ge> x)
    then cache_remove_expired now c1 else c1)"
  have ins: "cache_insert now key fs c =
      (if cache_fits c1 key fs then cache_store now key fs c1
       else if cache_fits c2 key fs then cache_store now key fs c2 else cache_refuse key c2)"
    by (simp add: cache_insert_def c1_def c2_def Let_def)
  have "cache_ok c1" and 1: "tc_fields c1 \<le> tc_fields c"
    using assms by (auto simp: c1_def intro: cache_ok_remove_expired remove_expired_fields_le)
  then have 2: "tc_fields c2 \<le> tc_fields c1"
    by (auto simp: c2_def intro: remove_expired_fields_le)
  show ?thesis
    using 1 2 store_fields_le [of now key fs c1] store_fields_le [of now key fs c2]
      refuse_fields_le [of key c2] unfolding ins by auto
qed

lemma room_admits:
  assumes "cache_ok c" and "tc_fields c + length fs \<le> MAX_TEMPLATE_FIELDS"
  shows "cache_fits (cache_remove_expired now c) key fs"
  using remove_expired_fields_le [OF assms(1), of now] assms(2)
  by (auto simp: cache_fits_def Let_def split: prod.splits option.splits)

section \<open>The store the parsers rely on\<close>

text \<open>
  What a parser assumes of its template store: a lookup returns the last template inserted for
  the key, while it lives and if it was let in, and no operation disturbs other keys. Its lemmas
  are about the loop over the template records of one set.
\<close>

locale template_store =
  fixes get :: "'c \<Rightarrow> nat \<Rightarrow> template_key \<Rightarrow> 'f list option"
    and ins :: "nat \<Rightarrow> template_key \<Rightarrow> 'f list \<Rightarrow> 'c \<Rightarrow> 'c"
    and rem :: "template_key \<Rightarrow> 'c \<Rightarrow> 'c"
    and rem_domain :: "u32 \<Rightarrow> 'c \<Rightarrow> 'c"
    and admits :: "nat \<Rightarrow> 'c \<Rightarrow> template_key \<Rightarrow> 'f list \<Rightarrow> bool"
    and ttl :: "'c \<Rightarrow> nat"
    and used :: "'c \<Rightarrow> nat"
    and budget :: nat
    and inv :: "nat \<Rightarrow> 'c \<Rightarrow> bool"
  assumes inv_ins: "inv now c \<Longrightarrow> inv now (ins now key fs c)"
    and inv_rem: "inv now c \<Longrightarrow> inv now (rem key c)"
    and inv_rem_domain: "inv now c \<Longrightarrow> inv now (rem_domain d c)"
    and inv_later: "inv now c \<Longrightarrow> now \<le> now' \<Longrightarrow> inv now' c"
    and ttl_ins: "ttl (ins now key fs c) = ttl c"
    and get_ins: "inv now c \<Longrightarrow> now \<le> t \<Longrightarrow> get (ins now key fs c) t key' =
      (if key' = key then (if admits now c key fs \<and> t - now < ttl c then Some fs else None)
       else get c t key')"
    and used_ins: "inv now c \<Longrightarrow> used (ins now key fs c) \<le> used c + length fs"
    and admits_room: "inv now c \<Longrightarrow> used c + length fs \<le> budget \<Longrightarrow> admits now c key fs"
    and get_rem: "get (rem key c) t key' = (if key' = key then None else get c t key')"
    and get_rem_domain: "get (rem_domain d c) t key = (if fst key = d then None else get c t key)"
begin

lemma inv_fold:
  assumes "\<And>x c. inv now c \<Longrightarrow> inv now (f x c)"
  shows "inv now c \<Longrightarrow> inv now (fold f xs c)"
  by (induction xs arbitrary: c) (auto simp: assms)

lemma get_fold_other:
  assumes "inv now c" and "now \<le> t"
    and "\<And>x c. x \<in> set xs \<Longrightarrow> inv now c \<Longrightarrow> inv now (f x c) \<and> get (f x c) t key = get c t key"
  shows "get (fold f xs c) t key = get c t key"
  using assms(1,3) by (induction xs arbitrary: c) auto

lemma inv_fold_ins: "inv now c \<Longrightarrow> inv now (fold (\<lambda>x. ins now (k x) (g x)) xs c)"
  by (rule inv_fold) (rule inv_ins)

lemma get_fold_ins:
  assumes "inv now c" and "now \<le> t"
  shows "case find (\<lambda>x. k x = key) (rev xs) of
      None \<Rightarrow> get (fold (\<lambda>x. ins now (k x) (g x)) xs c) t key = get c t key
    | Some x \<Rightarrow> get (fold (\<lambda>x. ins now (k x) (g x)) xs c) t key \<in> {None, Some (g x)}"
proof (induction xs rule: rev_induct)
  case (snoc x xs)
  moreover have "inv now (fold (\<lambda>x. ins now (k x) (g x)) xs c)"
    using assms(1) by (rule inv_fold_ins)
  ultimately show ?case
    using assms(2) by (auto simp: get_ins split: option.splits)
qed simp

lemma used_fold_ins:
  assumes "inv now c"
  shows "used (fold (\<lambda>x. ins now (k x) (g x)) xs c) \<le> used c + sum_list (map (\<lambda>x. length (g x)) xs)"
proof (induction xs rule: rev_induct)
  case (snoc x xs)
  then show ?case
    using used_ins [OF inv_fold_ins [OF assms], of "k x" "g x" k g xs] by simp
qed simp

lemma ttl_fold_ins: "ttl (fold (\<lambda>x. ins now (k x) (g x)) xs c) = ttl c"
  by (induction xs arbitrary: c) (simp_all add: ttl_ins)

text \<open>With room for all of them, every record of the set is known afterwards.\<close>

lemma get_fold_ins_room:
  assumes "inv now c" and "now \<le> t" and "t - now < ttl c"
    and "used c + sum_list (map (\<lambda>x. length (g x)) xs) \<le> budget"
  shows "get (fold (\<lambda>x. ins now (k x) (g x)) xs c) t key =
    (case find (\<lambda>x. k x = key) (rev xs) of None \<Rightarrow> get c t key | Some x \<Rightarrow> Some (g x))"
  using assms(4)
proof (induction xs rule: rev_induct)
  case (snoc x xs)
  let ?c = "fold (\<lambda>x. ins now (k x) (g x)) xs c"
  have "used ?c + length (g x) \<le> budget"
    using snoc.prems used_fold_ins [OF assms(1), of k g xs] by simp
  moreover have inv: "inv now ?c"
    using assms(1) by (rule inv_fold_ins)
  ultimately have "admits now ?c (k x) (g x)"
    by (intro admits_room)
  then show ?case
    using snoc inv assms(2,3) by (simp add: get_ins ttl_fold_ins)
qed simp

end

interpretation tc: template_store cache_get cache_insert cache_remove cache_remove_domain
  "\<lambda>now c. cache_fits (cache_remove_expired now c)" tc_timeout tc_fields MAX_TEMPLATE_FIELDS
  "\<lambda>now c. cache_ok c \<and> cache_timely now c"
  by unfold_locales
    (auto simp: cache_get_insert cache_get_remove cache_get_remove_domain insert_fields_le
      room_admits intro: cache_ok_insert cache_timely_insert cache_ok_remove cache_ok_remove_domain
        cache_timely_intros cache_timely_later)

text \<open>A store whose templates of one domain can be resolved anew, in place.\<close>

locale refreshing_store = template_store get ins rem rem_domain admits ttl used budget inv
  for get :: "'c \<Rightarrow> nat \<Rightarrow> template_key \<Rightarrow> 'f list option"
    and ins rem rem_domain admits ttl used budget inv +
  fixes refresh :: "u32 \<Rightarrow> ('f list \<Rightarrow> 'f list) \<Rightarrow> 'c \<Rightarrow> 'c"
  assumes inv_refresh: "inv now c \<Longrightarrow> (\<And>fs. length (f fs) = length fs) \<Longrightarrow> inv now (refresh d f c)"
    and get_refresh: "get (refresh d f c) t key =
      (if fst key = d then map_option f (get c t key) else get c t key)"
begin

text \<open>Nothing done to a domain changes what another domain reads.\<close>

lemma other_domain:
  assumes "inv now c" and "now \<le> t" and "fst key \<noteq> d"
  shows "get (ins now (d, tid) fs c) t key = get c t key" and "get (rem (d, tid) c) t key = get c t key"
    and "get (rem_domain d c) t key = get c t key" and "get (refresh d f c) t key = get c t key"
  using assms by (auto simp: get_ins get_rem get_rem_domain get_refresh)

end

interpretation rc: refreshing_store cache_get cache_insert cache_remove cache_remove_domain
  "\<lambda>now c. cache_fits (cache_remove_expired now c)" tc_timeout tc_fields MAX_TEMPLATE_FIELDS
  "\<lambda>now c. cache_ok c \<and> cache_timely now c" cache_refresh_domain
  by unfold_locales
    (auto simp: cache_get_refresh_domain intro: cache_ok_refresh_domain cache_timely_intros)

text \<open>What every insertion keeps, the loop over a set's template records keeps.\<close>

lemma fold_insert_keeps:
  assumes "\<And>c tid fs. P c \<Longrightarrow> P (cache_insert now (d, tid) fs c)"
  shows "P c \<Longrightarrow> P (fold (\<lambda>t. cache_insert now (d, k t) (g t)) ts c)"
  by (induction ts arbitrary: c) (simp_all add: assms)

lemma cache_reachable_insert:
  "cache_reachable timeout now c \<Longrightarrow> cache_reachable timeout now (cache_insert now key fs c)"
  by (rule cache_reachable.step [OF _ cache_step.insert])

section \<open>Properties\<close>

text \<open>C36. Whatever an exporter sends, in any order and however often it redefines, withdraws or
  refreshes templates, the field counter of its cache is the exact number of fields held and
  never exceeds the budget \<open>MAX_TEMPLATE_FIELDS\<close>.\<close>

theorem cache_within_budget:
  assumes "cache_reachable timeout now c"
  shows "tc_fields c = (\<Sum>key\<in>dom (cache_entry c). length (e_fields (the (cache_entry c key)))) \<and>
    tc_fields c \<le> MAX_TEMPLATE_FIELDS"
  using cache_reachable_ok [OF assms] by (auto intro: cache_fields_sum cache_okD(3))

lemma cache_reachable_example:
  "cache_reachable 600 5 (cache_insert 5 (1, 256) [True, False] (cache_new 5 600))"
  by (rule cache_reachable.step [OF cache_reachable.new cache_step.insert])

theorem cache_within_budget_witness:
  "tc_fields (cache_insert 5 (1, 256) [True, False] (cache_new 5 600)) = 2 \<and>
   tc_fields (cache_insert 5 (1, 256) [True, False] (cache_new 5 600)) \<le> MAX_TEMPLATE_FIELDS"
  using cache_within_budget [OF cache_reachable_example]
  by (simp add: cache_insert_def cache_new_def cache_fits_def cache_store_def hm_empty_def
      MAX_TEMPLATE_FIELDS_def Let_def)

text \<open>C37. Inserting a template makes it the one a reader gets for its key, from that moment until
  the timeout, exactly when it fits the budget beside the unexpired templates of the other keys;
  otherwise the key reads as unknown, so that data is never read with the layout it replaced.
  What a reader gets for any other key is unchanged, even when the insertion sweeps.\<close>

theorem cache_insert_lookup:
  assumes "cache_reachable timeout now c" and "now \<le> t"
  shows "cache_get (cache_insert now key fs c) t key' =
    (if key' = key
     then (if cache_fits (cache_remove_expired now c) key fs \<and> t - now < timeout
           then Some fs else None)
     else cache_get c t key')"
  using cache_reachable_ok [OF assms(1)] tc.get_ins [of c now t key fs key'] assms(2) by auto

theorem cache_insert_lookup_witness:
  "cache_get (cache_insert 5 (1, 256) [True] (cache_insert 5 (1, 256) [True, False] (cache_new 5 600)))
     604 (1, 256) = Some [True]"
  using cache_insert_lookup [OF cache_reachable_example, of 604 "(1, 256)" "[True]" "(1, 256)"]
  by (simp add: cache_insert_def cache_new_def cache_fits_def cache_store_def hm_empty_def
      MAX_TEMPLATE_FIELDS_def Let_def cache_remove_expired_def hm_retain_def hm_insert_def
      hm_get_def cache_entries_def hm_values_def)

text \<open>An expired template is dropped at most one more timeout later: after an insertion at
  \<open>now\<close> the cache holds no entry sent two timeouts ago or earlier.\<close>

theorem cache_retention:
  assumes "cache_reachable timeout now c" and "0 < timeout"
    and "cache_entry (cache_insert now key fs c) key' = Some e"
  shows "now < sent_at e + 2 * timeout"
proof -
  have "cache_timely now (cache_insert now key fs c)" and t: "tc_timeout c = timeout"
    using cache_reachable_ok [OF assms(1)] by (auto intro: cache_timely_insert)
  then have "tc_next_sweep (cache_insert now key fs c) \<le> sent_at e + 2 * timeout"
    using assms(3) unfolding cache_timely_def by (metis cache_insert_timeout)
  moreover have "now < tc_next_sweep (cache_insert now key fs c)"
    using assms(2) t by (auto simp: cache_insert_def Let_def)
  ultimately show ?thesis by simp
qed

theorem cache_retention_witness:
  "(5::nat) < sent_at \<lparr>e_fields = [True], sent_at = 5\<rparr> + 2 * 600"
  by (rule cache_retention [OF cache_reachable_example, of "(2, 300)" "[True]" "(2, 300)"])
    (simp_all add: cache_insert_def cache_new_def cache_fits_def cache_store_def cache_entry_def
      hm_empty_def MAX_TEMPLATE_FIELDS_def Let_def hm_insert_def hm_get_def)

text \<open>None of the cache's \<^verbatim>\<open>usize\<close> subtractions can underflow: what is taken off the field
  counter, for a replaced or removed template or a withdrawn domain, is never more than it.\<close>

theorem cache_counter_never_underflows:
  assumes "cache_reachable timeout now c"
  shows "(case cache_entry c (d, tid) of None \<Rightarrow> 0 | Some e \<Rightarrow> length (e_fields e)) \<le> tc_fields c \<and>
    (case hm_get (tc_domains c) d of None \<Rightarrow> 0 | Some ts \<Rightarrow> templates_fields ts) \<le> tc_fields c"
proof (cases "hm_get (tc_domains c) d")
  case None
  then show ?thesis by (simp add: cache_entry_def)
next
  case (Some ts)
  have c: "domains_ok (tc_domains c)" "tc_fields c = domains_fields (tc_domains c)"
    using cache_reachable_ok [OF assms] by (auto dest: cache_okD)
  have "templates_fields ts \<le> tc_fields c"
    using templates_fields_le [OF domains_okD(1) [OF c(1)] Some] c(2) by simp
  moreover have "length (e_fields e) \<le> templates_fields ts" if "hm_get ts tid = Some e" for e
    using entry_fields_le [OF domains_okD(2) [OF c(1) Some] that] .
  ultimately show ?thesis
    using Some by (force simp: cache_entry_def split: option.splits)
qed

theorem cache_counter_never_underflows_witness:
  "(2::nat) \<le> tc_fields (cache_insert 5 (1, 256) [True, False] (cache_new 5 600))"
  using cache_counter_never_underflows [OF cache_reachable_example, of 1 256]
  by (simp add: cache_insert_def cache_new_def cache_fits_def cache_store_def cache_entry_def
      hm_empty_def MAX_TEMPLATE_FIELDS_def Let_def hm_insert_def hm_get_def)

end
