(* ===== verification/IpfixTypes.thy ===== *)
theory IpfixTypes
  imports DataRecord InformationElement TemplateCache
begin

text \<open>
  The data of \<^verbatim>\<open>ipfix/parser.rs\<close>: messages, sets, template and data records and field values, with
  the constructors the rest of the program builds them with. A field value can be a list (RFC
  6313), whose elements are values or whole data records, so values and records nest.
\<close>

definition IPFIX_VERSION :: u16 where
  "IPFIX_VERSION = 10"

definition IPFIX_TEMPLATE_SET_ID :: u16 where
  "IPFIX_TEMPLATE_SET_ID = 2"

definition IPFIX_OPTIONS_TEMPLATE_SET_ID :: u16 where
  "IPFIX_OPTIONS_TEMPLATE_SET_ID = 3"

definition ipfix_valid_template_id :: "u16 \<Rightarrow> bool" where
  "ipfix_valid_template_id n \<longleftrightarrow> 256 \<le> n \<and> n \<le> 65535"

definition IPFIX_VARIABLE_LENGTH :: u16 where
  "IPFIX_VARIABLE_LENGTH = 0xffff"

definition SET_HEADER_SIZE :: nat where
  "SET_HEADER_SIZE = 4"

definition IPFIX_HEADER_SIZE :: nat where
  "IPFIX_HEADER_SIZE = 16"

definition MAX_LIST_DEPTH :: nat where
  "MAX_LIST_DEPTH = 8"

lemmas ipfix_consts = IPFIX_TEMPLATE_SET_ID_def IPFIX_OPTIONS_TEMPLATE_SET_ID_def
  ipfix_valid_template_id_def SET_HEADER_SIZE_def IPFIX_HEADER_SIZE_def

record field_specifier =
  fs_enterprise_bit :: bool
  fs_id :: u16
  fs_length :: u16
  fs_enterprise_number :: "u32 option"

definition specifier_iana :: "u16 \<Rightarrow> u16 \<Rightarrow> field_specifier" where
  "specifier_iana n len =
     \<lparr>fs_enterprise_bit = False, fs_id = n, fs_length = len, fs_enterprise_number = None\<rparr>"

definition specifier_from_ie :: "information_element \<Rightarrow> u16 \<Rightarrow> field_specifier" where
  "specifier_from_ie ie len = specifier_iana (ie_id ie) len"

definition specifier_enterprise :: "u16 \<Rightarrow> u16 \<Rightarrow> u32 \<Rightarrow> field_specifier" where
  "specifier_enterprise n len enterprise =
     \<lparr>fs_enterprise_bit = True, fs_id = n, fs_length = len, fs_enterprise_number = Some enterprise\<rparr>"

datatype semantic = NoneOf | ExactlyOneOf | OneOrMoreOf | AllOf | Ordered | Undefined

definition semantic_from :: "u8 \<Rightarrow> semantic" where
  "semantic_from v =
     (if v = 0 then NoneOf else if v = 1 then ExactlyOneOf else if v = 2 then OneOrMoreOf
      else if v = 3 then AllOf else if v = 4 then Ordered else Undefined)"

definition semantic_into :: "semantic \<Rightarrow> u8" where
  "semantic_into s =
     (case s of NoneOf \<Rightarrow> 0 | ExactlyOneOf \<Rightarrow> 1 | OneOrMoreOf \<Rightarrow> 2 | AllOf \<Rightarrow> 3 | Ordered \<Rightarrow> 4
      | Undefined \<Rightarrow> 0xff)"

datatype (plugins only: size) 'v basic_list =
  MkBasicList (bl_semantic: semantic) (bl_field: field_specifier) (bl_content: "'v list")

datatype (plugins only: size) 'v sub_template_list =
  MkSubTemplateList (stl_semantic: semantic) (stl_template_id: u16)
    (stl_data: "(field_specifier, 'v) data_record list")

datatype (plugins only: size) 'v multi_item =
  MkMultiItem (mi_template_id: u16) (mi_length: u16)
    (mi_data: "(field_specifier, 'v) data_record list")

datatype (plugins only: size) 'v multi_list =
  MkMultiList (ml_semantic: semantic) (ml_data: "'v multi_item list")

datatype (plugins only: size) ipfix_value =
    Unsigned8 u8 | Unsigned16 u16 | Unsigned32 u32 | Unsigned64 u64 | Unsigned256 "256 word"
  | Signed8 u8 | Signed16 u16 | Signed32 u32 | Signed64 u64
  | Float32 u32 | Float64 u64 | Boolean bool | MacAddress mac_addr6 | OctetArray bytes
  | String string | DateTimeSeconds datetime | DateTimeMilliseconds datetime
  | DateTimeMicroseconds datetime | DateTimeNanoseconds datetime
  | Ipv4Address ipv4_addr | Ipv6Address ipv6_addr
  | BasicList "ipfix_value basic_list"
  | SubTemplateList "ipfix_value sub_template_list"
  | SubTemplateMultiList "ipfix_value multi_list"
  | Null

type_synonym ipfix_resolved_field = "field_specifier resolved_field"
type_synonym ipfix_data_record = "(field_specifier, ipfix_value) data_record"

definition data_record_new :: "ipfix_value list \<Rightarrow> ipfix_data_record" where
  "data_record_new vs =
     from_template (map (\<lambda>_. \<lparr>rf_spec = specifier_iana 0 0, rf_data_type = DtOctetArray, rf_name = ''''\<rparr>) vs) vs"

record ipfix_template_record =
  tr_template_id :: u16
  tr_field_count :: u16
  tr_fields :: "field_specifier list"

definition template_record_new :: "u16 \<Rightarrow> field_specifier list \<Rightarrow> ipfix_template_record" where
  "template_record_new tid fs =
     \<lparr>tr_template_id = tid, tr_field_count = word_of_nat (length fs), tr_fields = fs\<rparr>"

record ipfix_options_record =
  or_template_id :: u16
  or_field_count :: u16
  or_scope_field_count :: u16
  or_fields :: "field_specifier list"

definition options_record_new :: "u16 \<Rightarrow> u16 \<Rightarrow> field_specifier list \<Rightarrow> ipfix_options_record" where
  "options_record_new tid scope_field_count fs =
     \<lparr>or_template_id = tid, or_field_count = word_of_nat (length fs),
      or_scope_field_count = scope_field_count, or_fields = fs\<rparr>"

datatype ipfix_record =
    RTemplate ipfix_template_record
  | ROptionsTemplate ipfix_options_record
  | RData ipfix_data_record
  | ROptionsData ipfix_data_record

record ipfix_set =
  set_id :: u16
  set_length :: u16
  set_records :: "ipfix_record list"

definition set_new :: "u16 \<Rightarrow> ipfix_record list \<Rightarrow> ipfix_set" where
  "set_new n records = \<lparr>set_id = n, set_length = 0, set_records = records\<rparr>"

record ipfix_header =
  ih_version :: u16
  ih_length :: u16
  ih_export_time :: datetime
  ih_sequence_number :: u32
  ih_domain :: u32

definition header_new :: "datetime \<Rightarrow> u32 \<Rightarrow> u32 \<Rightarrow> ipfix_header" where
  "header_new export_time sequence_number domain =
     \<lparr>ih_version = IPFIX_VERSION, ih_length = 0, ih_export_time = export_time,
      ih_sequence_number = sequence_number, ih_domain = domain\<rparr>"

record ipfix_packet =
  ip_header :: ipfix_header
  ip_sets :: "ipfix_set list"

definition packet_new :: "datetime \<Rightarrow> u32 \<Rightarrow> u32 \<Rightarrow> ipfix_set list \<Rightarrow> ipfix_packet" where
  "packet_new export_time sequence_number domain sets =
     \<lparr>ip_header = header_new export_time sequence_number domain, ip_sets = sets\<rparr>"

definition unknown_element_name :: "u16 \<Rightarrow> u32 option \<Rightarrow> string" where
  "unknown_element_name n enterprise_number =
     (case enterprise_number of
        Some enterprise \<Rightarrow> dec_string (unat enterprise) @ ''.'' @ dec_string (unat n)
      | None \<Rightarrow> dec_string (unat n))"

end
