(* ===== verification/ElementTypes.thy ===== *)
theory ElementTypes
  imports IpfixTypes
begin

text \<open>
  \<^verbatim>\<open>ipfix/element_types.rs\<close>: the information elements an exporter describes itself, in options
  records called type records (RFC 5610), kept per observation domain. A \<^verbatim>\<open>&mut self\<close> method
  returns the new state with its result; log messages are left out.
\<close>

definition MAX_ELEMENTS :: nat where
  "MAX_ELEMENTS = 1024"

definition MAX_NAME_LENGTH :: nat where
  "MAX_NAME_LENGTH = 256"

type_synonym element_key = "u16 \<times> u32 option"

text \<open>The parts of a type record a collector uses.\<close>

record description =
  de_id :: u16
  de_enterprise_number :: "u32 option"
  de_data_type :: u8
  de_semantics :: u8
  de_name :: "string option"

datatype learned = Defined description ie_definition | Conflicting

record element_types =
  et_domains :: "(u32, (element_key, learned) hashmap) hashmap"
  et_len :: nat

definition element_types_default :: element_types where
  "element_types_default = \<lparr>et_domains = hm_empty, et_len = 0\<rparr>"

definition et_lookup :: "element_types \<Rightarrow> u32 \<Rightarrow> u16 \<Rightarrow> u32 option \<Rightarrow> ie_definition option" where
  "et_lookup self domain n enterprise_number = do {
     elements \<leftarrow> hm_get (et_domains self) domain;
     learned \<leftarrow> hm_get elements (n, enterprise_number);
     (case learned of Defined _ definition \<Rightarrow> Some definition | Conflicting \<Rightarrow> None)
   }"

definition value_unsigned :: "ipfix_value \<Rightarrow> u64 option" where
  "value_unsigned value =
     (case value of
        Unsigned8 v \<Rightarrow> Some (ucast v)
      | Unsigned16 v \<Rightarrow> Some (ucast v)
      | Unsigned32 v \<Rightarrow> Some (ucast v)
      | Unsigned64 v \<Rightarrow> Some v
      | _ \<Rightarrow> None)"

text \<open>The local variables of \<^verbatim>\<open>Description::read\<close> and one round of its loop. A semantics field that
  cannot be read ends it with \<^verbatim>\<open>None\<close>.\<close>

record reading =
  rd_id :: "u16 option"
  rd_enterprise_number :: "u32 option"
  rd_data_type :: "u8 option"
  rd_semantics :: u8
  rd_name :: "string option"

definition usable_name :: "ipfix_value \<Rightarrow> string option" where
  "usable_name value =
     (case value of
        String name \<Rightarrow>
          if name \<noteq> [] \<and> length name \<le> MAX_NAME_LENGTH \<and> CHR 0x00 \<notin> set name then Some name else None
      | _ \<Rightarrow> None)"

definition read_field :: "field_specifier \<times> string \<times> ipfix_value \<Rightarrow> reading \<Rightarrow> reading option" where
  "read_field entry r = (case entry of (field, _, value) \<Rightarrow>
     if fs_enterprise_number field \<noteq> None then Some r
     else let ie = ie_from_id (fs_id field) in
       if ie = Some InformationElementId then
         Some (r\<lparr>rd_id := map_option (\<lambda>v. v AND 0x7fff) (value_unsigned value \<bind> try_from_u64)\<rparr>)
       else if ie = Some PrivateEnterpriseNumber then
         Some (r\<lparr>rd_enterprise_number := value_unsigned value \<bind> try_from_u64\<rparr>)
       else if ie = Some InformationElementDataType then
         Some (r\<lparr>rd_data_type := value_unsigned value \<bind> try_from_u64\<rparr>)
       else if ie = Some InformationElementSemantics then
         (case value_unsigned value \<bind> try_from_u64 of
            None \<Rightarrow> None
          | Some semantics \<Rightarrow> Some (r\<lparr>rd_semantics := semantics\<rparr>))
       else if ie = Some InformationElementName then
         Some (r\<lparr>rd_name := usable_name value\<rparr>)
       else Some r)"

primrec read_fields :: "(field_specifier \<times> string \<times> ipfix_value) list \<Rightarrow> reading \<Rightarrow> reading option" where
  "read_fields [] r = Some r"
| "read_fields (entry # entries) r = do {
     r \<leftarrow> read_field entry r;
     read_fields entries r
   }"

definition description_read :: "ipfix_data_record \<Rightarrow> description option" where
  "description_read record = do {
     r \<leftarrow> read_fields (record_iter record)
       \<lparr>rd_id = None, rd_enterprise_number = None, rd_data_type = None, rd_semantics = 0, rd_name = None\<rparr>;
     n \<leftarrow> rd_id r;
     dt \<leftarrow> rd_data_type r;
     Some \<lparr>de_id = n,
       de_enterprise_number = (case rd_enterprise_number r of
         None \<Rightarrow> None | Some number \<Rightarrow> if number \<noteq> 0 then Some number else None),
       de_data_type = dt, de_semantics = rd_semantics r, de_name = rd_name r\<rparr>
   }"

definition semantics_fit :: "description \<Rightarrow> bool" where
  "semantics_fit self =
     (let dt = unat (de_data_type self); s = unat (de_semantics self) in
      if 1 \<le> dt \<and> dt \<le> 4 then s \<le> 5 \<or> s = 7 \<or> s = 8
      else if 5 \<le> dt \<and> dt \<le> 8 then s \<le> 4
      else if dt = 9 \<or> dt = 10 then s \<le> 3
      else if 20 \<le> dt \<and> dt \<le> 22 then s = 0 \<or> s = 6
      else s = 0)"

definition description_data_type :: "description \<Rightarrow> data_type option" where
  "description_data_type self =
     (let dt = unat (de_data_type self) in
      if \<not> semantics_fit self then None
      else if dt = 0 then Some DtOctetArray
      else if 1 \<le> dt \<and> dt \<le> 4 then Some DtUnsigned
      else if 5 \<le> dt \<and> dt \<le> 8 then Some DtSigned
      else if dt = 9 \<or> dt = 10 then Some DtFloat
      else if dt = 11 then Some DtBoolean
      else if dt = 12 then Some DtMacAddress
      else if dt = 13 then Some DtString
      else if dt = 14 then Some DtDateTimeSeconds
      else if dt = 15 then Some DtDateTimeMilliseconds
      else if dt = 16 then Some DtDateTimeMicroseconds
      else if dt = 17 then Some DtDateTimeNanoseconds
      else if dt = 18 then Some DtIpv4Address
      else if dt = 19 then Some DtIpv6Address
      else if dt = 20 then Some DtBasicList
      else if dt = 21 then Some DtSubTemplateList
      else if dt = 22 then Some DtSubTemplateMultiList
      else None)"

definition elements_of :: "element_types \<Rightarrow> u32 \<Rightarrow> (element_key, learned) hashmap" where
  "elements_of self domain = (case hm_get (et_domains self) domain of None \<Rightarrow> hm_empty | Some m \<Rightarrow> m)"

text \<open>Writing an element's entry, \<^verbatim>\<open>*learned = ...\<close> or \<^verbatim>\<open>insert\<close>.\<close>

definition et_set :: "u32 \<Rightarrow> element_key \<Rightarrow> learned \<Rightarrow> element_types \<Rightarrow> element_types" where
  "et_set domain key learned self =
     self\<lparr>et_domains := hm_insert domain (hm_insert key learned (elements_of self domain)) (et_domains self)\<rparr>"

definition et_learn ::
    "u32 \<Rightarrow> ipfix_data_record \<Rightarrow> ie_registry \<Rightarrow> element_types \<Rightarrow> element_types \<times> bool" where
  "et_learn domain record registry self =
     (case description_read record of
        None \<Rightarrow> (self, False)
      | Some description \<Rightarrow>
          let key = (de_id description, de_enterprise_number description) in
          if registry_lookup registry (fst key) (snd key) \<noteq> None then (self, False)
          else (case description_data_type description of
              None \<Rightarrow> (self, False)
            | Some dt \<Rightarrow>
                (case hm_get (et_domains self) domain \<bind> (\<lambda>elements. hm_get elements key) of
                   Some (Defined known _) \<Rightarrow>
                     if known = description then (self, False)
                     else (et_set domain key Conflicting self, True)
                 | Some Conflicting \<Rightarrow> (self, False)
                 | None \<Rightarrow>
                     if et_len self < MAX_ELEMENTS then
                       let name = (case de_name description of
                                     None \<Rightarrow> unknown_element_name (fst key) (snd key)
                                   | Some name \<Rightarrow> name);
                           definition = \<lparr>def_id = fst key, def_enterprise_number = snd key,
                                         def_name = name, def_data_type = dt\<rparr>;
                           self = et_set domain key (Defined description definition) self
                       in (self\<lparr>et_len := et_len self + 1\<rparr>, True)
                     else (self, False))))"

section \<open>The invariant\<close>

definition et_entry :: "element_types \<Rightarrow> u32 \<Rightarrow> element_key \<Rightarrow> learned option" where
  "et_entry self domain key = hm_get (et_domains self) domain \<bind> (\<lambda>m. hm_get m key)"

definition et_ok :: "element_types \<Rightarrow> bool" where
  "et_ok self \<longleftrightarrow> hm_ok (et_domains self) \<and>
     (\<forall>d m. hm_get (et_domains self) d = Some m \<longrightarrow> hm_ok m) \<and>
     et_len self = sum_list (map (\<lambda>m. length (hm_values m)) (hm_values (et_domains self))) \<and>
     et_len self \<le> MAX_ELEMENTS"

text \<open>The elements a type record is about, when it is one a collector may believe: it names an
  element the registry does not define, and a data type its semantics fit.\<close>

definition describes :: "ie_registry \<Rightarrow> ipfix_data_record \<Rightarrow> element_key \<Rightarrow> description \<Rightarrow> bool" where
  "describes registry record key description \<longleftrightarrow>
     description_read record = Some description \<and>
     key = (de_id description, de_enterprise_number description) \<and>
     registry_lookup registry (fst key) (snd key) = None \<and>
     description_data_type description \<noteq> None"

text \<open>Learning from a sequence of records, each from a domain.\<close>

definition et_learn_all :: "ie_registry \<Rightarrow> (u32 \<times> ipfix_data_record) list \<Rightarrow> element_types \<Rightarrow> element_types" where
  "et_learn_all registry rs self = fold (\<lambda>(d, r) self. fst (et_learn d r registry self)) rs self"

lemma et_len_set [simp]: "et_len (et_set d key l self) = et_len self"
  by (simp add: et_set_def)

lemma et_entry_len [simp]: "et_entry (self\<lparr>et_len := n\<rparr>) d key = et_entry self d key"
  by (simp add: et_entry_def)

lemma et_lookup_entry:
  "et_lookup self d n e = (case et_entry self d (n, e) of Some (Defined _ def) \<Rightarrow> Some def | _ \<Rightarrow> None)"
  by (auto simp: et_lookup_def et_entry_def split: bind_splits option.splits learned.splits)

lemma et_entry_set:
  "et_entry (et_set d key l self) d' key' = (if d' = d \<and> key' = key then Some l else et_entry self d' key')"
  by (auto simp: et_entry_def et_set_def elements_of_def hm_laws split: option.splits)

lemma length_values_insert:
  "hm_ok m \<Longrightarrow> length (hm_values (hm_insert k v m)) =
     length (hm_values m) + (if hm_get m k = None then 1 else 0)"
  using hm.vals_sum_ins [of m "\<lambda>_. 1" k v] by (auto simp: sum_list_triv split: option.splits)

lemma et_set_size:
  assumes "hm_ok (et_domains self)" and "\<forall>d m. hm_get (et_domains self) d = Some m \<longrightarrow> hm_ok m"
  shows "sum_list (map (\<lambda>m. length (hm_values m)) (hm_values (et_domains (et_set d key l self)))) =
    sum_list (map (\<lambda>m. length (hm_values m)) (hm_values (et_domains self))) +
    (if et_entry self d key = None then 1 else 0)"
  using hm.vals_sum_ins [OF assms(1), of "\<lambda>m. length (hm_values m)" d
      "hm_insert key l (elements_of self d)"]
    length_values_insert [of "elements_of self d" key l] assms(2) [rule_format, of d]
  by (auto simp: et_set_def elements_of_def et_entry_def hm.ok_empty hm_laws split: option.splits)
    (auto simp: hm_values_def hm_empty_def)

lemma et_set_ok:
  assumes "hm_ok (et_domains self)" and "\<forall>d m. hm_get (et_domains self) d = Some m \<longrightarrow> hm_ok m"
  shows "hm_ok (et_domains (et_set d key l self))"
    and "hm_get (et_domains (et_set d key l self)) d' = Some m \<Longrightarrow> hm_ok m"
proof -
  show "hm_ok (et_domains (et_set d key l self))"
    using assms(1) by (simp add: et_set_def hm.ok_ins)
  show "hm_get (et_domains (et_set d key l self)) d' = Some m \<Longrightarrow> hm_ok m"
    using assms(2) by (auto simp: et_set_def elements_of_def hm_laws hm.ok_empty
        intro!: hm.ok_ins split: if_splits option.splits)
qed

text \<open>What learning from one record does.\<close>

lemma et_learn_cases:
  obtains (ignored) "et_learn d record registry self = (self, False)"
      "\<And>key description. describes registry record key description \<Longrightarrow>
        (\<exists>def. et_entry self d key = Some (Defined description def)) \<or>
        et_entry self d key = Some Conflicting \<or>
        et_entry self d key = None \<and> MAX_ELEMENTS \<le> et_len self"
    | (conflict) key description known def where "describes registry record key description"
      "et_entry self d key = Some (Defined known def)" "known \<noteq> description"
      "et_learn d record registry self = (et_set d key Conflicting self, True)"
    | (learned) key description name dt where "describes registry record key description"
      "et_entry self d key = None" "et_len self < MAX_ELEMENTS"
      "description_data_type description = Some dt"
      "et_learn d record registry self =
        ((et_set d key (Defined description \<lparr>def_id = fst key, def_enterprise_number = snd key,
            def_name = name, def_data_type = dt\<rparr>) self)\<lparr>et_len := et_len self + 1\<rparr>, True)"
proof (cases "\<exists>key description. describes registry record key description")
  case False
  then have "et_learn d record registry self = (self, False)"
    by (auto simp: et_learn_def describes_def Let_def split: option.splits)
  with False ignored show thesis by blast
next
  case True
  then obtain description where read: "description_read record = Some description"
    and reg: "registry_lookup registry (de_id description) (de_enterprise_number description) = None"
    and "description_data_type description \<noteq> None"
    by (auto simp: describes_def)
  then obtain dt where dt: "description_data_type description = Some dt" by blast
  let ?key = "(de_id description, de_enterprise_number description)"
  have des: "describes registry record ?key description"
    using read reg dt by (simp add: describes_def)
  have only: "describes registry record key desc \<Longrightarrow> key = ?key \<and> desc = description" for key desc
    using read by (auto simp: describes_def)
  note learn = et_learn_def [of d "record" registry self] et_entry_def [symmetric]
  show thesis
  proof (cases "et_entry self d ?key")
    case None
    show thesis
    proof (cases "et_len self < MAX_ELEMENTS")
      case True
      then show thesis
        using None read reg dt des by (intro learned) (auto simp: learn Let_def)
    next
      case False
      then have "et_learn d record registry self = (self, False)"
        using None read reg dt by (simp add: learn Let_def)
      then show thesis
      proof (rule ignored)
        fix key desc
        assume "describes registry record key desc"
        then have "key = ?key" using only by blast
        with None False show "(\<exists>def. et_entry self d key = Some (Defined desc def)) \<or>
          et_entry self d key = Some Conflicting \<or>
          et_entry self d key = None \<and> MAX_ELEMENTS \<le> et_len self" by simp
      qed
    qed
  next
    case (Some l)
    show thesis
    proof (cases l)
      case (Defined known def)
      show thesis
      proof (cases "known = description")
        case True
        then have "et_learn d record registry self = (self, False)"
          using Some Defined read reg dt by (simp add: learn Let_def)
        then show thesis
          using Some Defined True only by (intro ignored) auto
      next
        case False
        then show thesis
          using Some Defined read reg dt des by (intro conflict) (auto simp: learn Let_def)
      qed
    next
      case Conflicting
      then have "et_learn d record registry self = (self, False)"
        using Some read reg dt by (simp add: learn Let_def)
      then show thesis
        using Some Conflicting only by (intro ignored) auto
    qed
  qed
qed

lemma et_ok_default: "et_ok element_types_default"
  unfolding et_ok_def element_types_default_def
  by (simp add: hm.ok_empty hm_laws) (simp add: hm_values_def hm_empty_def)

lemma et_ok_learn:
  assumes "et_ok self"
  shows "et_ok (fst (et_learn d record registry self))"
proof -
  have ok: "hm_ok (et_domains self)" "\<forall>d m. hm_get (et_domains self) d = Some m \<longrightarrow> hm_ok m"
    and len: "et_len self = sum_list (map (\<lambda>m. length (hm_values m)) (hm_values (et_domains self)))"
    "et_len self \<le> MAX_ELEMENTS"
    using assms unfolding et_ok_def by blast+
  show ?thesis
  proof (cases rule: et_learn_cases [of d "record" registry self])
    case ignored
    with assms show ?thesis by simp
  next
    case (conflict key description known def)
    then show ?thesis
      using et_set_ok [OF ok] et_set_size [OF ok] len by (auto simp: et_ok_def)
  next
    case (learned key description name dt)
    then show ?thesis
      using et_set_ok [OF ok] et_set_size [OF ok] len by (auto simp: et_ok_def)
  qed
qed

lemma et_len_learn: "et_len self \<le> et_len (fst (et_learn d record registry self))"
  by (cases rule: et_learn_cases [of d "record" registry self]) simp_all

lemma et_learn_all_snoc:
  "et_learn_all registry (rs @ [(d, r)]) self = fst (et_learn d r registry (et_learn_all registry rs self))"
  by (simp add: et_learn_all_def)

lemma et_ok_learn_all: "et_ok self \<Longrightarrow> et_ok (et_learn_all registry rs self)"
proof (induction rs rule: rev_induct)
  case (snoc x rs)
  then show ?case
    by (cases x) (simp add: et_learn_all_snoc et_ok_learn)
qed (simp add: et_learn_all_def)

text \<open>The descriptions the records of a domain gave of an element, and what may be known of it.\<close>

definition descriptions :: "ie_registry \<Rightarrow> (u32 \<times> ipfix_data_record) list \<Rightarrow> u32 \<Rightarrow> element_key \<Rightarrow> description set" where
  "descriptions registry rs d key = {x. \<exists>r. (d, r) \<in> set rs \<and> describes registry r key x}"

fun entry_consistent :: "description set \<Rightarrow> bool \<Rightarrow> element_key \<Rightarrow> learned option \<Rightarrow> bool" where
  "entry_consistent D full key None \<longleftrightarrow> D = {} \<or> full"
| "entry_consistent D full key (Some (Defined known def)) \<longleftrightarrow>
     D = {known} \<and> def_id def = fst key \<and> def_enterprise_number def = snd key \<and>
     description_data_type known = Some (def_data_type def)"
| "entry_consistent D full key (Some Conflicting) \<longleftrightarrow> True"

definition et_consistent :: "ie_registry \<Rightarrow> (u32 \<times> ipfix_data_record) list \<Rightarrow> element_types \<Rightarrow> bool" where
  "et_consistent registry rs self \<longleftrightarrow>
     (\<forall>d key. entry_consistent (descriptions registry rs d key) (MAX_ELEMENTS \<le> et_len self) key
        (et_entry self d key))"

lemma describes_unique:
  "describes registry r key a \<Longrightarrow> describes registry r key' b \<longleftrightarrow> key' = key \<and> b = a"
  by (auto simp: describes_def)

lemma descriptions_snoc:
  "descriptions registry (rs @ [(d, r)]) d' key =
     descriptions registry rs d' key \<union> (if d' = d then {x. describes registry r key x} else {})"
  by (auto simp: descriptions_def)

lemma entry_consistent_mono:
  "entry_consistent D full key l \<Longrightarrow> (full \<Longrightarrow> full') \<Longrightarrow> entry_consistent D full' key l"
  by (cases "(D, full, key, l)" rule: entry_consistent.cases) auto

lemma et_consistent_learn:
  assumes "et_consistent registry rs self"
  shows "et_consistent registry (rs @ [(d, r)]) (fst (et_learn d r registry self))"
  unfolding et_consistent_def
proof (intro allI)
  fix d' key'
  let ?D = "descriptions registry rs d' key'" and ?full = "MAX_ELEMENTS \<le> et_len self"
  have old: "entry_consistent ?D ?full key' (et_entry self d' key')"
    by (rule assms [unfolded et_consistent_def, rule_format])
  show "entry_consistent (descriptions registry (rs @ [(d, r)]) d' key')
      (MAX_ELEMENTS \<le> et_len (fst (et_learn d r registry self))) key'
      (et_entry (fst (et_learn d r registry self)) d' key')"
  proof (cases rule: et_learn_cases [of d r registry self])
    case ignored
    have "entry_consistent (?D \<union> {x. describes registry r key' x}) ?full key' (et_entry self d' key')"
      if "d' = d"
    proof (cases "\<exists>x. describes registry r key' x")
      case True
      then obtain x where x: "describes registry r key' x" by blast
      then have "{x. describes registry r key' x} = {x}"
        using describes_unique [OF x] by auto
      then show ?thesis
        using ignored(2) [OF x] old that by auto
    qed (use old in simp)
    then show ?thesis
      using old by (simp add: ignored(1) descriptions_snoc)
  next
    case (conflict key description known def)
    show ?thesis
    proof (cases "d' = d \<and> key' = key")
      case True
      then show ?thesis by (simp add: conflict(4) et_entry_set)
    next
      case False
      then have "descriptions registry (rs @ [(d, r)]) d' key' = ?D"
        using describes_unique [OF conflict(1)] by (auto simp: descriptions_snoc)
      then show ?thesis
        using False old by (auto simp: conflict(4) et_entry_set)
    qed
  next
    case (learned key description name dt)
    have full: "\<not> ?full" using learned(3) by simp
    have entry: "et_entry (fst (et_learn d r registry self)) d' key' =
        (if d' = d \<and> key' = key then Some (Defined description \<lparr>def_id = fst key,
           def_enterprise_number = snd key, def_name = name, def_data_type = dt\<rparr>)
         else et_entry self d' key')"
      using et_entry_set [of d key _ self] by (simp add: learned(5) et_entry_def)
    show ?thesis
    proof (cases "d' = d \<and> key' = key")
      case True
      then have "?D = {}" using old learned(2) full by simp
      moreover have "{x. describes registry r key x} = {description}"
        using describes_unique [OF learned(1)] by auto
      ultimately show ?thesis
        unfolding entry using True learned(4) by (simp add: descriptions_snoc)
    next
      case False
      then have "descriptions registry (rs @ [(d, r)]) d' key' = ?D"
        using describes_unique [OF learned(1)] by (auto simp: descriptions_snoc)
      then show ?thesis
        unfolding entry using False old et_len_learn [of self d r registry]
        by (auto intro: entry_consistent_mono)
    qed
  qed
qed

lemma et_consistent_learn_all:
  "et_consistent registry rs (et_learn_all registry rs element_types_default)"
proof (induction rs rule: rev_induct)
  case Nil
  show ?case
    by (simp add: et_consistent_def descriptions_def et_learn_all_def element_types_default_def
        et_entry_def hm_laws)
next
  case (snoc x rs)
  then show ?case
    by (cases x) (simp add: et_learn_all_snoc et_consistent_learn)
qed

section \<open>Properties\<close>

text \<open>However many type records an exporter sends, for however many domains, the elements kept
  for it are counted exactly and never more than \<open>MAX_ELEMENTS\<close>.\<close>

theorem element_types_bounded:
  "et_len (et_learn_all registry rs element_types_default) =
     sum_list (map (\<lambda>m. length (hm_values m))
       (hm_values (et_domains (et_learn_all registry rs element_types_default)))) \<and>
   et_len (et_learn_all registry rs element_types_default) \<le> MAX_ELEMENTS"
  using et_ok_learn_all [OF et_ok_default, of registry rs] unfolding et_ok_def by blast

text \<open>An element an exporter described is decoded with a type only when the registry does not
  define it and every usable type record of its domain described it in the same way; the type
  is the one they name. Records that disagree, and only those of the same domain, leave it
  undecoded whatever comes after.\<close>

theorem element_types_agree:
  assumes "et_lookup (et_learn_all registry rs element_types_default) d n e = Some def"
  shows "registry_lookup registry n e = None \<and> def_id def = n \<and> def_enterprise_number def = e \<and>
    (\<exists>known. descriptions registry rs d (n, e) = {known} \<and>
      description_data_type known = Some (def_data_type def))"
proof -
  let ?self = "et_learn_all registry rs element_types_default"
  obtain known where entry: "et_entry ?self d (n, e) = Some (Defined known def)"
    using assms by (auto simp: et_lookup_entry split: option.splits learned.splits)
  then have "entry_consistent (descriptions registry rs d (n, e)) (MAX_ELEMENTS \<le> et_len ?self) (n, e)
      (Some (Defined known def))"
    using et_consistent_learn_all [of registry rs] by (metis et_consistent_def)
  then have known: "descriptions registry rs d (n, e) = {known}" and
    def: "def_id def = n" "def_enterprise_number def = e"
    "description_data_type known = Some (def_data_type def)"
    by simp_all
  then have "registry_lookup registry n e = None"
    by (auto simp: descriptions_def describes_def)
  with known def show ?thesis by blast
qed

definition type_record_example :: ipfix_data_record where
  "type_record_example =
     from_template
       (map (\<lambda>ie. \<lparr>rf_spec = specifier_from_ie ie 4, rf_data_type = DtUnsigned, rf_name = ''type''\<rparr>)
         [InformationElementId, PrivateEnterpriseNumber, InformationElementDataType])
       [Unsigned16 100, Unsigned32 9, Unsigned8 1]"

lemma type_record_example_lookup:
  "\<exists>def. et_lookup (et_learn_all registry_new [(1, type_record_example)] element_types_default)
     1 100 (Some 9) = Some def"
proof -
  have "description_read type_record_example = Some \<lparr>de_id = 100, de_enterprise_number = Some 9,
      de_data_type = 1, de_semantics = 0, de_name = None\<rparr>"
    by (simp add: description_read_def type_record_example_def record_iter_def from_template_def
        read_field_def specifier_from_ie_def specifier_iana_def value_unsigned_def try_from_u64_def
        Let_def del: ie_id.simps)
  then show ?thesis
    by (simp add: et_learn_all_def et_learn_def registry_lookup_def registry_new_def hm_laws
        element_types_default_def description_data_type_def semantics_fit_def MAX_ELEMENTS_def
        et_lookup_entry et_entry_set Let_def)
qed

theorem element_types_agree_witness:
  "\<exists>known. descriptions registry_new [(1, type_record_example)] 1 (100, Some 9) = {known}"
  using type_record_example_lookup element_types_agree [of registry_new "[(1, type_record_example)]" 1 100 "Some 9"]
  by blast

end
