(* ===== verification/Ipfix.thy ===== *)
theory Ipfix
  imports ElementTypes
begin

text \<open>
  \<^verbatim>\<open>ipfix/parser.rs\<close>: the IPFIX parser. Its state holds a registry, the elements the exporter
  described and two template caches. A template set inserts or withdraws templates; a data set is
  decoded with the template of its identifier, and the type records among its records change how
  the templates of the domain are decoded from then on.

  Values can be lists whose elements are again values or records of another template. The parser
  counts the nesting and keeps a list deeper than \<open>MAX_LIST_DEPTH\<close> as bytes; the model recurses
  over the levels that are left, \<open>MAX_LIST_DEPTH - depth\<close>. The functions of one level take the
  value parser of the next as their argument \<open>p\<close>. The two \<^verbatim>\<open>while\<close> loops over the bytes of a list
  have the number of those bytes as fuel, which is enough since each round consumes some
  (\<open>basic_list_loop_enough\<close>, \<open>multi_list_loop_enough\<close>).
\<close>

record ipfix_parser =
  ip_registry :: ie_registry
  ip_element_types :: element_types
  ip_templates :: "ipfix_resolved_field template_cache"
  ip_options_templates :: "ipfix_resolved_field template_cache"

record ipfix_nom = nom +
  ip_many0_sets :: "(ipfix_parser, ipfix_set) st_parser \<Rightarrow> (ipfix_parser, ipfix_set list) st_parser"
  ip_many0_templates :: "ipfix_template_record parser \<Rightarrow> ipfix_template_record list parser"
  ip_many0_options :: "ipfix_options_record parser \<Rightarrow> ipfix_options_record list parser"
  ip_many0_data :: "ipfix_data_record parser \<Rightarrow> ipfix_data_record list parser"
  ip_count_specifiers :: "field_specifier parser \<Rightarrow> nat \<Rightarrow> field_specifier list parser"

definition ipfix_new :: "nat \<Rightarrow> ie_registry \<Rightarrow> nat \<Rightarrow> ipfix_parser" where
  "ipfix_new now registry timeout =
     \<lparr>ip_registry = registry, ip_element_types = element_types_default,
      ip_templates = cache_new now timeout, ip_options_templates = cache_new now timeout\<rparr>"

section \<open>Templates\<close>

definition parse_field_specifier :: "'z nom_scheme \<Rightarrow> field_specifier parser" where
  "parse_field_specifier N input = do {
     (input, w) \<leftarrow> nom_be_u16 N input;
     let enterprise_bit = (w AND 0x8000 \<noteq> 0);
     let n = w AND 0x7fff;
     (input, len) \<leftarrow> nom_be_u16 N input;
     (input, enterprise_number) \<leftarrow>
       (if enterprise_bit then mapped Some (nom_be_u32 N input) else Some (input, None));
     Some (input, \<lparr>fs_enterprise_bit = enterprise_bit, fs_id = n, fs_length = len,
       fs_enterprise_number = enterprise_number\<rparr>)
   }"

definition parse_template_record :: "'z ipfix_nom_scheme \<Rightarrow> ipfix_template_record parser" where
  "parse_template_record N input = do {
     (input, template_id) \<leftarrow> nom_be_u16 N input;
     (input, field_count) \<leftarrow> nom_be_u16 N input;
     (input, fs) \<leftarrow> ip_count_specifiers N (parse_field_specifier N) (unat field_count) input;
     Some (input, \<lparr>tr_template_id = template_id, tr_field_count = field_count, tr_fields = fs\<rparr>)
   }"

definition parse_options_template_record :: "'z ipfix_nom_scheme \<Rightarrow> ipfix_options_record parser" where
  "parse_options_template_record N input = do {
     (input, template_id) \<leftarrow> nom_be_u16 N input;
     (input, field_count) \<leftarrow> nom_be_u16 N input;
     (input, scope_field_count) \<leftarrow> (if field_count = 0 then Some (input, 0) else nom_be_u16 N input);
     (input, fs) \<leftarrow> ip_count_specifiers N (parse_field_specifier N) (unat field_count) input;
     Some (input, \<lparr>or_template_id = template_id, or_field_count = field_count,
       or_scope_field_count = scope_field_count, or_fields = fs\<rparr>)
   }"

definition element_lookup ::
    "ie_registry \<Rightarrow> element_types \<Rightarrow> u32 \<Rightarrow> field_specifier \<Rightarrow> ie_definition option" where
  "element_lookup registry types domain spec =
     (case registry_lookup registry (fs_id spec) (fs_enterprise_number spec) of
        Some ie \<Rightarrow> Some ie
      | None \<Rightarrow> et_lookup types domain (fs_id spec) (fs_enterprise_number spec))"

definition resolve_field ::
    "ie_registry \<Rightarrow> element_types \<Rightarrow> u32 \<Rightarrow> field_specifier \<Rightarrow> ipfix_resolved_field" where
  "resolve_field registry types domain spec =
     (let (dt, name) = (case element_lookup registry types domain spec of
            None \<Rightarrow> (DtOctetArray, unknown_element_name (fs_id spec) (fs_enterprise_number spec))
          | Some ie \<Rightarrow> (def_data_type ie, def_name ie))
      in \<lparr>rf_spec = spec, rf_data_type = dt, rf_name = name\<rparr>)"

definition resolve_fields ::
    "ie_registry \<Rightarrow> element_types \<Rightarrow> u32 \<Rightarrow> field_specifier list \<Rightarrow> ipfix_resolved_field list" where
  "resolve_fields registry types domain fs = map (resolve_field registry types domain) fs"

definition withdraw_templates ::
    "u32 \<Rightarrow> u16 \<Rightarrow> u16 \<Rightarrow> ipfix_resolved_field template_cache \<Rightarrow> ipfix_resolved_field template_cache" where
  "withdraw_templates domain template_id all_id cache =
     (if template_id = all_id then cache_remove_domain domain cache
      else cache_remove (domain, template_id) cache)"

text \<open>What one template record of a set does to its cache.\<close>

definition apply_template ::
    "nat \<Rightarrow> ie_registry \<Rightarrow> element_types \<Rightarrow> u32 \<Rightarrow> u16 \<Rightarrow> u16 \<times> field_specifier list \<Rightarrow>
     ipfix_resolved_field template_cache \<Rightarrow> ipfix_resolved_field template_cache" where
  "apply_template now registry types domain all_id t cache = (case t of (template_id, fs) \<Rightarrow>
     if fs = [] then withdraw_templates domain template_id all_id cache
     else if ipfix_valid_template_id template_id then
       cache_insert now (domain, template_id) (resolve_fields registry types domain fs) cache
     else cache)"

section \<open>Values\<close>

definition parse_field_length :: "'z nom_scheme \<Rightarrow> u16 \<Rightarrow> nat parser" where
  "parse_field_length N field_length input =
     (if field_length \<noteq> IPFIX_VARIABLE_LENGTH then Some (input, unat field_length)
      else do {
        (input, first_byte) \<leftarrow> nom_be_u8 N input;
        if first_byte < 255 then Some (input, unat first_byte)
        else mapped unat (nom_be_u16 N input)
      })"

type_synonym value_parser = "data_type \<Rightarrow> nat \<Rightarrow> ipfix_value parser"

text \<open>The template for a key and the kind of record it makes.\<close>

definition ipfix_template_for ::
    "ipfix_parser \<Rightarrow> nat \<Rightarrow> template_key \<Rightarrow> (ipfix_resolved_field list \<times> (ipfix_data_record \<Rightarrow> ipfix_record)) option" where
  "ipfix_template_for self now key =
     (case cache_get (ip_templates self) now key of
        Some t \<Rightarrow> Some (t, RData)
      | None \<Rightarrow> (case cache_get (ip_options_templates self) now key of
          Some t \<Rightarrow> Some (t, ROptionsData)
        | None \<Rightarrow> None))"

definition parse_record_from_fields ::
    "'z nom_scheme \<Rightarrow> value_parser \<Rightarrow> ipfix_resolved_field list \<Rightarrow> ipfix_data_record parser" where
  "parse_record_from_fields N p fs input = do {
     (remaining, vs) \<leftarrow> read_values (\<lambda>field input. do {
         (input, field_length) \<leftarrow> parse_field_length N (fs_length (rf_spec field)) input;
         p (rf_data_type field) field_length input
       }) fs input;
     Some (remaining, from_template fs vs)
   }"

definition parse_templated_with ::
    "'z ipfix_nom_scheme \<Rightarrow> nat \<Rightarrow> ipfix_parser \<Rightarrow> u32 \<Rightarrow> value_parser \<Rightarrow> u16 \<Rightarrow> ipfix_record list parser" where
  "parse_templated_with N now self domain p template_id input =
     (case ipfix_template_for self now (domain, template_id) of
        None \<Rightarrow> Some (input, [])
      | Some (fs, wrap) \<Rightarrow>
          if fs = [] then Some (input, [])
          else do {
            (input, records) \<leftarrow> ip_many0_data N (parse_record_from_fields N p fs) input;
            Some (input, map wrap records)
          })"

text \<open>The \<^verbatim>\<open>filter_map\<close> over the records of a list.\<close>

definition data_records :: "ipfix_record list \<Rightarrow> ipfix_data_record list" where
  "data_records rs =
     List.map_filter (\<lambda>r. case r of RData dr \<Rightarrow> Some dr | ROptionsData dr \<Rightarrow> Some dr | _ \<Rightarrow> None) rs"

fun basic_list_loop ::
    "'z nom_scheme \<Rightarrow> value_parser \<Rightarrow> u16 \<Rightarrow> data_type \<Rightarrow> nat \<Rightarrow> bytes \<Rightarrow> ipfix_value list option" where
  "basic_list_loop N p field_length dt fuel [] = Some []"
| "basic_list_loop N p field_length dt 0 list_data = None"
| "basic_list_loop N p field_length dt (Suc fuel) list_data = do {
     (next_data, actual_length) \<leftarrow> parse_field_length N field_length list_data;
     if field_length = 0 \<or> length next_data < actual_length then Some []
     else do {
       (next_data, value) \<leftarrow> p dt actual_length next_data;
       content \<leftarrow> basic_list_loop N p field_length dt fuel next_data;
       Some (value # content)
     }
   }"

definition parse_basic_list ::
    "'z nom_scheme \<Rightarrow> ipfix_parser \<Rightarrow> u32 \<Rightarrow> value_parser \<Rightarrow> nat \<Rightarrow> ipfix_value parser" where
  "parse_basic_list N self domain p len input = do {
     (remaining, data) \<leftarrow> nom_take N len input;
     (data, sem) \<leftarrow> mapped semantic_from (nom_be_u8 N data);
     (data, field) \<leftarrow> parse_field_specifier N data;
     let dt = (case element_lookup (ip_registry self) (ip_element_types self) domain field of
                 None \<Rightarrow> DtOctetArray | Some ie \<Rightarrow> def_data_type ie);
     content \<leftarrow> basic_list_loop N p (fs_length field) dt (length data) data;
     Some (remaining, BasicList (MkBasicList sem field content))
   }"

definition parse_sub_template_list ::
    "'z ipfix_nom_scheme \<Rightarrow> nat \<Rightarrow> ipfix_parser \<Rightarrow> u32 \<Rightarrow> value_parser \<Rightarrow> nat \<Rightarrow> ipfix_value parser" where
  "parse_sub_template_list N now self domain p len input = do {
     (remaining, data) \<leftarrow> nom_take N len input;
     (data, sem) \<leftarrow> mapped semantic_from (nom_be_u8 N data);
     (data, template_id) \<leftarrow> nom_be_u16 N data;
     (_, records) \<leftarrow> parse_templated_with N now self domain p template_id data;
     Some (remaining, SubTemplateList (MkSubTemplateList sem template_id (data_records records)))
   }"

fun multi_list_loop ::
    "'z ipfix_nom_scheme \<Rightarrow> nat \<Rightarrow> ipfix_parser \<Rightarrow> u32 \<Rightarrow> value_parser \<Rightarrow> nat \<Rightarrow> bytes \<Rightarrow>
     ipfix_value multi_item list option" where
  "multi_list_loop N now self domain p fuel [] = Some []"
| "multi_list_loop N now self domain p 0 list_data = None"
| "multi_list_loop N now self domain p (Suc fuel) list_data = do {
     (next_data, template_id) \<leftarrow> nom_be_u16 N list_data;
     (next_data, item_length) \<leftarrow> nom_be_u16 N next_data;
     let content_length = unat item_length - 4;
     if content_length = 0 then multi_list_loop N now self domain p fuel next_data
     else do {
       (next_data, item_data) \<leftarrow> nom_take N content_length next_data;
       (_, records) \<leftarrow> parse_templated_with N now self domain p template_id item_data;
       items \<leftarrow> multi_list_loop N now self domain p fuel next_data;
       Some (MkMultiItem template_id item_length (data_records records) # items)
     }
   }"

definition parse_sub_template_multi_list ::
    "'z ipfix_nom_scheme \<Rightarrow> nat \<Rightarrow> ipfix_parser \<Rightarrow> u32 \<Rightarrow> value_parser \<Rightarrow> nat \<Rightarrow> ipfix_value parser" where
  "parse_sub_template_multi_list N now self domain p len input = do {
     (remaining, data) \<leftarrow> nom_take N len input;
     (data, sem) \<leftarrow> mapped semantic_from (nom_be_u8 N data);
     items \<leftarrow> multi_list_loop N now self domain p (length data) data;
     Some (remaining, SubTemplateMultiList (MkMultiList sem items))
   }"

definition is_list_type :: "data_type \<Rightarrow> bool" where
  "is_list_type dt \<longleftrightarrow> dt = DtBasicList \<or> dt = DtSubTemplateList \<or> dt = DtSubTemplateMultiList"

text \<open>The branches of \<^verbatim>\<open>parse_field_value\<close> for the types that are no lists.\<close>

definition parse_plain_value :: "'z nom_scheme \<Rightarrow> chrono \<Rightarrow> data_type \<Rightarrow> nat \<Rightarrow> ipfix_value parser" where
  "parse_plain_value N C dt len input =
     (if dt = DtBoolean \<and> len = 1 then
        mapped (\<lambda>v. case v of None \<Rightarrow> Null | Some v \<Rightarrow> Boolean v) (boolean N input)
      else if dt = DtUnsigned \<and> len = 1 then mapped Unsigned8 (nom_be_u8 N input)
      else if dt = DtUnsigned \<and> len = 2 then mapped Unsigned16 (nom_be_u16 N input)
      else if dt = DtUnsigned \<and> len = 4 then mapped Unsigned32 (nom_be_u32 N input)
      else if dt = DtUnsigned \<and> len = 8 then mapped Unsigned64 (nom_be_u64 N input)
      else if dt = DtUnsigned \<and> len = 3 then mapped Unsigned32 (nom_be_u24 N input)
      else if dt = DtUnsigned \<and> 5 \<le> len \<and> len \<le> 7 then mapped Unsigned64 (be_uint N len input)
      else if dt = DtSigned \<and> len = 1 then mapped Signed8 (nom_be_i8 N input)
      else if dt = DtSigned \<and> len = 2 then mapped Signed16 (nom_be_i16 N input)
      else if dt = DtSigned \<and> len = 4 then mapped Signed32 (nom_be_i32 N input)
      else if dt = DtSigned \<and> len = 8 then mapped Signed64 (nom_be_i64 N input)
      else if dt = DtSigned \<and> len = 3 then mapped Signed32 (nom_be_i24 N input)
      else if dt = DtSigned \<and> 5 \<le> len \<and> len \<le> 7 then mapped Signed64 (be_int N len input)
      else if dt = DtFloat \<and> len = 4 then mapped Float32 (nom_be_f32 N input)
      else if dt = DtFloat \<and> len = 8 then mapped Float64 (nom_be_f64 N input)
      else if dt = DtMacAddress \<and> len = 6 then mapped MacAddress (macaddr6 N input)
      else if dt = DtIpv4Address \<and> len = 4 then mapped Ipv4Address (ipv4_addr N input)
      else if dt = DtIpv6Address \<and> len = 16 then mapped Ipv6Address (ipv6_addr N input)
      else if dt = DtString then
        mapped (\<lambda>v. case v of None \<Rightarrow> Null | Some v \<Rightarrow> String v) (string N len input)
      else if dt = DtDateTimeSeconds \<and> len = 4 then mapped DateTimeSeconds (timestamp_secs N C input)
      else if dt = DtDateTimeMilliseconds \<and> len = 8 then
        mapped (\<lambda>v. case v of None \<Rightarrow> Null | Some v \<Rightarrow> DateTimeMilliseconds v) (timestamp_millis N C input)
      else if dt = DtDateTimeMicroseconds \<and> len = 8 then
        mapped DateTimeMicroseconds (timestamp_micros N C input)
      else if dt = DtDateTimeNanoseconds \<and> len = 8 then
        mapped DateTimeNanoseconds (timestamp_nanos N C input)
      else mapped OctetArray (vector N len input))"

text \<open>The value parser with \<open>levels\<close> levels of lists left to decode.\<close>

primrec parse_value_levels ::
    "'z ipfix_nom_scheme \<Rightarrow> chrono \<Rightarrow> nat \<Rightarrow> ipfix_parser \<Rightarrow> u32 \<Rightarrow> nat \<Rightarrow> value_parser" where
  "parse_value_levels N C now self domain 0 = (\<lambda>dt len input.
     if is_list_type dt then mapped OctetArray (vector N len input)
     else parse_plain_value N C dt len input)"
| "parse_value_levels N C now self domain (Suc levels) = (\<lambda>dt len input.
     let p = parse_value_levels N C now self domain levels in
     if dt = DtBasicList then parse_basic_list N self domain p len input
     else if dt = DtSubTemplateList then parse_sub_template_list N now self domain p len input
     else if dt = DtSubTemplateMultiList then parse_sub_template_multi_list N now self domain p len input
     else parse_plain_value N C dt len input)"

definition parse_field_value ::
    "'z ipfix_nom_scheme \<Rightarrow> chrono \<Rightarrow> nat \<Rightarrow> ipfix_parser \<Rightarrow> u32 \<Rightarrow> nat \<Rightarrow> value_parser" where
  "parse_field_value N C now self domain depth =
     parse_value_levels N C now self domain (MAX_LIST_DEPTH - depth)"

definition parse_templated_records ::
    "'z ipfix_nom_scheme \<Rightarrow> chrono \<Rightarrow> nat \<Rightarrow> ipfix_parser \<Rightarrow> u32 \<Rightarrow> u16 \<Rightarrow> nat \<Rightarrow> ipfix_record list parser" where
  "parse_templated_records N C now self domain template_id depth =
     parse_templated_with N now self domain (parse_field_value N C now self domain depth) template_id"

section \<open>The parser\<close>

text \<open>The loop of \<^verbatim>\<open>learn_element_types\<close>, with the flag that something changed.\<close>

definition learn_step ::
    "u32 \<Rightarrow> ie_registry \<Rightarrow> ipfix_record \<Rightarrow> element_types \<times> bool \<Rightarrow> element_types \<times> bool" where
  "learn_step domain registry r st = (case st of (types, changed) \<Rightarrow>
     (case r of
        ROptionsData data \<Rightarrow>
          (case et_learn domain data registry types of (types, c) \<Rightarrow> (types, changed \<or> c))
      | _ \<Rightarrow> (types, changed)))"

definition re_resolve ::
    "ie_registry \<Rightarrow> element_types \<Rightarrow> u32 \<Rightarrow> ipfix_resolved_field list \<Rightarrow> ipfix_resolved_field list" where
  "re_resolve registry types domain fs = resolve_fields registry types domain (map rf_spec fs)"

definition learn_element_types :: "u32 \<Rightarrow> ipfix_record list \<Rightarrow> ipfix_parser \<Rightarrow> ipfix_parser" where
  "learn_element_types domain records self =
     (let registry = ip_registry self;
          (types, changed) = fold (learn_step domain registry) records (ip_element_types self, False);
          self = self\<lparr>ip_element_types := types\<rparr>
      in if \<not> changed then self
         else self\<lparr>
           ip_templates := cache_refresh_domain domain (re_resolve registry types domain) (ip_templates self),
           ip_options_templates :=
             cache_refresh_domain domain (re_resolve registry types domain) (ip_options_templates self)\<rparr>)"

definition parse_records ::
    "'z ipfix_nom_scheme \<Rightarrow> chrono \<Rightarrow> nat \<Rightarrow> u32 \<Rightarrow> u16 \<Rightarrow> (ipfix_parser, ipfix_record list) st_parser" where
  "parse_records N C now domain sid self input =
     (if sid = IPFIX_TEMPLATE_SET_ID then
        (case ip_many0_templates N (parse_template_record N) input of
           None \<Rightarrow> (self, None)
         | Some (input, templates) \<Rightarrow>
             (self\<lparr>ip_templates := fold (\<lambda>t. apply_template now (ip_registry self) (ip_element_types self)
                domain IPFIX_TEMPLATE_SET_ID (tr_template_id t, tr_fields t)) templates (ip_templates self)\<rparr>,
              Some (input, map RTemplate templates)))
      else if sid = IPFIX_OPTIONS_TEMPLATE_SET_ID then
        (case ip_many0_options N (parse_options_template_record N) input of
           None \<Rightarrow> (self, None)
         | Some (input, templates) \<Rightarrow>
             (self\<lparr>ip_options_templates := fold (\<lambda>t. apply_template now (ip_registry self)
                (ip_element_types self) domain IPFIX_OPTIONS_TEMPLATE_SET_ID
                (or_template_id t, or_fields t)) templates (ip_options_templates self)\<rparr>,
              Some (input, map ROptionsTemplate templates)))
      else if ipfix_valid_template_id sid then
        (case parse_templated_records N C now self domain sid 0 input of
           None \<Rightarrow> (self, None)
         | Some (input, records) \<Rightarrow> (learn_element_types domain records self, Some (input, records)))
      else (self, Some (input, [])))"

definition set_frame :: "'z nom_scheme \<Rightarrow> (u16 \<times> u16 \<times> bytes) parser" where
  "set_frame N input = do {
     (input, sid) \<leftarrow> nom_be_u16 N input;
     (input, len) \<leftarrow> nom_be_u16 N input;
     if unat len < SET_HEADER_SIZE then None
     else do {
       (input, data) \<leftarrow> nom_take N (unat len - SET_HEADER_SIZE) input;
       Some (input, sid, len, data)
     }
   }"

definition parse_set ::
    "'z ipfix_nom_scheme \<Rightarrow> chrono \<Rightarrow> nat \<Rightarrow> u32 \<Rightarrow> (ipfix_parser, ipfix_set) st_parser" where
  "parse_set N C now domain self input =
     (case set_frame N input of
        None \<Rightarrow> (self, None)
      | Some (input, sid, len, data) \<Rightarrow>
          (case parse_records N C now domain sid self data of
             (self, None) \<Rightarrow> (self, None)
           | (self, Some (_, records)) \<Rightarrow>
               (self, Some (input, \<lparr>set_id = sid, set_length = len, set_records = records\<rparr>))))"

definition parse_header :: "'z nom_scheme \<Rightarrow> chrono \<Rightarrow> ipfix_header parser" where
  "parse_header N C input = do {
     (input, version) \<leftarrow> verify_version N input IPFIX_VERSION;
     (input, len) \<leftarrow> nom_be_u16 N input;
     (input, export_time) \<leftarrow> timestamp_secs N C input;
     (input, sequence_number) \<leftarrow> nom_be_u32 N input;
     (input, domain) \<leftarrow> nom_be_u32 N input;
     Some (input, \<lparr>ih_version = version, ih_length = len, ih_export_time = export_time,
       ih_sequence_number = sequence_number, ih_domain = domain\<rparr>)
   }"

definition ipfix_parse :: "'z ipfix_nom_scheme \<Rightarrow> chrono \<Rightarrow> nat \<Rightarrow> (ipfix_parser, ipfix_packet) st_parser" where
  "ipfix_parse N C now self input =
     (case do {
        (input, header) \<leftarrow> parse_header N C input;
        (input, data) \<leftarrow> nom_take N (unat (ih_length header) - IPFIX_HEADER_SIZE) input;
        Some (input, header, data)
      } of
        None \<Rightarrow> (self, None)
      | Some (input, header, data) \<Rightarrow>
          (case ip_many0_sets N (parse_set N C now (ih_domain header)) self data of
             (self, None) \<Rightarrow> (self, None)
           | (self, Some (_, sets)) \<Rightarrow> (self, Some (input, \<lparr>ip_header = header, ip_sets = sets\<rparr>))))"

inductive ipfix_reachable :: "'z ipfix_nom_scheme \<Rightarrow> chrono \<Rightarrow> nat \<Rightarrow> nat \<Rightarrow> ipfix_parser \<Rightarrow> bool"
  for N C timeout where
  new: "ipfix_reachable N C timeout now (ipfix_new now registry timeout)"
| wait: "ipfix_reachable N C timeout now self \<Longrightarrow> now \<le> now' \<Longrightarrow> ipfix_reachable N C timeout now' self"
| parse: "ipfix_reachable N C timeout now self \<Longrightarrow>
    ipfix_reachable N C timeout now (fst (ipfix_parse N C now self input))"

section \<open>Values consume exactly their length\<close>

text \<open>A parser that, when it succeeds, has consumed \<open>n\<close> bytes.\<close>

definition exact_len :: "nat \<Rightarrow> 'a parser \<Rightarrow> bool" where
  "exact_len n p \<longleftrightarrow> (\<forall>i i' x. p i = Some (i', x) \<longrightarrow> i' = drop n i \<and> n \<le> length i)"

definition value_parser_ok :: "value_parser \<Rightarrow> bool" where
  "value_parser_ok p \<longleftrightarrow> (\<forall>dt len. exact_len len (p dt len))"

lemma fixed_exact: "fixed_len n p \<Longrightarrow> exact_len n p"
  by (auto simp: exact_len_def dest: fixed_lenD(2))

lemma exact_lenD: "exact_len n p \<Longrightarrow> p i = Some (i', x) \<Longrightarrow> i' = drop n i \<and> n \<le> length i"
  unfolding exact_len_def by blast

lemma exact_len_nonincr: "exact_len n p \<Longrightarrow> nonincr p"
  by (rule nonincrI) (auto dest: exact_lenD)

lemma value_parser_okD:
  "value_parser_ok p \<Longrightarrow> p dt len i = Some (i', x) \<Longrightarrow> i' = drop len i \<and> len \<le> length i"
  unfolding value_parser_ok_def by (rule exact_lenD) blast

text \<open>What all operations on the templates of domain \<open>d\<close> keep of a cache.\<close>

definition domain_kept :: "nat \<Rightarrow> u32 \<Rightarrow> (ipfix_resolved_field template_cache \<Rightarrow> bool) \<Rightarrow> bool" where
  "domain_kept now d P \<longleftrightarrow>
     (\<forall>c tid fs. P c \<longrightarrow> P (cache_insert now (d, tid) fs c)) \<and>
     (\<forall>c tid. P c \<longrightarrow> P (cache_remove (d, tid) c)) \<and>
     (\<forall>c. P c \<longrightarrow> P (cache_remove_domain d c)) \<and>
     (\<forall>c registry types. P c \<longrightarrow> P (cache_refresh_domain d (re_resolve registry types d) c))"

locale ipfix_nom_spec = wire_spec N C for N :: "'z ipfix_nom_scheme" and C +
  assumes many0_sets_spec: "is_many0_st (ip_many0_sets N)"
    and many0_templates_spec: "is_many0 (ip_many0_templates N)"
    and many0_options_spec: "is_many0 (ip_many0_options N)"
    and many0_data_spec: "is_many0 (ip_many0_data N)"
    and count_specifiers_spec: "is_count (ip_count_specifiers N)"
begin

lemma fixed_plain_value: "fixed_len len (parse_plain_value N C dt len)"
  unfolding parse_plain_value_def [abs_def]
  by (intro fixed_len_if; (elim conjE)?; (hypsubst)?; intro fixed_len_intros)

lemma take_exact:
  "exact_len n (\<lambda>i. nom_take N n i \<bind> (\<lambda>(remaining, data). f data \<bind> (\<lambda>x. Some (remaining, g x))))"
  by (auto simp: exact_len_def take_spec bind_eq_Some_conv split: if_splits)

lemma list_values_exact:
  "exact_len len (parse_basic_list N self domain p len)"
  "exact_len len (parse_sub_template_list N now self domain p len)"
  "exact_len len (parse_sub_template_multi_list N now self domain p len)"
  unfolding exact_len_def parse_basic_list_def parse_sub_template_list_def
    parse_sub_template_multi_list_def Let_def
  by (auto simp: take_spec bind_eq_Some_conv split: if_splits)

lemma value_parser_ok_levels: "value_parser_ok (parse_value_levels N C now self domain levels)"
proof (cases levels)
  case 0
  have "fixed_len len (parse_value_levels N C now self domain 0 dt len)" for dt len
    by (simp, intro fixed_len_intros fixed_plain_value)
  with 0 show ?thesis
    by (auto simp: value_parser_ok_def intro: fixed_exact)
next
  case (Suc n)
  have "exact_len len (parse_value_levels N C now self domain (Suc n) dt len)" for dt len
    using list_values_exact fixed_exact [OF fixed_plain_value, of len dt]
    by (cases dt) (simp_all add: Let_def)
  with Suc show ?thesis
    by (simp add: value_parser_ok_def)
qed

lemma value_parser_ok_field: "value_parser_ok (parse_field_value N C now self domain depth)"
  by (simp add: parse_field_value_def value_parser_ok_levels)

lemma field_length_cases:
  assumes "parse_field_length N fl i = Some (i', len)"
  shows "length i' \<le> length i" and "fl = IPFIX_VARIABLE_LENGTH \<Longrightarrow> length i' < length i"
    and "fl \<noteq> IPFIX_VARIABLE_LENGTH \<Longrightarrow> i' = i \<and> len = unat fl"
  using assms
  by (auto simp: parse_field_length_def be_specs be_read_def bind_eq_Some_conv split: if_splits)

lemma nonincr_field_length: "nonincr (parse_field_length N fl)"
  by (auto intro!: nonincrI dest: field_length_cases(1))

text \<open>The fuel of the loop over a basic list: any that is at least the length gives the same.\<close>

lemma basic_list_loop_enough:
  assumes "value_parser_ok p"
  shows "length data \<le> fuel \<Longrightarrow> length data \<le> fuel' \<Longrightarrow>
    basic_list_loop N p fl dt fuel data = basic_list_loop N p fl dt fuel' data"
proof (induction "length data" arbitrary: data fuel fuel' rule: less_induct)
  case less
  show ?case
  proof (cases data)
    case (Cons b bs)
    with less.prems obtain m m' where fuel: "fuel = Suc m" "fuel' = Suc m'"
      by (cases fuel; cases fuel') auto
    have rec: "basic_list_loop N p fl dt m next' = basic_list_loop N p fl dt m' next'"
      if "parse_field_length N fl data = Some (next_data, len)" "fl \<noteq> 0"
        "p dt len next_data = Some (next', v)" for next_data len next' v
    proof -
      have "next' = drop len next_data" "len \<le> length next_data"
        using value_parser_okD [OF assms that(3)] by auto
      moreover have "length next_data < length data \<or> next_data = data \<and> 0 < len"
        using field_length_cases [OF that(1)] that(2)
        by (cases "fl = IPFIX_VARIABLE_LENGTH") (auto simp: unat_gt_0)
      moreover have "data \<noteq> []" using Cons by simp
      ultimately have "length next' < length data"
        using length_greater_0_conv [of data] by (auto simp del: length_greater_0_conv)
      then show ?thesis
        using less.prems fuel by (intro less.hyps) auto
    qed
    then show ?thesis
      unfolding Cons fuel basic_list_loop.simps
      by (auto simp: Cons [symmetric] intro!: Option.bind_cong [OF refl] split: prod.splits)
  qed simp
qed

lemma multi_list_loop_enough:
  "length data \<le> fuel \<Longrightarrow> length data \<le> fuel' \<Longrightarrow>
    multi_list_loop N now self domain p fuel data = multi_list_loop N now self domain p fuel' data"
proof (induction "length data" arbitrary: data fuel fuel' rule: less_induct)
  case less
  show ?case
  proof (cases data)
    case (Cons b bs)
    with less.prems obtain m m' where fuel: "fuel = Suc m" "fuel' = Suc m'"
      by (cases fuel; cases fuel') auto
    have rec: "length next' < length data \<Longrightarrow>
        multi_list_loop N now self domain p m next' = multi_list_loop N now self domain p m' next'" for next'
      using less.prems fuel by (intro less.hyps) auto
    have u16: "length i' < length i" if "nom_be_u16 N i = Some (i', w)" for i i' w
      using that by (auto simp: be_specs be_read_def split: if_splits)
    show ?thesis
    proof (cases "\<exists>d1 tid d2 len. nom_be_u16 N data = Some (d1, tid) \<and> nom_be_u16 N d1 = Some (d2, len)")
      case False
      show ?thesis
      proof (cases "nom_be_u16 N (b # bs)")
        case (Some r)
        obtain d1 tid where r: "r = (d1, tid)" by force
        then have "nom_be_u16 N d1 = None"
          using False Some Cons by (cases "nom_be_u16 N d1") auto
        then show ?thesis using Some r by (simp add: Cons fuel)
      qed (simp add: Cons fuel)
    next
      case True
      then obtain d1 tid d2 len where d: "nom_be_u16 N data = Some (d1, tid)" "nom_be_u16 N d1 = Some (d2, len)"
        by blast
      then have "length d2 < length data"
        using u16 less_trans by blast
      moreover have "length d3 \<le> length d2" if "nom_take N k d2 = Some (d3, x)" for k d3 x
        using that by (auto simp: take_spec split: if_splits)
      ultimately have "multi_list_loop N now self domain p m d3 = multi_list_loop N now self domain p m' d3"
        if "d3 = d2 \<or> (\<exists>k x. nom_take N k d2 = Some (d3, x))" for d3
        using that by (intro rec) fastforce
      then show ?thesis
        using d unfolding Cons fuel multi_list_loop.simps
        by (auto simp: Let_def intro!: Option.bind_cong [OF refl] split: prod.splits) metis
    qed
  qed simp
qed

text \<open>The loop as the source has it.\<close>

lemma basic_list_while:
  assumes "value_parser_ok p"
  shows "basic_list_loop N p fl dt (length data) data =
    (if data = [] then Some []
     else do {
       (next_data, actual_length) \<leftarrow> parse_field_length N fl data;
       if fl = 0 \<or> length next_data < actual_length then Some []
       else do {
         (next_data, value) \<leftarrow> p dt actual_length next_data;
         content \<leftarrow> basic_list_loop N p fl dt (length next_data) next_data;
         Some (value # content)
       }
     })"
proof (cases data)
  case (Cons b bs)
  have rec: "basic_list_loop N p fl dt (length bs) next' = basic_list_loop N p fl dt (length next') next'"
    if "parse_field_length N fl data = Some (next_data, len)" "fl \<noteq> 0"
      "p dt len next_data = Some (next', v)" for next_data len next' v
  proof -
    have "next' = drop len next_data" "len \<le> length next_data"
      using value_parser_okD [OF assms that(3)] by auto
    moreover have "length next_data < length data \<or> next_data = data \<and> 0 < len"
      using field_length_cases [OF that(1)] that(2)
        by (cases "fl = IPFIX_VARIABLE_LENGTH") (auto simp: unat_gt_0)
    ultimately have "length next' \<le> length bs"
      using Cons by auto
    then show ?thesis
      using basic_list_loop_enough [OF assms, of next' "length bs" "length next'"] by simp
  qed
  then show ?thesis
    by (auto simp: Cons intro!: Option.bind_cong [OF refl] split: prod.splits)
qed simp

lemma nonincr_record:
  assumes "value_parser_ok p"
  shows "nonincr (parse_record_from_fields N p fs)"
proof -
  have p: "nonincr (p dt len)" for dt len
    using assms unfolding value_parser_ok_def by (blast intro: exact_len_nonincr)
  have "nonincr (\<lambda>i. parse_field_length N fl i \<bind> (\<lambda>(i, len). p dt len i))" for fl dt
    by (intro nonincr_bind nonincr_field_length p)
  then show ?thesis
    unfolding parse_record_from_fields_def [abs_def]
    by (intro nonincr_bind nonincr_read_values nonincr_return nonincr_field_length p)
qed

lemma many0_data:
  "value_parser_ok p \<Longrightarrow>
    ip_many0_data N (parse_record_from_fields N p fs) = many0_loop (parse_record_from_fields N p fs)"
  by (intro is_many0D [OF many0_data_spec] nonincr_record)

lemma record_fields:
  "parse_record_from_fields N p fs i = Some (i', r) \<Longrightarrow> dr_fields r = fs \<and> record_ok r"
  by (auto simp: parse_record_from_fields_def from_template_def record_ok_def bind_eq_Some_conv
      dest: read_values_length)

lemma set_frame_eq:
  "set_frame N i =
     (if 4 \<le> length i \<and> 4 \<le> be_nat (take 2 (drop 2 i)) \<and> be_nat (take 2 (drop 2 i)) \<le> length i
      then Some (drop (be_nat (take 2 (drop 2 i))) i, from_be_bytes (take 2 i),
        from_be_bytes (take 2 (drop 2 i)), drop 4 (take (be_nat (take 2 (drop 2 i))) i))
      else None)"
proof (cases "4 \<le> length i")
  case False
  then show ?thesis
    by (auto simp: set_frame_def be_specs be_read_def)
next
  case True
  let ?n = "be_nat (take 2 (drop 2 i))"
  have "length (take 2 (drop 2 i)) = 2" using True by simp
  then have "?n < 256 ^ 2"
    using be_nat_bound [of "take 2 (drop 2 i)"] by metis
  then have n: "unat (from_be_bytes (take 2 (drop 2 i)) :: u16) = ?n"
    unfolding from_be_bytes_def by (intro unat_word_of_nat) simp
  show ?thesis
    using True
    by (auto simp: set_frame_def be_specs be_read_def take_spec SET_HEADER_SIZE_def n drop_take)
qed

lemma set_consuming: "st_consuming (parse_set N C now domain)"
proof -
  have "set_frame N i = Some (i', x) \<Longrightarrow> length i' + 4 \<le> length i" for i i' x
    by (auto simp: set_frame_eq split: if_splits)
  then show ?thesis
    unfolding st_consuming_def parse_set_def
    by (fastforce split: option.splits prod.splits)
qed

lemma many0_sets: "ip_many0_sets N (parse_set N C now domain) self =
    many0_st_loop (parse_set N C now domain) self"
  by (intro is_many0_stD [OF many0_sets_spec] st_consuming_nonincr set_consuming)

lemma guarded_header:
  "guarded_len 16 (\<lambda>i. \<exists>i' v. nom_be_u16 N i = Some (i', v) \<and> v = IPFIX_VERSION) (parse_header N C)"
proof -
  have "guarded_len (2 + (2 + (4 + (4 + (4 + 0)))))
    (\<lambda>i. \<exists>i' v. nom_be_u16 N i = Some (i', v) \<and> v = IPFIX_VERSION) (parse_header N C)"
    unfolding parse_header_def [abs_def] verify_version_def
    by (rule guarded_len_bind, (rule fixed_len_intros)+)
  then show ?thesis by simp
qed

lemma header_length:
  assumes "parse_header N C i = Some (i', h)"
  shows "unat (ih_length h) = be_nat (take 2 (drop 2 i))"
proof -
  have len: "ih_length h = from_be_bytes (take 2 (drop 2 i))" and "16 \<le> length i"
    using assms guarded_lenD(2) [OF guarded_header assms]
    by (auto simp: parse_header_def verify_version_def bind_eq_Some_conv be_specs be_read_def
        split: if_splits)
  then have "length (take 2 (drop 2 i)) = 2" by simp
  then have "be_nat (take 2 (drop 2 i)) < 256 ^ 2"
    using be_nat_bound [of "take 2 (drop 2 i)"] by metis
  then show ?thesis
    unfolding len from_be_bytes_def by (intro unat_word_of_nat) simp
qed

lemma parse_cases:
  "if length i < 16 \<or> from_be_bytes (take 2 i) \<noteq> IPFIX_VERSION \<or> length i < be_nat (take 2 (drop 2 i))
   then ipfix_parse N C now self i = (self, None)
   else \<exists>self' self0 h sets left. ipfix_parse N C now self i =
       (self', Some (drop (max 16 (be_nat (take 2 (drop 2 i)))) i, \<lparr>ip_header = h, ip_sets = sets\<rparr>)) \<and>
     parse_header N C i = Some (drop 16 i, h) \<and>
     many0_st_loop (parse_set N C now (ih_domain h)) self (take (be_nat (take 2 (drop 2 i)) - 16) (drop 16 i)) =
       (self', Some (left, sets)) \<and>
     parse_set N C now (ih_domain h) self0 left = (self', None)"
proof (cases "parse_header N C i")
  case None
  then have "length i < 16 \<or> from_be_bytes (take 2 i) \<noteq> IPFIX_VERSION"
    using guarded_lenD(1) [OF guarded_header, of i] by (auto simp: be_specs be_read_def)
  with None show ?thesis by (auto simp: ipfix_parse_def)
next
  case (Some r)
  obtain h where r: "r = (drop 16 i, h)" and len: "16 \<le> length i"
    and v: "from_be_bytes (take 2 i) = IPFIX_VERSION"
    using guarded_lenD(2) [OF guarded_header, of i] Some
    by (cases r) (auto simp: be_specs be_read_def)
  let ?n = "be_nat (take 2 (drop 2 i))"
  have n: "unat (ih_length h) = ?n"
    using header_length Some r by blast
  show ?thesis
  proof (cases "length i < ?n")
    case True
    then show ?thesis
      using Some r len v n by (auto simp: ipfix_parse_def take_spec IPFIX_HEADER_SIZE_def)
  next
    case False
    obtain self' self0 left sets where l:
      "many0_st_loop (parse_set N C now (ih_domain h)) self (take (?n - 16) (drop 16 i)) = (self', Some (left, sets))"
      "parse_set N C now (ih_domain h) self0 left = (self', None)"
      using many0_st_loop_total [OF set_consuming] by blast
    have "drop (?n - 16) (drop 16 i) = drop (max 16 ?n) i"
      by (simp add: max_def)
    then have "ipfix_parse N C now self i =
        (self', Some (drop (max 16 ?n) i, \<lparr>ip_header = h, ip_sets = sets\<rparr>))"
      using Some r len n False l by (simp add: ipfix_parse_def take_spec IPFIX_HEADER_SIZE_def many0_sets)
    then show ?thesis
      using Some r len v False l by auto
  qed
qed

text \<open>
  What the operations on one domain's templates keep, a set of that domain keeps: \<open>P\<close> is a property
  of the templates, \<open>Q\<close> of the options templates.
\<close>

lemma apply_templates_kept:
  assumes "domain_kept now d P" and "P c"
  shows "P (fold (\<lambda>t. apply_template now registry types d all_id (k t, g t)) ts c)"
proof -
  have "P (apply_template now registry types d all_id (tid, fs) c)" if "P c" for tid fs c
    using assms(1) that
    by (auto simp: apply_template_def withdraw_templates_def domain_kept_def)
  then show ?thesis
    using assms(2) by (induction ts arbitrary: c) simp_all
qed

lemma learn_kept:
  assumes "domain_kept now d P" and "domain_kept now d Q"
    and "P (ip_templates self)" and "Q (ip_options_templates self)"
  shows "P (ip_templates (learn_element_types d rs self)) \<and>
    Q (ip_options_templates (learn_element_types d rs self))"
  using assms by (auto simp: learn_element_types_def Let_def domain_kept_def split: prod.splits)

lemma parse_set_kept:
  assumes "domain_kept now d P" and "domain_kept now d Q"
    and "P (ip_templates self) \<and> Q (ip_options_templates self)"
  shows "P (ip_templates (fst (parse_set N C now d self i))) \<and>
    Q (ip_options_templates (fst (parse_set N C now d self i)))"
  using assms(3) apply_templates_kept [OF assms(1)] apply_templates_kept [OF assms(2)]
    learn_kept [OF assms(1,2)]
  by (auto simp: parse_set_def parse_records_def split: option.splits prod.splits)

lemma parse_kept:
  assumes "domain_kept now d P" and "domain_kept now d Q"
    and "P (ip_templates self)" and "Q (ip_options_templates self)"
    and "\<And>h i'. parse_header N C i = Some (i', h) \<Longrightarrow> ih_domain h = d"
  shows "P (ip_templates (fst (ipfix_parse N C now self i))) \<and>
    Q (ip_options_templates (fst (ipfix_parse N C now self i)))"
proof (cases "parse_header N C i")
  case None
  then show ?thesis using assms(3,4) by (simp add: ipfix_parse_def)
next
  case (Some r)
  obtain i1 h where r: "r = (i1, h)" by force
  have d: "ih_domain h = d" using Some r assms(5) by blast
  let ?I = "\<lambda>self. P (ip_templates self) \<and> Q (ip_options_templates self)"
  have "?I (fst (many0_st_loop (parse_set N C now d) self data))" for data
    by (rule many0_st_loop_state [where I = ?I])
      (use parse_set_kept [OF assms(1,2)] assms(3,4) in blast)+
  then show ?thesis
    using Some r d assms(3,4)
    by (auto simp: ipfix_parse_def many0_sets take_spec split: option.splits prod.splits)
      (metis fst_conv)+
qed

lemma re_resolve_length: "length (re_resolve registry types d fs) = length fs"
  by (simp add: re_resolve_def resolve_fields_def)

lemma reachable_kept: "domain_kept now d (cache_reachable timeout now)"
  unfolding domain_kept_def
  by (blast intro: cache_reachable.step cache_step.intros re_resolve_length)

lemma header_domain: "\<exists>d. \<forall>h i'. parse_header N C i = Some (i', h) \<longrightarrow> ih_domain h = d"
  by (cases "parse_header N C i") auto

lemma reachable_caches:
  assumes "ipfix_reachable N C timeout now self"
  shows "cache_reachable timeout now (ip_templates self) \<and>
    cache_reachable timeout now (ip_options_templates self)"
  using assms
proof induction
  case (new now registry)
  then show ?case by (simp add: ipfix_new_def cache_reachable.new)
next
  case (wait now self now')
  then show ?case by (blast intro: cache_reachable.step cache_step.tick)
next
  case (parse now self input)
  obtain d where "\<And>h i'. parse_header N C input = Some (i', h) \<Longrightarrow> ih_domain h = d"
    using header_domain by blast
  then show ?case
    using parse parse_kept [OF reachable_kept [of now d timeout] reachable_kept [of now d timeout]]
    by blast
qed

end

end
