(* ===== verification/IpfixProps.thy ===== *)
theory IpfixProps
  imports Ipfix
begin

text \<open>
  What the IPFIX parser of \<open>Ipfix\<close> guarantees: its caches stay within their budget and always hold
  what is known now of their elements, domains do not disturb one another, a template set has the
  effect of its last record for an identifier, a data set is cut into its records, and lists
  nest at most \<open>MAX_LIST_DEPTH\<close> deep.
\<close>

section \<open>Template sets\<close>

text \<open>The record of a template set that decides what identifier \<open>tid\<close> stands for afterwards.\<close>

definition decides :: "u16 \<Rightarrow> u16 \<Rightarrow> u16 \<times> field_specifier list \<Rightarrow> bool" where
  "decides all_id tid t \<longleftrightarrow> fst t = tid \<or> snd t = [] \<and> fst t = all_id"

lemma apply_template_inv:
  assumes "cache_ok c \<and> cache_timely now c"
  shows "cache_ok (apply_template now registry types d all_id t c) \<and>
    cache_timely now (apply_template now registry types d all_id t c)"
  using assms tc.inv_ins [of c now] tc.inv_rem [of c now] tc.inv_rem_domain [of c now]
  by (auto simp: apply_template_def withdraw_templates_def split: prod.splits)

lemma fold_apply_template_inv:
  "cache_ok c \<and> cache_timely now c \<Longrightarrow>
    cache_ok (fold (apply_template now registry types d all_id) ts c) \<and>
    cache_timely now (fold (apply_template now registry types d all_id) ts c)"
  by (rule tc.inv_fold) (rule apply_template_inv)

lemma get_apply_templates:
  assumes "cache_ok c \<and> cache_timely now c" and "now \<le> t" and "ipfix_valid_template_id tid"
  shows "case find (decides all_id tid) (rev ts) of
      None \<Rightarrow> cache_get (fold (apply_template now registry types d all_id) ts c) t (d, tid) =
        cache_get c t (d, tid)
    | Some (k, fs) \<Rightarrow> if fs = []
        then cache_get (fold (apply_template now registry types d all_id) ts c) t (d, tid) = None
        else cache_get (fold (apply_template now registry types d all_id) ts c) t (d, tid)
          \<in> {None, Some (resolve_fields registry types d fs)}"
proof (induction ts rule: rev_induct)
  case (snoc x ts)
  let ?c = "fold (apply_template now registry types d all_id) ts c"
  obtain k fs where x: "x = (k, fs)" by force
  note inv = fold_apply_template_inv [OF assms(1), of registry types d all_id ts]
  note get = tc.get_ins [OF inv assms(2), of "(d, k)" "resolve_fields registry types d fs" "(d, tid)"]
  have eq: "apply_template now registry types d all_id (k, fs) ?c =
      (if fs = [] then (if k = all_id then cache_remove_domain d ?c else cache_remove (d, k) ?c)
       else if ipfix_valid_template_id k then cache_insert now (d, k) (resolve_fields registry types d fs) ?c
       else ?c)"
    by (simp add: apply_template_def withdraw_templates_def)
  show ?case
  proof (cases "decides all_id tid x")
    case True
    then have "if fs = [] then cache_get (apply_template now registry types d all_id (k, fs) ?c) t (d, tid) = None
        else cache_get (apply_template now registry types d all_id (k, fs) ?c) t (d, tid)
          \<in> {None, Some (resolve_fields registry types d fs)}"
      using get assms(3) unfolding eq
      by (auto simp: decides_def x cache_get_remove cache_get_remove_domain)
    with True show ?thesis by (auto simp: x)
  next
    case False
    then have "cache_get (apply_template now registry types d all_id (k, fs) ?c) t (d, tid) = cache_get ?c t (d, tid)"
      using get unfolding eq
      by (auto simp: decides_def x cache_get_remove cache_get_remove_domain)
    with False snoc show ?thesis by (auto simp: x split: option.splits prod.splits if_splits)
  qed
qed simp

section \<open>Nesting\<close>

definition max_list :: "nat list \<Rightarrow> nat" where
  "max_list ns = foldr max ns 0"

lemma max_list_le: "max_list ns \<le> k \<longleftrightarrow> (\<forall>n\<in>set ns. n \<le> k)"
  by (induction ns) (auto simp: max_list_def)

text \<open>How deep the lists in a value nest.\<close>

primrec value_depth :: "ipfix_value \<Rightarrow> nat" where
  "value_depth (Unsigned8 v) = 0" | "value_depth (Unsigned16 v) = 0"
| "value_depth (Unsigned32 v) = 0" | "value_depth (Unsigned64 v) = 0"
| "value_depth (Unsigned256 v) = 0" | "value_depth (Signed8 v) = 0"
| "value_depth (Signed16 v) = 0" | "value_depth (Signed32 v) = 0"
| "value_depth (Signed64 v) = 0" | "value_depth (Float32 v) = 0"
| "value_depth (Float64 v) = 0" | "value_depth (Boolean b) = 0"
| "value_depth (MacAddress m) = 0" | "value_depth (OctetArray bs) = 0"
| "value_depth (String s) = 0" | "value_depth (DateTimeSeconds t) = 0"
| "value_depth (DateTimeMilliseconds t) = 0" | "value_depth (DateTimeMicroseconds t) = 0"
| "value_depth (DateTimeNanoseconds t) = 0" | "value_depth (Ipv4Address a) = 0"
| "value_depth (Ipv6Address a) = 0" | "value_depth Null = 0"
| "value_depth (BasicList l) = Suc (max_list (bl_content (map_basic_list value_depth l)))"
| "value_depth (SubTemplateList l) =
     Suc (max_list (concat (map dr_values (stl_data (map_sub_template_list value_depth l)))))"
| "value_depth (SubTemplateMultiList l) =
     Suc (max_list (concat (map (\<lambda>m. concat (map dr_values (mi_data m)))
       (ml_data (map_multi_list value_depth l)))))"

definition record_depth_le :: "nat \<Rightarrow> ipfix_data_record \<Rightarrow> bool" where
  "record_depth_le k r \<longleftrightarrow> (\<forall>v\<in>set (dr_values r). value_depth v \<le> k)"

definition yields_depth :: "value_parser \<Rightarrow> nat \<Rightarrow> bool" where
  "yields_depth p k \<longleftrightarrow> (\<forall>dt len i i' v. p dt len i = Some (i', v) \<longrightarrow> value_depth v \<le> k)"

lemma depth_simps:
  "value_depth (BasicList (MkBasicList s f vs)) = Suc (max_list (map value_depth vs))"
  "value_depth (SubTemplateList (MkSubTemplateList s t rs)) \<le> Suc k \<longleftrightarrow> (\<forall>r\<in>set rs. record_depth_le k r)"
  "value_depth (SubTemplateMultiList (MkMultiList s ms)) \<le> Suc k \<longleftrightarrow>
     (\<forall>m\<in>set ms. \<forall>r\<in>set (mi_data m). record_depth_le k r)"
  by (auto simp: max_list_le record_depth_le_def data_record.map_sel multi_item.map_sel)

lemma data_records_all:
  "\<forall>r\<in>set rs. P r \<Longrightarrow> wrap = RData \<or> wrap = ROptionsData \<Longrightarrow>
    \<forall>r\<in>set (data_records (map wrap rs)). P r"
  by (induction rs) (auto simp: data_records_def List.map_filter_def)

lemma basic_list_loop_depth:
  assumes "yields_depth p k"
  shows "basic_list_loop N p fl dt fuel data = Some vs \<Longrightarrow> \<forall>v\<in>set vs. value_depth v \<le> k"
  using assms unfolding yields_depth_def
  by (induction N p fl dt fuel data arbitrary: vs rule: basic_list_loop.induct)
    (fastforce simp: bind_eq_Some_conv split: if_splits)+

lemma template_for_wrap:
  "ipfix_template_for self now key = Some (fs, wrap) \<Longrightarrow> wrap = RData \<or> wrap = ROptionsData"
  by (auto simp: ipfix_template_for_def split: option.splits)

lemma read_values_all:
  assumes "\<And>f i i' v. p f i = Some (i', v) \<Longrightarrow> Q v"
  shows "read_values p fs i = Some (i', vs) \<Longrightarrow> v \<in> set vs \<Longrightarrow> Q v"
  using assms by (induction fs arbitrary: i vs) (auto simp: bind_eq_Some_conv)

definition yields_flat :: "ipfix_value parser \<Rightarrow> bool" where
  "yields_flat p \<longleftrightarrow> (\<forall>i i' v. p i = Some (i', v) \<longrightarrow> value_depth v = 0)"

lemma yields_flat_if:
  "yields_flat p \<Longrightarrow> yields_flat q \<Longrightarrow> yields_flat (\<lambda>i. if b then p i else q i)"
  by (simp add: yields_flat_def)

lemma yields_flat_mapped: "(\<And>x. value_depth (g x) = 0) \<Longrightarrow> yields_flat (\<lambda>i. mapped g (p i))"
  by (auto simp: yields_flat_def)

context ipfix_nom_spec
begin

lemma record_depth:
  assumes "yields_depth p k" and "parse_record_from_fields N p fs i = Some (i', r)"
  shows "record_depth_le k r"
proof -
  from assms(2) obtain vs where r: "r = from_template fs vs"
    and vs: "read_values (\<lambda>field input. parse_field_length N (fs_length (rf_spec field)) input \<bind>
        (\<lambda>(input, field_length). p (rf_data_type field) field_length input)) fs i = Some (i', vs)"
    by (auto simp: parse_record_from_fields_def bind_eq_Some_conv)
  have "value_depth v \<le> k" if "v \<in> set vs" for v
    by (rule read_values_all [OF _ vs that])
      (use assms(1) in \<open>auto simp: yields_depth_def bind_eq_Some_conv\<close>)
  then show ?thesis
    by (simp add: r record_depth_le_def from_template_def)
qed

lemma templated_depth:
  assumes "yields_depth p k" and "value_parser_ok p"
    and "parse_templated_with N now self d p tid i = Some (i', rs)"
  shows "\<forall>r\<in>set (data_records rs). record_depth_le k r"
proof (cases "ipfix_template_for self now (d, tid)")
  case None
  with assms(3) show ?thesis
    by (simp add: parse_templated_with_def data_records_def List.map_filter_def)
next
  case (Some t)
  obtain fs wrap where t: "t = (fs, wrap)" by force
  show ?thesis
  proof (cases "fs = []")
    case True
    with assms(3) Some t show ?thesis
      by (simp add: parse_templated_with_def data_records_def List.map_filter_def)
  next
    case False
    then obtain xs where xs: "many0_loop (parse_record_from_fields N p fs) i = Some (i', xs)"
      and rs: "rs = map wrap xs"
      using assms(2,3) Some t
      by (auto simp: parse_templated_with_def many0_data bind_eq_Some_conv)
    have "\<forall>r\<in>set xs. record_depth_le k r"
      using many0_loop_elems [OF xs] record_depth [OF assms(1)] by blast
    then show ?thesis
      unfolding rs using template_for_wrap Some t by (intro data_records_all) auto
  qed
qed

lemma multi_list_loop_depth:
  assumes "yields_depth p k" and "value_parser_ok p"
  shows "multi_list_loop N now self d p fuel data = Some ms \<Longrightarrow>
    \<forall>m\<in>set ms. \<forall>r\<in>set (mi_data m). record_depth_le k r"
proof (induction fuel arbitrary: data ms)
  case 0
  then show ?case by (cases data) auto
next
  case (Suc fuel)
  then show ?case
    by (cases data)
      (auto simp: bind_eq_Some_conv Let_def split: if_splits dest!: templated_depth [OF assms])
qed

lemma plain_depth: "parse_plain_value N C dt len i = Some (i', v) \<Longrightarrow> value_depth v = 0"
proof -
  have "yields_flat (parse_plain_value N C dt len)"
    unfolding parse_plain_value_def [abs_def]
    by (intro yields_flat_if yields_flat_mapped) (simp_all split: option.splits)
  then show "parse_plain_value N C dt len i = Some (i', v) \<Longrightarrow> value_depth v = 0"
    unfolding yields_flat_def by blast
qed

lemma yields_depth_levels: "yields_depth (parse_value_levels N C now self d levels) levels"
proof (induction levels)
  case 0
  show ?case
    by (auto simp: yields_depth_def dest: plain_depth split: if_splits)
next
  case (Suc levels)
  note ok = value_parser_ok_levels [of now self d levels]
  have "value_depth v \<le> Suc levels"
    if "parse_value_levels N C now self d (Suc levels) dt len i = Some (i', v)" for dt len i i' v
    using that
  proof (cases dt)
    case DtBasicList
    with that show ?thesis
      by (auto simp: Let_def parse_basic_list_def bind_eq_Some_conv depth_simps max_list_le
          dest: basic_list_loop_depth [OF Suc])
  next
    case DtSubTemplateList
    with that show ?thesis
      by (auto simp: Let_def parse_sub_template_list_def bind_eq_Some_conv depth_simps
          simp del: value_depth.simps dest: templated_depth [OF Suc ok])
  next
    case DtSubTemplateMultiList
    with that show ?thesis
      by (auto simp: Let_def parse_sub_template_multi_list_def bind_eq_Some_conv depth_simps
          simp del: value_depth.simps dest: multi_list_loop_depth [OF Suc ok])
  qed (auto simp: Let_def dest: plain_depth)
  then show ?case
    unfolding yields_depth_def by blast
qed

end

section \<open>The cached fields are what is known now\<close>

text \<open>
  Every cached template, of whichever domain, is resolved with the registry and what the type
  records of its domain have said so far.
\<close>

definition resolved_now :: "ipfix_parser \<Rightarrow> bool" where
  "resolved_now self \<longleftrightarrow>
     (\<forall>c \<in> {ip_templates self, ip_options_templates self}. \<forall>key e. cache_entry c key = Some e \<longrightarrow>
        e_fields e = re_resolve (ip_registry self) (ip_element_types self) (fst key) (e_fields e))"

definition fields_known :: "ie_registry \<Rightarrow> element_types \<Rightarrow> ipfix_resolved_field template_cache \<Rightarrow> bool" where
  "fields_known registry types c \<longleftrightarrow> cache_ok c \<and>
     (\<forall>key e. cache_entry c key = Some e \<longrightarrow>
        e_fields e = re_resolve registry types (fst key) (e_fields e))"

lemma rf_spec_resolve [simp]: "map rf_spec (resolve_fields registry types d fs) = fs"
  by (simp add: resolve_fields_def resolve_field_def comp_def Let_def case_prod_beta)

lemma re_resolve_resolved [simp]:
  "re_resolve registry types d (resolve_fields registry' types' d' fs) = resolve_fields registry types d fs"
  by (simp add: re_resolve_def)

lemma re_resolve_twice [simp]:
  "re_resolve registry types d (re_resolve registry' types' d' fs) = re_resolve registry types d fs"
  by (simp add: re_resolve_def)

lemma fields_known_apply:
  assumes "fields_known registry types c"
  shows "fields_known registry types (apply_template now registry types d all_id t c)"
proof -
  have ok: "cache_ok c" and known: "\<And>key e. cache_entry c key = Some e \<Longrightarrow>
      e_fields e = re_resolve registry types (fst key) (e_fields e)"
    using assms by (auto simp: fields_known_def)
  have "fields_known registry types (cache_insert now (d, tid) (resolve_fields registry types d fs) c)" for tid fs
    unfolding fields_known_def
  proof (intro conjI allI impI)
    show "cache_ok (cache_insert now (d, tid) (resolve_fields registry types d fs) c)"
      using ok by (rule cache_ok_insert)
    show "e_fields e = re_resolve registry types (fst key) (e_fields e)"
      if "cache_entry (cache_insert now (d, tid) (resolve_fields registry types d fs) c) key = Some e" for key e
      using cache_entry_insert_sub [OF ok that] known [of key e] by auto
  qed
  moreover have "fields_known registry types (cache_remove (d, tid) c)"
    "fields_known registry types (cache_remove_domain d c)" for tid
    using ok known
    by (auto simp: fields_known_def cache_entry_remove cache_entry_remove_domain
        intro: cache_ok_remove cache_ok_remove_domain split: if_splits)
  ultimately show ?thesis
    using assms by (auto simp: apply_template_def withdraw_templates_def split: prod.splits)
qed

lemma fields_known_fold_apply:
  "fields_known registry types c \<Longrightarrow>
    fields_known registry types (fold (\<lambda>t. apply_template now registry types d all_id (f t)) ts c)"
  by (induction ts arbitrary: c) (simp_all add: fields_known_apply)

text \<open>What learning from a domain's records leaves alone.\<close>

lemma et_learn_other:
  "d' \<noteq> d \<Longrightarrow> et_lookup (fst (et_learn d r registry types)) d' n e = et_lookup types d' n e"
  by (cases rule: et_learn_cases [of d r registry types]) (simp_all add: et_lookup_entry et_entry_set)

lemma et_learn_unchanged: "snd (et_learn d r registry types) = False \<Longrightarrow> fst (et_learn d r registry types) = types"
  by (cases rule: et_learn_cases [of d r registry types]) simp_all

lemma learn_fold:
  assumes "fold (learn_step d registry) rs (types, changed) = (types', changed')"
  shows "(changed \<longrightarrow> changed') \<and> (\<not> changed' \<longrightarrow> types' = types) \<and>
    (\<forall>d' n e. d' \<noteq> d \<longrightarrow> et_lookup types' d' n e = et_lookup types d' n e) \<and>
    (et_ok types \<longrightarrow> et_ok types')"
  using assms
proof (induction rs arbitrary: types changed)
  case (Cons r rs)
  obtain types1 changed1 where step: "learn_step d registry r (types, changed) = (types1, changed1)"
    by force
  then have "(changed \<longrightarrow> changed1) \<and> (\<not> changed1 \<longrightarrow> types1 = types) \<and>
    (\<forall>d' n e. d' \<noteq> d \<longrightarrow> et_lookup types1 d' n e = et_lookup types d' n e) \<and>
    (et_ok types \<longrightarrow> et_ok types1)"
  proof (cases r)
    case (ROptionsData x)
    then have "types1 = fst (et_learn d x registry types)" "changed1 = (changed \<or> snd (et_learn d x registry types))"
      using step by (auto simp: learn_step_def split: prod.splits)
    then show ?thesis
      using et_learn_other [of _ d x registry types] et_learn_unchanged [of d x registry types]
        et_ok_learn [of types d x registry] by auto
  qed (use step in \<open>auto simp: learn_step_def\<close>)
  moreover have "fold (learn_step d registry) rs (types1, changed1) = (types', changed')"
    using Cons.prems step by simp
  ultimately show ?case
    using Cons.IH by metis
qed simp

lemma re_resolve_cong:
  "(\<And>n e. et_lookup types' d n e = et_lookup types d n e) \<Longrightarrow>
    re_resolve registry types' d fs = re_resolve registry types d fs"
  by (simp add: re_resolve_def resolve_fields_def resolve_field_def element_lookup_def cong: option.case_cong)

lemma fields_known_learn:
  assumes "fields_known registry types c"
    and "fold (learn_step d registry) rs (types, False) = (types', changed)"
  shows "fields_known registry types'
    (if changed then cache_refresh_domain d (re_resolve registry types' d) c else c)"
proof (cases changed)
  case False
  then show ?thesis using assms learn_fold [OF assms(2)] by simp
next
  case True
  have "cache_ok (cache_refresh_domain d (re_resolve registry types' d) c)"
    using assms(1) by (intro cache_ok_refresh_domain)
      (auto simp: fields_known_def re_resolve_def resolve_fields_def)
  moreover have "e_fields e = re_resolve registry types' (fst key) (e_fields e)"
    if "cache_entry (cache_refresh_domain d (re_resolve registry types' d) c) key = Some e" for key e
  proof (cases "fst key = d")
    case False
    then have "cache_entry c key = Some e"
      using that by (simp add: cache_entry_refresh_domain)
    then have "e_fields e = re_resolve registry types (fst key) (e_fields e)"
      using assms(1) unfolding fields_known_def by blast
    also have "\<dots> = re_resolve registry types' (fst key) (e_fields e)"
      using learn_fold [OF assms(2)] False by (intro re_resolve_cong) simp
    finally show ?thesis .
  qed (use that in \<open>auto simp: cache_entry_refresh_domain\<close>)
  ultimately show ?thesis
    using True by (simp add: fields_known_def)
qed

definition ipfix_ok :: "ipfix_parser \<Rightarrow> bool" where
  "ipfix_ok self \<longleftrightarrow> et_ok (ip_element_types self) \<and>
     fields_known (ip_registry self) (ip_element_types self) (ip_templates self) \<and>
     fields_known (ip_registry self) (ip_element_types self) (ip_options_templates self)"

lemma ipfix_ok_learn: "ipfix_ok self \<Longrightarrow> ipfix_ok (learn_element_types d rs self)"
  using fields_known_learn [of "ip_registry self" "ip_element_types self"]
    learn_fold [of d "ip_registry self" rs "ip_element_types self" False]
  by (fastforce simp: ipfix_ok_def learn_element_types_def Let_def split: prod.splits if_splits)

lemma ipfix_ok_parse_set: "ipfix_ok self \<Longrightarrow> ipfix_ok (fst (parse_set N C now d self i))"
  by (auto simp: parse_set_def parse_records_def ipfix_ok_def split: option.splits prod.splits
      intro: fields_known_fold_apply ipfix_ok_learn [unfolded ipfix_ok_def, THEN conjunct1]
        ipfix_ok_learn [unfolded ipfix_ok_def, THEN conjunct2, THEN conjunct1]
        ipfix_ok_learn [unfolded ipfix_ok_def, THEN conjunct2, THEN conjunct2])

lemma ipfix_ok_new: "ipfix_ok (ipfix_new now registry timeout)"
proof -
  have "cache_entry (cache_new now timeout :: ipfix_resolved_field template_cache) = Map.empty"
    by (simp add: fun_eq_iff cache_entry_def cache_new_def hm_laws)
  then show ?thesis
    by (simp add: ipfix_ok_def ipfix_new_def fields_known_def et_ok_default cache_ok_new)
qed

lemma ipfix_ok_resolved: "ipfix_ok self \<Longrightarrow> resolved_now self"
  by (auto simp: ipfix_ok_def resolved_now_def fields_known_def)

context ipfix_nom_spec
begin

lemma ipfix_ok_parse: "ipfix_ok self \<Longrightarrow> ipfix_ok (fst (ipfix_parse N C now self i))"
proof -
  assume ok: "ipfix_ok self"
  have "ipfix_ok (fst (many0_st_loop (parse_set N C now d) self data))" for d data
    by (rule many0_st_loop_state [where I = ipfix_ok]) (use ok ipfix_ok_parse_set in blast)+
  then show ?thesis
    using ok by (auto simp: ipfix_parse_def many0_sets split: option.splits prod.splits) (metis fst_conv)+
qed

lemma ipfix_ok_reachable: "ipfix_reachable N C timeout now self \<Longrightarrow> ipfix_ok self"
  by (induction rule: ipfix_reachable.induct) (auto intro: ipfix_ok_new ipfix_ok_parse)

end

section \<open>Data sets\<close>

text \<open>Templates whose records have one size: no variable-length field and no list.\<close>

definition fixed_template :: "ipfix_resolved_field list \<Rightarrow> bool" where
  "fixed_template fs \<longleftrightarrow>
     (\<forall>f\<in>set fs. fs_length (rf_spec f) \<noteq> IPFIX_VARIABLE_LENGTH \<and> \<not> is_list_type (rf_data_type f))"

definition ipfix_record_size :: "ipfix_resolved_field list \<Rightarrow> nat" where
  "ipfix_record_size fs = sum_list (map (\<lambda>f. unat (fs_length (rf_spec f))) fs)"

lemma read_values_cong:
  "(\<And>f. f \<in> set fs \<Longrightarrow> p f = q f) \<Longrightarrow> read_values p fs i = read_values q fs i"
  by (induction fs arbitrary: i) (simp_all cong: Option.bind_cong)

context ipfix_nom_spec
begin

lemma plain_value_levels:
  "\<not> is_list_type dt \<Longrightarrow> parse_value_levels N C now self d levels dt len = parse_plain_value N C dt len"
  by (cases levels) (auto simp: fun_eq_iff is_list_type_def Let_def)

text \<open>The values of such a record, field after field.\<close>

lemma fixed_record:
  assumes "fixed_template fs"
  shows "parse_record_from_fields N (parse_field_value N C now self d depth) fs =
    (\<lambda>i. mapped (from_template fs) (read_values (\<lambda>f. parse_plain_value N C (rf_data_type f)
       (unat (fs_length (rf_spec f)))) fs i))"
proof
  fix i
  have "read_values (\<lambda>field input. parse_field_length N (fs_length (rf_spec field)) input \<bind>
      (\<lambda>(input, len). parse_field_value N C now self d depth (rf_data_type field) len input)) fs i =
    read_values (\<lambda>f. parse_plain_value N C (rf_data_type f) (unat (fs_length (rf_spec f)))) fs i"
    using assms by (intro read_values_cong)
      (auto simp: fun_eq_iff fixed_template_def parse_field_length_def parse_field_value_def plain_value_levels)
  then show "parse_record_from_fields N (parse_field_value N C now self d depth) fs i =
    mapped (from_template fs) (read_values (\<lambda>f. parse_plain_value N C (rf_data_type f)
       (unat (fs_length (rf_spec f)))) fs i)"
    unfolding parse_record_from_fields_def
    by (cases "read_values (\<lambda>f. parse_plain_value N C (rf_data_type f) (unat (fs_length (rf_spec f)))) fs i")
      auto
qed

lemma fixed_len_values: "fixed_len (ipfix_record_size fs)
    (read_values (\<lambda>f. parse_plain_value N C (rf_data_type f) (unat (fs_length (rf_spec f)))) fs)"
  unfolding ipfix_record_size_def by (rule fixed_read_values) (rule fixed_plain_value)

lemma fixed_len_record:
  assumes "fixed_template fs"
  shows "fixed_len (ipfix_record_size fs) (parse_record_from_fields N (parse_field_value N C now self d depth) fs)"
  unfolding fixed_record [OF assms] by (intro fixed_len_intros fixed_len_values)

lemma fixed_record_values:
  assumes "fixed_template fs"
    and "parse_record_from_fields N (parse_field_value N C now self d depth) fs i = Some (i', r)"
  shows "dr_fields r = fs \<and> record_ok r \<and>
    (\<forall>m < length fs. parse_plain_value N C (rf_data_type (fs ! m)) (unat (fs_length (rf_spec (fs ! m))))
      (drop (ipfix_record_size (take m fs)) i) =
      Some (drop (ipfix_record_size (take (Suc m) fs)) i, dr_values r ! m))"
proof -
  obtain vs where vs: "read_values (\<lambda>f. parse_plain_value N C (rf_data_type f) (unat (fs_length (rf_spec f)))) fs i =
      Some (i', vs)" and r: "r = from_template fs vs"
    using assms(2) unfolding fixed_record [OF assms(1)] by auto
  have "length vs = length fs"
    using vs by (rule read_values_length)
  then show ?thesis
    using read_values_nth [OF vs fixed_plain_value]
    by (simp add: r from_template_def record_ok_def ipfix_record_size_def)
qed

lemma templated_records:
  assumes "ipfix_template_for self now (d, tid) = Some (fs, wrap)" and "fixed_template fs"
    and "0 < ipfix_record_size fs"
  shows "\<exists>rs. parse_templated_records N C now self d tid depth i =
      Some (drop (length i div ipfix_record_size fs * ipfix_record_size fs) i, map wrap rs) \<and>
    length rs = length i div ipfix_record_size fs \<and>
    (\<forall>n < length rs. parse_record_from_fields N (parse_field_value N C now self d depth) fs
        (drop (n * ipfix_record_size fs) i) =
      Some (drop (n * ipfix_record_size fs + ipfix_record_size fs) i, rs ! n))"
proof -
  have "fs \<noteq> []" using assms(3) by (auto simp: ipfix_record_size_def)
  then show ?thesis
    using many0_loop_fixed [OF fixed_len_record [OF assms(2)] assms(3), of now self d depth i] assms(1)
      many0_data [OF value_parser_ok_field]
    by (auto simp: parse_templated_records_def parse_templated_with_def)
qed

lemma templated_records_zero:
  assumes "ipfix_template_for self now (d, tid) = Some (fs, wrap)" and "fixed_template fs"
    and "fs \<noteq> []" and "ipfix_record_size fs = 0"
  shows "parse_templated_records N C now self d tid depth i = None"
  using many0_loop_zero [of "parse_record_from_fields N (parse_field_value N C now self d depth) fs" i]
    fixed_len_record [OF assms(2), of now self d depth] assms many0_data [OF value_parser_ok_field]
  by (simp add: parse_templated_records_def parse_templated_with_def)

text \<open>Records of data teach no element types, so decoding them changes nothing.\<close>

lemma learn_data: "learn_element_types d (map RData rs) self = self"
proof -
  have "fold (learn_step d registry) (map RData rs) st = st" for registry st
    by (induction rs arbitrary: st) (auto simp: learn_step_def)
  then show ?thesis by (simp add: learn_element_types_def)
qed

lemma data_set:
  assumes "set_frame N i = Some (rest, tid, len, data)" and "ipfix_valid_template_id tid"
  shows "parse_set N C now d self i =
    (case parse_templated_records N C now self d tid 0 data of
       None \<Rightarrow> (self, None)
     | Some (_, rs) \<Rightarrow> (learn_element_types d rs self,
         Some (rest, \<lparr>set_id = tid, set_length = len, set_records = rs\<rparr>)))"
proof -
  have "tid \<noteq> IPFIX_TEMPLATE_SET_ID" "tid \<noteq> IPFIX_OPTIONS_TEMPLATE_SET_ID"
    using assms(2) by (auto simp: ipfix_consts)
  then show ?thesis
    using assms by (auto simp: parse_set_def parse_records_def split: option.splits)
qed

text \<open>Template sets.\<close>

lemma nonincr_specifier: "nonincr (parse_field_specifier N)"
proof -
  have r: "nonincr (\<lambda>i. mapped Some (nom_be_u32 N i))"
    by (rule fixed_len_nonincr [of 4]) (intro fixed_len_intros)
  show ?thesis
    unfolding parse_field_specifier_def [abs_def] Let_def
    by (intro nonincr_bind nonincr_if nonincr_return nonincr_reads r)
qed

lemma template_record_consuming: "consuming (parse_template_record N)"
proof -
  have "nonincr (ip_count_specifiers N (parse_field_specifier N) n)" for n
    unfolding is_countD [OF count_specifiers_spec nonincr_specifier]
    by (intro nonincr_intros nonincr_specifier)
  then show ?thesis
    unfolding parse_template_record_def [abs_def]
    by (intro consuming_bind fixed_len_consuming [OF fixed_reads(2)] nonincr_intros) simp_all
qed

lemma many0_templates_total:
  "\<exists>i' ts. ip_many0_templates N (parse_template_record N) i = Some (i', ts)"
  using many0_loop_total [of "parse_template_record N" i] template_record_consuming
    is_many0D [OF many0_templates_spec consuming_nonincr [OF template_record_consuming]]
  by (auto simp: consuming_def)

lemma template_set:
  assumes "set_frame N i = Some (rest, IPFIX_TEMPLATE_SET_ID, len, data)"
  shows "\<exists>ts. parse_set N C now d self i =
    (self\<lparr>ip_templates := fold (apply_template now (ip_registry self) (ip_element_types self) d
       IPFIX_TEMPLATE_SET_ID) (map (\<lambda>t. (tr_template_id t, tr_fields t)) ts) (ip_templates self)\<rparr>,
     Some (rest, \<lparr>set_id = IPFIX_TEMPLATE_SET_ID, set_length = len, set_records = map RTemplate ts\<rparr>))"
  using many0_templates_total [of data] assms
  by (auto simp: parse_set_def parse_records_def fold_map comp_def)

end

definition ipfix_nom_ref :: ipfix_nom where
  "ipfix_nom_ref = nom.extend nom_ref (ipfix_nom.fields many0_st_loop many0_loop many0_loop
     many0_loop count_loop)"

interpretation ipfix_ref: ipfix_nom_spec ipfix_nom_ref chrono_ref
  by unfold_locales (simp_all add: ipfix_nom_ref_def nom.defs ipfix_nom.defs nom_ref_def)

text \<open>A parser that knows one template, and templates of seven and of no bytes.\<close>

definition ipfix_with :: "ipfix_resolved_field list \<Rightarrow> ipfix_parser" where
  "ipfix_with fs =
     (ipfix_new 5 registry_new 600)\<lparr>ip_templates := cache_insert 5 (1, 256) fs (cache_new 5 600)\<rparr>"

definition ipfix_example_fields :: "ipfix_resolved_field list" where
  "ipfix_example_fields =
     [\<lparr>rf_spec = specifier_iana 8 4, rf_data_type = DtIpv4Address, rf_name = ''sourceIPv4Address''\<rparr>,
      \<lparr>rf_spec = specifier_iana 2 3, rf_data_type = DtUnsigned, rf_name = ''packetDeltaCount''\<rparr>]"

definition ipfix_empty_fields :: "ipfix_resolved_field list" where
  "ipfix_empty_fields =
     [\<lparr>rf_spec = specifier_iana 82 0, rf_data_type = DtString, rf_name = ''interfaceName''\<rparr>]"

lemma ipfix_with_get:
  assumes "length fs \<le> MAX_TEMPLATE_FIELDS"
  shows "cache_get (ip_templates (ipfix_with fs)) 5 (1, 256) = Some fs"
proof -
  have "cache_ok (cache_new 5 600) \<and> cache_timely 5 (cache_new 5 600)"
    by (simp add: cache_ok_new cache_timely_new)
  from tc.get_ins [OF this, of 5 "(1, 256)" fs "(1, 256)"] show ?thesis
    using room_admits [OF cache_ok_new, of 5 600 fs 5] assms by (simp add: cache_new_def ipfix_with_def)
qed

lemma ipfix_with_template:
  "length fs \<le> MAX_TEMPLATE_FIELDS \<Longrightarrow>
    ipfix_template_for (ipfix_with fs) 5 (1, 256) = Some (fs, RData)"
  by (simp add: ipfix_template_for_def ipfix_with_get)

lemma ipfix_example_size: "ipfix_record_size ipfix_example_fields = 7"
  "ipfix_record_size ipfix_empty_fields = 0" "fixed_template ipfix_example_fields"
  "fixed_template ipfix_empty_fields" "length ipfix_example_fields \<le> MAX_TEMPLATE_FIELDS"
  "length ipfix_empty_fields \<le> MAX_TEMPLATE_FIELDS" "ipfix_empty_fields \<noteq> []"
  by (simp_all add: ipfix_record_size_def ipfix_example_fields_def ipfix_empty_fields_def
      MAX_TEMPLATE_FIELDS_def specifier_iana_def fixed_template_def IPFIX_VARIABLE_LENGTH_def is_list_type_def)

lemmas ipfix_eval = ipfix_ref.set_frame_eq be_nat_def from_be_bytes_def ipfix_consts IPFIX_VERSION_def

section \<open>Properties\<close>

text \<open>C31. Whatever an IPFIX exporter sends, the caches of its parser stay states of the cache's state
  machine, within the budget, and every cached template is resolved with what the registry and the
  type records of its domain say by now: a type record takes effect at once, for the templates
  already cached too, and only in its domain.\<close>

theorem ipfix_state_invariant:
  assumes "ipfix_nom_spec N C" and "ipfix_reachable N C timeout now self"
  shows "cache_reachable timeout now (ip_templates self) \<and>
    cache_reachable timeout now (ip_options_templates self) \<and>
    et_len (ip_element_types self) \<le> MAX_ELEMENTS \<and> resolved_now self"
  using ipfix_nom_spec.reachable_caches [OF assms] ipfix_nom_spec.ipfix_ok_reachable [OF assms]
  by (auto simp: ipfix_ok_def et_ok_def intro: ipfix_ok_resolved)

theorem ipfix_state_invariant_witness:
  "resolved_now (fst (ipfix_parse ipfix_nom_ref chrono_ref 5 (ipfix_new 5 new_with_iana_elements 600) [0, 10]))"
  using ipfix_state_invariant [OF ipfix_ref.ipfix_nom_spec_axioms ipfix_reachable.parse [OF ipfix_reachable.new]]
  by blast

text \<open>C34. The IPFIX parser accepts every datagram that starts with a complete message: a header of
  version 10 and as many bytes as its length field says. No content of a set makes it an
  error: it stops at the first set it cannot parse and goes on after the message. Anything else
  is refused and leaves the state as it was.\<close>

theorem ipfix_parse_cases:
  assumes "ipfix_nom_spec N C"
  shows "if length i < 16 \<or> from_be_bytes (take 2 i) \<noteq> IPFIX_VERSION \<or> length i < be_nat (take 2 (drop 2 i))
    then ipfix_parse N C now self i = (self, None)
    else \<exists>self' self0 h sets left. ipfix_parse N C now self i =
        (self', Some (drop (max 16 (be_nat (take 2 (drop 2 i)))) i, \<lparr>ip_header = h, ip_sets = sets\<rparr>)) \<and>
      parse_header N C i = Some (drop 16 i, h) \<and>
      many0_st_loop (parse_set N C now (ih_domain h)) self (take (be_nat (take 2 (drop 2 i)) - 16) (drop 16 i)) =
        (self', Some (left, sets)) \<and>
      parse_set N C now (ih_domain h) self0 left = (self', None)"
  using assms by (rule ipfix_nom_spec.parse_cases)

theorem ipfix_parse_cases_witness:
  "ipfix_parse ipfix_nom_ref chrono_ref 5 (ipfix_new 5 registry_new 600)
     [0, 10, 0, 20, 0, 0, 0, 0, 0, 0, 0, 0, 0, 0, 0, 1, 0, 2] = (ipfix_new 5 registry_new 600, None)"
  using ipfix_parse_cases [OF ipfix_ref.ipfix_nom_spec_axioms,
      of "[0, 10, 0, 20, 0, 0, 0, 0, 0, 0, 0, 0, 0, 0, 0, 1, 0, 2]" 5 "ipfix_new 5 registry_new 600"]
  by (simp add: be_nat_def from_be_bytes_def IPFIX_VERSION_def)

text \<open>A template set has, for every template identifier of its domain, the effect of the last of
  its records that concerns it: a withdrawal, of the template or of all of them, leaves the
  identifier unknown; a definition makes its resolved fields the ones data is decoded with,
  unless it does not fit the budget, which leaves it unknown; an identifier no record concerns
  keeps its template. The options templates are untouched.\<close>

theorem ipfix_template_set:
  assumes "ipfix_nom_spec N C" and "ipfix_reachable N C timeout now self" and "now \<le> t"
    and "set_frame N i = Some (rest, IPFIX_TEMPLATE_SET_ID, len, data)"
    and "ipfix_valid_template_id tid"
  shows "\<exists>ts self'. parse_set N C now d self i =
      (self', Some (rest, \<lparr>set_id = IPFIX_TEMPLATE_SET_ID, set_length = len, set_records = map RTemplate ts\<rparr>)) \<and>
    ip_options_templates self' = ip_options_templates self \<and>
    (case find (decides IPFIX_TEMPLATE_SET_ID tid) (rev (map (\<lambda>t. (tr_template_id t, tr_fields t)) ts)) of
       None \<Rightarrow> cache_get (ip_templates self') t (d, tid) = cache_get (ip_templates self) t (d, tid)
     | Some (k, fs) \<Rightarrow> if fs = [] then cache_get (ip_templates self') t (d, tid) = None
         else cache_get (ip_templates self') t (d, tid)
           \<in> {None, Some (resolve_fields (ip_registry self) (ip_element_types self) d fs)})"
proof -
  have "cache_reachable timeout now (ip_templates self)"
    using ipfix_nom_spec.reachable_caches [OF assms(1,2)] by blast
  then have c: "cache_ok (ip_templates self) \<and> cache_timely now (ip_templates self)"
    using cache_reachable_ok by blast
  let ?self' = "\<lambda>ts. self\<lparr>ip_templates := fold (apply_template now (ip_registry self) (ip_element_types self) d
    IPFIX_TEMPLATE_SET_ID) (map (\<lambda>t. (tr_template_id t, tr_fields t)) ts) (ip_templates self)\<rparr>"
  obtain ts where p: "parse_set N C now d self i = (?self' ts,
       Some (rest, \<lparr>set_id = IPFIX_TEMPLATE_SET_ID, set_length = len, set_records = map RTemplate ts\<rparr>))"
    using ipfix_nom_spec.template_set [OF assms(1,4)] by blast
  note get = get_apply_templates [OF c assms(3,5), where all_id = IPFIX_TEMPLATE_SET_ID and d = d
      and ts = "map (\<lambda>t. (tr_template_id t, tr_fields t)) ts" and registry = "ip_registry self"
      and types = "ip_element_types self"]
  show ?thesis
    by (rule exI [of _ ts], rule exI [of _ "?self' ts"], intro conjI p)
      (simp, use get in \<open>auto split: option.splits\<close>)
qed

theorem ipfix_template_set_witness:
  "\<exists>ts self'. parse_set ipfix_nom_ref chrono_ref 5 1 (ipfix_new 5 registry_new 600)
      [0, 2, 0, 12, 1, 0, 0, 1, 0, 8, 0, 4] =
    (self', Some ([], \<lparr>set_id = IPFIX_TEMPLATE_SET_ID, set_length = 12, set_records = map RTemplate ts\<rparr>))"
proof -
  have "set_frame ipfix_nom_ref [0, 2, 0, 12, 1, 0, 0, 1, 0, 8, 0, 4] =
      Some ([], IPFIX_TEMPLATE_SET_ID, 12, [1, 0, 0, 1, 0, 8, 0, 4])"
    by (simp add: ipfix_eval)
  moreover have "ipfix_valid_template_id 256"
    by (simp add: ipfix_consts)
  ultimately show ?thesis
    using ipfix_template_set [OF ipfix_ref.ipfix_nom_spec_axioms ipfix_reachable.new order.refl] by blast
qed

text \<open>C30. A data set whose template has fields of fixed length and no lists is cut into records of the
  template's size, as many as fit, the rest being padding; field \<open>m\<close> of each is read, with
  its type and length, at its offset. Decoding data records changes nothing of the state.\<close>

theorem ipfix_decode_data_set:
  assumes "ipfix_nom_spec N C" and "set_frame N i = Some (rest, tid, len, data)"
    and "ipfix_valid_template_id tid" and "cache_get (ip_templates self) now (d, tid) = Some fs"
    and "fixed_template fs" and "0 < ipfix_record_size fs"
  shows "\<exists>rs. parse_set N C now d self i =
      (self, Some (rest, \<lparr>set_id = tid, set_length = len, set_records = map RData rs\<rparr>)) \<and>
    length rs = length data div ipfix_record_size fs \<and>
    (\<forall>n < length rs. dr_fields (rs ! n) = fs \<and> record_ok (rs ! n) \<and>
      (\<forall>m < length fs. parse_plain_value N C (rf_data_type (fs ! m)) (unat (fs_length (rf_spec (fs ! m))))
        (drop (ipfix_record_size (take m fs)) (drop (n * ipfix_record_size fs) data)) =
        Some (drop (ipfix_record_size (take (Suc m) fs)) (drop (n * ipfix_record_size fs) data),
          dr_values (rs ! n) ! m)))"
proof -
  have "ipfix_template_for self now (d, tid) = Some (fs, RData)"
    using assms(4) by (simp add: ipfix_template_for_def)
  then obtain rs where p: "parse_templated_records N C now self d tid 0 data =
      Some (drop (length data div ipfix_record_size fs * ipfix_record_size fs) data, map RData rs)"
    and len: "length rs = length data div ipfix_record_size fs"
    and rs: "\<And>n. n < length rs \<Longrightarrow> parse_record_from_fields N (parse_field_value N C now self d 0) fs
        (drop (n * ipfix_record_size fs) data) =
      Some (drop (n * ipfix_record_size fs + ipfix_record_size fs) data, rs ! n)"
    using ipfix_nom_spec.templated_records [OF assms(1) _ assms(5,6)] by blast
  have "parse_set N C now d self i =
      (self, Some (rest, \<lparr>set_id = tid, set_length = len, set_records = map RData rs\<rparr>))"
    using ipfix_nom_spec.data_set [OF assms(1-3)] p by (simp add: ipfix_nom_spec.learn_data [OF assms(1)])
  then show ?thesis
    using len ipfix_nom_spec.fixed_record_values [OF assms(1,5) rs]
    by (intro exI [of _ rs] conjI allI impI) blast+
qed

theorem ipfix_decode_data_set_witness:
  "\<exists>rs. parse_set ipfix_nom_ref chrono_ref 5 1 (ipfix_with ipfix_example_fields)
      ([1, 0, 0, 19] @ replicate 15 7) =
    (ipfix_with ipfix_example_fields,
     Some ([], \<lparr>set_id = 256, set_length = 19, set_records = map RData rs\<rparr>)) \<and> length rs = 2"
proof -
  have f: "set_frame ipfix_nom_ref ([1, 0, 0, 19] @ replicate 15 7) = Some ([], 256, 19, replicate 15 7)"
    by (simp add: ipfix_eval)
  have v: "ipfix_valid_template_id 256" by (simp add: ipfix_consts)
  from ipfix_decode_data_set [OF ipfix_ref.ipfix_nom_spec_axioms f v
      ipfix_with_get [OF ipfix_example_size(5)] ipfix_example_size(3)]
  obtain rs where "parse_set ipfix_nom_ref chrono_ref 5 1 (ipfix_with ipfix_example_fields)
      ([1, 0, 0, 19] @ replicate 15 7) =
    (ipfix_with ipfix_example_fields,
     Some ([], \<lparr>set_id = 256, set_length = 19, set_records = map RData rs\<rparr>))"
    "length rs = length (replicate 15 (7 :: u8)) div ipfix_record_size ipfix_example_fields"
    unfolding ipfix_example_size by auto
  moreover from this(2) have "length rs = 2"
    by (simp add: ipfix_example_size)
  ultimately show ?thesis by blast
qed

text \<open>The domains of an exporter are isolated: a message changes nothing of what the parser
  knows about the templates of any other domain.\<close>

theorem ipfix_domains_isolated:
  assumes "ipfix_nom_spec N C" and "ipfix_reachable N C timeout now self" and "now \<le> t"
    and "ipfix_parse N C now self i = (self', Some (rest, p))" and "d \<noteq> ih_domain (ip_header p)"
  shows "ipfix_template_for self' t (d, tid) = ipfix_template_for self t (d, tid)"
proof -
  let ?d = "ih_domain (ip_header p)"
  let ?I = "\<lambda>c0 c. (cache_ok c \<and> cache_timely now c) \<and> cache_get c t (d, tid) = cache_get c0 t (d, tid)"
  have d: "fst (d, tid) \<noteq> ?d" using assms(5) by simp
  note other = rc.other_domain [OF _ assms(3) d]
  have kept: "domain_kept now ?d (?I c0)" for c0
  proof -
    have "?I c0 c \<Longrightarrow> ?I c0 (cache_insert now (?d, k) fs c)" for c k fs
      using tc.inv_ins [of c now] other(1) [where c = c] by simp
    moreover have "?I c0 c \<Longrightarrow> ?I c0 (cache_remove (?d, k) c)" for c k
      using tc.inv_rem [of c now] other(2) [where c = c] by simp
    moreover have "?I c0 c \<Longrightarrow> ?I c0 (cache_remove_domain ?d c)" for c
      using tc.inv_rem_domain [of c now] other(3) [where c = c] by simp
    moreover have "?I c0 c \<Longrightarrow> ?I c0 (cache_refresh_domain ?d (re_resolve registry types ?d) c)"
      for c and registry :: ie_registry and types :: element_types
      using rc.inv_refresh [of c now "re_resolve registry types ?d" ?d]
        ipfix_nom_spec.re_resolve_length [OF assms(1)] other(4) [where c = c] by simp
    ultimately show ?thesis unfolding domain_kept_def by blast
  qed
  have "cache_reachable timeout now (ip_templates self)"
    "cache_reachable timeout now (ip_options_templates self)"
    using ipfix_nom_spec.reachable_caches [OF assms(1,2)] by auto
  then have "?I (ip_templates self) (ip_templates self)"
    "?I (ip_options_templates self) (ip_options_templates self)"
    using cache_reachable_ok by blast+
  moreover have "ih_domain h = ?d" if "parse_header N C i = Some (i', h)" for h i'
    using assms(4) that by (auto simp: ipfix_parse_def bind_eq_Some_conv split: option.splits prod.splits)
  ultimately have "?I (ip_templates self) (ip_templates (fst (ipfix_parse N C now self i))) \<and>
      ?I (ip_options_templates self) (ip_options_templates (fst (ipfix_parse N C now self i)))"
    by (rule ipfix_nom_spec.parse_kept [OF assms(1) kept kept])
  then show ?thesis
    unfolding ipfix_template_for_def assms(4) fst_conv by metis
qed

theorem ipfix_domains_isolated_witness:
  "\<exists>self'. fst (ipfix_parse ipfix_nom_ref chrono_ref 5 (ipfix_new 5 registry_new 600)
      [0, 10, 0, 20, 0, 0, 0, 0, 0, 0, 0, 0, 0, 0, 0, 1, 0, 2, 0, 4]) = self' \<and>
    ipfix_template_for self' 9 (2, 256) = ipfix_template_for (ipfix_new 5 registry_new 600) 9 (2, 256)"
proof -
  let ?i = "[0, 10, 0, 20, 0, 0, 0, 0, 0, 0, 0, 0, 0, 0, 0, 1, 0, 2, 0, 4] :: bytes"
  let ?p = "ipfix_parse ipfix_nom_ref chrono_ref 5 (ipfix_new 5 registry_new 600) ?i"
  obtain self' rest h sets where p: "?p = (self', Some (rest, \<lparr>ip_header = h, ip_sets = sets\<rparr>))"
    and h: "parse_header ipfix_nom_ref chrono_ref ?i = Some (drop 16 ?i, h)"
    using ipfix_ref.parse_cases [where now = 5 and self = "ipfix_new 5 registry_new 600" and i = ?i]
    by (auto simp: be_nat_def from_be_bytes_def IPFIX_VERSION_def)
  have "ih_domain h = 1"
    using h by (auto simp: parse_header_def ipfix_ref.be_specs be_read_def ipfix_ref.timestamp_secs_eq
        verify_version_def from_be_bytes_def be_nat_def IPFIX_VERSION_def)
  then have "(2 :: u32) \<noteq> ih_domain (ip_header \<lparr>ip_header = h, ip_sets = sets\<rparr>)"
    by simp
  from ipfix_domains_isolated [OF ipfix_ref.ipfix_nom_spec_axioms ipfix_reachable.new _ p this, of 9 256]
  show ?thesis using p by simp
qed

text \<open>Lists nest at most \<open>MAX_LIST_DEPTH\<close> deep in what is decoded, however deep a sender nests
  them, and a value, list or not, takes exactly the bytes of its field.\<close>

theorem ipfix_value_depth:
  assumes "ipfix_nom_spec N C" and "parse_field_value N C now self d 0 dt len i = Some (i', v)"
  shows "value_depth v \<le> MAX_LIST_DEPTH \<and> len \<le> length i \<and> i' = drop len i"
  using assms(2) ipfix_nom_spec.yields_depth_levels [OF assms(1), of now self d MAX_LIST_DEPTH]
    value_parser_okD [OF ipfix_nom_spec.value_parser_ok_field [OF assms(1)] assms(2)]
  unfolding yields_depth_def parse_field_value_def diff_zero by blast

theorem ipfix_value_depth_witness:
  "\<exists>v. parse_field_value ipfix_nom_ref chrono_ref 5 (ipfix_new 5 registry_new 600) 1 0 DtBasicList 7
      [0, 0, 2, 0, 1, 9, 9, 1] = Some ([1], v) \<and> value_depth v \<le> MAX_LIST_DEPTH"
proof -
  let ?self = "ipfix_new 5 registry_new 600"
  have levels: "MAX_LIST_DEPTH - 0 = Suc (Suc 6)" by (simp add: MAX_LIST_DEPTH_def)
  have "parse_field_value ipfix_nom_ref chrono_ref 5 ?self 1 0 DtBasicList 7 [0, 0, 2, 0, 1, 9, 9, 1] =
      Some ([1], BasicList (MkBasicList NoneOf (specifier_iana 2 1) [OctetArray [9], OctetArray [9]]))"
    unfolding parse_field_value_def levels parse_value_levels.simps(2)
    by (simp add: Let_def parse_basic_list_def
        parse_plain_value_def vector_def ipfix_ref.be_specs ipfix_ref.take_spec be_read_def be_nat_def
        from_be_bytes_def parse_field_specifier_def parse_field_length_def semantic_from_def
        specifier_iana_def element_lookup_def registry_lookup_def et_lookup_def ipfix_new_def
        registry_new_def element_types_default_def hm_laws IPFIX_VARIABLE_LENGTH_def)
  then show ?thesis
    using ipfix_value_depth [OF ipfix_ref.ipfix_nom_spec_axioms] by blast
qed

text \<open>The guard against templates without fields does not cover templates whose fields all have
  length zero: a data set for such a template fails, and it and all sets after it in the message
  are discarded.\<close>

theorem ipfix_zero_length_template_discards_rest:
  assumes "ipfix_nom_spec N C" and "parse_header N C i = Some (i1, h)"
    and "unat (ih_length h) - 16 \<le> length i1"
    and "set_frame N (take (unat (ih_length h) - 16) i1) = Some (rest, tid, len, data)"
    and "ipfix_valid_template_id tid"
    and "ipfix_template_for self now (ih_domain h, tid) = Some (fs, wrap)"
    and "fixed_template fs" and "fs \<noteq> []" and "ipfix_record_size fs = 0"
  shows "ipfix_parse N C now self i =
    (self, Some (drop (unat (ih_length h) - 16) i1, \<lparr>ip_header = h, ip_sets = []\<rparr>))"
proof -
  let ?data = "take (unat (ih_length h) - 16) i1"
  have "parse_set N C now (ih_domain h) self ?data = (self, None)"
    using ipfix_nom_spec.data_set [OF assms(1,4,5)]
      ipfix_nom_spec.templated_records_zero [OF assms(1,6-9)] by simp
  then have "many0_st_loop (parse_set N C now (ih_domain h)) self ?data = (self, Some (?data, []))"
    by (subst many0_st_loop.simps) simp
  then show ?thesis
    using assms(1-3) nom_spec.take_spec [of N]
    by (simp add: ipfix_parse_def ipfix_nom_spec.many0_sets [OF assms(1)] IPFIX_HEADER_SIZE_def
        wire_spec_def ipfix_nom_spec_def)
qed

theorem ipfix_zero_length_template_discards_rest_witness:
  "\<exists>h. ipfix_parse ipfix_nom_ref chrono_ref 5 (ipfix_with ipfix_empty_fields)
      [0, 10, 0, 22, 0, 0, 0, 0, 0, 0, 0, 0, 0, 0, 0, 1, 1, 0, 0, 6, 9, 9] =
    (ipfix_with ipfix_empty_fields, Some ([], \<lparr>ip_header = h, ip_sets = []\<rparr>))"
proof -
  let ?i = "[0, 10, 0, 22, 0, 0, 0, 0, 0, 0, 0, 0, 0, 0, 0, 1, 1, 0, 0, 6, 9, 9] :: bytes"
  obtain h where h: "parse_header ipfix_nom_ref chrono_ref ?i = Some ([1, 0, 0, 6, 9, 9], h)"
    and hd: "ih_domain h = 1" "ih_length h = 22"
    by (simp add: parse_header_def ipfix_ref.be_specs be_read_def ipfix_ref.timestamp_secs_eq
        verify_version_def from_be_bytes_def be_nat_def IPFIX_VERSION_def)
  have f: "set_frame ipfix_nom_ref (take (unat (ih_length h) - 16) [1, 0, 0, 6, 9, 9]) = Some ([], 256, 6, [9, 9])"
    by (simp add: hd ipfix_eval)
  have v: "ipfix_valid_template_id 256" by (simp add: ipfix_consts)
  have t: "ipfix_template_for (ipfix_with ipfix_empty_fields) 5 (ih_domain h, 256) = Some (ipfix_empty_fields, RData)"
    using ipfix_with_template [OF ipfix_example_size(6)] by (simp add: hd)
  have l: "unat (ih_length h) - 16 \<le> length [1 :: u8, 0, 0, 6, 9, 9]" by (simp add: hd)
  from ipfix_zero_length_template_discards_rest [OF ipfix_ref.ipfix_nom_spec_axioms h l f v t
      ipfix_example_size(4,7,2)]
  show ?thesis by (intro exI [of _ h]) (simp add: hd)
qed

end
