(* ===== verification/IpfixTyping.thy ===== *)
theory IpfixTyping
  imports IpfixProps
begin

text \<open>
  What the values the IPFIX parser decodes look like: each has the constructor that its element's
  data type and the length of its field call for. And the two loops over the contents of
  lists, which \<open>Ipfix\<close> gives the number of bytes as fuel, are the loops of the source.
\<close>

section \<open>Types of values\<close>

text \<open>The lengths a field of a data type can be decoded with; any other is kept as octets.\<close>

definition natural_length :: "data_type \<Rightarrow> nat \<Rightarrow> bool" where
  "natural_length dt len = (case dt of
       DtBoolean \<Rightarrow> len = 1
     | DtUnsigned \<Rightarrow> 1 \<le> len \<and> len \<le> 8
     | DtSigned \<Rightarrow> 1 \<le> len \<and> len \<le> 8
     | DtFloat \<Rightarrow> len = 4 \<or> len = 8
     | DtMacAddress \<Rightarrow> len = 6
     | DtIpv4Address \<Rightarrow> len = 4
     | DtIpv6Address \<Rightarrow> len = 16
     | DtDateTimeSeconds \<Rightarrow> len = 4
     | DtDateTimeMilliseconds \<Rightarrow> len = 8
     | DtDateTimeMicroseconds \<Rightarrow> len = 8
     | DtDateTimeNanoseconds \<Rightarrow> len = 8
     | DtOctetArray \<Rightarrow> False
     | _ \<Rightarrow> True)"

text \<open>What a field of a data type and a length may hold.\<close>

definition value_typed :: "data_type \<Rightarrow> nat \<Rightarrow> ipfix_value \<Rightarrow> bool" where
  "value_typed dt len v = (case v of
       OctetArray bs \<Rightarrow> \<not> natural_length dt len \<and> length bs = len
     | Null \<Rightarrow> natural_length dt len \<and> (dt = DtBoolean \<or> dt = DtString \<or> dt = DtDateTimeMilliseconds)
     | _ \<Rightarrow> natural_length dt len \<and> (case v of
           Unsigned8 _ \<Rightarrow> dt = DtUnsigned \<and> len = 1
         | Unsigned16 _ \<Rightarrow> dt = DtUnsigned \<and> len = 2
         | Unsigned32 _ \<Rightarrow> dt = DtUnsigned \<and> (len = 3 \<or> len = 4)
         | Unsigned64 _ \<Rightarrow> dt = DtUnsigned \<and> 5 \<le> len
         | Signed8 _ \<Rightarrow> dt = DtSigned \<and> len = 1
         | Signed16 _ \<Rightarrow> dt = DtSigned \<and> len = 2
         | Signed32 _ \<Rightarrow> dt = DtSigned \<and> (len = 3 \<or> len = 4)
         | Signed64 _ \<Rightarrow> dt = DtSigned \<and> 5 \<le> len
         | Float32 _ \<Rightarrow> dt = DtFloat \<and> len = 4
         | Float64 _ \<Rightarrow> dt = DtFloat \<and> len = 8
         | Boolean _ \<Rightarrow> dt = DtBoolean
         | MacAddress m \<Rightarrow> dt = DtMacAddress
         | String s \<Rightarrow> dt = DtString
         | DateTimeSeconds _ \<Rightarrow> dt = DtDateTimeSeconds
         | DateTimeMilliseconds _ \<Rightarrow> dt = DtDateTimeMilliseconds
         | DateTimeMicroseconds _ \<Rightarrow> dt = DtDateTimeMicroseconds
         | DateTimeNanoseconds _ \<Rightarrow> dt = DtDateTimeNanoseconds
         | Ipv4Address _ \<Rightarrow> dt = DtIpv4Address
         | Ipv6Address _ \<Rightarrow> dt = DtIpv6Address
         | BasicList _ \<Rightarrow> dt = DtBasicList
         | SubTemplateList _ \<Rightarrow> dt = DtSubTemplateList
         | SubTemplateMultiList _ \<Rightarrow> dt = DtSubTemplateMultiList
         | _ \<Rightarrow> False))"

text \<open>A value of a field, whose own length may be part of the data.\<close>

definition field_typed :: "ipfix_resolved_field \<Rightarrow> ipfix_value \<Rightarrow> bool" where
  "field_typed f v \<longleftrightarrow> (\<exists>len < 2 ^ 16. value_typed (rf_data_type f) len v \<and>
     (fs_length (rf_spec f) = IPFIX_VARIABLE_LENGTH \<or> len = unat (fs_length (rf_spec f))))"

definition record_typed :: "ipfix_data_record \<Rightarrow> bool" where
  "record_typed r \<longleftrightarrow> list_all2 field_typed (dr_fields r) (dr_values r)"

definition yields :: "('a \<Rightarrow> bool) \<Rightarrow> 'a parser \<Rightarrow> bool" where
  "yields P p \<longleftrightarrow> (\<forall>i i' v. p i = Some (i', v) \<longrightarrow> P v)"

lemma yieldsD: "yields P p \<Longrightarrow> p i = Some (i', v) \<Longrightarrow> P v"
  by (auto simp: yields_def)

lemma yields_if:
  "(b \<Longrightarrow> yields P p) \<Longrightarrow> (\<not> b \<Longrightarrow> yields P q) \<Longrightarrow> yields P (\<lambda>i. if b then p i else q i)"
  by (simp add: yields_def)

lemma yields_mapped: "(\<And>x. P (g x)) \<Longrightarrow> yields P (\<lambda>i. mapped g (p i))"
  by (auto simp: yields_def)

context ipfix_nom_spec
begin

lemma yields_vector:
  "\<not> natural_length dt len \<Longrightarrow> yields (value_typed dt len) (\<lambda>i. mapped OctetArray (vector N len i))"
  by (auto simp: yields_def vector_def take_spec value_typed_def split: if_splits)

lemmas typed_simps = value_typed_def natural_length_def

lemma plain_typed:
  assumes "\<not> is_list_type dt"
  shows "yields (value_typed dt len) (parse_plain_value N C dt len)"
  by (insert assms, cases dt; simp add: is_list_type_def parse_plain_value_def [abs_def] cong: if_cong;
      intro yields_if yields_vector yields_mapped;
      (simp add: typed_simps split: option.split; fail | simp add: typed_simps; linarith))

lemma field_value_typed:
  assumes "parse_field_value N C now self d 0 dt len i = Some (i', v)"
  shows "value_typed dt len v"
proof -
  obtain levels where s: "MAX_LIST_DEPTH - 0 = Suc levels"
    by (simp add: MAX_LIST_DEPTH_def)
  have "yields (value_typed dt len) (parse_field_value N C now self d 0 dt len)"
    unfolding parse_field_value_def s
    using plain_typed [of dt len]
    by (cases dt)
      (auto simp: Let_def is_list_type_def yields_def value_typed_def natural_length_def
        parse_basic_list_def parse_sub_template_list_def parse_sub_template_multi_list_def bind_eq_Some_conv)
  then show ?thesis using assms by (rule yieldsD)
qed

lemma field_length_bound:
  "parse_field_length N fl i = Some (i', len) \<Longrightarrow>
    len < 2 ^ 16 \<and> (fl = IPFIX_VARIABLE_LENGTH \<or> len = unat fl)"
  using unat_bounds(2) order.strict_trans2 [OF unat_bounds(1), of "2 ^ 16"]
  by (auto simp: parse_field_length_def bind_eq_Some_conv split: if_splits)

lemma record_typed_field:
  assumes "parse_record_from_fields N (parse_field_value N C now self d 0) fs i = Some (i', r)"
  shows "record_typed r"
proof -
  from assms obtain vs where r: "r = from_template fs vs"
    and vs: "read_values (\<lambda>field input. parse_field_length N (fs_length (rf_spec field)) input \<bind>
        (\<lambda>(input, field_length). parse_field_value N C now self d 0 (rf_data_type field) field_length input))
      fs i = Some (i', vs)"
    by (auto simp: parse_record_from_fields_def bind_eq_Some_conv)
  have "list_all2 field_typed fs vs"
    using vs
  proof (induction fs arbitrary: i vs)
    case (Cons f fs)
    then obtain i1 len i2 v ws where l: "parse_field_length N (fs_length (rf_spec f)) i = Some (i1, len)"
      and v: "parse_field_value N C now self d 0 (rf_data_type f) len i1 = Some (i2, v)"
      and ws: "vs = v # ws" "list_all2 field_typed fs ws"
      by (auto simp: bind_eq_Some_conv)
    then show ?case
      using field_length_bound [OF l] field_value_typed [OF v]
      by (auto simp: field_typed_def [of f])
  qed simp
  then show ?thesis
    by (simp add: r record_typed_def from_template_def)
qed

lemma templated_typed:
  assumes "parse_templated_records N C now self d tid 0 i = Some (i', rs)"
  shows "\<forall>r\<in>set (data_records rs). record_typed r"
proof (cases "ipfix_template_for self now (d, tid)")
  case (Some t)
  obtain fs wrap where t: "t = (fs, wrap)" by force
  have r: "\<forall>r\<in>set (data_records (map wrap xs)). record_typed r"
    if "many0_loop (parse_record_from_fields N (parse_field_value N C now self d 0) fs) i = Some (i', xs)" for xs
    using many0_loop_elems [OF that] record_typed_field [of now self d fs] Some t
    by (intro data_records_all template_for_wrap [of self now "(d, tid)" fs wrap]) auto
  show ?thesis
  proof (cases "fs = []")
    case True
    with assms Some t show ?thesis
      by (simp add: parse_templated_records_def parse_templated_with_def data_records_def List.map_filter_def)
  next
    case False
    with assms Some t show ?thesis
      by (auto simp: parse_templated_records_def parse_templated_with_def bind_eq_Some_conv
          many0_data [OF value_parser_ok_field] dest: r)
  qed
qed (use assms in \<open>simp add: parse_templated_records_def parse_templated_with_def data_records_def List.map_filter_def\<close>)

lemma data_records_templates:
  "data_records [] = []" "data_records (map RTemplate ts) = []" "data_records (map ROptionsTemplate os) = []"
  by (simp_all add: data_records_def List.map_filter_def)

lemma set_typed:
  assumes "parse_set N C now d self i = (self', Some (rest, s))"
  shows "\<forall>r\<in>set (data_records (set_records s)). record_typed r"
  using assms
  by (auto simp: parse_set_def parse_records_def data_records_templates
      dest: templated_typed split: option.splits prod.splits if_splits)

end

section \<open>The loops over lists end\<close>

text \<open>
  The two \<^verbatim>\<open>while\<close> loops as the source has them: \<open>None\<close> is a loop that never ends,
  \<open>Some None\<close> one left by an error, and the collected values are an accumulator.
\<close>

partial_function (option) basic_list_run ::
    "'z nom_scheme \<Rightarrow> value_parser \<Rightarrow> u16 \<Rightarrow> data_type \<Rightarrow> ipfix_value list \<Rightarrow> bytes \<Rightarrow>
     ipfix_value list option option" where
  "basic_list_run N p field_length dt content list_data =
     (if list_data = [] then Some (Some content)
      else case parse_field_length N field_length list_data of
          None \<Rightarrow> Some None
        | Some (next_data, actual_length) \<Rightarrow>
            if field_length = 0 \<or> length next_data < actual_length then Some (Some content)
            else case p dt actual_length next_data of
                None \<Rightarrow> Some None
              | Some (next_data, value) \<Rightarrow>
                  basic_list_run N p field_length dt (content @ [value]) next_data)"

partial_function (option) multi_list_run ::
    "'z ipfix_nom_scheme \<Rightarrow> nat \<Rightarrow> ipfix_parser \<Rightarrow> u32 \<Rightarrow> value_parser \<Rightarrow>
     ipfix_value multi_item list \<Rightarrow> bytes \<Rightarrow> ipfix_value multi_item list option option" where
  "multi_list_run N now self domain p items list_data =
     (if list_data = [] then Some (Some items)
      else case do {
          (next_data, template_id) \<leftarrow> nom_be_u16 N list_data;
          (next_data, item_length) \<leftarrow> nom_be_u16 N next_data;
          Some (next_data, template_id, item_length)
        } of
          None \<Rightarrow> Some None
        | Some (next_data, template_id, item_length) \<Rightarrow>
            if unat item_length - 4 = 0 then multi_list_run N now self domain p items next_data
            else case do {
                (next_data, item_data) \<leftarrow> nom_take N (unat item_length - 4) next_data;
                (_, records) \<leftarrow> parse_templated_with N now self domain p template_id item_data;
                Some (next_data, records)
              } of
                None \<Rightarrow> Some None
              | Some (next_data, records) \<Rightarrow>
                  multi_list_run N now self domain p
                    (items @ [MkMultiItem template_id item_length (data_records records)]) next_data)"

context ipfix_nom_spec
begin

lemma basic_list_run_ends:
  assumes "value_parser_ok p"
  shows "basic_list_run N p fl dt content data =
    Some (map_option ((@) content) (basic_list_loop N p fl dt (length data) data))"
proof (induction "length data" arbitrary: data content rule: less_induct)
  case less
  show ?case
  proof (cases "data = []")
    case False
    have shorter: "length next' < length data"
      if "parse_field_length N fl data = Some (next_data, len)" "fl \<noteq> 0"
        "p dt len next_data = Some (next', v)" for next_data len next' v
      using field_length_cases [OF that(1)] value_parser_okD [OF assms that(3)] that(2) False
      by (cases "fl = IPFIX_VARIABLE_LENGTH") (auto simp: unat_gt_0)
    show ?thesis
      using False less.hyps [OF shorter]
      unfolding basic_list_while [OF assms, of fl dt data] basic_list_run.simps [of _ _ _ _ _ data]
      by (auto simp: option.map_comp comp_def split: option.splits prod.splits bind_splits)
  qed (simp add: basic_list_run.simps)
qed

lemma multi_list_run_ends:
  "multi_list_run N now self d p items data =
    Some (map_option ((@) items) (multi_list_loop N now self d p (length data) data))"
proof (induction "length data" arbitrary: data items rule: less_induct)
  case less
  show ?case
  proof (cases data)
    case (Cons b bs)
    define fuel where "fuel = length bs"
    have run: "multi_list_run N now self d p items' next' =
        Some (map_option ((@) items') (multi_list_loop N now self d p fuel next'))"
      if "length next' < length data" for next' items'
      using less.hyps [OF that] multi_list_loop_enough [of next' "length next'" fuel] that
      by (simp add: fuel_def Cons)
    have u16: "length i' < length i" if "nom_be_u16 N i = Some (i', w)" for i i' w
      using that by (auto simp: be_specs be_read_def split: if_splits)
    have take: "length i' \<le> length i" if "nom_take N k i = Some (i', x)" for k i i' x
      using that by (auto simp: take_spec split: if_splits)
    have loop: "multi_list_loop N now self d p (length data) data = multi_list_loop N now self d p (Suc fuel) (b # bs)"
      by (simp add: fuel_def Cons)
    show ?thesis
    proof (cases "nom_be_u16 N data \<bind> (\<lambda>(i, tid). nom_be_u16 N i \<bind> (\<lambda>(i, len). Some (i, tid, len)))")
      case None
      then show ?thesis
        unfolding loop multi_list_run.simps [of _ _ _ _ _ _ data] multi_list_loop.simps
        by (auto simp: Cons bind_eq_None_conv split: bind_splits)
    next
      case (Some r)
      obtain i2 tid len where r: "r = (i2, tid, len)" by (cases r) auto
      from Some obtain i1 where h: "nom_be_u16 N data = Some (i1, tid)" "nom_be_u16 N i1 = Some (i2, len)"
        by (auto simp: r bind_eq_Some_conv)
      then have short: "length i2 < length data" using u16 less_trans by blast
      show ?thesis
      proof (cases "unat len - 4 = 0")
        case True
        then show ?thesis
          using Some h run [OF short]
          unfolding loop multi_list_run.simps [of _ _ _ _ _ _ data] multi_list_loop.simps
          by (simp add: Cons r Let_def)
      next
        case False
        show ?thesis
          using Some h False run [OF le_less_trans [OF take short]]
          unfolding loop multi_list_run.simps [of _ _ _ _ _ _ data] multi_list_loop.simps
          by (auto simp: Cons r Let_def option.map_comp comp_def split: option.splits prod.splits bind_splits)
      qed
    qed
  qed (simp add: multi_list_run.simps)
qed

end

section \<open>Properties\<close>

text \<open>C32. Every value of every data record is what the data type of its element and the length of its
  field call for: an integer, a float, an address, a time of the kind named, text or a list;
  no value when the bytes encode none; and the octets as sent exactly where the type has no
  reading of that length.\<close>

theorem ipfix_values_typed:
  assumes "ipfix_nom_spec N C" and "parse_set N C now d self i = (self', Some (rest, s))"
  shows "\<forall>r\<in>set (data_records (set_records s)). record_typed r"
  using assms by (rule ipfix_nom_spec.set_typed)

theorem ipfix_values_typed_witness:
  "\<exists>self' rs. parse_set ipfix_nom_ref chrono_ref 5 1 (ipfix_with ipfix_example_fields)
      ([1, 0, 0, 19] @ replicate 15 7) =
    (self', Some ([], \<lparr>set_id = 256, set_length = 19, set_records = map RData rs\<rparr>)) \<and>
    length rs = 2 \<and> (\<forall>r\<in>set (data_records (map RData rs)). record_typed r)"
proof -
  have f: "set_frame ipfix_nom_ref ([1, 0, 0, 19] @ replicate 15 7) = Some ([], 256, 19, replicate 15 7)"
    by (simp add: ipfix_eval)
  have v: "ipfix_valid_template_id 256" by (simp add: ipfix_consts)
  obtain rs where rs: "parse_templated_records ipfix_nom_ref chrono_ref 5 (ipfix_with ipfix_example_fields) 1 256 0
      (replicate 15 7) = Some (drop 14 (replicate 15 7), map RData rs)" "length rs = 2"
    using ipfix_ref.templated_records [OF ipfix_with_template [OF ipfix_example_size(5)] ipfix_example_size(3),
        where depth = 0 and i = "replicate 15 7"]
    by (auto simp: ipfix_example_size)
  then have "\<exists>self'. parse_set ipfix_nom_ref chrono_ref 5 1 (ipfix_with ipfix_example_fields)
      ([1, 0, 0, 19] @ replicate 15 7) =
    (self', Some ([], \<lparr>set_id = 256, set_length = 19, set_records = map RData rs\<rparr>))"
    unfolding ipfix_ref.data_set [OF f v] by simp
  with rs(2) ipfix_values_typed [OF ipfix_ref.ipfix_nom_spec_axioms] show ?thesis
    by fastforce
qed

text \<open>C33. The loops over the contents of a basic list and of a multi-list end on every input, whatever
  the sender put in them: each round consumes at least a byte.\<close>

theorem ipfix_list_loops_end:
  assumes "ipfix_nom_spec N C"
  shows "basic_list_run N (parse_field_value N C now self d depth) fl dt [] data \<noteq> None \<and>
    multi_list_run N now self d (parse_field_value N C now self d depth) [] data \<noteq> None \<and>
    basic_list_run N (parse_field_value N C now self d depth) fl dt [] data =
      Some (basic_list_loop N (parse_field_value N C now self d depth) fl dt (length data) data) \<and>
    multi_list_run N now self d (parse_field_value N C now self d depth) [] data =
      Some (multi_list_loop N now self d (parse_field_value N C now self d depth) (length data) data)"
  using ipfix_nom_spec.basic_list_run_ends [OF assms ipfix_nom_spec.value_parser_ok_field [OF assms]]
    ipfix_nom_spec.multi_list_run_ends [OF assms]
  by (simp add: option.map_id0 [unfolded id_def] append_Nil [abs_def])

theorem ipfix_list_loops_end_witness:
  "basic_list_run ipfix_nom_ref (parse_field_value ipfix_nom_ref chrono_ref 5 (ipfix_new 5 registry_new 600) 1 0)
    0 DtString [] [1, 2, 3] \<noteq> None"
  using ipfix_list_loops_end [OF ipfix_ref.ipfix_nom_spec_axioms] by blast

end
