(* ===== verification/IpfixEncoder.thy ===== *)
theory IpfixEncoder
  imports IpfixTyping
begin

text \<open>
  \<^verbatim>\<open>ipfix/encoder.rs\<close>: IPFIX messages as bytes. Every encoder appends to a buffer, with the
  functions of \<^verbatim>\<open>bytes::BufMut\<close>, which are a parameter. The values of lists are encoded by the
  encoder of values itself; in the recursion it appears as the closures it gives for the values
  of the list, and \<open>encode_value_lists\<close> states the equations of the source.
\<close>

section \<open>Encoders\<close>

text \<open>A \<^verbatim>\<open>u64\<close> sum and casts to \<^verbatim>\<open>u32\<close> wrap around.\<close>

definition datetime_to_ntp :: "chrono \<Rightarrow> datetime \<Rightarrow> u32 \<times> u32" where
  "datetime_to_ntp C dt =
     (let unix_secs = (word_of_int (ch_timestamp C dt) :: u64);
          ntp_secs = unix_secs + NTP_UNIX_EPOCH_DIFF;
          nanos = (word_of_nat (ch_timestamp_subsec_nanos C dt) :: u64);
          fraction = push_bit 32 nanos div 1000000000
      in (ucast ntp_secs, ucast fraction))"

definition encode_specifier :: "bufmut \<Rightarrow> field_specifier \<Rightarrow> bytes \<Rightarrow> bytes" where
  "encode_specifier B self buf =
     (let id_with_enterprise_bit =
            (if fs_enterprise_bit self then fs_id self OR 0x8000 else fs_id self);
          buf = put_u16 B id_with_enterprise_bit buf;
          buf = put_u16 B (fs_length self) buf
      in case fs_enterprise_number self of
           Some enterprise_number \<Rightarrow> put_u32 B enterprise_number buf
         | None \<Rightarrow> buf)"

definition encode_header :: "bufmut \<Rightarrow> chrono \<Rightarrow> ipfix_header \<Rightarrow> bytes \<Rightarrow> bytes" where
  "encode_header B C self buf =
     (let buf = put_u16 B (ih_version self) buf;
          buf = put_u16 B (ih_length self) buf;
          buf = put_u32 B (word_of_int (ch_timestamp C (ih_export_time self))) buf;
          buf = put_u32 B (ih_sequence_number self) buf
      in put_u32 B (ih_domain self) buf)"

record set_header =
  shd_set_id :: u16
  shd_length :: u16

definition encode_set_header :: "bufmut \<Rightarrow> set_header \<Rightarrow> bytes \<Rightarrow> bytes" where
  "encode_set_header B self buf = put_u16 B (shd_length self) (put_u16 B (shd_set_id self) buf)"

definition encode_template_record :: "bufmut \<Rightarrow> ipfix_template_record \<Rightarrow> bytes \<Rightarrow> bytes" where
  "encode_template_record B self buf =
     (let buf = put_u16 B (tr_template_id self) buf;
          buf = put_u16 B (tr_field_count self) buf
      in fold (encode_specifier B) (tr_fields self) buf)"

definition encode_options_template_record :: "bufmut \<Rightarrow> ipfix_options_record \<Rightarrow> bytes \<Rightarrow> bytes" where
  "encode_options_template_record B self buf =
     (let buf = put_u16 B (or_template_id self) buf;
          buf = put_u16 B (or_field_count self) buf;
          buf = put_u16 B (or_scope_field_count self) buf
      in fold (encode_specifier B) (or_fields self) buf)"

definition put_fixed :: "bufmut \<Rightarrow> bytes \<Rightarrow> nat \<Rightarrow> bytes \<Rightarrow> bytes" where
  "put_fixed B bs len buf =
     (let bs = take (min (length bs) len) bs;
          buf = put_slice B bs buf
      in put_bytes B 0 (len - length bs) buf)"

definition put_uint :: "bufmut \<Rightarrow> u64 \<Rightarrow> nat \<Rightarrow> bytes \<Rightarrow> bytes" where
  "put_uint B value len buf =
     (let bs = to_be_bytes value in
      if len \<le> length bs then put_slice B (drop (length bs - len) bs) buf
      else put_slice B bs (put_bytes B 0 (len - length bs) buf))"

definition put_int :: "bufmut \<Rightarrow> u64 \<Rightarrow> nat \<Rightarrow> bytes \<Rightarrow> bytes" where
  "put_int B value len buf =
     (let bs = to_be_bytes value in
      if len \<le> length bs then put_slice B (drop (length bs - len) bs) buf
      else put_slice B bs (put_bytes B (if sint value < 0 then 0xff else 0) (len - length bs) buf))"

text \<open>\<^verbatim>\<open>as_bytes\<close> and \<^verbatim>\<open>floor_char_boundary\<close> of a \<^verbatim>\<open>str\<close>: the last boundary of characters at or before
  an index.\<close>

definition as_bytes :: "string \<Rightarrow> bytes" where
  "as_bytes s = map (\<lambda>c. word_of_nat (of_char c)) s"

fun char_boundary_upto :: "bytes \<Rightarrow> nat \<Rightarrow> nat" where
  "char_boundary_upto bs 0 = 0"
| "char_boundary_upto bs (Suc n) =
     (if utf8_cont (bs ! Suc n) then char_boundary_upto bs n else Suc n)"

definition floor_char_boundary :: "string \<Rightarrow> nat \<Rightarrow> nat" where
  "floor_char_boundary s n =
     (if length s \<le> n then length s else char_boundary_upto (as_bytes s) n)"

text \<open>The value of a field, \<open>enc\<close> being its encoding at its natural width.\<close>

definition encode_field_with ::
    "bufmut \<Rightarrow> ipfix_value \<Rightarrow> (bytes \<Rightarrow> bytes) \<Rightarrow> u16 \<Rightarrow> bytes \<Rightarrow> bytes" where
  "encode_field_with B value enc field_length buf =
     (if field_length = IPFIX_VARIABLE_LENGTH then
        let value_data = enc [];
            buf = (if length value_data < 255 then put_u8 B (word_of_nat (length value_data)) buf
                   else put_u16 B (word_of_nat (length value_data)) (put_u8 B 255 buf))
        in put_slice B value_data buf
      else if field_length = 0 then enc buf
      else let len = unat field_length in
        (case value of
           Unsigned8 v \<Rightarrow> put_uint B (ucast v) len buf
         | Unsigned16 v \<Rightarrow> put_uint B (ucast v) len buf
         | Unsigned32 v \<Rightarrow> put_uint B (ucast v) len buf
         | Unsigned64 v \<Rightarrow> put_uint B v len buf
         | Signed8 v \<Rightarrow> put_int B (scast v) len buf
         | Signed16 v \<Rightarrow> put_int B (scast v) len buf
         | Signed32 v \<Rightarrow> put_int B (scast v) len buf
         | Signed64 v \<Rightarrow> put_int B v len buf
         | OctetArray v \<Rightarrow> put_fixed B v len buf
         | String v \<Rightarrow> put_fixed B (take (floor_char_boundary v len) (as_bytes v)) len buf
         | Null \<Rightarrow> put_bytes B 0 len buf
         | _ \<Rightarrow> enc buf))"

text \<open>The values of a record or list, each with its closure.\<close>

definition encode_fields_with ::
    "bufmut \<Rightarrow> (field_specifier \<times> string \<times> ipfix_value) list \<Rightarrow> (bytes \<Rightarrow> bytes) list \<Rightarrow> bytes \<Rightarrow> bytes" where
  "encode_fields_with B entries encs buf =
     fold (\<lambda>((field, _, value), enc). encode_field_with B value enc (fs_length field)) (zip entries encs) buf"

primrec encode_value :: "bufmut \<Rightarrow> chrono \<Rightarrow> ipfix_value \<Rightarrow> bytes \<Rightarrow> bytes" where
  "encode_value B C (Unsigned8 v) = put_u8 B v"
| "encode_value B C (Unsigned16 v) = put_u16 B v"
| "encode_value B C (Unsigned32 v) = put_u32 B v"
| "encode_value B C (Unsigned64 v) = put_u64 B v"
| "encode_value B C (Unsigned256 v) = put_slice B (to_be_bytes v)"
| "encode_value B C (Signed8 v) = put_i8 B v"
| "encode_value B C (Signed16 v) = put_i16 B v"
| "encode_value B C (Signed32 v) = put_i32 B v"
| "encode_value B C (Signed64 v) = put_i64 B v"
| "encode_value B C (Float32 v) = put_f32 B v"
| "encode_value B C (Float64 v) = put_f64 B v"
| "encode_value B C (Boolean v) = put_u8 B (if v then 1 else 2)"
| "encode_value B C (MacAddress v) = put_slice B v"
| "encode_value B C (OctetArray v) = put_slice B v"
| "encode_value B C (String v) = put_slice B (as_bytes v)"
| "encode_value B C (DateTimeSeconds v) = put_u32 B (word_of_int (ch_timestamp C v))"
| "encode_value B C (DateTimeMilliseconds v) = put_u64 B (word_of_int (ch_timestamp_millis C v))"
| "encode_value B C (DateTimeMicroseconds v) =
     (\<lambda>buf. case datetime_to_ntp C v of (ntp_secs, fraction) \<Rightarrow> put_u32 B fraction (put_u32 B ntp_secs buf))"
| "encode_value B C (DateTimeNanoseconds v) =
     (\<lambda>buf. case datetime_to_ntp C v of (ntp_secs, fraction) \<Rightarrow> put_u32 B fraction (put_u32 B ntp_secs buf))"
| "encode_value B C (Ipv4Address v) = put_slice B (to_be_bytes v)"
| "encode_value B C (Ipv6Address v) = put_slice B (to_be_bytes v)"
| "encode_value B C (BasicList l) = (\<lambda>buf.
     let buf = put_u8 B (semantic_into (bl_semantic l)) buf;
         buf = encode_specifier B (bl_field l) buf
     in fold (\<lambda>(value, enc). encode_field_with B value enc (fs_length (bl_field l)))
          (zip (bl_content l) (bl_content (map_basic_list (encode_value B C) l))) buf)"
| "encode_value B C (SubTemplateList l) = (\<lambda>buf.
     let buf = put_u8 B (semantic_into (stl_semantic l)) buf;
         buf = put_u16 B (stl_template_id l) buf
     in fold (\<lambda>(r, encs). encode_fields_with B (record_iter r) (dr_values encs))
          (zip (stl_data l) (stl_data (map_sub_template_list (encode_value B C) l))) buf)"
| "encode_value B C (SubTemplateMultiList l) = (\<lambda>buf.
     let buf = put_u8 B (semantic_into (ml_semantic l)) buf
     in fold (\<lambda>(item, item_encs) buf.
          let buf = put_u16 B (mi_template_id item) buf;
              buf = put_u16 B (mi_length item) buf
          in fold (\<lambda>(r, encs). encode_fields_with B (record_iter r) (dr_values encs))
               (zip (mi_data item) (mi_data item_encs)) buf)
          (zip (ml_data l) (ml_data (map_multi_list (encode_value B C) l))) buf)"
| "encode_value B C Null = (\<lambda>buf. buf)"

definition encode_field_value :: "bufmut \<Rightarrow> chrono \<Rightarrow> ipfix_value \<Rightarrow> u16 \<Rightarrow> bytes \<Rightarrow> bytes" where
  "encode_field_value B C value = encode_field_with B value (encode_value B C value)"

definition encode_data_record :: "bufmut \<Rightarrow> chrono \<Rightarrow> ipfix_data_record \<Rightarrow> bytes \<Rightarrow> bytes" where
  "encode_data_record B C self buf =
     fold (\<lambda>(field, _, value). encode_field_value B C value (fs_length field)) (record_iter self) buf"

definition encode_record :: "bufmut \<Rightarrow> chrono \<Rightarrow> ipfix_record \<Rightarrow> bytes \<Rightarrow> bytes" where
  "encode_record B C self buf =
     (case self of
        RTemplate t \<Rightarrow> encode_template_record B t buf
      | ROptionsTemplate t \<Rightarrow> encode_options_template_record B t buf
      | RData d \<Rightarrow> encode_data_record B C d buf
      | ROptionsData d \<Rightarrow> encode_data_record B C d buf)"

text \<open>The lengths of a set and of a packet are sums of \<^verbatim>\<open>u16\<close>; they wrap here, as they do in a release build, where a debug build panics.\<close>

definition encode_set :: "bufmut \<Rightarrow> chrono \<Rightarrow> ipfix_set \<Rightarrow> bytes \<Rightarrow> bytes" where
  "encode_set B C self buf =
     (let records_data = fold (encode_record B C) (set_records self) [];
          buf = put_u16 B (set_id self) buf;
          buf = put_u16 B (word_of_nat SET_HEADER_SIZE + word_of_nat (length records_data)) buf
      in put_slice B records_data buf)"

definition encode_packet :: "bufmut \<Rightarrow> chrono \<Rightarrow> ipfix_packet \<Rightarrow> bytes \<Rightarrow> bytes" where
  "encode_packet B C self buf =
     (let sets_data = fold (encode_set B C) (ip_sets self) [];
          header = ip_header self;
          buf = put_u16 B (ih_version header) buf;
          buf = put_u16 B (word_of_nat IPFIX_HEADER_SIZE + word_of_nat (length sets_data)) buf;
          buf = put_u32 B (word_of_int (ch_timestamp C (ih_export_time header))) buf;
          buf = put_u32 B (ih_sequence_number header) buf;
          buf = put_u32 B (ih_domain header) buf
      in put_slice B sets_data buf)"

text \<open>The recursion through lists, as the source has it.\<close>

lemma encode_fields_with_map:
  "encode_fields_with B (record_iter r) (map (encode_value B C) (dr_values r)) =
    encode_data_record B C r"
proof -
  have z: "fold (\<lambda>((field, _, value), enc). encode_field_with B value enc (fs_length field))
      (zip (map (\<lambda>(f, v). (rf_spec f, rf_name f, v)) (zip fs vs)) (map (encode_value B C) vs)) buf =
    fold (\<lambda>(field, _, value). encode_field_value B C value (fs_length field))
      (map (\<lambda>(f, v). (rf_spec f, rf_name f, v)) (zip fs vs)) buf" for fs vs buf
    by (induction fs vs arbitrary: buf rule: list_induct2') (simp_all add: encode_field_value_def)
  show ?thesis
    by (rule ext) (simp only: encode_fields_with_def encode_data_record_def record_iter_def z)
qed

lemma encode_value_lists:
  "encode_value B C (BasicList l) buf =
     fold (\<lambda>value. encode_field_value B C value (fs_length (bl_field l))) (bl_content l)
       (encode_specifier B (bl_field l) (put_u8 B (semantic_into (bl_semantic l)) buf))"
  "encode_value B C (SubTemplateList sl) buf =
     fold (encode_data_record B C) (stl_data sl)
       (put_u16 B (stl_template_id sl) (put_u8 B (semantic_into (stl_semantic sl)) buf))"
  "encode_value B C (SubTemplateMultiList ml) buf =
     fold (\<lambda>item buf. fold (encode_data_record B C) (mi_data item)
         (put_u16 B (mi_length item) (put_u16 B (mi_template_id item) buf)))
       (ml_data ml) (put_u8 B (semantic_into (ml_semantic ml)) buf)"
proof -
  have vals: "fold (\<lambda>(value, enc). encode_field_with B value enc len) (zip vs (map (encode_value B C) vs)) buf =
      fold (\<lambda>value. encode_field_value B C value len) vs buf" for len vs buf
    by (induction vs arbitrary: buf) (simp_all add: encode_field_value_def)
  have records: "fold (\<lambda>(r, encs). encode_fields_with B (record_iter r) (dr_values encs))
      (zip rs (map (map_data_record (encode_value B C)) rs)) buf = fold (encode_data_record B C) rs buf" for rs buf
    by (induction rs arbitrary: buf) (simp_all add: encode_fields_with_map data_record.map_sel)
  show "encode_value B C (BasicList l) buf =
     fold (\<lambda>value. encode_field_value B C value (fs_length (bl_field l))) (bl_content l)
       (encode_specifier B (bl_field l) (put_u8 B (semantic_into (bl_semantic l)) buf))"
    by (simp add: vals basic_list.map_sel Let_def)
  show "encode_value B C (SubTemplateList sl) buf =
     fold (encode_data_record B C) (stl_data sl)
       (put_u16 B (stl_template_id sl) (put_u8 B (semantic_into (stl_semantic sl)) buf))"
    by (simp add: records sub_template_list.map_sel Let_def)
  have "fold (\<lambda>(item, item_encs) buf.
          fold (\<lambda>(r, encs). encode_fields_with B (record_iter r) (dr_values encs))
               (zip (mi_data item) (mi_data item_encs)) (put_u16 B (mi_length item) (put_u16 B (mi_template_id item) buf)))
          (zip ms (map (map_multi_item (encode_value B C)) ms)) buf =
      fold (\<lambda>item buf. fold (encode_data_record B C) (mi_data item)
         (put_u16 B (mi_length item) (put_u16 B (mi_template_id item) buf))) ms buf" for ms buf
    by (induction ms arbitrary: buf) (simp_all add: records multi_item.map_sel)
  then show "encode_value B C (SubTemplateMultiList ml) buf =
     fold (\<lambda>item buf. fold (encode_data_record B C) (mi_data item)
         (put_u16 B (mi_length item) (put_u16 B (mi_template_id item) buf)))
       (ml_data ml) (put_u8 B (semantic_into (ml_semantic ml)) buf)"
    by (simp add: multi_list.map_sel Let_def)
qed

section \<open>Integers\<close>

lemma nat_be_append: "nat_be (m + n) k = nat_be m (k div 256 ^ n) @ nat_be n k"
  by (induction n arbitrary: k) (simp_all add: div_mult2_eq)

lemma nat_be_mod: "nat_be n (k mod 256 ^ n) = nat_be n k"
proof (induction n arbitrary: k)
  case (Suc n)
  have "k mod 256 ^ Suc n div 256 = k div 256 mod 256 ^ n"
    by (simp add: mod_mult2_eq)
  moreover have "(word_of_nat (k mod 256 ^ Suc n) :: u8) = word_of_nat k"
    by (simp add: word_of_nat_eq_iff take_bit_eq_mod mod_mod_cancel)
  ultimately show ?case
    using Suc [of "k div 256"] by simp
qed simp

lemma to_be_bytes_nat_be:
  "to_be_bytes (a :: u8) = nat_be 1 (unat a)" "to_be_bytes (b :: u16) = nat_be 2 (unat b)"
  "to_be_bytes (c :: u32) = nat_be 4 (unat c)" "to_be_bytes (d :: u64) = nat_be 8 (unat d)"
  by (simp_all add: to_be_bytes_def)

lemma put_uint_bytes:
  assumes "bufmut_spec B" and "len \<le> 8"
  shows "put_uint B value len buf = buf @ nat_be len (unat value)"
    and "put_int B value len buf = buf @ nat_be len (unat value)"
  using nat_be_append [of "8 - len" len "unat value"] assms(2)
  by (simp_all add: put_uint_def put_int_def bufmut_spec.put_specs [OF assms(1)] to_be_bytes_nat_be)

lemma be_read_nat_be:
  "be_read n (nat_be n k @ r) = Some (r, word_of_nat (k mod 256 ^ n))"
  by (simp add: be_read_def from_be_bytes_def be_nat_nat_be)

lemma word_of_int_mod:
  "(word_of_int (i mod 256) :: u8) = word_of_int i" "(word_of_int (i mod 65536) :: u16) = word_of_int i"
  "(word_of_int (i mod 4294967296) :: u32) = word_of_int i"
  "(word_of_int (i mod 18446744073709551616) :: u64) = word_of_int i"
  by (simp_all add: word_of_int_eq_iff take_bit_eq_mod)

lemma nat_be_scast:
  fixes w :: "'a::len word"
  assumes "len \<le> 8"
  shows "nat_be len (unat (scast w :: u64)) = nat_be len (nat (sint w mod 256 ^ len))"
proof -
  obtain k where k: "8 = len + k" using assms le_Suc_ex by blast
  have "int (unat (scast w :: u64)) = sint w mod 2 ^ 64"
    using uint_word_of_int [of "sint w", where 'a = 64] by (simp only: scast_eq) simp
  moreover have "(2 :: int) ^ 64 = 256 ^ len * 256 ^ k"
    using k power_add [of "256 :: int" len k] by simp
  moreover have "(256 :: int) ^ len dvd 256 ^ len * 256 ^ k" by simp
  ultimately have "int (unat (scast w :: u64)) mod 256 ^ len = sint w mod 256 ^ len"
    by (simp only: mod_mod_cancel)
  then have "unat (scast w :: u64) mod 256 ^ len = nat (sint w mod 256 ^ len)"
    by (metis nat_int of_nat_mod of_nat_numeral of_nat_power)
  then show ?thesis
    by (metis nat_be_mod)
qed

lemma twos_complement:
  fixes i M H :: int
  assumes "- M \<le> 2 * i" and "2 * i < M" and "M = 2 * H"
  shows "(if i mod M < H then i mod M else i mod M - M) = i"
proof (cases "0 \<le> i")
  case False
  then have "(i + M) mod M = i + M"
    using assms by (intro mod_pos_pos_trivial) auto
  then have "i mod M = i + M" by simp
  then show ?thesis using assms False by simp
qed (use assms in simp)

lemma twos_complement_bytes:
  assumes "0 < len" and "- (256 ^ len) \<le> 2 * i" and "2 * i < 256 ^ len"
  shows "(if nat (i mod 256 ^ len) < 2 ^ (8 * len - 1) then int (nat (i mod 256 ^ len))
    else int (nat (i mod 256 ^ len)) - 2 ^ (8 * len)) = i"
proof -
  have M: "(256 :: int) ^ len = 2 ^ (8 * len)" by (simp add: power_mult)
  have H: "(2 :: int) ^ (8 * len) = 2 * 2 ^ (8 * len - 1)"
    using assms(1) by (simp flip: power_Suc)
  have "nat (i mod 256 ^ len) < 2 ^ (8 * len - 1) \<longleftrightarrow> i mod 256 ^ len < 2 ^ (8 * len - 1)"
    by (simp add: nat_less_iff)
  then show ?thesis
    using twos_complement [OF assms(2,3) M [THEN trans, OF H]] unfolding M
    by (auto split: if_splits)
qed

context wire_spec
begin

lemma parse_unsigned:
  assumes "1 \<le> len" and "len \<le> 8" and "k < 256 ^ len"
  shows "parse_plain_value N C DtUnsigned len (nat_be len k @ r) = Some (r,
    if len = 1 then Unsigned8 (word_of_nat k) else if len = 2 then Unsigned16 (word_of_nat k)
    else if len \<le> 4 then Unsigned32 (word_of_nat k) else Unsigned64 (word_of_nat k))"
proof -
  consider "len = 1" | "len = 2" | "len = 3" | "len = 4" | "len = 8" | "5 \<le> len" "len \<le> 7"
    using assms(1,2) by linarith
  then show ?thesis
  proof cases
    case 6
    then show ?thesis
      using be_uint_value [of len "nat_be len k @ r"] assms
      by (simp add: parse_plain_value_def be_nat_nat_be)
  qed (use assms(3) be_read_nat_be [of len k r] in \<open>simp_all add: parse_plain_value_def be_specs\<close>)
qed

lemma parse_signed:
  assumes "1 \<le> len" and "len \<le> 8" and "- (256 ^ len) \<le> 2 * i" and "2 * i < 256 ^ len"
  shows "parse_plain_value N C DtSigned len (nat_be len (nat (i mod 256 ^ len)) @ r) = Some (r,
    if len = 1 then Signed8 (word_of_int i) else if len = 2 then Signed16 (word_of_int i)
    else if len \<le> 4 then Signed32 (word_of_int i) else Signed64 (word_of_int i))"
proof -
  let ?k = "nat (i mod 256 ^ len)"
  have k: "?k < 256 ^ len" by (simp add: nat_less_iff)
  consider "len = 1" | "len = 2" | "len = 3" | "len = 4" | "len = 8" | "5 \<le> len" "len \<le> 7"
    using assms(1,2) by linarith
  then show ?thesis
  proof cases
    case 3
    have u: "unat (word_of_nat ?k :: u32) = ?k"
      using k 3 by (intro unat_word_of_nat) simp
    have "sint (signed_take_bit 23 (word_of_nat ?k :: u32)) =
        (if ?k < 2 ^ (8 * len - 1) then int ?k else int ?k - 2 ^ (8 * len))"
      using sint_signed_take_bit [of 24 "word_of_nat ?k :: u32"] k 3 unfolding u by simp
    also have "\<dots> = i"
      using twos_complement_bytes [of len i] assms by simp
    finally have "sint (signed_take_bit 23 (word_of_nat ?k :: u32)) = i" .
    then have "word_of_int (sint (signed_take_bit 23 (word_of_nat ?k :: u32))) = (word_of_int i :: u32)"
      by (simp only:)
    then have "signed_take_bit 23 (word_of_nat ?k :: u32) = word_of_int i"
      by (simp only: of_int_sint scast_id)
    then show ?thesis
      using 3 be_read_nat_be [of 3 ?k r, where 'a = 32] k
      by (simp add: parse_plain_value_def be_specs be_read_i24_def)
  next
    case 6
    obtain v where v: "be_int N len (nat_be len ?k @ r) = Some (r, v)"
      and s: "sint v = (if ?k < 2 ^ (8 * len - 1) then int ?k else int ?k - 2 ^ (8 * len))"
      using be_int_value [of len "nat_be len ?k @ r"] assms(1,2) k by (auto simp: be_nat_nat_be)
    have "sint v = i" unfolding s
      using twos_complement_bytes [of len i] assms by simp
    then have "v = word_of_int i" by auto
    then show ?thesis using 6 v by (simp add: parse_plain_value_def)
  qed (use k be_read_nat_be [of 1 ?k r, where 'a = 8] in
      \<open>simp_all add: parse_plain_value_def be_specs be_read_nat_be word_of_int_mod\<close>)
qed

end

section \<open>Times\<close>

text \<open>
  The fraction of a second in units of \<open>2 ^ -32\<close> seconds is rounded down when it is written and
  again when it is read. The two steps lose a nanosecond unless the fraction is exact, which it
  is for the multiples of \<open>5 ^ 9\<close> nanoseconds only.
\<close>

definition ntp_decoded :: "nat \<Rightarrow> nat" where
  "ntp_decoded n = (n * 4294967296 div 1000000000) * 1000000000 div 4294967296"

lemma below_next_multiple: "0 < p \<Longrightarrow> m < (m div p + 1) * p" for m p :: nat
  by (simp add: dividend_less_div_times)

lemma ntp_decoded_le: "ntp_decoded n \<le> n" "n \<le> ntp_decoded n + 1"
proof -
  let ?f = "n * 4294967296 div 1000000000"
  have f: "?f * 1000000000 \<le> n * 4294967296" "n * 4294967296 < ?f * 1000000000 + 1000000000"
    using div_mult_mod_eq [of "n * 4294967296" 1000000000] mod_less_divisor [of 1000000000 "n * 4294967296"] by linarith+
  then have "ntp_decoded n \<le> n * 4294967296 div 4294967296"
    unfolding ntp_decoded_def by (intro div_le_mono)
  then show "ntp_decoded n \<le> n" by simp
  have "?f * 1000000000 < (ntp_decoded n + 1) * 4294967296"
    unfolding ntp_decoded_def
    by (rule below_next_multiple) simp
  then have "n * 4294967296 < (ntp_decoded n + 2) * 4294967296"
    using f(2) by simp
  then show "n \<le> ntp_decoded n + 1" by simp
qed

lemma ntp_decoded_exact: "ntp_decoded n = n \<longleftrightarrow> 1953125 dvd n"
proof
  assume "1953125 dvd n"
  then obtain k where k: "n = 1953125 * k" ..
  have "n * 4294967296 = (k * 8388608) * 1000000000" by (simp add: k)
  then have "n * 4294967296 div 1000000000 = k * 8388608" by simp
  then have "ntp_decoded n = (k * 1953125) * 4294967296 div 4294967296"
    unfolding ntp_decoded_def by simp
  then show "ntp_decoded n = n" by (simp add: k)
next
  assume eq: "ntp_decoded n = n"
  let ?f = "n * 4294967296 div 1000000000"
  have "n * 4294967296 \<le> ?f * 1000000000"
    using eq unfolding ntp_decoded_def
    using div_mult_mod_eq [of "?f * 1000000000" "4294967296"] by linarith
  then have "n * 4294967296 mod 1000000000 = 0"
    using div_mult_mod_eq [of "n * 4294967296" 1000000000] by linarith
  then have "512 * 1953125 dvd n * 8388608 * 512"
    by (simp add: dvd_eq_mod_eq_0 mult.assoc)
  then have "1953125 dvd n * 8388608"
    by (metis dvd_times_right_cancel_iff mult.commute zero_neq_numeral power_not_zero)
  moreover have "coprime (1953125 :: nat) 8388608"
  proof -
    have "coprime ((5 :: nat) ^ 9) (2 ^ 23)"
      by (simp only: coprime_power_left_iff coprime_power_right_iff coprime_right_2_iff_odd) simp
    then show ?thesis by simp
  qed
  ultimately show "1953125 dvd n"
    by (simp add: coprime_dvd_mult_left_iff)
qed

context wire_spec
begin

lemma ntp_roundtrip:
  assumes "dt_ok t" and "0 \<le> dt_secs t + 2208988800" and "dt_secs t + 2208988800 < 2 ^ 32"
  shows "case datetime_to_ntp C t of (s, f) \<Rightarrow>
    ntp_to_datetime C s f = Some (DateTime (dt_secs t) (ntp_decoded (dt_nanos t)))"
proof -
  let ?n = "dt_nanos t"
  have n: "?n < 1000000000" using assms(1) by (simp add: dt_ok_def)
  have small: "uint (word_of_int k :: u64) = k" if "0 \<le> k" "k < 2 ^ 32" for k
    using that by (simp add: uint_word_of_int)
  have secs: "uint (ucast ((word_of_int (dt_secs t) :: u64) + NTP_UNIX_EPOCH_DIFF) :: u32) = dt_secs t + 2208988800"
  proof -
    have "(word_of_int (dt_secs t) :: u64) + NTP_UNIX_EPOCH_DIFF = word_of_int (dt_secs t + 2208988800)"
      by (simp add: NTP_UNIX_EPOCH_DIFF_def)
    then have "uint ((word_of_int (dt_secs t) :: u64) + NTP_UNIX_EPOCH_DIFF) = dt_secs t + 2208988800"
      by (simp only: small [OF assms(2,3)])
    then show ?thesis
      using assms(2,3) by (simp only: unsigned_ucast_eq take_bit_eq_mod) simp
  qed
  have f: "?n * 2 ^ 32 div 1000000000 < 2 ^ 32"
    using n by (simp add: less_mult_imp_div_less)
  have "unat (push_bit 32 (word_of_nat ?n) div 1000000000 :: u64) = ?n * 2 ^ 32 div 1000000000"
    using n by (simp add: unat_div_distrib push_bit_eq_mult unat_word_ariths unsigned_of_nat take_bit_eq_mod)
  then have fr: "unat (ucast (push_bit 32 (word_of_nat ?n) div 1000000000 :: u64) :: u32) = ?n * 2 ^ 32 div 1000000000"
    using f by (simp add: unsigned_ucast_eq take_bit_eq_mod)
  have nd: "ntp_decoded ?n < 1000000000"
    using ntp_decoded_le(1) [of ?n] n by linarith
  have mul: "unat ((ucast fraction :: u64) * 1000000000) = unat fraction * 1000000000" for fraction :: u32
    using unat_bounds(3) [of fraction] by (simp add: unat_word_ariths unsigned_ucast_eq take_bit_eq_mod)
  have "unat (ucast (drop_bit 32 ((ucast fraction :: u64) * 1000000000)) :: u32) = unat fraction * 1000000000 div 2 ^ 32"
    for fraction :: u32
  proof -
    have "unat (ucast (drop_bit 32 x) :: u32) = unat x div 2 ^ 32 mod 2 ^ LENGTH(32)" for x :: u64
      by (simp only: unsigned_ucast_eq take_bit_eq_mod drop_bit_eq_div unsigned_drop_bit_eq) (simp add: unat_div_distrib)
    moreover have "unat fraction * 1000000000 div 2 ^ 32 < 2 ^ LENGTH(32)"
      using unat_bounds(3) [of fraction] by (simp add: less_mult_imp_div_less)
    ultimately show ?thesis by (simp only: mul mod_less)
  qed
  then show ?thesis
    using fr secs from_timestamp_spec [of "dt_secs t" "ntp_decoded ?n"] nd assms(2,3)
    by (simp add: datetime_to_ntp_def ntp_to_datetime_def timestamp_spec subsec_nanos_spec Let_def ntp_decoded_def
        NTP_UNIX_EPOCH_DIFF_def abs_le_iff)
qed

end

section \<open>Strings\<close>

lemma as_bytes_inverse: "map (\<lambda>b. char_of (unat b)) (as_bytes s) = s"
proof -
  have "char_of (unat (word_of_nat (of_char c) :: u8)) = c" for c
  proof -
    have "(of_char c :: nat) < 2 ^ LENGTH(8)" using nat_of_char_less_256 [of c] by simp
    then show ?thesis by (simp add: unat_word_of_nat del: len_bit0)
  qed
  then show ?thesis by (simp add: as_bytes_def map_idI)
qed

lemma length_as_bytes [simp]: "length (as_bytes s) = length s"
  by (simp add: as_bytes_def)

lemma utf8_valid_zeros: "utf8_valid v \<Longrightarrow> utf8_valid (v @ replicate k 0)"
proof (induction v rule: utf8_valid.induct)
  case 1
  show ?case by (induction k) simp_all
next
  case (2 a bs)
  note utf8_valid.simps(2) [simp del]
  show ?case
    using 2 unfolding append_Cons utf8_valid.simps(2) [of a]
    by (auto split: list.splits if_splits)
qed

lemma trim_zeros: "s = [] \<or> last s \<noteq> CHR 0x00 \<Longrightarrow> trim_end_nul (s @ replicate k (CHR 0x00)) = s"
  by (cases s rule: rev_cases) (auto simp: trim_end_nul_def dropWhile_append3)

section \<open>Values\<close>

text \<open>The number of bytes of a value written at its natural width.\<close>

definition natural_width :: "ipfix_value \<Rightarrow> nat" where
  "natural_width v = (case v of
       Unsigned8 _ \<Rightarrow> 1 | Unsigned16 _ \<Rightarrow> 2 | Unsigned32 _ \<Rightarrow> 4 | Unsigned64 _ \<Rightarrow> 8
     | Signed8 _ \<Rightarrow> 1 | Signed16 _ \<Rightarrow> 2 | Signed32 _ \<Rightarrow> 4 | Signed64 _ \<Rightarrow> 8
     | Float32 _ \<Rightarrow> 4 | Float64 _ \<Rightarrow> 8 | Boolean _ \<Rightarrow> 1 | MacAddress m \<Rightarrow> length m
     | OctetArray bs \<Rightarrow> length bs | String s \<Rightarrow> length s | DateTimeSeconds _ \<Rightarrow> 4
     | DateTimeMilliseconds _ \<Rightarrow> 8 | DateTimeMicroseconds _ \<Rightarrow> 8 | DateTimeNanoseconds _ \<Rightarrow> 8
     | Ipv4Address _ \<Rightarrow> 4 | Ipv6Address _ \<Rightarrow> 16 | _ \<Rightarrow> 0)"

text \<open>
  The values a field of a type and a length can carry without loss: of the constructor the type
  calls for, integers within the bytes of the field, text that does not end in the padding, times
  within the range and the resolution of the format.
\<close>

definition carries :: "data_type \<Rightarrow> nat \<Rightarrow> ipfix_value \<Rightarrow> bool" where
  "carries dt len v \<longleftrightarrow> value_typed dt len v \<and> (case v of
       Unsigned32 w \<Rightarrow> unat w < 256 ^ len
     | Unsigned64 w \<Rightarrow> unat w < 256 ^ len
     | Signed32 w \<Rightarrow> - (256 ^ len) \<le> 2 * sint w \<and> 2 * sint w < 256 ^ len
     | Signed64 w \<Rightarrow> - (256 ^ len) \<le> 2 * sint w \<and> 2 * sint w < 256 ^ len
     | MacAddress m \<Rightarrow> length m = 6
     | String s \<Rightarrow> utf8_valid (as_bytes s) \<and> length s \<le> len \<and> (s = [] \<or> last s \<noteq> CHR 0x00)
     | DateTimeSeconds t \<Rightarrow> dt_nanos t = 0 \<and> 0 \<le> dt_secs t \<and> dt_secs t < 2 ^ 32
     | DateTimeMilliseconds t \<Rightarrow> dt_ok t \<and> 1000000 dvd dt_nanos t \<and> 0 \<le> dt_secs t \<and> dt_secs t < 2 ^ 40
     | DateTimeMicroseconds t \<Rightarrow> dt_ok t \<and> 1953125 dvd dt_nanos t \<and> 0 \<le> dt_secs t + 2208988800 \<and>
         dt_secs t + 2208988800 < 2 ^ 32
     | DateTimeNanoseconds t \<Rightarrow> dt_ok t \<and> 1953125 dvd dt_nanos t \<and> 0 \<le> dt_secs t + 2208988800 \<and>
         dt_secs t + 2208988800 < 2 ^ 32
     | BasicList _ \<Rightarrow> False | SubTemplateList _ \<Rightarrow> False | SubTemplateMultiList _ \<Rightarrow> False | Null \<Rightarrow> False
     | _ \<Rightarrow> True)"

text \<open>\<open>f\<close> appends bytes that a parser reads back as \<open>x\<close>.\<close>

definition appends :: "(bytes \<Rightarrow> bytes) \<Rightarrow> nat \<Rightarrow> 'a parser \<Rightarrow> 'a \<Rightarrow> bool" where
  "appends f len p x \<longleftrightarrow>
     (\<exists>bs. length bs = len \<and> (\<forall>buf. f buf = buf @ bs) \<and> (\<forall>r. p (bs @ r) = Some (r, x)))"

lemma appendsI:
  "length bs = len \<Longrightarrow> (\<And>buf. f buf = buf @ bs) \<Longrightarrow> (\<And>r. p (bs @ r) = Some (r, x)) \<Longrightarrow> appends f len p x"
  by (auto simp: appends_def)

context wire_spec
begin

lemma plain_octets:
  "\<not> natural_length dt len \<Longrightarrow> parse_plain_value N C dt len i = mapped OctetArray (vector N len i)"
  by (cases dt) (auto simp: parse_plain_value_def natural_length_def)

lemma signed_reads_append:
  "nom_be_i8 N (to_be_bytes w8 @ r) = Some (r, w8)" "nom_be_i16 N (to_be_bytes w16 @ r) = Some (r, w16)"
  "nom_be_i32 N (to_be_bytes w32 @ r) = Some (r, w32)" "nom_be_i64 N (to_be_bytes w64 @ r) = Some (r, w64)"
  "nom_be_f32 N (to_be_bytes w32 @ r) = Some (r, w32)" "nom_be_f64 N (to_be_bytes w64 @ r) = Some (r, w64)"
  by (simp_all add: be_specs be_read_append)

lemma parse_string:
  assumes "utf8_valid (as_bytes st)" and "st = [] \<or> last st \<noteq> CHR 0x00"
  shows "parse_plain_value N C DtString (length st + k) (as_bytes st @ replicate k 0 @ r) = Some (r, String st)"
proof -
  have z: "as_bytes st @ replicate k 0 = as_bytes (st @ replicate k (CHR 0x00))"
    by (simp add: as_bytes_def)
  have "from_utf8 (as_bytes st @ replicate k 0) = Some (st @ replicate k (CHR 0x00))"
    using utf8_valid_zeros [OF assms(1), of k] unfolding from_utf8_def z as_bytes_inverse by simp
  then show ?thesis
    using trim_zeros [OF assms(2), of k] take_append [of "as_bytes st @ replicate k 0" "length st + k" r]
    by (simp add: parse_plain_value_def string_def)
qed

lemma small_word:
  "0 \<le> k \<Longrightarrow> k < 2 ^ 32 \<Longrightarrow> uint (word_of_int k :: u32) = k"
  "0 \<le> k \<Longrightarrow> k < 2 ^ 64 \<Longrightarrow> uint (word_of_int k :: u64) = k"
  by (simp_all add: uint_word_of_int)

lemma parse_seconds:
  assumes "dt_nanos t = 0" and "0 \<le> dt_secs t" and "dt_secs t < 2 ^ 32"
  shows "timestamp_secs N C (to_be_bytes (word_of_int (dt_secs t) :: u32) @ r) = Some (r, t)"
  using assms by (cases t) (simp add: timestamp_secs_eq nom_simps small_word)

lemma parse_milliseconds:
  assumes "dt_ok t" and "1000000 dvd dt_nanos t" and "0 \<le> dt_secs t" and "dt_secs t < 2 ^ 40"
  shows "timestamp_millis N C (to_be_bytes (word_of_int (ch_timestamp_millis C t) :: u64) @ r) = Some (r, Some t)"
proof -
  let ?ms = "dt_total t div 1000000"
  have n: "dt_nanos t < 1000000000" using assms(1) by (simp add: dt_ok_def)
  obtain k where k: "dt_nanos t = 1000000 * k" using assms(2) ..
  have ms: "?ms = dt_secs t * 1000 + int k" and total: "dt_total t = ?ms * 1000000"
    by (simp_all add: dt_total_def k)
  have b: "0 \<le> ?ms" "?ms \<le> 2 ^ 50" using assms(3,4) n unfolding ms by (simp_all add: k)
  then have u: "uint (word_of_int ?ms :: u64) = ?ms"
    by (intro small_word) auto
  have "ch_from_timestamp_millis C ?ms = Some t"
    using from_timestamp_millis_spec [of ?ms] b dt_of_total_total [OF assms(1)] total by simp
  moreover have "?ms < 2 ^ 63" using b(2) by simp
  ultimately show ?thesis
    by (simp only: timestamp_millis_def timestamp_millis_spec reads_append option.map u prod.case if_True)
qed

lemma parse_ntp:
  assumes "dt_ok t" and "1953125 dvd dt_nanos t" and "0 \<le> dt_secs t + 2208988800"
    and "dt_secs t + 2208988800 < 2 ^ 32"
  shows "timestamp_micros N C (to_be_bytes (fst (datetime_to_ntp C t)) @ to_be_bytes (snd (datetime_to_ntp C t)) @ r) =
      Some (r, t)"
    and "timestamp_nanos N C (to_be_bytes (fst (datetime_to_ntp C t)) @ to_be_bytes (snd (datetime_to_ntp C t)) @ r) =
      Some (r, t)"
proof -
  have "ntp_to_datetime C (fst (datetime_to_ntp C t)) (snd (datetime_to_ntp C t)) = Some t"
    using ntp_roundtrip [OF assms(1,3,4)] assms(2) ntp_decoded_exact [of "dt_nanos t"]
    by (cases t) (auto split: prod.splits)
  then show "timestamp_micros N C (to_be_bytes (fst (datetime_to_ntp C t)) @ to_be_bytes (snd (datetime_to_ntp C t)) @ r) =
      Some (r, t)"
    "timestamp_nanos N C (to_be_bytes (fst (datetime_to_ntp C t)) @ to_be_bytes (snd (datetime_to_ntp C t)) @ r) =
      Some (r, t)"
    by (simp_all add: timestamp_micros_def timestamp_nanos_def reads_append)
qed

lemma appends_natural:
  assumes "bufmut_spec B" and "carries dt len v" and "len = natural_width v"
  shows "appends (encode_value B C v) len (parse_plain_value N C dt len) v"
proof -
  note simps = bufmut_spec.put_specs [OF assms(1)] carries_def value_typed_def parse_plain_value_def
    natural_width_def nom_simps signed_reads_append macaddr6_def boolean_def ipv4_addr_def ipv6_addr_def
    from_to_be_bytes timestamp_spec vector_def parse_seconds parse_milliseconds parse_ntp
  show ?thesis
  proof (cases v)
    case (OctetArray bs)
    then have "\<not> natural_length dt len" "length bs = len"
      using assms(2) by (simp_all add: carries_def value_typed_def)
    then have "parse_plain_value N C dt len (bs @ r) = Some (r, OctetArray bs)" for r
      using plain_octets [of dt len] by (simp add: vector_def take_append)
    with OctetArray assms(3) show ?thesis
      by (intro appendsI [of bs]) (simp_all add: simps)
  next
    case (String st)
    then show ?thesis
      using assms(2,3) parse_string [of st 0]
      by (intro appendsI [of "as_bytes st"]) (simp_all add: bufmut_spec.put_specs [OF assms(1)] carries_def
          value_typed_def natural_width_def)
  next
    case (MacAddress m)
    then show ?thesis
      using assms(2,3) by (intro appendsI [of m]) (simp_all add: simps)
  next
    case (DateTimeSeconds t)
    then show ?thesis
      using assms(2,3) by (intro appendsI [of "to_be_bytes (word_of_int (ch_timestamp C t) :: u32)"]) (simp_all add: simps)
  next
    case (DateTimeMilliseconds t)
    then show ?thesis
      using assms(2,3) by (intro appendsI [of "to_be_bytes (word_of_int (ch_timestamp_millis C t) :: u64)"])
        (simp_all add: simps)
  next
    case (DateTimeMicroseconds t)
    then show ?thesis
      using assms(2,3)
      by (intro appendsI [of "to_be_bytes (fst (datetime_to_ntp C t)) @ to_be_bytes (snd (datetime_to_ntp C t))"])
        (simp_all add: simps split: prod.splits)
  next
    case (DateTimeNanoseconds t)
    then show ?thesis
      using assms(2,3)
      by (intro appendsI [of "to_be_bytes (fst (datetime_to_ntp C t)) @ to_be_bytes (snd (datetime_to_ntp C t))"])
        (simp_all add: simps split: prod.splits)
  next
    case (Boolean b)
    then show ?thesis
      using assms(2,3) by (intro appendsI [of "to_be_bytes (if b then 1 else 2 :: u8)"]) (simp_all add: simps)
  next
    case (Unsigned8 w)
    then show ?thesis
      using assms(2,3) by (intro appendsI [of "to_be_bytes w"]) (simp_all add: simps)
  next
    case (Unsigned16 w)
    then show ?thesis
      using assms(2,3) by (intro appendsI [of "to_be_bytes w"]) (simp_all add: simps)
  next
    case (Unsigned32 w)
    then show ?thesis
      using assms(2,3) by (intro appendsI [of "to_be_bytes w"]) (simp_all add: simps)
  next
    case (Unsigned64 w)
    then show ?thesis
      using assms(2,3) by (intro appendsI [of "to_be_bytes w"]) (simp_all add: simps)
  next
    case (Signed8 w)
    then show ?thesis
      using assms(2,3) by (intro appendsI [of "to_be_bytes w"]) (simp_all add: simps)
  next
    case (Signed16 w)
    then show ?thesis
      using assms(2,3) by (intro appendsI [of "to_be_bytes w"]) (simp_all add: simps)
  next
    case (Signed32 w)
    then show ?thesis
      using assms(2,3) by (intro appendsI [of "to_be_bytes w"]) (simp_all add: simps)
  next
    case (Signed64 w)
    then show ?thesis
      using assms(2,3) by (intro appendsI [of "to_be_bytes w"]) (simp_all add: simps)
  next
    case (Float32 w)
    then show ?thesis
      using assms(2,3) by (intro appendsI [of "to_be_bytes w"]) (simp_all add: simps)
  next
    case (Float64 w)
    then show ?thesis
      using assms(2,3) by (intro appendsI [of "to_be_bytes w"]) (simp_all add: simps)
  next
    case (Ipv4Address w)
    then show ?thesis
      using assms(2,3) by (intro appendsI [of "to_be_bytes w"]) (simp_all add: simps)
  next
    case (Ipv6Address w)
    then show ?thesis
      using assms(2,3) by (intro appendsI [of "to_be_bytes w"]) (simp_all add: simps)
  qed (use assms in \<open>simp_all add: carries_def value_typed_def\<close>)
qed

text \<open>Reduced-size integers.\<close>

lemma appends_unsigned:
  assumes "bufmut_spec B" and "1 \<le> len" and "len \<le> 8" and "unat x = k" and "k < 256 ^ len"
    and "v = (if len = 1 then Unsigned8 (word_of_nat k) else if len = 2 then Unsigned16 (word_of_nat k)
      else if len \<le> 4 then Unsigned32 (word_of_nat k) else Unsigned64 (word_of_nat k))"
  shows "appends (put_uint B x len) len (parse_plain_value N C DtUnsigned len) v"
  using parse_unsigned [OF assms(2,3,5)] assms(4,6)
  by (intro appendsI [of "nat_be len k"]) (simp_all add: put_uint_bytes [OF assms(1,3)])

lemma unat_ucast_u64: "unat (ucast (w8 :: u8) :: u64) = unat w8" "unat (ucast (w16 :: u16) :: u64) = unat w16"
  "unat (ucast (w32 :: u32) :: u64) = unat w32"
  using unat_bounds(1) [of w8] unat_bounds(2) [of w16] unat_bounds(3) [of w32]
  by (simp_all add: unsigned_ucast_eq take_bit_nat_eq_self)

lemma appends_signed:
  fixes w :: "'a::len word"
  assumes "bufmut_spec B" and "1 \<le> len" and "len \<le> 8"
    and "- (256 ^ len) \<le> 2 * sint w" and "2 * sint w < 256 ^ len"
    and "v = (if len = 1 then Signed8 (word_of_int (sint w)) else if len = 2 then Signed16 (word_of_int (sint w))
      else if len \<le> 4 then Signed32 (word_of_int (sint w)) else Signed64 (word_of_int (sint w)))"
  shows "appends (put_int B (scast w) len) len (parse_plain_value N C DtSigned len) v"
  using parse_signed [OF assms(2-5)] assms(6) nat_be_scast [OF assms(3), of w]
  by (intro appendsI [of "nat_be len (nat (sint w mod 256 ^ len))"]) (simp_all add: put_uint_bytes [OF assms(1,3)])

lemma sint_bounds: "- (2 ^ (LENGTH('a) - 1)) \<le> sint w" "sint w < 2 ^ (LENGTH('a) - 1)" for w :: "'a::len word"
  using sint_range_size [of w] by (simp_all add: word_size)

lemma appends_fixed:
  assumes "bufmut_spec B" and "carries dt len v" and "unat fl = len" and "fl \<noteq> IPFIX_VARIABLE_LENGTH" and "fl \<noteq> 0"
  shows "appends (encode_field_value B C v fl) len (parse_plain_value N C dt len) v"
proof -
  have e: "encode_field_value B C v fl buf = (case v of
           Unsigned8 v \<Rightarrow> put_uint B (ucast v) len buf
         | Unsigned16 v \<Rightarrow> put_uint B (ucast v) len buf
         | Unsigned32 v \<Rightarrow> put_uint B (ucast v) len buf
         | Unsigned64 v \<Rightarrow> put_uint B v len buf
         | Signed8 v \<Rightarrow> put_int B (scast v) len buf
         | Signed16 v \<Rightarrow> put_int B (scast v) len buf
         | Signed32 v \<Rightarrow> put_int B (scast v) len buf
         | Signed64 v \<Rightarrow> put_int B v len buf
         | OctetArray v \<Rightarrow> put_fixed B v len buf
         | String v \<Rightarrow> put_fixed B (take (floor_char_boundary v len) (as_bytes v)) len buf
         | Null \<Rightarrow> put_bytes B 0 len buf
         | _ \<Rightarrow> encode_value B C v buf)" for v buf
    using assms(3-5) by (simp add: encode_field_value_def encode_field_with_def Let_def)
  have natural: ?thesis if "len = natural_width v" "encode_field_value B C v fl = encode_value B C v"
    using appends_natural [OF assms(1,2) that(1)] that(2) by simp
  note simps = carries_def value_typed_def natural_length_def unat_ucast_u64
  show ?thesis
  proof (cases v)
    case (Unsigned8 w)
    then show ?thesis
      using assms(2) unat_bounds(1) [of w] unfolding e [abs_def]
      by (auto simp: simps intro!: appends_unsigned [OF assms(1), of _ _ "unat w"])
  next
    case (Unsigned16 w)
    then show ?thesis
      using assms(2) unat_bounds(2) [of w] unfolding e [abs_def]
      by (auto simp: simps intro!: appends_unsigned [OF assms(1), of _ _ "unat w"])
  next
    case (Unsigned32 w)
    then show ?thesis
      using assms(2) unfolding e [abs_def]
      by (auto simp: simps intro!: appends_unsigned [OF assms(1), of _ _ "unat w"])
  next
    case (Unsigned64 w)
    then show ?thesis
      using assms(2) unfolding e [abs_def]
      by (auto simp: simps intro!: appends_unsigned [OF assms(1), of _ _ "unat w"])
  next
    case (Signed8 w)
    then show ?thesis
      using assms(2) sint_bounds [of w] unfolding e [abs_def]
      by (auto simp: simps intro!: appends_signed [OF assms(1)])
  next
    case (Signed16 w)
    then show ?thesis
      using assms(2) sint_bounds [of w] unfolding e [abs_def]
      by (auto simp: simps intro!: appends_signed [OF assms(1)])
  next
    case (Signed32 w)
    then show ?thesis
      using assms(2) unfolding e [abs_def]
      by (auto simp: simps intro!: appends_signed [OF assms(1)])
  next
    case (Signed64 w)
    then show ?thesis
      using assms(2) appends_signed [OF assms(1), of len w v] unfolding e [abs_def]
      by (auto simp: simps scast_id)
  next
    case (OctetArray bs)
    then have bs: "\<not> natural_length dt len" "length bs = len"
      using assms(2) by (simp_all add: carries_def value_typed_def)
    then have "parse_plain_value N C dt len (bs @ r) = Some (r, OctetArray bs)" for r
      using plain_octets [of dt len] by (simp add: vector_def take_append)
    with OctetArray bs show ?thesis
      unfolding e [abs_def]
      by (intro appendsI [of bs]) (simp_all add: put_fixed_def bufmut_spec.put_specs [OF assms(1)])
  next
    case (String st)
    then have st: "length st \<le> len" "dt = DtString" "utf8_valid (as_bytes st)" "st = [] \<or> last st \<noteq> CHR 0x00"
      using assms(2) by (simp_all add: carries_def value_typed_def)
    then show ?thesis
      using parse_string [OF st(3,4), of "len - length st"] String unfolding e [abs_def]
      by (intro appendsI [of "as_bytes st @ replicate (len - length st) 0"])
        (simp_all add: put_fixed_def floor_char_boundary_def bufmut_spec.put_specs [OF assms(1)])
  qed (rule natural; use assms(2) in \<open>auto simp: fun_eq_iff e carries_def value_typed_def
      natural_length_def natural_width_def\<close>)+
qed

text \<open>Variable-length fields.\<close>

lemma appends_variable:
  assumes "bufmut_spec B" and "carries dt len v" and "len = natural_width v" and "len < 2 ^ 16"
  shows "\<exists>k>0. appends (encode_field_value B C v IPFIX_VARIABLE_LENGTH) k
    (\<lambda>i. parse_field_length N IPFIX_VARIABLE_LENGTH i \<bind> (\<lambda>(i, len). parse_plain_value N C dt len i)) v"
proof -
  obtain bs where bs: "length bs = len" "\<And>buf. encode_value B C v buf = buf @ bs"
      "\<And>r. parse_plain_value N C dt len (bs @ r) = Some (r, v)"
    using appends_natural [OF assms(1-3)] unfolding appends_def by blast
  let ?prefix = "if len < 255 then to_be_bytes (word_of_nat len :: u8)
    else to_be_bytes (255 :: u8) @ to_be_bytes (word_of_nat len :: u16)"
  have "encode_field_value B C v IPFIX_VARIABLE_LENGTH buf = buf @ ?prefix @ bs" for buf
    by (simp add: encode_field_value_def encode_field_with_def Let_def bs(1,2) bufmut_spec.put_specs [OF assms(1)])
  moreover have "parse_field_length N IPFIX_VARIABLE_LENGTH (?prefix @ bs @ r) = Some (bs @ r, len)" for r
    using assms(4) by (simp add: parse_field_length_def reads_append unat_word_of_nat word_less_nat_alt)
  ultimately have "appends (encode_field_value B C v IPFIX_VARIABLE_LENGTH) (length (?prefix @ bs))
    (\<lambda>i. parse_field_length N IPFIX_VARIABLE_LENGTH i \<bind> (\<lambda>(i, len). parse_plain_value N C dt len i)) v"
    by (intro appendsI [of "?prefix @ bs"]) (simp_all only: append_assoc bind.bind_lunit prod.case bs(3))
  moreover have "0 < length (?prefix @ bs)"
    by (cases "len < 255") (simp_all only: if_True if_False length_append length_to_be_bytes, simp_all)
  ultimately show ?thesis by blast
qed

end

section \<open>Records\<close>

text \<open>What a field of a template carries without loss.\<close>

definition field_carries :: "ipfix_resolved_field \<Rightarrow> ipfix_value \<Rightarrow> bool" where
  "field_carries f v =
     (if fs_length (rf_spec f) = IPFIX_VARIABLE_LENGTH
      then carries (rf_data_type f) (natural_width v) v \<and> natural_width v < 2 ^ 16
      else fs_length (rf_spec f) \<noteq> 0 \<and> carries (rf_data_type f) (unat (fs_length (rf_spec f))) v)"

context ipfix_nom_spec
begin

lemma carries_not_list: "carries dt len v \<Longrightarrow> \<not> is_list_type dt"
  by (cases v) (auto simp: carries_def value_typed_def is_list_type_def natural_length_def)

lemma field_value_plain:
  assumes "carries dt len v"
  shows "parse_field_value N C now self d 0 dt = parse_plain_value N C dt"
proof -
  obtain levels where s: "MAX_LIST_DEPTH - 0 = Suc levels"
    by (simp add: MAX_LIST_DEPTH_def)
  show ?thesis
    using carries_not_list [OF assms] unfolding parse_field_value_def s parse_value_levels.simps(2)
    by (simp add: Let_def is_list_type_def fun_eq_iff)
qed

lemma appends_field:
  assumes "bufmut_spec B" and "field_carries f v"
  shows "\<exists>k>0. appends (encode_field_value B C v (fs_length (rf_spec f))) k
    (\<lambda>i. parse_field_length N (fs_length (rf_spec f)) i \<bind>
      (\<lambda>(i, len). parse_field_value N C now self d 0 (rf_data_type f) len i)) v"
proof (cases "fs_length (rf_spec f) = IPFIX_VARIABLE_LENGTH")
  case True
  with assms(2) have c: "carries (rf_data_type f) (natural_width v) v" "natural_width v < 2 ^ 16"
    by (simp_all add: field_carries_def)
  show ?thesis
    unfolding True field_value_plain [OF c(1)] by (rule appends_variable [OF assms(1) c(1) refl c(2)])
next
  case False
  let ?len = "unat (fs_length (rf_spec f))"
  from False assms(2) have c: "carries (rf_data_type f) ?len v" "fs_length (rf_spec f) \<noteq> 0"
    by (simp_all add: field_carries_def)
  have "parse_field_length N (fs_length (rf_spec f)) i = Some (i, ?len)" for i
    using False by (simp add: parse_field_length_def)
  then show ?thesis
    using appends_fixed [OF assms(1) c(1) refl False c(2)] c(2)
    by (intro exI [of _ ?len]) (auto simp: field_value_plain [OF c(1)] unat_gt_0)
qed

lemma record_roundtrip:
  assumes "bufmut_spec B" and "list_all2 field_carries (dr_fields r) (dr_values r)"
  shows "\<exists>k. (dr_fields r \<noteq> [] \<longrightarrow> 0 < k) \<and> appends (encode_data_record B C r) k
    (parse_record_from_fields N (parse_field_value N C now self d 0) (dr_fields r)) r"
proof -
  let ?p = "\<lambda>field i. parse_field_length N (fs_length (rf_spec field)) i \<bind>
      (\<lambda>(i, len). parse_field_value N C now self d 0 (rf_data_type field) len i)"
  have "\<exists>k. (fs \<noteq> [] \<longrightarrow> 0 < k) \<and> appends (fold (\<lambda>(field, _, value). encode_field_value B C value (fs_length field))
      (map (\<lambda>(f, v). (rf_spec f, rf_name f, v)) (zip fs vs))) k (read_values ?p fs) vs"
    if "list_all2 field_carries fs vs" for fs vs
    using that
  proof (induction rule: list_all2_induct)
    case (Cons f fs v vs)
    obtain b1 where "0 < length b1" and b1: "\<And>buf. encode_field_value B C v (fs_length (rf_spec f)) buf = buf @ b1"
        "\<And>r. ?p f (b1 @ r) = Some (r, v)"
      using appends_field [OF assms(1) Cons(1), of now self d] unfolding appends_def by blast
    from Cons(3) obtain b2 where b2: "\<And>buf. fold (\<lambda>(field, _, value). encode_field_value B C value (fs_length field))
      (map (\<lambda>(f, v). (rf_spec f, rf_name f, v)) (zip fs vs)) buf = buf @ b2"
        "\<And>r. read_values ?p fs (b2 @ r) = Some (r, vs)"
      unfolding appends_def by blast
    with \<open>0 < length b1\<close> show ?case
      by (intro exI conjI appendsI [of "b1 @ b2"]) (simp_all add: b1 b2 del: bind_assoc)
  qed (auto intro!: exI appendsI)
  from this [OF assms(2)] show ?thesis
    unfolding appends_def parse_record_from_fields_def encode_data_record_def record_iter_def
    by (cases r) (auto simp: from_template_def)
qed

end

section \<open>Templates and messages\<close>

text \<open>A sequence of values, written one after the other.\<close>

lemma appends_fold:
  assumes "\<And>x. x \<in> set xs \<Longrightarrow> \<exists>k>0. appends (e x) k p x"
  shows "\<exists>bs. (\<forall>buf. fold e xs buf = buf @ bs) \<and> (\<forall>r. count_loop p (length xs) (bs @ r) = Some (r, xs)) \<and>
    (p [] = None \<longrightarrow> many0_loop p bs = Some ([], xs))"
  using assms
proof (induction xs)
  case Nil
  then show ?case by (intro exI [of _ "[]"]) (simp add: many0_loop.simps)
next
  case (Cons x xs)
  obtain b1 where b1: "0 < length b1" "\<And>buf. e x buf = buf @ b1" "\<And>r. p (b1 @ r) = Some (r, x)"
    using Cons.prems [of x] unfolding appends_def by auto
  obtain b2 where b2: "\<And>buf. fold e xs buf = buf @ b2" "\<And>r. count_loop p (length xs) (b2 @ r) = Some (r, xs)"
      "p [] = None \<longrightarrow> many0_loop p b2 = Some ([], xs)"
    using Cons.IH Cons.prems by auto
  then show ?case
    using b1 by (intro exI [of _ "b1 @ b2"]) (simp add: many0_loop.simps [of p "b1 @ b2"] b1(3))
qed

text \<open>The fields a template can name without loss: 15 bits of identifier, and the enterprise bit set
  exactly for the elements of an enterprise.\<close>

definition specifier_ok :: "field_specifier \<Rightarrow> bool" where
  "specifier_ok f \<longleftrightarrow> unat (fs_id f) < 2 ^ 15 \<and> (fs_enterprise_bit f \<longleftrightarrow> fs_enterprise_number f \<noteq> None)"

definition template_ok :: "ipfix_template_record \<Rightarrow> bool" where
  "template_ok t \<longleftrightarrow> length (tr_fields t) = unat (tr_field_count t) \<and> (\<forall>f\<in>set (tr_fields t). specifier_ok f)"

definition options_template_ok :: "ipfix_options_record \<Rightarrow> bool" where
  "options_template_ok t \<longleftrightarrow> length (or_fields t) = unat (or_field_count t) \<and> or_fields t \<noteq> [] \<and>
     (\<forall>f\<in>set (or_fields t). specifier_ok f)"

lemma word_eq_add: "unat w = numeral k + n \<Longrightarrow> w = numeral k + word_of_nat n"
  by (metis of_nat_add of_nat_numeral of_nat_unat ucast_id)

lemma enterprise_word:
  assumes "unat (w :: u16) < 2 ^ 15"
  shows "w AND 0x8000 = 0" "w AND 0x7fff = w" "(w OR 0x8000) AND 0x8000 \<noteq> 0" "(w OR 0x8000) AND 0x7fff = w"
proof -
  have m: "(0x7fff :: u16) = mask 15" by (simp add: mask_eq_exp_minus_1)
  have "take_bit 15 w = w"
    using assms by (intro word_unat_eq_iff [THEN iffD2]) (simp add: unsigned_take_bit_eq take_bit_nat_eq_self)
  then show id: "w AND 0x7fff = w" unfolding m by (simp add: take_bit_eq_mask)
  then have "w AND 0x8000 = w AND (0x7fff AND 0x8000)"
    by (simp only: and.assoc [symmetric])
  then show z: "w AND 0x8000 = 0" by simp
  show "(w OR 0x8000) AND 0x8000 \<noteq> 0" by (simp add: bit.conj_disj_distrib2 z)
  show "(w OR 0x8000) AND 0x7fff = w" by (simp add: bit.conj_disj_distrib2 id)
qed

context ipfix_nom_spec
begin

lemma appends_specifier:
  assumes "bufmut_spec B" and "specifier_ok f"
  shows "\<exists>k>0. appends (encode_specifier B f) k (parse_field_specifier N) f"
proof -
  let ?w = "if fs_enterprise_bit f then fs_id f OR 0x8000 else fs_id f"
  let ?e = "case fs_enterprise_number f of Some n \<Rightarrow> to_be_bytes n | None \<Rightarrow> []"
  have "appends (encode_specifier B f) (4 + length ?e) (parse_field_specifier N) f"
    using assms(2) enterprise_word [of "fs_id f"]
    by (intro appendsI [of "to_be_bytes ?w @ to_be_bytes (fs_length f) @ ?e"])
      (auto simp: encode_specifier_def bufmut_spec.put_specs [OF assms(1)] specifier_ok_def parse_field_specifier_def
        reads_append split: option.splits)
  then show ?thesis by (intro exI [of _ "4 + length ?e"]) simp
qed

lemma specifiers_roundtrip:
  assumes "bufmut_spec B" and "\<forall>f\<in>set fs. specifier_ok f"
  shows "\<exists>bs. (\<forall>buf. fold (encode_specifier B) fs buf = buf @ bs) \<and>
    (\<forall>r. ip_count_specifiers N (parse_field_specifier N) (length fs) (bs @ r) = Some (r, fs))"
  using appends_fold [of fs "encode_specifier B" "parse_field_specifier N"] appends_specifier [OF assms(1)] assms(2)
  unfolding is_countD [OF count_specifiers_spec nonincr_specifier] by blast

lemma template_roundtrip:
  assumes "bufmut_spec B" and "template_ok t"
  shows "\<exists>k>0. appends (encode_template_record B t) k (parse_template_record N) t"
proof -
  obtain bs where "\<And>buf. fold (encode_specifier B) (tr_fields t) buf = buf @ bs"
      "\<And>r. ip_count_specifiers N (parse_field_specifier N) (length (tr_fields t)) (bs @ r) = Some (r, tr_fields t)"
    using specifiers_roundtrip [OF assms(1), of "tr_fields t"] assms(2) unfolding template_ok_def by blast
  then show ?thesis
    using assms(2)
    by (intro exI [of _ "4 + length bs"] conjI
        appendsI [of "to_be_bytes (tr_template_id t) @ to_be_bytes (tr_field_count t) @ bs"])
      (simp_all add: encode_template_record_def bufmut_spec.put_specs [OF assms(1)] template_ok_def
        parse_template_record_def reads_append Let_def)
qed

lemma options_template_roundtrip:
  assumes "bufmut_spec B" and "options_template_ok t"
  shows "\<exists>k>0. appends (encode_options_template_record B t) k (parse_options_template_record N) t"
proof -
  obtain bs where "\<And>buf. fold (encode_specifier B) (or_fields t) buf = buf @ bs"
      "\<And>r. ip_count_specifiers N (parse_field_specifier N) (length (or_fields t)) (bs @ r) = Some (r, or_fields t)"
    using specifiers_roundtrip [OF assms(1), of "or_fields t"] assms(2) unfolding options_template_ok_def by blast
  moreover have "or_field_count t \<noteq> 0"
    using assms(2) by (auto simp: options_template_ok_def)
  ultimately show ?thesis
    using assms(2)
    by (intro exI [of _ "6 + length bs"] conjI appendsI [of "to_be_bytes (or_template_id t) @
        to_be_bytes (or_field_count t) @ to_be_bytes (or_scope_field_count t) @ bs"])
      (simp_all add: encode_options_template_record_def bufmut_spec.put_specs [OF assms(1)] options_template_ok_def
        parse_options_template_record_def reads_append Let_def)
qed

end

text \<open>
  The sets of a message that carry everything they hold, for a parser in the state \<open>self\<close>: template
  sets whose templates do, and data sets of a template the parser knows. Their effect on that state
  is what they tell the parser.
\<close>

definition set_effect :: "nat \<Rightarrow> u32 \<Rightarrow> ipfix_set \<Rightarrow> ipfix_parser \<Rightarrow> ipfix_parser" where
  "set_effect now d s self =
     (let apply = apply_template now (ip_registry self) (ip_element_types self) d (set_id s) in
      if set_id s = IPFIX_TEMPLATE_SET_ID then
        self\<lparr>ip_templates := fold (\<lambda>r. case r of RTemplate t \<Rightarrow> apply (tr_template_id t, tr_fields t) | _ \<Rightarrow> id)
          (set_records s) (ip_templates self)\<rparr>
      else if set_id s = IPFIX_OPTIONS_TEMPLATE_SET_ID then
        self\<lparr>ip_options_templates := fold (\<lambda>r. case r of ROptionsTemplate t \<Rightarrow> apply (or_template_id t, or_fields t) | _ \<Rightarrow> id)
          (set_records s) (ip_options_templates self)\<rparr>
      else learn_element_types d (set_records s) self)"

definition set_carries :: "nat \<Rightarrow> u32 \<Rightarrow> ipfix_parser \<Rightarrow> ipfix_set \<Rightarrow> bool" where
  "set_carries now d self s \<longleftrightarrow>
     (if set_id s = IPFIX_TEMPLATE_SET_ID then
        (\<exists>ts. set_records s = map RTemplate ts \<and> (\<forall>t\<in>set ts. template_ok t))
      else if set_id s = IPFIX_OPTIONS_TEMPLATE_SET_ID then
        (\<exists>ts. set_records s = map ROptionsTemplate ts \<and> (\<forall>t\<in>set ts. options_template_ok t))
      else ipfix_valid_template_id (set_id s) \<and>
        (\<exists>fs wrap rs. ipfix_template_for self now (d, set_id s) = Some (fs, wrap) \<and> fs \<noteq> [] \<and>
          set_records s = map wrap rs \<and> rs \<noteq> [] \<and>
          (\<forall>r\<in>set rs. dr_fields r = fs \<and> list_all2 field_carries fs (dr_values r))))"

text \<open>The lengths in the headers are the ones the encoder writes, and fit.\<close>

fun sets_carry :: "bufmut \<Rightarrow> chrono \<Rightarrow> nat \<Rightarrow> u32 \<Rightarrow> ipfix_parser \<Rightarrow> ipfix_set list \<Rightarrow> bool" where
  "sets_carry B C now d self [] \<longleftrightarrow> True"
| "sets_carry B C now d self (s # ss) \<longleftrightarrow>
     set_carries now d self s \<and> unat (set_length s) = length (encode_set B C s []) \<and>
     sets_carry B C now d (set_effect now d s self) ss"

definition packet_carries :: "bufmut \<Rightarrow> chrono \<Rightarrow> nat \<Rightarrow> ipfix_parser \<Rightarrow> ipfix_packet \<Rightarrow> bool" where
  "packet_carries B C now self p \<longleftrightarrow>
     (let h = ip_header p in
      ih_version h = IPFIX_VERSION \<and> unat (ih_length h) = length (encode_packet B C p []) \<and>
      dt_nanos (ih_export_time h) = 0 \<and> 0 \<le> dt_secs (ih_export_time h) \<and> dt_secs (ih_export_time h) < 2 ^ 32 \<and>
      sets_carry B C now (ih_domain h) self (ip_sets p))"

lemma u16_bytes: "to_be_bytes (w :: u16) \<noteq> []"
  using length_to_be_bytes [of w] by force

lemma fold_records:
  "fold (encode_record B C) (map RTemplate ts) = fold (encode_template_record B) ts"
  "fold (encode_record B C) (map ROptionsTemplate os) = fold (encode_options_template_record B) os"
  "wrap \<in> {RData, ROptionsData} \<Longrightarrow> fold (encode_record B C) (map wrap rs) = fold (encode_data_record B C) rs"
  by (auto simp: fold_map encode_record_def fun_eq_iff intro!: fold_cong)

lemma fold_templates:
  "fold (\<lambda>r. case r of RTemplate t \<Rightarrow> g t | _ \<Rightarrow> id) (map RTemplate ts) = fold g ts"
  "fold (\<lambda>r. case r of ROptionsTemplate t \<Rightarrow> h t | _ \<Rightarrow> id) (map ROptionsTemplate os) = fold h os"
  by (simp_all add: fold_map comp_def)

context ipfix_nom_spec
begin

lemma nonincr_options_template: "nonincr (parse_options_template_record N)"
  unfolding parse_options_template_record_def [abs_def] is_countD [OF count_specifiers_spec nonincr_specifier]
  by (intro nonincr_intros nonincr_specifier)

lemma empty_fails:
  "parse_template_record N [] = None" "parse_options_template_record N [] = None"
  by (simp_all add: parse_template_record_def parse_options_template_record_def be_specs be_read_def)

lemma record_needs_bytes:
  assumes "fs \<noteq> []" and "\<exists>vs. list_all2 field_carries fs vs"
  shows "parse_record_from_fields N (parse_field_value N C now self d 0) fs [] = None"
proof -
  obtain f fs' v where f: "fs = f # fs'" "field_carries f v"
    using assms by (cases fs) (auto simp: list_all2_Cons1)
  have "parse_field_length N (fs_length (rf_spec f)) [] \<bind>
      (\<lambda>(i, len). parse_field_value N C now self d 0 (rf_data_type f) len i) = None"
  proof (cases "fs_length (rf_spec f) = IPFIX_VARIABLE_LENGTH")
    case True
    then show ?thesis by (simp add: parse_field_length_def be_specs be_read_def)
  next
    case False
    then have "parse_plain_value N C (rf_data_type f) (unat (fs_length (rf_spec f))) [] = None"
        "carries (rf_data_type f) (unat (fs_length (rf_spec f))) v"
      using f(2) fixed_lenD(1) [OF fixed_plain_value]
      by (simp_all add: field_carries_def unat_gt_0)
    then show ?thesis
      using False by (simp add: parse_field_length_def field_value_plain)
  qed
  then show ?thesis by (simp add: f(1) parse_record_from_fields_def)
qed

text \<open>The records of a set, parsed back.\<close>

lemma records_roundtrip:
  assumes "bufmut_spec B" and "set_carries now d self s"
  shows "\<exists>bs. (\<forall>buf. fold (encode_record B C) (set_records s) buf = buf @ bs) \<and>
    parse_records N C now d (set_id s) self bs = (set_effect now d s self, Some ([], set_records s))"
proof -
  consider (t) ts where "set_id s = IPFIX_TEMPLATE_SET_ID" "set_records s = map RTemplate ts" "\<forall>t\<in>set ts. template_ok t"
    | (o) ts where "set_id s = IPFIX_OPTIONS_TEMPLATE_SET_ID" "set_records s = map ROptionsTemplate ts"
        "\<forall>t\<in>set ts. options_template_ok t"
    | (d) fs wrap rs where "set_id s \<noteq> IPFIX_TEMPLATE_SET_ID" "set_id s \<noteq> IPFIX_OPTIONS_TEMPLATE_SET_ID"
        "ipfix_valid_template_id (set_id s)" "ipfix_template_for self now (d, set_id s) = Some (fs, wrap)" "fs \<noteq> []"
        "set_records s = map wrap rs" "rs \<noteq> []" "\<forall>r\<in>set rs. dr_fields r = fs \<and> list_all2 field_carries fs (dr_values r)"
    using assms(2) unfolding set_carries_def by metis
  then show ?thesis
  proof cases
    case t
    obtain bs where "\<And>buf. fold (encode_template_record B) ts buf = buf @ bs"
        "many0_loop (parse_template_record N) bs = Some ([], ts)"
      using appends_fold [of ts "encode_template_record B" "parse_template_record N"] template_roundtrip [OF assms(1)]
        t(3) empty_fails by blast
    with t(1,2) show ?thesis
      by (intro exI [of _ bs]) (simp add: fold_records parse_records_def set_effect_def Let_def
          fold_templates is_many0D [OF many0_templates_spec consuming_nonincr [OF template_record_consuming]])
  next
    case o
    obtain bs where "\<And>buf. fold (encode_options_template_record B) ts buf = buf @ bs"
        "many0_loop (parse_options_template_record N) bs = Some ([], ts)"
      using appends_fold [of ts "encode_options_template_record B" "parse_options_template_record N"]
        options_template_roundtrip [OF assms(1)] o(3) empty_fails by blast
    with o(1,2) show ?thesis
      by (intro exI [of _ bs]) (simp add: fold_records parse_records_def set_effect_def Let_def
          fold_templates ipfix_consts is_many0D [OF many0_options_spec nonincr_options_template])
  next
    case d
    let ?p = "parse_record_from_fields N (parse_field_value N C now self d 0) fs"
    have wrap: "wrap \<in> {RData, ROptionsData}"
      using template_for_wrap [OF d(4)] by simp
    have "\<exists>k>0. appends (encode_data_record B C r) k ?p r" if "r \<in> set rs" for r
      using record_roundtrip [OF assms(1), of r now self d] d(5,8) that by fastforce
    moreover have "?p [] = None"
      using record_needs_bytes [OF d(5), of now self d] d(7,8) by (cases rs) auto
    ultimately obtain bs where bs: "\<And>buf. fold (encode_data_record B C) rs buf = buf @ bs"
        "many0_loop ?p bs = Some ([], rs)"
      using appends_fold [of rs "encode_data_record B C" ?p] by blast
    then have "parse_templated_records N C now self d (set_id s) 0 bs = Some ([], map wrap rs)"
      using d(4,5) by (simp add: parse_templated_records_def parse_templated_with_def many0_data value_parser_ok_field)
    with d bs(1) show ?thesis
      by (intro exI [of _ bs]) (simp add: fold_records(3) [OF wrap] parse_records_def set_effect_def)
  qed
qed

lemma set_roundtrip:
  assumes "bufmut_spec B" and "set_carries now d self s" and "unat (set_length s) = length (encode_set B C s [])"
  shows "\<exists>bs. bs \<noteq> [] \<and> (\<forall>buf. encode_set B C s buf = buf @ bs) \<and>
    (\<forall>r. parse_set N C now d self (bs @ r) = (set_effect now d s self, Some (r, s)))"
proof -
  obtain data where data: "\<And>buf. fold (encode_record B C) (set_records s) buf = buf @ data"
      "parse_records N C now d (set_id s) self data = (set_effect now d s self, Some ([], set_records s))"
    using records_roundtrip [OF assms(1,2)] by blast
  have e: "encode_set B C s buf =
      buf @ to_be_bytes (set_id s) @ to_be_bytes (4 + word_of_nat (length data) :: u16) @ data" for buf
    by (simp add: encode_set_def data(1) bufmut_spec.put_specs [OF assms(1)] SET_HEADER_SIZE_def Let_def)
  then have "unat (set_length s) = 4 + length data"
    using assms(3) by simp
  moreover from this have "set_length s = 4 + word_of_nat (length data)"
    by (rule word_eq_add)
  ultimately show ?thesis
    by (intro exI [of _ "to_be_bytes (set_id s) @ to_be_bytes (set_length s) @ data"])
      (simp add: e parse_set_def set_frame_def reads_append SET_HEADER_SIZE_def data(2) take_append u16_bytes)
qed

lemma sets_roundtrip:
  assumes "bufmut_spec B" and "sets_carry B C now d self ss"
  shows "\<exists>bs. (\<forall>buf. fold (encode_set B C) ss buf = buf @ bs) \<and>
    many0_st_loop (parse_set N C now d) self bs = (fold (set_effect now d) ss self, Some ([], ss))"
  using assms(2)
proof (induction ss arbitrary: self)
  case Nil
  have "parse_set N C now d self [] = (self, None)"
    by (simp add: parse_set_def set_frame_eq)
  then show ?case
    by (intro exI [of _ "[]"]) (simp add: many0_st_loop.simps)
next
  case (Cons s ss)
  obtain b1 where b1: "b1 \<noteq> []" "\<And>buf. encode_set B C s buf = buf @ b1"
      "\<And>r. parse_set N C now d self (b1 @ r) = (set_effect now d s self, Some (r, s))"
    using set_roundtrip [OF assms(1), of now d self s] Cons.prems by auto
  obtain b2 where b2: "\<And>buf. fold (encode_set B C) ss buf = buf @ b2"
      "many0_st_loop (parse_set N C now d) (set_effect now d s self) b2 =
        (fold (set_effect now d) ss (set_effect now d s self), Some ([], ss))"
    using Cons by auto
  show ?case
    using b1 b2 by (intro exI [of _ "b1 @ b2"])
      (simp add: many0_st_loop.simps [of "parse_set N C now d" self "b1 @ b2"])
qed

lemma packet_roundtrip:
  assumes "bufmut_spec B" and "packet_carries B C now self p"
  shows "ipfix_parse N C now self (encode_packet B C p [] @ rest) =
    (fold (set_effect now (ih_domain (ip_header p))) (ip_sets p) self, Some (rest, p))"
proof -
  let ?h = "ip_header p"
  have h: "ih_version ?h = IPFIX_VERSION" "unat (ih_length ?h) = length (encode_packet B C p [])"
    "dt_nanos (ih_export_time ?h) = 0" "0 \<le> dt_secs (ih_export_time ?h)" "dt_secs (ih_export_time ?h) < 2 ^ 32"
    "sets_carry B C now (ih_domain ?h) self (ip_sets p)"
    using assms(2) by (simp_all add: packet_carries_def Let_def)
  obtain data where data: "\<And>buf. fold (encode_set B C) (ip_sets p) buf = buf @ data"
      "many0_st_loop (parse_set N C now (ih_domain ?h)) self data =
        (fold (set_effect now (ih_domain ?h)) (ip_sets p) self, Some ([], ip_sets p))"
    using sets_roundtrip [OF assms(1) h(6)] by blast
  have e: "encode_packet B C p [] = to_be_bytes (ih_version ?h) @ to_be_bytes (16 + word_of_nat (length data) :: u16) @
      to_be_bytes (word_of_int (ch_timestamp C (ih_export_time ?h)) :: u32) @
      to_be_bytes (ih_sequence_number ?h) @ to_be_bytes (ih_domain ?h) @ data"
    by (simp add: encode_packet_def data(1) bufmut_spec.put_specs [OF assms(1)] IPFIX_HEADER_SIZE_def Let_def)
  then have len: "unat (ih_length ?h) = 16 + length data"
    using h(2) by simp
  then have l: "16 + word_of_nat (length data) = ih_length ?h"
    by (rule word_eq_add [symmetric])
  have "parse_header N C (encode_packet B C p [] @ rest) = Some (data @ rest, ?h)"
    unfolding e l
    by (simp add: parse_header_def verify_version_def reads_append h timestamp_spec parse_seconds [OF h(3-5)])
  then show ?thesis
    by (simp add: ipfix_parse_def len IPFIX_HEADER_SIZE_def take_append many0_sets data(2))
qed

end

section \<open>Properties\<close>

definition message_fields :: "ipfix_resolved_field list" where
  "message_fields = [\<lparr>rf_spec = specifier_iana 8 4, rf_data_type = DtOctetArray, rf_name = dec_string 8\<rparr>]"

definition example_message :: ipfix_packet where
  "example_message =
     \<lparr>ip_header = \<lparr>ih_version = IPFIX_VERSION, ih_length = 36, ih_export_time = DateTime 100 0,
        ih_sequence_number = 7, ih_domain = 1\<rparr>,
      ip_sets = [
        \<lparr>set_id = IPFIX_TEMPLATE_SET_ID, set_length = 12,
         set_records = [RTemplate \<lparr>tr_template_id = 256, tr_field_count = 1, tr_fields = [specifier_iana 8 4]\<rparr>]\<rparr>,
        \<lparr>set_id = 256, set_length = 8,
         set_records = [RData (from_template message_fields [OctetArray [10, 0, 0, 1]])]\<rparr>]\<rparr>"

lemma message_fields_resolved:
  "resolve_fields registry_new element_types_default 1 [specifier_iana 8 4] = message_fields"
  by (simp add: resolve_fields_def resolve_field_def element_lookup_def registry_lookup_def et_lookup_def
      registry_new_def element_types_default_def hm_laws unknown_element_name_def specifier_iana_def message_fields_def)

lemmas message_eval = example_message_def encode_packet_def encode_set_def encode_record_def Let_def
  encode_template_record_def encode_specifier_def encode_data_record_def record_iter_def from_template_def
  encode_field_value_def encode_field_with_def message_fields_def specifier_iana_def IPFIX_VARIABLE_LENGTH_def
  put_fixed_def bufmut_ref.put_specs

lemma message_carried:
  "packet_carries bufmut_ref chrono_ref 5 (ipfix_new 5 registry_new 600) example_message"
proof -
  let ?set = "\<lambda>n. ip_sets example_message ! n"
  have effect: "set_effect 5 1 (?set 0) (ipfix_new 5 registry_new 600) = ipfix_with message_fields"
    by (simp add: example_message_def set_effect_def Let_def ipfix_new_def ipfix_with_def apply_template_def
        ipfix_consts message_fields_resolved)
  have known: "ipfix_template_for (ipfix_with message_fields) 5 (1, 256) = Some (message_fields, RData)"
    by (rule ipfix_with_template) (simp add: message_fields_def MAX_TEMPLATE_FIELDS_def)
  have len: "length (encode_set bufmut_ref chrono_ref (?set 0) []) = 12"
      "length (encode_set bufmut_ref chrono_ref (?set 1) []) = 8"
      "length (encode_packet bufmut_ref chrono_ref example_message []) = 36"
    by (simp_all add: message_eval)
  have "set_carries 5 1 (ipfix_new 5 registry_new 600) (?set 0)"
    by (auto simp: set_carries_def example_message_def template_ok_def specifier_ok_def specifier_iana_def
        intro!: exI [of _ "[\<lparr>tr_template_id = 256, tr_field_count = 1, tr_fields = [specifier_iana 8 4]\<rparr>]"])
  moreover have "set_carries 5 1 (ipfix_with message_fields) (?set 1)"
  proof -
    have "list_all2 field_carries message_fields [OctetArray [10, 0, 0, 1]]"
      by (simp add: message_fields_def field_carries_def carries_def value_typed_def natural_length_def
          specifier_iana_def IPFIX_VARIABLE_LENGTH_def)
    then show ?thesis
      by (simp add: set_carries_def example_message_def ipfix_consts known from_template_def)
        (intro conjI exI [of _ message_fields] exI [of _ RData]
          exI [of _ "[DataRecord message_fields [OctetArray [10, 0, 0, 1]]]"]; simp add: message_fields_def)
  qed
  ultimately have "sets_carry bufmut_ref chrono_ref 5 1 (ipfix_new 5 registry_new 600) [?set 0, ?set 1]"
    using len(1,2) effect by (simp add: example_message_def)
  then show ?thesis
    using len(3) by (simp add: packet_carries_def example_message_def)
qed

text \<open>C29. A message that carries everything it holds is decoded from its encoding as it was, whatever
  follows it, and tells the parser of its templates: template sets, options template sets and data
  sets of the templates known by then, those of the same message included, with values of any
  type but lists.\<close>

theorem ipfix_message_roundtrip:
  assumes "ipfix_nom_spec N C" and "bufmut_spec B" and "packet_carries B C now self p"
  shows "ipfix_parse N C now self (encode_packet B C p [] @ rest) =
    (fold (set_effect now (ih_domain (ip_header p))) (ip_sets p) self, Some (rest, p))"
  using assms by (rule ipfix_nom_spec.packet_roundtrip)

theorem ipfix_message_roundtrip_witness:
  "snd (ipfix_parse ipfix_nom_ref chrono_ref 5 (ipfix_new 5 registry_new 600)
     (encode_packet bufmut_ref chrono_ref example_message [] @ [1, 2])) = Some ([1, 2], example_message)"
  using ipfix_message_roundtrip [OF ipfix_ref.ipfix_nom_spec_axioms bufmut_ref.bufmut_spec_axioms message_carried]
  by simp

text \<open>A time of the NTP format is decoded from its encoding with the same second, and with the same
  nanosecond or the one before: it is the same exactly for the multiples of \<open>5 ^ 9\<close> nanoseconds,
  the fractions \<open>2 ^ -32\<close> seconds can express as whole nanoseconds.\<close>

theorem ntp_time_roundtrip:
  assumes "wire_spec N C" and "dt_ok t" and "0 \<le> dt_secs t + 2208988800" and "dt_secs t + 2208988800 < 2 ^ 32"
    and "datetime_to_ntp C t = (s, f)"
  shows "\<exists>n. ntp_to_datetime C s f = Some (DateTime (dt_secs t) n) \<and> n \<le> dt_nanos t \<and> dt_nanos t \<le> n + 1 \<and>
    (n = dt_nanos t \<longleftrightarrow> 5 ^ 9 dvd dt_nanos t)"
  using wire_spec.ntp_roundtrip [OF assms(1-4)] assms(5) ntp_decoded_le [of "dt_nanos t"]
    ntp_decoded_exact [of "dt_nanos t"]
  by simp

theorem ntp_time_roundtrip_witness:
  "\<exists>n. ntp_to_datetime chrono_ref (fst (datetime_to_ntp chrono_ref (DateTime 1000 1)))
      (snd (datetime_to_ntp chrono_ref (DateTime 1000 1))) = Some (DateTime 1000 n) \<and> n \<noteq> 1"
  using ntp_time_roundtrip [OF wire_ref.wire_spec_axioms, of "DateTime 1000 1"
      "fst (datetime_to_ntp chrono_ref (DateTime 1000 1))" "snd (datetime_to_ntp chrono_ref (DateTime 1000 1))"]
  by (simp add: dt_ok_def) (metis Suc_n_not_le_n One_nat_def)

text \<open>An options template withdrawal is not decoded as it is encoded: the encoder writes a scope
  field count, which the parser does not expect of a template without fields, and the two bytes
  are left to be read as the identifier of the next template.\<close>

theorem options_withdrawal_misaligned:
  assumes "ipfix_nom_spec N C" and "bufmut_spec B" and "or_fields t = []" and "or_field_count t = 0"
  shows "parse_options_template_record N (encode_options_template_record B t [] @ rest) =
    Some (to_be_bytes (or_scope_field_count t) @ rest, t\<lparr>or_scope_field_count := 0\<rparr>)"
proof -
  have c: "ip_count_specifiers N (parse_field_specifier N) 0 i = Some (i, [])" for i
    using is_countD [OF ipfix_nom_spec.count_specifiers_spec [OF assms(1)] ipfix_nom_spec.nonincr_specifier [OF assms(1)]]
    by simp
  have "nom_spec N" using assms(1) by (simp add: ipfix_nom_spec_def wire_spec_def)
  then show ?thesis
    using assms(3,4) by (simp add: encode_options_template_record_def parse_options_template_record_def c
        bufmut_spec.put_specs [OF assms(2)] nom_spec.reads_append)
qed

theorem options_withdrawal_misaligned_witness:
  "parse_options_template_record ipfix_nom_ref
     (encode_options_template_record bufmut_ref (options_record_new 300 1 []) [] @ [7]) =
    Some ([0, 1, 7], (options_record_new 300 1 [])\<lparr>or_scope_field_count := 0\<rparr>)"
  using options_withdrawal_misaligned [OF ipfix_ref.ipfix_nom_spec_axioms bufmut_ref.bufmut_spec_axioms,
      of "options_record_new 300 1 []" "[7]"]
  by (simp add: options_record_new_def to_be_bytes_def numeral_2_eq_2)

end
