(* ===== verification/Exporter.thy ===== *)
theory Exporter
  imports Meter IpfixEncoder
begin

text \<open>
  The exporter of \<^verbatim>\<open>rustflow_export\<close>: \<^verbatim>\<open>ipfix/template.rs\<close> and \<^verbatim>\<open>ipfix/data.rs\<close> (the templates it
  announces and the records it makes of flows, packets and options), \<^verbatim>\<open>exporter.rs\<close> (the messages
  it sends) and the round of the main loop in \<^verbatim>\<open>lib.rs\<close>. The socket and the clocks are the
  operations of an environment, a parameter: sending gives the environment after it and whether it
  succeeded, and the capture gives a frame, or none after its timeout. An error is the value \<open>False\<close> or \<open>None\<close>.
\<close>

section \<open>Templates\<close>

definition FLOW_IPV4_TEMPLATE_ID :: u16 where
  "FLOW_IPV4_TEMPLATE_ID = 256"

definition FLOW_IPV6_TEMPLATE_ID :: u16 where
  "FLOW_IPV6_TEMPLATE_ID = 257"

definition OPTIONS_TEMPLATE_ID :: u16 where
  "OPTIONS_TEMPLATE_ID = 258"

definition PACKET_FRAME_TEMPLATE_ID :: u16 where
  "PACKET_FRAME_TEMPLATE_ID = 259"

definition PACKET_IP_TEMPLATE_ID :: u16 where
  "PACKET_IP_TEMPLATE_ID = 260"

definition packet_template_id :: "link \<Rightarrow> u16" where
  "packet_template_id lnk =
     (case lnk of LinkLayerEthernet \<Rightarrow> PACKET_FRAME_TEMPLATE_ID | LinkLayerIp \<Rightarrow> PACKET_IP_TEMPLATE_ID)"

definition packet_fields :: "link \<Rightarrow> field_specifier list" where
  "packet_fields lnk =
     (let section_ie = (case lnk of LinkLayerEthernet \<Rightarrow> DataLinkFrameSection | LinkLayerIp \<Rightarrow> IpHeaderPacketSection)
      in [specifier_from_ie DataLinkFrameSize 2, specifier_from_ie section_ie IPFIX_VARIABLE_LENGTH])"

definition create_packet_template :: "link \<Rightarrow> ipfix_template_record" where
  "create_packet_template lnk = template_record_new (packet_template_id lnk) (packet_fields lnk)"

definition flow_template :: "u16 \<Rightarrow> field_specifier list \<Rightarrow> ipfix_template_record" where
  "flow_template template_id addresses =
     template_record_new template_id (addresses @
       [specifier_from_ie IpVersion 1, specifier_from_ie ProtocolIdentifier 1,
        specifier_from_ie SourceTransportPort 2, specifier_from_ie DestinationTransportPort 2,
        specifier_from_ie OctetDeltaCount 8, specifier_from_ie PacketDeltaCount 8,
        specifier_from_ie TcpControlBits 2, specifier_from_ie FlowStartMilliseconds 8,
        specifier_from_ie FlowEndMilliseconds 8, specifier_from_ie FlowEndReason 1])"

definition create_flow_templates :: "ipfix_template_record list" where
  "create_flow_templates =
     [flow_template FLOW_IPV4_TEMPLATE_ID
        [specifier_from_ie SourceIpv4Address 4, specifier_from_ie DestinationIpv4Address 4],
      flow_template FLOW_IPV6_TEMPLATE_ID
        [specifier_from_ie SourceIpv6Address 16, specifier_from_ie DestinationIpv6Address 16]]"

definition create_templates :: "mode \<Rightarrow> ipfix_template_record list" where
  "create_templates mode =
     (case mode of
        ModeFlow \<Rightarrow> create_flow_templates
      | ModePacket \<Rightarrow> map create_packet_template [LinkLayerEthernet, LinkLayerIp])"

definition create_options_template :: "sampling \<Rightarrow> ipfix_options_record" where
  "create_options_template sampling =
     (case sampling of SamplingCount _ \<Rightarrow>
        options_record_new OPTIONS_TEMPLATE_ID 1
          [specifier_from_ie ObservationDomainId 4, specifier_from_ie SamplingInterval 4,
           specifier_from_ie SelectorAlgorithm 2, specifier_from_ie SamplingPacketInterval 4,
           specifier_from_ie SamplingPacketSpace 4])"

section \<open>Records\<close>

record flow_data =
  fd_source_ip :: ip_addr
  fd_destination_ip :: ip_addr
  fd_protocol :: u8
  fd_source_port :: u16
  fd_destination_port :: u16
  fd_octet_count :: u64
  fd_packet_count :: u64
  fd_tcp_flags :: u16
  fd_flow_start :: datetime
  fd_flow_end :: datetime
  fd_flow_end_reason :: u8

definition to_flow_data :: "flow \<Rightarrow> flow_data" where
  "to_flow_data self =
     \<lparr>fd_source_ip = fk_source_ip (fw_key self), fd_destination_ip = fk_destination_ip (fw_key self),
      fd_protocol = fk_protocol (fw_key self), fd_source_port = fk_source_port (fw_key self),
      fd_destination_port = fk_destination_port (fw_key self), fd_octet_count = fw_octet_count self,
      fd_packet_count = fw_packet_count self, fd_tcp_flags = fw_tcp_flags self,
      fd_flow_start = fw_flow_start self, fd_flow_end = fw_flow_end self,
      fd_flow_end_reason = (case fw_flow_end_reason self of None \<Rightarrow> 0 | Some reason \<Rightarrow> flow_end_reason_id reason)\<rparr>"

definition flow_data_template_id :: "flow_data \<Rightarrow> u16" where
  "flow_data_template_id self =
     (case fd_source_ip self of V4 _ \<Rightarrow> FLOW_IPV4_TEMPLATE_ID | V6 _ \<Rightarrow> FLOW_IPV6_TEMPLATE_ID)"

definition flow_data_ip_version :: "flow_data \<Rightarrow> u8" where
  "flow_data_ip_version self = (case fd_source_ip self of V4 _ \<Rightarrow> 4 | V6 _ \<Rightarrow> 6)"

definition address_value :: "ip_addr \<Rightarrow> ipfix_value" where
  "address_value ip = (case ip of V4 v4 \<Rightarrow> Ipv4Address v4 | V6 v6 \<Rightarrow> Ipv6Address v6)"

definition flow_data_to_record :: "flow_data \<Rightarrow> ipfix_data_record" where
  "flow_data_to_record self =
     data_record_new
       [address_value (fd_source_ip self), address_value (fd_destination_ip self),
        Unsigned8 (flow_data_ip_version self), Unsigned8 (fd_protocol self),
        Unsigned16 (fd_source_port self), Unsigned16 (fd_destination_port self),
        Unsigned64 (fd_octet_count self), Unsigned64 (fd_packet_count self),
        Unsigned16 (fd_tcp_flags self), DateTimeMilliseconds (fd_flow_start self),
        DateTimeMilliseconds (fd_flow_end self), Unsigned8 (fd_flow_end_reason self)]"

definition packet_data_template_id :: "packet_data \<Rightarrow> u16" where
  "packet_data_template_id self = packet_template_id (pd_link self)"

definition packet_data_to_record :: "packet_data \<Rightarrow> ipfix_data_record" where
  "packet_data_to_record self =
     from_template
       (map (\<lambda>spec. \<lparr>rf_spec = spec, rf_data_type = DtOctetArray, rf_name = ''''\<rparr>) (packet_fields (pd_link self)))
       [Unsigned16 (if unat (pd_length self) < 2 ^ 16 then ucast (pd_length self) else 0xffff),
        OctetArray (pd_section self)]"

definition SYSTEMATIC_COUNT_BASED :: u16 where
  "SYSTEMATIC_COUNT_BASED = 1"

record options_data =
  od_observation_domain_id :: u32
  od_sampling :: sampling

definition options_data_new :: "u32 \<Rightarrow> sampling \<Rightarrow> options_data" where
  "options_data_new observation_domain_id sampling =
     \<lparr>od_observation_domain_id = observation_domain_id, od_sampling = sampling\<rparr>"

definition options_data_to_record :: "options_data \<Rightarrow> ipfix_data_record" where
  "options_data_to_record self =
     data_record_new (Unsigned32 (od_observation_domain_id self) #
       (case od_sampling self of SamplingCount interval \<Rightarrow>
          [Unsigned32 interval, Unsigned16 SYSTEMATIC_COUNT_BASED, Unsigned32 1,
           Unsigned32 (if interval = 0 then 0 else interval - 1)]))"

section \<open>The exporter\<close>

definition MAX_MESSAGE_SIZE :: nat where
  "MAX_MESSAGE_SIZE = 1400"

definition MAX_SET_BODY :: nat where
  "MAX_SET_BODY = MAX_MESSAGE_SIZE - IPFIX_HEADER_SIZE - SET_HEADER_SIZE"

text \<open>What the exporter asks of its environment, and the libraries it is linked with.\<close>

record 'w export_env =
  env_send_to :: "bytes \<Rightarrow> 'w \<Rightarrow> 'w \<times> bool"
  env_utc_now :: "'w \<Rightarrow> datetime"
  env_instant_now :: "'w \<Rightarrow> nat"
  env_next_frame :: "'w \<Rightarrow> 'w \<times> capture_frame option"
  env_bufmut :: bufmut
  env_chrono :: chrono

record 'w flow_exporter =
  xp_args :: export_args
  xp_sequence_number :: u32
  xp_last_template_send :: nat
  xp_world :: 'w

definition exporter_new :: "'w export_env \<Rightarrow> export_args \<Rightarrow> 'w \<Rightarrow> 'w flow_exporter" where
  "exporter_new V args world =
     \<lparr>xp_args = args, xp_sequence_number = 0, xp_last_template_send = env_instant_now V world, xp_world = world\<rparr>"

definition should_send_template :: "'w export_env \<Rightarrow> 'w flow_exporter \<Rightarrow> bool" where
  "should_send_template V self \<longleftrightarrow>
     env_instant_now V (xp_world self) - xp_last_template_send self
       \<ge> unat (ar_template_refresh_rate (xp_args self)) * 10 ^ 9"

definition send_sets :: "'w export_env \<Rightarrow> ipfix_set list \<Rightarrow> 'w flow_exporter \<Rightarrow> 'w flow_exporter \<times> nat option" where
  "send_sets V sets self =
     (let packet = \<lparr>ip_header = \<lparr>ih_version = IPFIX_VERSION, ih_length = 0,
              ih_export_time = env_utc_now V (xp_world self), ih_sequence_number = xp_sequence_number self,
              ih_domain = ar_observation_domain_id (xp_args self)\<rparr>, ip_sets = sets\<rparr>;
          encoded = encode_packet (env_bufmut V) (env_chrono V) packet []
      in case env_send_to V encoded (xp_world self) of
           (world, ok) \<Rightarrow> (self\<lparr>xp_world := world\<rparr>, if ok then Some (length encoded) else None))"

definition send_data :: "'w export_env \<Rightarrow> u16 \<Rightarrow> ipfix_record list \<Rightarrow> 'w flow_exporter \<Rightarrow> 'w flow_exporter \<times> bool" where
  "send_data V template_id records self =
     (case send_sets V [\<lparr>set_id = template_id, set_length = 0, set_records = records\<rparr>] self of
        (self, None) \<Rightarrow> (self, False)
      | (self, Some _) \<Rightarrow>
          (self\<lparr>xp_sequence_number := xp_sequence_number self + word_of_nat (length records)\<rparr>, True))"

definition send_templates :: "'w export_env \<Rightarrow> 'w flow_exporter \<Rightarrow> 'w flow_exporter \<times> bool" where
  "send_templates V self =
     (case send_sets V
        [\<lparr>set_id = IPFIX_TEMPLATE_SET_ID, set_length = 0,
          set_records = map RTemplate (create_templates (ar_mode (xp_args self)))\<rparr>,
         \<lparr>set_id = IPFIX_OPTIONS_TEMPLATE_SET_ID, set_length = 0,
          set_records = [ROptionsTemplate (create_options_template (args_sampling (xp_args self)))]\<rparr>] self of
        (self, None) \<Rightarrow> (self, False)
      | (self, Some _) \<Rightarrow> (self\<lparr>xp_last_template_send := env_instant_now V (xp_world self)\<rparr>, True))"

definition send_options_data :: "'w export_env \<Rightarrow> 'w flow_exporter \<Rightarrow> 'w flow_exporter \<times> bool" where
  "send_options_data V self =
     (let options = options_data_new (ar_observation_domain_id (xp_args self)) (args_sampling (xp_args self))
      in send_data V OPTIONS_TEMPLATE_ID [ROptionsData (options_data_to_record options)] self)"

text \<open>The loop of \<^verbatim>\<open>send_records\<close>, with its local variables.\<close>

fun send_records_loop ::
    "'w export_env \<Rightarrow> (u16 \<times> ipfix_data_record) list \<Rightarrow> ipfix_record list \<Rightarrow> u16 \<Rightarrow> nat \<Rightarrow> bool \<Rightarrow>
     'w flow_exporter \<Rightarrow> 'w flow_exporter \<times> bool" where
  "send_records_loop V [] pending template_id filled result self =
     (if pending \<noteq> [] then
        case send_data V template_id pending self of (self, ok) \<Rightarrow> (self, result \<and> ok)
      else (self, result))"
| "send_records_loop V ((n, r) # rs) pending template_id filled result self =
     (let len = length (encode_data_record (env_bufmut V) (env_chrono V) r []) in
      if pending \<noteq> [] \<and> (filled + len > MAX_SET_BODY \<or> n \<noteq> template_id) then
        case send_data V template_id pending self of (self, ok) \<Rightarrow>
          send_records_loop V rs [RData r] n (0 + len) (result \<and> ok) self
      else send_records_loop V rs (pending @ [RData r]) n (filled + len) result self)"

definition send_records :: "'w export_env \<Rightarrow> (u16 \<times> ipfix_data_record) list \<Rightarrow> 'w flow_exporter \<Rightarrow> 'w flow_exporter \<times> bool" where
  "send_records V rs self = send_records_loop V rs [] 0 0 True self"

definition send_flows :: "'w export_env \<Rightarrow> flow list \<Rightarrow> 'w flow_exporter \<Rightarrow> 'w flow_exporter \<times> bool" where
  "send_flows V flows self =
     (if flows = [] then (self, True)
      else
        let is_ipv4 = (\<lambda>data. case fd_source_ip data of V4 _ \<Rightarrow> True | V6 _ \<Rightarrow> False);
            (ipv4, ipv6) = partition is_ipv4 (map to_flow_data flows)
        in send_records V (map (\<lambda>data. (flow_data_template_id data, flow_data_to_record data)) (ipv4 @ ipv6)) self)"

definition send_packets :: "'w export_env \<Rightarrow> packet_data list \<Rightarrow> 'w flow_exporter \<Rightarrow> 'w flow_exporter \<times> bool" where
  "send_packets V packets self =
     send_records V (map (\<lambda>packet. (packet_data_template_id packet, packet_data_to_record packet)) packets) self"

definition exporter_send :: "'w export_env \<Rightarrow> records \<Rightarrow> 'w flow_exporter \<Rightarrow> 'w flow_exporter \<times> bool" where
  "exporter_send V rs self =
     (case rs of RecordsFlows flows \<Rightarrow> send_flows V flows self | RecordsPackets packets \<Rightarrow> send_packets V packets self)"

section \<open>The main loop\<close>

text \<open>The clock is read in the environment: capturing and sending may advance it.\<close>

record 'w loop_state =
  ls_meter :: meter
  ls_exporter :: "'w flow_exporter"
  ls_last_check :: nat

definition CHECK_INTERVAL :: nat where
  "CHECK_INTERVAL = 10 ^ 9"

definition export_start ::
    "'w export_env \<Rightarrow> export_args \<Rightarrow> link \<Rightarrow> u16 \<Rightarrow> socket_addr \<Rightarrow> 'w \<Rightarrow> 'w loop_state option" where
  "export_start V args lnk local_port collector world =
     (let exporter = exporter_new V args world;
          meter = meter_new args lnk local_port collector
      in case send_templates V exporter of
           (exporter, ok) \<Rightarrow> if \<not> ok then None else
             (case send_options_data V exporter of
                (exporter, ok) \<Rightarrow> if \<not> ok then None else
                  Some \<lparr>ls_meter = meter, ls_exporter = exporter,
                    ls_last_check = env_instant_now V (xp_world exporter)\<rparr>))"

text \<open>What a round does once it has observed its frame.\<close>

definition export_due :: "'w export_env \<Rightarrow> nat \<Rightarrow> meter \<Rightarrow> 'w flow_exporter \<Rightarrow> 'w loop_state" where
  "export_due V last_check meter exporter =
     (let now = env_instant_now V (xp_world exporter);
          tick = (now - last_check \<ge> CHECK_INTERVAL);
          (meter, exporter) =
            (if tick \<or> is_full meter then
               case take_due now meter of (meter, rs) \<Rightarrow> (meter, fst (exporter_send V rs exporter))
             else (meter, exporter))
      in if tick then
           let exporter =
                 (if should_send_template V exporter then
                    case send_templates V exporter of
                      (exporter, ok) \<Rightarrow> if ok then fst (send_options_data V exporter) else exporter
                  else exporter)
           in \<lparr>ls_meter = meter, ls_exporter = exporter, ls_last_check = env_instant_now V (xp_world exporter)\<rparr>
         else \<lparr>ls_meter = meter, ls_exporter = exporter, ls_last_check = last_check\<rparr>)"

definition export_round :: "etherparse \<Rightarrow> 'w export_env \<Rightarrow> 'w loop_state \<Rightarrow> 'w loop_state option" where
  "export_round E V st =
     (case env_next_frame V (xp_world (ls_exporter st)) of
        (world, frm) \<Rightarrow>
          let exporter = (ls_exporter st)\<lparr>xp_world := world\<rparr>;
              observed = (case frm of
                  Some f \<Rightarrow> observe E (env_instant_now V world) f (ls_meter st)
                | None \<Rightarrow> Some (ls_meter st))
          in map_option (\<lambda>meter. export_due V (ls_last_check st) meter exporter) observed)"

text \<open>The loop runs until a signal stops it, here after \<open>n\<close> rounds; then what is left is exported.\<close>

fun export_loop :: "nat \<Rightarrow> etherparse \<Rightarrow> 'w export_env \<Rightarrow> 'w loop_state \<Rightarrow> 'w loop_state option" where
  "export_loop 0 E V st = Some st"
| "export_loop (Suc n) E V st = export_round E V st \<bind> export_loop n E V"

definition export_run ::
    "nat \<Rightarrow> etherparse \<Rightarrow> 'w export_env \<Rightarrow> export_args \<Rightarrow> link \<Rightarrow> u16 \<Rightarrow> socket_addr \<Rightarrow> 'w \<Rightarrow> 'w flow_exporter option" where
  "export_run n E V args lnk local_port collector world =
     map_option (\<lambda>st. fst (exporter_send V (snd (take_all (ls_meter st))) (ls_exporter st)))
       (export_start V args lnk local_port collector world \<bind> export_loop n E V)"

section \<open>The messages of a sequence of records\<close>

text \<open>The batches the loop makes, and what sending them does: every one is tried.\<close>

fun batches :: "('r \<Rightarrow> nat) \<Rightarrow> (u16 \<times> 'r) list \<Rightarrow> 'r list \<Rightarrow> u16 \<Rightarrow> (u16 \<times> 'r list) list" where
  "batches len [] pending template_id = (if pending = [] then [] else [(template_id, pending)])"
| "batches len ((n, r) # rs) pending template_id =
     (if pending \<noteq> [] \<and> (sum_list (map len pending) + len r > MAX_SET_BODY \<or> n \<noteq> template_id)
      then (template_id, pending) # batches len rs [r] n
      else batches len rs (pending @ [r]) n)"

fun send_batches :: "'w export_env \<Rightarrow> (u16 \<times> ipfix_data_record list) list \<Rightarrow> bool \<Rightarrow> 'w flow_exporter \<Rightarrow> 'w flow_exporter \<times> bool" where
  "send_batches V [] result self = (self, result)"
| "send_batches V ((template_id, rs) # bs) result self =
     (case send_data V template_id (map RData rs) self of (self, ok) \<Rightarrow> send_batches V bs (result \<and> ok) self)"

definition encoded_len :: "'w export_env \<Rightarrow> ipfix_data_record \<Rightarrow> nat" where
  "encoded_len V r = length (encode_data_record (env_bufmut V) (env_chrono V) r [])"

lemma send_records_loop_batches:
  "send_records_loop V rs (map RData pending) template_id (sum_list (map (encoded_len V) pending)) result self =
    send_batches V (batches (encoded_len V) rs pending template_id) result self"
proof (induction rs arbitrary: pending template_id result self)
  case Nil
  show ?case by (simp add: case_prod_beta)
next
  case (Cons e rs)
  obtain n r where e: "e = (n, r)" by force
  show ?case
    using Cons.IH [of "[r]" n] Cons.IH [of "pending @ [r]" n]
    by (simp add: e Let_def case_prod_beta encoded_len_def)
qed

lemma batches_all:
  "concat (map (\<lambda>(template_id, rs). map (Pair template_id) rs) (batches len rs pending t)) =
    (if pending = [] then rs else map (Pair t) pending @ rs)"
  by (induction len rs pending t rule: batches.induct) auto

definition batch_ok :: "('r \<Rightarrow> nat) \<Rightarrow> u16 \<times> 'r list \<Rightarrow> bool" where
  "batch_ok len b \<longleftrightarrow> snd b \<noteq> [] \<and> (sum_list (map len (snd b)) \<le> MAX_SET_BODY \<or> length (snd b) = 1)"

lemma batches_ok:
  "pending = [] \<or> batch_ok len (t, pending) \<Longrightarrow> list_all (batch_ok len) (batches len rs pending t)"
  by (induction len rs pending t rule: batches.induct) (auto simp: batch_ok_def)

text \<open>No batch could have taken the record after it.\<close>

fun batches_full :: "('r \<Rightarrow> nat) \<Rightarrow> (u16 \<times> 'r list) list \<Rightarrow> bool" where
  "batches_full len (b # c # bs) \<longleftrightarrow>
     (fst b \<noteq> fst c \<or> sum_list (map len (snd b)) + len (hd (snd c)) > MAX_SET_BODY) \<and> batches_full len (c # bs)"
| "batches_full len _ \<longleftrightarrow> True"

lemma batches_first:
  "pending \<noteq> [] \<Longrightarrow> \<exists>more bs. batches len rs pending t = (t, pending @ more) # bs"
proof (induction rs arbitrary: pending)
  case (Cons e rs)
  show ?case
    using Cons.IH [of "pending @ [snd e]"] Cons.prems by (cases e) auto
qed simp

lemma batches_fill: "batches_full len (batches len rs pending t)"
proof (induction len rs pending t rule: batches.induct)
  case (2 len n r rs pending t)
  then show ?case
    using batches_first [of "[r]" len rs n] by (cases "batches len rs [r] n") auto
qed simp

section \<open>The size of messages\<close>

definition appending :: "bufmut \<Rightarrow> chrono \<Rightarrow> ipfix_data_record \<Rightarrow> bool" where
  "appending B C r \<longleftrightarrow> (\<exists>bs. \<forall>buf. encode_data_record B C r buf = buf @ bs)"

lemma fold_appending:
  assumes "\<forall>r\<in>set rs. appending B C r"
  shows "fold (encode_record B C) (map RData rs) buf = buf @ concat (map (\<lambda>r. encode_data_record B C r []) rs)"
  using assms
proof (induction rs arbitrary: buf)
  case (Cons r rs)
  then obtain bs where "\<And>buf. encode_data_record B C r buf = buf @ bs"
    unfolding appending_def by auto
  then show ?case using Cons by (simp add: encode_record_def)
qed simp

definition data_packet :: "'w export_env \<Rightarrow> 'w flow_exporter \<Rightarrow> ipfix_set list \<Rightarrow> ipfix_packet" where
  "data_packet V self sets =
     \<lparr>ip_header = \<lparr>ih_version = IPFIX_VERSION, ih_length = 0, ih_export_time = env_utc_now V (xp_world self),
        ih_sequence_number = xp_sequence_number self, ih_domain = ar_observation_domain_id (xp_args self)\<rparr>,
      ip_sets = sets\<rparr>"

lemma send_data_eq:
  "send_data V t rs self =
    (case env_send_to V (encode_packet (env_bufmut V) (env_chrono V)
        (data_packet V self [\<lparr>set_id = t, set_length = 0, set_records = rs\<rparr>]) []) (xp_world self) of
       (world, ok) \<Rightarrow>
         (if ok then self\<lparr>xp_world := world, xp_sequence_number := xp_sequence_number self + word_of_nat (length rs)\<rparr>
          else self\<lparr>xp_world := world\<rparr>, ok))"
  by (simp add: send_data_def send_sets_def data_packet_def Let_def split: prod.split)

lemma length_message:
  assumes "bufmut_spec B" and "\<forall>r\<in>set rs. appending B C r"
  shows "length (encode_packet B C (data_packet V self [\<lparr>set_id = t, set_length = l, set_records = map RData rs\<rparr>]) []) =
    IPFIX_HEADER_SIZE + SET_HEADER_SIZE + sum_list (map (\<lambda>r. length (encode_data_record B C r [])) rs)"
  by (simp add: encode_packet_def encode_set_def data_packet_def fold_appending [OF assms(2)] Let_def
      bufmut_spec.put_specs [OF assms(1)] IPFIX_HEADER_SIZE_def SET_HEADER_SIZE_def length_concat comp_def)

lemmas encode_record_eval = encode_data_record_def record_iter_def from_template_def data_record_new_def
  encode_field_value_def encode_field_with_def specifier_iana_def specifier_from_ie_def IPFIX_VARIABLE_LENGTH_def

definition address_len :: "ip_addr \<Rightarrow> nat" where
  "address_len ip = (case ip of V4 _ \<Rightarrow> 4 | V6 _ \<Rightarrow> 16)"

lemma encode_address:
  assumes "bufmut_spec B"
  obtains bs where "\<And>buf. encode_value B C (address_value ip) buf = buf @ bs" and "length bs = address_len ip"
  by (cases ip) (simp_all add: address_value_def address_len_def bufmut_spec.put_specs [OF assms])

lemma flow_record_len:
  assumes "bufmut_spec B"
  shows "appending B C (flow_data_to_record d) \<and>
    length (encode_data_record B C (flow_data_to_record d) []) =
      address_len (fd_source_ip d) + address_len (fd_destination_ip d) + 41"
proof -
  obtain b1 b2 where b: "\<And>buf. encode_value B C (address_value (fd_source_ip d)) buf = buf @ b1"
      "length b1 = address_len (fd_source_ip d)"
      "\<And>buf. encode_value B C (address_value (fd_destination_ip d)) buf = buf @ b2"
      "length b2 = address_len (fd_destination_ip d)"
    using encode_address [OF assms] by metis
  show ?thesis
    unfolding appending_def
    by (simp add: flow_data_to_record_def encode_record_eval b bufmut_spec.put_specs [OF assms])
qed

lemma packet_record_len:
  assumes "bufmut_spec B"
  shows "appending B C (packet_data_to_record p) \<and>
    length (encode_data_record B C (packet_data_to_record p) []) =
      2 + (if length (pd_section p) < 255 then 1 else 3) + length (pd_section p)"
  by (cases "pd_link p")
    (simp_all add: appending_def packet_data_to_record_def packet_fields_def encode_record_eval Let_def
      bufmut_spec.put_specs [OF assms] put_uint_bytes [OF assms])

section \<open>Properties\<close>

text \<open>C27. Records are sent in order and each once, in messages of one set of one template each, filled as
  far as they go: a message ends only before a record of another template or one that would take
  the set beyond \<open>MAX_SET_BODY\<close>, which only a record longer than that does by itself. Every message
  is tried, whatever became of those before; the result is an error if one failed.\<close>

theorem send_records_in_batches:
  "let bs = batches (encoded_len V) rs [] 0 in
    send_records V rs self = send_batches V bs True self \<and>
    concat (map (\<lambda>(template_id, rs). map (Pair template_id) rs) bs) = rs \<and>
    list_all (batch_ok (encoded_len V)) bs \<and> batches_full (encoded_len V) bs"
  using send_records_loop_batches [of V rs "[]" 0 True self] batches_all [of "encoded_len V" rs "[]" 0]
    batches_ok [of "[]" "encoded_len V" 0 rs] batches_fill [of "encoded_len V" rs "[]" 0]
  by (simp add: send_records_def Let_def)

lemma send_batches_messages:
  assumes "bufmut_spec (env_bufmut V)" and "\<And>bs w. fst (env_send_to V bs w) = w @ [bs]"
    and "list_all (\<lambda>b. \<forall>r\<in>set (snd b). appending (env_bufmut V) (env_chrono V) r) bs"
    and "list_all (\<lambda>b. sum_list (map (encoded_len V) (snd b)) \<le> MAX_SET_BODY) bs"
  shows "\<exists>msgs. xp_world (fst (send_batches V bs result self)) = xp_world self @ msgs \<and> length msgs = length bs \<and>
    (\<forall>m\<in>set msgs. length m \<le> MAX_MESSAGE_SIZE)"
  using assms(3,4)
proof (induction bs arbitrary: result self)
  case (Cons b bs)
  obtain t rs where b: "b = (t, rs)" by force
  let ?m = "encode_packet (env_bufmut V) (env_chrono V)
    (data_packet V self [\<lparr>set_id = t, set_length = 0, set_records = map RData rs\<rparr>]) []"
  obtain self' ok where d: "send_data V t (map RData rs) self = (self', ok)" by force
  then have "xp_world self' = xp_world self @ [?m]"
    using assms(2) [of ?m "xp_world self"] by (auto simp: send_data_eq split: prod.splits)
  moreover have "length ?m \<le> MAX_MESSAGE_SIZE"
    using Cons.prems b length_message [OF assms(1), of rs "env_chrono V" V self t 0]
    by (simp add: encoded_len_def [abs_def] MAX_SET_BODY_def MAX_MESSAGE_SIZE_def IPFIX_HEADER_SIZE_def SET_HEADER_SIZE_def)
  moreover obtain msgs where "xp_world (fst (send_batches V bs (result \<and> ok) self')) = xp_world self' @ msgs"
      "length msgs = length bs" "\<forall>m\<in>set msgs. length m \<le> MAX_MESSAGE_SIZE"
    using Cons.IH [of "result \<and> ok" self'] Cons.prems by auto
  ultimately show ?case
    by (intro exI [of _ "?m # msgs"]) (simp add: b d)
qed simp

lemma send_batches_sequence:
  "snd (send_batches V bs result self) \<Longrightarrow>
    xp_sequence_number (fst (send_batches V bs result self)) =
      xp_sequence_number self + word_of_nat (sum_list (map (\<lambda>b. length (snd b)) bs)) \<and> result"
proof (induction bs arbitrary: result self)
  case (Cons b bs)
  obtain t rs where b: "b = (t, rs)" by force
  obtain self' ok where d: "send_data V t (map RData rs) self = (self', ok)" by force
  then have "ok \<Longrightarrow> xp_sequence_number self' = xp_sequence_number self + word_of_nat (length rs)"
    by (auto simp: send_data_eq split: prod.splits)
  then show ?case
    using Cons.IH [of "result \<and> ok" self'] Cons.prems by (auto simp: b d)
qed simp

lemma in_batches:
  "b \<in> set (batches len rs pending t) \<Longrightarrow> r \<in> set (snd b) \<Longrightarrow> r \<in> set pending \<union> snd ` set rs"
  by (induction len rs pending t rule: batches.induct) (fastforce split: if_splits)+

lemma send_records_messages:
  assumes "bufmut_spec (env_bufmut V)" and "\<And>bs w. fst (env_send_to V bs w) = w @ [bs]"
    and "\<forall>r\<in>snd ` set rs. appending (env_bufmut V) (env_chrono V) r \<and> encoded_len V r \<le> MAX_SET_BODY"
  shows "(\<exists>msgs. xp_world (fst (send_records V rs self)) = xp_world self @ msgs \<and>
      (\<forall>m\<in>set msgs. length m \<le> MAX_MESSAGE_SIZE)) \<and>
    (snd (send_records V rs self) \<longrightarrow>
      xp_sequence_number (fst (send_records V rs self)) = xp_sequence_number self + word_of_nat (length rs))"
proof -
  let ?bs = "batches (encoded_len V) rs [] 0"
  have eq: "send_records V rs self = send_batches V ?bs True self"
    using send_records_loop_batches [of V rs "[]" 0 True self] by (simp add: send_records_def)
  have rs: "concat (map (\<lambda>(template_id, rs). map (Pair template_id) rs) ?bs) = rs"
    using batches_all [of "encoded_len V" rs "[]" 0] by simp
  have each: "\<forall>b\<in>set ?bs. \<forall>r\<in>set (snd b). r \<in> snd ` set rs"
    using in_batches [of _ "encoded_len V" rs "[]" 0] by auto
  have "sum_list (map (encoded_len V) (snd b)) \<le> MAX_SET_BODY" if "b \<in> set ?bs" for b
  proof -
    have "batch_ok (encoded_len V) b"
      using batches_ok [of "[]" "encoded_len V" 0 rs] that by (simp add: list_all_iff)
    moreover have "\<forall>r\<in>set (snd b). encoded_len V r \<le> MAX_SET_BODY"
      using each that assms(3) by blast
    ultimately show ?thesis
      by (auto simp: batch_ok_def length_Suc_conv)
  qed
  then have "\<exists>msgs. xp_world (fst (send_batches V ?bs True self)) = xp_world self @ msgs \<and> length msgs = length ?bs \<and>
      (\<forall>m\<in>set msgs. length m \<le> MAX_MESSAGE_SIZE)"
    using each assms(3) by (intro send_batches_messages [OF assms(1,2)]) (unfold list_all_iff, blast+)
  moreover have "sum_list (map (\<lambda>b. length (snd b)) ?bs) = length rs"
    by (subst (2) rs [symmetric]) (simp add: length_concat comp_def case_prod_beta)
  ultimately show ?thesis
    using send_batches_sequence [of V ?bs True self] unfolding eq by auto
qed


definition example_env :: "bytes list export_env" where
  "example_env = \<lparr>env_send_to = (\<lambda>bs w. (w @ [bs], True)), env_utc_now = (\<lambda>_. DateTime 100 7),
     env_instant_now = (\<lambda>_. 2 * 10 ^ 9), env_next_frame = (\<lambda>w. (w, None)), env_bufmut = bufmut_ref, env_chrono = chrono_ref\<rparr>"

definition example_packet :: packet_data where
  "example_packet = \<lparr>pd_link = LinkLayerEthernet, pd_length = 1500, pd_section = replicate 1024 0xab\<rparr>"


section \<open>The rounds of the loop\<close>

text \<open>A meter with nothing to wait for at \<open>now\<close>.\<close>

definition nothing_due :: "nat \<Rightarrow> meter \<Rightarrow> bool" where
  "nothing_due now m \<longleftrightarrow> (case mt_output m of
       OutputFlows c \<Rightarrow> fc_evicted c = [] \<and>
         (\<forall>flow\<in>set (hm_values (fc_flows c)). expiry (fc_active_timeout c) (fc_inactive_timeout c) now flow = None)
     | OutputPackets _ pending \<Rightarrow> pending = [])"

definition meter_ok :: "meter \<Rightarrow> bool" where
  "meter_ok m \<longleftrightarrow> (case mt_output m of OutputFlows c \<Rightarrow> flow_cache_ok c | OutputPackets _ _ \<Rightarrow> True)"

lemma take_due_done: "nothing_due now (fst (take_due now m))"
  by (simp add: take_due_def nothing_due_def check_expired_flows_def values_retain Let_def case_prod_beta
      split: meter_output.splits)

lemma take_due_ok:
  assumes "meter_ok m"
  shows "meter_ok (fst (take_due now m))"
  using assms check_expired_ok(1)
  by (simp add: take_due_def meter_ok_def case_prod_beta split: meter_output.splits)

text \<open>A meter in which no evicted flow waits, and less than a batch of packets.\<close>

definition none_overdue :: "meter \<Rightarrow> bool" where
  "none_overdue m \<longleftrightarrow> (case mt_output m of
       OutputFlows c \<Rightarrow> fc_evicted c = []
     | OutputPackets _ pending \<Rightarrow> length pending < PACKET_BATCH)"

lemma not_full_none_overdue: "\<not> is_full m \<Longrightarrow> none_overdue m"
  by (simp add: none_overdue_def is_full_def has_evicted_def split: meter_output.splits)

lemma nothing_due_none_overdue: "nothing_due now m \<Longrightarrow> none_overdue m"
  by (simp add: nothing_due_def none_overdue_def PACKET_BATCH_def split: meter_output.splits)

lemma observe_ok:
  assumes "meter_ok m"
  obtains m' where "observe E now frm m = Some m'" and "meter_ok m'"
proof -
  let ?m = "m\<lparr>mt_sampler := fst (sampler_select (mt_sampler m))\<rparr>"
  let ?packet = "parse_frame E (mt_link m) (fm_data frm)"
  note result = that
  have unchanged: ?thesis if "observe E now frm m = Some ?m"
    by (rule result [OF that]) (use assms in \<open>simp add: meter_ok_def\<close>)
  show ?thesis
  proof (cases "snd (sampler_select (mt_sampler m)) \<and> \<not> (case ?packet of Some p \<Rightarrow> is_export ?m p | None \<Rightarrow> False)")
    case False
    then show ?thesis by (intro unchanged) (auto simp: observe_def case_prod_beta Let_def)
  next
    case selected: True
    show ?thesis
    proof (cases "mt_output m")
      case (OutputPackets clip pending)
      then show ?thesis
        using selected by (intro result) (auto simp: observe_def meter_ok_def case_prod_beta Let_def)
    next
      case (OutputFlows c)
      show ?thesis
      proof (cases ?packet)
        case None
        then show ?thesis using OutputFlows by (intro unchanged) (simp add: observe_def case_prod_beta Let_def)
      next
        case (Some p)
        from assms OutputFlows have "flow_cache_ok c" by (simp add: meter_ok_def)
        then obtain c' where "update_flow (pi_flow_key p) (pi_packet_size p) (pi_tcp_flags p)
            \<lparr>sn_time = fm_time frm, sn_instant = now\<rparr> c = Some c'" "flow_cache_ok c'"
          by (rule update_flow_ok)
        then show ?thesis
          using selected OutputFlows Some
          by (intro result [of "?m\<lparr>mt_output := OutputFlows c'\<rparr>"])
            (simp_all add: observe_def meter_ok_def case_prod_beta Let_def)
      qed
    qed
  qed
qed

lemma export_due_meter:
  "ls_meter (export_due V last_check m x) =
    (if env_instant_now V (xp_world x) - last_check \<ge> CHECK_INTERVAL \<or> is_full m
     then fst (take_due (env_instant_now V (xp_world x)) m) else m)"
  by (simp add: export_due_def Let_def case_prod_beta)

text \<open>What a round leaves of the exporter that has sent what was due: the templates may have been sent again after it.\<close>

definition templates_after :: "'w export_env \<Rightarrow> 'w flow_exporter \<Rightarrow> 'w flow_exporter \<Rightarrow> bool" where
  "templates_after V x x' \<longleftrightarrow> x' = x \<or> x' = fst (send_templates V x) \<or> x' = fst (send_options_data V (fst (send_templates V x)))"

lemma export_due_sent:
  "(ls_meter (export_due V last_check m x) = m \<and> templates_after V x (ls_exporter (export_due V last_check m x))) \<or>
   (ls_meter (export_due V last_check m x) = fst (take_due (env_instant_now V (xp_world x)) m) \<and>
    templates_after V (fst (exporter_send V (snd (take_due (env_instant_now V (xp_world x)) m)) x)) (ls_exporter (export_due V last_check m x)))"
  by (auto simp: export_due_def templates_after_def Let_def case_prod_beta)

text \<open>C19. The exporter runs on, whatever frames come: no round panics, whatever the cache holds, and after every
  round less than a batch of packets and none of the evicted flows wait. After a round a check interval
  since the last check, nothing waits: no packet, and no flow whose active or inactive
  timeout is over. What a round takes from the meter, once the frame is metered, it sends; otherwise the meter keeps everything.\<close>

theorem export_round_exports:
  assumes "meter_ok (ls_meter st)"
  shows "\<exists>st'. export_round E V st = Some st' \<and> meter_ok (ls_meter st') \<and> none_overdue (ls_meter st') \<and>
    (case env_next_frame V (xp_world (ls_exporter st)) of (world, frm) \<Rightarrow>
      let now = env_instant_now V world; x = (ls_exporter st)\<lparr>xp_world := world\<rparr> in
      (now - ls_last_check st \<ge> CHECK_INTERVAL \<longrightarrow> nothing_due now (ls_meter st')) \<and>
      (\<exists>m. (case frm of Some f \<Rightarrow> observe E now f (ls_meter st) = Some m | None \<Rightarrow> m = ls_meter st) \<and>
        (ls_meter st' = m \<and> templates_after V x (ls_exporter st') \<or>
         ls_meter st' = fst (take_due now m) \<and> templates_after V (fst (exporter_send V (snd (take_due now m)) x)) (ls_exporter st'))))"
proof -
  obtain world frm where f: "env_next_frame V (xp_world (ls_exporter st)) = (world, frm)" by force
  let ?now = "env_instant_now V world"
  obtain m where m: "case frm of Some f \<Rightarrow> observe E ?now f (ls_meter st) = Some m | None \<Rightarrow> m = ls_meter st" "meter_ok m"
    using assms observe_ok [OF assms, of E ?now] by (cases frm) auto
  let ?st = "export_due V (ls_last_check st) m ((ls_exporter st)\<lparr>xp_world := world\<rparr>)"
  have "export_round E V st = Some ?st"
    using f m(1) by (simp add: export_round_def split: option.splits)
  moreover have "meter_ok (ls_meter ?st)" "none_overdue (ls_meter ?st)"
    "?now - ls_last_check st \<ge> CHECK_INTERVAL \<Longrightarrow> nothing_due ?now (ls_meter ?st)"
    using m(2) take_due_done [of ?now m] take_due_ok nothing_due_none_overdue not_full_none_overdue
    by (auto simp: export_due_meter)
  ultimately show ?thesis
    using m(1) export_due_sent [of V "ls_last_check st" m "(ls_exporter st)\<lparr>xp_world := world\<rparr>"]
    by (intro exI [of _ ?st]) (simp add: f Let_def, blast)
qed

definition example_state :: "bytes list loop_state" where
  "example_state = \<lparr>ls_meter = example_meter ModePacket, ls_exporter = exporter_new example_env (example_args ModePacket) [],
     ls_last_check = 0\<rparr>"

theorem export_round_exports_witness:
  "\<exists>st. export_round etherparse_ref example_env example_state = Some st \<and> nothing_due (2 * 10 ^ 9) (ls_meter st)"
proof -
  have "meter_ok (ls_meter example_state)"
    by (simp add: example_state_def example_meter_def meter_new_def example_args_def meter_ok_def)
  moreover have "env_instant_now example_env w = 2 * 10 ^ 9" "ls_last_check example_state = 0" for w
    by (simp_all add: example_env_def example_state_def)
  ultimately show ?thesis
    using export_round_exports [of example_state etherparse_ref example_env] by (auto simp: CHECK_INTERVAL_def Let_def)
qed

end
