(* ===== verification/CommonFlow.thy ===== *)
theory CommonFlow
  imports CryptoPan HashMap InformationElement IpfixTypes
begin

text \<open>
  \<^verbatim>\<open>common/common_flow.rs\<close>: the flow all protocols are converted to. A time in nanoseconds since the
  epoch is an integer in the range of \<^verbatim>\<open>i64\<close>. Also \<^verbatim>\<open>common/convert/mod.rs\<close>, the conversion of the
  exporter's uptimes, and what all converters share: the last value an element has in a record.
\<close>

datatype common_flow_type = NetflowV5Flow | NetflowV9Flow | IpfixFlow | SflowV5Flow

definition flow_type_name :: "common_flow_type \<Rightarrow> string" where
  "flow_type_name self =
     (case self of NetflowV5Flow \<Rightarrow> ''netflow_v5'' | NetflowV9Flow \<Rightarrow> ''netflow_v9''
      | IpfixFlow \<Rightarrow> ''ipfix'' | SflowV5Flow \<Rightarrow> ''sflow_v5'')"

record common_flow =
  cf_flow_type :: "common_flow_type"
  cf_time_received_ns :: "int option"
  cf_sequence_num :: "u32"
  cf_sampling_rate :: "u32 option"
  cf_sampler_address :: "ip_addr option"
  cf_time_flow_start_ns :: "int option"
  cf_time_flow_end_ns :: "int option"
  cf_bytes :: "u64"
  cf_packets :: "u64"
  cf_src_addr :: "ip_addr option"
  cf_dst_addr :: "ip_addr option"
  cf_src_mac :: "mac_addr6 option"
  cf_dst_mac :: "mac_addr6 option"
  cf_etype :: "u16 option"
  cf_proto :: "u8 option"
  cf_src_port :: "u16 option"
  cf_dst_port :: "u16 option"
  cf_in_if :: "u32 option"
  cf_out_if :: "u32 option"
  cf_ip_tos :: "u8 option"
  cf_ip_ttl :: "u8 option"
  cf_tcp_flags :: "u16 option"
  cf_icmp_type :: "u8 option"
  cf_icmp_code :: "u8 option"
  cf_ipv6_flow_label :: "u32 option"
  cf_fragment_id :: "u32 option"
  cf_fragment_offset :: "u16 option"
  cf_src_as :: "u32 option"
  cf_dst_as :: "u32 option"
  cf_next_hop :: "ip_addr option"
  cf_src_net :: "u8 option"
  cf_dst_net :: "u8 option"
  cf_bgp_next_hop :: "ip_addr option"
  cf_src_vlan :: "u16 option"
  cf_dst_vlan :: "u16 option"
  cf_observation_domain_id :: "u32 option"
  cf_template_id :: "u16 option"
  cf_forwarding_status :: "u32 option"

definition common_flow_default :: common_flow where
  "common_flow_default =
    \<lparr>cf_flow_type = NetflowV5Flow, cf_time_received_ns = None, cf_sequence_num = 0, cf_sampling_rate = None,
     cf_sampler_address = None, cf_time_flow_start_ns = None, cf_time_flow_end_ns = None, cf_bytes = 0,
     cf_packets = 0, cf_src_addr = None, cf_dst_addr = None, cf_src_mac = None,
     cf_dst_mac = None, cf_etype = None, cf_proto = None, cf_src_port = None,
     cf_dst_port = None, cf_in_if = None, cf_out_if = None, cf_ip_tos = None,
     cf_ip_ttl = None, cf_tcp_flags = None, cf_icmp_type = None, cf_icmp_code = None,
     cf_ipv6_flow_label = None, cf_fragment_id = None, cf_fragment_offset = None, cf_src_as = None,
     cf_dst_as = None, cf_next_hop = None, cf_src_net = None, cf_dst_net = None,
     cf_bgp_next_hop = None, cf_src_vlan = None, cf_dst_vlan = None, cf_observation_domain_id = None,
     cf_template_id = None, cf_forwarding_status = None\<rparr>"

definition common_flow_new :: "common_flow_type \<Rightarrow> common_flow" where
  "common_flow_new flow_type = common_flow_default\<lparr>cf_flow_type := flow_type\<rparr>"

definition with_time_received :: "chrono \<Rightarrow> datetime \<Rightarrow> common_flow \<Rightarrow> common_flow" where
  "with_time_received C time self = self\<lparr>cf_time_received_ns := ch_timestamp_nanos_opt C time\<rparr>"

text \<open>\<^verbatim>\<open>unwrap_or\<close> and \<^verbatim>\<open>or\<close> of an \<^verbatim>\<open>Option\<close>.\<close>

definition unwrap_or :: "'a \<Rightarrow> 'a option \<Rightarrow> 'a" where
  "unwrap_or d v = (case v of Some x \<Rightarrow> x | None \<Rightarrow> d)"

definition or_else :: "'a option \<Rightarrow> 'a option \<Rightarrow> 'a option" where
  "or_else a b = (case a of Some x \<Rightarrow> Some x | None \<Rightarrow> b)"

section \<open>Uptimes\<close>

text \<open>\<^verbatim>\<open>wrapping_sub\<close> on \<^verbatim>\<open>u32\<close>, then the cast to \<^verbatim>\<open>i32\<close>.\<close>

definition uptime_to_absolute_ns :: "chrono \<Rightarrow> datetime \<Rightarrow> u32 \<Rightarrow> u32 \<Rightarrow> int option" where
  "uptime_to_absolute_ns C export_time sys_uptime_ms uptime_ms =
     (let offset_ms = sint (sys_uptime_ms - uptime_ms) in
      ch_checked_sub_millis C export_time offset_ms \<bind> ch_timestamp_nanos_opt C)"

text \<open>
  A stamp within \<open>2 ^ 31\<close> milliseconds of the header's is placed exactly, though both are counters
  that wrap: \<open>boot\<close> and \<open>stamp\<close> are the uptimes before they are cut to 32 bits.
\<close>

lemma wrapped_difference:
  assumes "- (2 ^ 31) \<le> a - b" and "a - b < (2 :: int) ^ 31"
  shows "sint ((word_of_int a :: u32) - word_of_int b) = a - b"
proof -
  have "(word_of_int a :: u32) - word_of_int b = word_of_int (a - b)" by simp
  then show ?thesis
    using assms by (simp only: sint_word_ariths signed_of_int) (simp add: signed_take_bit_int_eq_self)
qed

lemma uptime_placed:
  assumes "chrono_spec C" and "dt_ok t" and "\<bar>dt_secs t\<bar> \<le> 2 ^ 41"
    and "- (2 ^ 31) \<le> up - stamp" and "up - stamp < 2 ^ 31"
  shows "uptime_to_absolute_ns C t (word_of_int up) (word_of_int stamp) =
    (let ns = dt_total t - (up - stamp) * 1000000 in if - (2 ^ 63) \<le> ns \<and> ns < 2 ^ 63 then Some ns else None)"
proof -
  have "\<bar>up - stamp\<bar> \<le> 2 ^ 32" using assms(4,5) by simp
  then show ?thesis
    unfolding uptime_to_absolute_ns_def wrapped_difference [OF assms(4,5)]
    by (simp add: chrono_spec.checked_sub_millis_spec [OF assms(1-3)]
        chrono_spec.timestamp_nanos_opt_spec [OF assms(1)] Let_def)
qed

section \<open>The last field that sets a part\<close>

text \<open>
  The converters run over the fields of a record in order, so what they leave in a part of the
  flow is what the last field that sets this part sets. \<open>h\<close> gives what a field with a value sets.
\<close>

fun last_some :: "('f \<Rightarrow> 'v \<Rightarrow> 'x option) \<Rightarrow> ('f \<times> string \<times> 'v) list \<Rightarrow> 'x option" where
  "last_some h [] = None"
| "last_some h ((field, _, value) # entries) = or_else (last_some h entries) (h field value)"

fun first_some :: "('f \<Rightarrow> 'v \<Rightarrow> 'x option) \<Rightarrow> ('f \<times> string \<times> 'v) list \<Rightarrow> 'x option" where
  "first_some h [] = None"
| "first_some h ((field, _, value) # entries) = or_else (h field value) (first_some h entries)"

text \<open>What a field sets if it is for one of the elements \<open>ies\<close>.\<close>

definition among :: "information_element list \<Rightarrow> 'x option \<Rightarrow> information_element \<Rightarrow> 'x option" where
  "among ies x ie = (if ie \<in> set ies then x else None)"

lemma or_else_None [simp]: "or_else None b = b" "or_else a None = a"
  by (simp_all add: or_else_def split: option.splits)

lemma unwrap_or_simps [simp]: "unwrap_or d None = d" "unwrap_or d (Some x) = x"
  by (simp_all add: unwrap_or_def)

lemma unwrap_or_else: "unwrap_or d (or_else a b) = unwrap_or (unwrap_or d b) a"
  by (simp add: unwrap_or_def or_else_def split: option.splits)

lemma fold_last:
  assumes "\<And>field name value st. g (step (field, name, value) st) = unwrap_or (g st) (h field value)"
  shows "g (fold step entries st) = unwrap_or (g st) (last_some h entries)"
proof (induction entries arbitrary: st)
  case (Cons e es)
  then show ?case using assms by (cases e) (simp add: unwrap_or_else)
qed simp

lemma or_else_assoc: "or_else (or_else a b) c = or_else a (or_else b c)"
  by (simp add: or_else_def split: option.splits)

lemma fold_first:
  assumes "\<And>field name value st. g (step (field, name, value) st) = or_else (g st) (h field value)"
  shows "g (fold step entries st) = or_else (g st) (first_some h entries)"
proof (induction entries arbitrary: st)
  case (Cons e es)
  then show ?case using assms by (cases e) (simp add: or_else_assoc)
qed simp

text \<open>A part of the flow no field sets.\<close>

lemma fold_kept:
  assumes "\<And>e st. g (step e st) = g st"
  shows "g (fold step entries st) = g st"
  using assms by (induction entries arbitrary: st) simp_all

end
