(* ===== verification/NetflowV5.thy ===== *)
theory NetflowV5
  imports CommonParser
begin

text \<open>
  \<^verbatim>\<open>netflow_v5/parser.rs\<close> and \<^verbatim>\<open>netflow_v5/encoder.rs\<close>. The format has a 24-byte header and fixed 48-byte records.
\<close>

definition NETFLOW_V5_VERSION :: u16 where
  "NETFLOW_V5_VERSION = 5"

record v5_header =
  v5_version :: u16
  v5_count :: u16
  v5_sys_uptime :: u32
  v5_unix_secs :: u32
  v5_unix_nsecs :: u32
  v5_flow_sequence :: u32
  v5_engine_type :: u8
  v5_engine_id :: u8
  v5_sampling_mode :: u16
  v5_sampling_interval :: u16

record v5_flow_record =
  v5_srcaddr :: ipv4_addr
  v5_dstaddr :: ipv4_addr
  v5_nexthop :: ipv4_addr
  v5_input :: u16
  v5_output :: u16
  v5_d_pkts :: u32
  v5_d_ockts :: u32
  v5_first :: u32
  v5_last :: u32
  v5_srcport :: u16
  v5_dstport :: u16
  v5_tcp_flags :: u8
  v5_prot :: u8
  v5_tos :: u8
  v5_src_as :: u16
  v5_dst_as :: u16
  v5_src_mask :: u8
  v5_dst_mask :: u8

record v5_packet =
  v5_packet_header :: v5_header
  v5_flow_records :: "v5_flow_record list"

text \<open>The loop of \<^verbatim>\<open>nom\<close> this parser uses.\<close>

record v5_nom = nom +
  v5_many :: "nat \<Rightarrow> v5_flow_record parser \<Rightarrow> v5_flow_record list parser"

definition v5_parse_header :: "'z nom_scheme \<Rightarrow> v5_header parser" where
  "v5_parse_header N input = do {
     (input, version) \<leftarrow> verify_version N input NETFLOW_V5_VERSION;
     (input, cnt) \<leftarrow> nom_be_u16 N input;
     (input, sys_uptime) \<leftarrow> nom_be_u32 N input;
     (input, unix_secs) \<leftarrow> nom_be_u32 N input;
     (input, unix_nsecs) \<leftarrow> nom_be_u32 N input;
     (input, flow_sequence) \<leftarrow> nom_be_u32 N input;
     (input, engine_type) \<leftarrow> nom_be_u8 N input;
     (input, engine_id) \<leftarrow> nom_be_u8 N input;
     (input, sampling_interval) \<leftarrow> nom_be_u16 N input;
     Some (input,
       \<lparr>v5_version = version, v5_count = cnt, v5_sys_uptime = sys_uptime,
        v5_unix_secs = unix_secs, v5_unix_nsecs = unix_nsecs,
        v5_flow_sequence = flow_sequence, v5_engine_type = engine_type,
        v5_engine_id = engine_id, v5_sampling_mode = drop_bit 14 sampling_interval,
        v5_sampling_interval = sampling_interval AND 0x3fff\<rparr>)
   }"

definition v5_parse_flow_record :: "'z nom_scheme \<Rightarrow> v5_flow_record parser" where
  "v5_parse_flow_record N input = do {
     (input, srcaddr) \<leftarrow> ipv4_addr N input;
     (input, dstaddr) \<leftarrow> ipv4_addr N input;
     (input, nexthop) \<leftarrow> ipv4_addr N input;
     (input, input') \<leftarrow> nom_be_u16 N input;
     (input, output) \<leftarrow> nom_be_u16 N input;
     (input, d_pkts) \<leftarrow> nom_be_u32 N input;
     (input, d_ockts) \<leftarrow> nom_be_u32 N input;
     (input, first) \<leftarrow> nom_be_u32 N input;
     (input, last) \<leftarrow> nom_be_u32 N input;
     (input, srcport) \<leftarrow> nom_be_u16 N input;
     (input, dstport) \<leftarrow> nom_be_u16 N input;
     (input, _) \<leftarrow> nom_take N 1 input;
     (input, tcp_flags) \<leftarrow> nom_be_u8 N input;
     (input, prot) \<leftarrow> nom_be_u8 N input;
     (input, tos) \<leftarrow> nom_be_u8 N input;
     (input, src_as) \<leftarrow> nom_be_u16 N input;
     (input, dst_as) \<leftarrow> nom_be_u16 N input;
     (input, src_mask) \<leftarrow> nom_be_u8 N input;
     (input, dst_mask) \<leftarrow> nom_be_u8 N input;
     (input, _) \<leftarrow> nom_take N 2 input;
     Some (input,
       \<lparr>v5_srcaddr = srcaddr, v5_dstaddr = dstaddr, v5_nexthop = nexthop, v5_input = input',
        v5_output = output, v5_d_pkts = d_pkts, v5_d_ockts = d_ockts, v5_first = first,
        v5_last = last, v5_srcport = srcport, v5_dstport = dstport, v5_tcp_flags = tcp_flags,
        v5_prot = prot, v5_tos = tos, v5_src_as = src_as, v5_dst_as = dst_as,
        v5_src_mask = src_mask, v5_dst_mask = dst_mask\<rparr>)
   }"

definition parse_netflow_v5_packet :: "'z v5_nom_scheme \<Rightarrow> v5_packet parser" where
  "parse_netflow_v5_packet N input = do {
     (input, header) \<leftarrow> v5_parse_header N input;
     (input, flow_records) \<leftarrow> v5_many N (unat (v5_count header)) (v5_parse_flow_record N) input;
     Some (input, \<lparr>v5_packet_header = header, v5_flow_records = flow_records\<rparr>)
   }"

definition v5_unix_time :: "chrono \<Rightarrow> v5_header \<Rightarrow> datetime option" where
  "v5_unix_time C h = ch_from_timestamp C (uint (v5_unix_secs h)) (unat (v5_unix_nsecs h))"

section \<open>The encoder\<close>

definition v5_encode_header :: "bufmut \<Rightarrow> v5_header \<Rightarrow> bytes \<Rightarrow> bytes" where
  "v5_encode_header B h buf =
     (let buf = put_u16 B (v5_version h) buf;
          buf = put_u16 B (v5_count h) buf;
          buf = put_u32 B (v5_sys_uptime h) buf;
          buf = put_u32 B (v5_unix_secs h) buf;
          buf = put_u32 B (v5_unix_nsecs h) buf;
          buf = put_u32 B (v5_flow_sequence h) buf;
          buf = put_u8 B (v5_engine_type h) buf;
          buf = put_u8 B (v5_engine_id h) buf
      in put_u16 B (push_bit 14 (v5_sampling_mode h) OR (v5_sampling_interval h AND 0x3fff)) buf)"

definition v5_encode_flow_record :: "bufmut \<Rightarrow> v5_flow_record \<Rightarrow> bytes \<Rightarrow> bytes" where
  "v5_encode_flow_record B r buf =
     (let buf = put_slice B (to_be_bytes (v5_srcaddr r)) buf;
          buf = put_slice B (to_be_bytes (v5_dstaddr r)) buf;
          buf = put_slice B (to_be_bytes (v5_nexthop r)) buf;
          buf = put_u16 B (v5_input r) buf;
          buf = put_u16 B (v5_output r) buf;
          buf = put_u32 B (v5_d_pkts r) buf;
          buf = put_u32 B (v5_d_ockts r) buf;
          buf = put_u32 B (v5_first r) buf;
          buf = put_u32 B (v5_last r) buf;
          buf = put_u16 B (v5_srcport r) buf;
          buf = put_u16 B (v5_dstport r) buf;
          buf = put_u8 B 0 buf;
          buf = put_u8 B (v5_tcp_flags r) buf;
          buf = put_u8 B (v5_prot r) buf;
          buf = put_u8 B (v5_tos r) buf;
          buf = put_u16 B (v5_src_as r) buf;
          buf = put_u16 B (v5_dst_as r) buf;
          buf = put_u8 B (v5_src_mask r) buf;
          buf = put_u8 B (v5_dst_mask r) buf
      in put_u16 B 0 buf)"

definition v5_encode :: "bufmut \<Rightarrow> v5_packet \<Rightarrow> bytes \<Rightarrow> bytes" where
  "v5_encode B p buf =
     (let buf = v5_encode_header B
            ((v5_packet_header p)\<lparr>v5_count := word_of_nat (length (v5_flow_records p))\<rparr>) buf
      in fold (v5_encode_flow_record B) (v5_flow_records p) buf)"

text \<open>
  The packets the parser can return: the version is 5, the count field is the number of records,
  and the sampling field is split into two bits of mode and fourteen of interval.
\<close>

definition v5_packet_ok :: "v5_packet \<Rightarrow> bool" where
  "v5_packet_ok p \<longleftrightarrow>
     v5_version (v5_packet_header p) = NETFLOW_V5_VERSION \<and>
     unat (v5_count (v5_packet_header p)) = length (v5_flow_records p) \<and>
     unat (v5_sampling_mode (v5_packet_header p)) < 4 \<and>
     unat (v5_sampling_interval (v5_packet_header p)) < 0x4000"

section \<open>Lemmas\<close>

lemma sampling_split:
  assumes "unat m < 4" and "unat s < 0x4000"
  shows "drop_bit 14 (push_bit 14 m) = (m :: u16)" and "drop_bit 14 (s AND 0x3fff) = 0"
    and "(push_bit 14 m OR (s AND 0x3fff)) AND 0x3fff = (s :: u16)"
proof -
  have mask: "(0x3fff :: u16) = mask 14"
    by (simp add: mask_eq_exp_minus_1)
  have m: "bit m k \<Longrightarrow> k < 2" and s: "bit s k \<Longrightarrow> k < 14" for k
    using assms bit_unat_less [of m 2 k] bit_unat_less [of s 14 k] by simp_all
  show "drop_bit 14 (push_bit 14 m) = m"
    by (rule bit_word_eqI) (use m in \<open>fastforce simp: bit_simps\<close>)
  show "drop_bit 14 (s AND 0x3fff) = 0"
    by (rule bit_word_eqI) (auto simp: mask bit_simps)
  show "(push_bit 14 m OR (s AND 0x3fff)) AND 0x3fff = s"
    by (rule bit_word_eqI) (use s in \<open>auto simp: mask bit_simps\<close>)
qed

lemma sampling_bounds:
  "unat (drop_bit 14 w) < 4" "unat (w AND 0x3fff) < 0x4000" for w :: u16
proof -
  have mask: "(0x3fff :: u16) = mask 14"
    by (simp add: mask_eq_exp_minus_1)
  show "unat (w AND 0x3fff) < 0x4000"
    using unat_take_bit_less [of 14 w] by (simp add: mask flip: take_bit_eq_mask)
  have "unat w < 2 ^ 16"
    using unsigned_less [of w] by simp
  then show "unat (drop_bit 14 w) < 4"
    by (simp only: unsigned_drop_bit_eq) (simp add: take_bit_eq_mod drop_bit_eq_div)
qed

locale v5_nom_spec = nom_spec N for N :: "'z v5_nom_scheme" +
  assumes many_spec: "is_many (v5_many N)"
begin

lemma fixed_flow_record: "fixed_len 48 (v5_parse_flow_record N)"
  unfolding v5_parse_flow_record_def [abs_def] ipv4_addr_def
  by (rule fixed_len_eq, (rule fixed_len_intros)+) simp

lemma many_flow_record: "v5_many N n (v5_parse_flow_record N) = count_loop (v5_parse_flow_record N) n"
  by (rule is_manyD [OF many_spec fixed_len_consuming [OF fixed_flow_record]]) simp

lemma guarded_header:
  "guarded_len 24 (\<lambda>i. \<exists>i' v. nom_be_u16 N i = Some (i', v) \<and> v = NETFLOW_V5_VERSION) (v5_parse_header N)"
proof -
  have "guarded_len (2 + (2 + (4 + (4 + (4 + (4 + (1 + (1 + (2 + 0)))))))))
    (\<lambda>i. \<exists>i' v. nom_be_u16 N i = Some (i', v) \<and> v = NETFLOW_V5_VERSION) (v5_parse_header N)"
    unfolding v5_parse_header_def [abs_def] verify_version_def
    by (rule guarded_len_bind, (rule fixed_len_intros)+)
  then show ?thesis by simp
qed

lemma parse_header_fields:
  assumes "v5_parse_header N i = Some (i', h)"
  shows "v5_version h = NETFLOW_V5_VERSION" "v5_count h = from_be_bytes (take 2 (drop 2 i))"
    "unat (v5_sampling_mode h) < 4" "unat (v5_sampling_interval h) < 0x4000"
proof -
  from assms obtain i1 i2 w where "nom_be_u16 N i = Some (i1, v5_version h)"
    "nom_be_u16 N i1 = Some (i2, v5_count h)" "v5_version h = NETFLOW_V5_VERSION"
    "v5_sampling_mode h = drop_bit 14 w" "v5_sampling_interval h = w AND 0x3fff"
    by (auto simp: v5_parse_header_def verify_version_def bind_eq_Some_conv split: if_splits)
  then show "v5_version h = NETFLOW_V5_VERSION" "v5_count h = from_be_bytes (take 2 (drop 2 i))"
    "unat (v5_sampling_mode h) < 4" "unat (v5_sampling_interval h) < 0x4000"
    using sampling_bounds by (auto simp: be_specs be_read_def split: if_splits)
qed

lemma parse_encoded_header:
  assumes "bufmut_spec B" and "v5_version h = NETFLOW_V5_VERSION"
    and "unat (v5_sampling_mode h) < 4" and "unat (v5_sampling_interval h) < 0x4000"
  shows "v5_parse_header N (v5_encode_header B h [] @ r) = Some (r, h)"
  using assms(2-)
  by (simp add: v5_encode_header_def v5_parse_header_def verify_version_def Let_def nom_simps
      bufmut_spec.put_specs [OF assms(1)] sampling_split)

lemma parse_encoded_flow_record:
  assumes "bufmut_spec B"
  shows "v5_parse_flow_record N (v5_encode_flow_record B x [] @ r) = Some (r, x)"
  by (simp add: v5_encode_flow_record_def v5_parse_flow_record_def Let_def nom_simps ipv4_addr_def
      bufmut_spec.put_specs [OF assms])

lemma fixed_flow_records: "fixed_len (n * 48) (v5_many N n (v5_parse_flow_record N))"
  unfolding many_flow_record by (intro fixed_len_intros fixed_flow_record)

lemma parse_packet_cases:
  "if length i < 24 \<or> from_be_bytes (take 2 i) \<noteq> NETFLOW_V5_VERSION \<or>
      length i < 24 + be_nat (take 2 (drop 2 i)) * 48
   then parse_netflow_v5_packet N i = None
   else \<exists>p. parse_netflow_v5_packet N i = Some (drop (24 + be_nat (take 2 (drop 2 i)) * 48) i, p) \<and>
     v5_packet_ok p \<and> length (v5_flow_records p) = be_nat (take 2 (drop 2 i))"
proof (cases "length i < 24 \<or> from_be_bytes (take 2 i) \<noteq> NETFLOW_V5_VERSION")
  case True
  then have "v5_parse_header N i = None"
    by (auto simp: guarded_lenD(1) [OF guarded_header] be_specs be_read_def)
  with True show ?thesis
    by (auto simp: parse_netflow_v5_packet_def)
next
  case False
  then have "v5_parse_header N i \<noteq> None"
    by (auto simp: guarded_lenD(1) [OF guarded_header] be_specs be_read_def)
  then obtain h where h: "v5_parse_header N i = Some (drop 24 i, h)"
    using guarded_lenD(2) [OF guarded_header] by force
  note hf = parse_header_fields [OF h]
  have "length (take 2 (drop 2 i)) = 2"
    using False by (auto simp: min_def)
  then have "be_nat (take 2 (drop 2 i)) < 256 ^ 2"
    using be_nat_bound [of "take 2 (drop 2 i)"] by metis
  then have n: "unat (v5_count h) = be_nat (take 2 (drop 2 i))"
    by (simp add: hf from_be_bytes_def unsigned_of_nat take_bit_nat_eq_self)
  let ?recs = "v5_many N (unat (v5_count h)) (v5_parse_flow_record N) (drop 24 i)"
  have len: "?recs = Some (i', rs) \<Longrightarrow> length rs = unat (v5_count h)" for i' rs
    by (auto simp: many_flow_record dest: count_loop_length)
  have "if length i < 24 + unat (v5_count h) * 48 then ?recs = None
      else \<exists>rs. ?recs = Some (drop (unat (v5_count h) * 48) (drop 24 i), rs)"
  proof -
    have "(length (drop 24 i) < unat (v5_count h) * 48) = (length i < 24 + unat (v5_count h) * 48)"
      using False by auto
    then show ?thesis
      using fixed_flow_records [of "unat (v5_count h)", unfolded fixed_len_def, rule_format, of "drop 24 i"]
      by presburger
  qed
  with False h hf n len show ?thesis
    by (auto simp: parse_netflow_v5_packet_def v5_packet_ok_def add.commute split: if_splits)
qed

lemma encode_flow_record_append:
  "bufmut_spec B \<Longrightarrow> v5_encode_flow_record B x buf = buf @ v5_encode_flow_record B x []"
  by (simp add: v5_encode_flow_record_def Let_def bufmut_spec.put_specs)

lemma encode_flow_records:
  assumes "bufmut_spec B"
  shows "fold (v5_encode_flow_record B) rs buf = buf @ concat (map (\<lambda>x. v5_encode_flow_record B x []) rs)"
proof (induction rs arbitrary: buf)
  case (Cons x rs)
  then show ?case
    using encode_flow_record_append [OF assms, of x buf] by simp
qed simp

lemma parse_encoded_packet:
  assumes "bufmut_spec B" and "v5_packet_ok p"
  shows "parse_netflow_v5_packet N (v5_encode B p [] @ r) = Some (r, p)"
proof -
  let ?h = "v5_packet_header p"
  have "length (v5_flow_records p) = unat (v5_count ?h)"
    using assms(2) by (simp add: v5_packet_ok_def)
  then have h: "?h\<lparr>v5_count := word_of_nat (length (v5_flow_records p))\<rparr> = ?h"
    by simp
  have "v5_many N (unat (v5_count ?h)) (v5_parse_flow_record N)
      (concat (map (\<lambda>x. v5_encode_flow_record B x []) (v5_flow_records p)) @ r) =
      Some (r, v5_flow_records p)"
    using assms(2)
    by (simp add: many_flow_record v5_packet_ok_def count_loop_concat
        parse_encoded_flow_record [OF assms(1)])
  then show ?thesis
    using assms(2)
    by (simp add: parse_netflow_v5_packet_def v5_encode_def encode_flow_records [OF assms(1)]
        parse_encoded_header [OF assms(1)] h v5_packet_ok_def Let_def)
qed

lemma length_encoded:
  assumes "bufmut_spec B"
  shows "length (v5_encode B p []) = 24 + length (v5_flow_records p) * 48"
proof -
  have "length (v5_encode_flow_record B x []) = 48" for x
    by (simp add: v5_encode_flow_record_def Let_def bufmut_spec.put_specs [OF assms])
  then have "length (concat (map (\<lambda>x. v5_encode_flow_record B x []) rs)) = length rs * 48" for rs
    by (induction rs) simp_all
  then show ?thesis
    by (simp add: v5_encode_def encode_flow_records [OF assms] v5_encode_header_def Let_def
        bufmut_spec.put_specs [OF assms])
qed

end

definition v5_nom_ref :: v5_nom where
  "v5_nom_ref = nom.extend nom_ref (v5_nom.fields (\<lambda>n p. count_loop p n))"

interpretation v5_ref: v5_nom_spec v5_nom_ref
  by unfold_locales (simp_all add: v5_nom_ref_def nom.defs v5_nom.defs nom_ref_def)

definition v5_example :: v5_packet where
  "v5_example =
     \<lparr>v5_packet_header =
        \<lparr>v5_version = 5, v5_count = 1, v5_sys_uptime = 3600000, v5_unix_secs = 1700000000,
         v5_unix_nsecs = 0, v5_flow_sequence = 42, v5_engine_type = 0, v5_engine_id = 0,
         v5_sampling_mode = 1, v5_sampling_interval = 100\<rparr>,
      v5_flow_records =
        [\<lparr>v5_srcaddr = 0xC0000201, v5_dstaddr = 0xC6336401, v5_nexthop = 0, v5_input = 1,
          v5_output = 2, v5_d_pkts = 10, v5_d_ockts = 1500, v5_first = 3540000,
          v5_last = 3599000, v5_srcport = 1234, v5_dstport = 80, v5_tcp_flags = 0x18,
          v5_prot = 6, v5_tos = 0, v5_src_as = 0, v5_dst_as = 0, v5_src_mask = 24,
          v5_dst_mask = 16\<rparr>]\<rparr>"

lemma v5_example_ok: "v5_packet_ok v5_example"
  by (simp add: v5_example_def v5_packet_ok_def NETFLOW_V5_VERSION_def)

section \<open>Properties\<close>

text \<open>C39. A NetFlow v5 packet that is encoded and parsed again comes back unchanged, and the parser
  stops exactly at the end of the encoding, whatever bytes follow it.\<close>

theorem v5_roundtrip:
  assumes "v5_nom_spec N" and "bufmut_spec B" and "v5_packet_ok p"
  shows "parse_netflow_v5_packet N (v5_encode B p [] @ rest) = Some (rest, p)"
  using assms by (rule v5_nom_spec.parse_encoded_packet)

theorem v5_roundtrip_witness:
  "parse_netflow_v5_packet v5_nom_ref (v5_encode bufmut_ref v5_example [] @ [1, 2]) = Some ([1, 2], v5_example)"
  by (rule v5_roundtrip [OF v5_ref.v5_nom_spec_axioms bufmut_ref.bufmut_spec_axioms v5_example_ok])

text \<open>When the NetFlow v5 parser succeeds and when it fails: it needs a whole header with
  version 5 and all the records the count field announces, and then consumes exactly those; any
  shorter datagram is an error, never a packet with fewer records. What it returns is well
  formed.\<close>

theorem v5_parse_cases:
  assumes "v5_nom_spec N"
  shows "if length i < 24 \<or> from_be_bytes (take 2 i) \<noteq> NETFLOW_V5_VERSION \<or>
      length i < 24 + be_nat (take 2 (drop 2 i)) * 48
    then parse_netflow_v5_packet N i = None
    else \<exists>p. parse_netflow_v5_packet N i = Some (drop (24 + be_nat (take 2 (drop 2 i)) * 48) i, p) \<and>
      v5_packet_ok p \<and> length (v5_flow_records p) = be_nat (take 2 (drop 2 i))"
  using assms by (rule v5_nom_spec.parse_packet_cases)

theorem v5_parse_cases_witness:
  "parse_netflow_v5_packet v5_nom_ref (0 # 5 # 0 # 1 # replicate 60 0) = None"
  using v5_parse_cases [OF v5_ref.v5_nom_spec_axioms, of "0 # 5 # 0 # 1 # replicate 60 0"]
  by (simp add: be_nat_def from_be_bytes_def NETFLOW_V5_VERSION_def)

text \<open>Parsing and encoding agree the other way round: any datagram the parser accepts is
  re-encoded to as many bytes as it consumed, and those parse to the same packet again. (They
  can differ from the received ones in the padding only, which the encoder writes as zeros.)\<close>

theorem v5_reencode:
  assumes "v5_nom_spec N" and "bufmut_spec B" and "parse_netflow_v5_packet N i = Some (r, p)"
  shows "length (v5_encode B p []) + length r = length i \<and>
    parse_netflow_v5_packet N (v5_encode B p [] @ r) = Some (r, p)"
proof -
  have "24 + be_nat (take 2 (drop 2 i)) * 48 \<le> length i"
    "r = drop (24 + be_nat (take 2 (drop 2 i)) * 48) i" "v5_packet_ok p"
    "length (v5_flow_records p) = be_nat (take 2 (drop 2 i))"
    using v5_nom_spec.parse_packet_cases [OF assms(1), of i] assms(3) by (auto split: if_splits)
  then show ?thesis
    using v5_nom_spec.parse_encoded_packet [OF assms(1,2)]
    by (simp add: v5_nom_spec.length_encoded [OF assms(1,2)])
qed

theorem v5_reencode_witness:
  "length (v5_encode bufmut_ref v5_example []) = 72"
  using v5_reencode [OF v5_ref.v5_nom_spec_axioms bufmut_ref.bufmut_spec_axioms
      v5_ref.parse_encoded_packet [OF bufmut_ref.bufmut_spec_axioms v5_example_ok, of "[]"]]
    v5_ref.length_encoded [OF bufmut_ref.bufmut_spec_axioms, of v5_example]
  by (simp add: v5_example_def)

end
