(* ===== verification/NetflowV9.thy ===== *)
theory NetflowV9
  imports DataRecord TemplateCache
begin

text \<open>
  \<^verbatim>\<open>netflow_v9/parser.rs\<close>: the NetFlow v9 parser. Its state holds a registry and two caches, of the
  data and of the options templates; a flow set with identifier 0 or 1 fills them, and any other
  is decoded with the template they hold for its identifier.

  A parsing method takes the state and returns it with the result, so that what a failing call
  has changed stays changed. The clock is read once per datagram: \<open>now\<close>.
\<close>

definition NETFLOW_V9_VERSION :: u16 where
  "NETFLOW_V9_VERSION = 9"

definition NETFLOW_V9_TEMPLATE_FLOW_SET_ID :: u16 where
  "NETFLOW_V9_TEMPLATE_FLOW_SET_ID = 0"

definition NETFLOW_V9_OPTIONS_TEMPLATE_FLOW_SET_ID :: u16 where
  "NETFLOW_V9_OPTIONS_TEMPLATE_FLOW_SET_ID = 1"

definition FLOW_SET_HEADER_SIZE :: nat where
  "FLOW_SET_HEADER_SIZE = 4"

lemmas v9_consts = NETFLOW_V9_TEMPLATE_FLOW_SET_ID_def NETFLOW_V9_OPTIONS_TEMPLATE_FLOW_SET_ID_def
  FLOW_SET_HEADER_SIZE_def

section \<open>Data\<close>

record v9_header =
  v9_version :: u16
  v9_count :: u16
  v9_system_uptime :: u32
  v9_unix_seconds :: datetime
  v9_sequence_number :: u32
  v9_source_id :: u32

record v9_template_field =
  v9_field_type :: u16
  v9_field_length :: u16

record v9_template_record =
  v9_template_id :: u16
  v9_template_fields :: "v9_template_field list"

datatype scope_field_type = System | Interface | LineCard | Cache | Template | Unknown u16

record v9_scope_field =
  v9_scope_type :: scope_field_type
  v9_scope_length :: u16

datatype v9_options_template_field = Scope v9_scope_field | Option v9_template_field

record v9_options_template_record =
  v9_options_id :: u16
  v9_option_scope_length :: u16
  v9_option_length :: u16
  v9_options_fields :: "v9_options_template_field list"

datatype v9_field_value =
    V9Unsigned8 u8 | V9Unsigned16 u16 | V9Unsigned32 u32 | V9Unsigned64 u64
  | V9Signed8 u8 | V9Signed16 u16 | V9Signed32 u32 | V9Signed64 u64
  | V9Float32 u32 | V9Float64 u64 | V9MacAddress mac_addr6 | V9OctetArray bytes
  | V9String string | V9DateTimeSeconds datetime | V9DateTimeMilliseconds datetime
  | V9DateTimeMicroseconds datetime | V9DateTimeNanoseconds datetime
  | V9Ipv4Address ipv4_addr | V9Ipv6Address ipv6_addr | V9Null

type_synonym v9_resolved_field = "v9_template_field resolved_field"
type_synonym v9_data_record = "(v9_template_field, v9_field_value) data_record"

datatype v9_record =
    V9Template v9_template_record
  | V9OptionsTemplate v9_options_template_record
  | V9Data v9_data_record
  | V9OptionsData v9_data_record

record v9_flow_set =
  v9_set_id :: u16
  v9_set_length :: u16
  v9_set_records :: "v9_record list"

record v9_packet =
  v9_packet_header :: v9_header
  v9_flow_sets :: "v9_flow_set list"

record v9_parser =
  v9_registry :: ie_registry
  v9_templates :: "v9_resolved_field template_cache"
  v9_options_templates :: "v9_resolved_field template_cache"

text \<open>The loops of \<^verbatim>\<open>nom\<close> this parser uses.\<close>

record v9_nom = nom +
  v9_many0_sets :: "(v9_parser, v9_flow_set) st_parser \<Rightarrow> (v9_parser, v9_flow_set list) st_parser"
  v9_many0_templates :: "v9_template_record parser \<Rightarrow> v9_template_record list parser"
  v9_many0_options :: "v9_options_template_record parser \<Rightarrow> v9_options_template_record list parser"
  v9_many0_fields :: "v9_options_template_field parser \<Rightarrow> v9_options_template_field list parser"
  v9_many0_data :: "v9_data_record parser \<Rightarrow> v9_data_record list parser"
  v9_count_fields :: "v9_template_field parser \<Rightarrow> nat \<Rightarrow> v9_template_field list parser"

section \<open>Fields and templates\<close>

definition v9_parse_template_field :: "'z nom_scheme \<Rightarrow> v9_template_field parser" where
  "v9_parse_template_field N input = do {
     (input, type) \<leftarrow> nom_be_u16 N input;
     (input, len) \<leftarrow> nom_be_u16 N input;
     Some (input, \<lparr>v9_field_type = type, v9_field_length = len\<rparr>)
   }"

definition v9_parse_template_record :: "'z v9_nom_scheme \<Rightarrow> v9_template_record parser" where
  "v9_parse_template_record N input = do {
     (input, tid) \<leftarrow> nom_be_u16 N input;
     (input, field_count) \<leftarrow> nom_be_u16 N input;
     (input, fs) \<leftarrow> v9_count_fields N (v9_parse_template_field N) (unat field_count) input;
     Some (input, \<lparr>v9_template_id = tid, v9_template_fields = fs\<rparr>)
   }"

definition scope_field_type_from :: "u16 \<Rightarrow> scope_field_type" where
  "scope_field_type_from v =
     (if v = 1 then System else if v = 2 then Interface else if v = 3 then LineCard
      else if v = 4 then Cache else if v = 5 then Template else Unknown v)"

definition scope_field_type_into :: "scope_field_type \<Rightarrow> u16" where
  "scope_field_type_into t =
     (case t of System \<Rightarrow> 1 | Interface \<Rightarrow> 2 | LineCard \<Rightarrow> 3 | Cache \<Rightarrow> 4 | Template \<Rightarrow> 5 | Unknown v \<Rightarrow> v)"

text \<open>\<^verbatim>\<open>strum_macros::Display\<close>: the name of the variant.\<close>

definition scope_field_type_display :: "scope_field_type \<Rightarrow> string" where
  "scope_field_type_display t =
     (case t of System \<Rightarrow> ''System'' | Interface \<Rightarrow> ''Interface'' | LineCard \<Rightarrow> ''LineCard''
      | Cache \<Rightarrow> ''Cache'' | Template \<Rightarrow> ''Template'' | Unknown v \<Rightarrow> ''Unknown'')"

definition v9_parse_scope_field :: "'z nom_scheme \<Rightarrow> v9_scope_field parser" where
  "v9_parse_scope_field N input = do {
     (input, type) \<leftarrow> mapped scope_field_type_from (nom_be_u16 N input);
     (input, len) \<leftarrow> nom_be_u16 N input;
     Some (input, \<lparr>v9_scope_type = type, v9_scope_length = len\<rparr>)
   }"

text \<open>\<^verbatim>\<open>map_parser(take(n), p)\<close> runs \<open>p\<close> on the bytes taken and goes on after them.\<close>

definition v9_parse_options_template_record :: "'z v9_nom_scheme \<Rightarrow> v9_options_template_record parser" where
  "v9_parse_options_template_record N input = do {
     (input, tid) \<leftarrow> nom_be_u16 N input;
     (input, option_scope_length) \<leftarrow> nom_be_u16 N input;
     (input, option_length) \<leftarrow> nom_be_u16 N input;
     (input, scope_bytes) \<leftarrow> nom_take N (unat option_scope_length) input;
     (_, scope) \<leftarrow> v9_many0_fields N (\<lambda>i. mapped Scope (v9_parse_scope_field N i)) scope_bytes;
     (input, option_bytes) \<leftarrow> nom_take N (unat option_length) input;
     (_, options) \<leftarrow> v9_many0_fields N (\<lambda>i. mapped Option (v9_parse_template_field N i)) option_bytes;
     Some (input, \<lparr>v9_options_id = tid, v9_option_scope_length = option_scope_length,
       v9_option_length = option_length, v9_options_fields = scope @ options\<rparr>)
   }"

definition v9_from_registry :: "ie_registry \<Rightarrow> u16 \<Rightarrow> u16 \<Rightarrow> v9_resolved_field" where
  "v9_from_registry registry type len =
     (let (dt, name) = (case registry_lookup registry type None of
            None \<Rightarrow> (DtOctetArray, dec_string (unat type))
          | Some ie \<Rightarrow> (def_data_type ie, def_name ie))
      in \<lparr>rf_spec = \<lparr>v9_field_type = type, v9_field_length = len\<rparr>, rf_data_type = dt, rf_name = name\<rparr>)"

definition v9_resolve :: "v9_template_record \<Rightarrow> ie_registry \<Rightarrow> v9_resolved_field list" where
  "v9_resolve t registry =
     map (\<lambda>f. v9_from_registry registry (v9_field_type f) (v9_field_length f)) (v9_template_fields t)"

definition v9_resolve_option :: "ie_registry \<Rightarrow> v9_options_template_field \<Rightarrow> v9_resolved_field" where
  "v9_resolve_option registry field =
     (case field of
        Scope scope \<Rightarrow>
          \<lparr>rf_spec = \<lparr>v9_field_type = scope_field_type_into (v9_scope_type scope),
                      v9_field_length = v9_scope_length scope\<rparr>,
           rf_data_type = DtUnsigned, rf_name = scope_field_type_display (v9_scope_type scope)\<rparr>
      | Option option \<Rightarrow> v9_from_registry registry (v9_field_type option) (v9_field_length option))"

definition v9_resolve_options :: "v9_options_template_record \<Rightarrow> ie_registry \<Rightarrow> v9_resolved_field list" where
  "v9_resolve_options t registry = map (v9_resolve_option registry) (v9_options_fields t)"

section \<open>Values\<close>

definition v9_parse_field_value ::
    "'z nom_scheme \<Rightarrow> chrono \<Rightarrow> data_type \<Rightarrow> nat \<Rightarrow> v9_field_value parser" where
  "v9_parse_field_value N C dt len input =
     (if len = 0 then Some (input, V9Null)
      else if dt = DtUnsigned \<and> len = 1 then mapped V9Unsigned8 (nom_be_u8 N input)
      else if dt = DtUnsigned \<and> len = 2 then mapped V9Unsigned16 (nom_be_u16 N input)
      else if dt = DtUnsigned \<and> len = 4 then mapped V9Unsigned32 (nom_be_u32 N input)
      else if dt = DtUnsigned \<and> len = 8 then mapped V9Unsigned64 (nom_be_u64 N input)
      else if dt = DtUnsigned \<and> len = 3 then mapped V9Unsigned32 (nom_be_u24 N input)
      else if dt = DtUnsigned \<and> 5 \<le> len \<and> len \<le> 7 then mapped V9Unsigned64 (be_uint N len input)
      else if dt = DtSigned \<and> len = 1 then mapped V9Signed8 (nom_be_i8 N input)
      else if dt = DtSigned \<and> len = 2 then mapped V9Signed16 (nom_be_i16 N input)
      else if dt = DtSigned \<and> len = 4 then mapped V9Signed32 (nom_be_i32 N input)
      else if dt = DtSigned \<and> len = 8 then mapped V9Signed64 (nom_be_i64 N input)
      else if dt = DtSigned \<and> len = 3 then mapped V9Signed32 (nom_be_i24 N input)
      else if dt = DtSigned \<and> 5 \<le> len \<and> len \<le> 7 then mapped V9Signed64 (be_int N len input)
      else if dt = DtFloat \<and> len = 4 then mapped V9Float32 (nom_be_f32 N input)
      else if dt = DtFloat \<and> len = 8 then mapped V9Float64 (nom_be_f64 N input)
      else if dt = DtMacAddress \<and> len = 6 then mapped V9MacAddress (macaddr6 N input)
      else if dt = DtIpv4Address \<and> len = 4 then mapped V9Ipv4Address (ipv4_addr N input)
      else if dt = DtIpv6Address \<and> len = 16 then mapped V9Ipv6Address (ipv6_addr N input)
      else if dt = DtString then
        mapped (\<lambda>v. case v of None \<Rightarrow> V9Null | Some v \<Rightarrow> V9String v) (string N len input)
      else if dt = DtDateTimeSeconds \<and> len = 4 then mapped V9DateTimeSeconds (timestamp_secs N C input)
      else if dt = DtDateTimeMilliseconds \<and> len = 8 then
        mapped (\<lambda>v. case v of None \<Rightarrow> V9Null | Some v \<Rightarrow> V9DateTimeMilliseconds v) (timestamp_millis N C input)
      else if dt = DtDateTimeMicroseconds \<and> len = 8 then
        mapped V9DateTimeMicroseconds (timestamp_micros N C input)
      else if dt = DtDateTimeNanoseconds \<and> len = 8 then
        mapped V9DateTimeNanoseconds (timestamp_nanos N C input)
      else mapped V9OctetArray (vector N len input))"

definition v9_parse_data_record ::
    "'z nom_scheme \<Rightarrow> chrono \<Rightarrow> v9_resolved_field list \<Rightarrow> v9_field_value list parser" where
  "v9_parse_data_record N C fs input =
     read_values (\<lambda>field. v9_parse_field_value N C (rf_data_type field)
       (unat (v9_field_length (rf_spec field)))) fs input"

section \<open>The parser\<close>

definition v9_new :: "nat \<Rightarrow> ie_registry \<Rightarrow> nat \<Rightarrow> v9_parser" where
  "v9_new now registry timeout =
     \<lparr>v9_registry = registry, v9_templates = cache_new now timeout,
      v9_options_templates = cache_new now timeout\<rparr>"

definition v9_parse_header :: "'z nom_scheme \<Rightarrow> chrono \<Rightarrow> v9_header parser" where
  "v9_parse_header N C input = do {
     (input, version) \<leftarrow> verify_version N input NETFLOW_V9_VERSION;
     (input, cnt) \<leftarrow> nom_be_u16 N input;
     (input, system_uptime) \<leftarrow> nom_be_u32 N input;
     (input, unix_seconds) \<leftarrow> timestamp_secs N C input;
     (input, sequence_number) \<leftarrow> nom_be_u32 N input;
     (input, source_id) \<leftarrow> nom_be_u32 N input;
     Some (input,
       \<lparr>v9_version = version, v9_count = cnt, v9_system_uptime = system_uptime,
        v9_unix_seconds = unix_seconds, v9_sequence_number = sequence_number,
        v9_source_id = source_id\<rparr>)
   }"

text \<open>The template a set is decoded with, and how its records are wrapped.\<close>

definition v9_template_for ::
    "v9_parser \<Rightarrow> nat \<Rightarrow> template_key \<Rightarrow> (v9_resolved_field list \<times> (v9_data_record \<Rightarrow> v9_record)) option" where
  "v9_template_for self now key =
     (case cache_get (v9_templates self) now key of
        Some t \<Rightarrow> Some (t, V9Data)
      | None \<Rightarrow> (case cache_get (v9_options_templates self) now key of
          Some t \<Rightarrow> Some (t, V9OptionsData)
        | None \<Rightarrow> None))"

definition v9_parse_templated_records ::
    "'z v9_nom_scheme \<Rightarrow> chrono \<Rightarrow> nat \<Rightarrow> v9_parser \<Rightarrow> u32 \<Rightarrow> u16 \<Rightarrow> v9_record list parser" where
  "v9_parse_templated_records N C now self source_id template_id input =
     (case v9_template_for self now (source_id, template_id) of
        None \<Rightarrow> Some (input, [])
      | Some (fs, wrap) \<Rightarrow>
          if fs = [] then Some (input, [])
          else do {
            (input, records) \<leftarrow> v9_many0_data N
              (\<lambda>i. mapped (from_template fs) (v9_parse_data_record N C fs i)) input;
            Some (input, map wrap records)
          })"

definition v9_parse_records ::
    "'z v9_nom_scheme \<Rightarrow> chrono \<Rightarrow> nat \<Rightarrow> u32 \<Rightarrow> u16 \<Rightarrow> (v9_parser, v9_record list) st_parser" where
  "v9_parse_records N C now source_id flow_set_id self input =
     (if flow_set_id = NETFLOW_V9_TEMPLATE_FLOW_SET_ID then
        (case v9_many0_templates N (v9_parse_template_record N) input of
           None \<Rightarrow> (self, None)
         | Some (input, templates) \<Rightarrow>
             (self\<lparr>v9_templates := fold (\<lambda>t. cache_insert now (source_id, v9_template_id t)
                (v9_resolve t (v9_registry self))) templates (v9_templates self)\<rparr>,
              Some (input, map V9Template templates)))
      else if flow_set_id = NETFLOW_V9_OPTIONS_TEMPLATE_FLOW_SET_ID then
        (case v9_many0_options N (v9_parse_options_template_record N) input of
           None \<Rightarrow> (self, None)
         | Some (input, templates) \<Rightarrow>
             (self\<lparr>v9_options_templates := fold (\<lambda>t. cache_insert now (source_id, v9_options_id t)
                (v9_resolve_options t (v9_registry self))) templates (v9_options_templates self)\<rparr>,
              Some (input, map V9OptionsTemplate templates)))
      else (self, v9_parse_templated_records N C now self source_id flow_set_id input))"

text \<open>The header of a flow set and its contents; \<^verbatim>\<open>fail()\<close> when the length is below the header's.\<close>

definition v9_flow_set_frame :: "'z nom_scheme \<Rightarrow> (u16 \<times> u16 \<times> bytes) parser" where
  "v9_flow_set_frame N input = do {
     (input, set_id) \<leftarrow> nom_be_u16 N input;
     (input, len) \<leftarrow> nom_be_u16 N input;
     if unat len < FLOW_SET_HEADER_SIZE then None
     else do {
       (input, data) \<leftarrow> nom_take N (unat len - FLOW_SET_HEADER_SIZE) input;
       Some (input, set_id, len, data)
     }
   }"

definition v9_parse_flow_set ::
    "'z v9_nom_scheme \<Rightarrow> chrono \<Rightarrow> nat \<Rightarrow> u32 \<Rightarrow> (v9_parser, v9_flow_set) st_parser" where
  "v9_parse_flow_set N C now source_id self input =
     (case v9_flow_set_frame N input of
        None \<Rightarrow> (self, None)
      | Some (input, set_id, len, data) \<Rightarrow>
          (case v9_parse_records N C now source_id set_id self data of
             (self, None) \<Rightarrow> (self, None)
           | (self, Some (_, records)) \<Rightarrow>
               (self, Some (input, \<lparr>v9_set_id = set_id, v9_set_length = len, v9_set_records = records\<rparr>))))"

definition v9_parse :: "'z v9_nom_scheme \<Rightarrow> chrono \<Rightarrow> nat \<Rightarrow> (v9_parser, v9_packet) st_parser" where
  "v9_parse N C now self input =
     (case v9_parse_header N C input of
        None \<Rightarrow> (self, None)
      | Some (input, header) \<Rightarrow>
          (case v9_many0_sets N (v9_parse_flow_set N C now (v9_source_id header)) self input of
             (self, None) \<Rightarrow> (self, None)
           | (self, Some (input, flow_sets)) \<Rightarrow>
               (self, Some (input, \<lparr>v9_packet_header = header, v9_flow_sets = flow_sets\<rparr>))))"

section \<open>Reachable states and sizes\<close>

text \<open>The states of a parser: a new one, and what parsing any datagram at any later time leaves.\<close>

inductive v9_reachable :: "'z v9_nom_scheme \<Rightarrow> chrono \<Rightarrow> nat \<Rightarrow> nat \<Rightarrow> v9_parser \<Rightarrow> bool"
  for N C timeout where
  new: "v9_reachable N C timeout now (v9_new now registry timeout)"
| wait: "v9_reachable N C timeout now self \<Longrightarrow> now \<le> now' \<Longrightarrow> v9_reachable N C timeout now' self"
| parse: "v9_reachable N C timeout now self \<Longrightarrow>
    v9_reachable N C timeout now (fst (v9_parse N C now self input))"

definition v9_record_size :: "v9_resolved_field list \<Rightarrow> nat" where
  "v9_record_size fs = sum_list (map (\<lambda>f. unat (v9_field_length (rf_spec f))) fs)"

section \<open>Lemmas\<close>

locale v9_nom_spec = wire_spec N C for N :: "'z v9_nom_scheme" and C +
  assumes many0_sets_spec: "is_many0_st (v9_many0_sets N)"
    and many0_templates_spec: "is_many0 (v9_many0_templates N)"
    and many0_options_spec: "is_many0 (v9_many0_options N)"
    and many0_fields_spec: "is_many0 (v9_many0_fields N)"
    and many0_data_spec: "is_many0 (v9_many0_data N)"
    and count_fields_spec: "is_count (v9_count_fields N)"
begin

lemma fixed_template_field: "fixed_len 4 (v9_parse_template_field N)"
  unfolding v9_parse_template_field_def [abs_def]
  by (rule fixed_len_eq, (rule fixed_len_intros)+) simp

lemma fixed_scope_field: "fixed_len 4 (v9_parse_scope_field N)"
  unfolding v9_parse_scope_field_def [abs_def]
  by (rule fixed_len_eq, (rule fixed_len_intros)+) simp

lemma fixed_field_value: "fixed_len len (v9_parse_field_value N C dt len)"
  unfolding v9_parse_field_value_def [abs_def]
  by (intro fixed_len_if; (elim conjE)?; (hypsubst)?; intro fixed_len_intros)

lemma fixed_data_record: "fixed_len (v9_record_size fs) (v9_parse_data_record N C fs)"
  unfolding v9_record_size_def v9_parse_data_record_def [abs_def]
  by (rule fixed_read_values) (rule fixed_field_value)

lemma many0_data: "v9_many0_data N (\<lambda>i. mapped (from_template fs) (v9_parse_data_record N C fs i)) =
    many0_loop (\<lambda>i. mapped (from_template fs) (v9_parse_data_record N C fs i))"
  by (intro is_many0D [OF many0_data_spec] fixed_len_nonincr fixed_len_intros) (rule fixed_data_record)

lemma data_values:
  assumes "v9_parse_data_record N C fs i = Some (i', vs)" and "n < length fs"
  shows "length vs = length fs \<and>
    v9_parse_field_value N C (rf_data_type (fs ! n)) (unat (v9_field_length (rf_spec (fs ! n))))
      (drop (v9_record_size (take n fs)) i) = Some (drop (v9_record_size (take (Suc n) fs)) i, vs ! n)"
  using assms read_values_length
    read_values_nth [OF _ fixed_field_value, of "\<lambda>f. rf_data_type f" "\<lambda>f. unat (v9_field_length (rf_spec f))"]
  unfolding v9_parse_data_record_def v9_record_size_def by blast

lemma template_for_fields:
  "v9_template_for self now key = Some (fs, wrap) \<Longrightarrow>
    cache_get (v9_templates self) now key = Some fs \<or> cache_get (v9_options_templates self) now key = Some fs"
  by (auto simp: v9_template_for_def split: option.splits)

lemma templated_records:
  assumes "v9_template_for self now (src, tid) = Some (fs, wrap)" and "0 < v9_record_size fs"
  shows "\<exists>rs. v9_parse_templated_records N C now self src tid i =
      Some (drop (length i div v9_record_size fs * v9_record_size fs) i, map wrap rs) \<and>
    length rs = length i div v9_record_size fs \<and>
    (\<forall>n < length rs. dr_fields (rs ! n) = fs \<and>
      v9_parse_data_record N C fs (drop (n * v9_record_size fs) i) =
        Some (drop (n * v9_record_size fs + v9_record_size fs) i, dr_values (rs ! n)))"
proof -
  let ?p = "\<lambda>i. mapped (from_template fs) (v9_parse_data_record N C fs i)"
  have "fixed_len (v9_record_size fs) ?p"
    by (intro fixed_len_intros fixed_data_record)
  from many0_loop_fixed [OF this assms(2), of i] obtain rs where
    rs: "many0_loop ?p i = Some (drop (length i div v9_record_size fs * v9_record_size fs) i, rs)"
      "length rs = length i div v9_record_size fs"
      "\<And>n. n < length rs \<Longrightarrow> ?p (drop (n * v9_record_size fs) i) =
         Some (drop (n * v9_record_size fs + v9_record_size fs) i, rs ! n)"
    by auto
  have "fs \<noteq> []"
    using assms(2) by (auto simp: v9_record_size_def)
  with rs(1) have "v9_parse_templated_records N C now self src tid i =
      Some (drop (length i div v9_record_size fs * v9_record_size fs) i, map wrap rs)"
    by (simp add: v9_parse_templated_records_def assms(1) many0_data)
  moreover have "dr_fields (rs ! n) = fs \<and> v9_parse_data_record N C fs (drop (n * v9_record_size fs) i) =
        Some (drop (n * v9_record_size fs + v9_record_size fs) i, dr_values (rs ! n))"
    if "n < length rs" for n
    using rs(3) [OF that] by (auto simp: from_template_def) (metis data_record.sel)+
  ultimately show ?thesis
    using rs(2) by blast
qed

lemma templated_records_zero:
  assumes "v9_template_for self now (src, tid) = Some (fs, wrap)" and "fs \<noteq> []"
    and "v9_record_size fs = 0"
  shows "v9_parse_templated_records N C now self src tid i = None"
proof -
  have "fixed_len 0 (\<lambda>i. mapped (from_template fs) (v9_parse_data_record N C fs i))"
    using fixed_data_record [of fs] assms(3) by (intro fixed_len_intros) simp
  then show ?thesis
    using assms(1,2) by (simp add: v9_parse_templated_records_def many0_data many0_loop_zero)
qed

lemma flow_set_frame:
  "v9_flow_set_frame N i =
     (if 4 \<le> length i \<and> 4 \<le> be_nat (take 2 (drop 2 i)) \<and> be_nat (take 2 (drop 2 i)) \<le> length i
      then Some (drop (be_nat (take 2 (drop 2 i))) i, from_be_bytes (take 2 i),
        from_be_bytes (take 2 (drop 2 i)), drop 4 (take (be_nat (take 2 (drop 2 i))) i))
      else None)"
proof (cases "4 \<le> length i")
  case False
  then show ?thesis
    by (auto simp: v9_flow_set_frame_def be_specs be_read_def)
next
  case True
  let ?n = "be_nat (take 2 (drop 2 i))"
  have "length (take 2 (drop 2 i)) = 2" using True by simp
  then have "?n < 256 ^ 2"
    using be_nat_bound [of "take 2 (drop 2 i)"] by metis
  then have n: "unat (from_be_bytes (take 2 (drop 2 i)) :: u16) = ?n"
    unfolding from_be_bytes_def by (intro unat_word_of_nat) simp
  show ?thesis
    using True
    by (auto simp: v9_flow_set_frame_def be_specs be_read_def take_spec FLOW_SET_HEADER_SIZE_def n
        drop_take)
qed

lemma frame_consumes: "v9_flow_set_frame N i = Some (i', x) \<Longrightarrow> length i' + 4 \<le> length i"
  by (auto simp: flow_set_frame split: if_splits)

lemma flow_set_consuming: "st_consuming (v9_parse_flow_set N C now src)"
  unfolding st_consuming_def v9_parse_flow_set_def
  by (auto split: option.splits prod.splits dest!: frame_consumes)

lemma many0_sets: "v9_many0_sets N (v9_parse_flow_set N C now src) self =
    many0_st_loop (v9_parse_flow_set N C now src) self"
  by (intro is_many0_stD [OF many0_sets_spec] st_consuming_nonincr flow_set_consuming)

lemma guarded_header:
  "guarded_len 20 (\<lambda>i. \<exists>i' v. nom_be_u16 N i = Some (i', v) \<and> v = NETFLOW_V9_VERSION) (v9_parse_header N C)"
proof -
  have "guarded_len (2 + (2 + (4 + (4 + (4 + (4 + 0))))))
    (\<lambda>i. \<exists>i' v. nom_be_u16 N i = Some (i', v) \<and> v = NETFLOW_V9_VERSION) (v9_parse_header N C)"
    unfolding v9_parse_header_def [abs_def] verify_version_def
    by (rule guarded_len_bind, (rule fixed_len_intros)+)
  then show ?thesis by simp
qed

lemma header_cases:
  "v9_parse_header N C i = None \<longleftrightarrow> length i < 20 \<or> from_be_bytes (take 2 i) \<noteq> NETFLOW_V9_VERSION"
  by (auto simp: guarded_lenD(1) [OF guarded_header] be_specs be_read_def)

lemma parse_cases:
  "if length i < 20 \<or> from_be_bytes (take 2 i) \<noteq> NETFLOW_V9_VERSION
   then v9_parse N C now self i = (self, None)
   else \<exists>self' self0 rest p. v9_parse N C now self i = (self', Some (rest, p)) \<and>
     v9_parse_header N C i = Some (drop 20 i, v9_packet_header p) \<and>
     v9_parse_flow_set N C now (v9_source_id (v9_packet_header p)) self0 rest = (self', None)"
proof (cases "v9_parse_header N C i")
  case None
  then show ?thesis
    using header_cases [of i] by (simp add: v9_parse_def)
next
  case (Some r)
  obtain h where r: "r = (drop 20 i, h)"
    using guarded_lenD(2) [OF guarded_header] Some by (cases r) auto
  have "\<not> (length i < 20 \<or> from_be_bytes (take 2 i) \<noteq> NETFLOW_V9_VERSION)"
    using header_cases [of i] Some by simp
  moreover obtain self' self0 rest xs where
    "many0_st_loop (v9_parse_flow_set N C now (v9_source_id h)) self (drop 20 i) = (self', Some (rest, xs))"
    "v9_parse_flow_set N C now (v9_source_id h) self0 rest = (self', None)"
    using many0_st_loop_total [OF flow_set_consuming] by blast
  ultimately show ?thesis
    using Some r by (auto simp: v9_parse_def many0_sets)
qed

lemma flow_set_state:
  "fst (v9_parse_flow_set N C now src self i) = self \<or>
   (\<exists>ts. fst (v9_parse_flow_set N C now src self i) =
      self\<lparr>v9_templates := fold (\<lambda>t. cache_insert now (src, v9_template_id t)
         (v9_resolve t (v9_registry self))) ts (v9_templates self)\<rparr>) \<or>
   (\<exists>ts. fst (v9_parse_flow_set N C now src self i) =
      self\<lparr>v9_options_templates := fold (\<lambda>t. cache_insert now (src, v9_options_id t)
         (v9_resolve_options t (v9_registry self))) ts (v9_options_templates self)\<rparr>)"
  unfolding v9_parse_flow_set_def v9_parse_records_def
  by (auto split: option.splits prod.splits if_splits)

text \<open>What every insertion into a cache keeps, every datagram keeps.\<close>

lemma parse_keeps:
  assumes "\<And>c tid fs. P c \<Longrightarrow> P (cache_insert now (src, tid) fs c)"
    and "\<And>c tid fs. Q c \<Longrightarrow> Q (cache_insert now (src, tid) fs c)"
    and "P (v9_templates self)" and "Q (v9_options_templates self)"
    and "\<And>h i'. v9_parse_header N C i = Some (i', h) \<Longrightarrow> v9_source_id h = src"
  shows "P (v9_templates (fst (v9_parse N C now self i))) \<and>
    Q (v9_options_templates (fst (v9_parse N C now self i)))"
proof (cases "v9_parse_header N C i")
  case None
  then show ?thesis using assms(3,4) by (simp add: v9_parse_def)
next
  case (Some r)
  obtain i1 h where r: "r = (i1, h)" by force
  have src: "v9_source_id h = src" using Some r assms(5) by blast
  let ?I = "\<lambda>self. P (v9_templates self) \<and> Q (v9_options_templates self)"
  have step: "?I (fst (v9_parse_flow_set N C now src self i))" if "?I self" for self i
    using flow_set_state [of now src self i] that
    by (elim disjE exE)
      (simp_all add: fold_insert_keeps [of P, OF assms(1)] fold_insert_keeps [of Q, OF assms(2)])
  have "?I (fst (many0_st_loop (v9_parse_flow_set N C now src) self i1))"
    by (rule many0_st_loop_state [where I = ?I]) (use step assms(3,4) in blast)+
  then show ?thesis
    using Some r src by (auto simp: v9_parse_def many0_sets split: option.splits prod.splits)
qed

lemma header_source:
  "\<exists>src. \<forall>h i'. v9_parse_header N C i = Some (i', h) \<longrightarrow> v9_source_id h = src"
  by (cases "v9_parse_header N C i") auto

lemma reachable_caches:
  assumes "v9_reachable N C timeout now self"
  shows "cache_reachable timeout now (v9_templates self) \<and>
    cache_reachable timeout now (v9_options_templates self)"
  using assms
proof induction
  case (new now registry)
  then show ?case by (simp add: v9_new_def cache_reachable.new)
next
  case (wait now self now')
  then show ?case by (blast intro: cache_reachable.step cache_step.tick)
next
  case (parse now self input)
  obtain src where "\<And>h i'. v9_parse_header N C input = Some (i', h) \<Longrightarrow> v9_source_id h = src"
    using header_source by blast
  then show ?case
    using parse by (intro parse_keeps) (auto intro: cache_reachable_insert)
qed

lemma template_record_consuming: "consuming (v9_parse_template_record N)"
proof -
  have "nonincr (v9_count_fields N (v9_parse_template_field N) n)" for n
    unfolding is_countD [OF count_fields_spec fixed_len_nonincr [OF fixed_template_field]]
    by (intro nonincr_intros fixed_len_nonincr [OF fixed_template_field])
  then show ?thesis
    unfolding v9_parse_template_record_def [abs_def]
    by (intro consuming_bind fixed_len_consuming [OF fixed_reads(2)] nonincr_intros) simp_all
qed

lemma many0_templates_total:
  "\<exists>i' ts. v9_many0_templates N (v9_parse_template_record N) i = Some (i', ts)"
  using many0_loop_total [of "v9_parse_template_record N" i] template_record_consuming
    is_many0D [OF many0_templates_spec consuming_nonincr [OF template_record_consuming]]
  by (auto simp: consuming_def)

lemma learn_templates:
  assumes "v9_flow_set_frame N i = Some (rest, NETFLOW_V9_TEMPLATE_FLOW_SET_ID, len, data)"
  shows "\<exists>ts. v9_parse_flow_set N C now src self i =
     (self\<lparr>v9_templates := fold (\<lambda>t. cache_insert now (src, v9_template_id t)
        (v9_resolve t (v9_registry self))) ts (v9_templates self)\<rparr>,
      Some (rest, \<lparr>v9_set_id = NETFLOW_V9_TEMPLATE_FLOW_SET_ID, v9_set_length = len,
        v9_set_records = map V9Template ts\<rparr>))"
  using many0_templates_total [of data] assms
  by (auto simp: v9_parse_flow_set_def v9_parse_records_def)

lemma data_flow_set:
  assumes "v9_flow_set_frame N i = Some (rest, tid, len, data)"
    and "tid \<noteq> NETFLOW_V9_TEMPLATE_FLOW_SET_ID" and "tid \<noteq> NETFLOW_V9_OPTIONS_TEMPLATE_FLOW_SET_ID"
  shows "v9_parse_flow_set N C now src self i =
    (self, case v9_parse_templated_records N C now self src tid data of
       None \<Rightarrow> None
     | Some (_, rs) \<Rightarrow> Some (rest, \<lparr>v9_set_id = tid, v9_set_length = len, v9_set_records = rs\<rparr>))"
  using assms by (auto simp: v9_parse_flow_set_def v9_parse_records_def split: option.splits)

end

definition v9_nom_ref :: v9_nom where
  "v9_nom_ref = nom.extend nom_ref (v9_nom.fields many0_st_loop many0_loop many0_loop many0_loop
     many0_loop count_loop)"

interpretation v9_ref: v9_nom_spec v9_nom_ref chrono_ref
  by unfold_locales
    (simp_all add: v9_nom_ref_def nom.defs v9_nom.defs nom_ref_def)

text \<open>A parser that knows one template, and templates of seven and of no bytes.\<close>

definition v9_with :: "v9_resolved_field list \<Rightarrow> v9_parser" where
  "v9_with fs = (v9_new 5 registry_new 600)\<lparr>v9_templates := cache_insert 5 (1, 256) fs (cache_new 5 600)\<rparr>"

definition v9_example_fields :: "v9_resolved_field list" where
  "v9_example_fields =
     [\<lparr>rf_spec = \<lparr>v9_field_type = 8, v9_field_length = 4\<rparr>, rf_data_type = DtIpv4Address,
       rf_name = ''sourceIPv4Address''\<rparr>,
      \<lparr>rf_spec = \<lparr>v9_field_type = 2, v9_field_length = 3\<rparr>, rf_data_type = DtUnsigned,
       rf_name = ''packetDeltaCount''\<rparr>]"

definition v9_empty_fields :: "v9_resolved_field list" where
  "v9_empty_fields =
     [\<lparr>rf_spec = \<lparr>v9_field_type = 82, v9_field_length = 0\<rparr>, rf_data_type = DtString,
       rf_name = ''interfaceName''\<rparr>]"

lemma v9_with_template:
  assumes "length fs \<le> MAX_TEMPLATE_FIELDS"
  shows "v9_template_for (v9_with fs) 5 (1, 256) = Some (fs, V9Data)"
proof -
  have "cache_ok (cache_new 5 600) \<and> cache_timely 5 (cache_new 5 600)"
    by (simp add: cache_ok_new cache_timely_new)
  from tc.get_ins [OF this, of 5 "(1, 256)" fs "(1, 256)"]
  have "cache_get (cache_insert 5 (1, 256) fs (cache_new 5 600)) 5 (1, 256) = Some fs"
    using room_admits [OF cache_ok_new, of 5 600 fs 5] assms by (simp add: cache_new_def)
  then show ?thesis
    by (simp add: v9_template_for_def v9_with_def)
qed

lemma v9_example_size: "v9_record_size v9_example_fields = 7" "v9_record_size v9_empty_fields = 0"
  "length v9_example_fields \<le> MAX_TEMPLATE_FIELDS" "length v9_empty_fields \<le> MAX_TEMPLATE_FIELDS"
  by (simp_all add: v9_record_size_def v9_example_fields_def v9_empty_fields_def MAX_TEMPLATE_FIELDS_def)

lemmas v9_eval = v9_ref.flow_set_frame be_nat_def from_be_bytes_def v9_consts

section \<open>Properties\<close>

text \<open>Whatever datagrams a NetFlow v9 exporter sends, both template caches of its parser stay
  states of the cache's state machine, so all that is proved of the cache holds of them; in
  particular each holds at most \<open>MAX_TEMPLATE_FIELDS\<close> fields.\<close>

theorem v9_caches_reachable:
  assumes "v9_nom_spec N C" and "v9_reachable N C timeout now self"
  shows "cache_reachable timeout now (v9_templates self) \<and>
    cache_reachable timeout now (v9_options_templates self) \<and>
    tc_fields (v9_templates self) \<le> MAX_TEMPLATE_FIELDS \<and>
    tc_fields (v9_options_templates self) \<le> MAX_TEMPLATE_FIELDS"
  using v9_nom_spec.reachable_caches [OF assms] by (auto dest: cache_reachable_ok cache_okD(3))

theorem v9_caches_reachable_witness:
  "cache_reachable 600 5 (v9_templates (fst (v9_parse v9_nom_ref chrono_ref 5
     (v9_new 5 new_with_iana_elements 600) [0, 9, 0, 1])))"
  using v9_caches_reachable [OF v9_ref.v9_nom_spec_axioms v9_reachable.parse [OF v9_reachable.new]]
  by blast

text \<open>The NetFlow v9 parser accepts every datagram with a complete header of version 9: no
  content of a flow set makes the datagram an error. It stops only at bytes that are no
  parsable flow set, which it returns as the rest; anything without such a header is refused
  and leaves the state as it was.\<close>

theorem v9_parse_cases:
  assumes "v9_nom_spec N C"
  shows "if length i < 20 \<or> from_be_bytes (take 2 i) \<noteq> NETFLOW_V9_VERSION
    then v9_parse N C now self i = (self, None)
    else \<exists>self' self0 rest p. v9_parse N C now self i = (self', Some (rest, p)) \<and>
      v9_parse_header N C i = Some (drop 20 i, v9_packet_header p) \<and>
      v9_parse_flow_set N C now (v9_source_id (v9_packet_header p)) self0 rest = (self', None)"
  using assms by (rule v9_nom_spec.parse_cases)

theorem v9_parse_cases_witness:
  "\<exists>self' rest p. v9_parse v9_nom_ref chrono_ref 5 (v9_new 5 registry_new 600)
     (0 # 9 # replicate 18 0 @ [1, 2, 3]) = (self', Some (rest, p))"
  using v9_parse_cases [OF v9_ref.v9_nom_spec_axioms, of "0 # 9 # replicate 18 0 @ [1, 2, 3]"
      5 "v9_new 5 registry_new 600"]
  by (auto simp: from_be_bytes_def be_nat_def NETFLOW_V9_VERSION_def)

text \<open>C35. A data flow set whose template is known is cut into records of the template's size: as
  many as fit, the rest is padding. Record \<open>n\<close> has one value per field, and field \<open>m\<close> of it
  is read, with the field's type and length, at its offset in the record.\<close>

theorem v9_decode_data_set:
  assumes "v9_nom_spec N C" and "v9_flow_set_frame N i = Some (rest, tid, len, data)"
    and "tid \<noteq> NETFLOW_V9_TEMPLATE_FLOW_SET_ID" and "tid \<noteq> NETFLOW_V9_OPTIONS_TEMPLATE_FLOW_SET_ID"
    and "v9_template_for self now (src, tid) = Some (fs, wrap)" and "0 < v9_record_size fs"
  shows "\<exists>rs. v9_parse_flow_set N C now src self i =
      (self, Some (rest, \<lparr>v9_set_id = tid, v9_set_length = len, v9_set_records = map wrap rs\<rparr>)) \<and>
    length rs = length data div v9_record_size fs \<and>
    (\<forall>n < length rs. dr_fields (rs ! n) = fs \<and> record_ok (rs ! n) \<and>
      (\<forall>m < length fs. v9_parse_field_value N C (rf_data_type (fs ! m))
         (unat (v9_field_length (rf_spec (fs ! m))))
         (drop (v9_record_size (take m fs)) (drop (n * v9_record_size fs) data)) =
         Some (drop (v9_record_size (take (Suc m) fs)) (drop (n * v9_record_size fs) data),
           dr_values (rs ! n) ! m)))"
proof -
  obtain rs where p: "v9_parse_templated_records N C now self src tid data =
      Some (drop (length data div v9_record_size fs * v9_record_size fs) data, map wrap rs)"
    and len: "length rs = length data div v9_record_size fs"
    and rs: "\<And>n. n < length rs \<Longrightarrow> dr_fields (rs ! n) = fs \<and>
      v9_parse_data_record N C fs (drop (n * v9_record_size fs) data) =
        Some (drop (n * v9_record_size fs + v9_record_size fs) data, dr_values (rs ! n))"
    using v9_nom_spec.templated_records [OF assms(1,5,6)] by blast
  have "fs \<noteq> []" using assms(6) by (auto simp: v9_record_size_def)
  then have "record_ok (rs ! n)" if "n < length rs" for n
    using rs [OF that] v9_nom_spec.data_values [OF assms(1), of fs _ _ _ 0] by (auto simp: record_ok_def)
  moreover have "v9_parse_flow_set N C now src self i =
      (self, Some (rest, \<lparr>v9_set_id = tid, v9_set_length = len, v9_set_records = map wrap rs\<rparr>))"
    using v9_nom_spec.data_flow_set [OF assms(1-4)] p by simp
  ultimately show ?thesis
    using len rs v9_nom_spec.data_values [OF assms(1)]
    by (intro exI [of _ rs] conjI allI impI) blast+
qed

theorem v9_decode_data_set_witness:
  "\<exists>rs. v9_parse_flow_set v9_nom_ref chrono_ref 5 1 (v9_with v9_example_fields)
      ([1, 0, 0, 19] @ replicate 15 7) =
    (v9_with v9_example_fields,
     Some ([], \<lparr>v9_set_id = 256, v9_set_length = 19, v9_set_records = map V9Data rs\<rparr>)) \<and>
    length rs = 2"
proof -
  have "v9_flow_set_frame v9_nom_ref ([1, 0, 0, 19] @ replicate 15 7) = Some ([], 256, 19, replicate 15 7)"
    by (simp add: v9_eval)
  from v9_decode_data_set [OF v9_ref.v9_nom_spec_axioms this _ _ v9_with_template [OF v9_example_size(3)]]
  obtain rs where "v9_parse_flow_set v9_nom_ref chrono_ref 5 1 (v9_with v9_example_fields)
      ([1, 0, 0, 19] @ replicate 15 7) =
    (v9_with v9_example_fields,
     Some ([], \<lparr>v9_set_id = 256, v9_set_length = 19, v9_set_records = map V9Data rs\<rparr>))"
    "length rs = length (replicate 15 (7 :: u8)) div v9_record_size v9_example_fields"
    unfolding v9_consts v9_example_size by auto
  moreover from this(2) have "length rs = 2"
    by (simp add: v9_example_size)
  ultimately show ?thesis by blast
qed

text \<open>A template flow set teaches the parser its templates: afterwards, until the timeout, the
  fields it resolved are the ones for the template's identifier (the last ones, when the set
  defines it twice); a template that does not fit the budget leaves its identifier unknown, never
  with an older layout. Other identifiers and the options templates are untouched. When all of
  them fit beside what the cache holds, none is refused.\<close>

theorem v9_learn_templates:
  assumes "v9_nom_spec N C" and "v9_reachable N C timeout now self" and "now \<le> t"
    and "v9_flow_set_frame N i = Some (rest, NETFLOW_V9_TEMPLATE_FLOW_SET_ID, len, data)"
  shows "\<exists>ts self'. v9_parse_flow_set N C now src self i =
      (self', Some (rest, \<lparr>v9_set_id = NETFLOW_V9_TEMPLATE_FLOW_SET_ID, v9_set_length = len,
         v9_set_records = map V9Template ts\<rparr>)) \<and>
    v9_options_templates self' = v9_options_templates self \<and>
    (case find (\<lambda>x. (src, v9_template_id x) = key) (rev ts) of
       None \<Rightarrow> cache_get (v9_templates self') t key = cache_get (v9_templates self) t key
     | Some x \<Rightarrow> cache_get (v9_templates self') t key \<in> {None, Some (v9_resolve x (v9_registry self))} \<and>
         (t - now < timeout \<longrightarrow>
          tc_fields (v9_templates self) + sum_list (map (\<lambda>x. length (v9_template_fields x)) ts)
            \<le> MAX_TEMPLATE_FIELDS \<longrightarrow>
          cache_get (v9_templates self') t key = Some (v9_resolve x (v9_registry self))))"
proof -
  let ?c = "v9_templates self"
  have "cache_reachable timeout now ?c"
    using v9_nom_spec.reachable_caches [OF assms(1,2)] by blast
  then have c: "cache_ok ?c \<and> cache_timely now ?c" and ttl: "tc_timeout ?c = timeout"
    using cache_reachable_ok by blast+
  obtain ts where ts: "v9_parse_flow_set N C now src self i =
     (self\<lparr>v9_templates := fold (\<lambda>t. cache_insert now (src, v9_template_id t)
        (v9_resolve t (v9_registry self))) ts ?c\<rparr>,
      Some (rest, \<lparr>v9_set_id = NETFLOW_V9_TEMPLATE_FLOW_SET_ID, v9_set_length = len,
        v9_set_records = map V9Template ts\<rparr>))"
    using v9_nom_spec.learn_templates [OF assms(1,4)] by blast
  have len: "length (v9_resolve x (v9_registry self)) = length (v9_template_fields x)" for x
    by (simp add: v9_resolve_def)
  show ?thesis
    using ts tc.get_fold_ins [OF c assms(3), of "\<lambda>x. (src, v9_template_id x)"
        "\<lambda>x. v9_resolve x (v9_registry self)" ts key]
      tc.get_fold_ins_room [OF c assms(3), of "\<lambda>x. v9_resolve x (v9_registry self)" ts
        "\<lambda>x. (src, v9_template_id x)" key]
    by (intro exI [of _ ts] exI) (auto simp: ttl len split: option.splits)
qed

theorem v9_learn_templates_witness:
  "\<exists>ts self'. v9_parse_flow_set v9_nom_ref chrono_ref 5 1 (v9_new 5 registry_new 600)
      [0, 0, 0, 16, 1, 0, 0, 2, 0, 8, 0, 4, 0, 2, 0, 3] =
      (self', Some ([], \<lparr>v9_set_id = 0, v9_set_length = 16, v9_set_records = map V9Template ts\<rparr>)) \<and>
    v9_options_templates self' = cache_new 5 600"
proof -
  have "v9_flow_set_frame v9_nom_ref [0, 0, 0, 16, 1, 0, 0, 2, 0, 8, 0, 4, 0, 2, 0, 3] =
      Some ([], NETFLOW_V9_TEMPLATE_FLOW_SET_ID, 16, [1, 0, 0, 2, 0, 8, 0, 4, 0, 2, 0, 3])"
    by (simp add: v9_eval)
  from v9_learn_templates [OF v9_ref.v9_nom_spec_axioms v9_reachable.new order.refl this]
  obtain ts self' where "v9_parse_flow_set v9_nom_ref chrono_ref 5 1 (v9_new 5 registry_new 600)
      [0, 0, 0, 16, 1, 0, 0, 2, 0, 8, 0, 4, 0, 2, 0, 3] =
      (self', Some ([], \<lparr>v9_set_id = NETFLOW_V9_TEMPLATE_FLOW_SET_ID, v9_set_length = 16,
         v9_set_records = map V9Template ts\<rparr>))"
    "v9_options_templates self' = v9_options_templates (v9_new 5 registry_new 600)"
    by blast
  then show ?thesis
    by (auto simp: v9_consts v9_new_def)
qed

text \<open>Observation domains are isolated: a datagram changes nothing of what the parser knows
  about the templates of any other source id.\<close>

theorem v9_sources_isolated:
  assumes "v9_nom_spec N C" and "v9_reachable N C timeout now self" and "now \<le> t"
    and "v9_parse N C now self i = (self', Some (rest, p))"
    and "src \<noteq> v9_source_id (v9_packet_header p)"
  shows "v9_template_for self' t (src, tid) = v9_template_for self t (src, tid)"
proof -
  let ?d = "v9_source_id (v9_packet_header p)"
  let ?I = "\<lambda>c0 c. (cache_ok c \<and> cache_timely now c) \<and> cache_get c t (src, tid) = cache_get c0 t (src, tid)"
  have c: "?I c0 c \<Longrightarrow> ?I c0 (cache_insert now (?d, tid') fs c)" for c0 c tid' fs
    using assms(3,5) tc.inv_ins [of c now] tc.get_ins [of c now t] by auto
  have "cache_reachable timeout now (v9_templates self)"
    "cache_reachable timeout now (v9_options_templates self)"
    using v9_nom_spec.reachable_caches [OF assms(1,2)] by auto
  then have "?I (v9_templates self) (v9_templates self)"
    "?I (v9_options_templates self) (v9_options_templates self)"
    using cache_reachable_ok by blast+
  moreover have "v9_source_id h = ?d" if "v9_parse_header N C i = Some (i', h)" for h i'
    using assms(4) that by (auto simp: v9_parse_def split: option.splits prod.splits)
  ultimately have "?I (v9_templates self) (v9_templates (fst (v9_parse N C now self i))) \<and>
      ?I (v9_options_templates self) (v9_options_templates (fst (v9_parse N C now self i)))"
    using c by (intro v9_nom_spec.parse_keeps [OF assms(1), where P = "?I (v9_templates self)"
          and Q = "?I (v9_options_templates self)" and src = ?d]) blast+
  then show ?thesis
    unfolding v9_template_for_def assms(4) fst_conv by metis
qed

theorem v9_sources_isolated_witness:
  "\<exists>self' rest p. v9_parse v9_nom_ref chrono_ref 5 (v9_new 5 registry_new 600)
      [0, 9, 0, 0, 0, 0, 0, 0, 0, 0, 0, 0, 0, 0, 0, 0, 0, 0, 0, 0] = (self', Some (rest, p)) \<and>
    v9_template_for self' 5 (7, 256) = v9_template_for (v9_new 5 registry_new 600) 5 (7, 256)"
proof -
  let ?i = "[0, 9, 0, 0, 0, 0, 0, 0, 0, 0, 0, 0, 0, 0, 0, 0, 0, 0, 0, 0] :: bytes"
  obtain self' rest p where
    p: "v9_parse v9_nom_ref chrono_ref 5 (v9_new 5 registry_new 600) ?i = (self', Some (rest, p))"
    and h: "v9_parse_header v9_nom_ref chrono_ref ?i = Some (drop 20 ?i, v9_packet_header p)"
    using v9_ref.parse_cases [of ?i 5 "v9_new 5 registry_new 600"]
    by (auto simp: from_be_bytes_def be_nat_def NETFLOW_V9_VERSION_def)
  obtain h0 where "v9_parse_header v9_nom_ref chrono_ref ?i = Some ([], h0)" and src: "v9_source_id h0 = 0"
    by (simp add: v9_parse_header_def v9_ref.be_specs be_read_def v9_ref.timestamp_secs_eq
        verify_version_def from_be_bytes_def be_nat_def NETFLOW_V9_VERSION_def)
  then have "v9_packet_header p = h0"
    using h by simp
  with src have "v9_source_id (v9_packet_header p) = 0" by simp
  then have "7 \<noteq> v9_source_id (v9_packet_header p)" by simp
  from v9_sources_isolated [OF v9_ref.v9_nom_spec_axioms v9_reachable.new order.refl p this, of 256]
  show ?thesis using p by blast
qed

text \<open>The guard against templates without fields does not cover templates whose fields all have
  length zero: a data set for such a template fails to parse, so that it and all that follows
  it in the datagram are discarded, with no state change.\<close>

theorem v9_zero_length_template_discards_rest:
  assumes "v9_nom_spec N C" and "v9_parse_header N C i = Some (i1, h)"
    and "v9_flow_set_frame N i1 = Some (rest, tid, len, data)"
    and "tid \<noteq> NETFLOW_V9_TEMPLATE_FLOW_SET_ID" and "tid \<noteq> NETFLOW_V9_OPTIONS_TEMPLATE_FLOW_SET_ID"
    and "v9_template_for self now (v9_source_id h, tid) = Some (fs, wrap)" and "fs \<noteq> []"
    and "v9_record_size fs = 0"
  shows "v9_parse N C now self i = (self, Some (i1, \<lparr>v9_packet_header = h, v9_flow_sets = []\<rparr>))"
proof -
  have "v9_parse_flow_set N C now (v9_source_id h) self i1 = (self, None)"
    using v9_nom_spec.data_flow_set [OF assms(1,3-5)]
      v9_nom_spec.templated_records_zero [OF assms(1,6-8)] by simp
  then have "many0_st_loop (v9_parse_flow_set N C now (v9_source_id h)) self i1 = (self, Some (i1, []))"
    by (subst many0_st_loop.simps) simp
  then show ?thesis
    using assms(2) by (simp add: v9_parse_def v9_nom_spec.many0_sets [OF assms(1)])
qed

theorem v9_zero_length_template_discards_rest_witness:
  "\<exists>h. v9_parse v9_nom_ref chrono_ref 5 (v9_with v9_empty_fields)
      [0, 9, 0, 0, 0, 0, 0, 0, 0, 0, 0, 0, 0, 0, 0, 0, 0, 0, 0, 1, 1, 0, 0, 6, 9, 9] =
    (v9_with v9_empty_fields, Some ([1, 0, 0, 6, 9, 9], \<lparr>v9_packet_header = h, v9_flow_sets = []\<rparr>))"
proof -
  let ?i = "[0, 9, 0, 0, 0, 0, 0, 0, 0, 0, 0, 0, 0, 0, 0, 0, 0, 0, 0, 1, 1, 0, 0, 6, 9, 9] :: bytes"
  obtain h where h: "v9_parse_header v9_nom_ref chrono_ref ?i = Some ([1, 0, 0, 6, 9, 9], h)"
    and src: "v9_source_id h = 1"
    by (simp add: v9_parse_header_def v9_ref.be_specs be_read_def v9_ref.timestamp_secs_eq
        verify_version_def from_be_bytes_def be_nat_def NETFLOW_V9_VERSION_def)
  have f: "v9_flow_set_frame v9_nom_ref [1, 0, 0, 6, 9, 9] = Some ([], 256, 6, [9, 9])"
    by (simp add: v9_eval)
  have "v9_template_for (v9_with v9_empty_fields) 5 (v9_source_id h, 256) = Some (v9_empty_fields, V9Data)"
    by (simp add: src v9_with_template v9_example_size)
  from v9_zero_length_template_discards_rest [OF v9_ref.v9_nom_spec_axioms h f _ _ this]
  moreover have "v9_empty_fields \<noteq> []"
    by (simp add: v9_empty_fields_def)
  ultimately show ?thesis
    by (intro exI [of _ h]) (simp add: v9_consts v9_example_size)
qed

end
