(* ===== verification/Convert.thy ===== *)
theory Convert
  imports CommonFlow NetflowV5 NetflowV9
begin

text \<open>
  \<^verbatim>\<open>common/convert/netflow_v5.rs\<close> and \<^verbatim>\<open>common/convert/netflow_v9.rs\<close>: flows from the records of the
  two NetFlow versions. A context, the header with what the processor knows of the exporter, is
  passed as arguments.
\<close>

section \<open>NetFlow v5\<close>

definition v5_uptime_to_absolute_ns :: "chrono \<Rightarrow> v5_header \<Rightarrow> u32 \<Rightarrow> int option" where
  "v5_uptime_to_absolute_ns C header uptime_ms =
     v5_unix_time C header \<bind> (\<lambda>t. uptime_to_absolute_ns C t (v5_sys_uptime header) uptime_ms)"

definition v5_convert :: "chrono \<Rightarrow> v5_header \<Rightarrow> ip_addr option \<Rightarrow> v5_flow_record \<Rightarrow> common_flow" where
  "v5_convert C header sampler_address r =
    \<lparr>cf_flow_type = NetflowV5Flow, cf_time_received_ns = None,
     cf_sequence_num = v5_flow_sequence header,
     cf_sampling_rate = Some (ucast (v5_sampling_interval header)),
     cf_sampler_address = sampler_address,
     cf_time_flow_start_ns = v5_uptime_to_absolute_ns C header (v5_first r),
     cf_time_flow_end_ns = v5_uptime_to_absolute_ns C header (v5_last r),
     cf_bytes = ucast (v5_d_ockts r), cf_packets = ucast (v5_d_pkts r),
     cf_src_addr = Some (V4 (v5_srcaddr r)), cf_dst_addr = Some (V4 (v5_dstaddr r)),
     cf_src_mac = None, cf_dst_mac = None, cf_etype = Some 0x0800, cf_proto = Some (v5_prot r),
     cf_src_port = Some (v5_srcport r), cf_dst_port = Some (v5_dstport r),
     cf_in_if = Some (ucast (v5_input r)), cf_out_if = Some (ucast (v5_output r)),
     cf_ip_tos = Some (v5_tos r), cf_ip_ttl = None, cf_tcp_flags = Some (ucast (v5_tcp_flags r)),
     cf_icmp_type = None, cf_icmp_code = None, cf_ipv6_flow_label = None, cf_fragment_id = None,
     cf_fragment_offset = None, cf_src_as = Some (ucast (v5_src_as r)),
     cf_dst_as = Some (ucast (v5_dst_as r)), cf_next_hop = Some (V4 (v5_nexthop r)),
     cf_src_net = Some (v5_src_mask r), cf_dst_net = Some (v5_dst_mask r), cf_bgp_next_hop = None,
     cf_src_vlan = None, cf_dst_vlan = None, cf_observation_domain_id = None,
     cf_template_id = None, cf_forwarding_status = None\<rparr>"

section \<open>NetFlow v9\<close>

definition v9_extract_u64 :: "v9_field_value \<Rightarrow> u64 option" where
  "v9_extract_u64 value =
     (case value of V9Unsigned8 v \<Rightarrow> Some (ucast v) | V9Unsigned16 v \<Rightarrow> Some (ucast v)
      | V9Unsigned32 v \<Rightarrow> Some (ucast v) | V9Unsigned64 v \<Rightarrow> Some v | _ \<Rightarrow> None)"

definition v9_extract_u8 :: "v9_field_value \<Rightarrow> u8 option" where
  "v9_extract_u8 value = v9_extract_u64 value \<bind> try_from_u64"

definition v9_extract_u16 :: "v9_field_value \<Rightarrow> u16 option" where
  "v9_extract_u16 value = v9_extract_u64 value \<bind> try_from_u64"

definition v9_extract_u32 :: "v9_field_value \<Rightarrow> u32 option" where
  "v9_extract_u32 value = v9_extract_u64 value \<bind> try_from_u64"

definition v9_extract_datetime_ns :: "chrono \<Rightarrow> v9_field_value \<Rightarrow> int option" where
  "v9_extract_datetime_ns C value =
     (case value of V9DateTimeSeconds dt \<Rightarrow> ch_timestamp_nanos_opt C dt
      | V9DateTimeMilliseconds dt \<Rightarrow> ch_timestamp_nanos_opt C dt
      | V9DateTimeMicroseconds dt \<Rightarrow> ch_timestamp_nanos_opt C dt
      | V9DateTimeNanoseconds dt \<Rightarrow> ch_timestamp_nanos_opt C dt
      | _ \<Rightarrow> None)"

definition v9_uptime_to_absolute_ns :: "chrono \<Rightarrow> v9_header \<Rightarrow> u32 \<Rightarrow> int option" where
  "v9_uptime_to_absolute_ns C header uptime_ms =
     uptime_to_absolute_ns C (v9_unix_seconds header) (v9_system_uptime header) uptime_ms"

text \<open>What one field of a record sets in the flow. \<open>up\<close> is \<^verbatim>\<open>self.uptime_to_absolute_ns\<close>.\<close>

definition v9_set_field ::
    "chrono \<Rightarrow> (u32 \<Rightarrow> int option) \<Rightarrow> information_element \<Rightarrow> v9_field_value \<Rightarrow> common_flow \<Rightarrow> common_flow" where
  "v9_set_field C up ie value flow =
     (case ie of
        OctetDeltaCount \<Rightarrow> flow\<lparr>cf_bytes := unwrap_or 0 (v9_extract_u64 value)\<rparr>
      | PacketDeltaCount \<Rightarrow> flow\<lparr>cf_packets := unwrap_or 0 (v9_extract_u64 value)\<rparr>
      | ProtocolIdentifier \<Rightarrow> flow\<lparr>cf_proto := v9_extract_u8 value\<rparr>
      | IpClassOfService \<Rightarrow> flow\<lparr>cf_ip_tos := v9_extract_u8 value\<rparr>
      | TcpControlBits \<Rightarrow> flow\<lparr>cf_tcp_flags := v9_extract_u16 value\<rparr>
      | SourceTransportPort \<Rightarrow> flow\<lparr>cf_src_port := v9_extract_u16 value\<rparr>
      | SourceIpv4Address \<Rightarrow> (case value of V9Ipv4Address addr \<Rightarrow> flow\<lparr>cf_src_addr := Some (V4 addr), cf_etype := Some 0x0800\<rparr> | _ \<Rightarrow> flow)
      | SourceIpv4PrefixLength \<Rightarrow> flow\<lparr>cf_src_net := v9_extract_u8 value\<rparr>
      | IngressInterface \<Rightarrow> flow\<lparr>cf_in_if := v9_extract_u32 value\<rparr>
      | DestinationTransportPort \<Rightarrow> flow\<lparr>cf_dst_port := v9_extract_u16 value\<rparr>
      | DestinationIpv4Address \<Rightarrow> (case value of V9Ipv4Address addr \<Rightarrow> flow\<lparr>cf_dst_addr := Some (V4 addr)\<rparr> | _ \<Rightarrow> flow)
      | DestinationIpv4PrefixLength \<Rightarrow> flow\<lparr>cf_dst_net := v9_extract_u8 value\<rparr>
      | EgressInterface \<Rightarrow> flow\<lparr>cf_out_if := v9_extract_u32 value\<rparr>
      | ForwardingStatus \<Rightarrow> flow\<lparr>cf_forwarding_status := v9_extract_u32 value\<rparr>
      | IpNextHopIpv4Address \<Rightarrow> (case value of V9Ipv4Address addr \<Rightarrow> flow\<lparr>cf_next_hop := Some (V4 addr)\<rparr> | _ \<Rightarrow> flow)
      | BgpSourceAsNumber \<Rightarrow> flow\<lparr>cf_src_as := v9_extract_u32 value\<rparr>
      | BgpDestinationAsNumber \<Rightarrow> flow\<lparr>cf_dst_as := v9_extract_u32 value\<rparr>
      | BgpNextHopIpv4Address \<Rightarrow> (case value of V9Ipv4Address addr \<Rightarrow> flow\<lparr>cf_bgp_next_hop := Some (V4 addr)\<rparr> | _ \<Rightarrow> flow)
      | FlowStartSysUpTime \<Rightarrow> flow\<lparr>cf_time_flow_start_ns := v9_extract_u32 value \<bind> up\<rparr>
      | FlowEndSysUpTime \<Rightarrow> flow\<lparr>cf_time_flow_end_ns := v9_extract_u32 value \<bind> up\<rparr>
      | FlowStartSeconds \<Rightarrow> flow\<lparr>cf_time_flow_start_ns := v9_extract_datetime_ns C value\<rparr>
      | FlowStartMilliseconds \<Rightarrow> flow\<lparr>cf_time_flow_start_ns := v9_extract_datetime_ns C value\<rparr>
      | FlowStartMicroseconds \<Rightarrow> flow\<lparr>cf_time_flow_start_ns := v9_extract_datetime_ns C value\<rparr>
      | FlowStartNanoseconds \<Rightarrow> flow\<lparr>cf_time_flow_start_ns := v9_extract_datetime_ns C value\<rparr>
      | FlowEndSeconds \<Rightarrow> flow\<lparr>cf_time_flow_end_ns := v9_extract_datetime_ns C value\<rparr>
      | FlowEndMilliseconds \<Rightarrow> flow\<lparr>cf_time_flow_end_ns := v9_extract_datetime_ns C value\<rparr>
      | FlowEndMicroseconds \<Rightarrow> flow\<lparr>cf_time_flow_end_ns := v9_extract_datetime_ns C value\<rparr>
      | FlowEndNanoseconds \<Rightarrow> flow\<lparr>cf_time_flow_end_ns := v9_extract_datetime_ns C value\<rparr>
      | SourceIpv6Address \<Rightarrow> (case value of V9Ipv6Address addr \<Rightarrow> flow\<lparr>cf_src_addr := Some (V6 addr), cf_etype := Some 0x86dd\<rparr> | _ \<Rightarrow> flow)
      | DestinationIpv6Address \<Rightarrow> (case value of V9Ipv6Address addr \<Rightarrow> flow\<lparr>cf_dst_addr := Some (V6 addr)\<rparr> | _ \<Rightarrow> flow)
      | SourceIpv6PrefixLength \<Rightarrow> flow\<lparr>cf_src_net := v9_extract_u8 value\<rparr>
      | DestinationIpv6PrefixLength \<Rightarrow> flow\<lparr>cf_dst_net := v9_extract_u8 value\<rparr>
      | FlowLabelIpv6 \<Rightarrow> flow\<lparr>cf_ipv6_flow_label := v9_extract_u32 value\<rparr>
      | IcmpTypeCodeIpv4 \<Rightarrow> (case v9_extract_u16 value of Some v \<Rightarrow> flow\<lparr>cf_icmp_type := Some (ucast (drop_bit 8 v)), cf_icmp_code := Some (ucast (v AND 0xff))\<rparr> | None \<Rightarrow> flow)
      | IcmpTypeCodeIpv6 \<Rightarrow> (case v9_extract_u16 value of Some v \<Rightarrow> flow\<lparr>cf_icmp_type := Some (ucast (drop_bit 8 v)), cf_icmp_code := Some (ucast (v AND 0xff))\<rparr> | None \<Rightarrow> flow)
      | IcmpTypeIpv4 \<Rightarrow> flow\<lparr>cf_icmp_type := v9_extract_u8 value\<rparr>
      | IcmpTypeIpv6 \<Rightarrow> flow\<lparr>cf_icmp_type := v9_extract_u8 value\<rparr>
      | IcmpCodeIpv4 \<Rightarrow> flow\<lparr>cf_icmp_code := v9_extract_u8 value\<rparr>
      | IcmpCodeIpv6 \<Rightarrow> flow\<lparr>cf_icmp_code := v9_extract_u8 value\<rparr>
      | SrcVlan \<Rightarrow> flow\<lparr>cf_src_vlan := v9_extract_u16 value\<rparr>
      | DstVlan \<Rightarrow> flow\<lparr>cf_dst_vlan := v9_extract_u16 value\<rparr>
      | IpNextHopIpv6Address \<Rightarrow> (case value of V9Ipv6Address addr \<Rightarrow> flow\<lparr>cf_next_hop := Some (V6 addr)\<rparr> | _ \<Rightarrow> flow)
      | BgpNextHopIpv6Address \<Rightarrow> (case value of V9Ipv6Address addr \<Rightarrow> flow\<lparr>cf_bgp_next_hop := Some (V6 addr)\<rparr> | _ \<Rightarrow> flow)
      | MinimumTtl \<Rightarrow> flow\<lparr>cf_ip_ttl := v9_extract_u8 value\<rparr>
      | MaximumTtl \<Rightarrow> flow\<lparr>cf_ip_ttl := v9_extract_u8 value\<rparr>
      | FragmentIdentification \<Rightarrow> flow\<lparr>cf_fragment_id := v9_extract_u32 value\<rparr>
      | SourceMacAddress \<Rightarrow> (case value of V9MacAddress mac \<Rightarrow> flow\<lparr>cf_src_mac := Some mac\<rparr> | _ \<Rightarrow> flow)
      | PostSourceMacAddress \<Rightarrow> (case value of V9MacAddress mac \<Rightarrow> flow\<lparr>cf_src_mac := Some mac\<rparr> | _ \<Rightarrow> flow)
      | DestinationMacAddress \<Rightarrow> (case value of V9MacAddress mac \<Rightarrow> flow\<lparr>cf_dst_mac := Some mac\<rparr> | _ \<Rightarrow> flow)
      | PostDestinationMacAddress \<Rightarrow> (case value of V9MacAddress mac \<Rightarrow> flow\<lparr>cf_dst_mac := Some mac\<rparr> | _ \<Rightarrow> flow)
      | _ \<Rightarrow> flow)"

text \<open>One round of the loop, on the flow and \<^verbatim>\<open>record_rate\<close>.\<close>

definition v9_convert_field ::
    "chrono \<Rightarrow> v9_header \<Rightarrow> v9_template_field \<times> string \<times> v9_field_value \<Rightarrow>
     common_flow \<times> u32 option \<Rightarrow> common_flow \<times> u32 option" where
  "v9_convert_field C header entry st = (case (entry, st) of ((field, _, value), (flow, record_rate)) \<Rightarrow>
     (case ie_from_id (v9_field_type field) of
        None \<Rightarrow> (flow, record_rate)
      | Some ie \<Rightarrow>
          if ie = SamplingInterval \<or> ie = SamplingPacketInterval \<or> ie = SamplerRandomInterval then
            (flow, or_else record_rate (v9_extract_u32 value))
          else (v9_set_field C (v9_uptime_to_absolute_ns C header) ie value flow, record_rate)))"

definition v9_convert ::
    "chrono \<Rightarrow> v9_header \<Rightarrow> ip_addr option \<Rightarrow> u32 option \<Rightarrow> v9_data_record \<Rightarrow> u16 \<Rightarrow> common_flow" where
  "v9_convert C header sampler_address sampling_rate r template_id =
     (let flow = common_flow_new NetflowV9Flow;
          flow = flow\<lparr>cf_sequence_num := v9_sequence_number header, cf_sampler_address := sampler_address,
            cf_observation_domain_id := Some (v9_source_id header), cf_template_id := Some template_id\<rparr>;
          (flow, record_rate) = fold (v9_convert_field C header) (record_iter r) (flow, None)
      in flow\<lparr>cf_sampling_rate := or_else record_rate sampling_rate\<rparr>)"

definition extract_v9_sampling_rate :: "v9_data_record \<Rightarrow> u32 option" where
  "extract_v9_sampling_rate r =
     (case find (\<lambda>(field, _, _). v9_field_type field = ie_id SamplingInterval \<or>
          v9_field_type field = ie_id SamplingPacketInterval \<or>
          v9_field_type field = ie_id SamplerRandomInterval) (record_iter r) of
        Some (_, _, value) \<Rightarrow> v9_extract_u32 value
      | None \<Rightarrow> None)"

definition extract_v9_sampler_id :: "v9_data_record \<Rightarrow> u64 option" where
  "extract_v9_sampler_id r =
     (case find (\<lambda>(field, _, _). v9_field_type field = ie_id SamplerId) (record_iter r) of
        Some (_, _, value) \<Rightarrow> v9_extract_u64 value
      | None \<Rightarrow> None)"

section \<open>What the last field sets\<close>

lemma v9_set_parts:
  "cf_bytes (v9_set_field C up ie value flow) =
     unwrap_or (cf_bytes flow) (among [OctetDeltaCount] (Some (unwrap_or 0 (v9_extract_u64 value))) ie)"
  "cf_packets (v9_set_field C up ie value flow) =
     unwrap_or (cf_packets flow) (among [PacketDeltaCount] (Some (unwrap_or 0 (v9_extract_u64 value))) ie)"
  "cf_proto (v9_set_field C up ie value flow) =
     unwrap_or (cf_proto flow) (among [ProtocolIdentifier] (Some (v9_extract_u8 value)) ie)"
  "cf_ip_tos (v9_set_field C up ie value flow) =
     unwrap_or (cf_ip_tos flow) (among [IpClassOfService] (Some (v9_extract_u8 value)) ie)"
  "cf_tcp_flags (v9_set_field C up ie value flow) =
     unwrap_or (cf_tcp_flags flow) (among [TcpControlBits] (Some (v9_extract_u16 value)) ie)"
  "cf_src_port (v9_set_field C up ie value flow) =
     unwrap_or (cf_src_port flow) (among [SourceTransportPort] (Some (v9_extract_u16 value)) ie)"
  "cf_dst_port (v9_set_field C up ie value flow) =
     unwrap_or (cf_dst_port flow) (among [DestinationTransportPort] (Some (v9_extract_u16 value)) ie)"
  "cf_in_if (v9_set_field C up ie value flow) =
     unwrap_or (cf_in_if flow) (among [IngressInterface] (Some (v9_extract_u32 value)) ie)"
  "cf_out_if (v9_set_field C up ie value flow) =
     unwrap_or (cf_out_if flow) (among [EgressInterface] (Some (v9_extract_u32 value)) ie)"
  "cf_src_addr (v9_set_field C up ie value flow) =
     unwrap_or (cf_src_addr flow) (or_else (among [SourceIpv4Address] (case value of V9Ipv4Address a \<Rightarrow> Some (Some (V4 a)) | _ \<Rightarrow> None) ie) (among [SourceIpv6Address] (case value of V9Ipv6Address a \<Rightarrow> Some (Some (V6 a)) | _ \<Rightarrow> None) ie))"
  "cf_dst_addr (v9_set_field C up ie value flow) =
     unwrap_or (cf_dst_addr flow) (or_else (among [DestinationIpv4Address] (case value of V9Ipv4Address a \<Rightarrow> Some (Some (V4 a)) | _ \<Rightarrow> None) ie) (among [DestinationIpv6Address] (case value of V9Ipv6Address a \<Rightarrow> Some (Some (V6 a)) | _ \<Rightarrow> None) ie))"
  "cf_next_hop (v9_set_field C up ie value flow) =
     unwrap_or (cf_next_hop flow) (or_else (among [IpNextHopIpv4Address] (case value of V9Ipv4Address a \<Rightarrow> Some (Some (V4 a)) | _ \<Rightarrow> None) ie) (among [IpNextHopIpv6Address] (case value of V9Ipv6Address a \<Rightarrow> Some (Some (V6 a)) | _ \<Rightarrow> None) ie))"
  "cf_bgp_next_hop (v9_set_field C up ie value flow) =
     unwrap_or (cf_bgp_next_hop flow) (or_else (among [BgpNextHopIpv4Address] (case value of V9Ipv4Address a \<Rightarrow> Some (Some (V4 a)) | _ \<Rightarrow> None) ie) (among [BgpNextHopIpv6Address] (case value of V9Ipv6Address a \<Rightarrow> Some (Some (V6 a)) | _ \<Rightarrow> None) ie))"
  "cf_src_net (v9_set_field C up ie value flow) =
     unwrap_or (cf_src_net flow) (among [SourceIpv4PrefixLength, SourceIpv6PrefixLength] (Some (v9_extract_u8 value)) ie)"
  "cf_dst_net (v9_set_field C up ie value flow) =
     unwrap_or (cf_dst_net flow) (among [DestinationIpv4PrefixLength, DestinationIpv6PrefixLength] (Some (v9_extract_u8 value)) ie)"
  "cf_src_as (v9_set_field C up ie value flow) =
     unwrap_or (cf_src_as flow) (among [BgpSourceAsNumber] (Some (v9_extract_u32 value)) ie)"
  "cf_dst_as (v9_set_field C up ie value flow) =
     unwrap_or (cf_dst_as flow) (among [BgpDestinationAsNumber] (Some (v9_extract_u32 value)) ie)"
  "cf_forwarding_status (v9_set_field C up ie value flow) =
     unwrap_or (cf_forwarding_status flow) (among [ForwardingStatus] (Some (v9_extract_u32 value)) ie)"
  "cf_ipv6_flow_label (v9_set_field C up ie value flow) =
     unwrap_or (cf_ipv6_flow_label flow) (among [FlowLabelIpv6] (Some (v9_extract_u32 value)) ie)"
  "cf_src_vlan (v9_set_field C up ie value flow) =
     unwrap_or (cf_src_vlan flow) (among [SrcVlan] (Some (v9_extract_u16 value)) ie)"
  "cf_dst_vlan (v9_set_field C up ie value flow) =
     unwrap_or (cf_dst_vlan flow) (among [DstVlan] (Some (v9_extract_u16 value)) ie)"
  "cf_ip_ttl (v9_set_field C up ie value flow) =
     unwrap_or (cf_ip_ttl flow) (among [MinimumTtl, MaximumTtl] (Some (v9_extract_u8 value)) ie)"
  "cf_fragment_id (v9_set_field C up ie value flow) =
     unwrap_or (cf_fragment_id flow) (among [FragmentIdentification] (Some (v9_extract_u32 value)) ie)"
  "cf_time_flow_start_ns (v9_set_field C up ie value flow) =
     unwrap_or (cf_time_flow_start_ns flow) (or_else (among [FlowStartSysUpTime] (Some (v9_extract_u32 value \<bind> up)) ie) (among [FlowStartSeconds, FlowStartMilliseconds, FlowStartMicroseconds, FlowStartNanoseconds] (Some (v9_extract_datetime_ns C value)) ie))"
  "cf_time_flow_end_ns (v9_set_field C up ie value flow) =
     unwrap_or (cf_time_flow_end_ns flow) (or_else (among [FlowEndSysUpTime] (Some (v9_extract_u32 value \<bind> up)) ie) (among [FlowEndSeconds, FlowEndMilliseconds, FlowEndMicroseconds, FlowEndNanoseconds] (Some (v9_extract_datetime_ns C value)) ie))"
  "cf_icmp_type (v9_set_field C up ie value flow) =
     unwrap_or (cf_icmp_type flow) (or_else (among [IcmpTypeIpv4, IcmpTypeIpv6] (Some (v9_extract_u8 value)) ie) (among [IcmpTypeCodeIpv4, IcmpTypeCodeIpv6] (map_option (\<lambda>v. Some (ucast (drop_bit 8 v))) (v9_extract_u16 value)) ie))"
  "cf_icmp_code (v9_set_field C up ie value flow) =
     unwrap_or (cf_icmp_code flow) (or_else (among [IcmpCodeIpv4, IcmpCodeIpv6] (Some (v9_extract_u8 value)) ie) (among [IcmpTypeCodeIpv4, IcmpTypeCodeIpv6] (map_option (\<lambda>v. Some (ucast (v AND 0xff))) (v9_extract_u16 value)) ie))"
  "cf_etype (v9_set_field C up ie value flow) =
     unwrap_or (cf_etype flow) (or_else (among [SourceIpv4Address] (case value of V9Ipv4Address _ \<Rightarrow> Some (Some 0x0800) | _ \<Rightarrow> None) ie) (among [SourceIpv6Address] (case value of V9Ipv6Address _ \<Rightarrow> Some (Some 0x86dd) | _ \<Rightarrow> None) ie))"
  "cf_src_mac (v9_set_field C up ie value flow) =
     unwrap_or (cf_src_mac flow) (among [SourceMacAddress, PostSourceMacAddress] (case value of V9MacAddress mac \<Rightarrow> Some (Some mac) | _ \<Rightarrow> None) ie)"
  "cf_dst_mac (v9_set_field C up ie value flow) =
     unwrap_or (cf_dst_mac flow) (among [DestinationMacAddress, PostDestinationMacAddress] (case value of V9MacAddress mac \<Rightarrow> Some (Some mac) | _ \<Rightarrow> None) ie)"
  by (atomize (full)) (cases ie; simp add: v9_set_field_def among_def split: v9_field_value.split option.split)

lemma v9_convert_field_flow:
  "fst (v9_convert_field C header (field, name, value) st) =
    (case ie_from_id (v9_field_type field) of
       None \<Rightarrow> fst st
     | Some ie \<Rightarrow> v9_set_field C (v9_uptime_to_absolute_ns C header) ie value (fst st))"
  by (auto simp: v9_convert_field_def v9_set_field_def split: prod.splits option.splits)

definition v9_last :: "v9_data_record \<Rightarrow> (v9_field_value \<Rightarrow> information_element \<Rightarrow> 'x option) \<Rightarrow> 'x option" where
  "v9_last r h = last_some (\<lambda>field value. ie_from_id (v9_field_type field) \<bind> h value) (record_iter r)"

lemma v9_fold_part:
  assumes "\<And>ie value flow. g (v9_set_field C (v9_uptime_to_absolute_ns C header) ie value flow) =
    unwrap_or (g flow) (h value ie)"
  shows "g (fst (fold (v9_convert_field C header) es st)) =
    unwrap_or (g (fst st)) (last_some (\<lambda>field value. ie_from_id (v9_field_type field) \<bind> h value) es)"
  by (rule fold_last [where g = "\<lambda>st. g (fst st)"])
    (simp add: v9_convert_field_flow assms split: option.split)

lemma v9_fold_rate:
  "snd (fold (v9_convert_field C header) es st) = or_else (snd st) (first_some (\<lambda>field value.
    ie_from_id (v9_field_type field) \<bind>
      among [SamplingInterval, SamplingPacketInterval, SamplerRandomInterval] (v9_extract_u32 value)) es)"
  by (rule fold_first [where g = snd])
    (auto simp: v9_convert_field_def among_def split: prod.split option.split)

section \<open>Properties\<close>

text \<open>A NetFlow v9 record becomes a flow in which every part is what the last field sets that
  sets it, elements that set the same part included, whatever the template holds beside; a value
  of the wrong type or too wide unsets a number and leaves an address alone. The sampling rate is
  the first the record states, or else the exporter's.\<close>

theorem v9_convert_parts:
  "let flow = v9_convert C header sampler_address sampling_rate r template_id in
    cf_bytes flow = unwrap_or 0 (v9_last r (\<lambda>value ie. among [OctetDeltaCount] (Some (unwrap_or 0 (v9_extract_u64 value))) ie)) \<and>
    cf_packets flow = unwrap_or 0 (v9_last r (\<lambda>value ie. among [PacketDeltaCount] (Some (unwrap_or 0 (v9_extract_u64 value))) ie)) \<and>
    cf_proto flow = unwrap_or None (v9_last r (\<lambda>value ie. among [ProtocolIdentifier] (Some (v9_extract_u8 value)) ie)) \<and>
    cf_src_port flow = unwrap_or None (v9_last r (\<lambda>value ie. among [SourceTransportPort] (Some (v9_extract_u16 value)) ie)) \<and>
    cf_dst_port flow = unwrap_or None (v9_last r (\<lambda>value ie. among [DestinationTransportPort] (Some (v9_extract_u16 value)) ie)) \<and>
    cf_tcp_flags flow = unwrap_or None (v9_last r (\<lambda>value ie. among [TcpControlBits] (Some (v9_extract_u16 value)) ie)) \<and>
    cf_src_addr flow = unwrap_or None (v9_last r (\<lambda>value ie. or_else (among [SourceIpv4Address] (case value of V9Ipv4Address a \<Rightarrow> Some (Some (V4 a)) | _ \<Rightarrow> None) ie) (among [SourceIpv6Address] (case value of V9Ipv6Address a \<Rightarrow> Some (Some (V6 a)) | _ \<Rightarrow> None) ie))) \<and>
    cf_dst_addr flow = unwrap_or None (v9_last r (\<lambda>value ie. or_else (among [DestinationIpv4Address] (case value of V9Ipv4Address a \<Rightarrow> Some (Some (V4 a)) | _ \<Rightarrow> None) ie) (among [DestinationIpv6Address] (case value of V9Ipv6Address a \<Rightarrow> Some (Some (V6 a)) | _ \<Rightarrow> None) ie))) \<and>
    cf_next_hop flow = unwrap_or None (v9_last r (\<lambda>value ie. or_else (among [IpNextHopIpv4Address] (case value of V9Ipv4Address a \<Rightarrow> Some (Some (V4 a)) | _ \<Rightarrow> None) ie) (among [IpNextHopIpv6Address] (case value of V9Ipv6Address a \<Rightarrow> Some (Some (V6 a)) | _ \<Rightarrow> None) ie))) \<and>
    cf_etype flow = unwrap_or None (v9_last r (\<lambda>value ie. or_else (among [SourceIpv4Address] (case value of V9Ipv4Address _ \<Rightarrow> Some (Some 0x0800) | _ \<Rightarrow> None) ie) (among [SourceIpv6Address] (case value of V9Ipv6Address _ \<Rightarrow> Some (Some 0x86dd) | _ \<Rightarrow> None) ie))) \<and>
    cf_src_as flow = unwrap_or None (v9_last r (\<lambda>value ie. among [BgpSourceAsNumber] (Some (v9_extract_u32 value)) ie)) \<and>
    cf_dst_as flow = unwrap_or None (v9_last r (\<lambda>value ie. among [BgpDestinationAsNumber] (Some (v9_extract_u32 value)) ie)) \<and>
    cf_time_flow_start_ns flow = unwrap_or None (v9_last r (\<lambda>value ie. or_else (among [FlowStartSysUpTime] (Some (v9_extract_u32 value \<bind> v9_uptime_to_absolute_ns C header)) ie) (among [FlowStartSeconds, FlowStartMilliseconds, FlowStartMicroseconds, FlowStartNanoseconds] (Some (v9_extract_datetime_ns C value)) ie))) \<and>
    cf_time_flow_end_ns flow = unwrap_or None (v9_last r (\<lambda>value ie. or_else (among [FlowEndSysUpTime] (Some (v9_extract_u32 value \<bind> v9_uptime_to_absolute_ns C header)) ie) (among [FlowEndSeconds, FlowEndMilliseconds, FlowEndMicroseconds, FlowEndNanoseconds] (Some (v9_extract_datetime_ns C value)) ie))) \<and>
    cf_icmp_type flow = unwrap_or None (v9_last r (\<lambda>value ie. or_else (among [IcmpTypeIpv4, IcmpTypeIpv6] (Some (v9_extract_u8 value)) ie) (among [IcmpTypeCodeIpv4, IcmpTypeCodeIpv6] (map_option (\<lambda>v. Some (ucast (drop_bit 8 v))) (v9_extract_u16 value)) ie))) \<and>
    cf_sampling_rate flow = or_else (first_some (\<lambda>field value. ie_from_id (v9_field_type field) \<bind>
      among [SamplingInterval, SamplingPacketInterval, SamplerRandomInterval] (v9_extract_u32 value)) (record_iter r))
      sampling_rate"
  unfolding v9_last_def v9_convert_def
  by (simp add: Let_def case_prod_beta v9_fold_rate v9_set_parts [THEN v9_fold_part]
      common_flow_new_def common_flow_default_def)

lemma header_time_in_range:
  fixes secs nsecs ms :: int
  assumes "0 \<le> secs" and "secs < 4294967296" and "0 \<le> nsecs" and "nsecs < 1000000000"
    and "- 2147483648 \<le> ms" and "ms < 2147483648"
  shows "- (2 ^ 63) \<le> secs * 1000000000 + nsecs - ms * 1000000 \<and>
    secs * 1000000000 + nsecs - ms * 1000000 < 2 ^ 63"
  using assms by simp

text \<open>The start of a NetFlow v5 flow is placed exactly, relative to the header's time, when it lies
  within \<open>2 ^ 31\<close> milliseconds of it: \<open>up\<close> and \<open>first\<close> are the uptimes before they are cut to 32
  bits, so a flow that started before the counter wrapped is placed before it.\<close>

theorem v5_flow_start:
  assumes "chrono_spec C" and "unat (v5_unix_nsecs h) < 1000000000"
    and "v5_sys_uptime h = word_of_int up" and "v5_first r = word_of_int first"
    and "- (2 ^ 31) \<le> up - first" and "up - first < 2 ^ 31"
  shows "cf_time_flow_start_ns (v5_convert C h a r) =
    Some (uint (v5_unix_secs h) * 1000000000 + uint (v5_unix_nsecs h) - (up - first) * 1000000)"
proof -
  let ?t = "DateTime (uint (v5_unix_secs h)) (unat (v5_unix_nsecs h))"
  have secs: "0 \<le> uint (v5_unix_secs h)" "uint (v5_unix_secs h) < 4294967296"
    using unsigned_less [of "v5_unix_secs h", where 'a = int] by simp_all
  then have t: "v5_unix_time C h = Some ?t" "dt_ok ?t" "\<bar>dt_secs ?t\<bar> \<le> 2 ^ 41"
    using assms(2) by (simp_all add: v5_unix_time_def dt_ok_def chrono_spec.from_timestamp_spec [OF assms(1)])
  have "int (unat (v5_unix_nsecs h)) < 1000000000"
    using assms(2) by linarith
  then have nsecs: "0 \<le> uint (v5_unix_nsecs h)" "uint (v5_unix_nsecs h) < 1000000000"
    by simp_all
  let ?ns = "dt_total ?t - (up - first) * 1000000"
  have "?ns = uint (v5_unix_secs h) * 1000000000 + uint (v5_unix_nsecs h) - (up - first) * 1000000"
    by (simp add: dt_total_def)
  then have "- (2 ^ 63) \<le> ?ns \<and> ?ns < 2 ^ 63"
    using header_time_in_range [OF secs nsecs, of "up - first"] assms(5,6) by simp
  then show ?thesis
    using uptime_placed [OF assms(1) t(2,3) assms(5,6)]
    by (simp add: v5_convert_def v5_uptime_to_absolute_ns_def t(1) assms(3,4) dt_total_def Let_def)
qed

theorem v5_flow_start_witness:
  "cf_time_flow_start_ns (v5_convert chrono_ref
     ((v5_packet_header v5_example)\<lparr>v5_sys_uptime := 5000, v5_unix_secs := 1700000000, v5_unix_nsecs := 0\<rparr>) None
     ((hd (v5_flow_records v5_example))\<lparr>v5_first := 4294962296\<rparr>)) = Some 1699999990000000000"
proof -
  have "(5000 :: u32) = word_of_int (2 ^ 32 + 5000)" "(4294962296 :: u32) = word_of_int (2 ^ 32 - 5000)"
    by simp_all
  then show ?thesis
    using v5_flow_start [OF chrono_ref.chrono_spec_axioms, of
        "(v5_packet_header v5_example)\<lparr>v5_sys_uptime := 5000, v5_unix_secs := 1700000000, v5_unix_nsecs := 0\<rparr>"
        "2 ^ 32 + 5000" "(hd (v5_flow_records v5_example))\<lparr>v5_first := 4294962296\<rparr>" "2 ^ 32 - 5000" None]
    by simp
qed

end
