(* ===== verification/SflowTypes.thy ===== *)
theory SflowTypes
  imports CommonParser CryptoPan
begin

text \<open>
  The data of \<^verbatim>\<open>sflow_v5/parser.rs\<close>: datagrams, samples and the records in them. An enum with
  \<^verbatim>\<open>TryFromPrimitive\<close> comes with its partial conversion from \<^verbatim>\<open>u32\<close>.
\<close>

definition SFLOW_V5_VERSION :: u32 where
  "SFLOW_V5_VERSION = 5"

definition UNKNOWN :: u32 where
  "UNKNOWN = 0"

definition IPV4 :: u32 where
  "IPV4 = 1"

definition IPV6 :: u32 where
  "IPV6 = 2"

section \<open>Enumerations\<close>

datatype (plugins only: size) sample_format =
  SfFlow | SfCounter | SfExpandedFlow | SfExpandedCounter | SfDrop

definition sample_format_try_from :: "u32 \<Rightarrow> sample_format option" where
  "sample_format_try_from v = map_of
     [(1, SfFlow), (2, SfCounter), (3, SfExpandedFlow), (4, SfExpandedCounter), (5, SfDrop)] (unat v)"

datatype (plugins only: size) flow_type =
  FtSampledHeader | FtSampledEthernet | FtSampledIpv4 | FtSampledIpv6 | FtExtendedSwitch |
  FtExtendedRouter | FtExtendedGateway | FtExtendedUser | FtExtendedUrl |
  FtExtendedEgressQueue | FtExtendedAcl | FtExtendedFunction

definition flow_type_try_from :: "u32 \<Rightarrow> flow_type option" where
  "flow_type_try_from v = map_of
     [(1, FtSampledHeader), (2, FtSampledEthernet), (3, FtSampledIpv4), (4, FtSampledIpv6),
      (1001, FtExtendedSwitch), (1002, FtExtendedRouter), (1003, FtExtendedGateway),
      (1004, FtExtendedUser), (1005, FtExtendedUrl), (1036, FtExtendedEgressQueue),
      (1037, FtExtendedAcl), (1038, FtExtendedFunction)] (unat v)"

datatype (plugins only: size) counter_type =
  CtIfCounters | CtEthernetCounters | CtTokenringCounters | CtVgCounters | CtVlanCounters |
  CtProcessor

definition counter_type_try_from :: "u32 \<Rightarrow> counter_type option" where
  "counter_type_try_from v = map_of
     [(1, CtIfCounters), (2, CtEthernetCounters), (3, CtTokenringCounters), (4, CtVgCounters),
      (5, CtVlanCounters), (1001, CtProcessor)] (unat v)"

datatype (plugins only: size) header_protocol =
  HpEthernetIso8023 | HpIso88024TokenBus | HpIso88025TokenRing | HpFddi | HpFrameRelay |
  HpX25 | HpPpp | HpSmds | HpAal5 | HpAal5Ip | HpIpv4 | HpIpv6 | HpMpls | HpPos

definition header_protocol_try_from :: "u32 \<Rightarrow> header_protocol option" where
  "header_protocol_try_from v = map_of
     [(1, HpEthernetIso8023), (2, HpIso88024TokenBus), (3, HpIso88025TokenRing), (4, HpFddi),
      (5, HpFrameRelay), (6, HpX25), (7, HpPpp), (8, HpSmds), (9, HpAal5), (10, HpAal5Ip),
      (11, HpIpv4), (12, HpIpv6), (13, HpMpls), (14, HpPos)] (unat v)"

datatype (plugins only: size) as_path_segment_type =
  SegAsSet | SegAsSequence

definition as_path_segment_type_try_from :: "u32 \<Rightarrow> as_path_segment_type option" where
  "as_path_segment_type_try_from v = map_of
     [(1, SegAsSet), (2, SegAsSequence)] (unat v)"

datatype (plugins only: size) url_direction =
  UrlSrc | UrlDst

definition url_direction_try_from :: "u32 \<Rightarrow> url_direction option" where
  "url_direction_try_from v = map_of
     [(1, UrlSrc), (2, UrlDst)] (unat v)"

datatype (plugins only: size) direction =
  DirUnknown | DirIngress | DirEgress

definition direction_try_from :: "u32 \<Rightarrow> direction option" where
  "direction_try_from v = map_of
     [(0, DirUnknown), (1, DirIngress), (2, DirEgress)] (unat v)"

datatype (plugins only: size) drop_reason =
  NetUnreachable | HostUnreachable | ProtocolUnreachable | PortUnreachable | FragNeeded |
  SrcRouteFailed | DstNetUnknown | DstHostUnknown | SrcHostIsolated | DstNetProhibited |
  DstHostProhibited | DstNetTosUnreachable | DstHostTosUnreachable | CommAdminProhibited |
  HostPrecedenceViolation | PrecedenceCutoff | UnknownReason | TtlExceeded | AclDrop | NoBufferSpace |
  Red | TrafficShaping | PktTooBig | SrcMacIsMulticast | VlanTagMismatch | IngressVlanFilter |
  IngressSpanningTreeFilter | PortListIsEmpty | PortLoopbackFilter | BlackholeRoute | NonIp |
  UcDipOverMcDmac | DipIsLoopbackAddress | SipIsMc | SipIsLoopbackAddress |
  IpHeaderCorrupted | Ipv4SipIsLimitedBc | Ipv6McDipReservedScope |
  Ipv6McDipInterfaceLocalScope | UnresolvedNeigh | McReversePathForwarding |
  NonRoutablePacket | DecapError | OverlaySmacIsMc | UnknownL2 | UnknownL3 |
  UnknownL3Exception | UnknownBuffer | UnknownTunnel | UnknownL4 | SipIsUnspecified |
  MlagPortIsolated | BlackholeArpNeigh | SrcMacIsDmac | DmacIsReserved | SipIsClassE |
  McDmacMismatch | SipIsDip | DipIsLocalNetwork | DipIsLinkLocal | OverlaySmacIsDmac |
  EgressVlanFilter | UcReversePathForwarding | SplitHorizon | Unrecognized u32

definition drop_reason_table :: "(nat \<times> drop_reason) list" where
  "drop_reason_table =
     [(0, NetUnreachable), (1, HostUnreachable), (2, ProtocolUnreachable), (3, PortUnreachable),
      (4, FragNeeded), (5, SrcRouteFailed), (6, DstNetUnknown), (7, DstHostUnknown),
      (8, SrcHostIsolated), (9, DstNetProhibited), (10, DstHostProhibited),
      (11, DstNetTosUnreachable), (12, DstHostTosUnreachable), (13, CommAdminProhibited),
      (14, HostPrecedenceViolation), (15, PrecedenceCutoff), (256, UnknownReason), (257, TtlExceeded),
      (258, AclDrop), (259, NoBufferSpace), (260, Red), (261, TrafficShaping), (262, PktTooBig),
      (263, SrcMacIsMulticast), (264, VlanTagMismatch), (265, IngressVlanFilter),
      (266, IngressSpanningTreeFilter), (267, PortListIsEmpty), (268, PortLoopbackFilter),
      (269, BlackholeRoute), (270, NonIp), (271, UcDipOverMcDmac), (272, DipIsLoopbackAddress),
      (273, SipIsMc), (274, SipIsLoopbackAddress), (275, IpHeaderCorrupted),
      (276, Ipv4SipIsLimitedBc), (277, Ipv6McDipReservedScope),
      (278, Ipv6McDipInterfaceLocalScope), (279, UnresolvedNeigh),
      (280, McReversePathForwarding), (281, NonRoutablePacket), (282, DecapError),
      (283, OverlaySmacIsMc), (284, UnknownL2), (285, UnknownL3), (286, UnknownL3Exception),
      (287, UnknownBuffer), (288, UnknownTunnel), (289, UnknownL4), (290, SipIsUnspecified),
      (291, MlagPortIsolated), (292, BlackholeArpNeigh), (293, SrcMacIsDmac),
      (294, DmacIsReserved), (295, SipIsClassE), (296, McDmacMismatch), (297, SipIsDip),
      (298, DipIsLocalNetwork), (299, DipIsLinkLocal), (300, OverlaySmacIsDmac),
      (301, EgressVlanFilter), (302, UcReversePathForwarding), (303, SplitHorizon)]"

definition drop_reason_from :: "u32 \<Rightarrow> drop_reason" where
  "drop_reason_from v =
     (case map_of drop_reason_table (unat v) of Some reason \<Rightarrow> reason | None \<Rightarrow> Unrecognized v)"

section \<open>Records\<close>

record record_header =
  rh_data_format :: u32
  rh_length :: u32

record sampled_header =
  hd_protocol :: header_protocol
  hd_frame_length :: u32
  hd_stripped :: u32
  hd_header :: bytes

record sampled_ethernet =
  eth_length :: u32
  eth_src_mac :: mac_addr6
  eth_dst_mac :: mac_addr6
  eth_type :: u32

record sampled_ipv4 =
  s4_length :: u32
  s4_protocol :: u32
  s4_src_ip :: ipv4_addr
  s4_dst_ip :: ipv4_addr
  s4_src_port :: u32
  s4_dst_port :: u32
  s4_tcp_flags :: u32
  s4_tos :: u32

record sampled_ipv6 =
  s6_length :: u32
  s6_protocol :: u32
  s6_src_ip :: ipv6_addr
  s6_dst_ip :: ipv6_addr
  s6_src_port :: u32
  s6_dst_port :: u32
  s6_tcp_flags :: u32
  s6_priority :: u32

record extended_switch =
  sw_src_vlan :: u32
  sw_src_priority :: u32
  sw_dst_vlan :: u32
  sw_dst_priority :: u32

record extended_router =
  rt_nexthop :: "ip_addr option"
  rt_src_mask :: u32
  rt_dst_mask :: u32

datatype (plugins only: size) as_path_type = AsSet "u32 set" | AsSequence "u32 list"

record extended_gateway =
  gw_nexthop :: "ip_addr option"
  gw_as :: u32
  gw_src_as :: u32
  gw_src_peer_as :: u32
  gw_dst_as_path :: "as_path_type list"
  gw_communities :: "u32 list"
  gw_localpref :: u32

record extended_user =
  us_src_charset :: u32
  us_src_user :: string
  us_dst_charset :: u32
  us_dst_user :: string

record extended_url =
  url_direction :: url_direction
  url_url :: string

record extended_egress_queue =
  eq_queue :: u32

record extended_acl =
  acl_number :: u32
  acl_name :: string
  acl_direction :: direction

record extended_function =
  fun_symbol :: string

datatype (plugins only: size) flow_record_type =
    SampledHeader sampled_header
  | SampledEthernet sampled_ethernet
  | SampledIpv4 sampled_ipv4
  | SampledIpv6 sampled_ipv6
  | ExtendedSwitch extended_switch
  | ExtendedRouter extended_router
  | ExtendedGateway extended_gateway
  | ExtendedUser extended_user
  | ExtendedUrl extended_url
  | ExtendedEgressQueue extended_egress_queue
  | ExtendedAcl extended_acl
  | ExtendedFunction extended_function
  | UnknownFlowRecord bytes

record flow_record =
  fr_header :: record_header
  fr_data :: flow_record_type

record if_counters =
  ic_if_index :: u32
  ic_if_type :: u32
  ic_if_speed :: u64
  ic_if_direction :: u32
  ic_if_status :: u32
  ic_if_in_octets :: u64
  ic_if_in_ucast_pkts :: u32
  ic_if_in_multicast_pkts :: u32
  ic_if_in_broadcast_pkts :: u32
  ic_if_in_discards :: u32
  ic_if_in_errors :: u32
  ic_if_in_unknown_protos :: u32
  ic_if_out_octets :: u64
  ic_if_out_ucast_pkts :: u32
  ic_if_out_multicast_pkts :: u32
  ic_if_out_broadcast_pkts :: u32
  ic_if_out_discards :: u32
  ic_if_out_errors :: u32
  ic_if_promiscuous_mode :: u32

record ethernet_counters =
  ec_dot3_stats_alignment_errors :: u32
  ec_dot3_stats_fcs_errors :: u32
  ec_dot3_stats_single_collision_frames :: u32
  ec_dot3_stats_multiple_collision_frames :: u32
  ec_dot3_stats_sqetest_errors :: u32
  ec_dot3_stats_deferred_transmissions :: u32
  ec_dot3_stats_late_collisions :: u32
  ec_dot3_stats_excessive_collisions :: u32
  ec_dot3_stats_internal_mac_transmit_errors :: u32
  ec_dot3_stats_carrier_sense_errors :: u32
  ec_dot3_stats_frame_too_longs :: u32
  ec_dot3_stats_internal_mac_receive_errors :: u32
  ec_dot3_stats_symbol_errors :: u32

record tokenring_counters =
  tk_dot5_stats_line_errors :: u32
  tk_dot5_stats_burst_errors :: u32
  tk_dot5_stats_ac_errors :: u32
  tk_dot5_stats_abort_trans_errors :: u32
  tk_dot5_stats_internal_errors :: u32
  tk_dot5_stats_lost_frame_errors :: u32
  tk_dot5_stats_receive_congestions :: u32
  tk_dot5_stats_frame_copied_errors :: u32
  tk_dot5_stats_token_errors :: u32
  tk_dot5_stats_soft_errors :: u32
  tk_dot5_stats_hard_errors :: u32
  tk_dot5_stats_signal_loss :: u32
  tk_dot5_stats_transmit_beacons :: u32
  tk_dot5_stats_recoveries :: u32
  tk_dot5_stats_lobe_wires :: u32
  tk_dot5_stats_removes :: u32
  tk_dot5_stats_singles :: u32
  tk_dot5_stats_freq_errors :: u32

record vg_counters =
  vg_dot12_in_high_priority_frames :: u32
  vg_dot12_in_high_priority_octets :: u64
  vg_dot12_in_norm_priority_frames :: u32
  vg_dot12_in_norm_priority_octets :: u64
  vg_dot12_in_ipm_errors :: u32
  vg_dot12_in_oversize_frame_errors :: u32
  vg_dot12_in_data_errors :: u32
  vg_dot12_in_null_addressed_frames :: u32
  vg_dot12_out_high_priority_frames :: u32
  vg_dot12_out_high_priority_octets :: u64
  vg_dot12_transition_into_training :: u32
  vg_dot12_hc_in_high_priority_octets :: u64
  vg_dot12_hc_in_norm_priority_octets :: u64
  vg_dot12_hc_out_high_priority_octets :: u64

record vlan_counters =
  vl_vlan_id :: u32
  vl_octets :: u64
  vl_ucast_pkts :: u32
  vl_multicast_pkts :: u32
  vl_broadcast_pkts :: u32
  vl_discards :: u32

record processor =
  pr_avg_5s_cpu :: u32
  pr_avg_1m_cpu :: u32
  pr_avg_5m_cpu :: u32
  pr_total_memory :: u64
  pr_free_memory :: u64

datatype (plugins only: size) counter_record_type =
    IfCounters if_counters
  | EthernetCounters ethernet_counters
  | TokenringCounters tokenring_counters
  | VgCounters vg_counters
  | VlanCounters vlan_counters
  | ProcessorRecord processor
  | UnknownCounterRecord bytes

record counter_record =
  cr_header :: record_header
  cr_data :: "counter_record_type list"

section \<open>Samples\<close>

record sample_header =
  sh_format :: u32
  sh_length :: u32
  sh_sample_sequence_number :: u32
  sh_source_id_type :: u32
  sh_source_id_value :: u32

record flow_sample =
  fl_header :: sample_header
  fl_sampling_rate :: u32
  fl_sample_pool :: u32
  fl_drops :: u32
  fl_input :: u32
  fl_output :: u32
  fl_records :: "flow_record list"

record counter_sample =
  cs_header :: sample_header
  cs_records :: "counter_record list"

type_synonym expanded_counter_sample = counter_sample

record expanded_flow_sample =
  ef_header :: sample_header
  ef_sampling_rate :: u32
  ef_sample_pool :: u32
  ef_drops :: u32
  ef_input_if_format :: u32
  ef_input_if_value :: u32
  ef_output_if_format :: u32
  ef_output_if_value :: u32
  ef_records :: "flow_record list"

record drop_sample =
  ds_header :: sample_header
  ds_drops :: u32
  ds_input :: u32
  ds_output :: u32
  ds_reason :: drop_reason
  ds_records :: "flow_record list"

datatype (plugins only: size) sample =
    FlowOf flow_sample
  | CounterOf counter_sample
  | ExpandedFlowOf expanded_flow_sample
  | ExpandedCounterOf expanded_counter_sample
  | DropOf drop_sample
  | UnknownSample bytes

record sflow_v5 =
  sf_version :: u32
  sf_agent_address :: "ip_addr option"
  sf_sub_agent_id :: u32
  sf_sequence_number :: u32
  sf_uptime :: u32
  sf_samples :: "sample list"

end
