(* ===== verification/Sflow.thy ===== *)
theory Sflow
  imports SflowTypes
begin

text \<open>
  The parser of \<^verbatim>\<open>sflow_v5/parser.rs\<close>. A datagram is a header and samples, a sample a header and
  records; samples and records carry their length, and one whose contents do not parse is kept
  as bytes.
\<close>

section \<open>Strings\<close>

text \<open>
  \<^verbatim>\<open>String::from_utf8_lossy\<close>: every maximal ill-formed part of one to three bytes becomes U+FFFD.
\<close>

definition replacement :: bytes where
  "replacement = [0xEF, 0xBF, 0xBD]"

fun utf8_lossy :: "bytes \<Rightarrow> bytes" where
  "utf8_lossy [] = []"
| "utf8_lossy (a # bs) =
     (if a < 0x80 then a # utf8_lossy bs
      else if 0xC2 \<le> a \<and> a \<le> 0xDF then
        (case bs of
           b # r1 \<Rightarrow> if utf8_cont b then a # b # utf8_lossy r1 else replacement @ utf8_lossy bs
         | [] \<Rightarrow> replacement)
      else if 0xE0 \<le> a \<and> a \<le> 0xEF then
        (case bs of
           b # r1 \<Rightarrow>
             if \<not> utf8_second3 a b then replacement @ utf8_lossy bs
             else (case r1 of
                 c # r2 \<Rightarrow> if utf8_cont c then a # b # c # utf8_lossy r2
                   else replacement @ utf8_lossy r1
               | [] \<Rightarrow> replacement)
         | [] \<Rightarrow> replacement)
      else if 0xF0 \<le> a \<and> a \<le> 0xF4 then
        (case bs of
           b # r1 \<Rightarrow>
             if \<not> utf8_second4 a b then replacement @ utf8_lossy bs
             else (case r1 of
                 c # r2 \<Rightarrow>
                   if \<not> utf8_cont c then replacement @ utf8_lossy r1
                   else (case r2 of
                       d # r3 \<Rightarrow> if utf8_cont d then a # b # c # d # utf8_lossy r3
                         else replacement @ utf8_lossy r2
                     | [] \<Rightarrow> replacement)
               | [] \<Rightarrow> replacement)
         | [] \<Rightarrow> replacement)
      else replacement @ utf8_lossy bs)"

definition from_utf8_lossy :: "bytes \<Rightarrow> string" where
  "from_utf8_lossy v = map (\<lambda>b. char_of (unat b)) (utf8_lossy v)"

lemma second_ranges:
  "utf8_second3 a b \<Longrightarrow> 0xE0 \<le> a \<and> a \<le> 0xEF" "utf8_second4 a b \<Longrightarrow> 0xF0 \<le> a \<and> a \<le> 0xF4"
  by (auto simp: utf8_second3_def utf8_second4_def word_le_nat_alt)

lemma valid_replacement: "utf8_valid (replacement @ bs) = utf8_valid bs"
  by (simp add: replacement_def utf8_second3_def utf8_cont_def)

lemma valid_ascii: "a < 0x80 \<Longrightarrow> utf8_valid (a # bs) = utf8_valid bs"
  by simp

lemma valid_two: "0xC2 \<le> a \<Longrightarrow> a \<le> 0xDF \<Longrightarrow> utf8_cont b \<Longrightarrow> utf8_valid (a # b # bs) = utf8_valid bs"
  by (simp add: word_less_nat_alt word_le_nat_alt)

lemma valid_three: "utf8_second3 a b \<Longrightarrow> utf8_cont c \<Longrightarrow> utf8_valid (a # b # c # bs) = utf8_valid bs"
  using second_ranges(1) [of a b] by (simp add: word_less_nat_alt word_le_nat_alt)

lemma valid_four:
  "utf8_second4 a b \<Longrightarrow> utf8_cont c \<Longrightarrow> utf8_cont d \<Longrightarrow> utf8_valid (a # b # c # d # bs) = utf8_valid bs"
  using second_ranges [of a b] by (auto simp: word_less_nat_alt word_le_nat_alt)

lemmas valid_steps = valid_ascii valid_two valid_three valid_four valid_replacement
  valid_replacement [of "[]", simplified]

lemma if_all: "(b \<Longrightarrow> P x) \<Longrightarrow> (\<not> b \<Longrightarrow> P y) \<Longrightarrow> P (if b then x else y)"
  by simp

lemma valid_lossy: "utf8_valid (utf8_lossy v)"
proof (induction "length v" arbitrary: v rule: less_induct)
  case less
  note utf8_valid.simps(2) [simp del] utf8_lossy.simps(2) [simp del] and valid_steps [simp]
  show ?case
  proof (cases v)
    case (Cons a bs)
    have IH: "utf8_valid (utf8_lossy r)" if "length r \<le> length bs" for r
      using less that by (simp add: Cons)
    have two: "utf8_valid (case bs of
        b # r1 \<Rightarrow> if utf8_cont b then a # b # utf8_lossy r1 else replacement @ utf8_lossy bs
      | [] \<Rightarrow> replacement)" if "0xC2 \<le> a" "a \<le> 0xDF"
      using that by (cases bs) (simp_all add: IH)
    have three: "utf8_valid (case bs of
        b # r1 \<Rightarrow>
          if \<not> utf8_second3 a b then replacement @ utf8_lossy bs
          else (case r1 of
              c # r2 \<Rightarrow> if utf8_cont c then a # b # c # utf8_lossy r2 else replacement @ utf8_lossy r1
            | [] \<Rightarrow> replacement)
      | [] \<Rightarrow> replacement)"
      by (simp add: IH split: list.split)
    have four: "utf8_valid (case bs of
        b # r1 \<Rightarrow>
          if \<not> utf8_second4 a b then replacement @ utf8_lossy bs
          else (case r1 of
              c # r2 \<Rightarrow>
                if \<not> utf8_cont c then replacement @ utf8_lossy r1
                else (case r2 of
                    d # r3 \<Rightarrow> if utf8_cont d then a # b # c # d # utf8_lossy r3
                      else replacement @ utf8_lossy r2
                  | [] \<Rightarrow> replacement)
            | [] \<Rightarrow> replacement)
      | [] \<Rightarrow> replacement)"
      by (simp add: IH split: list.split)
    show ?thesis
      unfolding Cons utf8_lossy.simps(2) [of a bs]
      by (intro if_all [where P = utf8_valid]; (rule three four)?; (rule two)?) (simp_all add: IH)
  qed simp
qed

lemma lossy_of_valid: "utf8_valid v \<Longrightarrow> utf8_lossy v = v"
proof (induction "length v" arbitrary: v rule: less_induct)
  case less
  note utf8_valid.simps(2) [simp del] utf8_lossy.simps(2) [simp del]
  show ?case
  proof (cases v)
    case (Cons a bs)
    have IH: "utf8_valid r \<Longrightarrow> utf8_lossy r = r" if "length r \<le> length bs" for r
      using less(1) that by (simp add: Cons)
    have v: "utf8_valid (a # bs)" using less(2) by (simp add: Cons)
    show ?thesis
    proof (cases "a < 0x80 \<or> (0xC2 \<le> a \<and> a \<le> 0xDF)")
      case True
      then show ?thesis
        using v unfolding Cons utf8_lossy.simps(2) [of a bs] utf8_valid.simps(2) [of a bs]
        by (auto simp: IH split: list.splits if_splits)
    next
      case False
      with v obtain b c r2 where bs: "bs = b # c # r2" and
        r: "utf8_second3 a b \<and> utf8_cont c \<and> utf8_valid r2 \<or>
          \<not> utf8_second3 a b \<and> (\<exists>d r3. r2 = d # r3 \<and> utf8_second4 a b \<and> utf8_cont c \<and> utf8_cont d \<and> utf8_valid r3)"
        unfolding utf8_valid.simps(2) [of a bs]
        by (auto split: list.splits if_splits)
      show ?thesis
        using r
      proof
        assume "utf8_second3 a b \<and> utf8_cont c \<and> utf8_valid r2"
        then show ?thesis
          using False second_ranges(1) [of a b] unfolding Cons utf8_lossy.simps(2) [of a bs] by (auto simp: bs IH)
      next
        assume "\<not> utf8_second3 a b \<and> (\<exists>d r3. r2 = d # r3 \<and> utf8_second4 a b \<and> utf8_cont c \<and> utf8_cont d \<and> utf8_valid r3)"
        then obtain d r3 where r3: "r2 = d # r3" "utf8_second4 a b" "utf8_cont c" "utf8_cont d" "utf8_valid r3"
          by blast
        have "\<not> (0xE0 \<le> a \<and> a \<le> 0xEF)"
          using second_ranges(2) [OF r3(2)] by (auto simp: word_le_nat_alt)
        then show ?thesis
          using False r3 second_ranges(2) [OF r3(2)] unfolding Cons utf8_lossy.simps(2) [of a bs]
          by (auto simp: bs IH)
      qed
    qed
  qed simp
qed

definition parse_xdr_string :: "'z nom_scheme \<Rightarrow> string parser" where
  "parse_xdr_string N input = do {
     (input, len) \<leftarrow> nom_be_u32 N input;
     (input, s) \<leftarrow> mapped from_utf8_lossy (nom_take N (unat len) input);
     let padding = (4 - unat len mod 4) mod 4;
     (input, _) \<leftarrow> nom_take N padding input;
     Some (input, s)
   }"

section \<open>Records\<close>

text \<open>The loops of \<^verbatim>\<open>nom\<close> this parser uses, and \<^verbatim>\<open>map_res\<close> with a conversion of an enum.\<close>

record sflow_nom = nom +
  sf_count_samples :: "sample parser \<Rightarrow> nat \<Rightarrow> sample list parser"
  sf_count_flow_records :: "flow_record parser \<Rightarrow> nat \<Rightarrow> flow_record list parser"
  sf_count_counter_records :: "counter_record parser \<Rightarrow> nat \<Rightarrow> counter_record list parser"
  sf_count_segments :: "as_path_type parser \<Rightarrow> nat \<Rightarrow> as_path_type list parser"
  sf_count_u32 :: "u32 parser \<Rightarrow> nat \<Rightarrow> u32 list parser"

definition mapped_res :: "(u32 \<Rightarrow> 'a option) \<Rightarrow> (bytes \<times> u32) option \<Rightarrow> (bytes \<times> 'a) option" where
  "mapped_res f r = do {
     (rest, v) \<leftarrow> r;
     x \<leftarrow> f v;
     Some (rest, x)
   }"

definition parse_record_header :: "'z nom_scheme \<Rightarrow> record_header parser" where
  "parse_record_header N input = do {
     (input, data_format) \<leftarrow> nom_be_u32 N input;
     (input, len) \<leftarrow> nom_be_u32 N input;
     Some (input, \<lparr>rh_data_format = data_format, rh_length = len\<rparr>)
   }"

definition parse_sampled_header :: "'z nom_scheme \<Rightarrow> sampled_header parser" where
  "parse_sampled_header N input = do {
     (input, protocol) \<leftarrow> mapped_res header_protocol_try_from (nom_be_u32 N input);
     (input, frame_length) \<leftarrow> nom_be_u32 N input;
     (input, stripped) \<leftarrow> nom_be_u32 N input;
     (input, original_length) \<leftarrow> nom_be_u32 N input;
     (input, header) \<leftarrow> nom_take N (unat original_length) input;
     Some (input, \<lparr>hd_protocol = protocol, hd_frame_length = frame_length, hd_stripped = stripped,
       hd_header = header\<rparr>)
   }"

definition parse_padded_mac :: "'z nom_scheme \<Rightarrow> mac_addr6 parser" where
  "parse_padded_mac N input = do {
     (input, mac) \<leftarrow> macaddr6 N input;
     (input, _) \<leftarrow> nom_take N 2 input;
     Some (input, mac)
   }"

definition parse_sampled_ethernet :: "'z nom_scheme \<Rightarrow> sampled_ethernet parser" where
  "parse_sampled_ethernet N input = do {
     (input, len) \<leftarrow> nom_be_u32 N input;
     (input, src_mac) \<leftarrow> parse_padded_mac N input;
     (input, dst_mac) \<leftarrow> parse_padded_mac N input;
     (input, ethertype) \<leftarrow> nom_be_u32 N input;
     Some (input, \<lparr>eth_length = len, eth_src_mac = src_mac, eth_dst_mac = dst_mac, eth_type = ethertype\<rparr>)
   }"

definition parse_sampled_ipv4 :: "'z nom_scheme \<Rightarrow> sampled_ipv4 parser" where
  "parse_sampled_ipv4 N input = do {
     (input, len) \<leftarrow> nom_be_u32 N input;
     (input, protocol) \<leftarrow> nom_be_u32 N input;
     (input, src_ip) \<leftarrow> ipv4_addr N input;
     (input, dst_ip) \<leftarrow> ipv4_addr N input;
     (input, src_port) \<leftarrow> nom_be_u32 N input;
     (input, dst_port) \<leftarrow> nom_be_u32 N input;
     (input, tcp_flags) \<leftarrow> nom_be_u32 N input;
     (input, tos) \<leftarrow> nom_be_u32 N input;
     Some (input, \<lparr>s4_length = len, s4_protocol = protocol, s4_src_ip = src_ip, s4_dst_ip = dst_ip,
       s4_src_port = src_port, s4_dst_port = dst_port, s4_tcp_flags = tcp_flags,
       s4_tos = tos\<rparr>)
   }"

definition parse_sampled_ipv6 :: "'z nom_scheme \<Rightarrow> sampled_ipv6 parser" where
  "parse_sampled_ipv6 N input = do {
     (input, len) \<leftarrow> nom_be_u32 N input;
     (input, protocol) \<leftarrow> nom_be_u32 N input;
     (input, src_ip) \<leftarrow> ipv6_addr N input;
     (input, dst_ip) \<leftarrow> ipv6_addr N input;
     (input, src_port) \<leftarrow> nom_be_u32 N input;
     (input, dst_port) \<leftarrow> nom_be_u32 N input;
     (input, tcp_flags) \<leftarrow> nom_be_u32 N input;
     (input, priority) \<leftarrow> nom_be_u32 N input;
     Some (input, \<lparr>s6_length = len, s6_protocol = protocol, s6_src_ip = src_ip, s6_dst_ip = dst_ip,
       s6_src_port = src_port, s6_dst_port = dst_port, s6_tcp_flags = tcp_flags,
       s6_priority = priority\<rparr>)
   }"

definition parse_extended_switch :: "'z nom_scheme \<Rightarrow> extended_switch parser" where
  "parse_extended_switch N input = do {
     (input, src_vlan) \<leftarrow> nom_be_u32 N input;
     (input, src_priority) \<leftarrow> nom_be_u32 N input;
     (input, dst_vlan) \<leftarrow> nom_be_u32 N input;
     (input, dst_priority) \<leftarrow> nom_be_u32 N input;
     Some (input, \<lparr>sw_src_vlan = src_vlan, sw_src_priority = src_priority, sw_dst_vlan = dst_vlan,
       sw_dst_priority = dst_priority\<rparr>)
   }"

definition parse_address :: "'z nom_scheme \<Rightarrow> ip_addr option parser" where
  "parse_address N input = do {
     (input, address_type) \<leftarrow> nom_be_u32 N input;
     if address_type = UNKNOWN then Some (input, None)
     else if address_type = IPV4 then do {
       (input, addr) \<leftarrow> nom_be_u32 N input;
       Some (input, Some (V4 addr))
     }
     else if address_type = IPV6 then do {
       (input, addr) \<leftarrow> nom_be_u128 N input;
       Some (input, Some (V6 addr))
     }
     else None
   }"

definition parse_extended_router :: "'z nom_scheme \<Rightarrow> extended_router parser" where
  "parse_extended_router N input = do {
     (input, nexthop) \<leftarrow> parse_address N input;
     (input, src_mask) \<leftarrow> nom_be_u32 N input;
     (input, dst_mask) \<leftarrow> nom_be_u32 N input;
     Some (input, \<lparr>rt_nexthop = nexthop, rt_src_mask = src_mask, rt_dst_mask = dst_mask\<rparr>)
   }"

definition parse_as_path_segment :: "'z sflow_nom_scheme \<Rightarrow> as_path_type parser" where
  "parse_as_path_segment N input = do {
     (input, segment_type) \<leftarrow> mapped_res as_path_segment_type_try_from (nom_be_u32 N input);
     (input, len) \<leftarrow> nom_be_u32 N input;
     (input, ases) \<leftarrow> sf_count_u32 N (nom_be_u32 N) (unat len) input;
     Some (input, case segment_type of SegAsSet \<Rightarrow> AsSet (set ases) | SegAsSequence \<Rightarrow> AsSequence ases)
   }"

definition parse_extended_gateway :: "'z sflow_nom_scheme \<Rightarrow> extended_gateway parser" where
  "parse_extended_gateway N input = do {
     (input, nexthop) \<leftarrow> parse_address N input;
     (input, as_number) \<leftarrow> nom_be_u32 N input;
     (input, src_as) \<leftarrow> nom_be_u32 N input;
     (input, src_peer_as) \<leftarrow> nom_be_u32 N input;
     (input, dst_as_path_length) \<leftarrow> nom_be_u32 N input;
     (input, dst_as_path) \<leftarrow>
       sf_count_segments N (parse_as_path_segment N) (unat dst_as_path_length) input;
     (input, communities_length) \<leftarrow> nom_be_u32 N input;
     (input, communities) \<leftarrow> sf_count_u32 N (nom_be_u32 N) (unat communities_length) input;
     (input, localpref) \<leftarrow> nom_be_u32 N input;
     Some (input, \<lparr>gw_nexthop = nexthop, gw_as = as_number, gw_src_as = src_as,
       gw_src_peer_as = src_peer_as, gw_dst_as_path = dst_as_path, gw_communities = communities,
       gw_localpref = localpref\<rparr>)
   }"

definition parse_extended_user :: "'z nom_scheme \<Rightarrow> extended_user parser" where
  "parse_extended_user N input = do {
     (input, src_charset) \<leftarrow> nom_be_u32 N input;
     (input, src_user) \<leftarrow> parse_xdr_string N input;
     (input, dst_charset) \<leftarrow> nom_be_u32 N input;
     (input, dst_user) \<leftarrow> parse_xdr_string N input;
     Some (input, \<lparr>us_src_charset = src_charset, us_src_user = src_user, us_dst_charset = dst_charset,
       us_dst_user = dst_user\<rparr>)
   }"

definition parse_extended_url :: "'z nom_scheme \<Rightarrow> extended_url parser" where
  "parse_extended_url N input = do {
     (input, direction) \<leftarrow> mapped_res url_direction_try_from (nom_be_u32 N input);
     (input, url) \<leftarrow> parse_xdr_string N input;
     Some (input, \<lparr>url_direction = direction, url_url = url\<rparr>)
   }"

definition parse_extended_egress_queue :: "'z nom_scheme \<Rightarrow> extended_egress_queue parser" where
  "parse_extended_egress_queue N input = do {
     (input, queue) \<leftarrow> nom_be_u32 N input;
     Some (input, \<lparr>eq_queue = queue\<rparr>)
   }"

definition parse_extended_acl :: "'z nom_scheme \<Rightarrow> extended_acl parser" where
  "parse_extended_acl N input = do {
     (input, number) \<leftarrow> nom_be_u32 N input;
     (input, name) \<leftarrow> parse_xdr_string N input;
     (input, direction) \<leftarrow> mapped_res direction_try_from (nom_be_u32 N input);
     Some (input, \<lparr>acl_number = number, acl_name = name, acl_direction = direction\<rparr>)
   }"

definition parse_extended_function :: "'z nom_scheme \<Rightarrow> extended_function parser" where
  "parse_extended_function N input = do {
     (input, symbol) \<leftarrow> parse_xdr_string N input;
     Some (input, \<lparr>fun_symbol = symbol\<rparr>)
   }"

text \<open>What a flow record of a format holds; \<open>None\<close> is the error.\<close>

definition flow_record_data :: "'z sflow_nom_scheme \<Rightarrow> u32 \<Rightarrow> bytes \<Rightarrow> flow_record_type option" where
  "flow_record_data N format v =
     (case flow_type_try_from format of
        Some FtSampledHeader \<Rightarrow> map_option (SampledHeader \<circ> snd) (parse_sampled_header N v)
      | Some FtSampledEthernet \<Rightarrow> map_option (SampledEthernet \<circ> snd) (parse_sampled_ethernet N v)
      | Some FtSampledIpv4 \<Rightarrow> map_option (SampledIpv4 \<circ> snd) (parse_sampled_ipv4 N v)
      | Some FtSampledIpv6 \<Rightarrow> map_option (SampledIpv6 \<circ> snd) (parse_sampled_ipv6 N v)
      | Some FtExtendedSwitch \<Rightarrow> map_option (ExtendedSwitch \<circ> snd) (parse_extended_switch N v)
      | Some FtExtendedRouter \<Rightarrow> map_option (ExtendedRouter \<circ> snd) (parse_extended_router N v)
      | Some FtExtendedGateway \<Rightarrow> map_option (ExtendedGateway \<circ> snd) (parse_extended_gateway N v)
      | Some FtExtendedUser \<Rightarrow> map_option (ExtendedUser \<circ> snd) (parse_extended_user N v)
      | Some FtExtendedUrl \<Rightarrow> map_option (ExtendedUrl \<circ> snd) (parse_extended_url N v)
      | Some FtExtendedEgressQueue \<Rightarrow>
          map_option (ExtendedEgressQueue \<circ> snd) (parse_extended_egress_queue N v)
      | Some FtExtendedAcl \<Rightarrow> map_option (ExtendedAcl \<circ> snd) (parse_extended_acl N v)
      | Some FtExtendedFunction \<Rightarrow>
          map_option (ExtendedFunction \<circ> snd) (parse_extended_function N v)
      | None \<Rightarrow> Some (UnknownFlowRecord v))"

definition parse_flow_record :: "'z sflow_nom_scheme \<Rightarrow> flow_record parser" where
  "parse_flow_record N input = do {
     (input, header) \<leftarrow> parse_record_header N input;
     (input, data) \<leftarrow> nom_take N (unat (rh_length header)) input;
     let data = (case flow_record_data N (rh_data_format header) data of
                   None \<Rightarrow> UnknownFlowRecord data | Some d \<Rightarrow> d);
     Some (input, \<lparr>fr_header = header, fr_data = data\<rparr>)
   }"

definition parse_if_counters :: "'z nom_scheme \<Rightarrow> if_counters parser" where
  "parse_if_counters N input = do {
     (input, if_index) \<leftarrow> nom_be_u32 N input;
     (input, if_type) \<leftarrow> nom_be_u32 N input;
     (input, if_speed) \<leftarrow> nom_be_u64 N input;
     (input, if_direction) \<leftarrow> nom_be_u32 N input;
     (input, if_status) \<leftarrow> nom_be_u32 N input;
     (input, if_in_octets) \<leftarrow> nom_be_u64 N input;
     (input, if_in_ucast_pkts) \<leftarrow> nom_be_u32 N input;
     (input, if_in_multicast_pkts) \<leftarrow> nom_be_u32 N input;
     (input, if_in_broadcast_pkts) \<leftarrow> nom_be_u32 N input;
     (input, if_in_discards) \<leftarrow> nom_be_u32 N input;
     (input, if_in_errors) \<leftarrow> nom_be_u32 N input;
     (input, if_in_unknown_protos) \<leftarrow> nom_be_u32 N input;
     (input, if_out_octets) \<leftarrow> nom_be_u64 N input;
     (input, if_out_ucast_pkts) \<leftarrow> nom_be_u32 N input;
     (input, if_out_multicast_pkts) \<leftarrow> nom_be_u32 N input;
     (input, if_out_broadcast_pkts) \<leftarrow> nom_be_u32 N input;
     (input, if_out_discards) \<leftarrow> nom_be_u32 N input;
     (input, if_out_errors) \<leftarrow> nom_be_u32 N input;
     (input, if_promiscuous_mode) \<leftarrow> nom_be_u32 N input;
     Some (input, \<lparr>ic_if_index = if_index, ic_if_type = if_type, ic_if_speed = if_speed,
       ic_if_direction = if_direction, ic_if_status = if_status,
       ic_if_in_octets = if_in_octets, ic_if_in_ucast_pkts = if_in_ucast_pkts,
       ic_if_in_multicast_pkts = if_in_multicast_pkts,
       ic_if_in_broadcast_pkts = if_in_broadcast_pkts, ic_if_in_discards = if_in_discards,
       ic_if_in_errors = if_in_errors, ic_if_in_unknown_protos = if_in_unknown_protos,
       ic_if_out_octets = if_out_octets, ic_if_out_ucast_pkts = if_out_ucast_pkts,
       ic_if_out_multicast_pkts = if_out_multicast_pkts,
       ic_if_out_broadcast_pkts = if_out_broadcast_pkts,
       ic_if_out_discards = if_out_discards, ic_if_out_errors = if_out_errors,
       ic_if_promiscuous_mode = if_promiscuous_mode\<rparr>)
   }"

definition parse_ethernet_counters :: "'z nom_scheme \<Rightarrow> ethernet_counters parser" where
  "parse_ethernet_counters N input = do {
     (input, dot3_stats_alignment_errors) \<leftarrow> nom_be_u32 N input;
     (input, dot3_stats_fcs_errors) \<leftarrow> nom_be_u32 N input;
     (input, dot3_stats_single_collision_frames) \<leftarrow> nom_be_u32 N input;
     (input, dot3_stats_multiple_collision_frames) \<leftarrow> nom_be_u32 N input;
     (input, dot3_stats_sqetest_errors) \<leftarrow> nom_be_u32 N input;
     (input, dot3_stats_deferred_transmissions) \<leftarrow> nom_be_u32 N input;
     (input, dot3_stats_late_collisions) \<leftarrow> nom_be_u32 N input;
     (input, dot3_stats_excessive_collisions) \<leftarrow> nom_be_u32 N input;
     (input, dot3_stats_internal_mac_transmit_errors) \<leftarrow> nom_be_u32 N input;
     (input, dot3_stats_carrier_sense_errors) \<leftarrow> nom_be_u32 N input;
     (input, dot3_stats_frame_too_longs) \<leftarrow> nom_be_u32 N input;
     (input, dot3_stats_internal_mac_receive_errors) \<leftarrow> nom_be_u32 N input;
     (input, dot3_stats_symbol_errors) \<leftarrow> nom_be_u32 N input;
     Some (input, \<lparr>ec_dot3_stats_alignment_errors = dot3_stats_alignment_errors,
       ec_dot3_stats_fcs_errors = dot3_stats_fcs_errors,
       ec_dot3_stats_single_collision_frames = dot3_stats_single_collision_frames,
       ec_dot3_stats_multiple_collision_frames = dot3_stats_multiple_collision_frames,
       ec_dot3_stats_sqetest_errors = dot3_stats_sqetest_errors,
       ec_dot3_stats_deferred_transmissions = dot3_stats_deferred_transmissions,
       ec_dot3_stats_late_collisions = dot3_stats_late_collisions,
       ec_dot3_stats_excessive_collisions = dot3_stats_excessive_collisions,
       ec_dot3_stats_internal_mac_transmit_errors = dot3_stats_internal_mac_transmit_errors,
       ec_dot3_stats_carrier_sense_errors = dot3_stats_carrier_sense_errors,
       ec_dot3_stats_frame_too_longs = dot3_stats_frame_too_longs,
       ec_dot3_stats_internal_mac_receive_errors = dot3_stats_internal_mac_receive_errors,
       ec_dot3_stats_symbol_errors = dot3_stats_symbol_errors\<rparr>)
   }"

definition parse_tokenring_counters :: "'z nom_scheme \<Rightarrow> tokenring_counters parser" where
  "parse_tokenring_counters N input = do {
     (input, dot5_stats_line_errors) \<leftarrow> nom_be_u32 N input;
     (input, dot5_stats_burst_errors) \<leftarrow> nom_be_u32 N input;
     (input, dot5_stats_ac_errors) \<leftarrow> nom_be_u32 N input;
     (input, dot5_stats_abort_trans_errors) \<leftarrow> nom_be_u32 N input;
     (input, dot5_stats_internal_errors) \<leftarrow> nom_be_u32 N input;
     (input, dot5_stats_lost_frame_errors) \<leftarrow> nom_be_u32 N input;
     (input, dot5_stats_receive_congestions) \<leftarrow> nom_be_u32 N input;
     (input, dot5_stats_frame_copied_errors) \<leftarrow> nom_be_u32 N input;
     (input, dot5_stats_token_errors) \<leftarrow> nom_be_u32 N input;
     (input, dot5_stats_soft_errors) \<leftarrow> nom_be_u32 N input;
     (input, dot5_stats_hard_errors) \<leftarrow> nom_be_u32 N input;
     (input, dot5_stats_signal_loss) \<leftarrow> nom_be_u32 N input;
     (input, dot5_stats_transmit_beacons) \<leftarrow> nom_be_u32 N input;
     (input, dot5_stats_recoveries) \<leftarrow> nom_be_u32 N input;
     (input, dot5_stats_lobe_wires) \<leftarrow> nom_be_u32 N input;
     (input, dot5_stats_removes) \<leftarrow> nom_be_u32 N input;
     (input, dot5_stats_singles) \<leftarrow> nom_be_u32 N input;
     (input, dot5_stats_freq_errors) \<leftarrow> nom_be_u32 N input;
     Some (input, \<lparr>tk_dot5_stats_line_errors = dot5_stats_line_errors,
       tk_dot5_stats_burst_errors = dot5_stats_burst_errors,
       tk_dot5_stats_ac_errors = dot5_stats_ac_errors,
       tk_dot5_stats_abort_trans_errors = dot5_stats_abort_trans_errors,
       tk_dot5_stats_internal_errors = dot5_stats_internal_errors,
       tk_dot5_stats_lost_frame_errors = dot5_stats_lost_frame_errors,
       tk_dot5_stats_receive_congestions = dot5_stats_receive_congestions,
       tk_dot5_stats_frame_copied_errors = dot5_stats_frame_copied_errors,
       tk_dot5_stats_token_errors = dot5_stats_token_errors,
       tk_dot5_stats_soft_errors = dot5_stats_soft_errors,
       tk_dot5_stats_hard_errors = dot5_stats_hard_errors,
       tk_dot5_stats_signal_loss = dot5_stats_signal_loss,
       tk_dot5_stats_transmit_beacons = dot5_stats_transmit_beacons,
       tk_dot5_stats_recoveries = dot5_stats_recoveries,
       tk_dot5_stats_lobe_wires = dot5_stats_lobe_wires,
       tk_dot5_stats_removes = dot5_stats_removes,
       tk_dot5_stats_singles = dot5_stats_singles,
       tk_dot5_stats_freq_errors = dot5_stats_freq_errors\<rparr>)
   }"

definition parse_vg_counters :: "'z nom_scheme \<Rightarrow> vg_counters parser" where
  "parse_vg_counters N input = do {
     (input, dot12_in_high_priority_frames) \<leftarrow> nom_be_u32 N input;
     (input, dot12_in_high_priority_octets) \<leftarrow> nom_be_u64 N input;
     (input, dot12_in_norm_priority_frames) \<leftarrow> nom_be_u32 N input;
     (input, dot12_in_norm_priority_octets) \<leftarrow> nom_be_u64 N input;
     (input, dot12_in_ipm_errors) \<leftarrow> nom_be_u32 N input;
     (input, dot12_in_oversize_frame_errors) \<leftarrow> nom_be_u32 N input;
     (input, dot12_in_data_errors) \<leftarrow> nom_be_u32 N input;
     (input, dot12_in_null_addressed_frames) \<leftarrow> nom_be_u32 N input;
     (input, dot12_out_high_priority_frames) \<leftarrow> nom_be_u32 N input;
     (input, dot12_out_high_priority_octets) \<leftarrow> nom_be_u64 N input;
     (input, dot12_transition_into_training) \<leftarrow> nom_be_u32 N input;
     (input, dot12_hc_in_high_priority_octets) \<leftarrow> nom_be_u64 N input;
     (input, dot12_hc_in_norm_priority_octets) \<leftarrow> nom_be_u64 N input;
     (input, dot12_hc_out_high_priority_octets) \<leftarrow> nom_be_u64 N input;
     Some (input, \<lparr>vg_dot12_in_high_priority_frames = dot12_in_high_priority_frames,
       vg_dot12_in_high_priority_octets = dot12_in_high_priority_octets,
       vg_dot12_in_norm_priority_frames = dot12_in_norm_priority_frames,
       vg_dot12_in_norm_priority_octets = dot12_in_norm_priority_octets,
       vg_dot12_in_ipm_errors = dot12_in_ipm_errors,
       vg_dot12_in_oversize_frame_errors = dot12_in_oversize_frame_errors,
       vg_dot12_in_data_errors = dot12_in_data_errors,
       vg_dot12_in_null_addressed_frames = dot12_in_null_addressed_frames,
       vg_dot12_out_high_priority_frames = dot12_out_high_priority_frames,
       vg_dot12_out_high_priority_octets = dot12_out_high_priority_octets,
       vg_dot12_transition_into_training = dot12_transition_into_training,
       vg_dot12_hc_in_high_priority_octets = dot12_hc_in_high_priority_octets,
       vg_dot12_hc_in_norm_priority_octets = dot12_hc_in_norm_priority_octets,
       vg_dot12_hc_out_high_priority_octets = dot12_hc_out_high_priority_octets\<rparr>)
   }"

definition parse_vlan_counters :: "'z nom_scheme \<Rightarrow> vlan_counters parser" where
  "parse_vlan_counters N input = do {
     (input, vlan_id) \<leftarrow> nom_be_u32 N input;
     (input, octets) \<leftarrow> nom_be_u64 N input;
     (input, ucast_pkts) \<leftarrow> nom_be_u32 N input;
     (input, multicast_pkts) \<leftarrow> nom_be_u32 N input;
     (input, broadcast_pkts) \<leftarrow> nom_be_u32 N input;
     (input, discards) \<leftarrow> nom_be_u32 N input;
     Some (input, \<lparr>vl_vlan_id = vlan_id, vl_octets = octets, vl_ucast_pkts = ucast_pkts,
       vl_multicast_pkts = multicast_pkts, vl_broadcast_pkts = broadcast_pkts,
       vl_discards = discards\<rparr>)
   }"

definition parse_processor :: "'z nom_scheme \<Rightarrow> processor parser" where
  "parse_processor N input = do {
     (input, avg_5s_cpu) \<leftarrow> nom_be_i32 N input;
     (input, avg_1m_cpu) \<leftarrow> nom_be_i32 N input;
     (input, avg_5m_cpu) \<leftarrow> nom_be_i32 N input;
     (input, total_memory) \<leftarrow> nom_be_u64 N input;
     (input, free_memory) \<leftarrow> nom_be_u64 N input;
     Some (input, \<lparr>pr_avg_5s_cpu = avg_5s_cpu, pr_avg_1m_cpu = avg_1m_cpu, pr_avg_5m_cpu = avg_5m_cpu,
       pr_total_memory = total_memory, pr_free_memory = free_memory\<rparr>)
   }"

definition counter_record_data :: "'z nom_scheme \<Rightarrow> u32 \<Rightarrow> bytes \<Rightarrow> counter_record_type option" where
  "counter_record_data N format data =
     (case counter_type_try_from format of
        Some CtIfCounters \<Rightarrow> map_option (IfCounters \<circ> snd) (parse_if_counters N data)
      | Some CtEthernetCounters \<Rightarrow>
          map_option (EthernetCounters \<circ> snd) (parse_ethernet_counters N data)
      | Some CtTokenringCounters \<Rightarrow>
          map_option (TokenringCounters \<circ> snd) (parse_tokenring_counters N data)
      | Some CtVgCounters \<Rightarrow> map_option (VgCounters \<circ> snd) (parse_vg_counters N data)
      | Some CtVlanCounters \<Rightarrow> map_option (VlanCounters \<circ> snd) (parse_vlan_counters N data)
      | Some CtProcessor \<Rightarrow> map_option (ProcessorRecord \<circ> snd) (parse_processor N data)
      | None \<Rightarrow> Some (UnknownCounterRecord data))"

definition parse_counter_record :: "'z nom_scheme \<Rightarrow> counter_record parser" where
  "parse_counter_record N input = do {
     (input, header) \<leftarrow> parse_record_header N input;
     (input, data) \<leftarrow> nom_take N (unat (rh_length header)) input;
     let r = (case counter_record_data N (rh_data_format header) data of
                None \<Rightarrow> UnknownCounterRecord data | Some d \<Rightarrow> d);
     Some (input, \<lparr>cr_header = header, cr_data = [r]\<rparr>)
   }"

section \<open>Samples\<close>

definition parse_sample_header :: "'z nom_scheme \<Rightarrow> sample_header parser" where
  "parse_sample_header N input = do {
     (input, format) \<leftarrow> nom_be_u32 N input;
     (input, len) \<leftarrow> nom_be_u32 N input;
     (input, sample_sequence_number) \<leftarrow> nom_be_u32 N input;
     (input, source_id_type, source_id_value) \<leftarrow>
       (case sample_format_try_from format of
          None \<Rightarrow> None
        | Some f \<Rightarrow>
            if f = SfFlow \<or> f = SfCounter then do {
              (input, source_id) \<leftarrow> nom_be_u32 N input;
              let source_id_type = drop_bit 24 source_id;
              let source_id_value = source_id AND 0x00ffffff;
              Some (input, source_id_type, source_id_value)
            }
            else do {
              (input, source_id_type) \<leftarrow> nom_be_u32 N input;
              (input, source_id_value) \<leftarrow> nom_be_u32 N input;
              Some (input, source_id_type, source_id_value)
            });
     Some (input, \<lparr>sh_format = format, sh_length = len,
       sh_sample_sequence_number = sample_sequence_number, sh_source_id_type = source_id_type,
       sh_source_id_value = source_id_value\<rparr>)
   }"

definition parse_flow_sample :: "'z sflow_nom_scheme \<Rightarrow> flow_sample parser" where
  "parse_flow_sample N input = do {
     (input, header) \<leftarrow> parse_sample_header N input;
     (input, sampling_rate) \<leftarrow> nom_be_u32 N input;
     (input, sample_pool) \<leftarrow> nom_be_u32 N input;
     (input, drops) \<leftarrow> nom_be_u32 N input;
     (input, input_if) \<leftarrow> nom_be_u32 N input;
     (input, output) \<leftarrow> nom_be_u32 N input;
     (input, flow_records_count) \<leftarrow> nom_be_u32 N input;
     (input, records) \<leftarrow> sf_count_flow_records N (parse_flow_record N) (unat flow_records_count) input;
     Some (input, \<lparr>fl_header = header, fl_sampling_rate = sampling_rate, fl_sample_pool = sample_pool,
       fl_drops = drops, fl_input = input_if, fl_output = output, fl_records = records\<rparr>)
   }"

definition parse_counter_sample :: "'z sflow_nom_scheme \<Rightarrow> counter_sample parser" where
  "parse_counter_sample N input = do {
     (input, header) \<leftarrow> parse_sample_header N input;
     (input, records_count) \<leftarrow> nom_be_u32 N input;
     (input, records) \<leftarrow> sf_count_counter_records N (parse_counter_record N) (unat records_count) input;
     Some (input, \<lparr>cs_header = header, cs_records = records\<rparr>)
   }"

definition parse_expanded_flow_sample :: "'z sflow_nom_scheme \<Rightarrow> expanded_flow_sample parser" where
  "parse_expanded_flow_sample N input = do {
     (input, header) \<leftarrow> parse_sample_header N input;
     (input, sampling_rate) \<leftarrow> nom_be_u32 N input;
     (input, sample_pool) \<leftarrow> nom_be_u32 N input;
     (input, drops) \<leftarrow> nom_be_u32 N input;
     (input, input_if_format) \<leftarrow> nom_be_u32 N input;
     (input, input_if_value) \<leftarrow> nom_be_u32 N input;
     (input, output_if_format) \<leftarrow> nom_be_u32 N input;
     (input, output_if_value) \<leftarrow> nom_be_u32 N input;
     (input, flow_records_count) \<leftarrow> nom_be_u32 N input;
     (input, records) \<leftarrow> sf_count_flow_records N (parse_flow_record N) (unat flow_records_count) input;
     Some (input, \<lparr>ef_header = header, ef_sampling_rate = sampling_rate, ef_sample_pool = sample_pool,
       ef_drops = drops, ef_input_if_format = input_if_format, ef_input_if_value = input_if_value,
       ef_output_if_format = output_if_format, ef_output_if_value = output_if_value,
       ef_records = records\<rparr>)
   }"

definition parse_drop_sample :: "'z sflow_nom_scheme \<Rightarrow> drop_sample parser" where
  "parse_drop_sample N input = do {
     (input, header) \<leftarrow> parse_sample_header N input;
     (input, drops) \<leftarrow> nom_be_u32 N input;
     (input, input_if) \<leftarrow> nom_be_u32 N input;
     (input, output) \<leftarrow> nom_be_u32 N input;
     (input, reason) \<leftarrow> mapped drop_reason_from (nom_be_u32 N input);
     (input, records_count) \<leftarrow> nom_be_u32 N input;
     (input, records) \<leftarrow> sf_count_flow_records N (parse_flow_record N) (unat records_count) input;
     Some (input, \<lparr>ds_header = header, ds_drops = drops, ds_input = input_if, ds_output = output,
       ds_reason = reason, ds_records = records\<rparr>)
   }"

text \<open>The two halves of \<^verbatim>\<open>parse_sample\<close>: what the bytes of a sample hold, and cutting them out. The sum
  of the length and 8 is below the bound of a 64-bit \<^verbatim>\<open>usize\<close>, so it does not saturate.\<close>

definition sample_data :: "'z sflow_nom_scheme \<Rightarrow> u32 \<Rightarrow> bytes \<Rightarrow> sample" where
  "sample_data N format s =
     (let unknown = UnknownSample (drop 8 s);
          parsed = (case sample_format_try_from format of
              Some SfFlow \<Rightarrow> map_option (FlowOf \<circ> snd) (parse_flow_sample N s)
            | Some SfCounter \<Rightarrow> map_option (CounterOf \<circ> snd) (parse_counter_sample N s)
            | Some SfExpandedFlow \<Rightarrow> map_option (ExpandedFlowOf \<circ> snd) (parse_expanded_flow_sample N s)
            | Some SfExpandedCounter \<Rightarrow> map_option (ExpandedCounterOf \<circ> snd) (parse_counter_sample N s)
            | Some SfDrop \<Rightarrow> map_option (DropOf \<circ> snd) (parse_drop_sample N s)
            | None \<Rightarrow> Some unknown)
      in case parsed of None \<Rightarrow> unknown | Some v \<Rightarrow> v)"

definition parse_sample :: "'z sflow_nom_scheme \<Rightarrow> sample parser" where
  "parse_sample N input = do {
     (peeked, format) \<leftarrow> nom_be_u32 N input;
     (_, len) \<leftarrow> nom_be_u32 N peeked;
     (input, s) \<leftarrow> nom_take N (unat len + 8) input;
     Some (input, sample_data N format s)
   }"

definition parse_sflow_v5 :: "'z sflow_nom_scheme \<Rightarrow> sflow_v5 parser" where
  "parse_sflow_v5 N input = do {
     (input, version) \<leftarrow> nom_be_u32 N input;
     _ \<leftarrow> (if version = SFLOW_V5_VERSION then Some () else None);
     (input, agent_address) \<leftarrow> parse_address N input;
     (input, sub_agent_id) \<leftarrow> nom_be_u32 N input;
     (input, sequence_number) \<leftarrow> nom_be_u32 N input;
     (input, uptime) \<leftarrow> nom_be_u32 N input;
     (input, sample_count) \<leftarrow> nom_be_u32 N input;
     (input, samples) \<leftarrow> sf_count_samples N (parse_sample N) (unat sample_count) input;
     Some (input, \<lparr>sf_version = version, sf_agent_address = agent_address,
       sf_sub_agent_id = sub_agent_id, sf_sequence_number = sequence_number, sf_uptime = uptime,
       sf_samples = samples\<rparr>)
   }"

section \<open>What parsers accept\<close>

text \<open>
  A sample or record on the wire: its format, the length of its contents, and the contents. The
  parsers accept exactly what is written so, and the next one starts where it ends.
\<close>

definition frame :: "u32 \<times> bytes \<Rightarrow> bytes" where
  "frame fc = to_be_bytes (fst fc) @ to_be_bytes (word_of_nat (length (snd fc)) :: u32) @ snd fc"

definition frame_ok :: "u32 \<times> bytes \<Rightarrow> bool" where
  "frame_ok fc \<longleftrightarrow> length (snd fc) < 2 ^ 32"

definition address_bytes :: "ip_addr option \<Rightarrow> bytes" where
  "address_bytes a = (case a of
       None \<Rightarrow> to_be_bytes UNKNOWN
     | Some (V4 w) \<Rightarrow> to_be_bytes IPV4 @ to_be_bytes w
     | Some (V6 w) \<Rightarrow> to_be_bytes IPV6 @ to_be_bytes w)"

definition flow_contents :: "'z sflow_nom_scheme \<Rightarrow> u32 \<times> bytes \<Rightarrow> flow_record" where
  "flow_contents N fc = \<lparr>fr_header = \<lparr>rh_data_format = fst fc, rh_length = word_of_nat (length (snd fc))\<rparr>,
     fr_data = (case flow_record_data N (fst fc) (snd fc) of None \<Rightarrow> UnknownFlowRecord (snd fc) | Some d \<Rightarrow> d)\<rparr>"

definition counter_contents :: "'z nom_scheme \<Rightarrow> u32 \<times> bytes \<Rightarrow> counter_record" where
  "counter_contents N fc = \<lparr>cr_header = \<lparr>rh_data_format = fst fc, rh_length = word_of_nat (length (snd fc))\<rparr>,
     cr_data = [case counter_record_data N (fst fc) (snd fc) of None \<Rightarrow> UnknownCounterRecord (snd fc) | Some d \<Rightarrow> d]\<rparr>"

text \<open>The number of frames and the frames.\<close>

definition frames_ok :: "(u32 \<times> bytes) list \<Rightarrow> bool" where
  "frames_ok fs \<longleftrightarrow> length fs < 2 ^ 32 \<and> (\<forall>fc\<in>set fs. frame_ok fc)"

definition frames_bytes :: "(u32 \<times> bytes) list \<Rightarrow> bytes" where
  "frames_bytes fs = to_be_bytes (word_of_nat (length fs) :: u32) @ concat (map frame fs)"

definition datagram_bytes :: "sflow_v5 \<Rightarrow> (u32 \<times> bytes) list \<Rightarrow> bytes" where
  "datagram_bytes p fs = to_be_bytes (sf_version p) @ address_bytes (sf_agent_address p) @
     to_be_bytes (sf_sub_agent_id p) @ to_be_bytes (sf_sequence_number p) @ to_be_bytes (sf_uptime p) @
     frames_bytes fs"

definition counter_body :: "counter_sample \<Rightarrow> (u32 \<times> bytes) list \<Rightarrow> bytes" where
  "counter_body s fs =
     frames_bytes fs"

definition flow_body :: "flow_sample \<Rightarrow> (u32 \<times> bytes) list \<Rightarrow> bytes" where
  "flow_body s fs =
     to_be_bytes (fl_sampling_rate s) @ to_be_bytes (fl_sample_pool s) @
     to_be_bytes (fl_drops s) @ to_be_bytes (fl_input s) @ to_be_bytes (fl_output s) @ frames_bytes fs"

definition expanded_body :: "expanded_flow_sample \<Rightarrow> (u32 \<times> bytes) list \<Rightarrow> bytes" where
  "expanded_body s fs =
     to_be_bytes (ef_sampling_rate s) @ to_be_bytes (ef_sample_pool s) @
     to_be_bytes (ef_drops s) @ to_be_bytes (ef_input_if_format s) @
     to_be_bytes (ef_input_if_value s) @ to_be_bytes (ef_output_if_format s) @
     to_be_bytes (ef_output_if_value s) @ frames_bytes fs"

definition drop_body :: "u32 \<Rightarrow> drop_sample \<Rightarrow> (u32 \<times> bytes) list \<Rightarrow> bytes" where
  "drop_body reason s fs = to_be_bytes (ds_drops s) @ to_be_bytes (ds_input s) @ to_be_bytes (ds_output s) @
     to_be_bytes reason @ frames_bytes fs"

text \<open>The counters of a record in the order they are sent, and the length of the fixed part.\<close>

definition if_counters_bytes :: "if_counters \<Rightarrow> bytes" where
  "if_counters_bytes c =
     to_be_bytes (ic_if_index c) @ to_be_bytes (ic_if_type c) @ to_be_bytes (ic_if_speed c) @
     to_be_bytes (ic_if_direction c) @ to_be_bytes (ic_if_status c) @
     to_be_bytes (ic_if_in_octets c) @ to_be_bytes (ic_if_in_ucast_pkts c) @
     to_be_bytes (ic_if_in_multicast_pkts c) @ to_be_bytes (ic_if_in_broadcast_pkts c) @
     to_be_bytes (ic_if_in_discards c) @ to_be_bytes (ic_if_in_errors c) @
     to_be_bytes (ic_if_in_unknown_protos c) @ to_be_bytes (ic_if_out_octets c) @
     to_be_bytes (ic_if_out_ucast_pkts c) @ to_be_bytes (ic_if_out_multicast_pkts c) @
     to_be_bytes (ic_if_out_broadcast_pkts c) @ to_be_bytes (ic_if_out_discards c) @
     to_be_bytes (ic_if_out_errors c) @ to_be_bytes (ic_if_promiscuous_mode c)"

definition ethernet_counters_bytes :: "ethernet_counters \<Rightarrow> bytes" where
  "ethernet_counters_bytes c =
     to_be_bytes (ec_dot3_stats_alignment_errors c) @ to_be_bytes (ec_dot3_stats_fcs_errors c) @
     to_be_bytes (ec_dot3_stats_single_collision_frames c) @
     to_be_bytes (ec_dot3_stats_multiple_collision_frames c) @
     to_be_bytes (ec_dot3_stats_sqetest_errors c) @
     to_be_bytes (ec_dot3_stats_deferred_transmissions c) @
     to_be_bytes (ec_dot3_stats_late_collisions c) @
     to_be_bytes (ec_dot3_stats_excessive_collisions c) @
     to_be_bytes (ec_dot3_stats_internal_mac_transmit_errors c) @
     to_be_bytes (ec_dot3_stats_carrier_sense_errors c) @
     to_be_bytes (ec_dot3_stats_frame_too_longs c) @
     to_be_bytes (ec_dot3_stats_internal_mac_receive_errors c) @
     to_be_bytes (ec_dot3_stats_symbol_errors c)"

definition tokenring_counters_bytes :: "tokenring_counters \<Rightarrow> bytes" where
  "tokenring_counters_bytes c =
     to_be_bytes (tk_dot5_stats_line_errors c) @ to_be_bytes (tk_dot5_stats_burst_errors c) @
     to_be_bytes (tk_dot5_stats_ac_errors c) @ to_be_bytes (tk_dot5_stats_abort_trans_errors c) @
     to_be_bytes (tk_dot5_stats_internal_errors c) @
     to_be_bytes (tk_dot5_stats_lost_frame_errors c) @
     to_be_bytes (tk_dot5_stats_receive_congestions c) @
     to_be_bytes (tk_dot5_stats_frame_copied_errors c) @
     to_be_bytes (tk_dot5_stats_token_errors c) @ to_be_bytes (tk_dot5_stats_soft_errors c) @
     to_be_bytes (tk_dot5_stats_hard_errors c) @ to_be_bytes (tk_dot5_stats_signal_loss c) @
     to_be_bytes (tk_dot5_stats_transmit_beacons c) @ to_be_bytes (tk_dot5_stats_recoveries c) @
     to_be_bytes (tk_dot5_stats_lobe_wires c) @ to_be_bytes (tk_dot5_stats_removes c) @
     to_be_bytes (tk_dot5_stats_singles c) @ to_be_bytes (tk_dot5_stats_freq_errors c)"

definition vg_counters_bytes :: "vg_counters \<Rightarrow> bytes" where
  "vg_counters_bytes c =
     to_be_bytes (vg_dot12_in_high_priority_frames c) @
     to_be_bytes (vg_dot12_in_high_priority_octets c) @
     to_be_bytes (vg_dot12_in_norm_priority_frames c) @
     to_be_bytes (vg_dot12_in_norm_priority_octets c) @ to_be_bytes (vg_dot12_in_ipm_errors c) @
     to_be_bytes (vg_dot12_in_oversize_frame_errors c) @
     to_be_bytes (vg_dot12_in_data_errors c) @
     to_be_bytes (vg_dot12_in_null_addressed_frames c) @
     to_be_bytes (vg_dot12_out_high_priority_frames c) @
     to_be_bytes (vg_dot12_out_high_priority_octets c) @
     to_be_bytes (vg_dot12_transition_into_training c) @
     to_be_bytes (vg_dot12_hc_in_high_priority_octets c) @
     to_be_bytes (vg_dot12_hc_in_norm_priority_octets c) @
     to_be_bytes (vg_dot12_hc_out_high_priority_octets c)"

definition vlan_counters_bytes :: "vlan_counters \<Rightarrow> bytes" where
  "vlan_counters_bytes c =
     to_be_bytes (vl_vlan_id c) @ to_be_bytes (vl_octets c) @ to_be_bytes (vl_ucast_pkts c) @
     to_be_bytes (vl_multicast_pkts c) @ to_be_bytes (vl_broadcast_pkts c) @
     to_be_bytes (vl_discards c)"

definition processor_bytes :: "processor \<Rightarrow> bytes" where
  "processor_bytes c =
     to_be_bytes (pr_avg_5s_cpu c) @ to_be_bytes (pr_avg_1m_cpu c) @
     to_be_bytes (pr_avg_5m_cpu c) @ to_be_bytes (pr_total_memory c) @
     to_be_bytes (pr_free_memory c)"

text \<open>\<open>p\<close> accepts exactly the encodings of the elements that are \<open>ok\<close>, as \<open>g\<close> of them.\<close>

definition accepts :: "'a parser \<Rightarrow> ('e \<Rightarrow> bool) \<Rightarrow> ('e \<Rightarrow> bytes) \<Rightarrow> ('e \<Rightarrow> 'a) \<Rightarrow> bool" where
  "accepts p ok enc g \<longleftrightarrow>
     (\<forall>i i' x. p i = Some (i', x) \<longleftrightarrow> (\<exists>e. ok e \<and> i = enc e @ i' \<and> x = g e))"

lemma acceptsD: "accepts p ok enc g \<Longrightarrow> p i = Some (i', x) \<longleftrightarrow> (\<exists>e. ok e \<and> i = enc e @ i' \<and> x = g e)"
  unfolding accepts_def by blast

lemma accepts_nonincr: "accepts p ok enc g \<Longrightarrow> nonincr p"
  by (rule nonincrI) (auto simp: acceptsD)

lemma ex_length_Suc: "(\<exists>xs. length xs = Suc n \<and> P xs) \<longleftrightarrow> (\<exists>x xs. length xs = n \<and> P (x # xs))"
  by (metis length_Suc_conv)

lemma accepts_count:
  assumes "accepts p ok enc g"
  shows "accepts (count_loop p n) (\<lambda>es. length es = n \<and> (\<forall>e\<in>set es. ok e)) (\<lambda>es. concat (map enc es)) (map g)"
proof -
  have "count_loop p n i = Some (i', xs) \<longleftrightarrow>
      (\<exists>es. (length es = n \<and> (\<forall>e\<in>set es. ok e)) \<and> i = concat (map enc es) @ i' \<and> xs = map g es)" for i i' xs
  proof (induction n arbitrary: i xs)
    case (Suc n)
    have "count_loop p (Suc n) i = Some (i', xs) \<longleftrightarrow>
        (\<exists>i1 x ys. p i = Some (i1, x) \<and> count_loop p n i1 = Some (i', ys) \<and> xs = x # ys)"
      by (auto simp: bind_eq_Some_conv)
    also have "\<dots> \<longleftrightarrow>
        (\<exists>e es. ok e \<and> (length es = n \<and> (\<forall>e\<in>set es. ok e)) \<and> i = enc e @ concat (map enc es) @ i' \<and>
          xs = g e # map g es)"
      unfolding acceptsD [OF assms] Suc.IH by blast
    also have "\<dots> \<longleftrightarrow> (\<exists>es. (length es = Suc n \<and> (\<forall>e\<in>set es. ok e)) \<and> i = concat (map enc es) @ i' \<and> xs = map g es)"
      unfolding conj_assoc ex_length_Suc by (simp, blast)
    finally show ?case .
  qed auto
  then show ?thesis unfolding accepts_def by blast
qed

locale sflow_nom_spec = nom_spec N for N :: "'z sflow_nom_scheme" +
  assumes count_samples_spec: "is_count (sf_count_samples N)"
    and count_flow_records_spec: "is_count (sf_count_flow_records N)"
    and count_counter_records_spec: "is_count (sf_count_counter_records N)"
    and count_segments_spec: "is_count (sf_count_segments N)"
    and count_u32_spec: "is_count (sf_count_u32 N)"
begin

lemma read_iff:
  assumes "8 * n = LENGTH('a::len)"
  shows "be_read n i = Some (i', w :: 'a word) \<longleftrightarrow> i = to_be_bytes w @ i'"
proof
  assume "be_read n i = Some (i', w)"
  then have "n \<le> length i" "i' = drop n i" "w = from_be_bytes (take n i)"
    by (auto simp: be_read_def split: if_splits)
  then show "i = to_be_bytes w @ i'"
    using assms by (simp add: to_from_be_bytes)
qed (use assms in \<open>simp add: be_read_append\<close>)

lemma reads_iff:
  "nom_be_u32 N i = Some (i', w32) \<longleftrightarrow> i = to_be_bytes w32 @ i'"
  "nom_be_u64 N i = Some (i', w64) \<longleftrightarrow> i = to_be_bytes w64 @ i'"
  "nom_be_u128 N i = Some (i', w128) \<longleftrightarrow> i = to_be_bytes w128 @ i'"
  "nom_be_i32 N i = Some (i', w32) \<longleftrightarrow> i = to_be_bytes w32 @ i'"
  "nom_take N n i = Some (i', bs) \<longleftrightarrow> length bs = n \<and> i = bs @ i'"
  by (simp_all add: be_specs read_iff) (auto simp: take_spec)

lemma unat_length: "n < 2 ^ 32 \<Longrightarrow> unat (word_of_nat n :: u32) = n"
  by (simp add: unsigned_of_nat take_bit_nat_eq_self)

lemma accepts_sample: "accepts (parse_sample N) frame_ok frame (\<lambda>fc. sample_data N (fst fc) (frame fc))"
proof -
  have "parse_sample N i = Some (i', s) \<longleftrightarrow>
      (\<exists>fc. frame_ok fc \<and> i = frame fc @ i' \<and> s = sample_data N (fst fc) (frame fc))" for i i' s
  proof
    assume "parse_sample N i = Some (i', s)"
    then obtain p1 f p2 l bs where r: "nom_be_u32 N i = Some (p1, f)" "nom_be_u32 N p1 = Some (p2, l)"
        "nom_take N (unat l + 8) i = Some (i', bs)" and s: "s = sample_data N f bs"
      by (auto simp: parse_sample_def bind_eq_Some_conv)
    then have i: "i = to_be_bytes f @ to_be_bytes l @ p2" and bs: "length bs = unat l + 8" "i = bs @ i'"
      unfolding reads_iff by simp_all
    have "take 8 bs = take 8 i" using bs by simp
    then have "take 8 bs = to_be_bytes f @ to_be_bytes l" using i by simp
    then have "bs = to_be_bytes f @ to_be_bytes l @ drop 8 bs"
      by (metis append_assoc append_take_drop_id)
    then have "bs = frame (f, drop 8 bs)"
      using bs by (simp add: frame_def)
    then show "\<exists>fc. frame_ok fc \<and> i = frame fc @ i' \<and> s = sample_data N (fst fc) (frame fc)"
      using bs s unat_bounds(3) [of l] by (intro exI [of _ "(f, drop 8 bs)"]) (auto simp: frame_ok_def)
  next
    assume "\<exists>fc. frame_ok fc \<and> i = frame fc @ i' \<and> s = sample_data N (fst fc) (frame fc)"
    then obtain f c where fc: "frame_ok (f, c)" "i = frame (f, c) @ i'" "s = sample_data N f (frame (f, c))"
      by force
    then have "nom_be_u32 N i = Some (to_be_bytes (word_of_nat (length c) :: u32) @ c @ i', f)"
      by (simp add: reads_iff frame_def)
    moreover have "nom_take N (length c + 8) i = Some (i', frame (f, c))"
      using fc(2) by (simp add: reads_iff frame_def)
    ultimately show "parse_sample N i = Some (i', s)"
      using fc by (simp add: parse_sample_def reads_append frame_ok_def unat_length)
  qed
  then show ?thesis unfolding accepts_def by blast
qed

lemma accepts_header:
  "accepts (\<lambda>i. parse_record_header N i \<bind> (\<lambda>(i, h). nom_take N (unat (rh_length h)) i \<bind>
      (\<lambda>(i, data). Some (i, g (rh_data_format h, data))))) frame_ok frame g"
proof -
  have "(parse_record_header N i \<bind> (\<lambda>(i, h). nom_take N (unat (rh_length h)) i \<bind>
      (\<lambda>(i, data). Some (i, g (rh_data_format h, data))))) = Some (i', x) \<longleftrightarrow>
    (\<exists>fc. frame_ok fc \<and> i = frame fc @ i' \<and> x = g fc)" for i i' x
  proof
    assume "(parse_record_header N i \<bind> (\<lambda>(i, h). nom_take N (unat (rh_length h)) i \<bind>
      (\<lambda>(i, data). Some (i, g (rh_data_format h, data))))) = Some (i', x)"
    then obtain f l data where "i = to_be_bytes (f :: u32) @ to_be_bytes (l :: u32) @ data @ i'"
        "length data = unat l" "x = g (f, data)"
      by (auto simp: parse_record_header_def bind_eq_Some_conv reads_iff)
    then show "\<exists>fc. frame_ok fc \<and> i = frame fc @ i' \<and> x = g fc"
      using unat_bounds(3) [of l] by (intro exI [of _ "(f, data)"]) (simp add: frame_def frame_ok_def)
  next
    assume "\<exists>fc. frame_ok fc \<and> i = frame fc @ i' \<and> x = g fc"
    then obtain f c where "frame_ok (f, c)" "i = frame (f, c) @ i'" "x = g (f, c)"
      by force
    then show "(parse_record_header N i \<bind> (\<lambda>(i, h). nom_take N (unat (rh_length h)) i \<bind>
      (\<lambda>(i, data). Some (i, g (rh_data_format h, data))))) = Some (i', x)"
      by (simp add: parse_record_header_def frame_def frame_ok_def reads_append take_append unat_length)
  qed
  then show ?thesis unfolding accepts_def by blast
qed

lemma record_header_length:
  "parse_record_header N i = Some (i', h) \<Longrightarrow> nom_take N (unat (rh_length h)) i' = Some (i2, data) \<Longrightarrow>
    h = \<lparr>rh_data_format = rh_data_format h, rh_length = word_of_nat (length data)\<rparr>"
  by (cases h) (auto simp: take_spec split: if_splits)

lemma accepts_flow_record: "accepts (parse_flow_record N) frame_ok frame (flow_contents N)"
proof -
  have "parse_flow_record N = (\<lambda>i. parse_record_header N i \<bind> (\<lambda>(i, h). nom_take N (unat (rh_length h)) i \<bind>
      (\<lambda>(i, data). Some (i, flow_contents N (rh_data_format h, data)))))"
    by (auto simp: fun_eq_iff parse_flow_record_def flow_contents_def Let_def
        intro!: Option.bind_cong dest: record_header_length split: option.split)
  then show ?thesis using accepts_header by simp
qed

lemma accepts_counter_record: "accepts (parse_counter_record N) frame_ok frame (counter_contents N)"
proof -
  have "parse_counter_record N = (\<lambda>i. parse_record_header N i \<bind> (\<lambda>(i, h). nom_take N (unat (rh_length h)) i \<bind>
      (\<lambda>(i, data). Some (i, counter_contents N (rh_data_format h, data)))))"
    by (auto simp: fun_eq_iff parse_counter_record_def counter_contents_def Let_def
        intro!: Option.bind_cong dest: record_header_length split: option.split)
  then show ?thesis using accepts_header by simp
qed

lemma address_iff: "parse_address N i = Some (i', a) \<longleftrightarrow> i = address_bytes a @ i'"
proof
  show "parse_address N i = Some (i', a) \<Longrightarrow> i = address_bytes a @ i'"
    by (auto simp: parse_address_def address_bytes_def bind_eq_Some_conv reads_iff
        split: if_splits option.splits ip_addr.splits)
  show "i = address_bytes a @ i' \<Longrightarrow> parse_address N i = Some (i', a)"
    by (simp add: parse_address_def address_bytes_def reads_append UNKNOWN_def IPV4_def IPV6_def
        split: option.splits ip_addr.splits)
qed

lemmas counts = is_countD [OF count_samples_spec] is_countD [OF count_flow_records_spec]
  is_countD [OF count_counter_records_spec]

lemma accepts_flow_records:
  "accepts (sf_count_flow_records N (parse_flow_record N) n)
    (\<lambda>es. length es = n \<and> (\<forall>e\<in>set es. frame_ok e)) (\<lambda>es. concat (map frame es)) (map (flow_contents N))"
  unfolding counts(2) [OF accepts_nonincr [OF accepts_flow_record]]
  by (rule accepts_count [OF accepts_flow_record])

lemma accepts_counter_records:
  "accepts (sf_count_counter_records N (parse_counter_record N) n)
    (\<lambda>es. length es = n \<and> (\<forall>e\<in>set es. frame_ok e)) (\<lambda>es. concat (map frame es)) (map (counter_contents N))"
  unfolding counts(3) [OF accepts_nonincr [OF accepts_counter_record]]
  by (rule accepts_count [OF accepts_counter_record])

lemma accepts_samples:
  "accepts (sf_count_samples N (parse_sample N) n)
    (\<lambda>es. length es = n \<and> (\<forall>e\<in>set es. frame_ok e)) (\<lambda>es. concat (map frame es))
    (map (\<lambda>fc. sample_data N (fst fc) (frame fc)))"
  unfolding counts(1) [OF accepts_nonincr [OF accepts_sample]]
  by (rule accepts_count [OF accepts_sample])

lemma datagram_iff:
  "parse_sflow_v5 N i = Some (rest, p) \<longleftrightarrow>
    (\<exists>fs. frames_ok fs \<and> i = datagram_bytes p fs @ rest \<and>
      sf_version p = SFLOW_V5_VERSION \<and> sf_samples p = map (\<lambda>fc. sample_data N (fst fc) (frame fc)) fs)"
proof
  assume "parse_sflow_v5 N i = Some (rest, p)"
  then obtain n fs where fs: "length fs = unat (n :: u32)" "\<forall>fc\<in>set fs. frame_ok fc"
      "sf_samples p = map (\<lambda>fc. sample_data N (fst fc) (frame fc)) fs"
    and i: "i = to_be_bytes (sf_version p) @ address_bytes (sf_agent_address p) @ to_be_bytes (sf_sub_agent_id p) @
      to_be_bytes (sf_sequence_number p) @ to_be_bytes (sf_uptime p) @ to_be_bytes n @ concat (map frame fs) @ rest"
      "sf_version p = SFLOW_V5_VERSION"
    by (auto simp: parse_sflow_v5_def bind_eq_Some_conv reads_iff address_iff acceptsD [OF accepts_samples]
        split: if_splits)
  then show "\<exists>fs. frames_ok fs \<and> i = datagram_bytes p fs @ rest \<and>
      sf_version p = SFLOW_V5_VERSION \<and> sf_samples p = map (\<lambda>fc. sample_data N (fst fc) (frame fc)) fs"
    using unat_bounds(3) [of n] by (intro exI [of _ fs]) (simp add: datagram_bytes_def frames_bytes_def frames_ok_def)
next
  assume "\<exists>fs. frames_ok fs \<and> i = datagram_bytes p fs @ rest \<and>
      sf_version p = SFLOW_V5_VERSION \<and> sf_samples p = map (\<lambda>fc. sample_data N (fst fc) (frame fc)) fs"
  then obtain fs where fs: "length fs < 2 ^ 32" "\<forall>fc\<in>set fs. frame_ok fc" "i = datagram_bytes p fs @ rest"
      "sf_version p = SFLOW_V5_VERSION" "sf_samples p = map (\<lambda>fc. sample_data N (fst fc) (frame fc)) fs"
    unfolding frames_ok_def by blast
  have "sf_count_samples N (parse_sample N) (length fs) (concat (map frame fs) @ rest) =
      Some (rest, sf_samples p)"
    unfolding acceptsD [OF accepts_samples] using fs(2,5) by (intro exI [of _ fs]) simp
  moreover have "parse_address N (address_bytes a @ r) = Some (r, a)" for a r
    by (simp add: address_iff)
  ultimately show "parse_sflow_v5 N i = Some (rest, p)"
    using fs(1,3,4) by (simp add: parse_sflow_v5_def datagram_bytes_def frames_bytes_def reads_append unat_length)
qed

text \<open>Samples.\<close>

lemma counter_sample_iff:
  "parse_counter_sample N i = Some (rest, s) \<longleftrightarrow>
    (\<exists>i1 fs. parse_sample_header N i = Some (i1, cs_header s) \<and> frames_ok fs \<and>
      cs_records s = map (counter_contents N) fs \<and> i1 = counter_body s fs @ rest)"
proof
  assume "parse_counter_sample N i = Some (rest, s)"
  then obtain i1 n fs where h: "parse_sample_header N i = Some (i1, cs_header s)"
      "length fs = unat (n :: u32)" "\<forall>fc\<in>set fs. frame_ok fc" "cs_records s = map (counter_contents N) fs"
    and i1: "i1 =
        to_be_bytes n @ concat (map frame fs) @ rest"
    by (auto simp: parse_counter_sample_def bind_eq_Some_conv reads_iff acceptsD [OF accepts_counter_records])
  have "i1 = counter_body s fs @ rest"
    using h(2) by (simp add: i1 counter_body_def frames_bytes_def)
  then show "\<exists>i1 fs. parse_sample_header N i = Some (i1, cs_header s) \<and> frames_ok fs \<and>
      cs_records s = map (counter_contents N) fs \<and> i1 = counter_body s fs @ rest"
    using h unat_bounds(3) [of n] unfolding frames_ok_def by metis
next
  assume "\<exists>i1 fs. parse_sample_header N i = Some (i1, cs_header s) \<and> frames_ok fs \<and>
      cs_records s = map (counter_contents N) fs \<and> i1 = counter_body s fs @ rest"
  then obtain i1 fs where "parse_sample_header N i = Some (i1, cs_header s)" "length fs < 2 ^ 32"
      "i1 = counter_body s fs @ rest"
    and "sf_count_counter_records N (parse_counter_record N) (length fs) (concat (map frame fs) @ rest) =
      Some (rest, cs_records s)"
    unfolding acceptsD [OF accepts_counter_records] frames_ok_def by blast
  then show "parse_counter_sample N i = Some (rest, s)"
    by (simp add: parse_counter_sample_def counter_body_def frames_bytes_def reads_append unat_length)
qed

lemma flow_sample_iff:
  "parse_flow_sample N i = Some (rest, s) \<longleftrightarrow>
    (\<exists>i1 fs. parse_sample_header N i = Some (i1, fl_header s) \<and> frames_ok fs \<and>
      fl_records s = map (flow_contents N) fs \<and> i1 = flow_body s fs @ rest)"
proof
  assume "parse_flow_sample N i = Some (rest, s)"
  then obtain i1 n fs where h: "parse_sample_header N i = Some (i1, fl_header s)"
      "length fs = unat (n :: u32)" "\<forall>fc\<in>set fs. frame_ok fc" "fl_records s = map (flow_contents N) fs"
    and i1: "i1 =
     to_be_bytes (fl_sampling_rate s) @ to_be_bytes (fl_sample_pool s) @
     to_be_bytes (fl_drops s) @ to_be_bytes (fl_input s) @ to_be_bytes (fl_output s) @
        to_be_bytes n @ concat (map frame fs) @ rest"
    by (auto simp: parse_flow_sample_def bind_eq_Some_conv reads_iff acceptsD [OF accepts_flow_records])
  have "i1 = flow_body s fs @ rest"
    using h(2) by (simp add: i1 flow_body_def frames_bytes_def)
  then show "\<exists>i1 fs. parse_sample_header N i = Some (i1, fl_header s) \<and> frames_ok fs \<and>
      fl_records s = map (flow_contents N) fs \<and> i1 = flow_body s fs @ rest"
    using h unat_bounds(3) [of n] unfolding frames_ok_def by metis
next
  assume "\<exists>i1 fs. parse_sample_header N i = Some (i1, fl_header s) \<and> frames_ok fs \<and>
      fl_records s = map (flow_contents N) fs \<and> i1 = flow_body s fs @ rest"
  then obtain i1 fs where "parse_sample_header N i = Some (i1, fl_header s)" "length fs < 2 ^ 32"
      "i1 = flow_body s fs @ rest"
    and "sf_count_flow_records N (parse_flow_record N) (length fs) (concat (map frame fs) @ rest) =
      Some (rest, fl_records s)"
    unfolding acceptsD [OF accepts_flow_records] frames_ok_def by blast
  then show "parse_flow_sample N i = Some (rest, s)"
    by (simp add: parse_flow_sample_def flow_body_def frames_bytes_def reads_append unat_length)
qed

lemma expanded_flow_sample_iff:
  "parse_expanded_flow_sample N i = Some (rest, s) \<longleftrightarrow>
    (\<exists>i1 fs. parse_sample_header N i = Some (i1, ef_header s) \<and> frames_ok fs \<and>
      ef_records s = map (flow_contents N) fs \<and> i1 = expanded_body s fs @ rest)"
proof
  assume "parse_expanded_flow_sample N i = Some (rest, s)"
  then obtain i1 n fs where h: "parse_sample_header N i = Some (i1, ef_header s)"
      "length fs = unat (n :: u32)" "\<forall>fc\<in>set fs. frame_ok fc" "ef_records s = map (flow_contents N) fs"
    and i1: "i1 =
     to_be_bytes (ef_sampling_rate s) @ to_be_bytes (ef_sample_pool s) @
     to_be_bytes (ef_drops s) @ to_be_bytes (ef_input_if_format s) @
     to_be_bytes (ef_input_if_value s) @ to_be_bytes (ef_output_if_format s) @
     to_be_bytes (ef_output_if_value s) @
        to_be_bytes n @ concat (map frame fs) @ rest"
    by (auto simp: parse_expanded_flow_sample_def bind_eq_Some_conv reads_iff acceptsD [OF accepts_flow_records])
  have "i1 = expanded_body s fs @ rest"
    using h(2) by (simp add: i1 expanded_body_def frames_bytes_def)
  then show "\<exists>i1 fs. parse_sample_header N i = Some (i1, ef_header s) \<and> frames_ok fs \<and>
      ef_records s = map (flow_contents N) fs \<and> i1 = expanded_body s fs @ rest"
    using h unat_bounds(3) [of n] unfolding frames_ok_def by metis
next
  assume "\<exists>i1 fs. parse_sample_header N i = Some (i1, ef_header s) \<and> frames_ok fs \<and>
      ef_records s = map (flow_contents N) fs \<and> i1 = expanded_body s fs @ rest"
  then obtain i1 fs where "parse_sample_header N i = Some (i1, ef_header s)" "length fs < 2 ^ 32"
      "i1 = expanded_body s fs @ rest"
    and "sf_count_flow_records N (parse_flow_record N) (length fs) (concat (map frame fs) @ rest) =
      Some (rest, ef_records s)"
    unfolding acceptsD [OF accepts_flow_records] frames_ok_def by blast
  then show "parse_expanded_flow_sample N i = Some (rest, s)"
    by (simp add: parse_expanded_flow_sample_def expanded_body_def frames_bytes_def reads_append unat_length)
qed

lemma drop_sample_iff:
  "parse_drop_sample N i = Some (rest, s) \<longleftrightarrow>
    (\<exists>i1 reason fs. parse_sample_header N i = Some (i1, ds_header s) \<and> frames_ok fs \<and>
      ds_reason s = drop_reason_from reason \<and> ds_records s = map (flow_contents N) fs \<and>
      i1 = drop_body reason s fs @ rest)"
proof
  assume "parse_drop_sample N i = Some (rest, s)"
  then obtain i1 n reason fs where h: "parse_sample_header N i = Some (i1, ds_header s)"
      "length fs = unat (n :: u32)" "\<forall>fc\<in>set fs. frame_ok fc" "ds_records s = map (flow_contents N) fs"
      "ds_reason s = drop_reason_from reason"
    and i1: "i1 = to_be_bytes (ds_drops s) @ to_be_bytes (ds_input s) @ to_be_bytes (ds_output s) @
        to_be_bytes reason @ to_be_bytes n @ concat (map frame fs) @ rest"
    by (auto simp: parse_drop_sample_def bind_eq_Some_conv reads_iff acceptsD [OF accepts_flow_records])
  have "i1 = drop_body reason s fs @ rest"
    using h(2) by (simp add: i1 drop_body_def frames_bytes_def)
  then show "\<exists>i1 reason fs. parse_sample_header N i = Some (i1, ds_header s) \<and> frames_ok fs \<and>
      ds_reason s = drop_reason_from reason \<and> ds_records s = map (flow_contents N) fs \<and>
      i1 = drop_body reason s fs @ rest"
    using h unat_bounds(3) [of n] unfolding frames_ok_def by metis
next
  assume "\<exists>i1 reason fs. parse_sample_header N i = Some (i1, ds_header s) \<and> frames_ok fs \<and>
      ds_reason s = drop_reason_from reason \<and> ds_records s = map (flow_contents N) fs \<and>
      i1 = drop_body reason s fs @ rest"
  then obtain i1 reason fs where "parse_sample_header N i = Some (i1, ds_header s)" "length fs < 2 ^ 32"
      "i1 = drop_body reason s fs @ rest" "ds_reason s = drop_reason_from reason"
    and "sf_count_flow_records N (parse_flow_record N) (length fs) (concat (map frame fs) @ rest) =
      Some (rest, ds_records s)"
    unfolding acceptsD [OF accepts_flow_records] frames_ok_def by blast
  then show "parse_drop_sample N i = Some (rest, s)"
    by (simp add: parse_drop_sample_def drop_body_def frames_bytes_def reads_append unat_length)
qed

text \<open>Counters.\<close>

lemma i32_append: "nom_be_i32 N (to_be_bytes w @ r) = Some (r, w)"
  by (simp add: reads_iff)

lemma if_counters_iff: "parse_if_counters N i = Some (rest, c) \<longleftrightarrow> i = if_counters_bytes c @ rest"
proof
  show "parse_if_counters N i = Some (rest, c) \<Longrightarrow> i = if_counters_bytes c @ rest"
    by (auto simp: parse_if_counters_def if_counters_bytes_def bind_eq_Some_conv reads_iff)
qed (simp add: parse_if_counters_def if_counters_bytes_def nom_simps i32_append)

lemma ethernet_counters_iff: "parse_ethernet_counters N i = Some (rest, c) \<longleftrightarrow> i = ethernet_counters_bytes c @ rest"
proof
  show "parse_ethernet_counters N i = Some (rest, c) \<Longrightarrow> i = ethernet_counters_bytes c @ rest"
    by (auto simp: parse_ethernet_counters_def ethernet_counters_bytes_def bind_eq_Some_conv reads_iff)
qed (simp add: parse_ethernet_counters_def ethernet_counters_bytes_def nom_simps i32_append)

lemma tokenring_counters_iff: "parse_tokenring_counters N i = Some (rest, c) \<longleftrightarrow> i = tokenring_counters_bytes c @ rest"
proof
  show "parse_tokenring_counters N i = Some (rest, c) \<Longrightarrow> i = tokenring_counters_bytes c @ rest"
    by (auto simp: parse_tokenring_counters_def tokenring_counters_bytes_def bind_eq_Some_conv reads_iff)
qed (simp add: parse_tokenring_counters_def tokenring_counters_bytes_def nom_simps i32_append)

lemma vg_counters_iff: "parse_vg_counters N i = Some (rest, c) \<longleftrightarrow> i = vg_counters_bytes c @ rest"
proof
  show "parse_vg_counters N i = Some (rest, c) \<Longrightarrow> i = vg_counters_bytes c @ rest"
    by (auto simp: parse_vg_counters_def vg_counters_bytes_def bind_eq_Some_conv reads_iff)
qed (simp add: parse_vg_counters_def vg_counters_bytes_def nom_simps i32_append)

lemma vlan_counters_iff: "parse_vlan_counters N i = Some (rest, c) \<longleftrightarrow> i = vlan_counters_bytes c @ rest"
proof
  show "parse_vlan_counters N i = Some (rest, c) \<Longrightarrow> i = vlan_counters_bytes c @ rest"
    by (auto simp: parse_vlan_counters_def vlan_counters_bytes_def bind_eq_Some_conv reads_iff)
qed (simp add: parse_vlan_counters_def vlan_counters_bytes_def nom_simps i32_append)

lemma processor_iff: "parse_processor N i = Some (rest, c) \<longleftrightarrow> i = processor_bytes c @ rest"
proof
  show "parse_processor N i = Some (rest, c) \<Longrightarrow> i = processor_bytes c @ rest"
    by (auto simp: parse_processor_def processor_bytes_def bind_eq_Some_conv reads_iff)
qed (simp add: parse_processor_def processor_bytes_def nom_simps i32_append)

lemma counter_data_iff:
  "counter_record_data N format data = Some r \<longleftrightarrow>
    (\<exists>rest. case r of
        IfCounters c \<Rightarrow> format = 1 \<and> data = if_counters_bytes c @ rest
      | EthernetCounters c \<Rightarrow> format = 2 \<and> data = ethernet_counters_bytes c @ rest
      | TokenringCounters c \<Rightarrow> format = 3 \<and> data = tokenring_counters_bytes c @ rest
      | VgCounters c \<Rightarrow> format = 4 \<and> data = vg_counters_bytes c @ rest
      | VlanCounters c \<Rightarrow> format = 5 \<and> data = vlan_counters_bytes c @ rest
      | ProcessorRecord c \<Rightarrow> format = 1001 \<and> data = processor_bytes c @ rest
      | UnknownCounterRecord bs \<Rightarrow> format \<notin> {1, 2, 3, 4, 5, 1001} \<and> data = bs)"
proof -
  have f: "unat format = Suc 0 \<longleftrightarrow> format = 1" "unat format = 2 \<longleftrightarrow> format = 2" "unat format = 3 \<longleftrightarrow> format = 3"
    "unat format = 4 \<longleftrightarrow> format = 4" "unat format = 5 \<longleftrightarrow> format = 5" "unat format = 1001 \<longleftrightarrow> format = 1001"
    by (simp_all add: word_unat_eq_iff)
  have m: "map_option (g \<circ> snd) x = Some y \<longleftrightarrow> (\<exists>rest c. x = Some (rest, c) \<and> y = g c)"
    for g :: "'c \<Rightarrow> counter_record_type" and x :: "(bytes \<times> 'c) option" and y
    by (cases x) auto
  show ?thesis
    unfolding counter_record_data_def counter_type_try_from_def
    by (cases r)
      (auto simp: f m if_counters_iff ethernet_counters_iff tokenring_counters_iff vg_counters_iff
        vlan_counters_iff processor_iff split: if_splits)
qed

text \<open>The source of a sample.\<close>

lemma source_id:
  assumes "f = 1 \<or> f = 2"
  shows "parse_sample_header N (to_be_bytes f @ to_be_bytes l @ to_be_bytes seq @ to_be_bytes sid @ rest) =
    Some (rest, \<lparr>sh_format = f, sh_length = l, sh_sample_sequence_number = seq,
      sh_source_id_type = drop_bit 24 sid, sh_source_id_value = take_bit 24 sid\<rparr>)"
proof -
  have "sid AND 0x00ffffff = take_bit 24 sid"
    by (simp add: take_bit_eq_mask mask_eq_exp_minus_1)
  then show ?thesis
    using assms by (auto simp: parse_sample_header_def reads_append sample_format_try_from_def)
qed

lemma padding_dvd: "4 dvd k + (4 - k mod 4) mod 4" for k :: nat
proof -
  consider "k mod 4 = 0" | "k mod 4 = 1" | "k mod 4 = 2" | "k mod 4 = 3"
    using mod_less_divisor [of 4 k] by linarith
  then have "(k mod 4 + (4 - k mod 4) mod 4) mod 4 = 0" by cases simp_all
  then show ?thesis by (simp only: mod_add_left_eq dvd_eq_mod_eq_0)
qed

lemma xdr_string:
  assumes "parse_xdr_string N i = Some (i', s)"
  shows "\<exists>v pad. length v < 2 ^ 32 \<and> i = to_be_bytes (word_of_nat (length v) :: u32) @ v @ pad @ i' \<and>
    length pad < 4 \<and> 4 dvd length (v @ pad) \<and> s = from_utf8_lossy v"
proof -
  from assms obtain l v pad where i: "i = to_be_bytes (l :: u32) @ v @ pad @ i'" and l: "length v = unat l"
    and pad: "length pad = (4 - unat l mod 4) mod 4" and s: "s = from_utf8_lossy v"
    by (auto simp: parse_xdr_string_def bind_eq_Some_conv reads_iff Let_def)
  have "4 dvd length (v @ pad)"
    using padding_dvd [of "unat l"] by (simp add: l pad)
  then show ?thesis
    using i l pad s unat_bounds(3) [of l] by (intro exI [of _ v] exI [of _ pad]) auto
qed

end

definition sflow_nom_ref :: sflow_nom where
  "sflow_nom_ref = nom.extend nom_ref (sflow_nom.fields count_loop count_loop count_loop count_loop
     count_loop)"

interpretation sflow_ref: sflow_nom_spec sflow_nom_ref
  by unfold_locales (simp_all add: sflow_nom_ref_def nom.defs sflow_nom.defs nom_ref_def is_count_def)

section \<open>Properties\<close>

text \<open>C38. The sFlow parser accepts exactly the datagrams of version 5 that are cut into frames, a format,
  a length and so many bytes each, and reads every sample from its own frame alone: whatever a
  sample contains, its neighbours are read as if it were not there.\<close>

theorem sflow_datagram:
  assumes "sflow_nom_spec N"
  shows "parse_sflow_v5 N i = Some (rest, p) \<longleftrightarrow>
    (\<exists>fs. frames_ok fs \<and> i = datagram_bytes p fs @ rest \<and> sf_version p = SFLOW_V5_VERSION \<and>
      sf_samples p = map (\<lambda>fc. sample_data N (fst fc) (frame fc)) fs)"
  using assms by (rule sflow_nom_spec.datagram_iff)

definition sflow_example :: sflow_v5 where
  "sflow_example = \<lparr>sf_version = 5, sf_agent_address = Some (V4 0xC0000201), sf_sub_agent_id = 0,
     sf_sequence_number = 1, sf_uptime = 1000, sf_samples = [UnknownSample [1, 2]]\<rparr>"

theorem sflow_datagram_witness:
  "parse_sflow_v5 sflow_nom_ref (datagram_bytes sflow_example [(9, [1, 2])] @ [7]) = Some ([7], sflow_example)"
proof -
  have "sample_data sflow_nom_ref 9 (frame (9, [1, 2])) = UnknownSample [1, 2]"
    by (simp add: sample_data_def sample_format_try_from_def frame_def)
  then show ?thesis
    using sflow_datagram [OF sflow_ref.sflow_nom_spec_axioms,
        of "datagram_bytes sflow_example [(9, [1, 2])] @ [7]" "[7]" sflow_example]
    by (auto simp: sflow_example_def SFLOW_V5_VERSION_def frames_ok_def frame_ok_def
        intro!: exI [of _ "[(9, [1, 2])]"])
qed

text \<open>Samples are read field by field: flow, counter, expanded flow and drop samples are a header, the
  words of their fields in the order of the type and exactly the announced number of records,
  each framed by its own length; a record whose contents do not parse is kept as bytes and
  disturbs no other; what follows the records is left over.\<close>

theorem sflow_samples:
  assumes "sflow_nom_spec N"
  shows "(parse_flow_sample N i = Some (rest, fl) \<longleftrightarrow>
      (\<exists>i1 fs. parse_sample_header N i = Some (i1, fl_header fl) \<and> frames_ok fs \<and>
        fl_records fl = map (flow_contents N) fs \<and> i1 = flow_body fl fs @ rest)) \<and>
    (parse_counter_sample N i = Some (rest, cs) \<longleftrightarrow>
      (\<exists>i1 fs. parse_sample_header N i = Some (i1, cs_header cs) \<and> frames_ok fs \<and>
        cs_records cs = map (counter_contents N) fs \<and> i1 = counter_body cs fs @ rest)) \<and>
    (parse_expanded_flow_sample N i = Some (rest, ef) \<longleftrightarrow>
      (\<exists>i1 fs. parse_sample_header N i = Some (i1, ef_header ef) \<and> frames_ok fs \<and>
        ef_records ef = map (flow_contents N) fs \<and> i1 = expanded_body ef fs @ rest)) \<and>
    (parse_drop_sample N i = Some (rest, ds) \<longleftrightarrow>
      (\<exists>i1 reason fs. parse_sample_header N i = Some (i1, ds_header ds) \<and> frames_ok fs \<and>
        ds_reason ds = drop_reason_from reason \<and> ds_records ds = map (flow_contents N) fs \<and>
        i1 = drop_body reason ds fs @ rest))"
  by (intro conjI sflow_nom_spec.flow_sample_iff sflow_nom_spec.counter_sample_iff
      sflow_nom_spec.expanded_flow_sample_iff sflow_nom_spec.drop_sample_iff assms)

theorem sflow_samples_witness:
  "\<exists>cs. parse_counter_sample sflow_nom_ref
      (to_be_bytes (2 :: u32) @ to_be_bytes (12 :: u32) @ to_be_bytes (1 :: u32) @ to_be_bytes (3 :: u32) @
       to_be_bytes (0 :: u32)) = Some ([], cs) \<and> cs_records cs = []"
proof -
  define h where "h = \<lparr>sh_format = 2 :: u32, sh_length = 12, sh_sample_sequence_number = 1,
    sh_source_id_type = drop_bit 24 (3 :: u32), sh_source_id_value = take_bit 24 (3 :: u32)\<rparr>"
  have "parse_sample_header sflow_nom_ref (to_be_bytes (2 :: u32) @ to_be_bytes (12 :: u32) @
      to_be_bytes (1 :: u32) @ to_be_bytes (3 :: u32) @ to_be_bytes (0 :: u32)) =
      Some (to_be_bytes (0 :: u32), h)"
    unfolding h_def by (rule sflow_ref.source_id) simp
  then show ?thesis
    using sflow_samples [OF sflow_ref.sflow_nom_spec_axioms, where rest = "[]"
        and cs = "\<lparr>cs_header = h, cs_records = []\<rparr>"]
    by (intro exI [of _ "\<lparr>cs_header = h, cs_records = []\<rparr>"])
      (auto simp: frames_ok_def frames_bytes_def counter_body_def intro!: exI [of _ "[]"])
qed

text \<open>The source id of a flow or counter sample is split without loss: the type is its upper 8 bits,
  the value its lower 24.\<close>

theorem sflow_source_id:
  assumes "sflow_nom_spec N" and "f = 1 \<or> f = 2"
  shows "\<exists>h. parse_sample_header N (to_be_bytes f @ to_be_bytes l @ to_be_bytes seq @ to_be_bytes (sid :: u32) @ rest) =
      Some (rest, h) \<and> sh_format h = f \<and> sh_length h = l \<and> sh_sample_sequence_number h = seq \<and>
    unat (sh_source_id_type h) < 2 ^ 8 \<and> unat (sh_source_id_value h) < 2 ^ 24 \<and>
    unat sid = unat (sh_source_id_type h) * 2 ^ 24 + unat (sh_source_id_value h)"
proof -
  have "unat (drop_bit 24 sid) = unat sid div 2 ^ 24" "unat (take_bit 24 sid) = unat sid mod 2 ^ 24"
    by (simp_all add: drop_bit_eq_div take_bit_eq_mod unat_div_distrib unat_mod_distrib)
  moreover have "unat sid div 2 ^ 24 < 2 ^ 8"
    using unat_bounds(3) [of sid] by (simp add: less_mult_imp_div_less)
  ultimately show ?thesis
    unfolding sflow_nom_spec.source_id [OF assms] by (simp add: div_mult_mod_eq)
qed

theorem sflow_source_id_witness:
  "\<exists>h. parse_sample_header sflow_nom_ref (to_be_bytes (1 :: u32) @ to_be_bytes (8 :: u32) @
      to_be_bytes (5 :: u32) @ to_be_bytes (0x02000007 :: u32) @ []) = Some ([], h) \<and>
    unat (sh_source_id_type h) * 2 ^ 24 + unat (sh_source_id_value h) = 0x02000007"
  using sflow_source_id [OF sflow_ref.sflow_nom_spec_axioms, where f = 1 and l = 8 and seq = 5 and sid = "0x02000007" and rest = "[]"] by auto

text \<open>Counter records are read exactly: the record of a format is the words of its counters in the
  order of the type, whatever follows them; a record of an unknown format is its bytes; and one
  too short for its format is an error.\<close>

theorem sflow_counters:
  assumes "sflow_nom_spec N"
  shows "counter_record_data N format data = Some r \<longleftrightarrow>
    (\<exists>rest. case r of
        IfCounters c \<Rightarrow> format = 1 \<and> data = if_counters_bytes c @ rest
      | EthernetCounters c \<Rightarrow> format = 2 \<and> data = ethernet_counters_bytes c @ rest
      | TokenringCounters c \<Rightarrow> format = 3 \<and> data = tokenring_counters_bytes c @ rest
      | VgCounters c \<Rightarrow> format = 4 \<and> data = vg_counters_bytes c @ rest
      | VlanCounters c \<Rightarrow> format = 5 \<and> data = vlan_counters_bytes c @ rest
      | ProcessorRecord c \<Rightarrow> format = 1001 \<and> data = processor_bytes c @ rest
      | UnknownCounterRecord bs \<Rightarrow> format \<notin> {1, 2, 3, 4, 5, 1001} \<and> data = bs)"
  using assms by (rule sflow_nom_spec.counter_data_iff)

theorem sflow_counters_witness:
  "counter_record_data sflow_nom_ref 1001 (processor_bytes \<lparr>pr_avg_5s_cpu = 1, pr_avg_1m_cpu = 2,
      pr_avg_5m_cpu = 3, pr_total_memory = 4, pr_free_memory = 5\<rparr> @ [0]) =
    Some (ProcessorRecord \<lparr>pr_avg_5s_cpu = 1, pr_avg_1m_cpu = 2, pr_avg_5m_cpu = 3,
      pr_total_memory = 4, pr_free_memory = 5\<rparr>)"
  unfolding sflow_counters [OF sflow_ref.sflow_nom_spec_axioms] by simp

text \<open>A string is read with its padding to a multiple of four bytes, and is well-formed UTF-8 whatever
  the sender wrote; what was well-formed is not changed.\<close>

theorem sflow_strings:
  assumes "sflow_nom_spec N" and "parse_xdr_string N i = Some (i', s)"
  shows "\<exists>v pad. i = to_be_bytes (word_of_nat (length v) :: u32) @ v @ pad @ i' \<and> length v < 2 ^ 32 \<and>
    length pad < 4 \<and> 4 dvd length (v @ pad) \<and> (\<exists>bs. s = map (\<lambda>b. char_of (unat b)) bs \<and> utf8_valid bs) \<and>
    (from_utf8 v = None \<or> from_utf8 v = Some s)"
proof -
  obtain v pad where v: "length v < 2 ^ 32" "i = to_be_bytes (word_of_nat (length v) :: u32) @ v @ pad @ i'"
      "length pad < 4" "4 dvd length (v @ pad)" and s: "s = from_utf8_lossy v"
    using sflow_nom_spec.xdr_string [OF assms] by blast
  have "from_utf8 v = None \<or> from_utf8 v = Some s"
    by (auto simp: from_utf8_def s from_utf8_lossy_def lossy_of_valid)
  moreover have "\<exists>bs. s = map (\<lambda>b. char_of (unat b)) bs \<and> utf8_valid bs"
    unfolding s from_utf8_lossy_def using valid_lossy by blast
  ultimately show ?thesis
    using v by blast
qed

theorem sflow_strings_witness:
  "\<exists>s. parse_xdr_string sflow_nom_ref [0, 0, 0, 1, 0xFF, 0, 0, 0] = Some ([], s) \<and>
    (\<exists>bs. s = map (\<lambda>b. char_of (unat b)) bs \<and> utf8_valid bs)"
proof -
  have "parse_xdr_string sflow_nom_ref [0, 0, 0, 1, 0xFF, 0, 0, 0] = Some ([], from_utf8_lossy [0xFF])"
    by (simp add: parse_xdr_string_def sflow_ref.be_specs sflow_ref.take_spec be_read_def from_be_bytes_def be_nat_def)
  from this sflow_strings [OF sflow_ref.sflow_nom_spec_axioms this] show ?thesis by blast
qed

end
