(* ===== verification/ConvertPacket.thy ===== *)
theory ConvertPacket
  imports CommonFlow Packet Sflow
begin

text \<open>
  \<^verbatim>\<open>common/convert/packet.rs\<close>, what the headers of a sampled packet set in a flow, and
  \<^verbatim>\<open>common/convert/sflow_v5.rs\<close>, flows from sFlow samples. A method that changes the flow behind a
  reference returns it.
\<close>

section \<open>Packets\<close>

text \<open>The Ethernet header and VLAN tags.\<close>

definition apply_link :: "sliced_packet \<Rightarrow> common_flow \<Rightarrow> common_flow" where
  "apply_link sliced flow =
     (let flow = (case sp_link sliced of
            Some (LinkEthernet2 eth) \<Rightarrow>
              flow\<lparr>cf_src_mac := Some (e2_source eth), cf_dst_mac := Some (e2_destination eth),
                cf_etype := Some (e2_ether_type eth)\<rparr>
          | _ \<Rightarrow> flow)
      in case sp_vlan sliced of
           Some vlan \<Rightarrow>
             let inn = (case vlan of VlanSingle h \<Rightarrow> h | VlanDouble _ h \<Rightarrow> h);
                 flow = flow\<lparr>cf_etype := Some (vh_ether_type inn)\<rparr>
             in if cf_src_vlan flow = None then flow\<lparr>cf_src_vlan := Some (vh_vlan_id inn)\<rparr> else flow
         | None \<Rightarrow> flow)"

text \<open>The flags of a TCP header, in a loop of their own in the model: each sets its bit.\<close>

definition tcp_flag_bits :: "tcp_slice \<Rightarrow> u16" where
  "tcp_flag_bits header =
     fold (\<lambda>(set, bit) flags. if set then flags OR bit else flags)
       [(tcp_fin header, 0x01), (tcp_syn header, 0x02), (tcp_rst header, 0x04), (tcp_psh header, 0x08),
        (tcp_ack header, 0x10), (tcp_urg header, 0x20), (tcp_ece header, 0x40), (tcp_cwr header, 0x80),
        (tcp_ns header, 0x100)] 0"

definition apply_net :: "sliced_packet \<Rightarrow> common_flow \<Rightarrow> common_flow" where
  "apply_net sliced flow =
     (case sp_net sliced of
        Some (NetIpv4 ipv4) \<Rightarrow>
          flow\<lparr>cf_src_addr := Some (V4 (v4_source_addr ipv4)),
            cf_dst_addr := Some (V4 (v4_destination_addr ipv4)),
            cf_proto := Some (v4_protocol ipv4),
            cf_ip_tos := Some (push_bit 2 (v4_dcp ipv4) OR v4_ecn ipv4),
            cf_ip_ttl := Some (v4_ttl ipv4),
            cf_fragment_id := Some (ucast (v4_identification ipv4)),
            cf_fragment_offset := Some (v4_fragments_offset ipv4),
            cf_etype := Some ETHER_IPV4\<rparr>
      | Some (NetIpv6 ipv6) \<Rightarrow>
          flow\<lparr>cf_src_addr := Some (V6 (v6_source_addr ipv6)),
            cf_dst_addr := Some (V6 (v6_destination_addr ipv6)),
            cf_proto := Some (ipp_ip_number (v6_payload ipv6)),
            cf_ip_tos := Some (v6_traffic_class ipv6),
            cf_ip_ttl := Some (v6_hop_limit ipv6),
            cf_ipv6_flow_label := Some (v6_flow_label ipv6),
            cf_etype := Some ETHER_IPV6\<rparr>
      | _ \<Rightarrow> flow)"

definition apply_transport :: "transport_slice option \<Rightarrow> common_flow \<Rightarrow> common_flow" where
  "apply_transport transport flow =
     (case transport of
        Some (TransportTcp tcp) \<Rightarrow>
          flow\<lparr>cf_src_port := Some (tcp_source_port tcp), cf_dst_port := Some (tcp_destination_port tcp),
            cf_tcp_flags := Some (tcp_flag_bits tcp)\<rparr>
      | Some (TransportUdp udp) \<Rightarrow>
          flow\<lparr>cf_src_port := Some (udp_source_port udp), cf_dst_port := Some (udp_destination_port udp)\<rparr>
      | Some (TransportIcmpv4 icmp) \<Rightarrow>
          flow\<lparr>cf_icmp_type := Some (icmp_type_u8 icmp), cf_icmp_code := Some (icmp_code_u8 icmp)\<rparr>
      | Some (TransportIcmpv6 icmp) \<Rightarrow>
          flow\<lparr>cf_icmp_type := Some (icmp_type_u8 icmp), cf_icmp_code := Some (icmp_code_u8 icmp)\<rparr>
      | None \<Rightarrow> flow)"

definition apply_net_transport :: "etherparse \<Rightarrow> sliced_packet \<Rightarrow> common_flow \<Rightarrow> common_flow" where
  "apply_net_transport E sliced flow =
     apply_transport (or_else (sp_transport sliced) (first_fragment_transport E sliced)) (apply_net sliced flow)"

definition apply_peeled :: "etherparse \<Rightarrow> peeled \<Rightarrow> common_flow \<Rightarrow> common_flow" where
  "apply_peeled E p flow =
     apply_net_transport E (pl_packet p) (apply_link (unwrap_or (pl_packet p) (pl_link p)) flow)"

definition apply_ethernet_frame :: "etherparse \<Rightarrow> bytes \<Rightarrow> common_flow \<Rightarrow> common_flow" where
  "apply_ethernet_frame E bs flow =
     (case peel_ethernet E bs of Some peeled \<Rightarrow> apply_peeled E peeled flow | None \<Rightarrow> flow)"

definition apply_ip_packet :: "etherparse \<Rightarrow> bytes \<Rightarrow> common_flow \<Rightarrow> common_flow" where
  "apply_ip_packet E bs flow =
     (case peel_ip E bs of Some peeled \<Rightarrow> apply_peeled E peeled flow | None \<Rightarrow> flow)"

section \<open>sFlow\<close>

definition INTERFACE_VALUE_MASK :: u32 where
  "INTERFACE_VALUE_MASK = 0x3fffffff"

definition INTERNAL_INTERFACE :: u32 where
  "INTERNAL_INTERFACE = 0x3fffffff"

definition if_index :: "u32 \<Rightarrow> u32 \<Rightarrow> u32 option" where
  "if_index format value = (if format = 0 \<and> value \<noteq> 0 then Some value else None)"

definition compact_if_index :: "u32 \<Rightarrow> u32 option" where
  "compact_if_index field =
     (let value = field AND INTERFACE_VALUE_MASK in
      if value = INTERNAL_INTERFACE then None else if_index (drop_bit 30 field) value)"

definition apply_sampled_header :: "etherparse \<Rightarrow> sampled_header \<Rightarrow> common_flow \<Rightarrow> common_flow" where
  "apply_sampled_header E header flow =
     (let flow = flow\<lparr>cf_bytes := ucast (hd_frame_length header), cf_packets := 1\<rparr> in
      case hd_protocol header of
        HpEthernetIso8023 \<Rightarrow> apply_ethernet_frame E (hd_header header) flow
      | HpIpv4 \<Rightarrow> apply_ip_packet E (hd_header header) (flow\<lparr>cf_etype := Some 0x0800\<rparr>)
      | HpIpv6 \<Rightarrow> apply_ip_packet E (hd_header header) (flow\<lparr>cf_etype := Some 0x86dd\<rparr>)
      | _ \<Rightarrow> flow)"

definition apply_sampled_ethernet :: "sampled_ethernet \<Rightarrow> common_flow \<Rightarrow> common_flow" where
  "apply_sampled_ethernet ethernet flow =
     flow\<lparr>cf_src_mac := Some (eth_src_mac ethernet), cf_dst_mac := Some (eth_dst_mac ethernet),
       cf_etype := Some (ucast (eth_type ethernet)), cf_bytes := ucast (eth_length ethernet), cf_packets := 1\<rparr>"

definition apply_sampled_ipv4 :: "sampled_ipv4 \<Rightarrow> common_flow \<Rightarrow> common_flow" where
  "apply_sampled_ipv4 ipv4 flow =
     flow\<lparr>cf_src_addr := Some (V4 (s4_src_ip ipv4)), cf_dst_addr := Some (V4 (s4_dst_ip ipv4)),
       cf_etype := Some 0x0800, cf_proto := Some (ucast (s4_protocol ipv4)),
       cf_src_port := Some (ucast (s4_src_port ipv4)), cf_dst_port := Some (ucast (s4_dst_port ipv4)),
       cf_tcp_flags := Some (ucast (s4_tcp_flags ipv4)), cf_ip_tos := Some (ucast (s4_tos ipv4)),
       cf_bytes := ucast (s4_length ipv4), cf_packets := 1\<rparr>"

definition apply_sampled_ipv6 :: "sampled_ipv6 \<Rightarrow> common_flow \<Rightarrow> common_flow" where
  "apply_sampled_ipv6 ipv6 flow =
     flow\<lparr>cf_src_addr := Some (V6 (s6_src_ip ipv6)), cf_dst_addr := Some (V6 (s6_dst_ip ipv6)),
       cf_etype := Some 0x86dd, cf_proto := Some (ucast (s6_protocol ipv6)),
       cf_src_port := Some (ucast (s6_src_port ipv6)), cf_dst_port := Some (ucast (s6_dst_port ipv6)),
       cf_tcp_flags := Some (ucast (s6_tcp_flags ipv6)),
       cf_bytes := ucast (s6_length ipv6), cf_packets := 1\<rparr>"

definition apply_extended_router :: "extended_router \<Rightarrow> common_flow \<Rightarrow> common_flow" where
  "apply_extended_router router flow =
     flow\<lparr>cf_next_hop := rt_nexthop router, cf_src_net := Some (ucast (rt_src_mask router)),
       cf_dst_net := Some (ucast (rt_dst_mask router))\<rparr>"

definition try_from_u32 :: "u32 \<Rightarrow> u16 option" where
  "try_from_u32 v = (if unat v < 2 ^ 16 then Some (ucast v) else None)"

definition apply_extended_switch :: "extended_switch \<Rightarrow> common_flow \<Rightarrow> common_flow" where
  "apply_extended_switch switch flow =
     flow\<lparr>cf_src_vlan := try_from_u32 (sw_src_vlan switch), cf_dst_vlan := try_from_u32 (sw_dst_vlan switch)\<rparr>"

definition apply_extended_gateway :: "extended_gateway \<Rightarrow> common_flow \<Rightarrow> common_flow" where
  "apply_extended_gateway gateway flow =
     flow\<lparr>cf_bgp_next_hop := gw_nexthop gateway, cf_src_as := Some (gw_src_as gateway),
       cf_dst_as := (if gw_dst_as_path gateway = [] then None
         else case last (gw_dst_as_path gateway) of
           AsSequence as_seq \<Rightarrow> if as_seq = [] then None else Some (last as_seq)
         | AsSet _ \<Rightarrow> None)\<rparr>"

definition apply_flow_record :: "etherparse \<Rightarrow> flow_record_type \<Rightarrow> common_flow \<Rightarrow> common_flow" where
  "apply_flow_record E record_type flow =
     (case record_type of
        SampledHeader header \<Rightarrow> apply_sampled_header E header flow
      | SampledEthernet ethernet \<Rightarrow> apply_sampled_ethernet ethernet flow
      | SampledIpv4 ipv4 \<Rightarrow> apply_sampled_ipv4 ipv4 flow
      | SampledIpv6 ipv6 \<Rightarrow> apply_sampled_ipv6 ipv6 flow
      | ExtendedRouter router \<Rightarrow> apply_extended_router router flow
      | ExtendedSwitch switch \<Rightarrow> apply_extended_switch switch flow
      | ExtendedGateway gateway \<Rightarrow> apply_extended_gateway gateway flow
      | _ \<Rightarrow> flow)"

definition sflow_convert_flow_sample :: "etherparse \<Rightarrow> sflow_v5 \<Rightarrow> flow_sample \<Rightarrow> common_flow" where
  "sflow_convert_flow_sample E header sample =
     (let flow = common_flow_new SflowV5Flow;
          flow = flow\<lparr>cf_sequence_num := sf_sequence_number header,
            cf_sampler_address := sf_agent_address header,
            cf_sampling_rate := Some (fl_sampling_rate sample),
            cf_in_if := compact_if_index (fl_input sample),
            cf_out_if := compact_if_index (fl_output sample)\<rparr>
      in fold (\<lambda>r. apply_flow_record E (fr_data r)) (fl_records sample) flow)"

definition sflow_convert_expanded_flow_sample ::
    "etherparse \<Rightarrow> sflow_v5 \<Rightarrow> expanded_flow_sample \<Rightarrow> common_flow" where
  "sflow_convert_expanded_flow_sample E header sample =
     (let flow = common_flow_new SflowV5Flow;
          flow = flow\<lparr>cf_sequence_num := sf_sequence_number header,
            cf_sampler_address := sf_agent_address header,
            cf_sampling_rate := Some (ef_sampling_rate sample),
            cf_in_if := if_index (ef_input_if_format sample) (ef_input_if_value sample),
            cf_out_if := if_index (ef_output_if_format sample) (ef_output_if_value sample)\<rparr>
      in fold (\<lambda>r. apply_flow_record E (fr_data r)) (ef_records sample) flow)"

section \<open>VLANs and interfaces\<close>

lemma link_vlan:
  "cf_src_vlan (apply_link sliced flow) = or_else (cf_src_vlan flow)
     (map_option (\<lambda>vlan. vh_vlan_id (case vlan of VlanSingle h \<Rightarrow> h | VlanDouble _ h \<Rightarrow> h)) (sp_vlan sliced))"
  by (auto simp: apply_link_def or_else_def Let_def split: option.split link_slice.split vlan_header.split)

lemma net_transport_vlan [simp]: "cf_src_vlan (apply_net_transport E sliced flow) = cf_src_vlan flow"
  by (simp add: apply_net_transport_def apply_transport_def apply_net_def
      split: option.split lax_net_slice.split transport_slice.split)

lemma peeled_vlan: "cf_src_vlan flow = Some v \<Longrightarrow> cf_src_vlan (apply_peeled E p flow) = Some v"
  by (simp add: apply_peeled_def link_vlan or_else_def)

lemma header_vlan: "cf_src_vlan flow = Some v \<Longrightarrow> cf_src_vlan (apply_sampled_header E header flow) = Some v"
  by (simp add: apply_sampled_header_def apply_ethernet_frame_def apply_ip_packet_def peeled_vlan Let_def
      split: header_protocol.split option.split)

lemma record_vlan:
  assumes "\<And>sw. r = ExtendedSwitch sw \<Longrightarrow> try_from_u32 (sw_src_vlan sw) = Some v"
    and "cf_src_vlan flow = Some v \<or> (\<exists>sw. r = ExtendedSwitch sw)"
  shows "cf_src_vlan (apply_flow_record E r flow) = Some v"
  using assms
  by (cases r) (auto simp: apply_flow_record_def header_vlan apply_sampled_ethernet_def apply_sampled_ipv4_def
      apply_sampled_ipv6_def apply_extended_router_def apply_extended_switch_def apply_extended_gateway_def)

lemma records_vlan:
  assumes "\<forall>r\<in>set rs. \<forall>sw. fr_data r = ExtendedSwitch sw \<longrightarrow> try_from_u32 (sw_src_vlan sw) = Some v"
    and "cf_src_vlan flow = Some v \<or> (\<exists>r\<in>set rs. \<exists>sw. fr_data r = ExtendedSwitch sw)"
  shows "cf_src_vlan (fold (\<lambda>r. apply_flow_record E (fr_data r)) rs flow) = Some v"
  using assms
proof (induction rs arbitrary: flow)
  case (Cons r rs)
  show ?case
  proof (cases "cf_src_vlan flow = Some v \<or> (\<exists>sw. fr_data r = ExtendedSwitch sw)")
    case True
    then have "cf_src_vlan (apply_flow_record E (fr_data r) flow) = Some v"
      using record_vlan [of "fr_data r" v flow E] Cons.prems(1) by auto
    then show ?thesis using Cons by simp
  next
    case False
    then have "\<exists>r\<in>set rs. \<exists>sw. fr_data r = ExtendedSwitch sw"
      using Cons.prems(2) by auto
    then show ?thesis using Cons by simp
  qed
qed simp

lemma record_interfaces:
  "cf_in_if (apply_flow_record E r flow) = cf_in_if flow \<and> cf_out_if (apply_flow_record E r flow) = cf_out_if flow"
proof -
  have link: "cf_in_if (apply_link s flow) = cf_in_if flow \<and> cf_out_if (apply_link s flow) = cf_out_if flow" for s flow
    by (simp add: apply_link_def Let_def split: option.split link_slice.split vlan_header.split)
  have net: "cf_in_if (apply_net_transport E s flow) = cf_in_if flow \<and>
      cf_out_if (apply_net_transport E s flow) = cf_out_if flow" for s flow
    by (simp add: apply_net_transport_def apply_transport_def apply_net_def
        split: option.split lax_net_slice.split transport_slice.split)
  have "cf_in_if (apply_peeled E p flow) = cf_in_if flow \<and> cf_out_if (apply_peeled E p flow) = cf_out_if flow" for p flow
    by (simp add: apply_peeled_def link net)
  then show ?thesis
    by (cases r) (simp_all add: apply_flow_record_def apply_sampled_ethernet_def apply_sampled_ipv4_def
      apply_sampled_ipv6_def apply_extended_router_def apply_extended_switch_def apply_extended_gateway_def
      apply_sampled_header_def apply_ethernet_frame_def apply_ip_packet_def Let_def
      split: header_protocol.split option.split)
qed

lemma records_interfaces:
  "cf_in_if (fold (\<lambda>r. apply_flow_record E (fr_data r)) rs flow) = cf_in_if flow \<and>
   cf_out_if (fold (\<lambda>r. apply_flow_record E (fr_data r)) rs flow) = cf_out_if flow"
  using record_interfaces by (induction rs arbitrary: flow) simp_all

lemma compact_if_index_iff: "compact_if_index field = Some n \<longleftrightarrow> field = n \<and> n \<noteq> 0 \<and> unat n < 2 ^ 30 - 1"
proof -
  have mask: "INTERFACE_VALUE_MASK = mask 30" by (simp add: INTERFACE_VALUE_MASK_def mask_eq_exp_minus_1)
  have low: "unat (field AND INTERFACE_VALUE_MASK) = unat field mod 2 ^ 30"
    unfolding mask take_bit_eq_mask [symmetric] unsigned_take_bit_eq by (rule take_bit_eq_mod)
  have high: "drop_bit 30 field = 0 \<longleftrightarrow> unat field < 2 ^ 30"
  proof -
    have "unat (drop_bit 30 field) = unat field div 2 ^ 30"
      by (simp only: drop_bit_eq_div unat_div_distrib) simp
    then show ?thesis by (simp only: word_unat_eq_iff unsigned_0 div_eq_0_iff) simp
  qed
  show ?thesis
  proof (cases "unat field < 2 ^ 30")
    case True
    then have "field AND INTERFACE_VALUE_MASK = field"
      using low by (simp add: word_unat_eq_iff)
    with True show ?thesis
      using high by (auto simp: compact_if_index_def if_index_def INTERNAL_INTERFACE_def word_unat_eq_iff Let_def)
  next
    case False
    then show ?thesis
      using high by (auto simp: compact_if_index_def if_index_def Let_def)
  qed
qed

lemma if_index_iff: "if_index format value = Some n \<longleftrightarrow> format = 0 \<and> value = n \<and> n \<noteq> 0"
  by (auto simp: if_index_def)

section \<open>Properties\<close>

text \<open>An sFlow sample with a switch record that knows the VLAN becomes a flow with that VLAN, in
  whichever order the switch record and the sampled headers, with tags of their own, come.\<close>

theorem sflow_vlan:
  assumes "r \<in> set (fl_records sample)" and "fr_data r = ExtendedSwitch sw" and "unat (sw_src_vlan sw) < 2 ^ 16"
    and "\<forall>r'\<in>set (fl_records sample). \<forall>sw'. fr_data r' = ExtendedSwitch sw' \<longrightarrow> sw_src_vlan sw' = sw_src_vlan sw"
  shows "cf_src_vlan (sflow_convert_flow_sample E header sample) = Some (ucast (sw_src_vlan sw))"
proof -
  have v: "try_from_u32 (sw_src_vlan sw) = Some (ucast (sw_src_vlan sw))"
    using assms(3) by (simp add: try_from_u32_def)
  show ?thesis
    unfolding sflow_convert_flow_sample_def Let_def
    by (rule records_vlan) (metis v assms(4), use assms(1,2) in blast)
qed

definition example_switch :: "u32 \<Rightarrow> flow_record" where
  "example_switch vlan = \<lparr>fr_header = \<lparr>rh_data_format = 1001, rh_length = 16\<rparr>,
     fr_data = ExtendedSwitch \<lparr>sw_src_vlan = vlan, sw_src_priority = 0, sw_dst_vlan = vlan, sw_dst_priority = 0\<rparr>\<rparr>"

definition example_flow_sample :: "flow_record list \<Rightarrow> flow_sample" where
  "example_flow_sample rs = \<lparr>fl_header = \<lparr>sh_format = 1, sh_length = 100, sh_sample_sequence_number = 1,
       sh_source_id_type = 0, sh_source_id_value = 3\<rparr>,
     fl_sampling_rate = 1000, fl_sample_pool = 5000, fl_drops = 0, fl_input = 3, fl_output = 0x80000002,
     fl_records = rs\<rparr>"

theorem sflow_vlan_witness:
  "\<forall>E header. cf_src_vlan (sflow_convert_flow_sample E header (example_flow_sample [example_switch 7])) = Some 7"
proof -
  let ?sw = "\<lparr>sw_src_vlan = 7, sw_src_priority = 0, sw_dst_vlan = 7, sw_dst_priority = 0\<rparr>"
  have "fl_records (example_flow_sample [example_switch 7]) = [example_switch 7]"
    and sw: "fr_data (example_switch 7) = ExtendedSwitch ?sw"
    by (simp_all add: example_flow_sample_def example_switch_def)
  then show ?thesis
    using sflow_vlan [OF _ sw, of "example_flow_sample [example_switch 7]"] by simp
qed

text \<open>The interfaces of an sFlow flow are interface indices: those of format 0, not 0 (unknown)
  and, in a compact sample, not the value for the agent itself. No record of the sample changes
  them.\<close>

theorem sflow_interfaces:
  "(cf_in_if (sflow_convert_flow_sample E header s) = Some n \<longleftrightarrow> fl_input s = n \<and> n \<noteq> 0 \<and> unat n < 2 ^ 30 - 1) \<and>
   (cf_out_if (sflow_convert_flow_sample E header s) = Some n \<longleftrightarrow> fl_output s = n \<and> n \<noteq> 0 \<and> unat n < 2 ^ 30 - 1) \<and>
   (cf_in_if (sflow_convert_expanded_flow_sample E header x) = Some n \<longleftrightarrow>
     ef_input_if_format x = 0 \<and> ef_input_if_value x = n \<and> n \<noteq> 0) \<and>
   (cf_out_if (sflow_convert_expanded_flow_sample E header x) = Some n \<longleftrightarrow>
     ef_output_if_format x = 0 \<and> ef_output_if_value x = n \<and> n \<noteq> 0)"
  by (simp add: sflow_convert_flow_sample_def sflow_convert_expanded_flow_sample_def records_interfaces Let_def
      compact_if_index_iff if_index_iff del: One_nat_def)

text \<open>
  When the switch record does not know the VLAN, the order does matter: before the header it leaves
  the frame's tag, after it it removes it.
\<close>

theorem sflow_unknown_vlan_depends_on_order:
  assumes "peel_ethernet E bs = Some p" and "sp_vlan (unwrap_or (pl_packet p) (pl_link p)) = Some (VlanSingle tag)"
    and "fr_data r = SampledHeader \<lparr>hd_protocol = HpEthernetIso8023, hd_frame_length = len, hd_stripped = st, hd_header = bs\<rparr>"
  shows "cf_src_vlan (sflow_convert_flow_sample E header (example_flow_sample [r, example_switch 0xffffffff])) = None \<and>
    cf_src_vlan (sflow_convert_flow_sample E header (example_flow_sample [example_switch 0xffffffff, r])) =
      Some (vh_vlan_id tag)"
  using assms(1,2)
  by (simp add: sflow_convert_flow_sample_def example_flow_sample_def example_switch_def assms(3) apply_flow_record_def
      apply_sampled_header_def apply_ethernet_frame_def apply_peeled_def link_vlan apply_extended_switch_def
      try_from_u32_def common_flow_new_def common_flow_default_def)

end
