(* ===== verification/ConvertIpfix.thy ===== *)
theory ConvertIpfix
  imports ConvertPacket
begin

text \<open>
  \<^verbatim>\<open>common/convert/ipfix.rs\<close>: flows from IPFIX data records, which may carry the first bytes of a
  sampled packet beside or instead of the elements of a flow.
\<close>

definition iana_element :: "field_specifier \<Rightarrow> information_element option" where
  "iana_element field =
     (case fs_enterprise_number field of None \<Rightarrow> ie_from_id (fs_id field) | Some _ \<Rightarrow> None)"

text \<open>The header's time is 32 bits of seconds and the delta 32 bits of microseconds, so the difference
  stays in the range of \<^verbatim>\<open>i64\<close> (\<open>delta_in_range\<close>).\<close>

definition ipfix_delta_to_absolute_ns :: "chrono \<Rightarrow> ipfix_header \<Rightarrow> u32 \<Rightarrow> int option" where
  "ipfix_delta_to_absolute_ns C header delta_us =
     map_option (\<lambda>export_time_ns. export_time_ns - uint delta_us * 1000)
       (ch_timestamp_nanos_opt C (ih_export_time header))"

text \<open>\<^verbatim>\<open>wrapping_sub\<close> on \<^verbatim>\<open>i64\<close>, then the cast to \<^verbatim>\<open>u32\<close>: the difference modulo \<open>2 ^ 32\<close>.\<close>

definition ipfix_uptime_to_absolute_ns :: "chrono \<Rightarrow> ipfix_header \<Rightarrow> int option \<Rightarrow> u32 \<Rightarrow> int option" where
  "ipfix_uptime_to_absolute_ns C header system_init_time_ms uptime_ms =
     (let export_time = ih_export_time header in
      case system_init_time_ms of
        None \<Rightarrow> None
      | Some boot \<Rightarrow>
          let sys_uptime_ms = word_of_int (ch_timestamp_millis C export_time - boot)
          in uptime_to_absolute_ns C export_time sys_uptime_ms uptime_ms)"

definition ipfix_extract_u64 :: "ipfix_value \<Rightarrow> u64 option" where
  "ipfix_extract_u64 value =
     (case value of Unsigned8 v \<Rightarrow> Some (ucast v) | Unsigned16 v \<Rightarrow> Some (ucast v)
      | Unsigned32 v \<Rightarrow> Some (ucast v) | Unsigned64 v \<Rightarrow> Some v | _ \<Rightarrow> None)"

definition ipfix_extract_u8 :: "ipfix_value \<Rightarrow> u8 option" where
  "ipfix_extract_u8 value = ipfix_extract_u64 value \<bind> try_from_u64"

definition ipfix_extract_u16 :: "ipfix_value \<Rightarrow> u16 option" where
  "ipfix_extract_u16 value = ipfix_extract_u64 value \<bind> try_from_u64"

definition ipfix_extract_u32 :: "ipfix_value \<Rightarrow> u32 option" where
  "ipfix_extract_u32 value = ipfix_extract_u64 value \<bind> try_from_u64"

definition ipfix_extract_datetime_ns :: "chrono \<Rightarrow> ipfix_value \<Rightarrow> int option" where
  "ipfix_extract_datetime_ns C value =
     (case value of DateTimeSeconds dt \<Rightarrow> ch_timestamp_nanos_opt C dt
      | DateTimeMilliseconds dt \<Rightarrow> ch_timestamp_nanos_opt C dt
      | DateTimeMicroseconds dt \<Rightarrow> ch_timestamp_nanos_opt C dt
      | DateTimeNanoseconds dt \<Rightarrow> ch_timestamp_nanos_opt C dt
      | _ \<Rightarrow> None)"

section \<open>Sampling\<close>

record sampling_fields =
  sm_rate :: "u32 option"
  sm_packet_interval :: "u32 option"
  sm_packet_space :: "u32 option"

definition sampling_default :: sampling_fields where
  "sampling_default = \<lparr>sm_rate = None, sm_packet_interval = None, sm_packet_space = None\<rparr>"

definition sampling_observe :: "information_element \<Rightarrow> ipfix_value \<Rightarrow> sampling_fields \<Rightarrow> sampling_fields" where
  "sampling_observe ie value self =
     (if ie = SamplingInterval \<or> ie = SamplerRandomInterval then
        self\<lparr>sm_rate := or_else (sm_rate self) (ipfix_extract_u32 value)\<rparr>
      else if ie = SamplingPacketInterval then self\<lparr>sm_packet_interval := ipfix_extract_u32 value\<rparr>
      else if ie = SamplingPacketSpace then self\<lparr>sm_packet_space := ipfix_extract_u32 value\<rparr>
      else self)"

definition sampling_rate :: "sampling_fields \<Rightarrow> u32 option" where
  "sampling_rate self =
     (case sm_rate self of
        Some rate \<Rightarrow> Some rate
      | None \<Rightarrow>
          (case (sm_packet_interval self, sm_packet_space self) of
             (Some interval, Some space) \<Rightarrow>
               if 0 < interval then
                 let population = (ucast interval :: u64) + ucast space in
                 if population mod ucast interval = 0 then try_from_u64 (population div ucast interval) else None
               else Some interval
           | (interval, _) \<Rightarrow> interval))"

definition extract_ipfix_sampling_rate :: "ipfix_data_record \<Rightarrow> u32 option" where
  "extract_ipfix_sampling_rate r =
     sampling_rate (fold (\<lambda>(field, _, value) sampling.
         case iana_element field of Some ie \<Rightarrow> sampling_observe ie value sampling | None \<Rightarrow> sampling)
       (record_iter r) sampling_default)"

definition extract_ipfix_sampler_id :: "ipfix_data_record \<Rightarrow> u64 option" where
  "extract_ipfix_sampler_id r =
     (case find (\<lambda>(field, _, _). iana_element field = Some SamplerId \<or> iana_element field = Some SelectorId)
          (record_iter r) of
        Some (_, _, value) \<Rightarrow> ipfix_extract_u64 value
      | None \<Rightarrow> None)"

definition extract_ipfix_system_init_time :: "chrono \<Rightarrow> ipfix_data_record \<Rightarrow> int option" where
  "extract_ipfix_system_init_time C r =
     first_some (\<lambda>field value.
       if iana_element field \<noteq> Some SystemInitTimeMilliseconds then None
       else case value of DateTimeMilliseconds dt \<Rightarrow> Some (ch_timestamp_millis C dt) | _ \<Rightarrow> None) (record_iter r)"

section \<open>Records\<close>

datatype packet_section = SectionFrame bytes | SectionIp bytes

definition section_len :: "packet_section \<Rightarrow> nat" where
  "section_len self = (case self of SectionFrame bs \<Rightarrow> length bs | SectionIp bs \<Rightarrow> length bs)"

text \<open>The loop: a frame section ends it, an IP header section is remembered.\<close>

fun packet_section_loop ::
    "(field_specifier \<times> string \<times> ipfix_value) list \<Rightarrow> bytes option \<Rightarrow> packet_section option" where
  "packet_section_loop [] ip = map_option SectionIp ip"
| "packet_section_loop ((field, _, value) # entries) ip =
     (case value of
        OctetArray bs \<Rightarrow>
          if iana_element field = Some DataLinkFrameSection then Some (SectionFrame bs)
          else if iana_element field = Some IpHeaderPacketSection then packet_section_loop entries (Some bs)
          else packet_section_loop entries ip
      | _ \<Rightarrow> packet_section_loop entries ip)"

definition packet_section :: "ipfix_data_record \<Rightarrow> packet_section option" where
  "packet_section r = packet_section_loop (record_iter r) None"

text \<open>What one field of a record sets in the flow. \<open>up\<close> and \<open>delta\<close> are
  \<^verbatim>\<open>self.uptime_to_absolute_ns\<close> and \<^verbatim>\<open>self.delta_to_absolute_ns\<close>.\<close>

definition ipfix_set_field ::
    "chrono \<Rightarrow> (u32 \<Rightarrow> int option) \<Rightarrow> (u32 \<Rightarrow> int option) \<Rightarrow> information_element \<Rightarrow> ipfix_value \<Rightarrow>
     common_flow \<Rightarrow> common_flow" where
  "ipfix_set_field C up delta ie value flow =
     (case ie of
        OctetDeltaCount \<Rightarrow> flow\<lparr>cf_bytes := unwrap_or 0 (ipfix_extract_u64 value)\<rparr>
      | PacketDeltaCount \<Rightarrow> flow\<lparr>cf_packets := unwrap_or 0 (ipfix_extract_u64 value)\<rparr>
      | ProtocolIdentifier \<Rightarrow> flow\<lparr>cf_proto := ipfix_extract_u8 value\<rparr>
      | IpClassOfService \<Rightarrow> flow\<lparr>cf_ip_tos := ipfix_extract_u8 value\<rparr>
      | TcpControlBits \<Rightarrow> flow\<lparr>cf_tcp_flags := ipfix_extract_u16 value\<rparr>
      | SourceTransportPort \<Rightarrow> flow\<lparr>cf_src_port := ipfix_extract_u16 value\<rparr>
      | SourceIpv4Address \<Rightarrow> (case value of Ipv4Address addr \<Rightarrow> flow\<lparr>cf_src_addr := Some (V4 addr), cf_etype := Some 0x0800\<rparr> | _ \<Rightarrow> flow)
      | SourceIpv4PrefixLength \<Rightarrow> flow\<lparr>cf_src_net := ipfix_extract_u8 value\<rparr>
      | IngressInterface \<Rightarrow> flow\<lparr>cf_in_if := ipfix_extract_u32 value\<rparr>
      | DestinationTransportPort \<Rightarrow> flow\<lparr>cf_dst_port := ipfix_extract_u16 value\<rparr>
      | DestinationIpv4Address \<Rightarrow> (case value of Ipv4Address addr \<Rightarrow> flow\<lparr>cf_dst_addr := Some (V4 addr)\<rparr> | _ \<Rightarrow> flow)
      | DestinationIpv4PrefixLength \<Rightarrow> flow\<lparr>cf_dst_net := ipfix_extract_u8 value\<rparr>
      | EgressInterface \<Rightarrow> flow\<lparr>cf_out_if := ipfix_extract_u32 value\<rparr>
      | ForwardingStatus \<Rightarrow> flow\<lparr>cf_forwarding_status := ipfix_extract_u32 value\<rparr>
      | IpNextHopIpv4Address \<Rightarrow> (case value of Ipv4Address addr \<Rightarrow> flow\<lparr>cf_next_hop := Some (V4 addr)\<rparr> | _ \<Rightarrow> flow)
      | BgpSourceAsNumber \<Rightarrow> flow\<lparr>cf_src_as := ipfix_extract_u32 value\<rparr>
      | BgpDestinationAsNumber \<Rightarrow> flow\<lparr>cf_dst_as := ipfix_extract_u32 value\<rparr>
      | BgpNextHopIpv4Address \<Rightarrow> (case value of Ipv4Address addr \<Rightarrow> flow\<lparr>cf_bgp_next_hop := Some (V4 addr)\<rparr> | _ \<Rightarrow> flow)
      | FlowStartSysUpTime \<Rightarrow> flow\<lparr>cf_time_flow_start_ns := ipfix_extract_u32 value \<bind> up\<rparr>
      | FlowEndSysUpTime \<Rightarrow> flow\<lparr>cf_time_flow_end_ns := ipfix_extract_u32 value \<bind> up\<rparr>
      | FlowStartDeltaMicroseconds \<Rightarrow> flow\<lparr>cf_time_flow_start_ns := ipfix_extract_u32 value \<bind> delta\<rparr>
      | FlowEndDeltaMicroseconds \<Rightarrow> flow\<lparr>cf_time_flow_end_ns := ipfix_extract_u32 value \<bind> delta\<rparr>
      | FlowStartSeconds \<Rightarrow> flow\<lparr>cf_time_flow_start_ns := ipfix_extract_datetime_ns C value\<rparr>
      | FlowStartMilliseconds \<Rightarrow> flow\<lparr>cf_time_flow_start_ns := ipfix_extract_datetime_ns C value\<rparr>
      | FlowStartMicroseconds \<Rightarrow> flow\<lparr>cf_time_flow_start_ns := ipfix_extract_datetime_ns C value\<rparr>
      | FlowStartNanoseconds \<Rightarrow> flow\<lparr>cf_time_flow_start_ns := ipfix_extract_datetime_ns C value\<rparr>
      | FlowEndSeconds \<Rightarrow> flow\<lparr>cf_time_flow_end_ns := ipfix_extract_datetime_ns C value\<rparr>
      | FlowEndMilliseconds \<Rightarrow> flow\<lparr>cf_time_flow_end_ns := ipfix_extract_datetime_ns C value\<rparr>
      | FlowEndMicroseconds \<Rightarrow> flow\<lparr>cf_time_flow_end_ns := ipfix_extract_datetime_ns C value\<rparr>
      | FlowEndNanoseconds \<Rightarrow> flow\<lparr>cf_time_flow_end_ns := ipfix_extract_datetime_ns C value\<rparr>
      | SourceIpv6Address \<Rightarrow> (case value of Ipv6Address addr \<Rightarrow> flow\<lparr>cf_src_addr := Some (V6 addr), cf_etype := Some 0x86dd\<rparr> | _ \<Rightarrow> flow)
      | DestinationIpv6Address \<Rightarrow> (case value of Ipv6Address addr \<Rightarrow> flow\<lparr>cf_dst_addr := Some (V6 addr)\<rparr> | _ \<Rightarrow> flow)
      | SourceIpv6PrefixLength \<Rightarrow> flow\<lparr>cf_src_net := ipfix_extract_u8 value\<rparr>
      | DestinationIpv6PrefixLength \<Rightarrow> flow\<lparr>cf_dst_net := ipfix_extract_u8 value\<rparr>
      | FlowLabelIpv6 \<Rightarrow> flow\<lparr>cf_ipv6_flow_label := ipfix_extract_u32 value\<rparr>
      | IcmpTypeCodeIpv4 \<Rightarrow> (case ipfix_extract_u16 value of Some v \<Rightarrow> flow\<lparr>cf_icmp_type := Some (ucast (drop_bit 8 v)), cf_icmp_code := Some (ucast (v AND 0xff))\<rparr> | None \<Rightarrow> flow)
      | IcmpTypeCodeIpv6 \<Rightarrow> (case ipfix_extract_u16 value of Some v \<Rightarrow> flow\<lparr>cf_icmp_type := Some (ucast (drop_bit 8 v)), cf_icmp_code := Some (ucast (v AND 0xff))\<rparr> | None \<Rightarrow> flow)
      | IcmpTypeIpv4 \<Rightarrow> flow\<lparr>cf_icmp_type := ipfix_extract_u8 value\<rparr>
      | IcmpTypeIpv6 \<Rightarrow> flow\<lparr>cf_icmp_type := ipfix_extract_u8 value\<rparr>
      | IcmpCodeIpv4 \<Rightarrow> flow\<lparr>cf_icmp_code := ipfix_extract_u8 value\<rparr>
      | IcmpCodeIpv6 \<Rightarrow> flow\<lparr>cf_icmp_code := ipfix_extract_u8 value\<rparr>
      | SrcVlan \<Rightarrow> flow\<lparr>cf_src_vlan := ipfix_extract_u16 value\<rparr>
      | DstVlan \<Rightarrow> flow\<lparr>cf_dst_vlan := ipfix_extract_u16 value\<rparr>
      | IpNextHopIpv6Address \<Rightarrow> (case value of Ipv6Address addr \<Rightarrow> flow\<lparr>cf_next_hop := Some (V6 addr)\<rparr> | _ \<Rightarrow> flow)
      | BgpNextHopIpv6Address \<Rightarrow> (case value of Ipv6Address addr \<Rightarrow> flow\<lparr>cf_bgp_next_hop := Some (V6 addr)\<rparr> | _ \<Rightarrow> flow)
      | MinimumTtl \<Rightarrow> flow\<lparr>cf_ip_ttl := ipfix_extract_u8 value\<rparr>
      | MaximumTtl \<Rightarrow> flow\<lparr>cf_ip_ttl := ipfix_extract_u8 value\<rparr>
      | FragmentIdentification \<Rightarrow> flow\<lparr>cf_fragment_id := ipfix_extract_u32 value\<rparr>
      | SourceMacAddress \<Rightarrow> (case value of MacAddress mac \<Rightarrow> flow\<lparr>cf_src_mac := Some mac\<rparr> | _ \<Rightarrow> flow)
      | PostSourceMacAddress \<Rightarrow> (case value of MacAddress mac \<Rightarrow> flow\<lparr>cf_src_mac := Some mac\<rparr> | _ \<Rightarrow> flow)
      | DestinationMacAddress \<Rightarrow> (case value of MacAddress mac \<Rightarrow> flow\<lparr>cf_dst_mac := Some mac\<rparr> | _ \<Rightarrow> flow)
      | PostDestinationMacAddress \<Rightarrow> (case value of MacAddress mac \<Rightarrow> flow\<lparr>cf_dst_mac := Some mac\<rparr> | _ \<Rightarrow> flow)
      | _ \<Rightarrow> flow)"

text \<open>One round of the loop, on the flow, \<^verbatim>\<open>frame_size\<close> and \<^verbatim>\<open>sampling\<close>.\<close>

type_synonym ipfix_converting = "common_flow \<times> u64 option \<times> sampling_fields"

definition ipfix_convert_field ::
    "chrono \<Rightarrow> ipfix_header \<Rightarrow> int option \<Rightarrow> field_specifier \<times> string \<times> ipfix_value \<Rightarrow>
     ipfix_converting \<Rightarrow> ipfix_converting" where
  "ipfix_convert_field C header boot entry st =
     (case (entry, st) of ((field, _, value), (flow, frame_size, sampling)) \<Rightarrow>
       (case iana_element field of
          None \<Rightarrow> (flow, frame_size, sampling)
        | Some ie \<Rightarrow>
            if ie = DataLinkFrameSize then (flow, ipfix_extract_u64 value, sampling)
            else if ie = SamplingInterval \<or> ie = SamplerRandomInterval \<or> ie = SamplingPacketInterval \<or>
              ie = SamplingPacketSpace then (flow, frame_size, sampling_observe ie value sampling)
            else (ipfix_set_field C (ipfix_uptime_to_absolute_ns C header boot)
              (ipfix_delta_to_absolute_ns C header) ie value flow, frame_size, sampling)))"

text \<open>The flow the fields are applied to: empty, but for the headers of a packet section.\<close>

definition ipfix_base_flow ::
    "etherparse \<Rightarrow> ipfix_header \<Rightarrow> ip_addr option \<Rightarrow> u16 \<Rightarrow> packet_section option \<Rightarrow> common_flow" where
  "ipfix_base_flow E header sampler_address template_id section =
     (let flow = common_flow_new IpfixFlow;
          flow = flow\<lparr>cf_sequence_num := ih_sequence_number header, cf_sampler_address := sampler_address,
            cf_observation_domain_id := Some (ih_domain header), cf_template_id := Some template_id\<rparr>
      in case section of
           Some (SectionFrame bs) \<Rightarrow> apply_ethernet_frame E bs flow
         | Some (SectionIp bs) \<Rightarrow> apply_ip_packet E bs flow
         | None \<Rightarrow> flow)"

definition ipfix_convert ::
    "etherparse \<Rightarrow> chrono \<Rightarrow> ipfix_header \<Rightarrow> ip_addr option \<Rightarrow> u32 option \<Rightarrow> int option \<Rightarrow>
     ipfix_data_record \<Rightarrow> u16 \<Rightarrow> common_flow" where
  "ipfix_convert E C header sampler_address rate boot r template_id =
     (let section = packet_section r;
          flow = ipfix_base_flow E header sampler_address template_id section;
          (flow, frame_size, sampling) =
            fold (ipfix_convert_field C header boot) (record_iter r) (flow, None, sampling_default);
          flow = flow\<lparr>cf_sampling_rate := or_else (sampling_rate sampling) rate\<rparr>
      in case section of
           Some section \<Rightarrow>
             let flow = (if cf_bytes flow = 0 then
                    flow\<lparr>cf_bytes := unwrap_or (word_of_nat (section_len section)) frame_size\<rparr> else flow)
             in if cf_packets flow = 0 then flow\<lparr>cf_packets := 1\<rparr> else flow
         | None \<Rightarrow> flow)"

section \<open>What the last field sets\<close>

lemma ipfix_set_parts:
  "cf_bytes (ipfix_set_field C up delta ie value flow) =
     unwrap_or (cf_bytes flow) (among [OctetDeltaCount] (Some (unwrap_or 0 (ipfix_extract_u64 value))) ie)"
  "cf_packets (ipfix_set_field C up delta ie value flow) =
     unwrap_or (cf_packets flow) (among [PacketDeltaCount] (Some (unwrap_or 0 (ipfix_extract_u64 value))) ie)"
  "cf_proto (ipfix_set_field C up delta ie value flow) =
     unwrap_or (cf_proto flow) (among [ProtocolIdentifier] (Some (ipfix_extract_u8 value)) ie)"
  "cf_ip_tos (ipfix_set_field C up delta ie value flow) =
     unwrap_or (cf_ip_tos flow) (among [IpClassOfService] (Some (ipfix_extract_u8 value)) ie)"
  "cf_tcp_flags (ipfix_set_field C up delta ie value flow) =
     unwrap_or (cf_tcp_flags flow) (among [TcpControlBits] (Some (ipfix_extract_u16 value)) ie)"
  "cf_src_port (ipfix_set_field C up delta ie value flow) =
     unwrap_or (cf_src_port flow) (among [SourceTransportPort] (Some (ipfix_extract_u16 value)) ie)"
  "cf_dst_port (ipfix_set_field C up delta ie value flow) =
     unwrap_or (cf_dst_port flow) (among [DestinationTransportPort] (Some (ipfix_extract_u16 value)) ie)"
  "cf_in_if (ipfix_set_field C up delta ie value flow) =
     unwrap_or (cf_in_if flow) (among [IngressInterface] (Some (ipfix_extract_u32 value)) ie)"
  "cf_out_if (ipfix_set_field C up delta ie value flow) =
     unwrap_or (cf_out_if flow) (among [EgressInterface] (Some (ipfix_extract_u32 value)) ie)"
  "cf_src_addr (ipfix_set_field C up delta ie value flow) =
     unwrap_or (cf_src_addr flow) (or_else (among [SourceIpv4Address] (case value of Ipv4Address a \<Rightarrow> Some (Some (V4 a)) | _ \<Rightarrow> None) ie) (among [SourceIpv6Address] (case value of Ipv6Address a \<Rightarrow> Some (Some (V6 a)) | _ \<Rightarrow> None) ie))"
  "cf_dst_addr (ipfix_set_field C up delta ie value flow) =
     unwrap_or (cf_dst_addr flow) (or_else (among [DestinationIpv4Address] (case value of Ipv4Address a \<Rightarrow> Some (Some (V4 a)) | _ \<Rightarrow> None) ie) (among [DestinationIpv6Address] (case value of Ipv6Address a \<Rightarrow> Some (Some (V6 a)) | _ \<Rightarrow> None) ie))"
  "cf_next_hop (ipfix_set_field C up delta ie value flow) =
     unwrap_or (cf_next_hop flow) (or_else (among [IpNextHopIpv4Address] (case value of Ipv4Address a \<Rightarrow> Some (Some (V4 a)) | _ \<Rightarrow> None) ie) (among [IpNextHopIpv6Address] (case value of Ipv6Address a \<Rightarrow> Some (Some (V6 a)) | _ \<Rightarrow> None) ie))"
  "cf_bgp_next_hop (ipfix_set_field C up delta ie value flow) =
     unwrap_or (cf_bgp_next_hop flow) (or_else (among [BgpNextHopIpv4Address] (case value of Ipv4Address a \<Rightarrow> Some (Some (V4 a)) | _ \<Rightarrow> None) ie) (among [BgpNextHopIpv6Address] (case value of Ipv6Address a \<Rightarrow> Some (Some (V6 a)) | _ \<Rightarrow> None) ie))"
  "cf_src_net (ipfix_set_field C up delta ie value flow) =
     unwrap_or (cf_src_net flow) (among [SourceIpv4PrefixLength, SourceIpv6PrefixLength] (Some (ipfix_extract_u8 value)) ie)"
  "cf_dst_net (ipfix_set_field C up delta ie value flow) =
     unwrap_or (cf_dst_net flow) (among [DestinationIpv4PrefixLength, DestinationIpv6PrefixLength] (Some (ipfix_extract_u8 value)) ie)"
  "cf_src_as (ipfix_set_field C up delta ie value flow) =
     unwrap_or (cf_src_as flow) (among [BgpSourceAsNumber] (Some (ipfix_extract_u32 value)) ie)"
  "cf_dst_as (ipfix_set_field C up delta ie value flow) =
     unwrap_or (cf_dst_as flow) (among [BgpDestinationAsNumber] (Some (ipfix_extract_u32 value)) ie)"
  "cf_forwarding_status (ipfix_set_field C up delta ie value flow) =
     unwrap_or (cf_forwarding_status flow) (among [ForwardingStatus] (Some (ipfix_extract_u32 value)) ie)"
  "cf_ipv6_flow_label (ipfix_set_field C up delta ie value flow) =
     unwrap_or (cf_ipv6_flow_label flow) (among [FlowLabelIpv6] (Some (ipfix_extract_u32 value)) ie)"
  "cf_src_vlan (ipfix_set_field C up delta ie value flow) =
     unwrap_or (cf_src_vlan flow) (among [SrcVlan] (Some (ipfix_extract_u16 value)) ie)"
  "cf_dst_vlan (ipfix_set_field C up delta ie value flow) =
     unwrap_or (cf_dst_vlan flow) (among [DstVlan] (Some (ipfix_extract_u16 value)) ie)"
  "cf_ip_ttl (ipfix_set_field C up delta ie value flow) =
     unwrap_or (cf_ip_ttl flow) (among [MinimumTtl, MaximumTtl] (Some (ipfix_extract_u8 value)) ie)"
  "cf_fragment_id (ipfix_set_field C up delta ie value flow) =
     unwrap_or (cf_fragment_id flow) (among [FragmentIdentification] (Some (ipfix_extract_u32 value)) ie)"
  "cf_time_flow_start_ns (ipfix_set_field C up delta ie value flow) =
     unwrap_or (cf_time_flow_start_ns flow) (or_else (among [FlowStartSysUpTime] (Some (ipfix_extract_u32 value \<bind> up)) ie) (or_else (among [FlowStartDeltaMicroseconds] (Some (ipfix_extract_u32 value \<bind> delta)) ie) (among [FlowStartSeconds, FlowStartMilliseconds, FlowStartMicroseconds, FlowStartNanoseconds] (Some (ipfix_extract_datetime_ns C value)) ie)))"
  "cf_time_flow_end_ns (ipfix_set_field C up delta ie value flow) =
     unwrap_or (cf_time_flow_end_ns flow) (or_else (among [FlowEndSysUpTime] (Some (ipfix_extract_u32 value \<bind> up)) ie) (or_else (among [FlowEndDeltaMicroseconds] (Some (ipfix_extract_u32 value \<bind> delta)) ie) (among [FlowEndSeconds, FlowEndMilliseconds, FlowEndMicroseconds, FlowEndNanoseconds] (Some (ipfix_extract_datetime_ns C value)) ie)))"
  "cf_icmp_type (ipfix_set_field C up delta ie value flow) =
     unwrap_or (cf_icmp_type flow) (or_else (among [IcmpTypeIpv4, IcmpTypeIpv6] (Some (ipfix_extract_u8 value)) ie) (among [IcmpTypeCodeIpv4, IcmpTypeCodeIpv6] (map_option (\<lambda>v. Some (ucast (drop_bit 8 v))) (ipfix_extract_u16 value)) ie))"
  "cf_icmp_code (ipfix_set_field C up delta ie value flow) =
     unwrap_or (cf_icmp_code flow) (or_else (among [IcmpCodeIpv4, IcmpCodeIpv6] (Some (ipfix_extract_u8 value)) ie) (among [IcmpTypeCodeIpv4, IcmpTypeCodeIpv6] (map_option (\<lambda>v. Some (ucast (v AND 0xff))) (ipfix_extract_u16 value)) ie))"
  "cf_etype (ipfix_set_field C up delta ie value flow) =
     unwrap_or (cf_etype flow) (or_else (among [SourceIpv4Address] (case value of Ipv4Address _ \<Rightarrow> Some (Some 0x0800) | _ \<Rightarrow> None) ie) (among [SourceIpv6Address] (case value of Ipv6Address _ \<Rightarrow> Some (Some 0x86dd) | _ \<Rightarrow> None) ie))"
  "cf_src_mac (ipfix_set_field C up delta ie value flow) =
     unwrap_or (cf_src_mac flow) (among [SourceMacAddress, PostSourceMacAddress] (case value of MacAddress mac \<Rightarrow> Some (Some mac) | _ \<Rightarrow> None) ie)"
  "cf_dst_mac (ipfix_set_field C up delta ie value flow) =
     unwrap_or (cf_dst_mac flow) (among [DestinationMacAddress, PostDestinationMacAddress] (case value of MacAddress mac \<Rightarrow> Some (Some mac) | _ \<Rightarrow> None) ie)"
  by (atomize (full)) (cases ie; simp add: ipfix_set_field_def among_def split: ipfix_value.split option.split)

text \<open>The parts no field sets.\<close>

lemma ipfix_keeps_parts:
  "cf_flow_type (ipfix_set_field C up delta ie value flow) = unwrap_or (cf_flow_type flow) None"
  "cf_time_received_ns (ipfix_set_field C up delta ie value flow) = unwrap_or (cf_time_received_ns flow) None"
  "cf_sequence_num (ipfix_set_field C up delta ie value flow) = unwrap_or (cf_sequence_num flow) None"
  "cf_sampler_address (ipfix_set_field C up delta ie value flow) = unwrap_or (cf_sampler_address flow) None"
  "cf_observation_domain_id (ipfix_set_field C up delta ie value flow) = unwrap_or (cf_observation_domain_id flow) None"
  "cf_template_id (ipfix_set_field C up delta ie value flow) = unwrap_or (cf_template_id flow) None"
  "cf_fragment_offset (ipfix_set_field C up delta ie value flow) = unwrap_or (cf_fragment_offset flow) None"
  by (atomize (full)) (cases ie; simp add: ipfix_set_field_def split: ipfix_value.split option.split)

lemma ipfix_convert_field_flow:
  "fst (ipfix_convert_field C header boot (field, name, value) st) =
    (case iana_element field of
       None \<Rightarrow> fst st
     | Some ie \<Rightarrow> ipfix_set_field C (ipfix_uptime_to_absolute_ns C header boot)
         (ipfix_delta_to_absolute_ns C header) ie value (fst st))"
  by (auto simp: ipfix_convert_field_def ipfix_set_field_def split: prod.splits option.splits)

definition ipfix_last :: "ipfix_data_record \<Rightarrow> (ipfix_value \<Rightarrow> information_element \<Rightarrow> 'x option) \<Rightarrow> 'x option" where
  "ipfix_last r h = last_some (\<lambda>field value. iana_element field \<bind> h value) (record_iter r)"

lemma ipfix_fold_part:
  assumes "\<And>ie value flow. g (ipfix_set_field C (ipfix_uptime_to_absolute_ns C header boot)
    (ipfix_delta_to_absolute_ns C header) ie value flow) = unwrap_or (g flow) (h value ie)"
  shows "g (fst (fold (ipfix_convert_field C header boot) (record_iter r) st)) = unwrap_or (g (fst st)) (ipfix_last r h)"
  unfolding ipfix_last_def
  by (rule fold_last [where g = "\<lambda>st. g (fst st)"])
    (simp add: ipfix_convert_field_flow assms split: option.split)

lemma ipfix_last_None: "ipfix_last r (\<lambda>_ _. None) = None"
proof -
  have "last_some (\<lambda>field value. iana_element field \<bind> (\<lambda>_. None)) es = None" for es :: "(field_specifier \<times> string \<times> 'v) list"
    by (induction es) auto
  then show ?thesis by (simp add: ipfix_last_def)
qed

lemma ipfix_fold_frame_size:
  "fst (snd (fold (ipfix_convert_field C header boot) (record_iter r) st)) =
    unwrap_or (fst (snd st)) (ipfix_last r (\<lambda>value. among [DataLinkFrameSize] (Some (ipfix_extract_u64 value))))"
  unfolding ipfix_last_def
  by (rule fold_last [where g = "\<lambda>st. fst (snd st)"])
    (simp add: ipfix_convert_field_def among_def split: prod.split option.split)

lemma ipfix_fold_sampling:
  "snd (snd (fold (ipfix_convert_field C header boot) es st)) =
    fold (\<lambda>(field, _, value) sampling.
      case iana_element field of Some ie \<Rightarrow> sampling_observe ie value sampling | None \<Rightarrow> sampling) es (snd (snd st))"
proof (induction es arbitrary: st)
  case (Cons e es)
  have "snd (snd (ipfix_convert_field C header boot e st)) = (case e of (field, _, value) \<Rightarrow>
      case iana_element field of Some ie \<Rightarrow> sampling_observe ie value (snd (snd st)) | None \<Rightarrow> snd (snd st))"
    by (auto simp: ipfix_convert_field_def sampling_observe_def split: prod.split option.split)
  then show ?case by (cases e) (simp add: Cons)
qed simp

text \<open>The headers of a section set nothing the message, the exporter or the record set.\<close>

definition ipfix_identity :: "common_flow \<Rightarrow> (common_flow_type \<times> int option \<times> u32 \<times> ip_addr option) \<times> u32 option \<times> u16 option \<times> u64 \<times> u64" where
  "ipfix_identity flow =
     ((cf_flow_type flow, cf_time_received_ns flow, cf_sequence_num flow, cf_sampler_address flow),
      cf_observation_domain_id flow, cf_template_id flow, cf_bytes flow, cf_packets flow)"

lemma section_identity:
  "ipfix_identity (ipfix_base_flow E header a tid sec) =
    ((IpfixFlow, None, ih_sequence_number header, a), Some (ih_domain header), Some tid, 0, 0)"
proof -
  have kept: "ipfix_identity (apply_peeled E p flow) = ipfix_identity flow" for p flow
    by (simp add: ipfix_identity_def apply_peeled_def apply_net_transport_def apply_transport_def apply_net_def apply_link_def Let_def
        split: option.split lax_net_slice.split transport_slice.split link_slice.split vlan_header.split)
  show ?thesis
    by (simp add: ipfix_base_flow_def apply_ethernet_frame_def apply_ip_packet_def kept Let_def split: option.split packet_section.split)
      (simp add: ipfix_identity_def common_flow_new_def common_flow_default_def)
qed

lemma section_parts:
  "cf_flow_type (ipfix_base_flow E header a tid sec) = IpfixFlow"
  "cf_time_received_ns (ipfix_base_flow E header a tid sec) = None"
  "cf_sequence_num (ipfix_base_flow E header a tid sec) = ih_sequence_number header"
  "cf_sampler_address (ipfix_base_flow E header a tid sec) = a"
  "cf_observation_domain_id (ipfix_base_flow E header a tid sec) = Some (ih_domain header)"
  "cf_template_id (ipfix_base_flow E header a tid sec) = Some tid"
  "cf_bytes (ipfix_base_flow E header a tid sec) = 0" "cf_packets (ipfix_base_flow E header a tid sec) = 0"
  using section_identity [of E header a tid sec] by (simp_all add: ipfix_identity_def)

lemma ipfix_convert_eq:
  "ipfix_convert E C header a rate boot r tid =
    (let base = ipfix_base_flow E header a tid (packet_section r);
         st = fold (ipfix_convert_field C header boot) (record_iter r) (base, None, sampling_default);
         flow = (fst st)\<lparr>cf_sampling_rate := or_else (extract_ipfix_sampling_rate r) rate\<rparr>
     in case packet_section r of
          None \<Rightarrow> flow
        | Some section \<Rightarrow>
            flow\<lparr>cf_bytes := if cf_bytes flow = 0 then unwrap_or (word_of_nat (section_len section)) (fst (snd st)) else cf_bytes flow,
              cf_packets := if cf_packets flow = 0 then 1 else cf_packets flow\<rparr>)"
  by (simp add: ipfix_convert_def extract_ipfix_sampling_rate_def ipfix_fold_sampling Let_def case_prod_beta split: option.split)

lemma try_from_u64_iff: "(try_from_u64 v :: u32 option) = Some n \<longleftrightarrow> unat v = unat n"
proof -
  have "unat (ucast v :: u32) = unat v" if "unat v < 4294967296"
    using that by (simp add: unsigned_ucast_eq take_bit_nat_eq_self)
  then show ?thesis
    using unat_bounds(3) [of n] by (auto simp: try_from_u64_def word_unat_eq_iff)
qed

text \<open>The whole 1-in-N of a packet interval and a packet space.\<close>

lemma one_in:
  fixes i s n :: u32
  assumes "i \<noteq> 0"
  shows "(if ((ucast i :: u64) + ucast s) mod ucast i = 0 then try_from_u64 (((ucast i :: u64) + ucast s) div ucast i) else None) = Some n \<longleftrightarrow>
    unat n * unat i = unat i + unat s"
proof -
  have u: "unat (ucast w :: u64) = unat w" for w :: u32
    using unat_bounds(3) [of w] by (simp add: unsigned_ucast_eq take_bit_nat_eq_self)
  then have sum: "unat ((ucast i :: u64) + ucast s) = unat i + unat s"
    using unat_bounds(3) [of i] unat_bounds(3) [of s] by (simp add: unat_word_ariths)
  have "unat i \<noteq> 0" using assms by (simp add: unat_eq_0)
  then have "unat n * unat i = unat i + unat s \<longleftrightarrow>
      (unat i + unat s) mod unat i = 0 \<and> (unat i + unat s) div unat i = unat n"
    by (metis div_mult_mod_eq add.right_neutral mod_mult_self2_is_0 nonzero_mult_div_cancel_right)
  moreover have "((ucast i :: u64) + ucast s) mod ucast i = 0 \<longleftrightarrow> (unat i + unat s) mod unat i = 0"
    unfolding word_unat_eq_iff unat_mod_distrib u sum by simp
  ultimately show ?thesis
    by (simp add: try_from_u64_iff unat_div_distrib u sum)
qed

lemma delta_in_range:
  assumes "0 \<le> secs" and "secs < 4294967296" and "0 \<le> us" and "us < (4294967296 :: int)"
  shows "- (2 ^ 63) \<le> secs * 1000000000 - us * 1000 \<and> secs * 1000000000 - us * 1000 < 2 ^ 63"
  using assms by simp

section \<open>Properties\<close>

text \<open>C23. An IPFIX record becomes a flow in which every part is what the last field sets that sets it
  and, for parts no field sets, what the headers of a packet section the record carries say: the
  elements the record states overwrite the section wherever it stands in the template. Counters
  that are absent or zero count the one packet of the section. Elements of enterprises set
  nothing. No field and no section changes the type, the sequence number, the sampler, the domain and the template, which are those of
  the message, the exporter and the set; the statement lists every part a flow has.\<close>

theorem ipfix_convert_parts:
  "let flow = ipfix_convert E C header a rate boot r tid;
       start = (common_flow_new IpfixFlow)\<lparr>cf_sequence_num := ih_sequence_number header, cf_sampler_address := a,
         cf_observation_domain_id := Some (ih_domain header), cf_template_id := Some tid\<rparr>;
       base = (case packet_section r of
           None \<Rightarrow> start
         | Some (SectionFrame bs) \<Rightarrow> apply_ethernet_frame E bs start
         | Some (SectionIp bs) \<Rightarrow> apply_ip_packet E bs start) in
    cf_flow_type flow = IpfixFlow \<and>
    cf_time_received_ns flow = None \<and>
    cf_sequence_num flow = ih_sequence_number header \<and>
    cf_sampling_rate flow = or_else (extract_ipfix_sampling_rate r) rate \<and>
    cf_sampler_address flow = a \<and>
    cf_time_flow_start_ns flow = unwrap_or (cf_time_flow_start_ns base) (ipfix_last r (\<lambda>value ie. (or_else (among [FlowStartSysUpTime] (Some (ipfix_extract_u32 value \<bind> ipfix_uptime_to_absolute_ns C header boot)) ie) (or_else (among [FlowStartDeltaMicroseconds] (Some (ipfix_extract_u32 value \<bind> ipfix_delta_to_absolute_ns C header)) ie) (among [FlowStartSeconds, FlowStartMilliseconds, FlowStartMicroseconds, FlowStartNanoseconds] (Some (ipfix_extract_datetime_ns C value)) ie))))) \<and>
    cf_time_flow_end_ns flow = unwrap_or (cf_time_flow_end_ns base) (ipfix_last r (\<lambda>value ie. (or_else (among [FlowEndSysUpTime] (Some (ipfix_extract_u32 value \<bind> ipfix_uptime_to_absolute_ns C header boot)) ie) (or_else (among [FlowEndDeltaMicroseconds] (Some (ipfix_extract_u32 value \<bind> ipfix_delta_to_absolute_ns C header)) ie) (among [FlowEndSeconds, FlowEndMilliseconds, FlowEndMicroseconds, FlowEndNanoseconds] (Some (ipfix_extract_datetime_ns C value)) ie))))) \<and>
    cf_src_addr flow = unwrap_or (cf_src_addr base) (ipfix_last r (\<lambda>value ie. (or_else (among [SourceIpv4Address] (case value of Ipv4Address a \<Rightarrow> Some (Some (V4 a)) | _ \<Rightarrow> None) ie) (among [SourceIpv6Address] (case value of Ipv6Address a \<Rightarrow> Some (Some (V6 a)) | _ \<Rightarrow> None) ie)))) \<and>
    cf_dst_addr flow = unwrap_or (cf_dst_addr base) (ipfix_last r (\<lambda>value ie. (or_else (among [DestinationIpv4Address] (case value of Ipv4Address a \<Rightarrow> Some (Some (V4 a)) | _ \<Rightarrow> None) ie) (among [DestinationIpv6Address] (case value of Ipv6Address a \<Rightarrow> Some (Some (V6 a)) | _ \<Rightarrow> None) ie)))) \<and>
    cf_src_mac flow = unwrap_or (cf_src_mac base) (ipfix_last r (\<lambda>value ie. (among [SourceMacAddress, PostSourceMacAddress] (case value of MacAddress mac \<Rightarrow> Some (Some mac) | _ \<Rightarrow> None) ie))) \<and>
    cf_dst_mac flow = unwrap_or (cf_dst_mac base) (ipfix_last r (\<lambda>value ie. (among [DestinationMacAddress, PostDestinationMacAddress] (case value of MacAddress mac \<Rightarrow> Some (Some mac) | _ \<Rightarrow> None) ie))) \<and>
    cf_etype flow = unwrap_or (cf_etype base) (ipfix_last r (\<lambda>value ie. (or_else (among [SourceIpv4Address] (case value of Ipv4Address _ \<Rightarrow> Some (Some 0x0800) | _ \<Rightarrow> None) ie) (among [SourceIpv6Address] (case value of Ipv6Address _ \<Rightarrow> Some (Some 0x86dd) | _ \<Rightarrow> None) ie)))) \<and>
    cf_proto flow = unwrap_or (cf_proto base) (ipfix_last r (\<lambda>value ie. (among [ProtocolIdentifier] (Some (ipfix_extract_u8 value)) ie))) \<and>
    cf_src_port flow = unwrap_or (cf_src_port base) (ipfix_last r (\<lambda>value ie. (among [SourceTransportPort] (Some (ipfix_extract_u16 value)) ie))) \<and>
    cf_dst_port flow = unwrap_or (cf_dst_port base) (ipfix_last r (\<lambda>value ie. (among [DestinationTransportPort] (Some (ipfix_extract_u16 value)) ie))) \<and>
    cf_in_if flow = unwrap_or (cf_in_if base) (ipfix_last r (\<lambda>value ie. (among [IngressInterface] (Some (ipfix_extract_u32 value)) ie))) \<and>
    cf_out_if flow = unwrap_or (cf_out_if base) (ipfix_last r (\<lambda>value ie. (among [EgressInterface] (Some (ipfix_extract_u32 value)) ie))) \<and>
    cf_ip_tos flow = unwrap_or (cf_ip_tos base) (ipfix_last r (\<lambda>value ie. (among [IpClassOfService] (Some (ipfix_extract_u8 value)) ie))) \<and>
    cf_ip_ttl flow = unwrap_or (cf_ip_ttl base) (ipfix_last r (\<lambda>value ie. (among [MinimumTtl, MaximumTtl] (Some (ipfix_extract_u8 value)) ie))) \<and>
    cf_tcp_flags flow = unwrap_or (cf_tcp_flags base) (ipfix_last r (\<lambda>value ie. (among [TcpControlBits] (Some (ipfix_extract_u16 value)) ie))) \<and>
    cf_icmp_type flow = unwrap_or (cf_icmp_type base) (ipfix_last r (\<lambda>value ie. (or_else (among [IcmpTypeIpv4, IcmpTypeIpv6] (Some (ipfix_extract_u8 value)) ie) (among [IcmpTypeCodeIpv4, IcmpTypeCodeIpv6] (map_option (\<lambda>v. Some (ucast (drop_bit 8 v))) (ipfix_extract_u16 value)) ie)))) \<and>
    cf_icmp_code flow = unwrap_or (cf_icmp_code base) (ipfix_last r (\<lambda>value ie. (or_else (among [IcmpCodeIpv4, IcmpCodeIpv6] (Some (ipfix_extract_u8 value)) ie) (among [IcmpTypeCodeIpv4, IcmpTypeCodeIpv6] (map_option (\<lambda>v. Some (ucast (v AND 0xff))) (ipfix_extract_u16 value)) ie)))) \<and>
    cf_ipv6_flow_label flow = unwrap_or (cf_ipv6_flow_label base) (ipfix_last r (\<lambda>value ie. (among [FlowLabelIpv6] (Some (ipfix_extract_u32 value)) ie))) \<and>
    cf_fragment_id flow = unwrap_or (cf_fragment_id base) (ipfix_last r (\<lambda>value ie. (among [FragmentIdentification] (Some (ipfix_extract_u32 value)) ie))) \<and>
    cf_fragment_offset flow = cf_fragment_offset base \<and>
    cf_src_as flow = unwrap_or (cf_src_as base) (ipfix_last r (\<lambda>value ie. (among [BgpSourceAsNumber] (Some (ipfix_extract_u32 value)) ie))) \<and>
    cf_dst_as flow = unwrap_or (cf_dst_as base) (ipfix_last r (\<lambda>value ie. (among [BgpDestinationAsNumber] (Some (ipfix_extract_u32 value)) ie))) \<and>
    cf_next_hop flow = unwrap_or (cf_next_hop base) (ipfix_last r (\<lambda>value ie. (or_else (among [IpNextHopIpv4Address] (case value of Ipv4Address a \<Rightarrow> Some (Some (V4 a)) | _ \<Rightarrow> None) ie) (among [IpNextHopIpv6Address] (case value of Ipv6Address a \<Rightarrow> Some (Some (V6 a)) | _ \<Rightarrow> None) ie)))) \<and>
    cf_src_net flow = unwrap_or (cf_src_net base) (ipfix_last r (\<lambda>value ie. (among [SourceIpv4PrefixLength, SourceIpv6PrefixLength] (Some (ipfix_extract_u8 value)) ie))) \<and>
    cf_dst_net flow = unwrap_or (cf_dst_net base) (ipfix_last r (\<lambda>value ie. (among [DestinationIpv4PrefixLength, DestinationIpv6PrefixLength] (Some (ipfix_extract_u8 value)) ie))) \<and>
    cf_bgp_next_hop flow = unwrap_or (cf_bgp_next_hop base) (ipfix_last r (\<lambda>value ie. (or_else (among [BgpNextHopIpv4Address] (case value of Ipv4Address a \<Rightarrow> Some (Some (V4 a)) | _ \<Rightarrow> None) ie) (among [BgpNextHopIpv6Address] (case value of Ipv6Address a \<Rightarrow> Some (Some (V6 a)) | _ \<Rightarrow> None) ie)))) \<and>
    cf_src_vlan flow = unwrap_or (cf_src_vlan base) (ipfix_last r (\<lambda>value ie. (among [SrcVlan] (Some (ipfix_extract_u16 value)) ie))) \<and>
    cf_dst_vlan flow = unwrap_or (cf_dst_vlan base) (ipfix_last r (\<lambda>value ie. (among [DstVlan] (Some (ipfix_extract_u16 value)) ie))) \<and>
    cf_observation_domain_id flow = Some (ih_domain header) \<and>
    cf_template_id flow = Some tid \<and>
    cf_forwarding_status flow = unwrap_or (cf_forwarding_status base) (ipfix_last r (\<lambda>value ie. (among [ForwardingStatus] (Some (ipfix_extract_u32 value)) ie))) \<and>
    (let stated = unwrap_or 0 (ipfix_last r (\<lambda>value ie. among [OctetDeltaCount] (Some (unwrap_or 0 (ipfix_extract_u64 value))) ie)) in
      cf_bytes flow = (case packet_section r of None \<Rightarrow> stated | Some section \<Rightarrow> if stated \<noteq> 0 then stated else unwrap_or (word_of_nat (section_len section)) (unwrap_or None (ipfix_last r (\<lambda>value. among [DataLinkFrameSize] (Some (ipfix_extract_u64 value))))))) \<and>
    (let stated = unwrap_or 0 (ipfix_last r (\<lambda>value ie. among [PacketDeltaCount] (Some (unwrap_or 0 (ipfix_extract_u64 value))) ie)) in
      cf_packets flow = (case packet_section r of None \<Rightarrow> stated | Some section \<Rightarrow> if stated \<noteq> 0 then stated else 1))"
proof -
  define base where "base = ipfix_base_flow E header a tid (packet_section r)"
  have shape: "(case packet_section r of None \<Rightarrow> start
      | Some (SectionFrame bs) \<Rightarrow> apply_ethernet_frame E bs start | Some (SectionIp bs) \<Rightarrow> apply_ip_packet E bs start) = base"
    if "start = (common_flow_new IpfixFlow)\<lparr>cf_sequence_num := ih_sequence_number header, cf_sampler_address := a,
      cf_observation_domain_id := Some (ih_domain header), cf_template_id := Some tid\<rparr>" for start
    by (simp add: that base_def ipfix_base_flow_def Let_def split: option.split packet_section.split)
  note parts = ipfix_set_parts [THEN ipfix_fold_part] ipfix_keeps_parts [THEN ipfix_fold_part] ipfix_fold_frame_size ipfix_last_None
  show ?thesis
    unfolding ipfix_convert_eq Let_def shape [OF refl] base_def [symmetric]
    by (cases "packet_section r") (simp_all add: parts section_parts [of E header a tid "packet_section r", folded base_def])
qed

text \<open>The sampling rate of an options record is the one it states directly, the first if it states
  several; otherwise, with both a packet interval and a packet space, the \<open>n\<close> for which the
  interval is exactly one in \<open>n\<close> of all packets, if there is one; otherwise the interval alone.\<close>

theorem ipfix_sampling_rate_stated:
  "extract_ipfix_sampling_rate r = Some n \<longleftrightarrow>
    (let direct = first_some (\<lambda>field value. iana_element field \<bind>
           among [SamplingInterval, SamplerRandomInterval] (ipfix_extract_u32 value)) (record_iter r);
         interval = unwrap_or None (ipfix_last r (\<lambda>value. among [SamplingPacketInterval] (Some (ipfix_extract_u32 value))));
         space = unwrap_or None (ipfix_last r (\<lambda>value. among [SamplingPacketSpace] (Some (ipfix_extract_u32 value))))
     in case direct of
          Some rate \<Rightarrow> n = rate
        | None \<Rightarrow>
            (case (interval, space) of
               (Some i, Some s) \<Rightarrow> if i = 0 then n = 0 else unat n * unat i = unat i + unat s
             | _ \<Rightarrow> interval = Some n))"
proof -
  let ?step = "\<lambda>(field, _, value) sampling.
      case iana_element field of Some ie \<Rightarrow> sampling_observe ie value sampling | None \<Rightarrow> sampling"
  have rate: "sm_rate (fold ?step es st) = or_else (sm_rate st) (first_some (\<lambda>field value. iana_element field \<bind>
      among [SamplingInterval, SamplerRandomInterval] (ipfix_extract_u32 value)) es)" for es st
    by (rule fold_first) (simp add: sampling_observe_def among_def split: option.split)
  have interval: "sm_packet_interval (fold ?step (record_iter r) st) = unwrap_or (sm_packet_interval st)
      (ipfix_last r (\<lambda>value. among [SamplingPacketInterval] (Some (ipfix_extract_u32 value))))" for st
    unfolding ipfix_last_def
    by (rule fold_last) (simp add: sampling_observe_def among_def split: option.split)
  have space: "sm_packet_space (fold ?step (record_iter r) st) = unwrap_or (sm_packet_space st)
      (ipfix_last r (\<lambda>value. among [SamplingPacketSpace] (Some (ipfix_extract_u32 value))))" for st
    unfolding ipfix_last_def
    by (rule fold_last) (simp add: sampling_observe_def among_def split: option.split)
  have pair: "(let population = (ucast i :: u64) + ucast s in
        if population mod ucast i = 0 then try_from_u64 (population div ucast i) else None) = Some n \<longleftrightarrow>
      unat n * unat i = unat i + unat s" if "i \<noteq> 0" for i s :: u32
    using that by (simp add: Let_def one_in)
  show ?thesis
    unfolding extract_ipfix_sampling_rate_def sampling_rate_def rate interval space
    using pair
    by (auto simp: sampling_default_def Let_def word_gt_0 split: option.split)
qed

end
