(* ===== verification/Processor.thy ===== *)
theory Processor
  imports Convert ConvertIpfix IpfixTyping
begin

text \<open>
  \<^verbatim>\<open>rustflow/src/processor.rs\<close>: the processors, which take a datagram from an exporter to its flows.
  They choose the parser by the version, keep a parser per exporter address, and remember what
  options records say of the sampling in each observation domain. Instants and durations are in
  nanoseconds; a datagram is processed at one reading of the clock, \<open>now\<close>.
\<close>

section \<open>Packets\<close>

datatype netflow_packet = PacketV5 v5_packet | PacketV9 v9_packet | PacketIpfix ipfix_packet

definition netflow_packet_version :: "netflow_packet \<Rightarrow> common_flow_type" where
  "netflow_packet_version self =
     (case self of PacketV5 _ \<Rightarrow> NetflowV5Flow | PacketV9 _ \<Rightarrow> NetflowV9Flow | PacketIpfix _ \<Rightarrow> IpfixFlow)"

definition v9_packet_records :: "v9_packet \<Rightarrow> v9_record list" where
  "v9_packet_records p = concat (map v9_set_records (v9_flow_sets p))"

definition ipfix_packet_records :: "ipfix_packet \<Rightarrow> ipfix_record list" where
  "ipfix_packet_records p = concat (map set_records (ip_sets p))"

definition netflow_packet_flow_count :: "netflow_packet \<Rightarrow> nat" where
  "netflow_packet_flow_count self =
     (case self of
        PacketV5 p \<Rightarrow> length (v5_flow_records p)
      | PacketV9 p \<Rightarrow> length (filter (\<lambda>r. case r of V9Data _ \<Rightarrow> True | _ \<Rightarrow> False) (v9_packet_records p))
      | PacketIpfix p \<Rightarrow> length (filter (\<lambda>r. case r of RData _ \<Rightarrow> True | _ \<Rightarrow> False) (ipfix_packet_records p)))"

datatype sflow_packet = SflowPacketV5 sflow_v5

definition sflow_packet_version :: "sflow_packet \<Rightarrow> common_flow_type" where
  "sflow_packet_version self = SflowV5Flow"

definition sflow_packet_flow_count :: "sflow_packet \<Rightarrow> nat" where
  "sflow_packet_flow_count self =
     (case self of SflowPacketV5 p \<Rightarrow>
        length (filter (\<lambda>s. case s of FlowOf _ \<Rightarrow> True | ExpandedFlowOf _ \<Rightarrow> True | _ \<Rightarrow> False) (sf_samples p)))"

section \<open>Domains\<close>

definition EXPORTER_SWEEP_INTERVAL :: nat where
  "EXPORTER_SWEEP_INTERVAL = 10 * 10 ^ 9"

definition MAX_SAMPLERS :: nat where
  "MAX_SAMPLERS = 1024"

record domain =
  dm_sampling_rate :: "u32 option"
  dm_sampler_rates :: "(u64, u32) hashmap"
  dm_shared_sampler_rate :: "u32 option"
  dm_system_init_time_ms :: "int option"

definition domain_default :: domain where
  "domain_default = \<lparr>dm_sampling_rate = None, dm_sampler_rates = hm_empty,
     dm_shared_sampler_rate = None, dm_system_init_time_ms = None\<rparr>"

text \<open>The rate all samplers share: the first, if the others equal it.\<close>

definition shared_rate :: "u32 list \<Rightarrow> u32 option" where
  "shared_rate rates =
     (case rates of [] \<Rightarrow> None | first # rest \<Rightarrow> if list_all (\<lambda>rate. rate = first) rest then Some first else None)"

definition domain_set_sampling_rate :: "u64 option \<Rightarrow> u32 \<Rightarrow> domain \<Rightarrow> domain" where
  "domain_set_sampling_rate sampler_id rate self =
     (let self = (case sampler_id of
            None \<Rightarrow> self\<lparr>dm_sampling_rate := Some rate\<rparr>
          | Some n \<Rightarrow>
              if length (dm_sampler_rates self) < MAX_SAMPLERS then
                self\<lparr>dm_sampler_rates := hm_insert n rate (dm_sampler_rates self)\<rparr>
              else (case hm_get (dm_sampler_rates self) n of
                 Some _ \<Rightarrow> self\<lparr>dm_sampler_rates := hm_insert n rate (dm_sampler_rates self)\<rparr>
               | None \<Rightarrow> self))
      in self\<lparr>dm_shared_sampler_rate := shared_rate (hm_values (dm_sampler_rates self))\<rparr>)"

definition domain_sampling_rate :: "domain \<Rightarrow> u64 option \<Rightarrow> u32 option" where
  "domain_sampling_rate self sampler_id =
     (if dm_sampler_rates self = [] then dm_sampling_rate self
      else or_else (or_else (sampler_id \<bind> hm_get (dm_sampler_rates self)) (dm_sampling_rate self))
        (dm_shared_sampler_rate self))"

section \<open>Exporters\<close>

record 'p exporter =
  ex_parser :: 'p
  ex_domains :: "(u32, domain) hashmap"
  ex_last_seen :: nat

record 'p exporters =
  exs_map :: "(ip_addr, 'p exporter) hashmap"
  exs_next_sweep :: nat

definition exporters_new :: "nat \<Rightarrow> 'p exporters" where
  "exporters_new now = \<lparr>exs_map = hm_empty, exs_next_sweep = now\<rparr>"

text \<open>\<open>entry\<close> lends the exporter it finds or makes; what the caller leaves in it is stored back.\<close>

definition exporters_entry ::
    "ip_addr \<Rightarrow> nat \<Rightarrow> nat \<Rightarrow> 'p \<Rightarrow> 'p exporters \<Rightarrow> 'p exporters \<times> 'p exporter" where
  "exporters_entry src now timeout new self =
     (let self = (if exs_next_sweep self \<le> now then
            self\<lparr>exs_map := hm_retain (\<lambda>_ exporter. (exporter, now - ex_last_seen exporter < timeout)) (exs_map self),
              exs_next_sweep := now + EXPORTER_SWEEP_INTERVAL\<rparr>
          else self);
          exporter = unwrap_or \<lparr>ex_parser = new, ex_domains = hm_empty, ex_last_seen = now\<rparr>
            (hm_get (exs_map self) src)
      in (self, exporter\<lparr>ex_last_seen := now\<rparr>))"

definition exporters_store :: "ip_addr \<Rightarrow> 'p exporter \<Rightarrow> 'p exporters \<Rightarrow> 'p exporters" where
  "exporters_store src exporter self = self\<lparr>exs_map := hm_insert src exporter (exs_map self)\<rparr>"

definition exporters_domain :: "'p exporters \<Rightarrow> ip_addr \<Rightarrow> u32 \<Rightarrow> domain option" where
  "exporters_domain self src n =
     hm_get (exs_map self) src \<bind> (\<lambda>exporter. hm_get (ex_domains exporter) n)"

section \<open>The NetFlow processor\<close>

text \<open>The libraries the program is linked with.\<close>

record libs =
  lib_v5 :: v5_nom
  lib_v9 :: v9_nom
  lib_ipfix :: ipfix_nom
  lib_sflow :: sflow_nom
  lib_chrono :: chrono
  lib_etherparse :: etherparse

record netflow_processor =
  np_ie_registry :: ie_registry
  np_template_timeout :: nat
  np_v9 :: "v9_parser exporters"
  np_ipfix :: "ipfix_parser exporters"

definition netflow_new :: "nat \<Rightarrow> netflow_processor" where
  "netflow_new now =
     \<lparr>np_ie_registry = new_with_iana_elements, np_template_timeout = 600 * 10 ^ 9,
      np_v9 = exporters_new now, np_ipfix = exporters_new now\<rparr>"

definition with_ie_registry :: "ie_registry \<Rightarrow> netflow_processor \<Rightarrow> netflow_processor" where
  "with_ie_registry registry self = self\<lparr>np_ie_registry := registry\<rparr>"

definition with_template_timeout :: "nat \<Rightarrow> netflow_processor \<Rightarrow> netflow_processor" where
  "with_template_timeout timeout self = self\<lparr>np_template_timeout := timeout\<rparr>"

text \<open>What one record of a packet tells the domain.\<close>

definition v9_learn_options :: "v9_record \<Rightarrow> domain \<Rightarrow> domain" where
  "v9_learn_options r domain =
     (case r of
        V9OptionsData data_record \<Rightarrow>
          (case extract_v9_sampling_rate data_record of
             Some rate \<Rightarrow> domain_set_sampling_rate (extract_v9_sampler_id data_record) rate domain
           | None \<Rightarrow> domain)
      | _ \<Rightarrow> domain)"

definition ipfix_learn_options :: "chrono \<Rightarrow> ipfix_record \<Rightarrow> domain \<Rightarrow> domain" where
  "ipfix_learn_options C r domain =
     (case r of
        ROptionsData data_record \<Rightarrow>
          let domain = (case extract_ipfix_sampling_rate data_record of
                 Some rate \<Rightarrow> domain_set_sampling_rate (extract_ipfix_sampler_id data_record) rate domain
               | None \<Rightarrow> domain)
          in (case extract_ipfix_system_init_time C data_record of
                Some boot \<Rightarrow> domain\<lparr>dm_system_init_time_ms := Some boot\<rparr>
              | None \<Rightarrow> domain)
      | _ \<Rightarrow> domain)"

text \<open>
  A datagram for a parser with a state: the exporter's parser runs, and when it succeeds the records
  of the packet change the domain it names. Both arms of \<^verbatim>\<open>parse\<close> with a state have this form.
\<close>

definition exporter_parse ::
    "('p, 'k) st_parser \<Rightarrow> ('k \<Rightarrow> u32) \<Rightarrow> ('k \<Rightarrow> 'r list) \<Rightarrow> ('r \<Rightarrow> domain \<Rightarrow> domain) \<Rightarrow>
     bytes \<Rightarrow> 'p exporter \<Rightarrow> 'p exporter \<times> 'k option" where
  "exporter_parse parse domain_id records learn payload exporter =
     (case parse (ex_parser exporter) payload of
        (parser, None) \<Rightarrow> (exporter\<lparr>ex_parser := parser\<rparr>, None)
      | (parser, Some (_, parsed)) \<Rightarrow>
          let domain = unwrap_or domain_default (hm_get (ex_domains exporter) (domain_id parsed));
              domain = fold learn (records parsed) domain
          in (exporter\<lparr>ex_parser := parser,
                ex_domains := hm_insert (domain_id parsed) domain (ex_domains exporter)\<rparr>,
              Some parsed))"

definition exporters_parse ::
    "nat \<Rightarrow> nat \<Rightarrow> 'p \<Rightarrow> ('p, 'k) st_parser \<Rightarrow> ('k \<Rightarrow> u32) \<Rightarrow> ('k \<Rightarrow> 'r list) \<Rightarrow> ('r \<Rightarrow> domain \<Rightarrow> domain) \<Rightarrow>
     ip_addr \<Rightarrow> bytes \<Rightarrow> 'p exporters \<Rightarrow> 'p exporters \<times> 'k option" where
  "exporters_parse now timeout new parse domain_id records learn src payload self =
     (let (self, exporter) = exporters_entry src now timeout new self;
          (exporter, parsed) = exporter_parse parse domain_id records learn payload exporter
      in (exporters_store src exporter self, parsed))"

text \<open>The version in a datagram's header.\<close>

definition payload_version :: "bytes \<Rightarrow> u16 option" where
  "payload_version payload = (if length payload < 2 then None else Some (from_be_bytes (take 2 payload)))"

text \<open>The arms of \<^verbatim>\<open>parse\<close> for the versions with a state.\<close>

definition netflow_parse_v9 ::
    "libs \<Rightarrow> nat \<Rightarrow> ip_addr \<Rightarrow> bytes \<Rightarrow> netflow_processor \<Rightarrow> v9_parser exporters \<times> v9_packet option" where
  "netflow_parse_v9 L now src payload self =
     (let timeout = np_template_timeout self in
      exporters_parse now timeout (v9_new now (np_ie_registry self) timeout)
        (v9_parse (lib_v9 L) (lib_chrono L) now) (\<lambda>p. v9_source_id (v9_packet_header p))
        v9_packet_records v9_learn_options src payload (np_v9 self))"

definition netflow_parse_ipfix ::
    "libs \<Rightarrow> nat \<Rightarrow> ip_addr \<Rightarrow> bytes \<Rightarrow> netflow_processor \<Rightarrow> ipfix_parser exporters \<times> ipfix_packet option" where
  "netflow_parse_ipfix L now src payload self =
     (let timeout = np_template_timeout self in
      exporters_parse now timeout (ipfix_new now (np_ie_registry self) timeout)
        (ipfix_parse (lib_ipfix L) (lib_chrono L) now) (\<lambda>p. ih_domain (ip_header p))
        ipfix_packet_records (ipfix_learn_options (lib_chrono L)) src payload (np_ipfix self))"

definition netflow_parse ::
    "libs \<Rightarrow> nat \<Rightarrow> ip_addr \<Rightarrow> bytes \<Rightarrow> netflow_processor \<Rightarrow> netflow_processor \<times> netflow_packet option" where
  "netflow_parse L now src payload self =
     (case payload_version payload of
        None \<Rightarrow> (self, None)
      | Some version \<Rightarrow>
          if version = NETFLOW_V5_VERSION then
            (self, map_option (\<lambda>(_, parsed). PacketV5 parsed) (parse_netflow_v5_packet (lib_v5 L) payload))
          else if version = NETFLOW_V9_VERSION then
            (case netflow_parse_v9 L now src payload self of
               (v9, parsed) \<Rightarrow> (self\<lparr>np_v9 := v9\<rparr>, map_option PacketV9 parsed))
          else if version = IPFIX_VERSION then
            (case netflow_parse_ipfix L now src payload self of
               (ipfix, parsed) \<Rightarrow> (self\<lparr>np_ipfix := ipfix\<rparr>, map_option PacketIpfix parsed))
          else (self, None))"

text \<open>\<^verbatim>\<open>convert_into\<close> appends to the flows it is given.\<close>

definition v9_flows :: "libs \<Rightarrow> netflow_processor \<Rightarrow> ip_addr \<Rightarrow> v9_packet \<Rightarrow> int option \<Rightarrow> common_flow list" where
  "v9_flows L self src parsed time_received_ns =
     (let domain = exporters_domain (np_v9 self) src (v9_source_id (v9_packet_header parsed)) in
      concat (map (\<lambda>flow_set. List.map_filter (\<lambda>r. case r of
          V9Data data_record \<Rightarrow>
            let rate = domain \<bind> (\<lambda>domain. domain_sampling_rate domain (extract_v9_sampler_id data_record));
                flow = v9_convert (lib_chrono L) (v9_packet_header parsed) (Some src) rate data_record
                  (v9_set_id flow_set)
            in Some (flow\<lparr>cf_time_received_ns := time_received_ns\<rparr>)
        | _ \<Rightarrow> None) (v9_set_records flow_set)) (v9_flow_sets parsed)))"

definition ipfix_flows :: "libs \<Rightarrow> netflow_processor \<Rightarrow> ip_addr \<Rightarrow> ipfix_packet \<Rightarrow> int option \<Rightarrow> common_flow list" where
  "ipfix_flows L self src parsed time_received_ns =
     (let domain = exporters_domain (np_ipfix self) src (ih_domain (ip_header parsed));
          system_init_time_ms = domain \<bind> dm_system_init_time_ms in
      concat (map (\<lambda>s. List.map_filter (\<lambda>r. case r of
          RData data_record \<Rightarrow>
            let rate = domain \<bind> (\<lambda>domain. domain_sampling_rate domain (extract_ipfix_sampler_id data_record));
                flow = ipfix_convert (lib_etherparse L) (lib_chrono L) (ip_header parsed) (Some src) rate
                  system_init_time_ms data_record (set_id s)
            in Some (flow\<lparr>cf_time_received_ns := time_received_ns\<rparr>)
        | _ \<Rightarrow> None) (set_records s)) (ip_sets parsed)))"

definition netflow_convert_into ::
    "libs \<Rightarrow> netflow_processor \<Rightarrow> ip_addr \<Rightarrow> netflow_packet \<Rightarrow> int option \<Rightarrow> common_flow list \<Rightarrow> common_flow list" where
  "netflow_convert_into L self src packet time_received_ns flows = flows @
     (case packet of
        PacketV5 parsed \<Rightarrow>
          map (\<lambda>r. (v5_convert (lib_chrono L) (v5_packet_header parsed) (Some src) r)
            \<lparr>cf_time_received_ns := time_received_ns\<rparr>) (v5_flow_records parsed)
      | PacketV9 parsed \<Rightarrow> v9_flows L self src parsed time_received_ns
      | PacketIpfix parsed \<Rightarrow> ipfix_flows L self src parsed time_received_ns)"

definition netflow_convert ::
    "libs \<Rightarrow> netflow_processor \<Rightarrow> ip_addr \<Rightarrow> netflow_packet \<Rightarrow> int option \<Rightarrow> common_flow list" where
  "netflow_convert L self src packet time_received_ns = netflow_convert_into L self src packet time_received_ns []"

definition netflow_version_of :: "bytes \<Rightarrow> common_flow_type option" where
  "netflow_version_of payload = payload_version payload \<bind> (\<lambda>version.
     if version = NETFLOW_V5_VERSION then Some NetflowV5Flow
     else if version = NETFLOW_V9_VERSION then Some NetflowV9Flow
     else if version = IPFIX_VERSION then Some IpfixFlow
     else None)"

definition netflow_process_into ::
    "libs \<Rightarrow> nat \<Rightarrow> ip_addr \<Rightarrow> bytes \<Rightarrow> int option \<Rightarrow> common_flow list \<Rightarrow> netflow_processor \<Rightarrow>
     netflow_processor \<times> common_flow list" where
  "netflow_process_into L now src payload time_received_ns flows self =
     (case netflow_parse L now src payload self of
        (self, Some packet) \<Rightarrow> (self, netflow_convert_into L self src packet time_received_ns flows)
      | (self, None) \<Rightarrow> (self, flows))"

definition netflow_process ::
    "libs \<Rightarrow> nat \<Rightarrow> ip_addr \<Rightarrow> bytes \<Rightarrow> int option \<Rightarrow> netflow_processor \<Rightarrow> netflow_processor \<times> common_flow list" where
  "netflow_process L now src payload time_received_ns self =
     (case netflow_parse L now src payload self of
        (self, packet) \<Rightarrow>
          (self, unwrap_or [] (map_option (\<lambda>packet. netflow_convert L self src packet time_received_ns) packet)))"

section \<open>The sFlow processor\<close>

text \<open>It has no state. An sFlow version is the first four bytes.\<close>

definition sflow_version_of :: "bytes \<Rightarrow> common_flow_type option" where
  "sflow_version_of payload =
     (if length payload < 4 then None
      else if (from_be_bytes (take 4 payload) :: u32) = SFLOW_V5_VERSION then Some SflowV5Flow else None)"

definition sflow_parse :: "libs \<Rightarrow> bytes \<Rightarrow> sflow_packet option" where
  "sflow_parse L payload =
     (if length payload < 4 then None
      else if (from_be_bytes (take 4 payload) :: u32) \<noteq> SFLOW_V5_VERSION then None
      else map_option (\<lambda>(_, parsed). SflowPacketV5 parsed) (parse_sflow_v5 (lib_sflow L) payload))"

definition sflow_convert_into ::
    "libs \<Rightarrow> sflow_packet \<Rightarrow> int option \<Rightarrow> common_flow list \<Rightarrow> common_flow list" where
  "sflow_convert_into L packet time_received_ns flows = flows @
     (case packet of SflowPacketV5 parsed \<Rightarrow>
        List.map_filter (\<lambda>sample. case sample of
            FlowOf s \<Rightarrow> Some ((sflow_convert_flow_sample (lib_etherparse L) parsed s)
              \<lparr>cf_time_received_ns := time_received_ns\<rparr>)
          | ExpandedFlowOf s \<Rightarrow> Some ((sflow_convert_expanded_flow_sample (lib_etherparse L) parsed s)
              \<lparr>cf_time_received_ns := time_received_ns\<rparr>)
          | _ \<Rightarrow> None) (sf_samples parsed))"

definition sflow_process :: "libs \<Rightarrow> bytes \<Rightarrow> int option \<Rightarrow> common_flow list" where
  "sflow_process L payload time_received_ns =
     unwrap_or [] (map_option (\<lambda>packet. sflow_convert_into L packet time_received_ns []) (sflow_parse L payload))"

section \<open>Sampling rates\<close>

lemma shared_rate_iff: "shared_rate rates = Some r \<longleftrightarrow> rates \<noteq> [] \<and> (\<forall>rate\<in>set rates. rate = r)"
  by (cases rates) (auto simp: shared_rate_def list_all_iff)

lemma length_rates: "hm_ok m \<Longrightarrow> length m = card (dom (hm_get m))"
  using hm.vals_sum [of m "\<lambda>_. 1"] by (simp add: sum_list_triv hm_values_def comp_def)

text \<open>What a sequence of options records leaves of the rates: the latest for each sampler the domain keeps, or none. It keeps the first
  \<open>MAX_SAMPLERS\<close> that are named.\<close>

definition latest :: "(u64 option \<times> u32) list \<Rightarrow> u64 option \<Rightarrow> u32 option" where
  "latest us = map_of (rev us)"

definition first_named :: "(u64 option \<times> u32) list \<Rightarrow> u64 list" where
  "first_named us = rev (remdups (rev (List.map_filter fst us)))"

definition sampler_rate :: "(u64 option \<times> u32) list \<Rightarrow> u64 \<Rightarrow> u32 option" where
  "sampler_rate us n = (if n \<in> set (take MAX_SAMPLERS (first_named us)) then latest us (Some n) else None)"

lemma latest_snoc: "latest (us @ [(k, rate)]) k' = (if k' = k then Some rate else latest us k')"
  by (simp add: latest_def)

lemma first_named_snoc:
  "first_named (us @ [(k, rate)]) =
    (case k of None \<Rightarrow> first_named us | Some n \<Rightarrow> if n \<in> set (first_named us) then first_named us else first_named us @ [n])"
  by (simp add: first_named_def List.map_filter_def split: option.split)

lemma distinct_first_named: "distinct (first_named us)"
  by (simp add: first_named_def)

lemma first_named_latest: "n \<in> set (first_named us) \<Longrightarrow> latest us (Some n) \<noteq> None"
  unfolding latest_def map_of_eq_None_iff by (force simp: first_named_def List.map_filter_def image_iff)

lemma dom_sampler_rate: "dom (sampler_rate us) = set (take MAX_SAMPLERS (first_named us))"
  using first_named_latest by (auto simp: sampler_rate_def dom_def dest: in_set_takeD split: if_splits)

text \<open>A sampler that is new is kept only when there is room; otherwise the rates are as they were.\<close>

lemma sampler_rate_snoc:
  "sampler_rate (us @ [(Some n, rate)]) =
    (if card (dom (sampler_rate us)) < MAX_SAMPLERS \<or> sampler_rate us n \<noteq> None then (sampler_rate us)(n := Some rate) else sampler_rate us)"
proof -
  let ?l = "first_named us" and ?m = "MAX_SAMPLERS"
  have card: "card (dom (sampler_rate us)) = min (length ?l) ?m"
    unfolding dom_sampler_rate using distinct_card [OF distinct_take [OF distinct_first_named]] by simp
  have known: "sampler_rate us n \<noteq> None \<longleftrightarrow> n \<in> set (take ?m ?l)"
    unfolding dom_sampler_rate [symmetric] by (simp add: domIff)
  have same: "sampler_rate (us @ [(Some n, rate)]) = (\<lambda>k. if k \<in> set (take ?m (first_named (us @ [(Some n, rate)])))
      then if k = n then Some rate else latest us (Some k) else None)"
    by (simp add: fun_eq_iff sampler_rate_def latest_snoc)
  show ?thesis
  proof (cases "n \<in> set ?l")
    case True
    moreover have "take ?m ?l = ?l" if "length ?l < ?m" using that by simp
    ultimately show ?thesis
      unfolding same known card by (auto simp: fun_eq_iff sampler_rate_def first_named_snoc min_def)
  next
    case False
    then have "n \<notin> set (take ?m ?l)" by (meson in_set_takeD)
    then show ?thesis
      using False unfolding same known card
      by (auto simp: fun_eq_iff sampler_rate_def first_named_snoc min_def not_less take_Cons')
  qed
qed

definition announce :: "(u64 option \<times> u32) list \<Rightarrow> domain" where
  "announce us = fold (\<lambda>(sampler_id, rate). domain_set_sampling_rate sampler_id rate) us domain_default"

definition domain_ok :: "domain \<Rightarrow> bool" where
  "domain_ok d \<longleftrightarrow> hm_ok (dm_sampler_rates d) \<and> length (dm_sampler_rates d) \<le> MAX_SAMPLERS \<and>
     dm_shared_sampler_rate d = shared_rate (hm_values (dm_sampler_rates d))"

lemma length_insert:
  "hm_ok m \<Longrightarrow> length (hm_insert n rate m) = length m + (if hm_get m n = None then 1 else 0)"
  using length_values_insert [of m n rate] by (simp add: hm_values_def)

lemma domain_ok_default: "domain_ok domain_default"
  using hm.ok_empty by (simp add: domain_ok_def domain_default_def shared_rate_def hm_values_def hm_empty_def)

lemma domain_ok_set: "domain_ok d \<Longrightarrow> domain_ok (domain_set_sampling_rate n rate d)"
  by (auto simp: domain_ok_def domain_set_sampling_rate_def Let_def hm_laws length_insert split: option.splits)

lemma announce_snoc: "announce (us @ [(n, rate)]) = domain_set_sampling_rate n rate (announce us)"
  by (simp add: announce_def)

lemma domain_ok_announce: "domain_ok (announce us)"
proof (induction us rule: rev_induct)
  case Nil
  show ?case by (simp add: announce_def domain_ok_default)
next
  case (snoc u us)
  then show ?case by (cases u) (simp add: announce_snoc domain_ok_set)
qed

lemma announce_rates:
  "dm_sampling_rate (announce us) = latest us None \<and> hm_get (dm_sampler_rates (announce us)) = sampler_rate us"
proof (induction us rule: rev_induct)
  case Nil
  show ?case by (simp add: announce_def domain_default_def latest_def sampler_rate_def hm_laws fun_eq_iff)
next
  case (snoc u us)
  obtain k rate where u: "u = (k, rate)" by force
  have d: "hm_ok (dm_sampler_rates (announce us))" using domain_ok_announce [of us] by (simp add: domain_ok_def)
  show ?case
  proof (cases k)
    case None
    then show ?thesis
      using snoc.IH by (simp add: u announce_snoc domain_set_sampling_rate_def latest_snoc sampler_rate_def first_named_snoc fun_eq_iff)
  next
    case (Some n)
    have "length (dm_sampler_rates (announce us)) = card (dom (sampler_rate us))"
      using length_rates [OF d] snoc.IH by simp
    then show ?thesis
      using snoc.IH d by (auto simp: u Some announce_snoc domain_set_sampling_rate_def Let_def latest_snoc sampler_rate_snoc hm_laws
          fun_eq_iff split: option.split)
  qed
qed

lemma announce_shared:
  "dm_shared_sampler_rate (announce us) = Some r \<longleftrightarrow>
    (\<exists>n. sampler_rate us n = Some r) \<and> (\<forall>n r'. sampler_rate us n = Some r' \<longrightarrow> r' = r)"
proof -
  have d: "hm_ok (dm_sampler_rates (announce us))"
      "dm_shared_sampler_rate (announce us) = shared_rate (hm_values (dm_sampler_rates (announce us)))"
    using domain_ok_announce [of us] by (simp_all add: domain_ok_def)
  have v: "rate \<in> set (hm_values (dm_sampler_rates (announce us))) \<longleftrightarrow> (\<exists>n. sampler_rate us n = Some rate)" for rate
    using hm.vals_iff [OF d(1)] announce_rates [of us] by simp
  have "(rates \<noteq> [] \<and> (\<forall>rate\<in>set rates. rate = r)) \<longleftrightarrow> (r \<in> set rates \<and> (\<forall>rate\<in>set rates. rate = r))" for rates
    by (cases rates) auto
  from this [of "hm_values (dm_sampler_rates (announce us))"] show ?thesis
    unfolding d(2) shared_rate_iff Ball_def v by auto
qed

lemma announce_domain_rate:
  "domain_sampling_rate (announce us) sampler_id = Some r \<longleftrightarrow>
    (case sampler_id \<bind> sampler_rate us of
       Some rate \<Rightarrow> r = rate
     | None \<Rightarrow> (case latest us None of
         Some rate \<Rightarrow> r = rate
       | None \<Rightarrow> (\<exists>n. sampler_rate us n = Some r) \<and> (\<forall>n r'. sampler_rate us n = Some r' \<longrightarrow> r' = r)))"
proof -
  note rates = announce_rates [of us]
  show ?thesis
  proof (cases "dm_sampler_rates (announce us) = []")
    case True
    then have "\<forall>n. sampler_rate us n = None"
      using rates by (metis hm_get_Nil)
    then show ?thesis
      using True rates by (cases sampler_id) (auto simp: domain_sampling_rate_def split: option.split)
  next
    case False
    then show ?thesis
      using rates announce_shared [of us r]
      by (auto simp: domain_sampling_rate_def or_else_def split: option.split bind_split)
  qed
qed

text \<open>What the options records of a domain announce, of all the records of its packets.\<close>

definition v9_announced :: "v9_record list \<Rightarrow> (u64 option \<times> u32) list" where
  "v9_announced = List.map_filter (\<lambda>r. case r of
     V9OptionsData d \<Rightarrow> map_option (\<lambda>rate. (extract_v9_sampler_id d, rate)) (extract_v9_sampling_rate d) | _ \<Rightarrow> None)"

definition ipfix_announced :: "ipfix_record list \<Rightarrow> (u64 option \<times> u32) list" where
  "ipfix_announced = List.map_filter (\<lambda>r. case r of
     ROptionsData d \<Rightarrow> map_option (\<lambda>rate. (extract_ipfix_sampler_id d, rate)) (extract_ipfix_sampling_rate d) | _ \<Rightarrow> None)"

lemma v9_learn_announced: "fold v9_learn_options rs domain_default = announce (v9_announced rs)"
proof (induction rs rule: rev_induct)
  case (snoc r rs)
  have "v9_announced (rs @ [r]) = v9_announced rs @ v9_announced [r]"
    by (simp add: v9_announced_def List.map_filter_def)
  with snoc.IH show ?case
    by (simp add: v9_learn_options_def announce_def) (simp add: v9_announced_def List.map_filter_simps split: v9_record.split option.split)
qed (simp add: announce_def v9_announced_def List.map_filter_simps)

lemma set_rate_init_time:
  "domain_set_sampling_rate n rate (d\<lparr>dm_system_init_time_ms := t\<rparr>) = (domain_set_sampling_rate n rate d)\<lparr>dm_system_init_time_ms := t\<rparr>"
  by (simp add: domain_set_sampling_rate_def Let_def split: option.split)

lemma ipfix_learn_announced:
  "\<exists>t. fold (ipfix_learn_options C) rs domain_default = (announce (ipfix_announced rs))\<lparr>dm_system_init_time_ms := t\<rparr>"
proof (induction rs rule: rev_induct)
  case Nil
  have "announce [] = domain_default\<lparr>dm_system_init_time_ms := None\<rparr>" by (simp add: announce_def domain_default_def)
  then show ?case by (auto simp: announce_def ipfix_announced_def List.map_filter_simps)
next
  case (snoc r rs)
  then obtain t where t: "fold (ipfix_learn_options C) rs domain_default = (announce (ipfix_announced rs))\<lparr>dm_system_init_time_ms := t\<rparr>"
    by blast
  have "ipfix_announced (rs @ [r]) = ipfix_announced rs @ ipfix_announced [r]"
    by (simp add: ipfix_announced_def List.map_filter_def)
  then have last: "announce (ipfix_announced (rs @ [r])) =
      fold (\<lambda>(n, rate). domain_set_sampling_rate n rate) (ipfix_announced [r]) (announce (ipfix_announced rs))"
    by (simp add: announce_def)
  have "\<exists>t'. ipfix_learn_options C r (d\<lparr>dm_system_init_time_ms := t\<rparr>) =
      (fold (\<lambda>(n, rate). domain_set_sampling_rate n rate) (ipfix_announced [r]) d)\<lparr>dm_system_init_time_ms := t'\<rparr>" for d
    by (cases r; cases "ipfix_announced [r]")
      (auto simp: ipfix_learn_options_def ipfix_announced_def List.map_filter_simps set_rate_init_time Let_def split: option.split)
  then show ?case using t last by simp
qed

section \<open>Exporters that are quiet\<close>

definition exporters_ok :: "nat \<Rightarrow> nat \<Rightarrow> 'p exporters \<Rightarrow> bool" where
  "exporters_ok timeout now es \<longleftrightarrow> hm_ok (exs_map es) \<and> exs_next_sweep es \<le> now + EXPORTER_SWEEP_INTERVAL \<and>
     (\<forall>src x. hm_get (exs_map es) src = Some x \<longrightarrow>
        ex_last_seen x \<le> now \<and> exs_next_sweep es \<le> ex_last_seen x + timeout + EXPORTER_SWEEP_INTERVAL)"

lemma exporters_ok_new: "exporters_ok timeout now (exporters_new now)"
  by (simp add: exporters_ok_def exporters_new_def hm_laws)

lemma exporters_ok_wait: "exporters_ok timeout now es \<Longrightarrow> now \<le> now' \<Longrightarrow> exporters_ok timeout now' es"
  unfolding exporters_ok_def by (meson add_le_mono1 le_trans)

lemma exporters_parse_store:
  "exporters_parse now timeout new parse domain_id records learn src payload es = (es', r) \<Longrightarrow>
    \<exists>x. ex_last_seen x = now \<and> es' = exporters_store src x (fst (exporters_entry src now timeout new es))"
proof -
  obtain es1 e where e: "exporters_entry src now timeout new es = (es1, e)" by force
  then have "ex_last_seen e = now"
    by (auto simp: exporters_entry_def Let_def)
  moreover have "ex_last_seen (fst (exporter_parse parse domain_id records learn payload e)) = ex_last_seen e"
    by (auto simp: exporter_parse_def Let_def split: prod.split option.split)
  moreover assume "exporters_parse now timeout new parse domain_id records learn src payload es = (es', r)"
  ultimately show ?thesis
    unfolding exporters_parse_def e by (auto split: prod.splits)
qed

lemma exporters_entry_get:
  assumes "hm_ok (exs_map es)"
  shows "hm_ok (exs_map (fst (exporters_entry src now timeout new es))) \<and>
    hm_get (exs_map (fst (exporters_entry src now timeout new es))) other =
      (case hm_get (exs_map es) other of
         None \<Rightarrow> None
       | Some x \<Rightarrow> if exs_next_sweep es \<le> now \<and> timeout \<le> now - ex_last_seen x then None else Some x)"
  using assms by (auto simp: exporters_entry_def Let_def hm_laws split: option.split)

lemma exporters_parse_get:
  assumes "hm_ok (exs_map es)"
    and "exporters_parse now timeout new parse domain_id records learn src payload es = (es', r)"
  shows "hm_get (exs_map es') other =
    (if other = src then hm_get (exs_map es') src
     else case hm_get (exs_map es) other of
       None \<Rightarrow> None
     | Some x \<Rightarrow> if exs_next_sweep es \<le> now \<and> timeout \<le> now - ex_last_seen x then None else Some x)"
  using exporters_parse_store [OF assms(2)] exporters_entry_get [OF assms(1), of src now timeout new other]
  by (auto simp: exporters_store_def hm_laws)

lemma exporters_parse_seen:
  assumes "exporters_ok timeout now es"
    and "exporters_parse now timeout new parse domain_id records learn src payload es = (es', r)"
  shows "exporters_ok timeout now es' \<and>
    (\<forall>other x. hm_get (exs_map es') other = Some x \<longrightarrow> now < ex_last_seen x + timeout + EXPORTER_SWEEP_INTERVAL)"
proof -
  obtain e where e: "ex_last_seen e = now" "es' = exporters_store src e (fst (exporters_entry src now timeout new es))"
    using exporters_parse_store [OF assms(2)] by blast
  have ok: "hm_ok (exs_map es)" using assms(1) by (simp add: exporters_ok_def)
  have sweep: "exs_next_sweep es' = (if exs_next_sweep es \<le> now then now + EXPORTER_SWEEP_INTERVAL else exs_next_sweep es)"
    by (simp add: e(2) exporters_store_def exporters_entry_def Let_def)
  have pos: "0 < EXPORTER_SWEEP_INTERVAL" by (simp add: EXPORTER_SWEEP_INTERVAL_def)
  have "ex_last_seen x \<le> now \<and> exs_next_sweep es' \<le> ex_last_seen x + timeout + EXPORTER_SWEEP_INTERVAL \<and>
      now < ex_last_seen x + timeout + EXPORTER_SWEEP_INTERVAL"
    if x: "hm_get (exs_map es') other = Some x" for other x
  proof (cases "other = src")
    case True
    then have "x = e" using x by (simp add: e(2) exporters_store_def hm_laws)
    then show ?thesis
      using e(1) sweep pos assms(1) by (simp add: exporters_ok_def)
  next
    case False
    then have "hm_get (exs_map es) other = Some x" "exs_next_sweep es \<le> now \<Longrightarrow> now - ex_last_seen x < timeout"
      using x exporters_parse_get [OF ok assms(2), of other] by (auto split: option.splits if_splits)
    then have "ex_last_seen x \<le> now" "exs_next_sweep es \<le> ex_last_seen x + timeout + EXPORTER_SWEEP_INTERVAL"
        "exs_next_sweep es \<le> now \<Longrightarrow> now - ex_last_seen x < timeout"
      using assms(1) unfolding exporters_ok_def by blast+
    then show ?thesis
      using sweep pos by auto
  qed
  moreover have "hm_ok (exs_map es')"
    using exporters_entry_get [OF ok, of src now timeout new] by (simp add: e(2) exporters_store_def hm_laws)
  moreover have "exs_next_sweep es' \<le> now + EXPORTER_SWEEP_INTERVAL"
    using sweep assms(1) by (simp add: exporters_ok_def)
  ultimately show ?thesis unfolding exporters_ok_def by blast
qed

text \<open>The states of a processor: a new one, with its builders, and what datagrams at later times leave.\<close>

inductive netflow_reachable :: "libs \<Rightarrow> nat \<Rightarrow> netflow_processor \<Rightarrow> bool" for L where
  new: "netflow_reachable L now (with_template_timeout timeout (with_ie_registry registry (netflow_new now)))"
| wait: "netflow_reachable L now self \<Longrightarrow> now \<le> now' \<Longrightarrow> netflow_reachable L now' self"
| parse: "netflow_reachable L now self \<Longrightarrow> netflow_reachable L now (fst (netflow_parse L now src payload self))"

lemma netflow_parse_states:
  "np_v9 (fst (netflow_parse L now src payload self)) =
     (if payload_version payload = Some NETFLOW_V9_VERSION then fst (netflow_parse_v9 L now src payload self) else np_v9 self)"
  "np_ipfix (fst (netflow_parse L now src payload self)) =
     (if payload_version payload = Some IPFIX_VERSION then fst (netflow_parse_ipfix L now src payload self) else np_ipfix self)"
  "np_template_timeout (fst (netflow_parse L now src payload self)) = np_template_timeout self"
  by (auto simp: netflow_parse_def NETFLOW_V5_VERSION_def NETFLOW_V9_VERSION_def IPFIX_VERSION_def
      split: option.split prod.split)

lemma netflow_parse_seen:
  assumes "exporters_ok (np_template_timeout self) now (np_v9 self)"
    and "exporters_ok (np_template_timeout self) now (np_ipfix self)"
  shows "exporters_ok (np_template_timeout self) now (fst (netflow_parse_v9 L now src payload self)) \<and>
    (\<forall>other x. hm_get (exs_map (fst (netflow_parse_v9 L now src payload self))) other = Some x \<longrightarrow>
      now < ex_last_seen x + np_template_timeout self + EXPORTER_SWEEP_INTERVAL)"
    "exporters_ok (np_template_timeout self) now (fst (netflow_parse_ipfix L now src payload self)) \<and>
    (\<forall>other x. hm_get (exs_map (fst (netflow_parse_ipfix L now src payload self))) other = Some x \<longrightarrow>
      now < ex_last_seen x + np_template_timeout self + EXPORTER_SWEEP_INTERVAL)"
proof -
  obtain v9 q9 ip qi where p: "netflow_parse_v9 L now src payload self = (v9, q9)"
    "netflow_parse_ipfix L now src payload self = (ip, qi)"
    by (metis surj_pair)
  show "exporters_ok (np_template_timeout self) now (fst (netflow_parse_v9 L now src payload self)) \<and>
    (\<forall>other x. hm_get (exs_map (fst (netflow_parse_v9 L now src payload self))) other = Some x \<longrightarrow>
      now < ex_last_seen x + np_template_timeout self + EXPORTER_SWEEP_INTERVAL)"
    using exporters_parse_seen [OF assms(1) p(1) [unfolded netflow_parse_v9_def Let_def]] unfolding p fst_conv .
  show "exporters_ok (np_template_timeout self) now (fst (netflow_parse_ipfix L now src payload self)) \<and>
    (\<forall>other x. hm_get (exs_map (fst (netflow_parse_ipfix L now src payload self))) other = Some x \<longrightarrow>
      now < ex_last_seen x + np_template_timeout self + EXPORTER_SWEEP_INTERVAL)"
    using exporters_parse_seen [OF assms(2) p(2) [unfolded netflow_parse_ipfix_def Let_def]] unfolding p fst_conv .
qed

lemma netflow_reachable_ok:
  assumes "netflow_reachable L now self"
  shows "exporters_ok (np_template_timeout self) now (np_v9 self) \<and>
    exporters_ok (np_template_timeout self) now (np_ipfix self)"
  using assms
proof induction
  case (new now timeout registry)
  have "np_v9 (netflow_new now) = exporters_new now" "np_ipfix (netflow_new now) = exporters_new now"
    by (simp_all only: netflow_new_def netflow_processor.simps)
  then show ?case
    by (simp add: with_template_timeout_def with_ie_registry_def exporters_ok_new)
next
  case (wait now self now')
  then show ?case by (simp add: exporters_ok_wait [OF _ wait.hyps(2)])
next
  case (parse now self src payload)
  then show ?case
    using netflow_parse_seen [of self now L src payload] by (simp add: netflow_parse_states)
qed

section \<open>Where a flow comes from\<close>

definition origin :: "common_flow \<Rightarrow> common_flow_type \<times> ip_addr option" where
  "origin flow = (cf_flow_type flow, cf_sampler_address flow)"

lemma v9_origin: "origin (v9_convert C header a rate r tid) = (NetflowV9Flow, a)"
proof -
  have "origin (v9_set_field C up ie v flow) = origin flow" for up ie v flow
    by (cases ie; simp add: v9_set_field_def origin_def split: v9_field_value.split option.split)
  then have "origin (fst (v9_convert_field C header e st)) = origin (fst st)" for e st
    by (cases e) (simp add: v9_convert_field_flow split: option.split)
  then have "origin (fst (fold (v9_convert_field C header) es st)) = origin (fst st)" for es st
    by (rule fold_kept [where g = "\<lambda>st. origin (fst st)"])
  then show ?thesis
    by (simp add: v9_convert_def origin_def Let_def case_prod_beta common_flow_new_def)
qed

lemma peeled_origin: "origin (apply_peeled E p flow) = origin flow"
  by (simp add: apply_peeled_def apply_net_transport_def apply_transport_def apply_net_def apply_link_def Let_def
      origin_def split: option.split lax_net_slice.split transport_slice.split link_slice.split vlan_header.split)

lemma packet_origin:
  "origin (apply_ethernet_frame E bs flow) = origin flow" "origin (apply_ip_packet E bs flow) = origin flow"
  by (simp_all add: apply_ethernet_frame_def apply_ip_packet_def peeled_origin split: option.split)

lemma ipfix_origin: "origin (ipfix_convert E C header a rate boot r tid) = (IpfixFlow, a)"
proof -
  have "origin (ipfix_set_field C up delta ie v flow) = origin flow" for up delta ie v flow
    by (cases ie; simp add: ipfix_set_field_def origin_def split: ipfix_value.split option.split)
  then have "origin (fst (ipfix_convert_field C header boot e st)) = origin (fst st)" for e st
    by (cases e) (simp add: ipfix_convert_field_flow split: option.split)
  then have fields_kept: "origin (fst (fold (ipfix_convert_field C header boot) es st)) = origin (fst st)" for es st
    by (rule fold_kept [where g = "\<lambda>st. origin (fst st)"])
  have "origin (ipfix_base_flow E header a tid sec) = (IpfixFlow, a)" for sec
    by (simp add: ipfix_base_flow_def packet_origin Let_def common_flow_new_def split: option.split packet_section.split)
      (simp add: origin_def)
  then show ?thesis
    using fields_kept by (simp add: ipfix_convert_def origin_def Let_def case_prod_beta split: option.split)
qed

lemma sflow_origin:
  "origin (sflow_convert_flow_sample E header s) = (SflowV5Flow, sf_agent_address header)"
  "origin (sflow_convert_expanded_flow_sample E header es) = (SflowV5Flow, sf_agent_address header)"
proof -
  have "origin (apply_flow_record E r flow) = origin flow" for r flow
    by (cases r) (simp_all add: apply_flow_record_def apply_sampled_ethernet_def apply_sampled_ipv4_def
      apply_sampled_ipv6_def apply_extended_router_def apply_extended_switch_def apply_extended_gateway_def
      apply_sampled_header_def packet_origin [unfolded origin_def prod.inject] Let_def origin_def
      split: header_protocol.split option.split)
  then have kept: "origin (fold (\<lambda>r. apply_flow_record E (fr_data r)) rs flow) = origin flow" for rs flow
    by (rule fold_kept)
  show "origin (sflow_convert_flow_sample E header s) = (SflowV5Flow, sf_agent_address header)"
    unfolding sflow_convert_flow_sample_def Let_def kept by (simp add: origin_def common_flow_new_def)
  show "origin (sflow_convert_expanded_flow_sample E header es) = (SflowV5Flow, sf_agent_address header)"
    unfolding sflow_convert_expanded_flow_sample_def Let_def kept by (simp add: origin_def common_flow_new_def)
qed

lemma v5_origin: "origin (v5_convert C header a r) = (NetflowV5Flow, a)"
  by (simp add: origin_def v5_convert_def common_flow_new_def Let_def)

text \<open>What the flows of a packet have in common.\<close>

definition flows_of :: "common_flow_type \<Rightarrow> ip_addr option \<Rightarrow> int option \<Rightarrow> common_flow list \<Rightarrow> bool" where
  "flows_of t a time_received_ns flows \<longleftrightarrow>
     list_all (\<lambda>flow. cf_flow_type flow = t \<and> cf_sampler_address flow = a \<and>
       cf_time_received_ns flow = time_received_ns) flows"

lemma flows_of_stamped: "flows_of t a ns [flow\<lparr>cf_time_received_ns := ns\<rparr>] \<longleftrightarrow> origin flow = (t, a)"
  by (simp add: flows_of_def origin_def)

lemma v5_flows_of:
  "flows_of NetflowV5Flow a ns (map (\<lambda>r. (v5_convert C header a r)\<lparr>cf_time_received_ns := ns\<rparr>) rs)"
  using v5_origin [of C header a] by (simp add: flows_of_def list_all_iff origin_def)

lemma flows_of_map_filter:
  assumes "\<And>r flow. convert r = Some flow \<Longrightarrow> flows_of t a ns [flow]"
  shows "flows_of t a ns (List.map_filter convert rs)"
  using assms by (auto simp: flows_of_def list_all_iff map_filter_def)

lemma flows_of_concat: "(\<And>flows. flows \<in> set flowss \<Longrightarrow> flows_of t a ns flows) \<Longrightarrow> flows_of t a ns (concat flowss)"
  by (auto simp: flows_of_def list_all_iff)

lemma length_map_filter: "length (List.map_filter f xs) = length (filter (\<lambda>x. f x \<noteq> None) xs)"
  by (simp add: map_filter_def comp_def)

lemma length_concat_map_filter:
  assumes "\<And>s r. (f s r \<noteq> None) = chosen r"
  shows "length (concat (map (\<lambda>s. List.map_filter (f s) (rs s)) ss)) = length (filter chosen (concat (map rs ss)))"
  by (induction ss) (simp_all add: length_map_filter assms del: not_None_eq)

lemma v9_flows_of:
  "flows_of NetflowV9Flow (Some src) ns (v9_flows L self src p ns)"
  "length (v9_flows L self src p ns) = netflow_packet_flow_count (PacketV9 p)"
proof -
  show "flows_of NetflowV9Flow (Some src) ns (v9_flows L self src p ns)"
    unfolding v9_flows_def Let_def
    by (rule flows_of_concat)
      (auto intro!: flows_of_map_filter simp: flows_of_stamped v9_origin split: v9_record.splits)
  show "length (v9_flows L self src p ns) = netflow_packet_flow_count (PacketV9 p)"
    unfolding v9_flows_def Let_def netflow_packet_flow_count_def v9_packet_records_def netflow_packet.case
    by (rule length_concat_map_filter) (simp split: v9_record.split)
qed

lemma ipfix_flows_of:
  "flows_of IpfixFlow (Some src) ns (ipfix_flows L self src p ns)"
  "length (ipfix_flows L self src p ns) = netflow_packet_flow_count (PacketIpfix p)"
proof -
  show "flows_of IpfixFlow (Some src) ns (ipfix_flows L self src p ns)"
    unfolding ipfix_flows_def Let_def
    by (rule flows_of_concat)
      (auto intro!: flows_of_map_filter simp: flows_of_stamped ipfix_origin split: ipfix_record.splits)
  show "length (ipfix_flows L self src p ns) = netflow_packet_flow_count (PacketIpfix p)"
    unfolding ipfix_flows_def Let_def netflow_packet_flow_count_def ipfix_packet_records_def netflow_packet.case
    by (rule length_concat_map_filter) (simp split: ipfix_record.split)
qed

section \<open>Properties\<close>

text \<open>C22. The sampling rate of a data record, after any sequence of records in its domain, whose options records announce rates with or without
  the sampler they are for: the
  latest for the sampler it names, if that is kept; otherwise the latest that names no sampler; otherwise the rate
  all kept samplers have, if they have the same. The samplers kept are the first \<open>MAX_SAMPLERS\<close> the options records name,
  however many they name: no new one takes the place of one that is kept.\<close>

theorem domain_rate_of_record:
  "fold v9_learn_options v9_records domain_default = announce (v9_announced v9_records) \<and>
    domain_sampling_rate (fold (ipfix_learn_options C) ipfix_records domain_default) sampler_id =
      domain_sampling_rate (announce (ipfix_announced ipfix_records)) sampler_id \<and>
    (domain_sampling_rate (announce us) sampler_id = Some r \<longleftrightarrow>
      (case sampler_id \<bind> sampler_rate us of
         Some rate \<Rightarrow> r = rate
       | None \<Rightarrow> (case latest us None of
           Some rate \<Rightarrow> r = rate
         | None \<Rightarrow> (\<exists>n. sampler_rate us n = Some r) \<and> (\<forall>n r'. sampler_rate us n = Some r' \<longrightarrow> r' = r)))) \<and>
    length (dm_sampler_rates (announce us)) \<le> MAX_SAMPLERS"
proof -
  have "domain_sampling_rate (d\<lparr>dm_system_init_time_ms := t\<rparr>) sampler_id = domain_sampling_rate d sampler_id" for d t
    by (simp add: domain_sampling_rate_def)
  then have "domain_sampling_rate (fold (ipfix_learn_options C) ipfix_records domain_default) sampler_id =
      domain_sampling_rate (announce (ipfix_announced ipfix_records)) sampler_id"
    using ipfix_learn_announced [of C ipfix_records] by auto
  then show ?thesis
    using v9_learn_announced announce_domain_rate domain_ok_announce [of us] by (simp add: domain_ok_def)
qed

theorem domain_rate_of_record_witness:
  "domain_sampling_rate (announce [(Some 1, 100), (Some 2, 100), (Some 1, 50)]) (Some 1) = Some 50 \<and>
   (\<forall>r. domain_sampling_rate (announce [(Some 1, 100), (Some 2, 100), (Some 1, 50)]) (Some 7) \<noteq> Some r)"
proof -
  let ?us = "[(Some 1, 100), (Some 2, 100), (Some 1, 50)] :: (u64 option \<times> u32) list"
  have rates: "sampler_rate ?us 1 = Some 50" "sampler_rate ?us 2 = Some 100" "sampler_rate ?us 7 = None" "latest ?us None = None"
    by (simp_all add: sampler_rate_def latest_def first_named_def List.map_filter_def MAX_SAMPLERS_def)
  have "\<not> (\<forall>n r'. sampler_rate ?us n = Some r' \<longrightarrow> r' = r)" for r
  proof
    assume "\<forall>n r'. sampler_rate ?us n = Some r' \<longrightarrow> r' = r"
    from this [rule_format, OF rates(1)] this [rule_format, OF rates(2)] show False by simp
  qed
  then show ?thesis
    using domain_rate_of_record [where us = ?us and sampler_id = "Some 1" and r = 50]
      domain_rate_of_record [where us = ?us and sampler_id = "Some 7"]
    by (simp add: rates)
qed

text \<open>A packet becomes one flow for each of its data records, and no other, in which the type is
  that of the packet, the sampler is the exporter the datagram came from and the time received is
  the one given; the flows are appended to those there were. A packet's version is the one the
  datagram's header announces.\<close>

theorem netflow_flows_of_packet:
  "length (netflow_convert L self src packet ns) = netflow_packet_flow_count packet \<and>
   flows_of (netflow_packet_version packet) (Some src) ns (netflow_convert L self src packet ns) \<and>
   netflow_convert_into L self src packet ns flows = flows @ netflow_convert L self src packet ns \<and>
   map_option netflow_packet_version (snd (netflow_parse L now src payload self))
     \<in> {None, netflow_version_of payload}"
proof (intro conjI)
  show "length (netflow_convert L self src packet ns) = netflow_packet_flow_count packet"
    by (cases packet) (simp_all add: netflow_convert_def netflow_convert_into_def v9_flows_of ipfix_flows_of
        netflow_packet_flow_count_def [of "PacketV5 _"])
  show "flows_of (netflow_packet_version packet) (Some src) ns (netflow_convert L self src packet ns)"
    by (cases packet) (simp_all add: netflow_convert_def netflow_convert_into_def netflow_packet_version_def
        v9_flows_of ipfix_flows_of v5_flows_of)
  show "netflow_convert_into L self src packet ns flows = flows @ netflow_convert L self src packet ns"
    by (simp add: netflow_convert_def netflow_convert_into_def)
  show "map_option netflow_packet_version (snd (netflow_parse L now src payload self))
     \<in> {None, netflow_version_of payload}"
  proof -
    have [simp]: "map_option netflow_packet_version (map_option PacketV9 p) \<in> {None, Some NetflowV9Flow}"
      "map_option netflow_packet_version (map_option PacketIpfix q) \<in> {None, Some IpfixFlow}"
      "map_option netflow_packet_version (map_option (\<lambda>(_, p). PacketV5 p) v) \<in> {None, Some NetflowV5Flow}" for p q v
      by (cases p; cases q; cases v; auto simp: netflow_packet_version_def)+
    show ?thesis
      by (simp add: netflow_parse_def netflow_version_of_def case_prod_beta del: insert_iff option.map_comp split: option.split)
        simp
  qed
qed

text \<open>sFlow: likewise, one flow for each flow sample, plain or expanded, and none for counter samples;
  the sampler is the agent the datagram names, not the address it came from.\<close>

theorem sflow_flows_of_packet:
  "sflow_process L payload ns = (case sflow_parse L payload of
     None \<Rightarrow> []
   | Some packet \<Rightarrow> sflow_convert_into L packet ns []) \<and>
   length (sflow_convert_into L (SflowPacketV5 p) ns []) = sflow_packet_flow_count (SflowPacketV5 p) \<and>
   flows_of SflowV5Flow (sf_agent_address p) ns (sflow_convert_into L (SflowPacketV5 p) ns []) \<and>
   map_option sflow_packet_version (sflow_parse L payload) \<in> {None, sflow_version_of payload}"
proof (intro conjI)
  show "sflow_process L payload ns = (case sflow_parse L payload of None \<Rightarrow> []
     | Some packet \<Rightarrow> sflow_convert_into L packet ns [])"
    by (simp add: sflow_process_def split: option.split)
  show "length (sflow_convert_into L (SflowPacketV5 p) ns []) = sflow_packet_flow_count (SflowPacketV5 p)"
    unfolding sflow_convert_into_def sflow_packet_flow_count_def sflow_packet.case append_Nil length_map_filter
    by (rule arg_cong [where f = "\<lambda>chosen. length (filter chosen _)"]) (auto split: sample.split)
  show "flows_of SflowV5Flow (sf_agent_address p) ns (sflow_convert_into L (SflowPacketV5 p) ns [])"
    unfolding sflow_convert_into_def sflow_packet.case append_Nil
    by (rule flows_of_map_filter) (auto simp: flows_of_stamped sflow_origin split: sample.splits)
  show "map_option sflow_packet_version (sflow_parse L payload) \<in> {None, sflow_version_of payload}"
    by (cases "parse_sflow_v5 (lib_sflow L) payload")
      (auto simp: sflow_parse_def sflow_version_of_def sflow_packet_version_def)
qed

text \<open>What may become of an exporter no datagram comes from: nothing, or it is forgotten, once it has been quiet for the timeout.\<close>

definition exporter_kept :: "nat \<Rightarrow> nat \<Rightarrow> 'p exporter option \<Rightarrow> 'p exporter option \<Rightarrow> bool" where
  "exporter_kept timeout now before after \<longleftrightarrow> (case before of
       None \<Rightarrow> after = None
     | Some x \<Rightarrow> after = Some x \<or> after = None \<and> ex_last_seen x + timeout \<le> now)"

lemma exporter_kept_refl: "exporter_kept timeout now x x"
  by (simp add: exporter_kept_def split: option.split)

lemma exporters_parse_kept:
  assumes "exporters_ok timeout now es" and "other \<noteq> src"
    and "exporters_parse now timeout new parse domain_id records learn src payload es = (es', r)"
  shows "exporter_kept timeout now (hm_get (exs_map es) other) (hm_get (exs_map es') other)"
proof -
  have "hm_ok (exs_map es)" using assms(1) by (simp add: exporters_ok_def)
  note get = exporters_parse_get [OF this assms(3), of other]
  have "ex_last_seen x \<le> now" if "hm_get (exs_map es) other = Some x" for x
    using assms(1) that unfolding exporters_ok_def by blast
  then show ?thesis
    using get assms(2) by (auto simp: exporter_kept_def split: option.split)
qed

text \<open>C20. Exporters do not disturb each other: whatever a datagram holds, the templates and sampling rates
  of every other exporter, in each protocol it speaks, stay as they were, unless it has been quiet in that protocol for the timeout, when
  they may be forgotten; and nothing is made up for an exporter that is not known.\<close>

theorem exporters_isolated:
  assumes "netflow_reachable L now self" and "other \<noteq> src"
  shows "exporter_kept (np_template_timeout self) now (hm_get (exs_map (np_v9 self)) other)
      (hm_get (exs_map (np_v9 (fst (netflow_parse L now src payload self)))) other) \<and>
    exporter_kept (np_template_timeout self) now (hm_get (exs_map (np_ipfix self)) other)
      (hm_get (exs_map (np_ipfix (fst (netflow_parse L now src payload self)))) other)"
proof -
  obtain v9 q9 ip qi where p: "netflow_parse_v9 L now src payload self = (v9, q9)"
    "netflow_parse_ipfix L now src payload self = (ip, qi)"
    by (metis surj_pair)
  note ok = netflow_reachable_ok [OF assms(1)]
  have "exporter_kept (np_template_timeout self) now (hm_get (exs_map (np_v9 self)) other) (hm_get (exs_map v9) other)"
    "exporter_kept (np_template_timeout self) now (hm_get (exs_map (np_ipfix self)) other) (hm_get (exs_map ip) other)"
    using exporters_parse_kept [OF conjunct1 [OF ok] assms(2) p(1) [unfolded netflow_parse_v9_def Let_def]]
      exporters_parse_kept [OF conjunct2 [OF ok] assms(2) p(2) [unfolded netflow_parse_ipfix_def Let_def]] by blast+
  then show ?thesis
    by (simp add: netflow_parse_states p exporter_kept_refl)
qed

text \<open>C21. An exporter that falls silent is forgotten: the first datagram of its protocol, from anyone else,
  that comes the timeout and a sweep interval after its last removes its templates and rates.\<close>

theorem quiet_exporters_forgotten:
  assumes "netflow_reachable L now self" and "other \<noteq> src"
  shows "(payload_version payload = Some NETFLOW_V9_VERSION \<longrightarrow>
      hm_get (exs_map (np_v9 self)) other = Some x9 \<longrightarrow>
      ex_last_seen x9 + np_template_timeout self + EXPORTER_SWEEP_INTERVAL \<le> now \<longrightarrow>
      hm_get (exs_map (np_v9 (fst (netflow_parse L now src payload self)))) other = None) \<and>
    (payload_version payload = Some IPFIX_VERSION \<longrightarrow>
      hm_get (exs_map (np_ipfix self)) other = Some xi \<longrightarrow>
      ex_last_seen xi + np_template_timeout self + EXPORTER_SWEEP_INTERVAL \<le> now \<longrightarrow>
      hm_get (exs_map (np_ipfix (fst (netflow_parse L now src payload self)))) other = None)"
proof -
  obtain v9 q9 ip qi where p: "netflow_parse_v9 L now src payload self = (v9, q9)"
    "netflow_parse_ipfix L now src payload self = (ip, qi)"
    by (metis surj_pair)
  note ok = netflow_reachable_ok [OF assms(1)]
  have hm: "hm_ok (exs_map (np_v9 self))" "hm_ok (exs_map (np_ipfix self))"
    using ok by (simp_all add: exporters_ok_def)
  have sweep: "exs_next_sweep es \<le> now \<and> np_template_timeout self \<le> now - ex_last_seen x"
    if "exporters_ok (np_template_timeout self) now es" "hm_get (exs_map es) other = Some x"
      "ex_last_seen x + np_template_timeout self + EXPORTER_SWEEP_INTERVAL \<le> now"
    for es :: "'p exporters" and x
  proof -
    have "exs_next_sweep es \<le> ex_last_seen x + np_template_timeout self + EXPORTER_SWEEP_INTERVAL"
      using that(1,2) unfolding exporters_ok_def by blast
    then show ?thesis using that(3) by linarith
  qed
  show ?thesis
  proof (intro conjI impI)
    assume "payload_version payload = Some NETFLOW_V9_VERSION" "hm_get (exs_map (np_v9 self)) other = Some x9"
      "ex_last_seen x9 + np_template_timeout self + EXPORTER_SWEEP_INTERVAL \<le> now"
    then show "hm_get (exs_map (np_v9 (fst (netflow_parse L now src payload self)))) other = None"
      using exporters_parse_get [OF hm(1) p(1) [unfolded netflow_parse_v9_def Let_def], of other] assms(2)
        sweep [OF conjunct1 [OF ok]]
      by (simp add: netflow_parse_states p)
  next
    assume "payload_version payload = Some IPFIX_VERSION" "hm_get (exs_map (np_ipfix self)) other = Some xi"
      "ex_last_seen xi + np_template_timeout self + EXPORTER_SWEEP_INTERVAL \<le> now"
    then show "hm_get (exs_map (np_ipfix (fst (netflow_parse L now src payload self)))) other = None"
      using exporters_parse_get [OF hm(2) p(2) [unfolded netflow_parse_ipfix_def Let_def], of other] assms(2)
        sweep [OF conjunct2 [OF ok]]
      by (simp add: netflow_parse_states p)
  qed
qed


section \<open>Two exporters\<close>

definition libs_ref :: libs where
  "libs_ref = \<lparr>lib_v5 = v5_nom_ref, lib_v9 = v9_nom_ref, lib_ipfix = ipfix_nom_ref, lib_sflow = sflow_nom_ref,
     lib_chrono = chrono_ref, lib_etherparse = etherparse_ref\<rparr>"

definition first_exporter :: ip_addr where
  "first_exporter = V4 0xC0000201"

definition second_exporter :: ip_addr where
  "second_exporter = V4 0xC0000202"

definition after_first :: netflow_processor where
  "after_first = fst (netflow_parse libs_ref 0 first_exporter [0, 10]
     (fst (netflow_parse libs_ref 0 first_exporter [0, 9]
       (with_template_timeout 600 (with_ie_registry new_with_iana_elements (netflow_new 0))))))"

lemma exporters_differ: "first_exporter \<noteq> second_exporter"
  by (simp add: first_exporter_def second_exporter_def)

lemma example_versions: "payload_version [0, 9] = Some NETFLOW_V9_VERSION" "payload_version [0, 10] = Some IPFIX_VERSION"
  by (simp_all add: payload_version_def NETFLOW_V9_VERSION_def IPFIX_VERSION_def from_be_bytes_def be_nat_def)

lemma example_reachable: "netflow_reachable libs_ref now after_first"
proof -
  have "netflow_reachable libs_ref 0 after_first"
    unfolding after_first_def by (intro netflow_reachable.parse netflow_reachable.new)
  then show ?thesis by (rule netflow_reachable.wait) simp
qed

lemma example_timeout: "np_template_timeout after_first = 600"
  by (simp add: after_first_def netflow_parse_states with_template_timeout_def)

lemma parsed_exporter:
  assumes "hm_ok (exs_map es)"
  shows "\<exists>x. hm_get (exs_map (fst (exporters_parse now timeout new parse domain_id records learn src payload es))) src = Some x \<and>
    ex_last_seen x = now"
proof -
  obtain es' r where p: "exporters_parse now timeout new parse domain_id records learn src payload es = (es', r)" by force
  obtain x where "ex_last_seen x = now" "es' = exporters_store src x (fst (exporters_entry src now timeout new es))"
    using exporters_parse_store [OF p] by blast
  then show ?thesis by (simp add: p exporters_store_def hm_laws)
qed

lemma example_exporters:
  obtains x9 xi where "hm_get (exs_map (np_v9 after_first)) first_exporter = Some x9" "ex_last_seen x9 = 0"
    "hm_get (exs_map (np_ipfix after_first)) first_exporter = Some xi" "ex_last_seen xi = 0"
proof -
  let ?new = "with_template_timeout 600 (with_ie_registry new_with_iana_elements (netflow_new 0))"
  let ?next = "fst (netflow_parse libs_ref 0 first_exporter [0, 9] ?new)"
  have "hm_ok (exs_map (np_v9 ?new))" "hm_ok (exs_map (np_ipfix ?next))"
    using netflow_reachable_ok [OF netflow_reachable.new [of libs_ref 0 600 new_with_iana_elements]]
      netflow_reachable_ok [OF netflow_reachable.parse [OF netflow_reachable.new [of libs_ref 0 600 new_with_iana_elements]]]
    unfolding exporters_ok_def by blast+
  from this [THEN parsed_exporter]
  have "\<exists>x. hm_get (exs_map (np_v9 after_first)) first_exporter = Some x \<and> ex_last_seen x = 0"
    "\<exists>x. hm_get (exs_map (np_ipfix after_first)) first_exporter = Some x \<and> ex_last_seen x = 0"
    unfolding after_first_def netflow_parse_states example_versions netflow_parse_v9_def netflow_parse_ipfix_def Let_def
    by (simp_all add: NETFLOW_V9_VERSION_def IPFIX_VERSION_def)
  then show ?thesis using that by blast
qed

theorem exporters_isolated_witness:
  "hm_get (exs_map (np_v9 after_first)) first_exporter \<noteq> None \<and>
   hm_get (exs_map (np_v9 (fst (netflow_parse libs_ref 5 second_exporter [0, 9] after_first)))) first_exporter =
     hm_get (exs_map (np_v9 after_first)) first_exporter"
proof -
  obtain x9 xi where x: "hm_get (exs_map (np_v9 after_first)) first_exporter = Some x9" "ex_last_seen x9 = 0"
    "hm_get (exs_map (np_ipfix after_first)) first_exporter = Some xi" "ex_last_seen xi = 0"
    by (rule example_exporters)
  show ?thesis
    using exporters_isolated [OF example_reachable exporters_differ, of 5 "[0, 9]"]
    by (simp add: x example_timeout exporter_kept_def)
qed

theorem quiet_exporters_forgotten_witness:
  "hm_get (exs_map (np_v9 after_first)) first_exporter \<noteq> None \<and>
   hm_get (exs_map (np_v9 (fst (netflow_parse libs_ref 10000000600 second_exporter [0, 9] after_first)))) first_exporter = None \<and>
   hm_get (exs_map (np_ipfix (fst (netflow_parse libs_ref 10000000600 second_exporter [0, 10] after_first)))) first_exporter = None"
proof -
  obtain x9 xi where x: "hm_get (exs_map (np_v9 after_first)) first_exporter = Some x9" "ex_last_seen x9 = 0"
    "hm_get (exs_map (np_ipfix after_first)) first_exporter = Some xi" "ex_last_seen xi = 0"
    by (rule example_exporters)
  show ?thesis
    using quiet_exporters_forgotten [OF example_reachable exporters_differ, of "[0, 9]" x9 10000000600 xi]
      quiet_exporters_forgotten [OF example_reachable exporters_differ, of "[0, 10]" x9 10000000600 xi]
    by (simp add: x example_timeout example_versions EXPORTER_SWEEP_INTERVAL_def)
qed

end
