(* ===== verification/EndToEnd.thy ===== *)
theory EndToEnd
  imports Exporter Processor
begin

text \<open>
  From the exporter to the collector: the flows one program meters and sends, as the other receives
  them. A message \<^verbatim>\<open>rustflow_export\<close> sends is decoded by the IPFIX parser of \<^verbatim>\<open>rustflow_core\<close>, in any
  state in which it knows the exporter's templates, and its records are converted to the flows
  that were metered, with the times cut to the milliseconds the templates carry.
\<close>

section \<open>What the collector receives\<close>

definition is_v6 :: "ip_addr \<Rightarrow> bool" where
  "is_v6 ip = (case ip of V4 _ \<Rightarrow> False | V6 _ \<Rightarrow> True)"

definition flow_template_for :: "bool \<Rightarrow> ipfix_template_record" where
  "flow_template_for v6 = create_flow_templates ! (if v6 then 1 else 0)"

text \<open>The abstract data types IANA assigns to the elements of the flow templates.\<close>

definition flow_types :: "bool \<Rightarrow> data_type list" where
  "flow_types v6 =
     (let a = (if v6 then DtIpv6Address else DtIpv4Address) in
      [a, a, DtUnsigned, DtUnsigned, DtUnsigned, DtUnsigned, DtUnsigned, DtUnsigned, DtUnsigned,
       DtDateTimeMilliseconds, DtDateTimeMilliseconds, DtUnsigned])"

definition knows_flows :: "bool \<Rightarrow> ipfix_resolved_field list \<Rightarrow> bool" where
  "knows_flows v6 fs \<longleftrightarrow> map rf_spec fs = tr_fields (flow_template_for v6) \<and> map rf_data_type fs = flow_types v6"

definition whole_millis :: "datetime \<Rightarrow> datetime" where
  "whole_millis t = DateTime (dt_secs t) (dt_nanos t div 1000000 * 1000000)"

definition received_values :: "flow_data \<Rightarrow> ipfix_value list" where
  "received_values d =
     [address_value (fd_source_ip d), address_value (fd_destination_ip d),
      Unsigned8 (flow_data_ip_version d), Unsigned8 (fd_protocol d),
      Unsigned16 (fd_source_port d), Unsigned16 (fd_destination_port d),
      Unsigned64 (fd_octet_count d), Unsigned64 (fd_packet_count d),
      Unsigned16 (fd_tcp_flags d), DateTimeMilliseconds (whole_millis (fd_flow_start d)),
      DateTimeMilliseconds (whole_millis (fd_flow_end d)), Unsigned8 (fd_flow_end_reason d)]"

definition time_ok :: "datetime \<Rightarrow> bool" where
  "time_ok t \<longleftrightarrow> dt_ok t \<and> 0 \<le> dt_secs t \<and> dt_secs t < 2 ^ 32"

definition exportable :: "bool \<Rightarrow> flow_data \<Rightarrow> bool" where
  "exportable v6 d \<longleftrightarrow> is_v6 (fd_source_ip d) = v6 \<and> is_v6 (fd_destination_ip d) = v6 \<and>
     time_ok (fd_flow_start d) \<and> time_ok (fd_flow_end d)"

section \<open>The same bytes\<close>

lemma encode_lengths:
  "encode_data_record B C (DataRecord fs vs) buf =
    fold (\<lambda>(l, v). encode_field_value B C v l) (zip (map (\<lambda>f. fs_length (rf_spec f)) fs) vs) buf"
proof -
  have "fold (\<lambda>(field, _, value). encode_field_value B C value (fs_length field))
      (map (\<lambda>(f, v). (rf_spec f, rf_name f, v)) (zip fs vs)) buf =
    fold (\<lambda>(l, v). encode_field_value B C v l) (zip (map (\<lambda>f. fs_length (rf_spec f)) fs) vs) buf"
    by (induction fs vs arbitrary: buf rule: list_induct2') simp_all
  then show ?thesis by (simp add: encode_data_record_def record_iter_def)
qed

lemma flow_lengths:
  assumes "knows_flows v6 fs"
  shows "map (\<lambda>f. fs_length (rf_spec f)) fs =
    (if v6 then [16, 16] else [4, 4]) @ [1, 1, 2, 2, 8, 8, 2, 8, 8, 1]"
proof -
  have "map (\<lambda>f. fs_length (rf_spec f)) fs = map fs_length (map rf_spec fs)"
    by simp
  also have "\<dots> = (if v6 then [16, 16] else [4, 4]) @ [1, 1, 2, 2, 8, 8, 2, 8, 8, 1]"
    using assms by (simp add: knows_flows_def flow_template_for_def create_flow_templates_def flow_template_def
        template_record_new_def specifier_from_ie_def specifier_iana_def)
  finally show ?thesis .
qed

lemma whole_millis_total: "dt_total (whole_millis t) div 1000000 = dt_total t div 1000000"
proof -
  have "(s * 1000000000 + int n) div 1000000 = s * 1000 + int (n div 1000000)" for s n
  proof -
    have "s * 1000000000 + int n = int n + s * 1000 * 1000000" by simp
    then show ?thesis by (simp add: zdiv_int)
  qed
  then show ?thesis by (simp add: dt_total_def whole_millis_def)
qed

lemma encode_received:
  assumes "bufmut_spec B" and "chrono_spec C" and "knows_flows v6 fs" and "exportable v6 d"
  shows "encode_data_record B C (from_template fs (received_values d)) buf = encode_data_record B C (flow_data_to_record d) buf"
proof -
  have ip: "encode_field_value B C (address_value ip) l buf = encode_value B C (address_value ip) buf"
    if "l \<in> {0, 4, 16}" for ip l buf
    using that by (cases ip) (auto simp: encode_field_value_def encode_field_with_def address_value_def IPFIX_VARIABLE_LENGTH_def)
  have natural: "encode_field_value B C (Unsigned8 v8) 1 buf = encode_field_value B C (Unsigned8 v8) 0 buf"
    "encode_field_value B C (Unsigned16 v16) 2 buf = encode_field_value B C (Unsigned16 v16) 0 buf"
    "encode_field_value B C (Unsigned64 v64) 8 buf = encode_field_value B C (Unsigned64 v64) 0 buf"
    "encode_field_value B C (DateTimeMilliseconds (whole_millis t)) 8 buf = encode_field_value B C (DateTimeMilliseconds t) 0 buf"
    for v8 v16 v64 t buf
    by (simp_all add: encode_field_value_def encode_field_with_def IPFIX_VARIABLE_LENGTH_def wire_ref.unat_ucast_u64
        bufmut_spec.put_specs [OF assms(1)] put_uint_bytes [OF assms(1)] to_be_bytes_nat_be
        chrono_spec.timestamp_millis_spec [OF assms(2)] whole_millis_total)
  show ?thesis
    unfolding from_template_def encode_lengths flow_lengths [OF assms(3)] flow_data_to_record_def data_record_new_def
      received_values_def
    by (cases v6; simp add: ip natural specifier_iana_def)
qed

section \<open>One message\<close>

definition carried_at :: "u16 \<Rightarrow> data_type \<Rightarrow> ipfix_value \<Rightarrow> bool" where
  "carried_at l dt v =
     (if l = IPFIX_VARIABLE_LENGTH then carries dt (natural_width v) v \<and> natural_width v < 2 ^ 16
      else l \<noteq> 0 \<and> carries dt (unat l) v)"

lemma carries_list:
  "list_all2 field_carries fs vs \<longleftrightarrow>
    list_all2 (\<lambda>(l, dt) v. carried_at l dt v) (zip (map (\<lambda>f. fs_length (rf_spec f)) fs) (map rf_data_type fs)) vs"
  by (induction fs vs rule: list_induct2') (simp_all add: field_carries_def carried_at_def)

lemma carried_millis:
  assumes "time_ok t"
  shows "carried_at 8 DtDateTimeMilliseconds (DateTimeMilliseconds (whole_millis t))"
proof -
  have "dt_nanos t div 1000000 < 1000"
    using assms by (intro less_mult_imp_div_less) (simp add: time_ok_def dt_ok_def)
  then show ?thesis
    using assms by (simp add: carried_at_def carries_def value_typed_def natural_length_def time_ok_def whole_millis_def
        dt_ok_def IPFIX_VARIABLE_LENGTH_def)
qed

lemma carried_numbers:
  "carried_at 1 DtUnsigned (Unsigned8 v8)" "carried_at 2 DtUnsigned (Unsigned16 v16)" "carried_at 8 DtUnsigned (Unsigned64 v64)"
  using unsigned_less [of v64, where 'a = nat]
  by (simp_all add: carried_at_def carries_def value_typed_def natural_length_def IPFIX_VARIABLE_LENGTH_def)

lemma received_carried:
  assumes "knows_flows v6 fs" and "exportable v6 d"
  shows "list_all2 field_carries fs (received_values d)"
proof -
  have "carried_at (if v6 then 16 else 4) (if v6 then DtIpv6Address else DtIpv4Address) (address_value ip)" if "is_v6 ip = v6" for ip
    using that by (cases ip) (auto simp: is_v6_def address_value_def carried_at_def carries_def value_typed_def
        natural_length_def IPFIX_VARIABLE_LENGTH_def)
  then have ips: "carried_at (if v6 then 16 else 4) (if v6 then DtIpv6Address else DtIpv4Address) (address_value (fd_source_ip d))"
    "carried_at (if v6 then 16 else 4) (if v6 then DtIpv6Address else DtIpv4Address) (address_value (fd_destination_ip d))"
    using assms(2) by (simp_all add: exportable_def)
  have "map rf_data_type fs = flow_types v6" using assms(1) by (simp add: knows_flows_def)
  then show ?thesis
    unfolding carries_list flow_lengths [OF assms(1)] received_values_def
    using ips assms(2) by (cases v6) (simp_all add: flow_types_def carried_numbers carried_millis exportable_def)
qed

lemma knows_not_empty: "knows_flows v6 fs \<Longrightarrow> fs \<noteq> []"
  by (auto simp: knows_flows_def flow_types_def Let_def)

definition template_id_for :: "bool \<Rightarrow> u16" where
  "template_id_for v6 = (if v6 then FLOW_IPV6_TEMPLATE_ID else FLOW_IPV4_TEMPLATE_ID)"

lemma template_id_valid:
  "ipfix_valid_template_id (template_id_for v6)" "template_id_for v6 \<noteq> IPFIX_TEMPLATE_SET_ID"
  "template_id_for v6 \<noteq> IPFIX_OPTIONS_TEMPLATE_SET_ID"
  by (simp_all add: template_id_for_def FLOW_IPV4_TEMPLATE_ID_def FLOW_IPV6_TEMPLATE_ID_def ipfix_consts)

definition received_packet :: "ipfix_packet \<Rightarrow> ipfix_resolved_field list \<Rightarrow> u16 \<Rightarrow> flow_data list \<Rightarrow> nat \<Rightarrow> ipfix_packet" where
  "received_packet p fs t ds n =
     \<lparr>ip_header = (ip_header p)\<lparr>ih_length := word_of_nat (20 + n),
        ih_export_time := DateTime (dt_secs (ih_export_time (ip_header p))) 0\<rparr>,
      ip_sets = [\<lparr>set_id = t, set_length = word_of_nat (4 + n),
        set_records = map (\<lambda>d. RData (from_template fs (received_values d))) ds\<rparr>]\<rparr>"

lemma learn_from_data: "learn_element_types d (map RData rs) self = self"
proof -
  have "fold (learn_step d registry) (map RData rs) st = st" for registry st
    by (induction rs arbitrary: st) (simp_all add: learn_step_def)
  then show ?thesis by (simp add: learn_element_types_def)
qed

lemma encode_packet_cong:
  assumes "ih_version (ip_header q) = ih_version (ip_header p)"
    and "ch_timestamp C (ih_export_time (ip_header q)) = ch_timestamp C (ih_export_time (ip_header p))"
    and "ih_sequence_number (ip_header q) = ih_sequence_number (ip_header p)" and "ih_domain (ip_header q) = ih_domain (ip_header p)"
    and "\<And>buf. fold (encode_set B C) (ip_sets q) buf = fold (encode_set B C) (ip_sets p) buf"
  shows "encode_packet B C q buf = encode_packet B C p buf"
  using assms by (simp add: encode_packet_def Let_def)

lemma encode_received_records:
  assumes "bufmut_spec B" and "chrono_spec C" and "knows_flows v6 fs" and "\<forall>d\<in>set ds. exportable v6 d"
  shows "fold (encode_record B C) (map (\<lambda>d. RData (from_template fs (received_values d))) ds) buf =
    fold (encode_record B C) (map (\<lambda>d. RData (flow_data_to_record d)) ds) buf"
  using assms(4)
  by (induction ds arbitrary: buf) (simp_all add: encode_record_def encode_received [OF assms(1-3)])

lemma message_received:
  assumes "ipfix_nom_spec N C" and "bufmut_spec B" and "knows_flows v6 fs"
    and "cache_get (ip_templates st) now (ih_domain (ip_header p), template_id_for v6) = Some fs"
    and "ds \<noteq> []" and "\<forall>d\<in>set ds. exportable v6 d"
    and "ih_version (ip_header p) = IPFIX_VERSION" and "time_ok (ih_export_time (ip_header p))"
    and "n = sum_list (map (\<lambda>d. length (encode_data_record B C (flow_data_to_record d) [])) ds)" and "n \<le> MAX_SET_BODY"
  shows "ipfix_parse N C now st (encode_packet B C (p\<lparr>ip_sets :=
      [\<lparr>set_id = template_id_for v6, set_length = 0, set_records = map (\<lambda>d. RData (flow_data_to_record d)) ds\<rparr>]\<rparr>) []) =
    (st, Some ([], received_packet p fs (template_id_for v6) ds n))"
proof -
  have C: "chrono_spec C" using assms(1) by (simp add: ipfix_nom_spec_def wire_spec_def)
  note put = bufmut_spec.put_specs [OF assms(2)]
  let ?p = "p\<lparr>ip_sets := [\<lparr>set_id = template_id_for v6, set_length = 0, set_records = map (\<lambda>d. RData (flow_data_to_record d)) ds\<rparr>]\<rparr>"
  let ?q = "received_packet p fs (template_id_for v6) ds n"
  let ?s = "\<lparr>set_id = template_id_for v6, set_length = word_of_nat (4 + n),
    set_records = map (\<lambda>d. RData (from_template fs (received_values d))) ds\<rparr>"
  note records = encode_received_records [OF assms(2) C assms(3,6)]
  have same: "encode_packet B C ?q [] = encode_packet B C ?p []"
    by (rule encode_packet_cong)
      (simp_all add: received_packet_def encode_set_def records chrono_spec.timestamp_spec [OF C])
  have "\<forall>r\<in>set (map flow_data_to_record ds). appending B C r"
    using flow_record_len [OF assms(2)] by auto
  note body = fold_appending [OF this, of "[]"]
  have len: "length (encode_set B C ?s []) = 4 + n" "length (encode_packet B C ?q []) = 20 + n"
    using body assms(9)
    by (simp_all add: encode_packet_def received_packet_def encode_set_def records Let_def put comp_def length_concat
        IPFIX_HEADER_SIZE_def SET_HEADER_SIZE_def)
  have "20 + n < 2 ^ 16"
    using assms(10) by (simp add: MAX_SET_BODY_def MAX_MESSAGE_SIZE_def IPFIX_HEADER_SIZE_def SET_HEADER_SIZE_def)
  then have lens: "unat (word_of_nat (4 + n) :: u16) = 4 + n" "unat (word_of_nat (20 + n) :: u16) = 20 + n"
    by (simp_all add: unat_word_of_nat del: of_nat_add)
  have "ipfix_template_for st now (ih_domain (ip_header p), template_id_for v6) = Some (fs, RData)"
    using assms(4) by (simp add: ipfix_template_for_def)
  then have "set_carries now (ih_domain (ip_header p)) st ?s"
    using template_id_valid assms(5,6) knows_not_empty [OF assms(3)] received_carried [OF assms(3)]
    by (auto simp: set_carries_def from_template_def comp_def
        intro!: exI [of _ "map (\<lambda>d. from_template fs (received_values d)) ds"])
  moreover have "set_effect now (ih_domain (ip_header p)) ?s st = st"
    using template_id_valid [of v6] learn_from_data [of _ "map (\<lambda>d. from_template fs (received_values d)) ds"]
    by (simp add: set_effect_def comp_def)
  ultimately have "packet_carries B C now st ?q" and "fold (set_effect now (ih_domain (ip_header ?q))) (ip_sets ?q) st = st"
    using assms(7,8) len lens unfolding packet_carries_def
    by (simp_all add: received_packet_def time_ok_def Let_def)
  then show ?thesis
    using ipfix_nom_spec.packet_roundtrip [OF assms(1,2), of now st ?q "[]"] same by simp
qed

section \<open>The flow of a record\<close>

lemma last_some_names:
  "last_some h (map (\<lambda>(f, v). (rf_spec f, rf_name f, v)) (zip fs vs)) =
    last_some h (map (\<lambda>(spec, v). (spec, [], v)) (zip (map rf_spec fs) vs))"
  by (induction fs vs rule: list_induct2') simp_all

lemma iana_element_from_ie [simp]: "iana_element (specifier_from_ie ie len) = Some ie"
  by (simp add: iana_element_def specifier_from_ie_def specifier_iana_def ie_from_id_id)

definition flow_specs :: "bool \<Rightarrow> field_specifier list" where
  "flow_specs v6 = tr_fields (flow_template_for v6)"

lemma flow_specs_eq:
  "flow_specs v6 = (if v6 then [specifier_from_ie SourceIpv6Address 16, specifier_from_ie DestinationIpv6Address 16]
      else [specifier_from_ie SourceIpv4Address 4, specifier_from_ie DestinationIpv4Address 4]) @
    [specifier_from_ie IpVersion 1, specifier_from_ie ProtocolIdentifier 1,
     specifier_from_ie SourceTransportPort 2, specifier_from_ie DestinationTransportPort 2,
     specifier_from_ie OctetDeltaCount 8, specifier_from_ie PacketDeltaCount 8,
     specifier_from_ie TcpControlBits 2, specifier_from_ie FlowStartMilliseconds 8,
     specifier_from_ie FlowEndMilliseconds 8, specifier_from_ie FlowEndReason 1]"
  by (simp add: flow_specs_def flow_template_for_def create_flow_templates_def flow_template_def template_record_new_def)

lemma received_last:
  assumes "knows_flows v6 fs"
  shows "ipfix_last (from_template fs (received_values d)) h =
    last_some (\<lambda>field v. iana_element field \<bind> h v) (map (\<lambda>(spec, v). (spec, [], v)) (zip (flow_specs v6) (received_values d)))"
  using assms by (simp add: ipfix_last_def record_iter_def from_template_def last_some_names knows_flows_def flow_specs_def)

lemma received_no_section:
  assumes "knows_flows v6 fs"
  shows "packet_section (from_template fs (received_values d)) = None"
proof -
  have "packet_section_loop (map (\<lambda>(f, v). (rf_spec f, rf_name f, v)) (zip fs vs)) None = None"
    if "\<forall>v\<in>set vs. \<forall>bs. v \<noteq> OctetArray bs" for vs
    using that by (induction fs vs rule: list_induct2') (auto split: ipfix_value.split)
  moreover have "\<forall>v\<in>set (received_values d). \<forall>bs. v \<noteq> OctetArray bs"
    by (simp add: received_values_def address_value_def split: ip_addr.split)
  ultimately show ?thesis
    by (simp add: packet_section_def record_iter_def from_template_def)
qed

lemma extract_natural [simp]:
  "ipfix_extract_u8 (Unsigned8 v8) = Some v8" "ipfix_extract_u16 (Unsigned16 v16) = Some v16"
  "ipfix_extract_u64 (Unsigned64 v64) = Some v64"
  "ipfix_extract_datetime_ns C (DateTimeMilliseconds t) = ch_timestamp_nanos_opt C t"
proof -
  have "ucast (ucast v8 :: u64) = v8" "ucast (ucast v16 :: u64) = v16"
    by (auto intro!: bit_word_eqI simp: bit_unsigned_iff)
  then show "ipfix_extract_u8 (Unsigned8 v8) = Some v8" "ipfix_extract_u16 (Unsigned16 v16) = Some v16"
    using unat_bounds(1) [of v8] unat_bounds(2) [of v16]
    by (simp_all add: ipfix_extract_u8_def ipfix_extract_u16_def ipfix_extract_u64_def try_from_u64_def
        wire_ref.unat_ucast_u64)
qed (simp_all add: ipfix_extract_u64_def ipfix_extract_datetime_ns_def)

lemma received_flow:
  assumes "knows_flows v6 fs" and "is_v6 (fd_source_ip d) = v6" and "is_v6 (fd_destination_ip d) = v6"
  shows "let flow = ipfix_convert E C header a rate boot (from_template fs (received_values d)) tid in
    cf_src_addr flow = Some (fd_source_ip d) \<and> cf_dst_addr flow = Some (fd_destination_ip d) \<and>
    cf_proto flow = Some (fd_protocol d) \<and> cf_src_port flow = Some (fd_source_port d) \<and>
    cf_dst_port flow = Some (fd_destination_port d) \<and> cf_bytes flow = fd_octet_count d \<and>
    cf_packets flow = fd_packet_count d \<and> cf_tcp_flags flow = Some (fd_tcp_flags d) \<and>
    cf_time_flow_start_ns flow = ch_timestamp_nanos_opt C (whole_millis (fd_flow_start d)) \<and>
    cf_time_flow_end_ns flow = ch_timestamp_nanos_opt C (whole_millis (fd_flow_end d))"
proof -
  obtain x y where ip: "address_value (fd_source_ip d) = x" "address_value (fd_destination_ip d) = y"
    and xy: "if v6 then (\<exists>v w. fd_source_ip d = V6 v \<and> fd_destination_ip d = V6 w \<and> x = Ipv6Address v \<and> y = Ipv6Address w)
      else (\<exists>v w. fd_source_ip d = V4 v \<and> fd_destination_ip d = V4 w \<and> x = Ipv4Address v \<and> y = Ipv4Address w)"
    using assms(2,3) by (cases "fd_source_ip d"; cases "fd_destination_ip d") (auto simp: is_v6_def address_value_def)
  show ?thesis
    unfolding ipfix_convert_eq Let_def received_no_section [OF assms(1)] option.case
    using xy
    by (simp add: ipfix_set_parts [THEN ipfix_fold_part] received_last [OF assms(1)])
      (cases v6; auto simp: flow_specs_eq received_values_def ip among_def)
qed

section \<open>All messages\<close>

text \<open>What a flow says, on either side.\<close>

definition flow_summary :: "common_flow \<Rightarrow>
    ip_addr option \<times> ip_addr option \<times> u8 option \<times> u16 option \<times> u16 option \<times> u64 \<times> u64 \<times> u16 option \<times>
    int option \<times> int option" where
  "flow_summary flow =
     (cf_src_addr flow, cf_dst_addr flow, cf_proto flow, cf_src_port flow, cf_dst_port flow, cf_bytes flow,
      cf_packets flow, cf_tcp_flags flow, cf_time_flow_start_ns flow, cf_time_flow_end_ns flow)"

definition data_summary :: "flow_data \<Rightarrow>
    ip_addr option \<times> ip_addr option \<times> u8 option \<times> u16 option \<times> u16 option \<times> u64 \<times> u64 \<times> u16 option \<times>
    int option \<times> int option" where
  "data_summary d =
     (Some (fd_source_ip d), Some (fd_destination_ip d), Some (fd_protocol d), Some (fd_source_port d),
      Some (fd_destination_port d), fd_octet_count d, fd_packet_count d, Some (fd_tcp_flags d),
      Some (dt_total (whole_millis (fd_flow_start d))), Some (dt_total (whole_millis (fd_flow_end d))))"

lemma nanos_of_millis:
  assumes "chrono_spec C" and "time_ok t"
  shows "ch_timestamp_nanos_opt C (whole_millis t) = Some (dt_total (whole_millis t))"
proof -
  have "dt_nanos t div 1000000 < 1000"
    using assms(2) by (intro less_mult_imp_div_less) (simp add: time_ok_def dt_ok_def)
  then show ?thesis
    using assms(2) by (auto simp: chrono_spec.timestamp_nanos_opt_spec [OF assms(1)] dt_total_def whole_millis_def time_ok_def)
qed

lemma received_packet_flows:
  assumes "chrono_spec (lib_chrono L)" and "knows_flows v6 fs" and "\<forall>d\<in>set ds. exportable v6 d"
  shows "map flow_summary (ipfix_flows L np src (received_packet p fs t ds n) ns) = map data_summary ds"
proof -
  have one: "flow_summary ((ipfix_convert E (lib_chrono L) header a rate boot (from_template fs (received_values d)) tid)
      \<lparr>cf_time_received_ns := ns\<rparr>) = data_summary d" if "exportable v6 d" for E header a rate boot d tid
    using received_flow [OF assms(2), of d E "lib_chrono L" header a rate boot tid] nanos_of_millis [OF assms(1)] that
    by (simp add: exportable_def flow_summary_def data_summary_def Let_def)
  show ?thesis
    using assms(3) by (induction ds) (simp_all add: ipfix_flows_def received_packet_def map_filter_simps Let_def one)
qed

lemma batches_map:
  "batches len (map (\<lambda>d. (g d, f d)) ds) (map f pending) t =
    map (\<lambda>(t, ds). (t, map f ds)) (batches (\<lambda>d. len (f d)) (map (\<lambda>d. (g d, d)) ds) pending t)"
proof (induction ds arbitrary: pending t)
  case (Cons d ds)
  show ?case
    using Cons.IH [of "[d]" "g d"] Cons.IH [of "pending @ [d]" "g d"] by (simp add: comp_def)
qed simp

lemma batches_single:
  assumes "(t', ds') \<in> set (batches len (map (\<lambda>d. (g d, d)) ds) [] t)" and "d \<in> set ds'"
  shows "g d = t' \<and> d \<in> set ds"
proof -
  have "(t', d) \<in> set (concat (map (\<lambda>(t, ds). map (Pair t) ds) (batches len (map (\<lambda>d. (g d, d)) ds) [] t)))"
    using assms by auto
  then show ?thesis unfolding batches_all by auto
qed

text \<open>What the collector must know of the exporter's templates to receive a flow.\<close>

definition receivable :: "(bool \<Rightarrow> ipfix_resolved_field list) \<Rightarrow> ipfix_parser \<Rightarrow> nat \<Rightarrow> u32 \<Rightarrow> flow_data \<Rightarrow> bool" where
  "receivable known st now domain d \<longleftrightarrow> (let v6 = is_v6 (fd_source_ip d) in
     exportable v6 d \<and> knows_flows v6 (known v6) \<and>
     cache_get (ip_templates st) now (domain, template_id_for v6) = Some (known v6))"

lemma flow_data_template: "flow_data_template_id d = template_id_for (is_v6 (fd_source_ip d))"
  by (simp add: flow_data_template_id_def template_id_for_def is_v6_def split: ip_addr.split)

lemma template_id_inj: "template_id_for v = template_id_for w \<longleftrightarrow> v = w"
  by (auto simp: template_id_for_def FLOW_IPV4_TEMPLATE_ID_def FLOW_IPV6_TEMPLATE_ID_def split: if_splits)

lemma batch_received:
  assumes "ipfix_nom_spec N C" and "bufmut_spec (env_bufmut V)" and "env_chrono V = C" and "lib_chrono L = C"
    and "\<And>bs w. fst (env_send_to V bs w) = w @ [bs]" and "\<And>w. time_ok (env_utc_now V w)"
    and "ds \<noteq> []" and "sum_list (map (\<lambda>d. encoded_len V (flow_data_to_record d)) ds) \<le> MAX_SET_BODY"
    and "\<forall>d\<in>set ds. flow_data_template_id d = t \<and> receivable known st now (ar_observation_domain_id (xp_args self)) d"
  shows "\<exists>m p. xp_world (fst (send_data V t (map RData (map flow_data_to_record ds)) self)) = xp_world self @ [m] \<and>
    xp_args (fst (send_data V t (map RData (map flow_data_to_record ds)) self)) = xp_args self \<and>
    ipfix_parse N C now st m = (st, Some ([], p)) \<and>
    map flow_summary (ipfix_flows L np src p ns) = map data_summary ds"
proof -
  let ?v6 = "is_v6 (fd_source_ip (hd ds))"
  let ?p = "data_packet V self []"
  let ?set = "\<lparr>set_id = t, set_length = 0, set_records = map (\<lambda>d. RData (flow_data_to_record d)) ds\<rparr>"
  let ?m = "encode_packet (env_bufmut V) C (?p\<lparr>ip_sets := [?set]\<rparr>) []"
  have t: "t = template_id_for ?v6"
    using assms(7,9) by (metis flow_data_template list.set_sel(1))
  have family: "is_v6 (fd_source_ip d) = ?v6 \<and> receivable known st now (ar_observation_domain_id (xp_args self)) d"
    if "d \<in> set ds" for d
    using assms(9) that unfolding flow_data_template t template_id_inj by blast
  have rec: "exportable ?v6 d \<and> knows_flows ?v6 (known ?v6) \<and>
      cache_get (ip_templates st) now (ar_observation_domain_id (xp_args self), template_id_for ?v6) = Some (known ?v6)"
    if "d \<in> set ds" for d
    using conjunct2 [OF family [OF that]] conjunct1 [OF family [OF that]] by (simp add: receivable_def Let_def)
  have each: "\<forall>d\<in>set ds. exportable ?v6 d" "knows_flows ?v6 (known ?v6)"
    "cache_get (ip_templates st) now (ih_domain (ip_header ?p), template_id_for ?v6) = Some (known ?v6)"
    using rec rec [OF list.set_sel(1) [OF assms(7)]] by (simp_all add: data_packet_def)
  have C: "chrono_spec (lib_chrono L)" using assms(1,4) by (simp add: ipfix_nom_spec_def wire_spec_def)
  let ?n = "sum_list (map (\<lambda>d. length (encode_data_record (env_bufmut V) C (flow_data_to_record d) [])) ds)"
  have "ipfix_parse N C now st ?m = (st, Some ([], received_packet ?p (known ?v6) t ds ?n))"
    unfolding t
    by (rule message_received [OF assms(1,2) each(2,3) assms(7) each(1)])
      (use assms(3,6,8) in \<open>simp_all add: data_packet_def encoded_len_def\<close>)
  moreover have "map flow_summary (ipfix_flows L np src (received_packet ?p (known ?v6) t ds ?n) ns) = map data_summary ds"
    by (rule received_packet_flows [OF C each(2,1)])
  moreover have "xp_world (fst (send_data V t (map RData (map flow_data_to_record ds)) self)) = xp_world self @ [?m]"
    "xp_args (fst (send_data V t (map RData (map flow_data_to_record ds)) self)) = xp_args self"
    using assms(5) [of ?m "xp_world self"]
    by (auto simp: send_data_eq data_packet_def assms(3) comp_def split: prod.split)
  ultimately show ?thesis by blast
qed

lemma batches_received:
  assumes "ipfix_nom_spec N C" and "bufmut_spec (env_bufmut V)" and "env_chrono V = C" and "lib_chrono L = C"
    and "\<And>bs w. fst (env_send_to V bs w) = w @ [bs]" and "\<And>w. time_ok (env_utc_now V w)"
    and "\<forall>(t, ds)\<in>set bs. ds \<noteq> [] \<and> sum_list (map (\<lambda>d. encoded_len V (flow_data_to_record d)) ds) \<le> MAX_SET_BODY \<and>
      (\<forall>d\<in>set ds. flow_data_template_id d = t \<and> receivable known st now (ar_observation_domain_id (xp_args self)) d)"
  shows "\<exists>msgs ps. xp_world (fst (send_batches V (map (\<lambda>(t, ds). (t, map flow_data_to_record ds)) bs) result self)) =
      xp_world self @ msgs \<and>
    list_all2 (\<lambda>m p. ipfix_parse N C now st m = (st, Some ([], p))) msgs ps \<and>
    map flow_summary (concat (map (\<lambda>p. ipfix_flows L np src p ns) ps)) = map data_summary (concat (map snd bs))"
  using assms(7)
proof (induction bs arbitrary: result self)
  case (Cons b bs)
  obtain t ds where b: "b = (t, ds)" by force
  obtain m p where one: "xp_world (fst (send_data V t (map RData (map flow_data_to_record ds)) self)) = xp_world self @ [m]"
    "xp_args (fst (send_data V t (map RData (map flow_data_to_record ds)) self)) = xp_args self"
    "ipfix_parse N C now st m = (st, Some ([], p))" "map flow_summary (ipfix_flows L np src p ns) = map data_summary ds"
    using batch_received [OF assms(1-6), of ds t known st now self np src ns] Cons.prems b by auto
  obtain self' ok where d: "send_data V t (map RData (map flow_data_to_record ds)) self = (self', ok)" by force
  have "xp_args self' = xp_args self" using one(2) d by simp
  then obtain msgs ps where "xp_world (fst (send_batches V (map (\<lambda>(t, ds). (t, map flow_data_to_record ds)) bs) (result \<and> ok) self')) =
      xp_world self' @ msgs"
    "list_all2 (\<lambda>m p. ipfix_parse N C now st m = (st, Some ([], p))) msgs ps"
    "map flow_summary (concat (map (\<lambda>p. ipfix_flows L np src p ns) ps)) = map data_summary (concat (map snd bs))"
    using Cons.IH [of self' "result \<and> ok"] Cons.prems by auto
  then show ?case
    using one d by (intro exI [of _ "m # msgs"] exI [of _ "p # ps"]) (simp add: b)
qed simp

section \<open>Properties\<close>

text \<open>C18. What is metered is what is collected, once the collector knows the exporter's flow templates and as long as the times are within
  the 32 bits of seconds IPFIX has: any flows, handed to the exporter, leave it in messages each of
  which the collector's parser decodes completely, and the
  processor converts their records to exactly these flows, first all those of IPv4 in their order and then all those of
  IPv6 in theirs, with their addresses, ports, protocol, counters and flags, and with their times cut to milliseconds.\<close>

theorem exported_flows_collected:
  assumes "ipfix_nom_spec N C" and "bufmut_spec (env_bufmut V)" and "env_chrono V = C" and "lib_chrono L = C"
    and "\<And>bs w. fst (env_send_to V bs w) = w @ [bs]" and "\<And>w. time_ok (env_utc_now V w)"
    and "\<forall>flow\<in>set flows. receivable known st now (ar_observation_domain_id (xp_args self)) (to_flow_data flow)"
  shows "\<exists>msgs ps. xp_world (fst (exporter_send V (RecordsFlows flows) self)) = xp_world self @ msgs \<and>
    list_all2 (\<lambda>m p. ipfix_parse N C now st m = (st, Some ([], p))) msgs ps \<and>
    map flow_summary (concat (map (\<lambda>p. ipfix_flows L np src p ns) ps)) =
      map (\<lambda>flow. data_summary (to_flow_data flow))
        (filter (\<lambda>flow. \<not> is_v6 (fk_source_ip (fw_key flow))) flows @ filter (\<lambda>flow. is_v6 (fk_source_ip (fw_key flow))) flows)"
proof (cases "flows = []")
  case True
  then show ?thesis by (simp add: exporter_send_def send_flows_def)
next
  case False
  define ds where "ds = map to_flow_data
    (filter (\<lambda>flow. \<not> is_v6 (fk_source_ip (fw_key flow))) flows @ filter (\<lambda>flow. is_v6 (fk_source_ip (fw_key flow))) flows)"
  have v6: "(case fd_source_ip (to_flow_data flow) of V4 _ \<Rightarrow> True | V6 _ \<Rightarrow> False) = (\<not> is_v6 (fk_source_ip (fw_key flow)))" for flow
    by (simp add: is_v6_def to_flow_data_def split: ip_addr.split)
  let ?len = "\<lambda>d. encoded_len V (flow_data_to_record d)"
  let ?bs = "batches ?len (map (\<lambda>d. (flow_data_template_id d, d)) ds) [] 0"
  have send: "exporter_send V (RecordsFlows flows) self =
      send_batches V (map (\<lambda>(t, ds). (t, map flow_data_to_record ds)) ?bs) True self"
    using send_records_loop_batches [of V "map (\<lambda>d. (flow_data_template_id d, flow_data_to_record d)) ds" "[]" 0 True self]
      batches_map [of "encoded_len V" flow_data_template_id flow_data_to_record ds "[]" 0] False
    by (simp add: exporter_send_def send_flows_def send_records_def ds_def filter_map comp_def v6)
  have small: "?len d \<le> MAX_SET_BODY" for d
    using flow_record_len [OF assms(2), of "env_chrono V" d]
    by (simp add: encoded_len_def address_len_def MAX_SET_BODY_def MAX_MESSAGE_SIZE_def IPFIX_HEADER_SIZE_def
        SET_HEADER_SIZE_def split: ip_addr.split)
  have "\<forall>b\<in>set ?bs. batch_ok ?len b"
    using batches_ok [of "[]" ?len 0 "map (\<lambda>d. (flow_data_template_id d, d)) ds"] by (simp add: list_all_iff)
  moreover have "sum_list (map ?len (snd b)) \<le> MAX_SET_BODY" if "batch_ok ?len b" for b
    using that small by (auto simp: batch_ok_def length_Suc_conv)
  moreover have "\<forall>d\<in>set ds. receivable known st now (ar_observation_domain_id (xp_args self)) d"
    using assms(7) by (auto simp: ds_def)
  ultimately have "\<forall>(t, ds')\<in>set ?bs. ds' \<noteq> [] \<and> sum_list (map ?len ds') \<le> MAX_SET_BODY \<and>
      (\<forall>d\<in>set ds'. flow_data_template_id d = t \<and> receivable known st now (ar_observation_domain_id (xp_args self)) d)"
    using batches_single [of _ _ ?len flow_data_template_id ds 0] by (fastforce simp: batch_ok_def)
  from batches_received [OF assms(1-6) this, of True np src ns]
  obtain msgs ps where r: "xp_world (fst (exporter_send V (RecordsFlows flows) self)) = xp_world self @ msgs"
    "list_all2 (\<lambda>m p. ipfix_parse N C now st m = (st, Some ([], p))) msgs ps"
    "map flow_summary (concat (map (\<lambda>p. ipfix_flows L np src p ns) ps)) = map data_summary (concat (map snd ?bs))"
    unfolding send by blast
  have "concat (map snd ?bs) = map snd (concat (map (\<lambda>(t, ds). map (Pair t) ds) ?bs))"
    by (simp add: map_concat comp_def case_prod_beta)
  also have "\<dots> = ds"
    unfolding batches_all by (simp add: comp_def)
  finally show ?thesis
    using r by (intro exI [of _ msgs] exI [of _ ps]) (simp add: ds_def)
qed

definition example_known :: "ipfix_resolved_field list" where
  "example_known = map (\<lambda>(spec, dt). \<lparr>rf_spec = spec, rf_data_type = dt, rf_name = []\<rparr>)
     (zip (flow_specs False) (flow_types False))"

definition example_flow :: flow where
  "example_flow = flow_update 140 0 \<lparr>sn_time = DateTime 90 5000000, sn_instant = 9\<rparr>
     (flow_new (example_key 1) \<lparr>sn_time = DateTime 80 7, sn_instant = 0\<rparr>)"

theorem exported_flows_collected_witness:
  "\<exists>ps. map flow_summary (concat (map (\<lambda>p. ipfix_flows libs_ref (netflow_new 0) first_exporter p None) ps)) =
    [data_summary (to_flow_data example_flow)]"
proof -
  let ?self = "exporter_new example_env (example_args ModeFlow) []"
  have known: "knows_flows False example_known"
    by (simp add: knows_flows_def example_known_def flow_specs_eq flow_types_def flow_specs_def [symmetric])
  have "cache_get (ip_templates (ipfix_with example_known)) 5 (1, 256) = Some example_known"
    by (rule ipfix_with_get) (simp add: example_known_def flow_specs_eq flow_types_def MAX_TEMPLATE_FIELDS_def)
  then have "receivable (\<lambda>_. example_known) (ipfix_with example_known) 5 (ar_observation_domain_id (xp_args ?self))
      (to_flow_data example_flow)"
    using known by (simp add: receivable_def exportable_def is_v6_def to_flow_data_def example_flow_def flow_update_def
        flow_new_def example_key_def time_ok_def dt_ok_def template_id_for_def FLOW_IPV4_TEMPLATE_ID_def
        exporter_new_def example_args_def)
  moreover have "bufmut_spec (env_bufmut example_env)" "env_chrono example_env = chrono_ref" "lib_chrono libs_ref = chrono_ref"
    "\<And>bs w. fst (env_send_to example_env bs w) = w @ [bs]" "\<And>w. time_ok (env_utc_now example_env w)"
    using bufmut_ref.bufmut_spec_axioms by (simp_all add: example_env_def libs_ref_def time_ok_def dt_ok_def)
  ultimately obtain ps where "map flow_summary (concat (map (\<lambda>p. ipfix_flows libs_ref (netflow_new 0) first_exporter p None) ps)) =
      map (\<lambda>flow. data_summary (to_flow_data flow))
        (filter (\<lambda>flow. \<not> is_v6 (fk_source_ip (fw_key flow))) [example_flow] @
         filter (\<lambda>flow. is_v6 (fk_source_ip (fw_key flow))) [example_flow])"
    using exported_flows_collected [OF ipfix_ref.ipfix_nom_spec_axioms, of example_env libs_ref "[example_flow]"
        "\<lambda>_. example_known" "ipfix_with example_known" 5 ?self "netflow_new 0" first_exporter None]
    by (metis list.set_cases set_ConsD empty_iff list.set(1))
  moreover have "\<not> is_v6 (fk_source_ip (fw_key example_flow))"
    by (simp add: is_v6_def example_flow_def example_key_def)
  ultimately show ?thesis by (intro exI [of _ ps]) simp
qed

end
