(* ===== verification/Calendar.thy ===== *)
theory Calendar
  imports Chrono
begin

text \<open>
  The calendar of \<^verbatim>\<open>chrono\<close>, as a second parameter of the model: building a date from its parts,
  reading its parts, printing and parsing it. Its laws are those of the proleptic Gregorian calendar
  the documentation names, stated by the number of days a date is from the epoch, for years well inside the
  documented range. \<open>calendar_ref\<close> implements them.

  \<^verbatim>\<open>Utc.with_ymd_and_hms(..).single()\<close> is \<open>cal_ymd_hms\<close>, adding a \<^verbatim>\<open>Duration\<close> of whole seconds
  \<open>cal_add\<close>, and \<^verbatim>\<open>NaiveDateTime::parse_from_str(s, f).ok()\<close> with \<^verbatim>\<open>and_utc()\<close> is \<open>cal_parse f s\<close>.
\<close>

record calendar =
  cal_ymd_hms :: "int \<Rightarrow> nat \<Rightarrow> nat \<Rightarrow> nat \<Rightarrow> nat \<Rightarrow> nat \<Rightarrow> datetime option"
  cal_year :: "datetime \<Rightarrow> int"
  cal_month :: "datetime \<Rightarrow> nat"
  cal_minute :: "datetime \<Rightarrow> nat"
  cal_with_year :: "datetime \<Rightarrow> int \<Rightarrow> datetime option"
  cal_with_month :: "datetime \<Rightarrow> nat \<Rightarrow> datetime option"
  cal_add :: "datetime \<Rightarrow> int \<Rightarrow> datetime"
  cal_format :: "string \<Rightarrow> datetime \<Rightarrow> string"
  cal_parse :: "string \<Rightarrow> string \<Rightarrow> datetime option"

section \<open>Decimal numbers\<close>

definition digit :: "nat \<Rightarrow> char" where
  "digit n = char_of (48 + n mod 10)"

definition is_digit :: "char \<Rightarrow> bool" where
  "is_digit c \<longleftrightarrow> 48 \<le> (of_char c :: nat) \<and> (of_char c :: nat) \<le> 57"

definition digit_value :: "char \<Rightarrow> nat" where
  "digit_value c = of_char c - 48"

definition decimal :: "string \<Rightarrow> nat" where
  "decimal s = foldl (\<lambda>n c. 10 * n + digit_value c) 0 s"

text \<open>A number in exactly \<open>w\<close> digits, and in as many as it takes.\<close>

primrec digits :: "nat \<Rightarrow> nat \<Rightarrow> string" where
  "digits 0 n = []"
| "digits (Suc w) n = digits w (n div 10) @ [digit n]"

fun show_nat :: "nat \<Rightarrow> string" where
  "show_nat n = (if n < 10 then [digit n] else show_nat (n div 10) @ [digit n])"

declare show_nat.simps [simp del]

lemma of_char_digit [simp]: "(of_char (digit n) :: nat) = 48 + n mod 10"
  using mod_less_divisor [of 10 n] by (simp add: digit_def)

lemma digit_props [simp]: "is_digit (digit n)" "digit_value (digit n) = n mod 10"
  using mod_less_divisor [of 10 n] by (simp_all add: is_digit_def digit_value_def)

lemma decimal_simps [simp]: "decimal [] = 0" "decimal [c] = digit_value c" "decimal (s @ [c]) = 10 * decimal s + digit_value c"
  by (simp_all add: decimal_def)

lemma length_digits [simp]: "length (digits w n) = w"
  by (induction w arbitrary: n) simp_all

lemma all_digits [simp]: "list_all is_digit (digits w n)"
  by (induction w arbitrary: n) simp_all

lemma decimal_digits: "n < 10 ^ w \<Longrightarrow> decimal (digits w n) = n"
proof (induction w arbitrary: n)
  case (Suc w)
  then have "n div 10 < 10 ^ w" by (simp add: less_mult_imp_div_less mult.commute)
  then show ?case using Suc.IH by simp
qed simp

lemma show_nat_digits: "list_all is_digit (show_nat n) \<and> show_nat n \<noteq> [] \<and> decimal (show_nat n) = n"
proof (induction n rule: show_nat.induct)
  case (1 n)
  show ?case using 1 by (subst (1 2 3) show_nat.simps) simp
qed

section \<open>The Gregorian calendar\<close>

definition leap_year :: "int \<Rightarrow> bool" where
  "leap_year y \<longleftrightarrow> y mod 4 = 0 \<and> (y mod 100 \<noteq> 0 \<or> y mod 400 = 0)"

definition days_in_month :: "int \<Rightarrow> nat \<Rightarrow> nat" where
  "days_in_month y m =
     (if m = 2 then (if leap_year y then 29 else 28) else if m = 4 \<or> m = 6 \<or> m = 9 \<or> m = 11 then 30 else 31)"

definition valid_date :: "int \<Rightarrow> nat \<Rightarrow> nat \<Rightarrow> bool" where
  "valid_date y m d \<longleftrightarrow> 1 \<le> m \<and> m \<le> 12 \<and> 1 \<le> d \<and> d \<le> days_in_month y m"

text \<open>Days from the epoch to the first of January, to the first of a month, and to a day.\<close>

definition year_start :: "int \<Rightarrow> int" where
  "year_start y = 365 * (y - 1) + (y - 1) div 4 - (y - 1) div 100 + (y - 1) div 400 - 719162"

definition month_start :: "int \<Rightarrow> nat \<Rightarrow> int" where
  "month_start y m = year_start y + (\<Sum>k = 1..<m. int (days_in_month y k))"

definition gregorian_days :: "int \<Rightarrow> nat \<Rightarrow> nat \<Rightarrow> int" where
  "gregorian_days y m d = month_start y m + int d - 1"

lemma year_start_Suc: "year_start (y + 1) = year_start y + (if leap_year y then 366 else 365)"
proof -
  have step: "y div k = (y - 1) div k + (if y mod k = 0 then 1 else 0)" if k: "0 < k" for k :: int
  proof (cases "y mod k = 0")
    case True
    then have "y - 1 = k * (y div k - 1) + (k - 1)"
      using mult_div_mod_eq [of k y] by (simp add: algebra_simps)
    then have "(y - 1) div k = y div k - 1"
      by (rule int_div_pos_eq) (use k in simp_all)
    then show ?thesis using True by simp
  next
    case False
    have "y - 1 = k * (y div k) + (y mod k - 1)" by (simp add: algebra_simps)
    then have "(y - 1) div k = y div k"
      by (rule int_div_pos_eq) (use k False pos_mod_sign [OF k, of y] pos_mod_bound [OF k, of y] in linarith)+
    then show ?thesis using False by simp
  qed
  have multiples: "y mod 100 = 0 \<longrightarrow> y mod 4 = 0" "y mod 400 = 0 \<longrightarrow> y mod 100 = 0"
    using dvd_trans [of 4 100 y] dvd_trans [of 100 400 y] by (simp_all add: mod_eq_0_iff_dvd)
  have "(if p \<and> (\<not> q \<or> r) then 366 else 365) =
      (365 :: int) + (if p then 1 else 0) - (if q then 1 else 0) + (if r then 1 else 0)"
    if "q \<longrightarrow> p" "r \<longrightarrow> q" for p q r using that by (cases p; cases q; cases r; simp)
  from this [OF multiples] have leap: "(if leap_year y then 366 else 365) =
      (365 :: int) + (if y mod 4 = 0 then 1 else 0) - (if y mod 100 = 0 then 1 else 0) + (if y mod 400 = 0 then 1 else 0)"
    unfolding leap_year_def .
  have algebra: "365 * y + u - v + w - e = 365 * (y - 1) + u' - v' + w' - e + l"
    if "l = 365 + a - b + c" "u = u' + a" "v = v' + b" "w = w' + c" for u v w u' v' w' a b c e l :: int
    using that by simp
  show ?thesis
    unfolding year_start_def add_diff_cancel_right'
    by (rule algebra [OF leap step step step]) simp_all
qed

lemma year_start_mono: "y \<le> z \<Longrightarrow> year_start y \<le> year_start z"
proof (induction z rule: int_ge_induct)
  case (step z)
  then show ?case by (simp add: year_start_Suc)
qed simp

lemma month_start_Suc: "1 \<le> m \<Longrightarrow> month_start y (Suc m) = month_start y m + int (days_in_month y m)"
  by (simp add: month_start_def)

lemma month_start_1 [simp]: "month_start y (Suc 0) = year_start y"
  by (simp add: month_start_def)

lemma month_start_mono: "m \<le> n \<Longrightarrow> month_start y m \<le> month_start y n"
  unfolding month_start_def by (intro add_left_mono sum_mono2) auto

lemma month_start_13: "month_start y 13 = year_start (y + 1)"
  by (simp add: month_start_def year_start_Suc days_in_month_def numeral_eq_Suc)

lemma gregorian_days_bounds:
  assumes "valid_date y m d"
  shows "month_start y m \<le> gregorian_days y m d" and "gregorian_days y m d < month_start y (Suc m)"
    and "year_start y \<le> gregorian_days y m d" and "gregorian_days y m d < year_start (y + 1)"
proof -
  show bounds: "month_start y m \<le> gregorian_days y m d" "gregorian_days y m d < month_start y (Suc m)"
    using assms by (auto simp: gregorian_days_def valid_date_def month_start_Suc)
  show "year_start y \<le> gregorian_days y m d" "gregorian_days y m d < year_start (y + 1)"
    using bounds assms month_start_mono [of 1 m y] month_start_mono [of "Suc m" 13 y]
    by (simp_all add: valid_date_def month_start_13)
qed

text \<open>Days in order are dates in order, so that a day has one date.\<close>

lemma gregorian_days_inj:
  assumes "valid_date y m d" and "valid_date y' m' d'" and "gregorian_days y m d = gregorian_days y' m' d'"
  shows "y = y' \<and> m = m' \<and> d = d'"
proof -
  note b = gregorian_days_bounds [OF assms(1)] gregorian_days_bounds [OF assms(2)]
  have "y = y'"
    using b(3,4,7,8) assms(3) year_start_mono [of "y + 1" y'] year_start_mono [of "y' + 1" y]
    by (cases y y' rule: linorder_cases) auto
  moreover from this have "m = m'"
    using b(1,2,5,6) assms(3) month_start_mono [of "Suc m" m' y] month_start_mono [of "Suc m'" m y]
    by (cases m m' rule: linorder_cases) auto
  ultimately show ?thesis using assms(3) by (simp add: gregorian_days_def)
qed

text \<open>The date of a day.\<close>

definition year_of_day :: "int \<Rightarrow> int" where
  "year_of_day n =
     (let y = 400 * (n + 719162) div 146097 + 1
      in if n < year_start y then y - 1 else if year_start (y + 1) \<le> n then y + 1 else y)"

function month_of_day :: "int \<Rightarrow> nat \<Rightarrow> nat \<Rightarrow> nat \<times> nat" where
  "month_of_day y m r =
     (if m < 12 \<and> days_in_month y m \<le> r then month_of_day y (Suc m) (r - days_in_month y m) else (m, Suc r))"
  by pat_completeness auto

termination month_of_day
  by (relation "measure (\<lambda>(y, m, r). 12 - m)") auto

declare month_of_day.simps [simp del]

definition date_of_day :: "int \<Rightarrow> int \<times> nat \<times> nat" where
  "date_of_day n = (let y = year_of_day n in (y, month_of_day y 1 (nat (n - year_start y))))"

lemma year_of_day: "year_start (year_of_day n) \<le> n" "n < year_start (year_of_day n + 1)"
proof -
  define y where "y = 400 * (n + 719162) div 146097 + 1"
  have bounds: "146097 * (z - 1) - 800 \<le> 400 * (year_start z + 719162)"
    "400 * (year_start z + 719162) \<le> 146097 * (z - 1) + 400" for z
  proof -
    have "(z - 1) div k * k \<le> z - 1" "z - 1 < (z - 1) div k * k + k" if "0 < k" for k :: int
      using that div_mult_mod_eq [of "z - 1" k] pos_mod_sign [OF that, of "z - 1"] pos_mod_bound [OF that, of "z - 1"]
      by linarith+
    from this [of 4] this [of 100] this [of 400]
    show "146097 * (z - 1) - 800 \<le> 400 * (year_start z + 719162)"
      "400 * (year_start z + 719162) \<le> 146097 * (z - 1) + 400"
      unfolding year_start_def by simp_all
  qed
  have "146097 * (y - 1) \<le> 400 * (n + 719162)" "400 * (n + 719162) < 146097 * (y - 1) + 146097"
    unfolding y_def using div_mult_mod_eq [of "400 * (n + 719162)" 146097] by simp_all
  then have "year_start (y - 1) \<le> n" "n < year_start (y + 1 + 1)"
    using bounds [of "y - 1"] bounds [of "y + 1 + 1"] by simp_all
  moreover have "year_of_day n = (if n < year_start y then y - 1 else if year_start (y + 1) \<le> n then y + 1 else y)"
    unfolding year_of_day_def Let_def y_def ..
  ultimately show "year_start (year_of_day n) \<le> n" "n < year_start (year_of_day n + 1)"
    by simp_all
qed

lemma month_of_day:
  assumes "1 \<le> m" and "m \<le> 12" and "month_start y m + int r < year_start (y + 1)"
  shows "case month_of_day y m r of (m', d) \<Rightarrow> valid_date y m' d \<and> gregorian_days y m' d = month_start y m + int r"
  using assms
proof (induction y m r rule: month_of_day.induct)
  case (1 y m r)
  show ?case
  proof (cases "m < 12 \<and> days_in_month y m \<le> r")
    case True
    then show ?thesis
      using 1 by (subst month_of_day.simps) (simp add: month_start_Suc of_nat_diff algebra_simps)
  next
    case False
    then have "r < days_in_month y m"
      using 1(2-4) month_start_13 [of y] month_start_Suc [of 12 y] by (cases "m = 12") auto
    then show ?thesis
      using False 1(2,3) by (subst month_of_day.simps) (simp add: valid_date_def gregorian_days_def)
  qed
qed

lemma date_of_day:
  assumes "date_of_day n = (y, m, d)"
  shows "valid_date y m d" and "gregorian_days y m d = n"
  using assms month_of_day [of 1 "year_of_day n" "nat (n - year_start (year_of_day n))"] year_of_day [of n]
  by (auto simp: date_of_day_def Let_def)

lemma date_of_gregorian_days:
  assumes "valid_date y m d"
  shows "date_of_day (gregorian_days y m d) = (y, m, d)"
  using gregorian_days_inj [OF _ assms] date_of_day by (metis prod_cases3)

section \<open>What the library promises\<close>

definition dt_date :: "datetime \<Rightarrow> int \<times> nat \<times> nat" where
  "dt_date t = date_of_day (dt_secs t div 86400)"

definition dt_year :: "datetime \<Rightarrow> int" where
  "dt_year t = fst (dt_date t)"

definition dt_month :: "datetime \<Rightarrow> nat" where
  "dt_month t = fst (snd (dt_date t))"

definition dt_day :: "datetime \<Rightarrow> nat" where
  "dt_day t = snd (snd (dt_date t))"

definition dt_hour :: "datetime \<Rightarrow> nat" where
  "dt_hour t = nat (dt_secs t mod 86400 div 3600)"

definition dt_minute :: "datetime \<Rightarrow> nat" where
  "dt_minute t = nat (dt_secs t mod 3600 div 60)"

definition dt_second :: "datetime \<Rightarrow> nat" where
  "dt_second t = nat (dt_secs t mod 60)"

definition dt_at :: "int \<Rightarrow> nat \<Rightarrow> nat \<Rightarrow> int \<Rightarrow> int" where
  "dt_at y m d s = gregorian_days y m d * 86400 + s"

text \<open>The conversion specifiers the source uses, for years of four digits.\<close>

definition strftime_item :: "char \<Rightarrow> datetime \<Rightarrow> string" where
  "strftime_item c t =
     (if c = CHR ''Y'' then digits 4 (nat (dt_year t)) else if c = CHR ''m'' then digits 2 (dt_month t)
      else if c = CHR ''d'' then digits 2 (dt_day t) else if c = CHR ''H'' then digits 2 (dt_hour t)
      else if c = CHR ''M'' then digits 2 (dt_minute t) else digits 2 (dt_second t))"

fun strftime :: "string \<Rightarrow> datetime \<Rightarrow> string" where
  "strftime [] t = []"
| "strftime [c] t = [c]"
| "strftime (c # x # cs) t =
     (if c = CHR ''%'' then strftime_item x t @ strftime cs t else c # strftime (x # cs) t)"

fun known_format :: "string \<Rightarrow> bool" where
  "known_format [] \<longleftrightarrow> True"
| "known_format [c] \<longleftrightarrow> c \<noteq> CHR ''%''"
| "known_format (c # x # cs) \<longleftrightarrow>
     (if c = CHR ''%'' then x \<in> set ''YmdHMS'' \<and> known_format cs else known_format (x # cs))"

definition year_in_range :: "int \<Rightarrow> bool" where
  "year_in_range y \<longleftrightarrow> -200000 \<le> y \<and> y \<le> 200000"

definition four_digit_year :: "datetime \<Rightarrow> bool" where
  "four_digit_year t \<longleftrightarrow> 0 \<le> dt_year t \<and> dt_year t \<le> 9999"

locale calendar_spec =
  fixes K :: calendar
  assumes ymd_hms_spec: "year_in_range y \<Longrightarrow> cal_ymd_hms K y m d h mi s =
      (if valid_date y m d \<and> h < 24 \<and> mi < 60 \<and> s < 60
       then Some (DateTime (dt_at y m d (int h * 3600 + int mi * 60 + int s)) 0) else None)"
    and year_spec: "cal_year K t = dt_year t"
    and month_spec: "cal_month K t = dt_month t"
    and minute_spec: "cal_minute K t = dt_minute t"
    and with_year_spec: "year_in_range y \<Longrightarrow> cal_with_year K t y =
      (if valid_date y (dt_month t) (dt_day t)
       then Some (DateTime (dt_at y (dt_month t) (dt_day t) (dt_secs t mod 86400)) (dt_nanos t)) else None)"
    and with_month_spec: "cal_with_month K t m =
      (if valid_date (dt_year t) m (dt_day t)
       then Some (DateTime (dt_at (dt_year t) m (dt_day t) (dt_secs t mod 86400)) (dt_nanos t)) else None)"
    and add_spec: "year_in_range (dt_year t) \<Longrightarrow> \<bar>n\<bar> \<le> 86400 \<Longrightarrow> cal_add K t n = DateTime (dt_secs t + n) (dt_nanos t)"
    and format_spec: "four_digit_year t \<Longrightarrow> known_format f \<Longrightarrow> cal_format K f t = strftime f t"
    and parse_spec: "four_digit_year t \<Longrightarrow> dt_nanos t = 0 \<Longrightarrow>
      cal_parse K ''%Y%m%dT%H%M%SZ'' (strftime ''%Y%m%dT%H%M%SZ'' t) = Some t"

section \<open>An implementation\<close>

text \<open>The parser reads the one format the source parses.\<close>

definition parse_stamp :: "string \<Rightarrow> datetime option" where
  "parse_stamp s =
     (let y = int (decimal (take 4 s)); m = decimal (take 2 (drop 4 s)); d = decimal (take 2 (drop 6 s));
          h = decimal (take 2 (drop 9 s)); mi = decimal (take 2 (drop 11 s)); sec = decimal (take 2 (drop 13 s))
      in if length s = 16 \<and> list_all is_digit (take 8 s @ take 6 (drop 9 s)) \<and> s ! 8 = CHR ''T'' \<and> s ! 15 = CHR ''Z'' \<and>
            valid_date y m d \<and> h < 24 \<and> mi < 60 \<and> sec < 60
         then Some (DateTime (dt_at y m d (int h * 3600 + int mi * 60 + int sec)) 0) else None)"

definition with_date :: "datetime \<Rightarrow> int \<Rightarrow> nat \<Rightarrow> datetime option" where
  "with_date t y m =
     (if valid_date y m (dt_day t) then Some (DateTime (dt_at y m (dt_day t) (dt_secs t mod 86400)) (dt_nanos t)) else None)"

definition calendar_ref :: calendar where
  "calendar_ref =
     \<lparr>cal_ymd_hms = (\<lambda>y m d h mi s. if valid_date y m d \<and> h < 24 \<and> mi < 60 \<and> s < 60
        then Some (DateTime (dt_at y m d (int h * 3600 + int mi * 60 + int s)) 0) else None),
      cal_year = dt_year, cal_month = dt_month, cal_minute = dt_minute,
      cal_with_year = (\<lambda>t y. with_date t y (dt_month t)), cal_with_month = (\<lambda>t m. with_date t (dt_year t) m),
      cal_add = (\<lambda>t s. DateTime (dt_secs t + s) (dt_nanos t)), cal_format = strftime,
      cal_parse = (\<lambda>f s. if f = ''%Y%m%dT%H%M%SZ'' then parse_stamp s else None)\<rparr>"

lemma dt_date_valid: "valid_date (dt_year t) (dt_month t) (dt_day t)"
  "gregorian_days (dt_year t) (dt_month t) (dt_day t) = dt_secs t div 86400"
  using date_of_day [of "dt_secs t div 86400" "dt_year t" "dt_month t" "dt_day t"]
  by (simp_all add: dt_year_def dt_month_def dt_day_def dt_date_def)

lemma dt_parts_bounds: "1 \<le> dt_month t" "dt_month t \<le> 12" "1 \<le> dt_day t" "dt_day t \<le> 31"
  "dt_hour t < 24" "dt_minute t < 60" "dt_second t < 60"
proof -
  show "1 \<le> dt_month t" "dt_month t \<le> 12" "1 \<le> dt_day t" "dt_day t \<le> 31"
    using dt_date_valid(1) [of t] by (auto simp: valid_date_def days_in_month_def split: if_splits)
  show "dt_hour t < 24" "dt_minute t < 60" "dt_second t < 60"
    using pos_mod_bound [of 86400 "dt_secs t"] pos_mod_bound [of 3600 "dt_secs t"] pos_mod_bound [of 60 "dt_secs t"]
    unfolding dt_hour_def dt_minute_def dt_second_def by linarith+
qed

lemma dt_part_ints:
  "int (dt_hour t) = dt_secs t mod 86400 div 3600" "int (dt_minute t) = dt_secs t mod 3600 div 60"
  "int (dt_second t) = dt_secs t mod 60"
  by (simp_all add: dt_hour_def dt_minute_def dt_second_def pos_imp_zdiv_nonneg_iff)

text \<open>A time is the sum of its parts.\<close>

lemma dt_secs_parts:
  "dt_secs t = dt_at (dt_year t) (dt_month t) (dt_day t)
    (int (dt_hour t) * 3600 + int (dt_minute t) * 60 + int (dt_second t))"
proof -
  have hours: "dt_secs t mod 86400 div 3600 * 3600 + dt_secs t mod 3600 = dt_secs t mod 86400"
    using div_mult_mod_eq [of "dt_secs t mod 86400" 3600] by (simp add: mod_mod_cancel)
  have minutes: "dt_secs t mod 3600 div 60 * 60 + dt_secs t mod 60 = dt_secs t mod 3600"
    using div_mult_mod_eq [of "dt_secs t mod 3600" 60] by (simp add: mod_mod_cancel)
  have "a = q * 86400 + (u * 3600 + v * 60 + w)"
    if "u * 3600 + r = s" "v * 60 + w = r" "q * 86400 + s = a" for a q r s u v w :: int
    using that by simp
  from this [OF hours minutes div_mult_mod_eq] show ?thesis
    unfolding dt_at_def dt_date_valid(2) dt_part_ints .
qed

lemma dt_at_parts:
  assumes "valid_date y m d" and "0 \<le> s" and "s < 86400"
  shows "dt_year (DateTime (dt_at y m d s) n) = y" and "dt_month (DateTime (dt_at y m d s) n) = m"
    and "dt_day (DateTime (dt_at y m d s) n) = d" and "dt_at y m d s mod 86400 = s"
proof -
  have "dt_at y m d s div 86400 = gregorian_days y m d"
    using assms(2,3) by (simp add: dt_at_def)
  then have "dt_date (DateTime (dt_at y m d s) n) = (y, m, d)"
    by (simp add: dt_date_def date_of_gregorian_days [OF assms(1)])
  then show "dt_year (DateTime (dt_at y m d s) n) = y" "dt_month (DateTime (dt_at y m d s) n) = m"
    "dt_day (DateTime (dt_at y m d s) n) = d"
    by (simp_all add: dt_year_def dt_month_def dt_day_def)
  show "dt_at y m d s mod 86400 = s"
    using assms(2,3) by (simp add: dt_at_def)
qed

lemma strftime_stamp:
  "strftime ''%Y%m%dT%H%M%SZ'' t = digits 4 (nat (dt_year t)) @ digits 2 (dt_month t) @ digits 2 (dt_day t) @ ''T'' @
    digits 2 (dt_hour t) @ digits 2 (dt_minute t) @ digits 2 (dt_second t) @ ''Z''"
  by (simp add: strftime_item_def)

interpretation calendar_ref: calendar_spec calendar_ref
proof unfold_locales
  fix t
  assume t: "four_digit_year t" "dt_nanos t = 0"
  then have "nat (dt_year t) < 10 ^ 4" by (auto simp: four_digit_year_def nat_less_iff)
  then have "parse_stamp (strftime ''%Y%m%dT%H%M%SZ'' t) = Some (DateTime (dt_secs t) 0)"
    unfolding strftime_stamp dt_secs_parts [of t] parse_stamp_def Let_def
    using t(1) dt_parts_bounds [of t] dt_date_valid(1) [of t]
    by (simp add: decimal_digits nth_append four_digit_year_def)
  then show "cal_parse calendar_ref ''%Y%m%dT%H%M%SZ'' (strftime ''%Y%m%dT%H%M%SZ'' t) = Some t"
    using t(2) by (cases t) (simp add: calendar_ref_def)
qed (simp_all add: calendar_ref_def with_date_def)

text \<open>Both parameters of \<^verbatim>\<open>chrono\<close> together.\<close>

locale dates_spec = chrono_spec C + calendar_spec K
  for C :: chrono and K :: calendar

interpretation dates_ref: dates_spec chrono_ref calendar_ref
  by unfold_locales

end
