(* ===== verification/Layout.thy ===== *)
theory Layout
  imports Calendar "HOL-Library.Sublist"
begin

text \<open>
  The layout of a rotated output tree (\<^verbatim>\<open>rustflow_collect/src/sink/layout.rs\<close>): where the file of a
  window goes, which files are the collector's own, and which of them fall in a time range.

  A \<^verbatim>\<open>str\<close> is its UTF-8 bytes. A \<^verbatim>\<open>Path\<close> is the list of its components, the root directory being
  the component \<open>''/''\<close>; file names are valid UTF-8, so that \<^verbatim>\<open>to_string_lossy\<close> leaves them as they
  are. Reading directories is a parameter: \<open>read_dir d\<close> is what \<^verbatim>\<open>fs::read_dir\<close> answers for \<open>d\<close>,
  with \<open>None\<close> for an entry that cannot be read, and no kind where \<^verbatim>\<open>file_type\<close> fails.

  Shown: the names of the files of a window, final, numbered or temporary, carry that window; the
  directories above them are partitions whose periods hold it; and listing a range finds exactly
  the files of the tree that fall in it, although directories outside the range are not opened.
\<close>

section \<open>Strings and paths\<close>

definition str_strip_prefix :: "string \<Rightarrow> string \<Rightarrow> string option" where
  "str_strip_prefix p s = (if prefix p s then Some (drop (length p) s) else None)"

definition str_strip_suffix :: "string \<Rightarrow> string \<Rightarrow> string option" where
  "str_strip_suffix x s = (if suffix x s then Some (take (length s - length x) s) else None)"

definition split_once :: "char \<Rightarrow> string \<Rightarrow> (string \<times> string) option" where
  "split_once c s = (case dropWhile (\<lambda>x. x \<noteq> c) s of
     [] \<Rightarrow> None | _ # rest \<Rightarrow> Some (takeWhile (\<lambda>x. x \<noteq> c) s, rest))"

definition rsplit_once :: "char \<Rightarrow> string \<Rightarrow> (string \<times> string) option" where
  "rsplit_once c s = map_option (\<lambda>(a, b). (rev b, rev a)) (split_once c (rev s))"

definition is_char_boundary :: "nat \<Rightarrow> string \<Rightarrow> bool" where
  "is_char_boundary n s \<longleftrightarrow> n = 0 \<or> n = length s \<or>
     n < length s \<and> \<not> (128 \<le> (of_char (s ! n) :: nat) \<and> (of_char (s ! n) :: nat) < 192)"

definition split_at_checked :: "nat \<Rightarrow> string \<Rightarrow> (string \<times> string) option" where
  "split_at_checked n s = (if is_char_boundary n s then Some (take n s, drop n s) else None)"

text \<open>\<^verbatim>\<open>str::parse::<u32>()\<close> of a string of digits, and \<^verbatim>\<open>{:02}\<close>.\<close>

definition parse_u32 :: "string \<Rightarrow> nat option" where
  "parse_u32 s = (if decimal s < 2 ^ 32 then Some (decimal s) else None)"

definition format_02 :: "nat \<Rightarrow> string" where
  "format_02 n = (if n < 10 then ''0'' else []) @ show_nat n"

type_synonym path = "string list"

fun split_slash :: "string \<Rightarrow> string list" where
  "split_slash [] = [[]]"
| "split_slash (c # cs) =
     (if c = CHR ''/'' then [] # split_slash cs
      else case split_slash cs of w # ws \<Rightarrow> (c # w) # ws | [] \<Rightarrow> [[c]])"

definition path_push :: "path \<Rightarrow> string \<Rightarrow> path" where
  "path_push path s =
     (let parts = filter (\<lambda>c. c \<noteq> [] \<and> c \<noteq> ''.'') (split_slash s)
      in if prefix ''/'' s then ''/'' # parts else path @ parts)"

definition path_strip_prefix :: "path \<Rightarrow> path \<Rightarrow> path option" where
  "path_strip_prefix root path = (if prefix root path then Some (drop (length root) path) else None)"

section \<open>The layout\<close>

datatype partitioning = Plain | Hive

definition max_depth :: "partitioning \<Rightarrow> nat" where
  "max_depth p = (case p of Plain \<Rightarrow> 5 | Hive \<Rightarrow> 3)"

definition LEVEL_3_MINUTES :: nat where
  "LEVEL_3_MINUTES = 5"

definition STAMP_FORMAT :: string where
  "STAMP_FORMAT = ''%Y%m%dT%H%M%SZ''"

definition STAMP_LEN :: nat where
  "STAMP_LEN = 16"

record layout =
  ly_root :: path
  ly_prefix :: string
  ly_extension :: string
  ly_level :: nat
  ly_partitioning :: partitioning

datatype span = SpanYear | SpanMonth | SpanDay | SpanHour | SpanBucket

record tree_entry =
  te_path :: path
  te_window :: datetime
  te_temporary :: bool

record period =
  pe_start :: int
  pe_end :: int

datatype bound = Included int | Excluded int | Unbounded

type_synonym range = "bound \<times> bound"

definition range_contains :: "range \<Rightarrow> int \<Rightarrow> bool" where
  "range_contains rng t =
     ((case fst rng of Included start \<Rightarrow> start \<le> t | Excluded start \<Rightarrow> start < t | Unbounded \<Rightarrow> True) \<and>
      (case snd rng of Included end \<Rightarrow> t \<le> end | Excluded end \<Rightarrow> t < end | Unbounded \<Rightarrow> True))"

definition overlaps :: "period \<Rightarrow> range \<Rightarrow> bool" where
  "overlaps self rng =
     (let after_start = (case fst rng of
            Included start \<Rightarrow> pe_end self > start | Excluded start \<Rightarrow> pe_end self > start + 1 | Unbounded \<Rightarrow> True);
          before_end = (case snd rng of
            Included end \<Rightarrow> pe_start self \<le> end | Excluded end \<Rightarrow> pe_start self < end | Unbounded \<Rightarrow> True)
      in after_start \<and> before_end)"

definition path_for :: "calendar \<Rightarrow> layout \<Rightarrow> datetime \<Rightarrow> path" where
  "path_for K self stamp =
     (let path = ly_root self;
          bucket = cal_minute K stamp div LEVEL_3_MINUTES * LEVEL_3_MINUTES;
          path = (case ly_partitioning self of
              Plain \<Rightarrow>
                let path = (if ly_level self \<ge> 1 then
                        path_push (path_push (path_push path (cal_format K ''%Y'' stamp)) (cal_format K ''%m'' stamp))
                          (cal_format K ''%d'' stamp)
                      else path);
                    path = (if ly_level self \<ge> 2 then path_push path (cal_format K ''%H'' stamp) else path)
                in if ly_level self \<ge> 3 then path_push path (format_02 bucket) else path
            | Hive \<Rightarrow>
                let path = (if ly_level self \<ge> 1 then path_push path (cal_format K ''date=%Y-%m-%d'' stamp) else path);
                    path = (if ly_level self \<ge> 2 then path_push path (cal_format K ''hour=%H'' stamp) else path)
                in if ly_level self \<ge> 3 then path_push path (''minute='' @ format_02 bucket) else path)
      in path_push path (ly_prefix self @ ''-'' @ cal_format K STAMP_FORMAT stamp @ ''.'' @ ly_extension self))"

definition is_number :: "string \<Rightarrow> bool" where
  "is_number s \<longleftrightarrow> s \<noteq> [] \<and> list_all is_digit s"

definition partition_number :: "string \<Rightarrow> nat \<Rightarrow> nat option" where
  "partition_number name width = (if length name \<noteq> width \<or> \<not> is_number name then None else parse_u32 name)"

definition layout_name :: "calendar \<Rightarrow> layout \<Rightarrow> string \<Rightarrow> (datetime \<times> bool) option" where
  "layout_name K self name = do {
     (name, temporary) \<leftarrow> (case str_strip_prefix ''.'' name \<bind> str_strip_suffix ''.tmp'' of
         Some tmp \<Rightarrow> do {
           (name, pid) \<leftarrow> rsplit_once CHR ''.'' tmp;
           if \<not> is_number pid then None else Some (name, True)
         }
       | None \<Rightarrow> Some (name, False));
     middle \<leftarrow> str_strip_prefix (ly_prefix self) name;
     middle \<leftarrow> str_strip_prefix ''-'' middle;
     middle \<leftarrow> str_strip_suffix (ly_extension self) middle;
     middle \<leftarrow> str_strip_suffix ''.'' middle;
     (stamp, rest) \<leftarrow> split_at_checked STAMP_LEN middle;
     if (case str_strip_prefix ''-'' rest of Some n \<Rightarrow> \<not> is_number n | None \<Rightarrow> rest \<noteq> []) then None
     else do {
       window \<leftarrow> cal_parse K STAMP_FORMAT stamp;
       Some (window, temporary)
     }
   }"

section \<open>Partition directories\<close>

definition plain_span :: "nat \<Rightarrow> span" where
  "plain_span n = (if n = 1 then SpanYear else if n = 2 then SpanMonth else if n = 3 then SpanDay
     else if n = 4 then SpanHour else SpanBucket)"

fun partition_numbers :: "nat \<Rightarrow> string list \<Rightarrow> nat list option" where
  "partition_numbers depth [] = Some []"
| "partition_numbers depth (name # names) = do {
     n \<leftarrow> partition_number name (if depth = 0 then 4 else 2);
     ns \<leftarrow> partition_numbers (Suc depth) names;
     Some (n # ns)
   }"

definition plain_period :: "calendar \<Rightarrow> string list \<Rightarrow> (datetime \<times> span) option" where
  "plain_period K names = do {
     parts \<leftarrow> partition_numbers 0 names;
     let span = plain_span (length parts);
     if span = SpanBucket \<and> \<not> LEVEL_3_MINUTES dvd parts ! 4 then None
     else do {
       let part = (\<lambda>i d. if i < length parts then parts ! i else d);
       start \<leftarrow> cal_ymd_hms K (int (part 0 1970)) (part 1 1) (part 2 1) (part 3 0) (part 4 0) 0;
       Some (start, span)
     }
   }"

definition hive_period :: "calendar \<Rightarrow> string list \<Rightarrow> (datetime \<times> span) option" where
  "hive_period K names = do {
     first \<leftarrow> (case names of [] \<Rightarrow> None | name # _ \<Rightarrow> Some name);
     date \<leftarrow> str_strip_prefix ''date='' first;
     (year, rest) \<leftarrow> split_once CHR ''-'' date;
     (month, day) \<leftarrow> split_once CHR ''-'' rest;
     year \<leftarrow> partition_number year 4;
     month \<leftarrow> partition_number month 2;
     day \<leftarrow> partition_number day 2;
     hour \<leftarrow> (if length names > 1 then str_strip_prefix ''hour='' (names ! 1) \<bind> (\<lambda>n. partition_number n 2) else Some 0);
     minute \<leftarrow> (if length names > 2 then do {
         bucket \<leftarrow> str_strip_prefix ''minute='' (names ! 2) \<bind> (\<lambda>n. partition_number n 2);
         if \<not> LEVEL_3_MINUTES dvd bucket then None else Some bucket
       } else Some 0);
     let span = (if length names = 1 then SpanDay else if length names = 2 then SpanHour else SpanBucket);
     start \<leftarrow> cal_ymd_hms K (int year) month day hour minute 0;
     Some (start, span)
   }"

definition span_end :: "calendar \<Rightarrow> datetime \<Rightarrow> span \<Rightarrow> datetime option" where
  "span_end K start span = (case span of
       SpanYear \<Rightarrow> cal_with_year K start (cal_year K start + 1)
     | SpanMonth \<Rightarrow>
         if cal_month K start = 12 then cal_with_year K start (cal_year K start + 1) \<bind> (\<lambda>t. cal_with_month K t 1)
         else cal_with_month K start (cal_month K start + 1)
     | SpanDay \<Rightarrow> Some (cal_add K start 86400)
     | SpanHour \<Rightarrow> Some (cal_add K start 3600)
     | SpanBucket \<Rightarrow> Some (cal_add K start (int LEVEL_3_MINUTES * 60)))"

definition layout_period :: "chrono \<Rightarrow> calendar \<Rightarrow> layout \<Rightarrow> path \<Rightarrow> string \<Rightarrow> period option" where
  "layout_period C K self parent name = do {
     below \<leftarrow> path_strip_prefix (ly_root self) parent;
     let names = below @ [name];
     if length names > max_depth (ly_partitioning self) then None
     else do {
       (start, span) \<leftarrow> (case ly_partitioning self of
           Plain \<Rightarrow> plain_period K names
         | Hive \<Rightarrow> hive_period K names);
       end \<leftarrow> span_end K start span;
       Some \<lparr>pe_start = ch_timestamp C start, pe_end = ch_timestamp C end\<rparr>
     }
   }"

section \<open>Walking the tree\<close>

datatype file_kind = KindDir | KindFile | KindOther

type_synonym read_dir = "path \<Rightarrow> (string \<times> file_kind option) option list option"

datatype visit = VisitFile tree_entry | LeaveDir path

lemma period_depth:
  assumes "layout_period C K self dir name = Some p"
  shows "length dir < length (ly_root self) + max_depth (ly_partitioning self)"
  using assms
  by (auto simp: layout_period_def path_strip_prefix_def prefix_def Let_def split: if_splits bind_splits)

function walk :: "chrono \<Rightarrow> calendar \<Rightarrow> layout \<Rightarrow> read_dir \<Rightarrow> range \<Rightarrow> path \<Rightarrow> visit list" where
  "walk C K self read_dir rng dir =
     (case read_dir dir of
        None \<Rightarrow> []
      | Some entries \<Rightarrow> concat (map (\<lambda>entry. case entry of
            Some (name, Some KindDir) \<Rightarrow>
              (case layout_period C K self dir name of
                 Some period \<Rightarrow>
                   if overlaps period rng then walk C K self read_dir rng (dir @ [name]) @ [LeaveDir (dir @ [name])]
                   else []
               | None \<Rightarrow> [])
          | Some (name, Some KindFile) \<Rightarrow>
              (case layout_name K self name of
                 Some (window, temporary) \<Rightarrow>
                   [VisitFile \<lparr>te_path = dir @ [name], te_window = window, te_temporary = temporary\<rparr>]
               | None \<Rightarrow> [])
          | _ \<Rightarrow> []) entries))"
  by pat_completeness auto

termination walk
  by (relation "measure (\<lambda>(C, K, self, read_dir, rng, dir).
      length (ly_root self) + max_depth (ly_partitioning self) - length dir)")
    (auto dest: period_depth)

declare walk.simps [simp del]

definition layout_files :: "chrono \<Rightarrow> calendar \<Rightarrow> layout \<Rightarrow> read_dir \<Rightarrow> range \<Rightarrow> tree_entry list" where
  "layout_files C K self read_dir rng =
     List.map_filter (\<lambda>visit. case visit of
         VisitFile entry \<Rightarrow> if range_contains rng (ch_timestamp C (te_window entry)) then Some entry else None
       | LeaveDir _ \<Rightarrow> None)
       (walk C K self read_dir rng (ly_root self))"

definition layout_dirs :: "chrono \<Rightarrow> calendar \<Rightarrow> layout \<Rightarrow> read_dir \<Rightarrow> range \<Rightarrow> path list" where
  "layout_dirs C K self read_dir rng =
     List.map_filter (\<lambda>visit. case visit of LeaveDir path \<Rightarrow> Some path | VisitFile _ \<Rightarrow> None)
       (walk C K self read_dir rng (ly_root self))"

section \<open>What a walk visits\<close>

lemma overlaps_containing:
  "pe_start p \<le> x \<Longrightarrow> x < pe_end p \<Longrightarrow> range_contains rng x \<Longrightarrow> overlaps p rng"
  by (auto simp: overlaps_def range_contains_def split: bound.splits)

text \<open>The directories from \<open>dir\<close> down \<open>ds\<close> exist, and all of them are partitions that overlap the range.\<close>

primrec reaches :: "read_dir \<Rightarrow> path \<Rightarrow> string list \<Rightarrow> bool" where
  "reaches read_dir dir [] \<longleftrightarrow> True"
| "reaches read_dir dir (d # ds) \<longleftrightarrow>
     (\<exists>es. read_dir dir = Some es \<and> Some (d, Some KindDir) \<in> set es) \<and> reaches read_dir (dir @ [d]) ds"

primrec opened :: "chrono \<Rightarrow> calendar \<Rightarrow> layout \<Rightarrow> range \<Rightarrow> path \<Rightarrow> string list \<Rightarrow> bool" where
  "opened C K self rng dir [] \<longleftrightarrow> True"
| "opened C K self rng dir (d # ds) \<longleftrightarrow>
     (\<exists>p. layout_period C K self dir d = Some p \<and> overlaps p rng) \<and> opened C K self rng (dir @ [d]) ds"

definition has_file :: "read_dir \<Rightarrow> path \<Rightarrow> string \<Rightarrow> bool" where
  "has_file read_dir dir name \<longleftrightarrow> (\<exists>es. read_dir dir = Some es \<and> Some (name, Some KindFile) \<in> set es)"

lemma opened_iff:
  "opened C K self rng dir ds \<longleftrightarrow>
    (\<forall>i < length ds. \<exists>p. layout_period C K self (dir @ take i ds) (ds ! i) = Some p \<and> overlaps p rng)"
proof (induction ds arbitrary: dir)
  case (Cons d ds)
  show ?case by (auto simp: Cons less_Suc_eq_0_disj nth_Cons' split: if_splits)
qed simp

lemma walk_iff:
  "v \<in> set (walk C K self read_dir rng dir) \<longleftrightarrow>
    (\<exists>es. read_dir dir = Some es \<and>
      ((\<exists>d p. Some (d, Some KindDir) \<in> set es \<and> layout_period C K self dir d = Some p \<and> overlaps p rng \<and>
          (v \<in> set (walk C K self read_dir rng (dir @ [d])) \<or> v = LeaveDir (dir @ [d]))) \<or>
       (\<exists>name window temporary. Some (name, Some KindFile) \<in> set es \<and>
          layout_name K self name = Some (window, temporary) \<and>
          v = VisitFile \<lparr>te_path = dir @ [name], te_window = window, te_temporary = temporary\<rparr>)))"
proof (cases "read_dir dir")
  case (Some es)
  have visits: "v \<in> set (case entry of
            Some (name, Some KindDir) \<Rightarrow>
              (case layout_period C K self dir name of
                 Some period \<Rightarrow>
                   if overlaps period rng then walk C K self read_dir rng (dir @ [name]) @ [LeaveDir (dir @ [name])]
                   else []
               | None \<Rightarrow> [])
          | Some (name, Some KindFile) \<Rightarrow>
              (case layout_name K self name of
                 Some (window, temporary) \<Rightarrow>
                   [VisitFile \<lparr>te_path = dir @ [name], te_window = window, te_temporary = temporary\<rparr>]
               | None \<Rightarrow> [])
          | _ \<Rightarrow> []) \<longleftrightarrow>
      (\<exists>d p. entry = Some (d, Some KindDir) \<and> layout_period C K self dir d = Some p \<and> overlaps p rng \<and>
          (v \<in> set (walk C K self read_dir rng (dir @ [d])) \<or> v = LeaveDir (dir @ [d]))) \<or>
       (\<exists>name window temporary. entry = Some (name, Some KindFile) \<and>
          layout_name K self name = Some (window, temporary) \<and>
          v = VisitFile \<lparr>te_path = dir @ [name], te_window = window, te_temporary = temporary\<rparr>)" for entry
  proof (cases "\<exists>name kind. entry = Some (name, Some kind)")
    case True
    then obtain name kind where "entry = Some (name, Some kind)" by blast
    then show ?thesis
      by (cases kind; cases "layout_period C K self dir name"; cases "layout_name K self name") auto
  next
    case False
    then show ?thesis by (auto split: option.split)
  qed
  have "(\<exists>entry \<in> set es. (\<exists>d p. entry = Some (d, Some KindDir) \<and> P d p) \<or>
        (\<exists>name w t. entry = Some (name, Some KindFile) \<and> Q name w t)) \<longleftrightarrow>
      (\<exists>es'. Some es = Some es' \<and> ((\<exists>d p. Some (d, Some KindDir) \<in> set es' \<and> P d p) \<or>
        (\<exists>name w t. Some (name, Some KindFile) \<in> set es' \<and> Q name w t)))" for P Q
    by (simp, blast)
  then show ?thesis
    unfolding walk.simps [of C K self read_dir rng dir] Some option.case set_concat set_map image_image UN_iff visits .
qed (simp add: walk.simps)

lemma walk_file_iff:
  "VisitFile e \<in> set (walk C K self read_dir rng dir) \<longleftrightarrow>
    (\<exists>ds name. reaches read_dir dir ds \<and> opened C K self rng dir ds \<and> has_file read_dir (dir @ ds) name \<and>
      layout_name K self name = Some (te_window e, te_temporary e) \<and> te_path e = dir @ ds @ [name])"
  (is "?walked dir \<longleftrightarrow> (\<exists>ds name. ?there dir ds name)")
proof (induction "length (ly_root self) + max_depth (ly_partitioning self) - length dir" arbitrary: dir rule: less_induct)
  case less
  have IH: "?walked (dir @ [d]) \<longleftrightarrow> (\<exists>ds name. ?there (dir @ [d]) ds name)"
    if "layout_period C K self dir d = Some p" for d p
    using less [of "dir @ [d]"] period_depth [OF that] by simp
  show ?case
  proof
    assume "?walked dir"
    then obtain es where es: "read_dir dir = Some es" and "(\<exists>d p. Some (d, Some KindDir) \<in> set es \<and>
        layout_period C K self dir d = Some p \<and> overlaps p rng \<and> ?walked (dir @ [d])) \<or>
       (\<exists>name. Some (name, Some KindFile) \<in> set es \<and>
          layout_name K self name = Some (te_window e, te_temporary e) \<and> te_path e = dir @ [name])"
      by (subst (asm) walk_iff) auto
    then consider (down) d p where "Some (d, Some KindDir) \<in> set es" "layout_period C K self dir d = Some p"
        "overlaps p rng" "?walked (dir @ [d])"
      | (here) name where "?there dir [] name"
      by (auto simp: has_file_def)
    then show "\<exists>ds name. ?there dir ds name"
    proof cases
      case down
      then obtain ds name where "?there (dir @ [d]) ds name" using IH by blast
      then have "?there dir (d # ds) name" using down es by simp
      then show ?thesis by blast
    qed blast
  next
    assume "\<exists>ds name. ?there dir ds name"
    then obtain ds name where there: "?there dir ds name" by blast
    show "?walked dir"
    proof (cases ds)
      case Nil
      then show ?thesis using there by (subst walk_iff) (cases e, auto simp: has_file_def)
    next
      case (Cons d ds')
      then obtain p where "layout_period C K self dir d = Some p" "overlaps p rng" "?there (dir @ [d]) ds' name"
        using there by auto
      then have "?walked (dir @ [d])" using IH by blast
      then show ?thesis using there Cons by (subst walk_iff) auto
    qed
  qed
qed

section \<open>The names of the files of a window\<close>

lemma str_strip_simps [simp]:
  "str_strip_prefix p (p @ s) = Some s" "str_strip_suffix x (s @ x) = Some s"
  "str_strip_prefix [c] (c # s) = Some s" "str_strip_prefix [c] [] = None"
  "c \<noteq> d \<Longrightarrow> str_strip_prefix [c] (d # s) = None"
  by (simp_all add: str_strip_prefix_def str_strip_suffix_def suffix_def)

lemma split_slash_none: "CHR ''/'' \<notin> set s \<Longrightarrow> split_slash s = [s]"
  by (induction s) auto

lemma path_push_name: "CHR ''/'' \<notin> set s \<Longrightarrow> s \<noteq> [] \<Longrightarrow> s \<noteq> ''.'' \<Longrightarrow> path_push path s = path @ [s]"
  by (cases s) (auto simp: path_push_def split_slash_none)

lemma set_digits: "c \<in> set (digits w n) \<Longrightarrow> is_digit c"
  using all_digits [of w n] by (auto simp: list_all_iff)

lemma not_digits [simp]: "CHR ''/'' \<notin> set (digits w n)" "CHR ''-'' \<notin> set (digits w n)" "CHR ''.'' \<notin> set (digits w n)"
  using set_digits [of "CHR ''/''" w n] set_digits [of "CHR ''-''" w n] set_digits [of "CHR ''.''" w n]
  by (auto simp: is_digit_def)

lemma digits_not_Nil [simp]: "digits (Suc w) n \<noteq> []" "digits (Suc w) n \<noteq> ''.''"
  using not_digits(3) [of "Suc w" n] by auto

lemma digit_0: "digit 0 = CHR ''0''"
  by code_simp

lemma format_02: "n < 100 \<Longrightarrow> format_02 n = digits 2 n"
  by (cases "n < 10") (simp_all add: format_02_def show_nat.simps [of n] show_nat.simps [of "n div 10"] numeral_2_eq_2 digit_0)

lemma partition_number_digits: "n < 10 ^ w \<Longrightarrow> 0 < w \<Longrightarrow> n < 2 ^ 32 \<Longrightarrow> partition_number (digits w n) w = Some n"
  by (cases w) (simp_all add: partition_number_def is_number_def parse_u32_def decimal_digits flip: digits.simps(2) power_Suc)

lemma is_number_show: "is_number (show_nat n)"
  using show_nat_digits [of n] by (simp add: is_number_def)

lemma split_once_at: "c \<notin> set a \<Longrightarrow> split_once c (a @ c # b) = Some (a, b)"
  by (simp add: split_once_def dropWhile_append takeWhile_append)

lemma rsplit_once_at: "c \<notin> set b \<Longrightarrow> rsplit_once c (a @ c # b) = Some (a, b)"
  using split_once_at [of c "rev b" "rev a"] by (simp add: rsplit_once_def)

text \<open>The stamp of a window, and the name of its file with what may follow the stamp.\<close>

definition stamp_of :: "datetime \<Rightarrow> string" where
  "stamp_of t = strftime ''%Y%m%dT%H%M%SZ'' t"

definition window_name :: "layout \<Rightarrow> datetime \<Rightarrow> string \<Rightarrow> string" where
  "window_name self t number = ly_prefix self @ ''-'' @ stamp_of t @ number @ ''.'' @ ly_extension self"

definition numbered :: "string \<Rightarrow> bool" where
  "numbered number \<longleftrightarrow> number = [] \<or> (\<exists>n. number = ''-'' @ show_nat n)"

definition layout_ok :: "layout \<Rightarrow> bool" where
  "layout_ok self \<longleftrightarrow> CHR ''/'' \<notin> set (ly_prefix self) \<and> CHR ''/'' \<notin> set (ly_extension self) \<and>
     CHR ''.'' \<notin> set (ly_extension self) \<and> ly_extension self \<noteq> ''tmp''"

lemma length_stamp [simp]: "length (stamp_of t) = 16"
  by (simp add: stamp_of_def strftime_stamp del: strftime.simps)

lemma stamp_no_slash [simp]: "CHR ''/'' \<notin> set (stamp_of t)"
  by (simp add: stamp_of_def strftime_stamp del: strftime.simps)

lemma same_extension:
  assumes "u @ ''.'' @ a = v @ ''.'' @ b" and "CHR ''.'' \<notin> set a" and "CHR ''.'' \<notin> set b"
  shows "a = b"
proof -
  have "rsplit_once CHR ''.'' (u @ CHR ''.'' # a) = rsplit_once CHR ''.'' (v @ CHR ''.'' # b)"
    using assms(1) by (simp only: append_Cons append_Nil)
  then show ?thesis unfolding rsplit_once_at [OF assms(2)] rsplit_once_at [OF assms(3)] by simp
qed

lemma window_name_final:
  assumes "layout_ok self"
  shows "str_strip_prefix ''.'' (window_name self t number) \<bind> str_strip_suffix ''.tmp'' = None"
proof -
  obtain c u where name: "window_name self t number = c # u @ ''.'' @ ly_extension self"
    by (cases "ly_prefix self") (auto simp: window_name_def)
  have "\<not> suffix ''.tmp'' (u @ ''.'' @ ly_extension self)"
    using same_extension [of u "ly_extension self" _ "''tmp''"] assms by (auto simp: suffix_def layout_ok_def)
  then show ?thesis
    unfolding name by (cases "c = CHR ''.''") (simp_all add: str_strip_suffix_def)
qed

context calendar_spec
begin

lemma stamp_parsed:
  assumes "four_digit_year t" and "dt_nanos t = 0" and "numbered number"
  shows "(case split_at_checked STAMP_LEN (stamp_of t @ number) of
      Some (stamp, rest) \<Rightarrow>
        if (case str_strip_prefix ''-'' rest of Some n \<Rightarrow> \<not> is_number n | None \<Rightarrow> rest \<noteq> []) then None
        else cal_parse K STAMP_FORMAT stamp
    | None \<Rightarrow> None) = Some t"
  using assms parse_spec [of t, folded stamp_of_def] is_number_show
  by (auto simp: split_at_checked_def STAMP_LEN_def STAMP_FORMAT_def is_char_boundary_def numbered_def nth_append)

lemma name_of_window:
  assumes "layout_ok self" and "four_digit_year t" and "dt_nanos t = 0" and "numbered number"
  shows "layout_name K self (window_name self t number) = Some (t, False)"
    and "layout_name K self (''.'' @ window_name self t number @ ''.'' @ show_nat pid @ ''.tmp'') = Some (t, True)"
proof -
  let ?middle = "\<lambda>name. str_strip_prefix (ly_prefix self) name \<bind> str_strip_prefix ''-'' \<bind>
    str_strip_suffix (ly_extension self) \<bind> str_strip_suffix ''.''"
  have "?middle (window_name self t number) = Some (stamp_of t @ number)"
    using str_strip_simps(2) [of "''.''" "stamp_of t @ number"]
      str_strip_simps(2) [of "ly_extension self" "stamp_of t @ number @ ''.''"] by (simp add: window_name_def)
  then have name: "layout_name K self name = Some (t, temporary)"
    if "(case str_strip_prefix ''.'' name \<bind> str_strip_suffix ''.tmp'' of
         Some tmp \<Rightarrow> do {
           (name, pid) \<leftarrow> rsplit_once CHR ''.'' tmp;
           if \<not> is_number pid then None else Some (name, True)
         }
       | None \<Rightarrow> Some (name, False)) = Some (window_name self t number, temporary)" for name temporary
    using stamp_parsed [OF assms(2,3,4)] that
    by (auto simp: layout_name_def split: bind_splits option.splits if_splits)
  show "layout_name K self (window_name self t number) = Some (t, False)"
    by (rule name) (simp add: window_name_final [OF assms(1)])
  have "CHR ''.'' \<notin> set (show_nat pid)"
    using show_nat_digits [of pid] by (auto simp: list_all_iff is_digit_def)
  then show "layout_name K self (''.'' @ window_name self t number @ ''.'' @ show_nat pid @ ''.tmp'') = Some (t, True)"
    using str_strip_simps(2) [of "''.tmp''" "window_name self t number @ ''.'' @ show_nat pid"]
    by (intro name) (simp add: rsplit_once_at is_number_show)
qed

end

text \<open>The directories a window's file goes to.\<close>

definition bucket_of :: "datetime \<Rightarrow> nat" where
  "bucket_of t = dt_minute t div 5 * 5"

definition partition_names :: "partitioning \<Rightarrow> datetime \<Rightarrow> string list" where
  "partition_names p t = (case p of
       Plain \<Rightarrow> [digits 4 (nat (dt_year t)), digits 2 (dt_month t), digits 2 (dt_day t), digits 2 (dt_hour t),
         digits 2 (bucket_of t)]
     | Hive \<Rightarrow> [''date='' @ digits 4 (nat (dt_year t)) @ ''-'' @ digits 2 (dt_month t) @ ''-'' @ digits 2 (dt_day t),
         ''hour='' @ digits 2 (dt_hour t), ''minute='' @ digits 2 (bucket_of t)])"

definition partition_depth :: "partitioning \<Rightarrow> nat \<Rightarrow> nat" where
  "partition_depth p level = (case p of
       Plain \<Rightarrow> if level = 0 then 0 else if level = 1 then 3 else if level = 2 then 4 else 5
     | Hive \<Rightarrow> if level < 3 then level else 3)"

definition partition_dirs :: "layout \<Rightarrow> datetime \<Rightarrow> string list" where
  "partition_dirs self t =
     take (partition_depth (ly_partitioning self) (ly_level self)) (partition_names (ly_partitioning self) t)"

lemma bucket_of_less: "bucket_of t < 60"
  using dt_parts_bounds(6) [of t] unfolding bucket_of_def by linarith

context calendar_spec
begin

lemma formats:
  assumes "four_digit_year t"
  shows "cal_format K ''%Y'' t = digits 4 (nat (dt_year t))" "cal_format K ''%m'' t = digits 2 (dt_month t)"
    "cal_format K ''%d'' t = digits 2 (dt_day t)" "cal_format K ''%H'' t = digits 2 (dt_hour t)"
    "cal_format K ''hour=%H'' t = ''hour='' @ digits 2 (dt_hour t)"
    "cal_format K ''date=%Y-%m-%d'' t =
      ''date='' @ digits 4 (nat (dt_year t)) @ ''-'' @ digits 2 (dt_month t) @ ''-'' @ digits 2 (dt_day t)"
    "cal_format K STAMP_FORMAT t = stamp_of t"
  using assms by (simp_all add: format_spec strftime_item_def STAMP_FORMAT_def stamp_of_def)

lemma path_for_eq:
  assumes "layout_ok self" and "four_digit_year t"
  shows "path_for K self t = ly_root self @ partition_dirs self t @ [window_name self t []]"
proof -
  have name: "path_push path (window_name self t []) = path @ [window_name self t []]" for path
    using assms(1) by (intro path_push_name) (auto simp: window_name_def layout_ok_def Cons_eq_append_conv)
  have push: "path_push path (digits w n) = path @ [digits w n]" if "0 < w" for path w n
    using that by (intro path_push_name) (cases w; simp del: digits.simps)+
  have hive: "path_push path (''date='' @ digits 4 y @ ''-'' @ digits 2 m @ ''-'' @ digits 2 d) =
        path @ [''date='' @ digits 4 y @ ''-'' @ digits 2 m @ ''-'' @ digits 2 d]"
      "path_push path (''hour='' @ digits 2 n) = path @ [''hour='' @ digits 2 n]"
      "path_push path (''minute='' @ digits 2 n) = path @ [''minute='' @ digits 2 n]" for path y m d n
    by (rule path_push_name; simp)+
  have bucket: "format_02 (cal_minute K t div LEVEL_3_MINUTES * LEVEL_3_MINUTES) = digits 2 (bucket_of t)"
    using bucket_of_less [of t] by (simp add: minute_spec LEVEL_3_MINUTES_def format_02 flip: bucket_of_def)
  have levels: "ly_level self = 0 \<or> ly_level self = 1 \<or> ly_level self = 2 \<or> 3 \<le> ly_level self" by linarith
  note name [unfolded window_name_def, simplified, simp]
  show ?thesis
    unfolding path_for_def Let_def bucket formats [OF assms(2)] hive window_name_def append_Nil
    using levels by (cases "ly_partitioning self"; elim disjE)
      (simp_all add: partition_dirs_def partition_depth_def partition_names_def push)
qed

end


text \<open>The time a directory of a window's file starts at.\<close>

definition span_start :: "datetime \<Rightarrow> span \<Rightarrow> datetime" where
  "span_start t sp = (case sp of
       SpanYear \<Rightarrow> DateTime (dt_at (dt_year t) 1 1 0) 0
     | SpanMonth \<Rightarrow> DateTime (dt_at (dt_year t) (dt_month t) 1 0) 0
     | SpanDay \<Rightarrow> DateTime (dt_at (dt_year t) (dt_month t) (dt_day t) 0) 0
     | SpanHour \<Rightarrow> DateTime (dt_at (dt_year t) (dt_month t) (dt_day t) (int (dt_hour t) * 3600)) 0
     | SpanBucket \<Rightarrow>
         DateTime (dt_at (dt_year t) (dt_month t) (dt_day t) (int (dt_hour t) * 3600 + int (bucket_of t) * 60)) 0)"

definition spans :: "partitioning \<Rightarrow> span list" where
  "spans p = (case p of
       Plain \<Rightarrow> [SpanYear, SpanMonth, SpanDay, SpanHour, SpanBucket] | Hive \<Rightarrow> [SpanDay, SpanHour, SpanBucket])"

lemma valid_first: "1 \<le> m \<Longrightarrow> m \<le> 12 \<Longrightarrow> valid_date y m 1" "valid_date y (Suc 0) (Suc 0)"
  by (simp_all add: valid_date_def days_in_month_def)

lemma first_days: "gregorian_days y m (Suc 0) = month_start y m"
  by (simp add: gregorian_days_def)

lemma span_start_before: "dt_secs (span_start t sp) \<le> dt_secs t"
proof -
  have "gregorian_days (dt_year t) 1 1 \<le> gregorian_days (dt_year t) (dt_month t) (dt_day t)"
    "gregorian_days (dt_year t) (dt_month t) 1 \<le> gregorian_days (dt_year t) (dt_month t) (dt_day t)"
    using gregorian_days_bounds [OF dt_date_valid(1)] by (simp_all add: first_days)
  moreover have "bucket_of t \<le> dt_minute t" by (simp add: bucket_of_def)
  ultimately show ?thesis
    unfolding dt_secs_parts [of t] by (auto simp: span_start_def dt_at_def split: span.split)
qed

context calendar_spec
begin

lemma span_end_after:
  assumes "four_digit_year t"
  obtains e where "span_end K (span_start t sp) sp = Some e" and "dt_secs t < dt_secs e"
proof -
  let ?y = "dt_year t" and ?m = "dt_month t" and ?d = "dt_day t"
  note b = gregorian_days_bounds [OF dt_date_valid(1), of t] dt_parts_bounds [of t]
  have range: "year_in_range ?y" "year_in_range (?y + 1)"
    using assms by (auto simp: four_digit_year_def year_in_range_def)
  have year: "cal_with_year K (DateTime (dt_at ?y m 1 0) 0) (?y + 1) = Some (DateTime (dt_at (?y + 1) m 1 0) 0)"
    if "1 \<le> m" "m \<le> 12" for m
    using dt_at_parts [OF valid_first(1) [OF that], of 0] valid_first(1) [OF that] range by (simp add: with_year_spec)
  have month: "cal_with_month K (DateTime (dt_at y m 1 0) 0) m' = Some (DateTime (dt_at y m' 1 0) 0)"
    if "1 \<le> m" "m \<le> 12" "1 \<le> m'" "m' \<le> 12" for y m m'
    using dt_at_parts [OF valid_first(1) [OF that(1,2)], of 0] valid_first(1) [OF that(3,4)] by (simp add: with_month_spec)
  have add: "cal_add K (DateTime (dt_at ?y ?m ?d s) 0) n = DateTime (dt_at ?y ?m ?d s + n) 0"
    if "0 \<le> s" "s < 86400" "0 \<le> n" "n \<le> 86400" for s n
    using dt_at_parts(1) [OF dt_date_valid(1) that(1,2)] range that by (simp add: add_spec)
  have secs: "dt_secs t < (gregorian_days ?y ?m ?d + 1) * 86400"
    using dt_date_valid(2) [of t] pos_mod_bound [of 86400 "dt_secs t"] div_mult_mod_eq [of "dt_secs t" 86400]
    by (simp add: algebra_simps)
  have later: "dt_secs t < n * 86400" if "gregorian_days ?y ?m ?d < n" for n
    using secs that by (smt (verit) mult_right_mono)
  have hour: "int (dt_hour t) * 3600 < 86400" "bucket_of t \<le> dt_minute t" "dt_minute t < bucket_of t + 5"
    using b(9) by (simp_all add: bucket_of_def)
  show ?thesis
  proof (cases sp)
    case SpanYear
    show ?thesis
      by (rule that [of "DateTime (dt_at (?y + 1) 1 1 0) 0"])
        (use year [of 1] dt_at_parts [OF valid_first(2), of 0] later [OF b(4)] in
          \<open>simp_all add: SpanYear span_start_def span_end_def year_spec dt_at_def first_days\<close>)
  next
    case SpanMonth
    show ?thesis
    proof (cases "?m = 12")
      case True
      show ?thesis
        by (rule that [of "DateTime (dt_at (?y + 1) 1 1 0) 0"])
          (use year [of ?m] month [of 12 1] dt_at_parts [OF valid_first(1), of ?m 0] later [OF b(4)] True in
            \<open>simp_all add: SpanMonth span_start_def span_end_def year_spec month_spec dt_at_def first_days\<close>)
    next
      case False
      show ?thesis
        by (rule that [of "DateTime (dt_at ?y (Suc ?m) 1 0) 0"])
          (use month [of ?m "Suc ?m"] dt_at_parts [OF valid_first(1), of ?m 0] later [OF b(2)] b(5,6) False in
            \<open>simp_all add: SpanMonth span_start_def span_end_def year_spec month_spec dt_at_def first_days\<close>)
    qed
  next
    case SpanDay
    show ?thesis
      by (rule that [of "DateTime (dt_at ?y ?m ?d 0 + 86400) 0"])
        (use secs add [of 0 86400] in \<open>simp_all add: SpanDay span_start_def span_end_def dt_at_def\<close>)
  next
    case SpanHour
    show ?thesis
      by (rule that [of "DateTime (dt_at ?y ?m ?d (int (dt_hour t) * 3600) + 3600) 0"])
        (use hour b(10,11) add [of "int (dt_hour t) * 3600" 3600] in
          \<open>simp_all add: SpanHour span_start_def span_end_def dt_secs_parts [of t] dt_at_def\<close>)
  next
    case SpanBucket
    show ?thesis
      by (rule that [of "DateTime (dt_at ?y ?m ?d (int (dt_hour t) * 3600 + int (bucket_of t) * 60) + 300) 0"])
        (use hour b(9-11) add [of "int (dt_hour t) * 3600 + int (bucket_of t) * 60" 300] in
          \<open>simp_all add: SpanBucket span_start_def span_end_def LEVEL_3_MINUTES_def dt_secs_parts [of t] dt_at_def\<close>)
  qed
qed

lemma plain_period_names:
  assumes "four_digit_year t" and "i < 5"
  shows "plain_period K (take (Suc i) (partition_names Plain t)) = Some (span_start t (spans Plain ! i), spans Plain ! i)"
proof -
  have year: "nat (dt_year t) < 10 ^ 4" "int (nat (dt_year t)) = dt_year t" "year_in_range (dt_year t)"
    using assms(1) by (auto simp: four_digit_year_def year_in_range_def nat_less_iff)
  note n = dt_parts_bounds [of t] bucket_of_less [of t] dt_date_valid(1) [of t] valid_first(1) [of "dt_month t" "dt_year t"] valid_first(2)
  have "i = 0 \<or> i = 1 \<or> i = 2 \<or> i = 3 \<or> i = 4" using assms(2) by linarith
  then show ?thesis
    using n year
    by (elim disjE) (simp_all add: partition_names_def plain_period_def spans_def span_start_def plain_span_def
        partition_number_digits ymd_hms_spec bucket_of_def LEVEL_3_MINUTES_def)
qed

lemma hive_period_names:
  assumes "four_digit_year t" and "i < 3"
  shows "hive_period K (take (Suc i) (partition_names Hive t)) = Some (span_start t (spans Hive ! i), spans Hive ! i)"
proof -
  have year: "nat (dt_year t) < 10 ^ 4" "int (nat (dt_year t)) = dt_year t" "year_in_range (dt_year t)"
    using assms(1) by (auto simp: four_digit_year_def year_in_range_def nat_less_iff)
  note n = dt_parts_bounds [of t] bucket_of_less [of t] dt_date_valid(1) [of t]
  have strip: "str_strip_prefix ''date='' (''date='' @ s) = Some s" "str_strip_prefix ''hour='' (''hour='' @ s) = Some s"
    "str_strip_prefix ''minute='' (''minute='' @ s) = Some s" for s
    by (rule str_strip_simps(1))+
  have "i = 0 \<or> i = 1 \<or> i = 2" using assms(2) by linarith
  then show ?thesis
    using n year
    by (elim disjE) (simp_all add: partition_names_def hive_period_def spans_def span_start_def strip [simplified]
        split_once_at partition_number_digits ymd_hms_spec bucket_of_def LEVEL_3_MINUTES_def)
qed

end

context dates_spec
begin

lemma period_of_directory:
  assumes "four_digit_year t" and "i < length (partition_names (ly_partitioning self) t)"
  obtains p where
    "layout_period C K self (ly_root self @ take i (partition_names (ly_partitioning self) t))
      (partition_names (ly_partitioning self) t ! i) = Some p"
    and "pe_start p \<le> dt_secs t" and "dt_secs t < pe_end p"
proof -
  let ?names = "partition_names (ly_partitioning self) t" and ?sp = "spans (ly_partitioning self) ! i"
  obtain e where e: "span_end K (span_start t ?sp) ?sp = Some e" "dt_secs t < dt_secs e"
    using span_end_after [OF assms(1)] by blast
  have names: "take i ?names @ [?names ! i] = take (Suc i) ?names"
    using assms(2) by (simp add: take_Suc_conv_app_nth)
  have "(case ly_partitioning self of Plain \<Rightarrow> plain_period K (take i ?names @ [?names ! i])
      | Hive \<Rightarrow> hive_period K (take i ?names @ [?names ! i])) = Some (span_start t ?sp, ?sp)"
    unfolding names using assms plain_period_names [OF assms(1), of i] hive_period_names [OF assms(1), of i]
    by (cases "ly_partitioning self") (simp_all add: partition_names_def)
  moreover have "length (take i ?names @ [?names ! i]) \<le> max_depth (ly_partitioning self)"
    using assms(2) by (cases "ly_partitioning self") (simp_all add: partition_names_def max_depth_def)
  ultimately have "layout_period C K self (ly_root self @ take i ?names) (?names ! i) =
      Some \<lparr>pe_start = dt_secs (span_start t ?sp), pe_end = dt_secs e\<rparr>"
    using e(1) by (simp add: layout_period_def path_strip_prefix_def Let_def timestamp_spec)
  then show ?thesis
    using that e(2) span_start_before by simp
qed

lemma directories_opened:
  assumes "four_digit_year t" and "range_contains rng (dt_secs t)"
  shows "opened C K self rng (ly_root self) (partition_dirs self t)"
proof -
  let ?names = "partition_names (ly_partitioning self) t"
  have "\<exists>p. layout_period C K self (ly_root self @ take i (partition_dirs self t)) (partition_dirs self t ! i) = Some p \<and>
      overlaps p rng" if "i < length (partition_dirs self t)" for i
  proof -
    have i: "i < length ?names" "take i (partition_dirs self t) = take i ?names" "partition_dirs self t ! i = ?names ! i"
      using that by (simp_all add: partition_dirs_def)
    from assms(1) i(1) show ?thesis
      by (rule period_of_directory) (use i assms(2) overlaps_containing in metis)
  qed
  then show ?thesis by (simp add: opened_iff)
qed

lemma files_iff:
  "e \<in> set (layout_files C K self read_dir rng) \<longleftrightarrow>
    range_contains rng (dt_secs (te_window e)) \<and>
    (\<exists>ds name. reaches read_dir (ly_root self) ds \<and> opened C K self rng (ly_root self) ds \<and>
      has_file read_dir (ly_root self @ ds) name \<and> layout_name K self name = Some (te_window e, te_temporary e) \<and>
      te_path e = ly_root self @ ds @ [name])"
proof -
  have "e \<in> set (layout_files C K self read_dir rng) \<longleftrightarrow>
      VisitFile e \<in> set (walk C K self read_dir rng (ly_root self)) \<and> range_contains rng (dt_secs (te_window e))"
    by (force simp: layout_files_def List.map_filter_def timestamp_spec split: visit.splits if_splits)
  then show ?thesis unfolding walk_file_iff by blast
qed

end

section \<open>Properties\<close>

text \<open>C17. The name of a file says which window it holds: the name a window's file is given, the numbered
  ones that replace it when it is taken, and the temporary one it is written under are all
  recognised as the collector's own, with the window they were made for.\<close>

theorem window_names_recognised:
  assumes "calendar_spec K" and "layout_ok self" and "four_digit_year t" and "dt_nanos t = 0" and "numbered number"
  shows "last (path_for K self t) = window_name self t [] \<and>
    layout_name K self (window_name self t number) = Some (t, False) \<and>
    layout_name K self (''.'' @ window_name self t number @ ''.'' @ show_nat pid @ ''.tmp'') = Some (t, True)"
  using calendar_spec.path_for_eq [OF assms(1-3)] calendar_spec.name_of_window [OF assms] by simp

definition example_layout :: layout where
  "example_layout = \<lparr>ly_root = [''out''], ly_prefix = ''flows'', ly_extension = ''parquet'', ly_level = 3, ly_partitioning = Hive\<rparr>"

definition example_time :: datetime where
  "example_time = DateTime 1787832300 0"

lemma example_layout_ok: "layout_ok example_layout" "four_digit_year example_time" "dt_nanos example_time = 0"
proof -
  show "layout_ok example_layout" by (simp add: layout_ok_def example_layout_def)
  show "four_digit_year example_time" "dt_nanos example_time = 0" by code_simp+
qed

theorem window_names_recognised_witness:
  "last (path_for calendar_ref example_layout example_time) = ''flows-20260827T120500Z.parquet'' \<and>
   layout_name calendar_ref example_layout ''flows-20260827T120500Z-3.parquet'' = Some (example_time, False)"
proof -
  have "numbered ''-3''" unfolding numbered_def by (intro disjI2 exI [of _ 3]) code_simp
  moreover have "window_name example_layout example_time [] = ''flows-20260827T120500Z.parquet''"
    "window_name example_layout example_time ''-3'' = ''flows-20260827T120500Z-3.parquet''"
    by code_simp+
  ultimately show ?thesis
    using window_names_recognised [OF calendar_ref.calendar_spec_axioms example_layout_ok, of "''-3''"] by simp
qed

text \<open>C13. Listing a time range misses nothing, although directories outside the range are not opened: a file of the
  tree that stands where its window is filed, at whatever level, is listed exactly if its
  window starts in the range. And nothing else is listed: every entry is a regular file of the tree
  whose own name says so.\<close>

theorem files_of_range:
  assumes "dates_spec C K" and "four_digit_year t"
    and "reaches read_dir (ly_root self) (partition_dirs (self\<lparr>ly_level := level\<rparr>) t)"
    and "has_file read_dir (ly_root self @ partition_dirs (self\<lparr>ly_level := level\<rparr>) t) name"
    and "layout_name K self name = Some (t, temporary)"
  shows "(\<lparr>te_path = ly_root self @ partition_dirs (self\<lparr>ly_level := level\<rparr>) t @ [name], te_window = t, te_temporary = temporary\<rparr>
        \<in> set (layout_files C K self read_dir rng) \<longleftrightarrow> range_contains rng (dt_secs t)) \<and>
    (\<forall>e \<in> set (layout_files C K self read_dir rng). range_contains rng (dt_secs (te_window e)) \<and>
      (\<exists>ds name. reaches read_dir (ly_root self) ds \<and> has_file read_dir (ly_root self @ ds) name \<and>
        layout_name K self name = Some (te_window e, te_temporary e) \<and> te_path e = ly_root self @ ds @ [name]))"
proof -
  let ?dirs = "partition_dirs (self\<lparr>ly_level := level\<rparr>) t"
  have period: "layout_period C K (self\<lparr>ly_level := level\<rparr>) = layout_period C K self"
    by (intro ext) (simp add: layout_period_def cong: if_cong)
  have "opened C K self rng (ly_root self) ?dirs" if "range_contains rng (dt_secs t)"
    using dates_spec.directories_opened [OF assms(1,2) that, of "self\<lparr>ly_level := level\<rparr>"]
    by (simp add: opened_iff period)
  then show ?thesis
    using assms(3-5) unfolding Ball_def dates_spec.files_iff [OF assms(1)] by auto
qed

text \<open>A tree with the file of the example's window.\<close>

definition example_read_dir :: read_dir where
  "example_read_dir dir =
     (if dir = [''out''] then Some [Some (''date=2026-08-27'', Some KindDir), Some (''notes'', Some KindFile)]
      else if dir = [''out'', ''date=2026-08-27''] then Some [Some (''hour=12'', Some KindDir)]
      else if dir = [''out'', ''date=2026-08-27'', ''hour=12''] then Some [None, Some (''minute=05'', Some KindDir)]
      else if dir = [''out'', ''date=2026-08-27'', ''hour=12'', ''minute=05''] then
        Some [Some (''flows-20260827T120500Z.parquet'', Some KindFile)]
      else None)"

theorem files_of_range_witness:
  "\<lparr>te_path = [''out'', ''date=2026-08-27'', ''hour=12'', ''minute=05'', ''flows-20260827T120500Z.parquet''],
     te_window = example_time, te_temporary = False\<rparr>
    \<in> set (layout_files chrono_ref calendar_ref example_layout example_read_dir (Unbounded, Excluded 1787832301))"
proof -
  have dirs: "partition_dirs (example_layout\<lparr>ly_level := 3\<rparr>) example_time = [''date=2026-08-27'', ''hour=12'', ''minute=05'']"
    by code_simp
  have name: "layout_name calendar_ref example_layout ''flows-20260827T120500Z.parquet'' = Some (example_time, False)"
    by code_simp
  have "range_contains (Unbounded, Excluded 1787832301) (dt_secs example_time)"
    by (simp add: range_contains_def example_time_def)
  moreover have "reaches example_read_dir (ly_root example_layout) [''date=2026-08-27'', ''hour=12'', ''minute=05'']"
    "has_file example_read_dir (ly_root example_layout @ [''date=2026-08-27'', ''hour=12'', ''minute=05''])
      ''flows-20260827T120500Z.parquet''" "ly_root example_layout = [''out'']"
    by (simp_all add: example_layout_def example_read_dir_def has_file_def)
  ultimately show ?thesis
    using files_of_range [OF dates_ref.dates_spec_axioms example_layout_ok(2) _ _ name, where level = 3
        and read_dir = example_read_dir and rng = "(Unbounded, Excluded 1787832301)", unfolded dirs] by simp
qed

end
