(* ===== verification/Destination.thy ===== *)
theory Destination
  imports Layout
begin

text \<open>
  Where the output goes (\<^verbatim>\<open>rustflow_collect/src/sink/destination.rs\<close>), the check of the rotation
  interval (\<^verbatim>\<open>check_interval\<close> of \<^verbatim>\<open>args.rs\<close>) and the expiry of old files
  (\<^verbatim>\<open>sink/expire.rs\<close>).

  The file system is a parameter: a record of the operations of \<^verbatim>\<open>std::fs\<close> the source calls, on a state
  \<open>'w\<close> of the world, with \<open>None\<close> for \<^verbatim>\<open>Ok\<close>. \<open>fs_spec\<close> states what they do to the
  regular files, seen through \<open>files\<close>; \<open>fs_ref\<close> implements it. What other processes do
  between two operations is not modelled.

  Shown: a file gets its final name without ever replacing another, nor is its content lost; a file is filed under the window it was
  opened for, which lies in the directory it goes to; and a sweep removes exactly
  the tree's own files that are old enough.
\<close>

section \<open>The file system\<close>

datatype io_error = AlreadyExists | NotFound | OtherError | Panicked

record 'w fs =
  fs_hard_link :: "path \<Rightarrow> path \<Rightarrow> 'w \<Rightarrow> 'w \<times> io_error option"
  fs_remove_file :: "path \<Rightarrow> 'w \<Rightarrow> 'w \<times> io_error option"
  fs_remove_dir :: "path \<Rightarrow> 'w \<Rightarrow> 'w \<times> io_error option"
  fs_rename :: "path \<Rightarrow> path \<Rightarrow> 'w \<Rightarrow> 'w \<times> io_error option"
  fs_exists :: "path \<Rightarrow> 'w \<Rightarrow> bool"
  fs_create_dir_all :: "path \<Rightarrow> 'w \<Rightarrow> 'w \<times> io_error option"
  fs_open_truncated :: "path \<Rightarrow> 'w \<Rightarrow> 'w \<times> io_error option"
  fs_read_dir :: "'w \<Rightarrow> read_dir"
  fs_process_id :: nat

locale fs_spec =
  fixes F :: "'w fs" and files :: "'w \<Rightarrow> path \<Rightarrow> bytes option"
  assumes hard_link_ok: "fs_hard_link F a b w = (w', None) \<Longrightarrow>
      files w a \<noteq> None \<and> files w b = None \<and> files w' = (files w)(b := files w a)"
    and hard_link_err: "fs_hard_link F a b w = (w', Some e) \<Longrightarrow> files w' = files w"
    and remove_file_ok: "fs_remove_file F a w = (w', None) \<Longrightarrow> files w a \<noteq> None \<and> files w' = (files w)(a := None)"
    and remove_file_err: "fs_remove_file F a w = (w', Some e) \<Longrightarrow> files w' = files w"
    and remove_file_not_found: "fs_remove_file F a w = (w', Some NotFound) \<Longrightarrow> files w a = None"
    and remove_dir_files: "files (fst (fs_remove_dir F a w)) = files w"
    and rename_ok: "a \<noteq> b \<Longrightarrow> fs_rename F a b w = (w', None) \<Longrightarrow>
      files w a \<noteq> None \<and> files w' = (files w)(b := files w a, a := None)"
    and rename_err: "fs_rename F a b w = (w', Some e) \<Longrightarrow> files w' = files w"
    and exists_file: "files w a \<noteq> None \<Longrightarrow> fs_exists F a w"
    and read_dir_file: "has_file (fs_read_dir F w) dir name \<Longrightarrow> files w (dir @ [name]) \<noteq> None"

section \<open>Final names\<close>

definition path_file_name :: "path \<Rightarrow> string option" where
  "path_file_name path = (if path = [] \<or> last path \<in> {''..'', ''/''} then None else Some (last path))"

definition with_file_name :: "path \<Rightarrow> string \<Rightarrow> path" where
  "with_file_name path name = path_push (if path_file_name path = None then path else butlast path) name"

text \<open>\<^verbatim>\<open>file_stem\<close> and \<^verbatim>\<open>extension\<close>: the last dot parts them, unless it comes first.\<close>

definition path_stem_extension :: "path \<Rightarrow> (string \<times> string option) option" where
  "path_stem_extension path = map_option (\<lambda>name. case rsplit_once CHR ''.'' name of
       Some (before, after) \<Rightarrow> if before = [] then (name, None) else (before, Some after)
     | None \<Rightarrow> (name, None)) (path_file_name path)"

definition MAX_NAME_ATTEMPTS :: nat where
  "MAX_NAME_ATTEMPTS = 1000"

definition candidates :: "path \<Rightarrow> path list" where
  "candidates wanted =
     (let stem = (case path_stem_extension wanted of Some (stem, _) \<Rightarrow> stem | None \<Rightarrow> ''output'');
          extension = (case path_stem_extension wanted of Some (_, Some e) \<Rightarrow> ''.'' @ e | _ \<Rightarrow> [])
      in wanted # map (\<lambda>n. with_file_name wanted (stem @ ''-'' @ show_nat n @ extension)) [1..<MAX_NAME_ATTEMPTS])"

fun claim_by_rename_from :: "'w fs \<Rightarrow> path \<Rightarrow> path list \<Rightarrow> 'w \<Rightarrow> 'w \<times> (io_error + path)" where
  "claim_by_rename_from F tmp [] w = (w, Inl OtherError)"
| "claim_by_rename_from F tmp (candidate # cs) w =
     (if fs_exists F candidate w then claim_by_rename_from F tmp cs w
      else case fs_rename F tmp candidate w of
             (w, Some e) \<Rightarrow> (w, Inl e)
           | (w, None) \<Rightarrow> (w, Inr candidate))"

definition claim_by_rename :: "'w fs \<Rightarrow> path \<Rightarrow> path \<Rightarrow> 'w \<Rightarrow> 'w \<times> (io_error + path)" where
  "claim_by_rename F tmp wanted w = claim_by_rename_from F tmp (candidates wanted) w"

fun claim_from :: "'w fs \<Rightarrow> path \<Rightarrow> path \<Rightarrow> path list \<Rightarrow> 'w \<Rightarrow> 'w \<times> (io_error + path)" where
  "claim_from F tmp wanted [] w = (w, Inl OtherError)"
| "claim_from F tmp wanted (candidate # cs) w =
     (case fs_hard_link F tmp candidate w of
        (w, None) \<Rightarrow>
          (case fs_remove_file F tmp w of
             (w, Some e) \<Rightarrow> (w, Inl e)
           | (w, None) \<Rightarrow> (w, Inr candidate))
      | (w, Some AlreadyExists) \<Rightarrow> claim_from F tmp wanted cs w
      | (w, Some _) \<Rightarrow> claim_by_rename F tmp wanted w)"

definition claim_final_name :: "'w fs \<Rightarrow> path \<Rightarrow> path \<Rightarrow> 'w \<Rightarrow> 'w \<times> (io_error + path)" where
  "claim_final_name F tmp wanted w = claim_from F tmp wanted (candidates wanted) w"

section \<open>A file being written\<close>

record pending_rename =
  pr_tmp :: path
  pr_final_path :: path
  pr_window :: datetime
  pr_committed :: bool

definition pending_claim :: "'w fs \<Rightarrow> pending_rename \<Rightarrow> 'w \<Rightarrow> 'w \<times> (io_error + path)" where
  "pending_claim F self w = claim_final_name F (pr_tmp self) (pr_final_path self) w"

definition pending_drop :: "'w fs \<Rightarrow> pending_rename \<Rightarrow> 'w \<Rightarrow> 'w" where
  "pending_drop F self w = (if \<not> pr_committed self then fst (pending_claim F self w) else w)"

definition pending_commit :: "'w fs \<Rightarrow> pending_rename \<Rightarrow> 'w \<Rightarrow> 'w \<times> (io_error + path)" where
  "pending_commit F self w =
     (let self = self\<lparr>pr_committed := True\<rparr> in
      case pending_claim F self w of (w, result) \<Rightarrow> (pending_drop F self w, result))"

section \<open>Opening a window\<close>

datatype destination = DestStdout | DestFile path | DestPartitioned layout int | DestNull

datatype writer = StdoutWriter | NullWriter | FileWriter path

record opened_file =
  op_writer :: writer
  op_pending :: "pending_rename option"
  op_rotate_at :: "int option"

definition temp_path :: "'w fs \<Rightarrow> path \<Rightarrow> path" where
  "temp_path F final_path =
     (let name = (case path_file_name final_path of Some n \<Rightarrow> n | None \<Rightarrow> ''output'')
      in with_file_name final_path (''.'' @ name @ ''.'' @ show_nat (fs_process_id F) @ ''.tmp''))"

definition path_parent :: "path \<Rightarrow> path option" where
  "path_parent path = (if path = [] \<or> path = [''/''] then None else Some (butlast path))"

definition create_file :: "'w fs \<Rightarrow> path \<Rightarrow> 'w \<Rightarrow> 'w \<times> io_error option" where
  "create_file F path w =
     (case (case path_parent path of Some parent \<Rightarrow> fs_create_dir_all F parent w | None \<Rightarrow> (w, None)) of
        (w, Some e) \<Rightarrow> (w, Some e)
      | (w, None) \<Rightarrow> fs_open_truncated F path w)"

text \<open>\<^verbatim>\<open>i64::div_euclid\<close> panics on zero.\<close>

definition div_euclid :: "int \<Rightarrow> int \<Rightarrow> int option" where
  "div_euclid a b = (if b = 0 then None else Some (if 0 < b then a div b else - (a div (- b))))"

definition open_for ::
    "'w fs \<Rightarrow> chrono \<Rightarrow> calendar \<Rightarrow> destination \<Rightarrow> datetime \<Rightarrow> 'w \<Rightarrow> 'w \<times> (io_error + opened_file)" where
  "open_for F C K self now w = (case self of
       DestStdout \<Rightarrow> (w, Inr \<lparr>op_writer = StdoutWriter, op_pending = None, op_rotate_at = None\<rparr>)
     | DestNull \<Rightarrow> (w, Inr \<lparr>op_writer = NullWriter, op_pending = None, op_rotate_at = None\<rparr>)
     | DestFile path \<Rightarrow>
         (case create_file F path w of
            (w, Some e) \<Rightarrow> (w, Inl e)
          | (w, None) \<Rightarrow> (w, Inr \<lparr>op_writer = FileWriter path, op_pending = None, op_rotate_at = None\<rparr>))
     | DestPartitioned layout interval_secs \<Rightarrow>
         (case div_euclid (ch_timestamp C now) interval_secs of
            None \<Rightarrow> (w, Inl Panicked)
          | Some q \<Rightarrow>
              let window_start = q * interval_secs;
                  stamp = (case ch_from_timestamp C window_start 0 of Some t \<Rightarrow> t | None \<Rightarrow> now);
                  final_path = path_for K layout stamp;
                  tmp = temp_path F final_path
              in case create_file F tmp w of
                   (w, Some e) \<Rightarrow> (w, Inl e)
                 | (w, None) \<Rightarrow>
                     (w, Inr \<lparr>op_writer = FileWriter tmp,
                       op_pending = Some \<lparr>pr_tmp = tmp, pr_final_path = final_path, pr_window = stamp,
                         pr_committed = False\<rparr>,
                       op_rotate_at = Some (window_start + interval_secs)\<rparr>)))"

section \<open>The rotation interval\<close>

text \<open>A \<^verbatim>\<open>Duration\<close> is its seconds and nanoseconds; \<open>False\<close> is an error.\<close>

definition check_interval :: "nat \<times> nat \<Rightarrow> nat option \<Rightarrow> bool" where
  "check_interval interval level =
     (if fst interval = 0 \<and> snd interval = 0 \<or> snd interval \<noteq> 0 then False
      else case level of
        None \<Rightarrow> True
      | Some level \<Rightarrow>
          let period = (if level = 1 then 86400 else if level = 2 then 3600 else LEVEL_3_MINUTES * 60)
          in fst interval dvd period)"

section \<open>Expiry\<close>

text \<open>\<open>ey_max_age\<close> is the seconds of the configured duration after the cast to \<^verbatim>\<open>i64\<close>, which keeps those below \<open>2 ^ 63\<close>. The difference
  from the time now is not bounded here.\<close>

record expiry_config =
  ey_layout :: layout
  ey_max_age :: int
  ey_hook :: bool

record job =
  job_path :: path
  job_window :: datetime

record expiry_outcome =
  eo_removed :: nat
  eo_failures :: nat
  eo_first_failure :: "(path \<times> io_error) option"

definition remove_file :: "'w fs \<Rightarrow> path \<Rightarrow> 'w \<Rightarrow> 'w \<times> io_error option" where
  "remove_file F path w =
     (case fs_remove_file F path w of
        (w, Some NotFound) \<Rightarrow> (w, None)
      | result \<Rightarrow> result)"

fun expire_files ::
    "'w fs \<Rightarrow> expiry_config \<Rightarrow> tree_entry list \<Rightarrow> expiry_outcome \<Rightarrow> job list \<Rightarrow> 'w \<Rightarrow> 'w \<times> expiry_outcome \<times> job list" where
  "expire_files F self [] outcome jobs w = (w, outcome, jobs)"
| "expire_files F self (entry # entries) outcome jobs w =
     (case remove_file F (te_path entry) w of
        (w, None) \<Rightarrow>
          expire_files F self entries (outcome\<lparr>eo_removed := eo_removed outcome + 1\<rparr>)
            (if ey_hook self \<and> \<not> te_temporary entry
             then jobs @ [\<lparr>job_path = te_path entry, job_window = te_window entry\<rparr>] else jobs) w
      | (w, Some e) \<Rightarrow>
          expire_files F self entries
            (outcome\<lparr>eo_failures := eo_failures outcome + 1,
               eo_first_failure := (case eo_first_failure outcome of
                   Some f \<Rightarrow> Some f | None \<Rightarrow> Some (te_path entry, e))\<rparr>) jobs w)"

text \<open>\<^verbatim>\<open>Expiry::run\<close>; the jobs are what the hook is told, in order.\<close>

definition expiry_run ::
    "'w fs \<Rightarrow> chrono \<Rightarrow> calendar \<Rightarrow> expiry_config \<Rightarrow> datetime \<Rightarrow> 'w \<Rightarrow> 'w \<times> expiry_outcome \<times> job list" where
  "expiry_run F C K self now w =
     (let cutoff = ch_timestamp C now - ey_max_age self;
          rng = (Unbounded, Excluded cutoff)
      in case expire_files F self (layout_files C K (ey_layout self) (fs_read_dir F w) rng)
             \<lparr>eo_removed = 0, eo_failures = 0, eo_first_failure = None\<rparr> [] w of
           (w, outcome, jobs) \<Rightarrow>
             (fold (\<lambda>dir w. fst (fs_remove_dir F dir w)) (layout_dirs C K (ey_layout self) (fs_read_dir F w) rng) w,
              outcome, jobs))"

section \<open>A file system\<close>

type_synonym file_list = "(path \<times> bytes) list"

definition fs_delete :: "path \<Rightarrow> file_list \<Rightarrow> file_list" where
  "fs_delete a w = filter (\<lambda>(p, _). p \<noteq> a) w"

definition list_dir :: "file_list \<Rightarrow> read_dir" where
  "list_dir w dir = Some (List.map_filter (\<lambda>(p, _).
       if prefix dir p \<and> length dir < length p
       then Some (Some (p ! length dir, Some (if length p = Suc (length dir) then KindFile else KindDir))) else None) w)"

definition fs_ref :: "file_list fs" where
  "fs_ref =
     \<lparr>fs_hard_link = (\<lambda>a b w. case (map_of w a, map_of w b) of
        (None, _) \<Rightarrow> (w, Some NotFound) | (Some c, None) \<Rightarrow> ((b, c) # w, None) | _ \<Rightarrow> (w, Some AlreadyExists)),
      fs_remove_file = (\<lambda>a w. if map_of w a = None then (w, Some NotFound) else (fs_delete a w, None)),
      fs_remove_dir = (\<lambda>a w. (w, Some OtherError)),
      fs_rename = (\<lambda>a b w. case map_of w a of
        None \<Rightarrow> (w, Some NotFound) | Some c \<Rightarrow> (fs_delete a ((b, c) # w), None)),
      fs_exists = (\<lambda>a w. map_of w a \<noteq> None),
      fs_create_dir_all = (\<lambda>a w. (w, None)),
      fs_open_truncated = (\<lambda>a w. ((a, []) # w, None)),
      fs_read_dir = list_dir, fs_process_id = 4242\<rparr>"

lemma map_of_delete: "map_of (fs_delete a w) = (map_of w)(a := None)"
  by (induction w) (auto simp: fs_delete_def fun_eq_iff)

interpretation fs_ref: fs_spec fs_ref map_of
proof unfold_locales
  fix w dir name
  assume "has_file (fs_read_dir fs_ref w) dir name"
  then have "dir @ [name] \<in> fst ` set w"
    by (force simp: has_file_def fs_ref_def list_dir_def List.map_filter_def prefix_def nth_append length_Suc_conv
        split: if_splits)
  then show "map_of w (dir @ [name]) \<noteq> None"
    by (simp add: map_of_eq_None_iff)
qed (auto simp: fs_ref_def map_of_delete split: option.splits if_splits)

section \<open>Claiming a name\<close>

context fs_spec
begin

lemma rename_claim:
  assumes "claim_by_rename_from F tmp cs w = (w', result)" and "tmp \<notin> set cs"
  shows "case result of
      Inr p \<Rightarrow> p \<in> set cs \<and> files w p = None \<and> files w' = (files w)(p := files w tmp, tmp := None)
    | Inl _ \<Rightarrow> files w' = files w"
  using assms
proof (induction cs)
  case (Cons c cs)
  show ?case
  proof (cases "fs_exists F c w")
    case True
    then show ?thesis using Cons by (auto split: sum.splits)
  next
    case False
    then have "files w c = None" using exists_file by blast
    then show ?thesis
      using Cons.prems False rename_ok [of tmp c w] rename_err [of tmp c w]
      by (auto split: prod.splits option.splits)
  qed
qed auto

lemma claim_outcome:
  assumes "claim_from F tmp wanted cs w = (w', result)" and "set cs \<subseteq> set (candidates wanted)"
    and "tmp \<notin> set (candidates wanted)"
  shows "case result of
      Inr p \<Rightarrow> p \<in> set (candidates wanted) \<and> files w p = None \<and> files w' = (files w)(p := files w tmp, tmp := None)
    | Inl _ \<Rightarrow> files w' = files w \<or>
        (\<exists>p \<in> set (candidates wanted). files w p = None \<and> files w' = (files w)(p := files w tmp))"
  using assms(1,2)
proof (induction cs arbitrary: w)
  case (Cons c cs)
  obtain w1 r where link: "fs_hard_link F tmp c w = (w1, r)" by force
  show ?case
  proof (cases r)
    case None
    obtain w2 r2 where remove: "fs_remove_file F tmp w1 = (w2, r2)" by force
    have "c \<noteq> tmp" using Cons.prems(2) assms(3) by auto
    then show ?thesis
      using Cons.prems link remove None hard_link_ok [of tmp c w w1] remove_file_ok [of tmp w1 w2] remove_file_err [of tmp w1 w2]
      by (cases r2) auto
  next
    case (Some e)
    have same: "files w1 = files w" using hard_link_err link Some by blast
    show ?thesis
    proof (cases "e = AlreadyExists")
      case True
      then have "claim_from F tmp wanted cs w1 = (w', result)"
        using Cons.prems(1) link Some by simp
      moreover have "set cs \<subseteq> set (candidates wanted)" using Cons.prems(2) by simp
      ultimately show ?thesis unfolding same [symmetric] by (rule Cons.IH)
    next
      case False
      then have "claim_by_rename_from F tmp (candidates wanted) w1 = (w', result)"
        using Cons.prems(1) link Some by (simp add: claim_by_rename_def split: io_error.splits)
      from rename_claim [OF this assms(3)] show ?thesis using same by (auto split: sum.splits)
    qed
  qed
qed auto

end

section \<open>The names a window's file may get\<close>

lemma window_name_props:
  "window_name self t number \<noteq> ''..''" "window_name self t number \<noteq> ''/''" "window_name self t number \<noteq> ''.''"
  "window_name self t number \<noteq> []"
proof -
  have "CHR ''-'' \<in> set (window_name self t number)" by (simp add: window_name_def)
  then show "window_name self t number \<noteq> ''..''" "window_name self t number \<noteq> ''/''" "window_name self t number \<noteq> ''.''"
    "window_name self t number \<noteq> []" by auto
qed

lemma window_file_name [simp]:
  "path_file_name (root @ dirs @ [window_name self t number]) = Some (window_name self t number)"
  using window_name_props [of self t number] by (simp add: path_file_name_def)

lemma show_nat_no_slash: "CHR ''/'' \<notin> set (show_nat n)"
  using show_nat_digits [of n] by (auto simp: list_all_iff is_digit_def)

definition window_path :: "layout \<Rightarrow> datetime \<Rightarrow> string \<Rightarrow> path" where
  "window_path self t number = ly_root self @ partition_dirs self t @ [window_name self t number]"

context calendar_spec
begin

lemma window_candidates:
  assumes "layout_ok self" and "four_digit_year t"
  shows "candidates (path_for K self t) =
    window_path self t [] # map (\<lambda>n. window_path self t (''-'' @ show_nat n)) [1..<MAX_NAME_ATTEMPTS]"
proof -
  let ?path = "path_for K self t"
  have name: "path_file_name ?path = Some (window_name self t [])"
    by (simp add: path_for_eq [OF assms])
  have "rsplit_once CHR ''.'' (window_name self t []) = Some (ly_prefix self @ ''-'' @ stamp_of t, ly_extension self)"
    using rsplit_once_at [of "CHR ''.''" "ly_extension self" "ly_prefix self @ ''-'' @ stamp_of t"] assms(1)
    by (simp add: window_name_def layout_ok_def)
  then have "path_stem_extension ?path = Some (ly_prefix self @ ''-'' @ stamp_of t, Some (ly_extension self))"
    by (simp add: path_stem_extension_def name)
  moreover have "with_file_name ?path (window_name self t (''-'' @ show_nat n)) = window_path self t (''-'' @ show_nat n)" for n
  proof -
    have "CHR ''/'' \<notin> set (window_name self t (''-'' @ show_nat n))"
      using assms(1) show_nat_no_slash [of n] by (simp add: window_name_def layout_ok_def)
    then show ?thesis
      using window_name_props [of self t "''-'' @ show_nat n"]
      by (simp add: with_file_name_def name path_push_name path_for_eq [OF assms] window_path_def butlast_append)
  qed
  ultimately show ?thesis
    by (simp add: candidates_def path_for_eq [OF assms] window_path_def window_name_def)
qed

lemma window_temp:
  assumes "layout_ok self" and "four_digit_year t"
  shows "temp_path F (path_for K self t) = ly_root self @ partition_dirs self t @
    [''.'' @ window_name self t [] @ ''.'' @ show_nat (fs_process_id F) @ ''.tmp'']"
proof -
  have "CHR ''/'' \<notin> set (window_name self t [])"
    using assms(1) by (simp add: window_name_def layout_ok_def)
  then show ?thesis
    using show_nat_no_slash [of "fs_process_id F"]
    by (simp add: temp_path_def with_file_name_def path_push_name path_for_eq [OF assms] butlast_append)
qed

lemma temp_not_candidate:
  assumes "layout_ok self" and "four_digit_year t" and "dt_nanos t = 0"
  shows "temp_path F (path_for K self t) \<notin> set (candidates (path_for K self t))"
proof
  assume "temp_path F (path_for K self t) \<in> set (candidates (path_for K self t))"
  then obtain number where number: "numbered number"
    and same: "''.'' @ window_name self t [] @ ''.'' @ show_nat (fs_process_id F) @ ''.tmp'' = window_name self t number"
    unfolding window_candidates [OF assms(1,2)] window_temp [OF assms(1,2)] window_path_def numbered_def by auto
  show False
    using name_of_window(1) [OF assms number] name_of_window(2) [OF assms, of "[]" "fs_process_id F"] same
    by (simp add: numbered_def)
qed

end

section \<open>Properties\<close>

text \<open>C14. A complete file gets a name of its own: it ends up under the name of its window or a numbered one, which
  the collector will recognise, with the content it was written with, and no file that was there
  before is replaced. When it cannot be moved, every file is as before but for a second name
  of the new one, so that its content is never lost.\<close>

theorem committed_file_safe:
  assumes "fs_spec F files" and "calendar_spec K" and "layout_ok self" and "four_digit_year t" and "dt_nanos t = 0"
    and "pr_tmp pending = temp_path F (path_for K self t)" and "pr_final_path pending = path_for K self t"
    and "pending_commit F pending w = (w', result)"
  shows "case result of
      Inr p \<Rightarrow> files w p = None \<and> files w' = (files w)(p := files w (pr_tmp pending), pr_tmp pending := None) \<and>
        (\<exists>number. numbered number \<and> p = window_path self t number)
    | Inl _ \<Rightarrow> files w' = files w \<or> (\<exists>p. files w p = None \<and> files w' = (files w)(p := files w (pr_tmp pending)))"
proof -
  have "claim_from F (pr_tmp pending) (path_for K self t) (candidates (path_for K self t)) w = (w', result)"
    using assms(6-8) by (simp add: pending_commit_def pending_claim_def pending_drop_def claim_final_name_def case_prod_beta)
  moreover have "pr_tmp pending \<notin> set (candidates (path_for K self t))"
    using calendar_spec.temp_not_candidate [OF assms(2-5)] assms(6) by simp
  ultimately have "case result of
      Inr p \<Rightarrow> p \<in> set (candidates (path_for K self t)) \<and> files w p = None \<and>
        files w' = (files w)(p := files w (pr_tmp pending), pr_tmp pending := None)
    | Inl _ \<Rightarrow> files w' = files w \<or>
        (\<exists>p \<in> set (candidates (path_for K self t)). files w p = None \<and> files w' = (files w)(p := files w (pr_tmp pending)))"
    by (intro fs_spec.claim_outcome [OF assms(1)]) auto
  then show ?thesis
    unfolding calendar_spec.window_candidates [OF assms(2-4)]
    by (auto simp: numbered_def split: sum.splits)
qed

definition example_pending :: pending_rename where
  "example_pending = \<lparr>pr_tmp = temp_path fs_ref (path_for calendar_ref example_layout example_time),
     pr_final_path = path_for calendar_ref example_layout example_time, pr_window = example_time, pr_committed = False\<rparr>"

theorem committed_file_safe_witness:
  "\<exists>w'. pending_commit fs_ref example_pending [(pr_tmp example_pending, [1, 2, 3])] = (w', Inr (pr_final_path example_pending)) \<and>
     map_of w' (pr_final_path example_pending) = Some [1, 2, 3] \<and> map_of w' (pr_tmp example_pending) = None"
proof -
  let ?w = "[(pr_tmp example_pending, [1, 2, 3])]"
  have paths: "pr_tmp example_pending = temp_path fs_ref (path_for calendar_ref example_layout example_time)"
    "pr_final_path example_pending = path_for calendar_ref example_layout example_time"
    by (simp_all add: example_pending_def)
  obtain cs where cs: "candidates (pr_final_path example_pending) = pr_final_path example_pending # cs"
    by (simp add: candidates_def Let_def)
  then have differ: "pr_tmp example_pending \<noteq> pr_final_path example_pending"
    using calendar_ref.temp_not_candidate [OF example_layout_ok, of fs_ref] by (simp add: paths(1) flip: paths(2))
  from cs obtain w' where w': "pending_commit fs_ref example_pending ?w = (w', Inr (pr_final_path example_pending))"
    using differ by (simp add: pending_commit_def pending_claim_def pending_drop_def claim_final_name_def fs_ref_def)
  from committed_file_safe [OF fs_ref.fs_spec_axioms calendar_ref.calendar_spec_axioms example_layout_ok paths this]
  show ?thesis using w' differ by simp
qed

section \<open>Windows and directories\<close>

lemma same_quotient:
  fixes s t n k :: int
  assumes "t div n = s div n" and "n dvd k" and "0 < n" and "0 < k"
  shows "t div k = s div k"
proof -
  from assms(2) obtain m where "k = n * m" ..
  then show ?thesis using assms by (simp add: zdiv_zmult2_eq zero_less_mult_iff)
qed

lemma mod_div_eq: "0 < b \<Longrightarrow> 0 < c \<Longrightarrow> x mod (b * c) div b = x div b mod (c :: int)"
  by (simp add: zmod_zmult2_eq)

lemma same_day: "dt_secs a div 86400 = dt_secs b div 86400 \<Longrightarrow>
    dt_year a = dt_year b \<and> dt_month a = dt_month b \<and> dt_day a = dt_day b"
  by (simp add: dt_year_def dt_month_def dt_day_def dt_date_def)

lemma same_hour: "dt_secs a div 3600 = dt_secs b div 3600 \<Longrightarrow> dt_hour a = dt_hour b"
  using mod_div_eq [of 3600 24 "dt_secs a"] mod_div_eq [of 3600 24 "dt_secs b"] by (simp add: dt_hour_def)

lemma same_bucket:
  assumes "dt_secs a div 300 = dt_secs b div 300"
  shows "bucket_of a = bucket_of b"
proof -
  have "int (dt_minute t div 5) = dt_secs t div 300 mod 12" for t
    using mod_div_eq [of 300 12 "dt_secs t"] zdiv_zmult2_eq [of 5 "dt_secs t mod 3600" 60]
    by (simp add: zdiv_int dt_part_ints)
  then have "dt_minute a div 5 = dt_minute b div 5" using assms by (metis of_nat_eq_iff)
  then show ?thesis by (simp add: bucket_of_def)
qed

text \<open>C15. A file is filed under its window, and the window sits inside one directory, so that the directory means what it says: with an
  interval that passes the check, the window a time is opened for is the one of the intervals counted from the epoch that the time lies
  in, up to the next rotation; the final name is that of the start of this window, and what is written goes to the temporary file beside it;
  and every instant of the window belongs in the very directory, under the root, the file goes to.\<close>

theorem window_in_directory:
  assumes "dates_spec C K" and "check_interval (n, 0) (Some (ly_level lay))" and "1 \<le> ly_level lay"
    and "\<bar>dt_secs now\<bar> \<le> 2 ^ 40"
    and "open_for F C K (DestPartitioned lay (int n)) now w = (w', Inr res)"
  shows "\<exists>p r. op_pending res = Some p \<and> op_rotate_at res = Some r \<and>
    pr_window p = DateTime (dt_secs now div int n * int n) 0 \<and> r = dt_secs (pr_window p) + int n \<and>
    dt_secs (pr_window p) \<le> dt_secs now \<and> dt_secs now < r \<and>
    pr_final_path p = path_for K lay (pr_window p) \<and> pr_tmp p = temp_path F (pr_final_path p) \<and>
    create_file F (pr_tmp p) w = (w', None) \<and> op_writer res = FileWriter (pr_tmp p) \<and> \<not> pr_committed p \<and>
    (\<forall>t. dt_secs (pr_window p) \<le> dt_secs t \<and> dt_secs t < r \<longrightarrow>
      partition_dirs lay t = partition_dirs lay (pr_window p) \<and>
      (layout_ok lay \<and> four_digit_year (pr_window p) \<longrightarrow>
        pr_final_path p = ly_root lay @ partition_dirs lay t @ [window_name lay (pr_window p) []]))"
proof -
  define k :: int where "k = (if ly_level lay = 1 then 86400 else if ly_level lay = 2 then 3600 else 300)"
  have n: "0 < int n" "int n dvd k" and "n \<le> 86400"
    using assms(2) int_dvd_int_iff [of n 86400] int_dvd_int_iff [of n 3600] int_dvd_int_iff [of n 300]
    by (auto simp: check_interval_def k_def LEVEL_3_MINUTES_def dest: dvd_imp_le split: if_splits)
  define ws where "ws = dt_secs now div int n * int n"
  have ws: "ws \<le> dt_secs now" "dt_secs now < ws + int n"
    using div_mult_mod_eq [of "dt_secs now" "int n"] pos_mod_sign [OF n(1), of "dt_secs now"]
      pos_mod_bound [OF n(1), of "dt_secs now"] unfolding ws_def by linarith+
  have "ch_from_timestamp C ws 0 = Some (DateTime ws 0)"
    using chrono_spec.from_timestamp_spec [OF dates_spec.axioms(1) [OF assms(1)], of ws 0] ws assms(4) \<open>n \<le> 86400\<close>
    by (simp add: abs_le_iff)
  moreover have "ch_timestamp C now = dt_secs now"
    using chrono_spec.timestamp_spec [OF dates_spec.axioms(1) [OF assms(1)]] .
  ultimately have opened: "op_rotate_at res = Some (ws + int n)"
      "\<exists>p. op_pending res = Some p \<and> pr_window p = DateTime ws 0 \<and> pr_final_path p = path_for K lay (pr_window p) \<and>
        pr_tmp p = temp_path F (pr_final_path p) \<and> create_file F (pr_tmp p) w = (w', None) \<and>
        op_writer res = FileWriter (pr_tmp p) \<and> \<not> pr_committed p"
    using assms(5) n(1) by (auto simp: open_for_def div_euclid_def Let_def ws_def split: prod.splits option.splits)
  have "partition_dirs lay t = partition_dirs lay (DateTime ws 0)" if "ws \<le> dt_secs t" "dt_secs t < ws + int n" for t
  proof -
    have "dt_secs t div int n = ws div int n"
      using int_div_pos_eq [of "dt_secs t" "int n" "dt_secs now div int n" "dt_secs t - ws"] that n(1)
      by (simp add: ws_def mult.commute)
    then have q: "dt_secs t div j = dt_secs (DateTime ws 0) div j" if "k dvd j" "0 < j" for j
      unfolding datetime.sel by (rule same_quotient) (use dvd_trans [OF n(2)] n(1) that in auto)
    have day: "dt_year t = dt_year (DateTime ws 0) \<and> dt_month t = dt_month (DateTime ws 0) \<and> dt_day t = dt_day (DateTime ws 0)"
      by (rule same_day [OF q]) (simp_all add: k_def)
    have hour: "dt_hour t = dt_hour (DateTime ws 0)" if "ly_level lay \<noteq> 1"
      by (rule same_hour [OF q]) (use that in \<open>simp_all add: k_def\<close>)
    have bucket: "bucket_of t = bucket_of (DateTime ws 0)" if "ly_level lay \<noteq> 1" "ly_level lay \<noteq> 2"
      by (rule same_bucket [OF q]) (use that in \<open>simp_all add: k_def\<close>)
    have "ly_level lay = 1 \<or> ly_level lay = 2 \<or> 3 \<le> ly_level lay" using assms(3) by linarith
    then show ?thesis
      using day hour bucket
      by (cases "ly_partitioning lay"; elim disjE)
        (simp_all add: partition_dirs_def partition_depth_def partition_names_def)
  qed
  note dirs = this
  obtain p where p: "op_pending res = Some p" "pr_window p = DateTime ws 0" "pr_final_path p = path_for K lay (pr_window p)"
    "pr_tmp p = temp_path F (pr_final_path p)" "create_file F (pr_tmp p) w = (w', None)" "op_writer res = FileWriter (pr_tmp p)" "\<not> pr_committed p" using opened(2) by blast
  show ?thesis
  proof (intro exI conjI allI impI)
    fix t assume t: "dt_secs (pr_window p) \<le> dt_secs t \<and> dt_secs t < ws + int n"
    then show dirs_t: "partition_dirs lay t = partition_dirs lay (pr_window p)"
      unfolding p(2) by (intro dirs) simp_all
    assume "layout_ok lay \<and> four_digit_year (pr_window p)"
    then show "pr_final_path p = ly_root lay @ partition_dirs lay t @ [window_name lay (pr_window p) []]"
      using calendar_spec.path_for_eq [OF dates_spec.axioms(2) [OF assms(1)], of lay "pr_window p"] dirs_t p(3) by simp
  qed (use p opened(1) ws in \<open>simp_all add: ws_def\<close>)
qed

lemma create_ref: "create_file fs_ref path w = ((path, []) # w, None)"
  by (simp add: create_file_def fs_ref_def split: option.split)

theorem window_in_directory_witness:
  "\<exists>w' res. open_for fs_ref chrono_ref calendar_ref (DestPartitioned example_layout 300) example_time [] = (w', Inr res) \<and>
    (\<exists>p r. op_pending res = Some p \<and> op_rotate_at res = Some r \<and> dt_secs example_time < r \<and>
      pr_window p = example_time \<and> r = 1787832600 \<and>
      (\<forall>t. 1787832300 \<le> dt_secs t \<and> dt_secs t < 1787832600 \<longrightarrow>
        pr_final_path p = [''out''] @ partition_dirs example_layout t @ [window_name example_layout example_time []]))"
proof -
  obtain w' res where o: "open_for fs_ref chrono_ref calendar_ref (DestPartitioned example_layout (int 300)) example_time [] = (w', Inr res)"
    by (simp add: open_for_def div_euclid_def Let_def create_ref)
  moreover have "check_interval (300, 0) (Some (ly_level example_layout))" "1 \<le> ly_level example_layout"
    "\<bar>dt_secs example_time\<bar> \<le> 2 ^ 40"
    by (simp_all add: check_interval_def example_layout_def example_time_def LEVEL_3_MINUTES_def)
  from window_in_directory [OF dates_ref.dates_spec_axioms this o]
  obtain p r where p: "op_pending res = Some p" "op_rotate_at res = Some r" "r = dt_secs (pr_window p) + int 300"
    "pr_window p = DateTime (dt_secs example_time div int 300 * int 300) 0" "dt_secs example_time < r"
    and dirs: "\<forall>t. dt_secs (pr_window p) \<le> dt_secs t \<and> dt_secs t < r \<longrightarrow>
      partition_dirs example_layout t = partition_dirs example_layout (pr_window p) \<and>
      (layout_ok example_layout \<and> four_digit_year (pr_window p) \<longrightarrow>
        pr_final_path p = ly_root example_layout @ partition_dirs example_layout t @ [window_name example_layout (pr_window p) []])"
    by blast
  have time: "pr_window p = example_time" "dt_secs example_time = 1787832300" "ly_root example_layout = [''out'']"
    using p(4) by (simp_all add: example_time_def example_layout_def)
  then have r: "r = 1787832600" using p(3) by simp
  have "pr_final_path p = [''out''] @ partition_dirs example_layout t @ [window_name example_layout example_time []]"
    if "1787832300 \<le> dt_secs t \<and> dt_secs t < 1787832600" for t
    using dirs [rule_format, of t] that example_layout_ok unfolding time r by blast
  then show ?thesis using o p(1,2,5) time(1) r by (metis of_nat_numeral)
qed

section \<open>Sweeping old files\<close>

definition job_of :: "tree_entry \<Rightarrow> job" where
  "job_of entry = \<lparr>job_path = te_path entry, job_window = te_window entry\<rparr>"

context fs_spec
begin

lemma remove_file_files:
  assumes "remove_file F p w = (w', r)"
  shows "files w' = (if r = None then (files w)(p := None) else files w)"
proof -
  obtain w1 r1 where r1: "fs_remove_file F p w = (w1, r1)" by force
  show ?thesis
    using assms r1 remove_file_ok [of p w w1] remove_file_err [of p w w1] remove_file_not_found [of p w w1]
    by (cases r1) (auto simp: remove_file_def fun_upd_idem split: io_error.splits)
qed

lemma expire_files_effect:
  assumes "expire_files F self es outcome jobs w = (w', outcome', jobs')"
  shows "(\<forall>p. p \<notin> te_path ` set es \<longrightarrow> files w' p = files w p) \<and>
    eo_removed outcome' + eo_failures outcome' = eo_removed outcome + eo_failures outcome + length es \<and>
    eo_failures outcome \<le> eo_failures outcome' \<and>
    (eo_failures outcome' = eo_failures outcome \<longrightarrow> (\<forall>e \<in> set es. files w' (te_path e) = None) \<and>
      jobs' = jobs @ (if ey_hook self then map job_of (filter (\<lambda>e. \<not> te_temporary e) es) else []))"
  using assms
proof (induction es arbitrary: outcome jobs w)
  case (Cons e es)
  obtain w1 r where r: "remove_file F (te_path e) w = (w1, r)" by force
  note files1 = remove_file_files [OF r]
  show ?case
  proof (cases r)
    case None
    then have rest: "expire_files F self es (outcome\<lparr>eo_removed := eo_removed outcome + 1\<rparr>)
        (if ey_hook self \<and> \<not> te_temporary e then jobs @ [job_of e] else jobs) w1 = (w', outcome', jobs')"
      using Cons.prems r unfolding job_of_def by simp
    have "files w' (te_path e) = None"
      if "\<forall>e \<in> set es. files w' (te_path e) = None" "\<forall>p. p \<notin> te_path ` set es \<longrightarrow> files w' p = files w1 p"
      using that files1 None by (cases "te_path e \<in> te_path ` set es") auto
    then show ?thesis using Cons.IH [OF rest] files1 None by auto
  next
    case (Some err)
    then obtain outcome1 where "expire_files F self es outcome1 jobs w1 = (w', outcome', jobs')"
      and "eo_removed outcome1 = eo_removed outcome" "eo_failures outcome1 = eo_failures outcome + 1"
      using Cons.prems r by force
    then show ?thesis using Cons.IH [of outcome1 jobs w1] files1 Some by auto
  qed
qed simp

lemma remove_dirs_files: "files (fold (\<lambda>dir w. fst (fs_remove_dir F dir w)) dirs w) = files w"
  by (induction dirs arbitrary: w) (simp_all add: remove_dir_files)

end

text \<open>C16. A sweep removes the old files of the tree and nothing else: a file it does not list as older than the maximal
  age stays as it is, every listed one is either removed or counted as a failure, and without a failure all of
  them are gone and the command is told of each complete one, in order.\<close>

theorem sweep_removes_old:
  assumes "dates_spec C K" and "fs_spec F files" and "expiry_run F C K self now w = (w', outcome, jobs)"
  shows "let old = layout_files C K (ey_layout self) (fs_read_dir F w) (Unbounded, Excluded (dt_secs now - ey_max_age self)) in
    (\<forall>e \<in> set old. dt_secs (te_window e) < dt_secs now - ey_max_age self \<and> files w (te_path e) \<noteq> None) \<and>
    (\<forall>p. p \<notin> te_path ` set old \<longrightarrow> files w' p = files w p) \<and>
    eo_removed outcome + eo_failures outcome = length old \<and>
    (eo_failures outcome = 0 \<longrightarrow> (\<forall>e \<in> set old. files w' (te_path e) = None) \<and>
      jobs = (if ey_hook self then map job_of (filter (\<lambda>e. \<not> te_temporary e) old) else []))"
proof -
  let ?rng = "(Unbounded, Excluded (dt_secs now - ey_max_age self))"
  let ?old = "layout_files C K (ey_layout self) (fs_read_dir F w) ?rng"
  have "ch_timestamp C now = dt_secs now"
    using chrono_spec.timestamp_spec [OF dates_spec.axioms(1) [OF assms(1)]] .
  then obtain w1 where run: "expire_files F self ?old \<lparr>eo_removed = 0, eo_failures = 0, eo_first_failure = None\<rparr> [] w =
      (w1, outcome, jobs)" and "files w' = files w1"
    using assms(3) fs_spec.remove_dirs_files [OF assms(2)]
    by (auto simp: expiry_run_def Let_def split: prod.splits)
  moreover have "dt_secs (te_window e) < dt_secs now - ey_max_age self \<and> files w (te_path e) \<noteq> None" if "e \<in> set ?old" for e
    using that fs_spec.read_dir_file [OF assms(2)] unfolding dates_spec.files_iff [OF assms(1)]
    by (auto simp: range_contains_def simp flip: append_assoc)
  ultimately show ?thesis
    using fs_spec.expire_files_effect [OF assms(2) run] unfolding Let_def by simp
qed

text \<open>A tree with one old file and a file that is none of its own.\<close>

definition example_files :: file_list where
  "example_files = [([''out'', ''date=2026-08-27'', ''hour=12'', ''minute=05'', ''flows-20260827T120500Z.parquet''], [7]),
     ([''out'', ''notes''], [8])]"

theorem sweep_removes_old_witness:
  "\<exists>w' outcome jobs. expiry_run fs_ref chrono_ref calendar_ref
      \<lparr>ey_layout = example_layout, ey_max_age = 86400, ey_hook = True\<rparr> (DateTime 1788000000 0) example_files = (w', outcome, jobs) \<and>
    map_of w' [''out'', ''notes''] = Some [8]"
proof -
  let ?self = "\<lparr>ey_layout = example_layout, ey_max_age = 86400, ey_hook = True\<rparr>"
  obtain w' outcome jobs where run: "expiry_run fs_ref chrono_ref calendar_ref ?self (DateTime 1788000000 0) example_files = (w', outcome, jobs)"
    by (metis prod_cases3)
  have "[''out'', ''notes''] \<notin> te_path ` set (layout_files chrono_ref calendar_ref example_layout (fs_read_dir fs_ref example_files) rng)"
    for rng
  proof
    assume "[''out'', ''notes''] \<in> te_path ` set (layout_files chrono_ref calendar_ref example_layout (fs_read_dir fs_ref example_files) rng)"
    then obtain e where e: "te_path e = [''out'', ''notes'']"
      "e \<in> set (layout_files chrono_ref calendar_ref example_layout (fs_read_dir fs_ref example_files) rng)"
      by auto
    from e(2) [unfolded dates_ref.files_iff] obtain ds name
      where "layout_name calendar_ref example_layout name = Some (te_window e, te_temporary e)"
        "te_path e = ly_root example_layout @ ds @ [name]" by blast
    moreover have "layout_name calendar_ref example_layout ''notes'' = None" by code_simp
    ultimately show False using e(1) by (cases ds) (auto simp: example_layout_def)
  qed
  moreover have "map_of example_files [''out'', ''notes''] = Some [8]" by (simp add: example_files_def)
  ultimately show ?thesis
    using sweep_removes_old [OF dates_ref.dates_spec_axioms fs_ref.fs_spec_axioms run] run by (auto simp: Let_def)
qed

end
