(* ===== verification/Hook.thy ===== *)
theory Hook
  imports Destination
begin

text \<open>
  The command run for every completed or removed file (\<^verbatim>\<open>rustflow_collect/src/sink/hook.rs\<close>): the expansion of its
  placeholders and the launcher that starts the commands and reaps them.

  Processes are a parameter, \<open>process_ops\<close>: starting a command, which gives a child or fails, and asking a child whether it has
  exited. \<open>process_spec\<close> says that no child runs for ever: \<open>patience\<close> bounds how often it is still found running. What the thread
  receives is a list, \<open>None\<close> for a wait that timed out, which ends where the sender is gone; the loop that follows has fuel.
  \<open>la_spawned\<close> keeps the commands that were started, for the statements. Splitting a command at white space is a parameter,
  and paths are shown with slashes between their parts.

  Shown: every job's command is started, once and in order, at most \<open>MAX_RUNNING\<close> of them at a time, and the launcher ends when the
  last has exited, each counted as completed or failed.
\<close>

definition MAX_RUNNING :: nat where
  "MAX_RUNNING = 8"

section \<open>Placeholders\<close>

fun check_placeholders :: "string \<Rightarrow> bool" where
  "check_placeholders [] = True"
| "check_placeholders (c # cs) =
     (if c = CHR ''%'' then
        (case cs of [] \<Rightarrow> False | d # ds \<Rightarrow> d \<in> {CHR ''f'', CHR ''p'', CHR ''t'', CHR ''u'', CHR ''%''} \<and> check_placeholders ds)
      else check_placeholders cs)"

fun join_slash :: "string list \<Rightarrow> string" where
  "join_slash [] = []"
| "join_slash [c] = c"
| "join_slash (c # cs) = c @ ''/'' @ join_slash cs"

definition path_display :: "path \<Rightarrow> string" where
  "path_display p = (if p \<noteq> [] \<and> hd p = ''/'' then ''/'' @ join_slash (tl p) else join_slash p)"

definition show_int :: "int \<Rightarrow> string" where
  "show_int i = (if i < 0 then ''-'' @ show_nat (nat (- i)) else show_nat (nat i))"

definition expand_char :: "chrono \<Rightarrow> calendar \<Rightarrow> job \<Rightarrow> path \<Rightarrow> char option \<Rightarrow> string" where
  "expand_char C K job root c =
     (if c = Some (CHR ''f'') then path_display (job_path job)
      else if c = Some (CHR ''p'') then
        path_display (case path_strip_prefix root (job_path job) of Some relative \<Rightarrow> relative | None \<Rightarrow> job_path job)
      else if c = Some (CHR ''t'') then cal_format K STAMP_FORMAT (job_window job)
      else if c = Some (CHR ''u'') then show_int (ch_timestamp C (job_window job))
      else ''%'')"

fun expand :: "chrono \<Rightarrow> calendar \<Rightarrow> string \<Rightarrow> job \<Rightarrow> path \<Rightarrow> string" where
  "expand C K [] job root = []"
| "expand C K (c # cs) job root =
     (if c \<noteq> CHR ''%'' then c # expand C K cs job root
      else case cs of
        [] \<Rightarrow> expand_char C K job root None
      | d # ds \<Rightarrow> expand_char C K job root (Some d) @ expand C K ds job root)"

section \<open>The launcher\<close>

datatype wait_result = StillRunning | Exited bool | WaitFailed

record 'w process_ops =
  ps_spawn :: "string list \<Rightarrow> 'w \<Rightarrow> 'w \<times> nat option"
  ps_try_wait :: "nat \<Rightarrow> 'w \<Rightarrow> 'w \<times> wait_result"

record hook_metrics =
  hm_running :: int
  hm_completed :: nat
  hm_errors :: nat

record launcher =
  la_words :: "string list"
  la_root :: path
  la_metrics :: hook_metrics
  la_pending :: "job list"
  la_running :: "(nat \<times> path) list"
  la_spawned :: "string list list"

definition launcher_new :: "string list \<Rightarrow> path \<Rightarrow> hook_metrics \<Rightarrow> launcher" where
  "launcher_new words root metrics = \<lparr>la_words = words, la_root = root, la_metrics = metrics, la_pending = [],
     la_running = [], la_spawned = []\<rparr>"

text \<open>\<^verbatim>\<open>FileHook::spawn\<close>: \<open>None\<close> refuses the command.\<close>

definition hook_spawn :: "(string \<Rightarrow> string list) \<Rightarrow> string \<Rightarrow> path \<Rightarrow> hook_metrics \<Rightarrow> launcher option" where
  "hook_spawn split_whitespace command root metrics =
     (let words = split_whitespace command in
      if words = [] then None
      else if list_ex (\<lambda>w. \<not> check_placeholders w) words then None
      else Some (launcher_new words root metrics))"

definition arguments :: "chrono \<Rightarrow> calendar \<Rightarrow> launcher \<Rightarrow> job \<Rightarrow> string list" where
  "arguments C K self job =
     (let args = map (\<lambda>w. expand C K w job (la_root self)) (la_words self) in
      if \<not> list_ex (\<lambda>w. CHR ''%'' \<in> set w) (la_words self) then args @ [path_display (job_path job)] else args)"

fun start_jobs ::
    "'w process_ops \<Rightarrow> chrono \<Rightarrow> calendar \<Rightarrow> job list \<Rightarrow> launcher \<Rightarrow> 'w \<Rightarrow> launcher \<times> 'w" where
  "start_jobs P C K [] self w = (self\<lparr>la_pending := []\<rparr>, w)"
| "start_jobs P C K (job # jobs) self w =
     (if length (la_running self) < MAX_RUNNING then
        (let args = arguments C K self job; self = self\<lparr>la_spawned := la_spawned self @ [args]\<rparr> in
         case ps_spawn P args w of
           (w, Some child) \<Rightarrow>
             start_jobs P C K jobs (self\<lparr>la_metrics := (la_metrics self)\<lparr>hm_running := hm_running (la_metrics self) + 1\<rparr>,
               la_running := la_running self @ [(child, job_path job)]\<rparr>) w
         | (w, None) \<Rightarrow>
             start_jobs P C K jobs (self\<lparr>la_metrics := (la_metrics self)\<lparr>hm_errors := hm_errors (la_metrics self) + 1\<rparr>\<rparr>) w)
      else (self\<lparr>la_pending := job # jobs\<rparr>, w))"

definition start_pending :: "'w process_ops \<Rightarrow> chrono \<Rightarrow> calendar \<Rightarrow> launcher \<Rightarrow> 'w \<Rightarrow> launcher \<times> 'w" where
  "start_pending P C K self w = start_jobs P C K (la_pending self) self w"

text \<open>\<^verbatim>\<open>reap\<close>: what \<^verbatim>\<open>retain_mut\<close> keeps and the metrics.\<close>

fun reap_children ::
    "'w process_ops \<Rightarrow> (nat \<times> path) list \<Rightarrow> hook_metrics \<Rightarrow> 'w \<Rightarrow> (nat \<times> path) list \<times> hook_metrics \<times> 'w" where
  "reap_children P [] m w = ([], m, w)"
| "reap_children P ((child, path) # cs) m w = (case ps_try_wait P child w of
       (w, StillRunning) \<Rightarrow> (case reap_children P cs m w of (kept, m, w) \<Rightarrow> ((child, path) # kept, m, w))
     | (w, Exited success) \<Rightarrow>
         let m = m\<lparr>hm_running := hm_running m - 1\<rparr>
         in reap_children P cs (if success then m\<lparr>hm_completed := hm_completed m + 1\<rparr> else m\<lparr>hm_errors := hm_errors m + 1\<rparr>) w
     | (w, WaitFailed) \<Rightarrow> reap_children P cs (m\<lparr>hm_running := hm_running m - 1, hm_errors := hm_errors m + 1\<rparr>) w)"

definition reap :: "'w process_ops \<Rightarrow> launcher \<Rightarrow> 'w \<Rightarrow> launcher \<times> 'w" where
  "reap P self w = (case reap_children P (la_running self) (la_metrics self) w of
     (kept, m, w) \<Rightarrow> (self\<lparr>la_running := kept, la_metrics := m\<rparr>, w))"

definition launcher_turn :: "'w process_ops \<Rightarrow> chrono \<Rightarrow> calendar \<Rightarrow> job option \<Rightarrow> launcher \<times> 'w \<Rightarrow> launcher \<times> 'w" where
  "launcher_turn P C K received st = (case st of (self, w) \<Rightarrow>
     let self = (case received of Some job \<Rightarrow> self\<lparr>la_pending := la_pending self @ [job]\<rparr> | None \<Rightarrow> self)
     in case reap P self w of (self, w) \<Rightarrow> start_pending P C K self w)"

fun launcher_shutdown ::
    "'w process_ops \<Rightarrow> chrono \<Rightarrow> calendar \<Rightarrow> nat \<Rightarrow> launcher \<times> 'w \<Rightarrow> (launcher \<times> 'w) option" where
  "launcher_shutdown P C K fuel (self, w) =
     (if la_pending self = [] \<and> la_running self = [] then Some (self, w)
      else case fuel of
        0 \<Rightarrow> None
      | Suc fuel \<Rightarrow> (case start_pending P C K self w of (self, w) \<Rightarrow> launcher_shutdown P C K fuel (reap P self w)))"

definition launcher_run ::
    "'w process_ops \<Rightarrow> chrono \<Rightarrow> calendar \<Rightarrow> job option list \<Rightarrow> nat \<Rightarrow> launcher \<times> 'w \<Rightarrow> (launcher \<times> 'w) option" where
  "launcher_run P C K received fuel st = launcher_shutdown P C K fuel (fold (launcher_turn P C K) received st)"

section \<open>Processes that end\<close>

locale process_spec =
  fixes P :: "'w process_ops" and patience :: "'w \<Rightarrow> nat \<Rightarrow> nat"
  assumes still_running: "ps_try_wait P child w = (w', StillRunning) \<Longrightarrow> patience w' child < patience w child"
    and wait_patience: "ps_try_wait P child w = (w', r) \<Longrightarrow> patience w' other \<le> patience w other"
begin

definition waits :: "(nat \<times> path) list \<Rightarrow> 'w \<Rightarrow> nat" where
  "waits cs w = (\<Sum>(child, path) \<leftarrow> cs. Suc (patience w child))"

lemma waits_less: "(\<And>c. patience w' c \<le> patience w c) \<Longrightarrow> waits cs w' \<le> waits cs w"
  by (induction cs) (auto simp: waits_def intro!: add_mono split: prod.splits)

lemma reap_patience: "reap_children P cs m w = (kept, m', w') \<Longrightarrow> patience w' other \<le> patience w other"
proof (induction cs arbitrary: m w kept)
  case (Cons c cs)
  obtain child path where c: "c = (child, path)" by force
  obtain w1 r where wait: "ps_try_wait P child w = (w1, r)" by force
  have "patience w' other \<le> patience w1 other"
    using Cons.prems Cons.IH c wait by (cases r) (auto simp: Let_def split: prod.splits if_splits)
  then show ?case using wait_patience [OF wait, of other] by simp
qed simp

lemma reap_waits:
  assumes "reap_children P cs m w = (kept, m', w')"
  shows "waits kept w' + length cs \<le> waits cs w"
  using assms
proof (induction cs arbitrary: m w kept)
  case (Cons c cs)
  obtain child path where c: "c = (child, path)" by force
  obtain w1 r where wait: "ps_try_wait P child w = (w1, r)" by force
  have rest: "waits cs w1 \<le> waits cs w" by (rule waits_less) (rule wait_patience [OF wait])
  have len: "waits (c # cs) w = Suc (patience w child) + waits cs w" by (simp add: waits_def c)
  show ?case
  proof (cases r)
    case StillRunning
    obtain kept1 where more: "reap_children P cs m w1 = (kept1, m', w')" and kept: "kept = (child, path) # kept1"
      using Cons.prems c wait StillRunning by (auto split: prod.splits)
    have "patience w' child < patience w child"
      using reap_patience [OF more, of child] still_running [of child w w1] wait StillRunning by simp
    then show ?thesis using Cons.IH [OF more] rest len by (simp add: waits_def kept)
  next
    case (Exited success)
    then show ?thesis using Cons.prems c wait Cons.IH rest len by (fastforce simp: Let_def)
  next
    case WaitFailed
    then show ?thesis using Cons.prems c wait Cons.IH rest len by fastforce
  qed
qed (simp add: waits_def)

end

section \<open>Accounts\<close>

text \<open>\<open>jobs\<close> is what the launcher has been handed: its first jobs were started in order, the others wait; every command started
  is running, completed or failed, and the gauge counts those that run.\<close>

definition launcher_ok :: "chrono \<Rightarrow> calendar \<Rightarrow> launcher \<Rightarrow> job list \<Rightarrow> launcher \<Rightarrow> bool" where
  "launcher_ok C K start jobs self \<longleftrightarrow> la_words self = la_words start \<and> la_root self = la_root start \<and>
     length (la_running self) \<le> MAX_RUNNING \<and> la_spawned self @ map (arguments C K start) (la_pending self) = map (arguments C K start) jobs \<and>
     hm_running (la_metrics self) = hm_running (la_metrics start) + int (length (la_running self)) \<and>
     hm_completed (la_metrics self) + hm_errors (la_metrics self) + length (la_running self) =
       hm_completed (la_metrics start) + hm_errors (la_metrics start) + length (la_spawned self)"

lemma arguments_cong: "la_words a = la_words b \<Longrightarrow> la_root a = la_root b \<Longrightarrow> arguments C K a = arguments C K b"
  by (simp add: arguments_def fun_eq_iff)

lemma start_jobs_ok:
  assumes "start_jobs P C K queue self w = (self', w')" and "launcher_ok C K start jobs (self\<lparr>la_pending := queue\<rparr>)"
  shows "launcher_ok C K start jobs self' \<and> (la_pending self' = [] \<or> length (la_running self') = MAX_RUNNING) \<and>
    (length (la_pending self') < length queue \<or> la_pending self' = queue \<and> la_running self' = la_running self \<and> w' = w)"
  using assms
proof (induction queue arbitrary: self w)
  case (Cons job queue)
  show ?case
  proof (cases "length (la_running self) < MAX_RUNNING")
    case True
    define args where "args = arguments C K self job"
    have args: "args = arguments C K start job"
      using Cons.prems(2) arguments_cong [of self start C K] by (simp add: args_def launcher_ok_def)
    obtain w1 r where spawn: "ps_spawn P args w = (w1, r)" by force
    define mid where "mid = (let s = self\<lparr>la_spawned := la_spawned self @ [args]\<rparr> in case r of
        Some child \<Rightarrow> s\<lparr>la_metrics := (la_metrics s)\<lparr>hm_running := hm_running (la_metrics s) + 1\<rparr>,
          la_running := la_running s @ [(child, job_path job)]\<rparr>
      | None \<Rightarrow> s\<lparr>la_metrics := (la_metrics s)\<lparr>hm_errors := hm_errors (la_metrics s) + 1\<rparr>\<rparr>)"
    have "start_jobs P C K queue mid w1 = (self', w')"
      using Cons.prems(1) True spawn by (auto simp: Let_def args_def mid_def split: option.splits)
    moreover have "launcher_ok C K start jobs (mid\<lparr>la_pending := queue\<rparr>)"
      using Cons.prems(2) True args by (auto simp: launcher_ok_def mid_def Let_def split: option.splits)
    ultimately show ?thesis using Cons.IH [of mid w1] by auto
  next
    case False
    then show ?thesis using Cons.prems by (auto simp: launcher_ok_def)
  qed
qed (auto simp: launcher_ok_def)

lemma reap_children_counts:
  assumes "reap_children P cs m w = (kept, m', w')"
  shows "length kept \<le> length cs \<and> hm_running m' - int (length kept) = hm_running m - int (length cs) \<and>
    hm_completed m' + hm_errors m' + length kept = hm_completed m + hm_errors m + length cs"
  using assms
proof (induction cs arbitrary: m w kept)
  case (Cons c cs)
  obtain child path where c: "c = (child, path)" by force
  obtain w1 r where "ps_try_wait P child w = (w1, r)" by force
  then show ?case using Cons c by (cases r) (fastforce simp: Let_def split: prod.splits if_splits)+
qed simp

lemma reap_ok:
  assumes "reap P self w = (self', w')" and "launcher_ok C K start jobs self"
  shows "launcher_ok C K start jobs self' \<and> la_pending self' = la_pending self"
proof -
  obtain kept m where kept: "reap_children P (la_running self) (la_metrics self) w = (kept, m, w')"
    and self': "self' = self\<lparr>la_running := kept, la_metrics := m\<rparr>"
    using assms(1) by (auto simp: reap_def split: prod.splits)
  show ?thesis using reap_children_counts [OF kept] assms(2) by (auto simp: launcher_ok_def self')
qed

lemma launcher_turn_ok:
  assumes "launcher_ok C K start jobs self"
  shows "launcher_ok C K start (jobs @ (case received of Some job \<Rightarrow> [job] | None \<Rightarrow> [])) (fst (launcher_turn P C K received (self, w)))"
proof -
  define mid where "mid = (case received of Some job \<Rightarrow> self\<lparr>la_pending := la_pending self @ [job]\<rparr> | None \<Rightarrow> self)"
  have ok: "launcher_ok C K start (jobs @ (case received of Some job \<Rightarrow> [job] | None \<Rightarrow> [])) mid" (is "launcher_ok _ _ _ ?jobs _")
    using assms by (cases received) (simp_all add: launcher_ok_def mid_def flip: append_assoc)
  obtain s1 w1 where reaped: "reap P mid w = (s1, w1)" by force
  obtain s2 w2 where started: "start_jobs P C K (la_pending s1) s1 w1 = (s2, w2)" by force
  have "launcher_ok C K start ?jobs (s1\<lparr>la_pending := la_pending s1\<rparr>)" using conjunct1 [OF reap_ok [OF reaped ok]] by simp
  from start_jobs_ok [OF started this] show ?thesis
    using reaped started by (simp add: launcher_turn_def mid_def start_pending_def)
qed

definition received_jobs :: "job option list \<Rightarrow> job list" where
  "received_jobs received = List.map_filter id received"

lemma launcher_turns_ok:
  assumes "launcher_ok C K start jobs (fst st)"
  shows "launcher_ok C K start (jobs @ received_jobs received) (fst (fold (launcher_turn P C K) received st))"
  using assms
proof (induction received arbitrary: jobs st)
  case (Cons r received)
  from Cons.IH [OF launcher_turn_ok [OF Cons.prems, of r P "snd st"]] show ?case
    by (cases r) (simp_all add: received_jobs_def List.map_filter_def)
qed (simp add: received_jobs_def List.map_filter_def)

context process_spec
begin

lemma shutdown_ends:
  assumes "launcher_ok C K start jobs self"
  shows "\<exists>fuel self' w'. launcher_shutdown P C K fuel (self, w) = Some (self', w') \<and> launcher_ok C K start jobs self' \<and>
    la_pending self' = [] \<and> la_running self' = []"
  using assms
proof (induction "(length (la_pending self), waits (la_running self) w)" arbitrary: self w rule: wf_induct_rule [OF wf_lex_prod [OF wf_less_than wf_less_than]])
  case (1 self w)
  show ?case
  proof (cases "la_pending self = [] \<and> la_running self = []")
    case True
    then have "launcher_shutdown P C K 0 (self, w) = Some (self, w)" by simp
    then show ?thesis using 1(2) True by blast
  next
    case False
    obtain s1 w1 where started: "start_jobs P C K (la_pending self) self w = (s1, w1)" by force
    obtain s2 w2 where reaped: "reap P s1 w1 = (s2, w2)" by force
    have ok: "launcher_ok C K start jobs (self\<lparr>la_pending := la_pending self\<rparr>)" using 1(2) by simp
    note s1 = start_jobs_ok [OF started ok]
    note s2 = reap_ok [OF reaped conjunct1 [OF s1]]
    have less: "((length (la_pending s2), waits (la_running s2) w2), (length (la_pending self), waits (la_running self) w))
        \<in> less_than <*lex*> less_than"
    proof (cases "length (la_pending s1) < length (la_pending self)")
      case True
      then show ?thesis using s2 by simp
    next
      case same: False
      then have "la_running s1 \<noteq> []" using s1 False by (auto simp: MAX_RUNNING_def)
      moreover obtain kept m where "reap_children P (la_running s1) (la_metrics s1) w1 = (kept, m, w2)" "la_running s2 = kept"
        using reaped by (auto simp: reap_def split: prod.splits)
      ultimately have "waits (la_running s2) w2 < waits (la_running s1) w1"
        using reap_waits [of "la_running s1" "la_metrics s1" w1 kept m w2] by (cases "la_running s1") auto
      then show ?thesis using same s1 s2 by auto
    qed
    from 1(1) [OF less] s2 obtain fuel self' w' where "launcher_shutdown P C K fuel (s2, w2) = Some (self', w')"
      "launcher_ok C K start jobs self'" "la_pending self' = []" "la_running self' = []" by blast
    then have "launcher_shutdown P C K (Suc fuel) (self, w) = Some (self', w')"
      using False started reaped
      by (auto simp: start_pending_def launcher_shutdown.simps [of P C K "Suc fuel" self w] simp del: launcher_shutdown.simps)
    then show ?thesis using \<open>launcher_ok C K start jobs self'\<close> \<open>la_pending self' = []\<close> \<open>la_running self' = []\<close> by blast
  qed
qed

end

text \<open>C8. The launcher ends and has run everything: whatever the queue's timing, once the sender is gone it starts what still
  waits, in order and each job once, and returns when the last command has exited; then the gauge is back where it was, and
  every command started is counted as completed or failed. Until then at most \<open>MAX_RUNNING\<close> commands run at once,
  as many as the gauge says, and no job has been passed over.\<close>

theorem launcher_runs_all:
  assumes "process_spec P patience"
  shows "(\<exists>fuel self w'. launcher_run P C K received fuel (launcher_new words root m, w) = Some (self, w') \<and>
      la_spawned self = map (arguments C K (launcher_new words root m)) (received_jobs received) \<and>
      hm_running (la_metrics self) = hm_running m \<and>
      hm_completed (la_metrics self) + hm_errors (la_metrics self) = hm_completed m + hm_errors m + length (received_jobs received)) \<and>
    launcher_ok C K (launcher_new words root m) (received_jobs received)
      (fst (fold (launcher_turn P C K) received (launcher_new words root m, w)))"
proof -
  let ?start = "launcher_new words root m"
  have "launcher_ok C K ?start [] (fst (?start, w))" by (simp add: launcher_ok_def launcher_new_def)
  from launcher_turns_ok [OF this, of received P]
  have ok: "launcher_ok C K ?start (received_jobs received) (fst (fold (launcher_turn P C K) received (?start, w)))" by simp
  from process_spec.shutdown_ends [OF assms ok] obtain fuel self w' where
    "launcher_shutdown P C K fuel (fst (fold (launcher_turn P C K) received (?start, w)), snd (fold (launcher_turn P C K) received (?start, w)))
       = Some (self, w')" "launcher_ok C K ?start (received_jobs received) self" "la_pending self = []" "la_running self = []" by blast
  then show ?thesis
    using ok unfolding launcher_run_def
    by (intro conjI exI [of _ fuel] exI [of _ self] exI [of _ w']) (auto simp: launcher_ok_def launcher_new_def dest: arg_cong [of _ _ length])
qed

section \<open>Processes\<close>

text \<open>A world of processes: the next child, and how often each is still to be found running.\<close>

definition process_ref :: "(nat \<times> (nat \<Rightarrow> nat)) process_ops" where
  "process_ref = \<lparr>ps_spawn = (\<lambda>args (n, left). ((Suc n, left(n := length args)), if args = [''false''] then None else Some n)),
     ps_try_wait = (\<lambda>child (n, left). if left child = 0 then ((n, left), Exited (even child))
       else ((n, left(child := left child - 1)), StillRunning))\<rparr>"

interpretation process_ref: process_spec process_ref snd
  by unfold_locales (auto simp: process_ref_def split: prod.splits if_splits)

theorem launcher_runs_all_witness:
  "\<exists>fuel self w'. launcher_run process_ref chrono_ref calendar_ref
     [None, Some \<lparr>job_path = [''out'', ''a''], job_window = DateTime 0 0\<rparr>] fuel
       (launcher_new [''gzip''] [''out''] \<lparr>hm_running = 0, hm_completed = 0, hm_errors = 0\<rparr>, (0, \<lambda>_. 0)) = Some (self, w') \<and>
     la_spawned self = [[''gzip'', ''out/a'']] \<and> hm_completed (la_metrics self) + hm_errors (la_metrics self) = 1"
  using launcher_runs_all [OF process_ref.process_spec_axioms, of chrono_ref calendar_ref
      "[None, Some \<lparr>job_path = [''out'', ''a''], job_window = DateTime 0 0\<rparr>]" "[''gzip'']" "[''out'']"
      "\<lparr>hm_running = 0, hm_completed = 0, hm_errors = 0\<rparr>" "(0, \<lambda>_. 0)"]
  by (auto simp: received_jobs_def List.map_filter_def arguments_def launcher_new_def path_display_def)

end
