(* ===== verification/Enrich.thy ===== *)
theory Enrich
  imports CommonFlow HashMap
begin

text \<open>
  The enrichment of flows (\<^verbatim>\<open>rustflow_collect/src/enrich\<close>): lookup keys taken from a flow
  (\<^verbatim>\<open>config.rs\<close>, \<^verbatim>\<open>key.rs\<close>), rows (\<^verbatim>\<open>row.rs\<close>), the sources that are looked up in
  (\<^verbatim>\<open>source/exact.rs\<close>, \<^verbatim>\<open>prefix.rs\<close>, \<^verbatim>\<open>csv.rs\<close>, \<^verbatim>\<open>mmdb.rs\<close>), the tables that hold them and
  are reloaded (\<^verbatim>\<open>table/mod.rs\<close>) and the engine (\<^verbatim>\<open>engine.rs\<close>).

  Parameters are the prefix maps of \<^verbatim>\<open>prefix_trie\<close> (\<open>prefix_lib\<close>, with the laws
  \<open>prefix_lib_spec\<close>), the records a \<^verbatim>\<open>csv\<close> reader yields, the answers of a \<^verbatim>\<open>maxminddb\<close> reader, and the
  texts of addresses, prefixes and numbers (\<open>key_texts\<close>). An error is a value
  \<open>Inl\<close>, without its message; a panic is \<open>None\<close>.

  Shown: a value of an enriched flow is that of the last group whose keys find a row with one;
  a prefix table answers with the longest prefix, the last one given where it was given twice;
  an exact table with the last record of its key; and a reload that fails changes no table.
\<close>

text \<open>The error of a run that was cancelled, or over its timeout in nanoseconds, and the status of a command that failed.\<close>

datatype run_error = IoCancelled | IoTimedOut nat | IoOther

datatype exit_status = ExitCode nat | Signalled nat

datatype enrich_error =
    ConfigError | DataError | CsvError | LoadError enrich_error | CommandError exit_status | IoError run_error
  | OtherEnrichError

section \<open>Keys and rows\<close>

datatype key = KeyIp ip_addr | KeyNumber u64

datatype key_type = KtIp | KtNumber

datatype ip_net = Net4 u32 nat | Net6 u128 nat

record key_texts =
  kt_trim :: "string \<Rightarrow> string"
  kt_ip :: "string \<Rightarrow> ip_addr option"
  kt_u64 :: "string \<Rightarrow> u64 option"
  kt_net :: "string \<Rightarrow> ip_net option"

definition key_type_parse :: "key_texts \<Rightarrow> key_type \<Rightarrow> string \<Rightarrow> enrich_error + key" where
  "key_type_parse T self raw = (case self of
       KtIp \<Rightarrow> (case kt_ip T raw of Some a \<Rightarrow> Inr (KeyIp a) | None \<Rightarrow> Inl DataError)
     | KtNumber \<Rightarrow> (case kt_u64 T raw of Some n \<Rightarrow> Inr (KeyNumber n) | None \<Rightarrow> Inl DataError))"

definition parse_prefix :: "key_texts \<Rightarrow> string \<Rightarrow> enrich_error + ip_net" where
  "parse_prefix T raw = (case kt_net T raw of Some net \<Rightarrow> Inr net | None \<Rightarrow> Inl DataError)"

type_synonym schema = "string list"

record row =
  row_schema :: schema
  row_values :: "string option list"

text \<open>\<^verbatim>\<open>Schema::row\<close> asserts the number of values.\<close>

definition schema_row :: "schema \<Rightarrow> string option list \<Rightarrow> row option" where
  "schema_row self vs =
     (if length vs = length self then Some \<lparr>row_schema = self, row_values = vs\<rparr> else None)"

record lookup_key =
  lk_name :: string
  lk_key_type :: key_type
  lk_extract :: "common_flow \<Rightarrow> key option"

text \<open>The arms of the macro \<^verbatim>\<open>lookup_fields\<close>.\<close>

definition lookup_ip :: "string \<Rightarrow> (common_flow \<Rightarrow> ip_addr option) \<Rightarrow> lookup_key" where
  "lookup_ip name f = \<lparr>lk_name = name, lk_key_type = KtIp, lk_extract = (\<lambda>flow. map_option KeyIp (f flow))\<rparr>"

definition lookup_number :: "string \<Rightarrow> (common_flow \<Rightarrow> 'a::len word option) \<Rightarrow> lookup_key" where
  "lookup_number name f =
     \<lparr>lk_name = name, lk_key_type = KtNumber, lk_extract = (\<lambda>flow. map_option (\<lambda>n. KeyNumber (ucast n)) (f flow))\<rparr>"

definition lookup_required :: "string \<Rightarrow> (common_flow \<Rightarrow> 'a::len word) \<Rightarrow> lookup_key" where
  "lookup_required name f =
     \<lparr>lk_name = name, lk_key_type = KtNumber, lk_extract = (\<lambda>flow. Some (KeyNumber (ucast (f flow))))\<rparr>"

definition LOOKUP_KEYS :: "lookup_key list" where
  "LOOKUP_KEYS =
     [lookup_required ''sequence_num'' cf_sequence_num,
      lookup_number ''sampling_rate'' cf_sampling_rate,
      lookup_ip ''sampler_address'' cf_sampler_address,
      lookup_required ''bytes'' cf_bytes,
      lookup_required ''packets'' cf_packets,
      lookup_ip ''src_addr'' cf_src_addr,
      lookup_ip ''dst_addr'' cf_dst_addr,
      lookup_number ''etype'' cf_etype,
      lookup_number ''proto'' cf_proto,
      lookup_number ''src_port'' cf_src_port,
      lookup_number ''dst_port'' cf_dst_port,
      lookup_number ''in_if'' cf_in_if,
      lookup_number ''out_if'' cf_out_if,
      lookup_number ''ip_tos'' cf_ip_tos,
      lookup_number ''ip_ttl'' cf_ip_ttl,
      lookup_number ''tcp_flags'' cf_tcp_flags,
      lookup_number ''icmp_type'' cf_icmp_type,
      lookup_number ''icmp_code'' cf_icmp_code,
      lookup_number ''ipv6_flow_label'' cf_ipv6_flow_label,
      lookup_number ''fragment_id'' cf_fragment_id,
      lookup_number ''fragment_offset'' cf_fragment_offset,
      lookup_number ''src_as'' cf_src_as,
      lookup_number ''dst_as'' cf_dst_as,
      lookup_ip ''next_hop'' cf_next_hop,
      lookup_number ''src_net'' cf_src_net,
      lookup_number ''dst_net'' cf_dst_net,
      lookup_ip ''bgp_next_hop'' cf_bgp_next_hop,
      lookup_number ''src_vlan'' cf_src_vlan,
      lookup_number ''dst_vlan'' cf_dst_vlan,
      lookup_number ''observation_domain_id'' cf_observation_domain_id,
      lookup_number ''template_id'' cf_template_id,
      lookup_number ''forwarding_status'' cf_forwarding_status]"

definition lookup_key_from_str :: "string \<Rightarrow> enrich_error + lookup_key" where
  "lookup_key_from_str name = (case find (\<lambda>key. lk_name key = name) LOOKUP_KEYS of
     Some key \<Rightarrow> Inr key | None \<Rightarrow> Inl ConfigError)"

section \<open>Sources\<close>

text \<open>A \<^verbatim>\<open>PrefixMap\<close> keyed by networks: an address of \<open>'a\<close> and the length of its prefix.\<close>

record ('a, 'm) prefix_lib =
  pm_empty :: 'm
  pm_insert :: "'a \<Rightarrow> nat \<Rightarrow> row \<Rightarrow> 'm \<Rightarrow> 'm"
  pm_get_lpm :: "'a \<Rightarrow> nat \<Rightarrow> 'm \<Rightarrow> ('a \<times> nat \<times> row) option"
  pm_len :: "'m \<Rightarrow> nat"
  pm_trunc :: "'a \<Rightarrow> nat \<Rightarrow> 'a"

record ('m4, 'm6) prefix_table =
  pt_ipv4 :: 'm4
  pt_ipv6 :: 'm6

definition prefix_table_default ::
    "(u32, 'm4) prefix_lib \<Rightarrow> (u128, 'm6) prefix_lib \<Rightarrow> ('m4, 'm6) prefix_table" where
  "prefix_table_default L4 L6 = \<lparr>pt_ipv4 = pm_empty L4, pt_ipv6 = pm_empty L6\<rparr>"

definition prefix_table_insert ::
    "(u32, 'm4) prefix_lib \<Rightarrow> (u128, 'm6) prefix_lib \<Rightarrow> ip_net \<Rightarrow> row \<Rightarrow> ('m4, 'm6) prefix_table \<Rightarrow> ('m4, 'm6) prefix_table" where
  "prefix_table_insert L4 L6 net r self = (case net of
       Net4 a n \<Rightarrow> self\<lparr>pt_ipv4 := pm_insert L4 (pm_trunc L4 a n) n r (pt_ipv4 self)\<rparr>
     | Net6 a n \<Rightarrow> self\<lparr>pt_ipv6 := pm_insert L6 (pm_trunc L6 a n) n r (pt_ipv6 self)\<rparr>)"

definition prefix_table_lookup ::
    "(u32, 'm4) prefix_lib \<Rightarrow> (u128, 'm6) prefix_lib \<Rightarrow> ('m4, 'm6) prefix_table \<Rightarrow> key list \<Rightarrow> row option" where
  "prefix_table_lookup L4 L6 self k = (case k of
       [KeyIp (V4 ip)] \<Rightarrow> map_option (\<lambda>(_, _, r). r) (pm_get_lpm L4 ip 32 (pt_ipv4 self))
     | [KeyIp (V6 ip)] \<Rightarrow> map_option (\<lambda>(_, _, r). r) (pm_get_lpm L6 ip 128 (pt_ipv6 self))
     | _ \<Rightarrow> None)"

definition prefix_table_len ::
    "(u32, 'm4) prefix_lib \<Rightarrow> (u128, 'm6) prefix_lib \<Rightarrow> ('m4, 'm6) prefix_table \<Rightarrow> nat" where
  "prefix_table_len L4 L6 self = pm_len L4 (pt_ipv4 self) + pm_len L6 (pt_ipv6 self)"

type_synonym exact_table = "(key list, row) hashmap"

definition exact_table_insert :: "key list \<Rightarrow> row \<Rightarrow> exact_table \<Rightarrow> exact_table" where
  "exact_table_insert k r self = hm_insert k r self"

definition exact_table_lookup :: "exact_table \<Rightarrow> key list \<Rightarrow> row option" where
  "exact_table_lookup self k = hm_get self k"

text \<open>A \<^verbatim>\<open>serde_json::Value\<close>, any but null and a string by the text it prints as; a reader answers with
  what is found along a path. \<^verbatim>\<open>column.split('.')\<close> gives the path of a column.\<close>

datatype json_value = JsonNull | JsonString string | JsonOther string

type_synonym mmdb_reader = "ip_addr \<Rightarrow> (string list \<Rightarrow> json_value option) option"

record mmdb_source =
  mm_reader :: mmdb_reader
  mm_schema :: schema
  mm_paths :: "string list list"
  mm_networks :: nat

definition value_to_string :: "json_value \<Rightarrow> string option" where
  "value_to_string v = (case v of
     JsonNull \<Rightarrow> None | JsonString s \<Rightarrow> (if s \<noteq> [] then Some s else None) | JsonOther s \<Rightarrow> Some s)"

definition mmdb_lookup :: "mmdb_source \<Rightarrow> key list \<Rightarrow> row option" where
  "mmdb_lookup self k = (case k of
       [KeyIp ip] \<Rightarrow>
         (case mm_reader self ip of
            None \<Rightarrow> None
          | Some result \<Rightarrow>
              let vs = map (\<lambda>path. result path \<bind> value_to_string) (mm_paths self)
              in if list_all (\<lambda>v. v = None) vs then None else schema_row (mm_schema self) vs)
     | _ \<Rightarrow> None)"

datatype ('m4, 'm6) source = ExactSource exact_table | PrefixSource "('m4, 'm6) prefix_table" | MmdbSource mmdb_source

definition source_lookup ::
    "(u32, 'm4) prefix_lib \<Rightarrow> (u128, 'm6) prefix_lib \<Rightarrow> ('m4, 'm6) source \<Rightarrow> key list \<Rightarrow> row option" where
  "source_lookup L4 L6 self k = (case self of
       ExactSource t \<Rightarrow> exact_table_lookup t k
     | PrefixSource t \<Rightarrow> prefix_table_lookup L4 L6 t k
     | MmdbSource t \<Rightarrow> mmdb_lookup t k)"

definition source_len :: "(u32, 'm4) prefix_lib \<Rightarrow> (u128, 'm6) prefix_lib \<Rightarrow> ('m4, 'm6) source \<Rightarrow> nat" where
  "source_len L4 L6 self = (case self of
       ExactSource t \<Rightarrow> length t | PrefixSource t \<Rightarrow> prefix_table_len L4 L6 t | MmdbSource t \<Rightarrow> mm_networks t)"

section \<open>Reading CSV\<close>

fun position_of :: "'x \<Rightarrow> 'x list \<Rightarrow> nat option" where
  "position_of x [] = None"
| "position_of x (y # ys) = (if y = x then Some 0 else map_option Suc (position_of x ys))"

fun positions :: "string list \<Rightarrow> string list \<Rightarrow> enrich_error + nat list" where
  "positions headers [] = Inr []"
| "positions headers (c # cs) = (case position_of c headers of
       None \<Rightarrow> Inl DataError
     | Some i \<Rightarrow> (case positions headers cs of Inl e \<Rightarrow> Inl e | Inr is \<Rightarrow> Inr (i # is)))"

text \<open>What the reader yields: its headers, and its records, either of them with an error instead.\<close>

record csv_input =
  ci_headers :: "string list option"
  ci_records :: "string list option list"

definition csv_cell :: "key_texts \<Rightarrow> string list \<Rightarrow> nat \<Rightarrow> string" where
  "csv_cell T rec i = kt_trim T (if i < length rec then rec ! i else [])"

fun read_records ::
    "key_texts \<Rightarrow> nat list \<Rightarrow> nat list \<Rightarrow> schema \<Rightarrow> (string list \<Rightarrow> row \<Rightarrow> 't \<Rightarrow> enrich_error + 't) \<Rightarrow>
     string list option list \<Rightarrow> 't \<Rightarrow> (enrich_error + 't) option" where
  "read_records T key_indexes column_indexes schema emit [] t = Some (Inr t)"
| "read_records T key_indexes column_indexes schema emit (None # recs) t = Some (Inl CsvError)"
| "read_records T key_indexes column_indexes schema emit (Some rec # recs) t =
     (let keys = map (csv_cell T rec) key_indexes in
      if list_ex (\<lambda>k. k = []) keys then Some (Inl DataError)
      else case schema_row schema (map (\<lambda>i. let v = csv_cell T rec i in if v \<noteq> [] then Some v else None) column_indexes) of
             None \<Rightarrow> None
           | Some r \<Rightarrow>
               (case emit keys r t of
                  Inl e \<Rightarrow> Some (Inl e)
                | Inr t \<Rightarrow> read_records T key_indexes column_indexes schema emit recs t))"

definition csv_read ::
    "key_texts \<Rightarrow> csv_input \<Rightarrow> string list \<Rightarrow> schema \<Rightarrow> (string list \<Rightarrow> row \<Rightarrow> 't \<Rightarrow> enrich_error + 't) \<Rightarrow>
     't \<Rightarrow> (enrich_error + 't) option" where
  "csv_read T input key_columns schema emit t = (case ci_headers input of
       None \<Rightarrow> Some (Inl CsvError)
     | Some headers \<Rightarrow>
         let headers = map (kt_trim T) headers in
         if list_ex (\<lambda>h. h = []) headers \<or> \<not> distinct headers then Some (Inl DataError)
         else (case positions headers key_columns of
            Inl e \<Rightarrow> Some (Inl e)
          | Inr key_indexes \<Rightarrow>
              (case positions headers schema of
                 Inl e \<Rightarrow> Some (Inl e)
               | Inr column_indexes \<Rightarrow>
                   read_records T key_indexes column_indexes schema emit (ci_records input) t)))"

datatype csv_lookup = CsvPrefix | CsvExact "key_type list"

fun parse_keys :: "key_texts \<Rightarrow> (string \<times> key_type) list \<Rightarrow> enrich_error + key list" where
  "parse_keys T [] = Inr []"
| "parse_keys T ((raw, t) # ks) = (case key_type_parse T t raw of
       Inl e \<Rightarrow> Inl e
     | Inr k \<Rightarrow> (case parse_keys T ks of Inl e \<Rightarrow> Inl e | Inr ks \<Rightarrow> Inr (k # ks)))"

definition emit_exact ::
    "key_texts \<Rightarrow> key_type list \<Rightarrow> string list \<Rightarrow> row \<Rightarrow> exact_table \<Rightarrow> enrich_error + exact_table" where
  "emit_exact T key_types keys r table = (case parse_keys T (zip keys key_types) of
     Inl e \<Rightarrow> Inl e | Inr k \<Rightarrow> Inr (exact_table_insert k r table))"

text \<open>\<^verbatim>\<open>keys[0]\<close>: there is a key column, or the configuration is refused.\<close>

definition emit_prefix ::
    "key_texts \<Rightarrow> (u32, 'm4) prefix_lib \<Rightarrow> (u128, 'm6) prefix_lib \<Rightarrow> string list \<Rightarrow> row \<Rightarrow> ('m4, 'm6) prefix_table \<Rightarrow>
     enrich_error + ('m4, 'm6) prefix_table" where
  "emit_prefix T L4 L6 keys r table = (case parse_prefix T (keys ! 0) of
     Inl e \<Rightarrow> Inl e | Inr net \<Rightarrow> Inr (prefix_table_insert L4 L6 net r table))"

definition csv_open ::
    "key_texts \<Rightarrow> (u32, 'm4) prefix_lib \<Rightarrow> (u128, 'm6) prefix_lib \<Rightarrow> csv_input \<Rightarrow> string list \<Rightarrow> csv_lookup \<Rightarrow> schema \<Rightarrow>
     (enrich_error + ('m4, 'm6) source) option" where
  "csv_open T L4 L6 input key_columns lookup schema = (case lookup of
       CsvExact key_types \<Rightarrow>
         map_option (map_sum id ExactSource) (csv_read T input key_columns schema (emit_exact T key_types) hm_empty)
     | CsvPrefix \<Rightarrow>
         map_option (map_sum id PrefixSource)
           (csv_read T input key_columns schema (emit_prefix T L4 L6) (prefix_table_default L4 L6)))"

section \<open>Tables\<close>

text \<open>A table holds the source that was loaded last, with its metrics. Loading is the argument \<open>loaded\<close>.\<close>

record ('m4, 'm6) table =
  tb_source :: "('m4, 'm6) source"
  tb_loaded_rows :: nat
  tb_loads_total :: nat
  tb_reload_failures_total :: nat

definition table_record_load :: "nat \<Rightarrow> ('m4, 'm6) table \<Rightarrow> ('m4, 'm6) table" where
  "table_record_load n self = self\<lparr>tb_loaded_rows := n, tb_loads_total := tb_loads_total self + 1\<rparr>"

definition table_new ::
    "(u32, 'm4) prefix_lib \<Rightarrow> (u128, 'm6) prefix_lib \<Rightarrow> enrich_error + ('m4, 'm6) source \<Rightarrow> enrich_error + ('m4, 'm6) table" where
  "table_new L4 L6 loaded = (case loaded of
       Inl e \<Rightarrow> Inl e
     | Inr s \<Rightarrow> Inr (table_record_load (source_len L4 L6 s)
         \<lparr>tb_source = s, tb_loaded_rows = 0, tb_loads_total = 0, tb_reload_failures_total = 0\<rparr>))"

definition table_reload ::
    "(u32, 'm4) prefix_lib \<Rightarrow> (u128, 'm6) prefix_lib \<Rightarrow> enrich_error + ('m4, 'm6) source \<Rightarrow> ('m4, 'm6) table \<Rightarrow>
     ('m4, 'm6) table \<times> (enrich_error + nat)" where
  "table_reload L4 L6 loaded self = (case loaded of
       Inr s \<Rightarrow>
         let n = source_len L4 L6 s
         in (table_record_load n (self\<lparr>tb_source := s\<rparr>), Inr n)
     | Inl e \<Rightarrow> (self\<lparr>tb_reload_failures_total := tb_reload_failures_total self + 1\<rparr>, Inl e))"

section \<open>The engine\<close>

record field_mapping =
  fp_keys :: "lookup_key list"
  fp_source_column :: string
  fp_output_field :: string

record group =
  gr_keys :: "lookup_key list"
  gr_fields :: "(nat \<times> nat) list"

record ('m4, 'm6) lookup =
  lo_table :: "('m4, 'm6) table"
  lo_groups :: "group list"

record ('m4, 'm6) engine =
  eg_lookups :: "('m4, 'm6) lookup list"
  eg_output_fields :: "string list"

definition engine_new :: "('m4, 'm6) engine" where
  "engine_new = \<lparr>eg_lookups = [], eg_output_fields = []\<rparr>"

text \<open>Keys are equal by their names.\<close>

definition same_keys :: "lookup_key list \<Rightarrow> lookup_key list \<Rightarrow> bool" where
  "same_keys a b \<longleftrightarrow> map lk_name a = map lk_name b"

fun add_field :: "lookup_key list \<Rightarrow> nat \<times> nat \<Rightarrow> group list \<Rightarrow> group list" where
  "add_field keys field [] = [\<lparr>gr_keys = keys, gr_fields = [field]\<rparr>]"
| "add_field keys field (g # gs) =
     (if same_keys (gr_keys g) keys then g\<lparr>gr_fields := gr_fields g @ [field]\<rparr> # gs else g # add_field keys field gs)"

fun add_mappings ::
    "string list \<Rightarrow> field_mapping list \<Rightarrow> string list \<times> group list \<Rightarrow> (string list \<times> group list) option" where
  "add_mappings columns [] st = Some st"
| "add_mappings columns (m # ms) (output_fields, groups) =
     (case (case position_of (fp_output_field m) output_fields of
              Some i \<Rightarrow> (output_fields, i)
            | None \<Rightarrow> (output_fields @ [fp_output_field m], length output_fields)) of
        (output_fields, output) \<Rightarrow>
          (case position_of (fp_source_column m) columns of
             None \<Rightarrow> None
           | Some column \<Rightarrow> add_mappings columns ms (output_fields, add_field (fp_keys m) (column, output) groups)))"

text \<open>The output fields are extended before the table is loaded, and stay so when that fails.\<close>

definition engine_add ::
    "(u32, 'm4) prefix_lib \<Rightarrow> (u128, 'm6) prefix_lib \<Rightarrow> string list \<Rightarrow> field_mapping list \<Rightarrow>
     enrich_error + ('m4, 'm6) source \<Rightarrow> ('m4, 'm6) engine \<Rightarrow> (('m4, 'm6) engine \<times> (enrich_error + nat)) option" where
  "engine_add L4 L6 columns mappings loaded self = (case add_mappings columns mappings (eg_output_fields self, []) of
       None \<Rightarrow> None
     | Some (output_fields, groups) \<Rightarrow>
         let self = self\<lparr>eg_output_fields := output_fields\<rparr>
         in Some (case table_new L4 L6 loaded of
              Inl e \<Rightarrow> (self, Inl e)
            | Inr table \<Rightarrow>
                (self\<lparr>eg_lookups := eg_lookups self @ [\<lparr>lo_table = table, lo_groups = groups\<rparr>]\<rparr>,
                 Inr (source_len L4 L6 (tb_source table)))))"

definition engine_snapshot :: "('m4, 'm6) engine \<Rightarrow> ('m4, 'm6) source list" where
  "engine_snapshot self = map (\<lambda>l. tb_source (lo_table l)) (eg_lookups self)"

type_synonym enriched = "string option list"

text \<open>The keys are collected in an \<^verbatim>\<open>ArrayVec\<close>, which panics when it is full; the first key a flow lacks
  ends the collecting.\<close>

definition MAX_KEYS :: nat where
  "MAX_KEYS = 4"

fun extract_keys :: "nat \<Rightarrow> common_flow \<Rightarrow> lookup_key list \<Rightarrow> key list option option" where
  "extract_keys room flow [] = Some (Some [])"
| "extract_keys room flow (k # ks) = (case lk_extract k flow of
       None \<Rightarrow> Some None
     | Some x \<Rightarrow>
         (case room of
            0 \<Rightarrow> None
          | Suc room \<Rightarrow> map_option (map_option (\<lambda>xs. x # xs)) (extract_keys room flow ks)))"

fun set_fields :: "row \<Rightarrow> (nat \<times> nat) list \<Rightarrow> enriched \<Rightarrow> enriched option" where
  "set_fields r [] out = Some out"
| "set_fields r ((column, output) # fs) out =
     (if column \<ge> length (row_values r) then None
      else case row_values r ! column of
             None \<Rightarrow> set_fields r fs out
           | Some v \<Rightarrow> if output \<ge> length out then None else set_fields r fs (out[output := Some v]))"

definition enrich_group ::
    "(u32, 'm4) prefix_lib \<Rightarrow> (u128, 'm6) prefix_lib \<Rightarrow> common_flow \<Rightarrow> ('m4, 'm6) source \<Rightarrow> group \<Rightarrow> enriched \<Rightarrow> enriched option" where
  "enrich_group L4 L6 flow s g out = (case extract_keys MAX_KEYS flow (gr_keys g) of
       None \<Rightarrow> None
     | Some keys \<Rightarrow>
         (case keys \<bind> source_lookup L4 L6 s of
            None \<Rightarrow> Some out
          | Some r \<Rightarrow> set_fields r (gr_fields g) out))"

fun enrich_groups ::
    "(u32, 'm4) prefix_lib \<Rightarrow> (u128, 'm6) prefix_lib \<Rightarrow> common_flow \<Rightarrow> (('m4, 'm6) source \<times> group) list \<Rightarrow> enriched \<Rightarrow>
     enriched option" where
  "enrich_groups L4 L6 flow [] out = Some out"
| "enrich_groups L4 L6 flow ((s, g) # gs) out = enrich_group L4 L6 flow s g out \<bind> enrich_groups L4 L6 flow gs"

definition snapshot_enrich ::
    "(u32, 'm4) prefix_lib \<Rightarrow> (u128, 'm6) prefix_lib \<Rightarrow> ('m4, 'm6) engine \<Rightarrow> ('m4, 'm6) source list \<Rightarrow> common_flow \<Rightarrow>
     enriched \<Rightarrow> enriched option" where
  "snapshot_enrich L4 L6 self sources flow out =
     enrich_groups L4 L6 flow
       (concat (map (\<lambda>(l, s). map (\<lambda>g. (s, g)) (lo_groups l)) (zip (eg_lookups self) sources)))
       (replicate (length out) None)"

section \<open>Prefix maps\<close>

text \<open>The network of the first \<open>n\<close> bits of \<open>b\<close> holds the address \<open>a\<close>.\<close>

definition net_covers :: "'a::len word \<Rightarrow> nat \<Rightarrow> 'a word \<Rightarrow> bool" where
  "net_covers b n a \<longleftrightarrow> n \<le> LENGTH('a) \<and> drop_bit (LENGTH('a) - n) a = drop_bit (LENGTH('a) - n) b"

locale prefix_lib_spec =
  fixes L :: "('a::len word, 'm) prefix_lib" and entries :: "'m \<Rightarrow> 'a word \<times> nat \<Rightarrow> row option"
  assumes trunc_spec: "n \<le> LENGTH('a) \<Longrightarrow> pm_trunc L a n = push_bit (LENGTH('a) - n) (drop_bit (LENGTH('a) - n) a)"
    and entries_empty: "entries (pm_empty L) = Map.empty"
    and entries_insert: "n \<le> LENGTH('a) \<Longrightarrow> pm_trunc L a n = a \<Longrightarrow> entries (pm_insert L a n r m) = (entries m)((a, n) \<mapsto> r)"
    and lpm_some: "pm_get_lpm L a LENGTH('a) m = Some (b, n, r) \<Longrightarrow> entries m (b, n) = Some r \<and> net_covers b n a \<and>
      (\<forall>b' n'. entries m (b', n') \<noteq> None \<and> net_covers b' n' a \<longrightarrow> n' \<le> n)"
    and lpm_none: "pm_get_lpm L a LENGTH('a) m = None \<Longrightarrow> entries m (b, n) \<noteq> None \<Longrightarrow> \<not> net_covers b n a"

text \<open>A prefix map as a list of its entries, the latest first.\<close>

definition list_lpm :: "'a::len word \<Rightarrow> nat \<Rightarrow> (('a word \<times> nat) \<times> row) list \<Rightarrow> ('a word \<times> nat \<times> row) option" where
  "list_lpm a w m = map_option (\<lambda>((b, n), r). (b, n, r))
     (find (\<lambda>((b, n), r). net_covers b n a \<and> list_all (\<lambda>((b', n'), _). net_covers b' n' a \<longrightarrow> n' \<le> n) m) m)"

definition prefix_ref :: "('a::len word, (('a word \<times> nat) \<times> row) list) prefix_lib" where
  "prefix_ref =
     \<lparr>pm_empty = [], pm_insert = (\<lambda>a n r m. ((a, n), r) # m), pm_get_lpm = list_lpm,
      pm_len = (\<lambda>m. length (remdups (map fst m))),
      pm_trunc = (\<lambda>a n. push_bit (LENGTH('a) - n) (drop_bit (LENGTH('a) - n) a))\<rparr>"

lemma find_map_of:
  assumes "find P m = Some (k, v)" and "\<And>v'. P (k, v') \<longleftrightarrow> P (k, v)"
  shows "map_of m k = Some v"
proof -
  have "P (k, v)" using assms(1) by (auto simp: find_Some_iff)
  from assms(1) show ?thesis
  proof (induction m)
    case (Cons x m)
    then show ?case using \<open>P (k, v)\<close> assms(2) by (cases x) (auto split: if_splits)
  qed simp
qed

interpretation prefix_ref: prefix_lib_spec prefix_ref map_of
proof unfold_locales
  fix a :: "'a word" and m :: "(('a word \<times> nat) \<times> row) list" and b n r
  let ?P = "\<lambda>((b, n), r :: row). net_covers b n a \<and> list_all (\<lambda>((b', n'), _). net_covers b' n' a \<longrightarrow> n' \<le> n) m"
  {
    assume "pm_get_lpm prefix_ref a LENGTH('a) m = Some (b, n, r)"
    then have found: "find ?P m = Some ((b, n), r)" by (auto simp: prefix_ref_def list_lpm_def)
    then have "?P ((b, n), r)" using find_Some_iff [of ?P m] by auto
    moreover have "map_of m (b, n) = Some r" by (rule find_map_of [OF found]) simp
    ultimately show "map_of m (b, n) = Some r \<and> net_covers b n a \<and>
        (\<forall>b' n'. map_of m (b', n') \<noteq> None \<and> net_covers b' n' a \<longrightarrow> n' \<le> n)"
      by (auto simp: list_all_iff dest!: map_of_SomeD)
  next
    assume "pm_get_lpm prefix_ref a LENGTH('a) m = None" and "map_of m (b, n) \<noteq> None"
    show "\<not> net_covers b n a"
    proof
      assume covers: "net_covers b n a"
      let ?ns = "(snd \<circ> fst) ` {e \<in> set m. net_covers (fst (fst e)) (snd (fst e)) a}"
      have "finite ?ns" by simp
      moreover have "?ns \<noteq> {}" using covers \<open>map_of m (b, n) \<noteq> None\<close> by (fastforce dest!: map_of_SomeD)
      ultimately obtain e where e: "e \<in> set m" "net_covers (fst (fst e)) (snd (fst e)) a" "snd (fst e) = Max ?ns"
        using Max_in [of ?ns] by fastforce
      then have "\<forall>x \<in> set m. net_covers (fst (fst x)) (snd (fst x)) a \<longrightarrow> snd (fst x) \<le> snd (fst e)"
        using Max_ge [of ?ns] \<open>finite ?ns\<close> by auto
      then have "?P e" using e(2) by (fastforce simp: list_all_iff case_prod_beta)
      then have "\<exists>e \<in> set m. ?P e" using e(1) by blast
      then have "find ?P m \<noteq> None" by (auto simp: find_None_iff)
      then show False
        using \<open>pm_get_lpm prefix_ref a LENGTH('a) m = None\<close> by (simp add: prefix_ref_def list_lpm_def)
    qed
  }
qed (simp_all add: prefix_ref_def fun_eq_iff)

section \<open>The longest prefix\<close>

text \<open>The row of the longest network that holds \<open>a\<close>: going through the networks in order, one that is at least as
  long as the best so far replaces it.\<close>

definition better_match :: "'a::len word \<Rightarrow> 'a word \<times> nat \<times> row \<Rightarrow> (nat \<times> row) option \<Rightarrow> (nat \<times> row) option" where
  "better_match a net best = (case net of (b, n, r) \<Rightarrow>
     if net_covers b n a \<and> (case best of None \<Rightarrow> True | Some (n', _) \<Rightarrow> n' \<le> n) then Some (n, r) else best)"

definition longest_match :: "('a::len word \<times> nat \<times> row) list \<Rightarrow> 'a word \<Rightarrow> row option" where
  "longest_match nets a = map_option snd (fold (better_match a) nets None)"

text \<open>The best of the rows by length.\<close>

definition is_best :: "(nat \<Rightarrow> row option) \<Rightarrow> (nat \<times> row) option \<Rightarrow> bool" where
  "is_best rows best \<longleftrightarrow> (case best of
     None \<Rightarrow> \<forall>n. rows n = None | Some (n, r) \<Rightarrow> rows n = Some r \<and> (\<forall>n' > n. rows n' = None))"

lemma is_best_unique: "is_best rows x \<Longrightarrow> is_best rows y \<Longrightarrow> x = y"
proof -
  assume best: "is_best rows x" "is_best rows y"
  show ?thesis
  proof (cases "x = None \<or> y = None")
    case True
    then show ?thesis using best by (auto simp: is_best_def split: option.splits)
  next
    case False
    then obtain n r n' r' where xy: "x = Some (n, r)" "y = Some (n', r')" by auto
    then have "n = n'" using best by (cases n n' rule: linorder_cases) (auto simp: is_best_def)
    then show ?thesis using best xy by (simp add: is_best_def)
  qed
qed

lemma is_best_better:
  assumes "is_best rows best"
  shows "is_best (if net_covers b n a then rows(n \<mapsto> r) else rows) (better_match a (b, n, r) best)"
  using assms by (auto simp: is_best_def better_match_def split: option.splits)

lemma drop_push_drop: "drop_bit k (push_bit k (drop_bit k x)) = drop_bit k (x :: 'a::len word)"
  by (rule bit_word_eqI) (auto simp: bit_simps dest: bit_imp_le_length)

context prefix_lib_spec
begin

lemma trunc_trunc: "n \<le> LENGTH('a) \<Longrightarrow> pm_trunc L (pm_trunc L b n) n = pm_trunc L b n"
  by (simp add: trunc_spec drop_push_drop)

lemma covers_iff: "n \<le> LENGTH('a) \<Longrightarrow> net_covers b n a \<longleftrightarrow> pm_trunc L b n = pm_trunc L a n"
proof -
  have "x = y" if "push_bit k (drop_bit k x') = push_bit k (drop_bit k y')" "x = drop_bit k x'" "y = drop_bit k y'"
    for x y x' y' :: "'a word" and k
    using arg_cong [OF that(1), of "drop_bit k"] that(2,3) by (simp add: drop_push_drop)
  then show "n \<le> LENGTH('a) \<Longrightarrow> net_covers b n a \<longleftrightarrow> pm_trunc L b n = pm_trunc L a n"
    by (auto simp: net_covers_def trunc_spec)
qed

text \<open>The rows of the networks that hold \<open>a\<close>, by their length.\<close>

definition rows_for :: "'a word \<Rightarrow> 'm \<Rightarrow> nat \<Rightarrow> row option" where
  "rows_for a m n = (if n \<le> LENGTH('a) then entries m (pm_trunc L a n, n) else None)"

definition truncated :: "'m \<Rightarrow> bool" where
  "truncated m \<longleftrightarrow> (\<forall>b n. entries m (b, n) \<noteq> None \<longrightarrow> n \<le> LENGTH('a) \<and> pm_trunc L b n = b)"

lemma lpm_best:
  assumes "truncated m"
  shows "is_best (rows_for a m) (map_option (\<lambda>(b, n, r). (n, r)) (pm_get_lpm L a LENGTH('a) m))"
proof (cases "pm_get_lpm L a LENGTH('a) m")
  case None
  then have "\<not> net_covers b n a" if "entries m (b, n) \<noteq> None" for b n
    using lpm_none that by blast
  then have "entries m (pm_trunc L a n, n) = None" if "n \<le> LENGTH('a)" for n
    using covers_iff [OF that] trunc_trunc [OF that] by metis
  then show ?thesis using None by (simp add: is_best_def rows_for_def)
next
  case (Some x)
  obtain b n r where x: "x = (b, n, r)" by (cases x)
  note lpm = lpm_some [OF Some [unfolded x]]
  then have "n \<le> LENGTH('a)" "b = pm_trunc L a n"
    using assms covers_iff [of n b a] by (auto simp: truncated_def)
  moreover have "rows_for a m n' = None" if "n < n'" for n'
    using lpm that covers_iff [of n' "pm_trunc L a n'" a] trunc_trunc [of n' a] unfolding rows_for_def
    by (meson leD)
  ultimately show ?thesis using lpm Some x by (simp add: is_best_def rows_for_def)
qed

lemma insert_truncated:
  assumes "truncated m" and "n \<le> LENGTH('a)"
  shows "truncated (pm_insert L (pm_trunc L b n) n r m)"
    and "rows_for a (pm_insert L (pm_trunc L b n) n r m) = (if net_covers b n a then (rows_for a m)(n \<mapsto> r) else rows_for a m)"
  using assms covers_iff [OF assms(2), of b a]
  by (auto simp: truncated_def rows_for_def entries_insert trunc_trunc fun_eq_iff)

lemma lpm_longest:
  assumes "\<forall>(b, n, r) \<in> set nets. n \<le> LENGTH('a)"
  shows "map_option (\<lambda>(_, _, r). r)
      (pm_get_lpm L a LENGTH('a) (fold (\<lambda>(b, n, r). pm_insert L (pm_trunc L b n) n r) nets (pm_empty L))) =
    longest_match nets a"
proof -
  let ?m = "\<lambda>nets. fold (\<lambda>(b, n, r). pm_insert L (pm_trunc L b n) n r) nets (pm_empty L)"
  have "truncated (?m nets) \<and> is_best (rows_for a (?m nets)) (fold (better_match a) nets None)"
    using assms
  proof (induction nets rule: rev_induct)
    case Nil
    then show ?case by (simp add: truncated_def is_best_def rows_for_def entries_empty)
  next
    case (snoc net nets)
    obtain b n r where "net = (b, n, r)" by (cases net)
    then show ?case
      using snoc insert_truncated [of "?m nets" n] is_best_better [of "rows_for a (?m nets)" _ b n a r] by simp
  qed
  then have "map_option (\<lambda>(b, n, r). (n, r)) (pm_get_lpm L a LENGTH('a) (?m nets)) = fold (better_match a) nets None"
    using is_best_unique lpm_best by blast
  from arg_cong [OF this, of "map_option snd"] show ?thesis
    by (simp add: longest_match_def option.map_comp comp_def case_prod_unfold)
qed

end

text \<open>The networks of either family among those given.\<close>

definition nets4 :: "(ip_net \<times> row) list \<Rightarrow> (u32 \<times> nat \<times> row) list" where
  "nets4 nets = List.map_filter (\<lambda>(net, r). case net of Net4 a n \<Rightarrow> Some (a, n, r) | Net6 _ _ \<Rightarrow> None) nets"

definition nets6 :: "(ip_net \<times> row) list \<Rightarrow> (u128 \<times> nat \<times> row) list" where
  "nets6 nets = List.map_filter (\<lambda>(net, r). case net of Net6 a n \<Rightarrow> Some (a, n, r) | Net4 _ _ \<Rightarrow> None) nets"

definition net_ok :: "ip_net \<Rightarrow> bool" where
  "net_ok net = (case net of Net4 _ n \<Rightarrow> n \<le> 32 | Net6 _ n \<Rightarrow> n \<le> 128)"

lemma prefix_table_fold:
  "fold (\<lambda>(net, r). prefix_table_insert L4 L6 net r) nets t =
    \<lparr>pt_ipv4 = fold (\<lambda>(b, n, r). pm_insert L4 (pm_trunc L4 b n) n r) (nets4 nets) (pt_ipv4 t),
     pt_ipv6 = fold (\<lambda>(b, n, r). pm_insert L6 (pm_trunc L6 b n) n r) (nets6 nets) (pt_ipv6 t)\<rparr>"
  by (induction nets arbitrary: t)
    (auto simp: nets4_def nets6_def prefix_table_insert_def List.map_filter_simps split: ip_net.splits)

text \<open>C10. A prefix table answers with the row of the longest prefix that holds the address, the last one given where
  a prefix was given twice, whichever family the address is of; and with nothing for any other key.\<close>

theorem prefix_table_longest:
  assumes "prefix_lib_spec L4 entries4" and "prefix_lib_spec L6 entries6" and "\<forall>(net, r) \<in> set nets. net_ok net"
  shows "prefix_table_lookup L4 L6 (fold (\<lambda>(net, r). prefix_table_insert L4 L6 net r) nets (prefix_table_default L4 L6)) k =
    (case k of
       [KeyIp (V4 ip)] \<Rightarrow> longest_match (nets4 nets) ip
     | [KeyIp (V6 ip)] \<Rightarrow> longest_match (nets6 nets) ip
     | _ \<Rightarrow> None)"
proof -
  have "\<forall>(b, n, r) \<in> set (nets4 nets). n \<le> LENGTH(32)" "\<forall>(b, n, r) \<in> set (nets6 nets). n \<le> LENGTH(128)"
    using assms(3) by (auto simp: nets4_def nets6_def net_ok_def List.map_filter_def split: ip_net.splits)
  then show ?thesis
    using prefix_lib_spec.lpm_longest [OF assms(1)] prefix_lib_spec.lpm_longest [OF assms(2)]
    by (auto simp: prefix_table_fold prefix_table_lookup_def prefix_table_default_def split: list.splits key.splits ip_addr.splits)
qed

definition example_row :: "string \<Rightarrow> row" where
  "example_row v = \<lparr>row_schema = [''site''], row_values = [Some v]\<rparr>"

theorem prefix_table_longest_witness:
  "prefix_table_lookup prefix_ref prefix_ref (fold (\<lambda>(net, r). prefix_table_insert prefix_ref prefix_ref net r)
      [(Net4 0x0A000000 8, example_row ''core''), (Net4 0x0A010000 16, example_row ''edge''), (Net4 0x0A020000 16, example_row ''lab'')]
      (prefix_table_default prefix_ref prefix_ref)) [KeyIp (V4 0x0A010203)] = Some (example_row ''edge'')"
proof -
  let ?nets = "[(Net4 0x0A000000 8, example_row ''core''), (Net4 0x0A010000 16, example_row ''edge''), (Net4 0x0A020000 16, example_row ''lab'')]"
  have "longest_match (nets4 ?nets) 0x0A010203 = Some (example_row ''edge'')" by code_simp
  then show ?thesis
    using prefix_table_longest [OF prefix_ref.prefix_lib_spec_axioms prefix_ref.prefix_lib_spec_axioms, of ?nets
        "[KeyIp (V4 0x0A010203)]"] by (simp add: net_ok_def)
qed

section \<open>What a CSV file is read to\<close>

definition source_ok :: "(u32, 'm4) prefix_lib \<Rightarrow> (u128, 'm6) prefix_lib \<Rightarrow> nat \<Rightarrow> ('m4, 'm6) source \<Rightarrow> bool" where
  "source_ok L4 L6 width s \<longleftrightarrow> (\<forall>k r. source_lookup L4 L6 s k = Some r \<longrightarrow> length (row_values r) = width)"

text \<open>The row and the key of a record; an empty cell has no value.\<close>

definition record_row :: "key_texts \<Rightarrow> schema \<Rightarrow> nat list \<Rightarrow> string list \<Rightarrow> row" where
  "record_row T schema column_indexes fs =
     \<lparr>row_schema = schema,
      row_values = map (\<lambda>i. if csv_cell T fs i \<noteq> [] then Some (csv_cell T fs i) else None) column_indexes\<rparr>"

definition record_key :: "key_texts \<Rightarrow> key_type list \<Rightarrow> nat list \<Rightarrow> string list \<Rightarrow> enrich_error + key list" where
  "record_key T key_types key_indexes fs = parse_keys T (zip (map (csv_cell T fs) key_indexes) key_types)"

lemma positions_length: "positions headers cs = Inr is \<Longrightarrow> length is = length cs"
  by (induction cs arbitrary: "is") (auto split: option.splits sum.splits)

lemma read_records_Cons:
  assumes "length column_indexes = length schema"
  shows "read_records T key_indexes column_indexes schema emit (Some fs # recs) t =
    (if list_ex (\<lambda>k. k = []) (map (csv_cell T fs) key_indexes) then Some (Inl DataError)
     else case emit (map (csv_cell T fs) key_indexes) (record_row T schema column_indexes fs) t of
            Inl e \<Rightarrow> Some (Inl e)
          | Inr t \<Rightarrow> read_records T key_indexes column_indexes schema emit recs t)"
  using assms by (simp add: schema_row_def record_row_def Let_def)

lemma map_sum_Inr: "map_sum id f z = Inr s \<longleftrightarrow> (\<exists>t. z = Inr t \<and> s = f t)"
  by (cases z) auto

lemma emit_record:
  "emit_exact T key_types (map (csv_cell T fs) key_indexes) r t =
    (case record_key T key_types key_indexes fs of Inl e \<Rightarrow> Inl e | Inr k \<Rightarrow> Inr (exact_table_insert k r t))"
  by (simp add: emit_exact_def record_key_def)

lemma read_exact:
  assumes "read_records T key_indexes column_indexes schema (emit_exact T key_types) recs t = Some (Inr t')"
    and "length column_indexes = length schema"
  shows "\<exists>fss. recs = map Some fss \<and> (\<forall>fs \<in> set fss. \<not> isl (record_key T key_types key_indexes fs)) \<and>
    t' = fold (\<lambda>fs. exact_table_insert (projr (record_key T key_types key_indexes fs)) (record_row T schema column_indexes fs)) fss t"
  using assms(1)
proof (induction recs arbitrary: t)
  case (Cons rec recs)
  then obtain fs k where fs: "rec = Some fs" and k: "record_key T key_types key_indexes fs = Inr k"
    and rest: "read_records T key_indexes column_indexes schema (emit_exact T key_types) recs
      (exact_table_insert k (record_row T schema column_indexes fs) t) = Some (Inr t')"
    by (cases rec) (auto simp: read_records_Cons [OF assms(2)] emit_record simp del: read_records.simps(3)
        split: if_splits sum.splits)
  from Cons.IH [OF rest] obtain fss where "recs = map Some fss"
    "\<forall>fs \<in> set fss. \<not> isl (record_key T key_types key_indexes fs)"
    "t' = fold (\<lambda>fs. exact_table_insert (projr (record_key T key_types key_indexes fs)) (record_row T schema column_indexes fs)) fss
      (exact_table_insert k (record_row T schema column_indexes fs) t)" by blast
  then show ?case using fs k by (intro exI [of _ "fs # fss"]) simp
qed simp

lemma exact_fold_lookup:
  "exact_table_lookup (fold (\<lambda>x. exact_table_insert (f x) (g x)) xs t) k =
    (case map_of (rev (map (\<lambda>x. (f x, g x)) xs)) k of Some r \<Rightarrow> Some r | None \<Rightarrow> exact_table_lookup t k)"
  by (induction xs rule: rev_induct) (auto simp: exact_table_lookup_def exact_table_insert_def hm_laws)

text \<open>C11. An exact table answers with the row of the last record that has the key, and with nothing for a key no record
  has: every record is read, its key cells in the order of the key columns as keys of their types, and its row holds a value
  for every column of the schema but the empty ones. One unreadable record, key or header refuses the file.\<close>

theorem csv_exact_table:
  assumes "csv_open T L4 L6 input key_columns (CsvExact key_types) schema = Some (Inr s)"
  shows "\<exists>headers fss key_indexes column_indexes.
    ci_headers input = Some headers \<and> ci_records input = map Some fss \<and>
    distinct (map (kt_trim T) headers) \<and> [] \<notin> set (map (kt_trim T) headers) \<and>
    positions (map (kt_trim T) headers) key_columns = Inr key_indexes \<and>
    positions (map (kt_trim T) headers) schema = Inr column_indexes \<and>
    (\<forall>fs \<in> set fss. \<not> isl (record_key T key_types key_indexes fs)) \<and>
    (\<forall>k. source_lookup L4 L6 s k =
      map_of (rev (map (\<lambda>fs. (projr (record_key T key_types key_indexes fs), record_row T schema column_indexes fs)) fss)) k) \<and>
    source_ok L4 L6 (length schema) s"
proof -
  from assms obtain headers key_indexes column_indexes t
    where parts: "ci_headers input = Some headers" "distinct (map (kt_trim T) headers)" "[] \<notin> set (map (kt_trim T) headers)"
      "positions (map (kt_trim T) headers) key_columns = Inr key_indexes"
      "positions (map (kt_trim T) headers) schema = Inr column_indexes" "s = ExactSource t"
      and read: "read_records T key_indexes column_indexes schema (emit_exact T key_types) (ci_records input) hm_empty = Some (Inr t)"
    by (auto simp: csv_open_def csv_read_def Let_def list_ex_iff map_sum_Inr split: option.splits if_splits sum.splits)
  from read_exact [OF read positions_length [OF parts(5)]] obtain fss
    where fss: "ci_records input = map Some fss" "\<forall>fs \<in> set fss. \<not> isl (record_key T key_types key_indexes fs)"
      "t = fold (\<lambda>fs. exact_table_insert (projr (record_key T key_types key_indexes fs)) (record_row T schema column_indexes fs)) fss hm_empty"
    by blast
  have lookup: "source_lookup L4 L6 s k =
      map_of (rev (map (\<lambda>fs. (projr (record_key T key_types key_indexes fs), record_row T schema column_indexes fs)) fss)) k" for k
    unfolding parts(6) fss(3) source_lookup_def source.case exact_fold_lookup
    by (simp add: exact_table_lookup_def hm_laws split: option.split)
  have "source_ok L4 L6 (length schema) s"
    using positions_length [OF parts(5)] unfolding source_ok_def lookup
    by (auto simp: record_row_def dest!: map_of_SomeD)
  then show ?thesis using parts fss(1,2) lookup by blast
qed

definition example_texts :: key_texts where
  "example_texts = \<lparr>kt_trim = (\<lambda>s. s), kt_ip = (\<lambda>s. if s = ''10.0.0.1'' then Some (V4 0x0A000001) else None),
     kt_u64 = (\<lambda>s. if s = ''1'' then Some 1 else if s = ''2'' then Some 2 else None), kt_net = (\<lambda>_. None)\<rparr>"

theorem csv_exact_table_witness:
  "\<exists>s. csv_open example_texts (prefix_ref :: (u32, _) prefix_lib) (prefix_ref :: (u128, _) prefix_lib)
      \<lparr>ci_headers = Some [''name'', ''exporter'', ''ifindex''],
       ci_records = [Some [''uplink'', ''10.0.0.1'', ''1''], Some [''lan'', ''10.0.0.1'', ''2''], Some [''wan'', ''10.0.0.1'', ''1'']]\<rparr>
      [''exporter'', ''ifindex''] (CsvExact [KtIp, KtNumber]) [''name''] = Some (Inr s) \<and>
    source_ok prefix_ref prefix_ref 1 s"
proof -
  let ?input = "\<lparr>ci_headers = Some [''name'', ''exporter'', ''ifindex''],
       ci_records = [Some [''uplink'', ''10.0.0.1'', ''1''], Some [''lan'', ''10.0.0.1'', ''2''], Some [''wan'', ''10.0.0.1'', ''1'']]\<rparr>"
  have "case csv_open example_texts (prefix_ref :: (u32, _) prefix_lib) (prefix_ref :: (u128, _) prefix_lib) ?input
      [''exporter'', ''ifindex''] (CsvExact [KtIp, KtNumber]) [''name''] of Some (Inr _) \<Rightarrow> True | _ \<Rightarrow> False"
    by code_simp
  then obtain s where s: "csv_open example_texts (prefix_ref :: (u32, _) prefix_lib) (prefix_ref :: (u128, _) prefix_lib) ?input
      [''exporter'', ''ifindex''] (CsvExact [KtIp, KtNumber]) [''name''] = Some (Inr s)"
    by (auto split: option.splits sum.splits)
  from csv_exact_table [OF this] have "source_ok prefix_ref prefix_ref (length [''name'']) s" by blast
  then show ?thesis using s by auto
qed

section \<open>Enriching a flow\<close>

definition keys_of :: "common_flow \<Rightarrow> lookup_key list \<Rightarrow> key list option" where
  "keys_of flow ks = (if list_all (\<lambda>k. lk_extract k flow \<noteq> None) ks then Some (map (\<lambda>k. the (lk_extract k flow)) ks) else None)"

text \<open>The values a row, and then all the groups in order, have for an output.\<close>

definition row_offers :: "row \<Rightarrow> (nat \<times> nat) list \<Rightarrow> nat \<Rightarrow> string list" where
  "row_offers r fs o1 = List.map_filter (\<lambda>(column, output). if output = o1 then row_values r ! column else None) fs"

definition offers ::
    "(u32, 'm4) prefix_lib \<Rightarrow> (u128, 'm6) prefix_lib \<Rightarrow> common_flow \<Rightarrow> (('m4, 'm6) source \<times> group) list \<Rightarrow> nat \<Rightarrow> string list" where
  "offers L4 L6 flow gs o1 = concat (map (\<lambda>(s, g). case keys_of flow (gr_keys g) \<bind> source_lookup L4 L6 s of
     None \<Rightarrow> [] | Some r \<Rightarrow> row_offers r (gr_fields g) o1) gs)"

definition last_or :: "'v option \<Rightarrow> 'v list \<Rightarrow> 'v option" where
  "last_or d vs = (if vs = [] then d else Some (last vs))"

lemma last_or_simps [simp]: "last_or d [] = d" "last_or (last_or d xs) ys = last_or d (xs @ ys)" "last_or d (v # vs) = last_or (Some v) vs"
  by (simp_all add: last_or_def)

lemma extract_keys_eq: "length ks \<le> room \<Longrightarrow> extract_keys room flow ks = Some (keys_of flow ks)"
  by (induction ks arbitrary: room) (auto simp: keys_of_def Suc_le_eq split: option.splits nat.splits)

lemma set_fields_last:
  assumes "\<forall>(column, output) \<in> set fs. column < length (row_values r) \<and> output < length out"
  shows "\<exists>out'. set_fields r fs out = Some out' \<and> length out' = length out \<and>
    (\<forall>o1 < length out. out' ! o1 = last_or (out ! o1) (row_offers r fs o1))"
  using assms
proof (induction fs arbitrary: out)
  case (Cons f fs)
  obtain c i where f: "f = (c, i)" by force
  show ?case
  proof (cases "row_values r ! c")
    case None
    then show ?thesis using Cons.IH [of out] Cons.prems f by (auto simp: row_offers_def List.map_filter_simps)
  next
    case (Some v)
    from Cons.IH [of "out[i := Some v]"] Cons.prems obtain out' where
      "set_fields r fs (out[i := Some v]) = Some out'" "length out' = length out"
      "\<forall>o1 < length out. out' ! o1 = last_or (out[i := Some v] ! o1) (row_offers r fs o1)"
      by auto
    then show ?thesis
      using Some Cons.prems f by (auto simp: row_offers_def List.map_filter_simps nth_list_update)
  qed
qed (simp add: row_offers_def List.map_filter_simps)

definition group_ok :: "(u32, 'm4) prefix_lib \<Rightarrow> (u128, 'm6) prefix_lib \<Rightarrow> nat \<Rightarrow> ('m4, 'm6) source \<times> group \<Rightarrow> bool" where
  "group_ok L4 L6 outputs sg = (case sg of (s, g) \<Rightarrow> length (gr_keys g) \<le> MAX_KEYS \<and>
     (\<exists>width. source_ok L4 L6 width s \<and> (\<forall>(column, output) \<in> set (gr_fields g). column < width \<and> output < outputs)))"

lemma enrich_group_last:
  assumes "group_ok L4 L6 (length out) (s, g)"
  shows "\<exists>out'. enrich_group L4 L6 flow s g out = Some out' \<and> length out' = length out \<and>
    (\<forall>o1 < length out. out' ! o1 = last_or (out ! o1) (offers L4 L6 flow [(s, g)] o1))"
proof -
  from assms obtain width where ok: "length (gr_keys g) \<le> MAX_KEYS" "source_ok L4 L6 width s"
    "\<forall>(column, output) \<in> set (gr_fields g). column < width \<and> output < length out" by (auto simp: group_ok_def)
  show ?thesis
  proof (cases "keys_of flow (gr_keys g) \<bind> source_lookup L4 L6 s")
    case None
    then show ?thesis by (simp add: enrich_group_def extract_keys_eq [OF ok(1)] offers_def)
  next
    case (Some r)
    then have "length (row_values r) = width" using ok(2) by (auto simp: source_ok_def split: bind_splits)
    then show ?thesis
      using set_fields_last [of "gr_fields g" r out] ok(3) Some
      by (simp add: enrich_group_def extract_keys_eq [OF ok(1)] offers_def)
  qed
qed

lemma enrich_groups_last:
  assumes "\<forall>sg \<in> set gs. group_ok L4 L6 (length out) sg"
  shows "\<exists>out'. enrich_groups L4 L6 flow gs out = Some out' \<and> length out' = length out \<and>
    (\<forall>o1 < length out. out' ! o1 = last_or (out ! o1) (offers L4 L6 flow gs o1))"
  using assms
proof (induction gs arbitrary: out)
  case (Cons sg gs)
  obtain s g where sg: "sg = (s, g)" by force
  obtain out1 where out1: "enrich_group L4 L6 flow s g out = Some out1" "length out1 = length out"
    "\<forall>o1 < length out. out1 ! o1 = last_or (out ! o1) (offers L4 L6 flow [(s, g)] o1)"
    using enrich_group_last [of L4 L6 out s g flow] Cons.prems sg by auto
  obtain out2 where out2: "enrich_groups L4 L6 flow gs out1 = Some out2" "length out2 = length out"
    "\<forall>o1 < length out. out2 ! o1 = last_or (out1 ! o1) (offers L4 L6 flow gs o1)"
    using Cons.IH [of out1] Cons.prems out1(2) by auto
  have "offers L4 L6 flow (sg # gs) o1 = offers L4 L6 flow [(s, g)] o1 @ offers L4 L6 flow gs o1" for o1
    by (simp add: offers_def sg)
  then show ?case using out1 out2 sg by simp
qed (simp add: offers_def)

section \<open>The engine's invariant\<close>

text \<open>The engines that adding configurations and reloading tables lead to, with the number of columns of each
  configuration. The configurations are those \<^verbatim>\<open>parse_enrich_arg\<close> makes: the columns are the source columns of the
  mappings, and at most \<open>MAX_KEYS\<close> keys form a lookup key.\<close>

inductive engine_reachable ::
    "(u32, 'm4) prefix_lib \<Rightarrow> (u128, 'm6) prefix_lib \<Rightarrow> nat list \<Rightarrow> ('m4, 'm6) engine \<Rightarrow> bool" for L4 L6 where
  new: "engine_reachable L4 L6 [] engine_new"
| added: "engine_reachable L4 L6 widths e \<Longrightarrow>
    \<forall>m \<in> set mappings. fp_source_column m \<in> set columns \<and> length (fp_keys m) \<le> MAX_KEYS \<Longrightarrow>
    source_ok L4 L6 (length columns) s \<Longrightarrow>
    engine_add L4 L6 columns mappings (Inr s) e = Some (e', result) \<Longrightarrow>
    engine_reachable L4 L6 (widths @ [length columns]) e'"
| reloaded: "engine_reachable L4 L6 widths e \<Longrightarrow> i < length (eg_lookups e) \<Longrightarrow>
    (\<And>s. loaded = Inr s \<Longrightarrow> source_ok L4 L6 (widths ! i) s) \<Longrightarrow>
    engine_reachable L4 L6 widths (e\<lparr>eg_lookups := (eg_lookups e)[i := (eg_lookups e ! i)\<lparr>lo_table :=
      fst (table_reload L4 L6 loaded (lo_table (eg_lookups e ! i)))\<rparr>]\<rparr>)"

definition field_ok :: "nat \<Rightarrow> nat \<Rightarrow> group \<Rightarrow> bool" where
  "field_ok width outputs g \<longleftrightarrow> length (gr_keys g) \<le> MAX_KEYS \<and>
     list_all (\<lambda>(column, output). column < width \<and> output < outputs) (gr_fields g)"

definition fields_ok :: "nat \<Rightarrow> nat \<Rightarrow> group list \<Rightarrow> bool" where
  "fields_ok width outputs gs = list_all (field_ok width outputs) gs"

definition engine_ok :: "(u32, 'm4) prefix_lib \<Rightarrow> (u128, 'm6) prefix_lib \<Rightarrow> nat list \<Rightarrow> ('m4, 'm6) engine \<Rightarrow> bool" where
  "engine_ok L4 L6 widths e \<longleftrightarrow> distinct (eg_output_fields e) \<and>
     list_all2 (\<lambda>width l. source_ok L4 L6 width (tb_source (lo_table l)) \<and>
       fields_ok width (length (eg_output_fields e)) (lo_groups l)) widths (eg_lookups e)"

lemma position_of_Some: "position_of x xs = Some i \<Longrightarrow> i < length xs \<and> xs ! i = x"
  by (induction xs arbitrary: i) (auto split: if_splits)

lemma position_of_None: "position_of x xs = None \<longleftrightarrow> x \<notin> set xs"
  by (induction xs) auto

lemma fields_ok_more: "fields_ok width n gs \<Longrightarrow> n \<le> n' \<Longrightarrow> fields_ok width n' gs"
  by (fastforce simp: fields_ok_def field_ok_def list_all_iff)

lemma fields_ok_add:
  "fields_ok width n gs \<Longrightarrow> length keys \<le> MAX_KEYS \<Longrightarrow> column < width \<Longrightarrow> output < n \<Longrightarrow>
    fields_ok width n (add_field keys (column, output) gs)"
  by (induction gs) (simp_all add: fields_ok_def field_ok_def)

lemma add_mappings_ok:
  assumes "\<forall>m \<in> set ms. fp_source_column m \<in> set columns \<and> length (fp_keys m) \<le> MAX_KEYS"
    and "distinct ofs" and "fields_ok (length columns) (length ofs) gs"
  shows "\<exists>ofs' gs'. add_mappings columns ms (ofs, gs) = Some (ofs', gs') \<and> distinct ofs' \<and> length ofs \<le> length ofs' \<and>
    fields_ok (length columns) (length ofs') gs'"
  using assms
proof (induction ms arbitrary: ofs gs)
  case (Cons m ms)
  define out where "out = (case position_of (fp_output_field m) ofs of
      Some i \<Rightarrow> (ofs, i) | None \<Rightarrow> (ofs @ [fp_output_field m], length ofs))"
  obtain ofs1 i where i: "out = (ofs1, i)" by force
  then have ofs1: "distinct ofs1" "length ofs \<le> length ofs1" "i < length ofs1"
    using Cons.prems(2) position_of_Some [of "fp_output_field m" ofs] position_of_None [of "fp_output_field m" ofs]
    by (auto simp: out_def split: option.splits)
  obtain c where c: "position_of (fp_source_column m) columns = Some c" "c < length columns"
    using Cons.prems(1) position_of_None position_of_Some by (metis list.set_intros(1) not_Some_eq)
  have "fields_ok (length columns) (length ofs1) (add_field (fp_keys m) (c, i) gs)"
    using Cons.prems ofs1 c(2) by (intro fields_ok_add) (auto intro: fields_ok_more)
  from Cons.IH [OF _ ofs1(1) this] Cons.prems(1) obtain ofs' gs' where
    "add_mappings columns ms (ofs1, add_field (fp_keys m) (c, i) gs) = Some (ofs', gs')" "distinct ofs'"
    "length ofs1 \<le> length ofs'" "fields_ok (length columns) (length ofs') gs'" by auto
  then show ?case using c(1) i ofs1(2) by (simp add: out_def [symmetric])
qed simp

lemma engine_reachable_ok: "engine_reachable L4 L6 widths e \<Longrightarrow> engine_ok L4 L6 widths e"
proof (induction rule: engine_reachable.induct)
  case new
  show ?case by (simp add: engine_ok_def engine_new_def)
next
  case (added widths e mappings columns s e' result)
  obtain ofs gs where add: "add_mappings columns mappings (eg_output_fields e, []) = Some (ofs, gs)" "distinct ofs"
    "length (eg_output_fields e) \<le> length ofs" "fields_ok (length columns) (length ofs) gs"
    using add_mappings_ok [OF added(2), of "eg_output_fields e" "[]"] added(5) by (auto simp: engine_ok_def fields_ok_def)
  have "list_all2 (\<lambda>width l. source_ok L4 L6 width (tb_source (lo_table l)) \<and> fields_ok width (length ofs) (lo_groups l))
      widths (eg_lookups e)"
    using added(5) fields_ok_more [OF _ add(3)] unfolding engine_ok_def by (blast intro: list_all2_mono)
  then show ?case
    using added(3,4) add
    by (auto simp: engine_ok_def engine_add_def table_new_def table_record_load_def intro!: list_all2_appendI)
next
  case (reloaded widths e i loaded)
  then show ?case
    by (cases loaded)
      (auto simp: engine_ok_def table_reload_def table_record_load_def list_all2_conv_all_nth nth_list_update Let_def)
qed

text \<open>C9. Enrichment never panics, whatever configurations were added and however often tables were reloaded or failed to be:
  every value of the result is the last one the groups offer for its field, in the order of the sources, of their groups
  and of the fields in a group. A group offers what its row has when the flow has all of its keys and the source finds
  them; what nothing is offered for stays empty, whatever the buffer held before.\<close>

theorem enrich_last_match:
  assumes "engine_reachable L4 L6 widths e" and "length out = length (eg_output_fields e)"
  shows "\<exists>out'. snapshot_enrich L4 L6 e (engine_snapshot e) flow out = Some out' \<and> length out' = length out \<and>
    (\<forall>o1 < length out. out' ! o1 = last_or None
      (offers L4 L6 flow (concat (map (\<lambda>l. map (\<lambda>g. (tb_source (lo_table l), g)) (lo_groups l)) (eg_lookups e))) o1))"
proof -
  let ?gs = "concat (map (\<lambda>l. map (\<lambda>g. (tb_source (lo_table l), g)) (lo_groups l)) (eg_lookups e))"
  have groups: "concat (map (\<lambda>(l, s). map (\<lambda>g. (s, g)) (lo_groups l)) (zip (eg_lookups e) (engine_snapshot e))) = ?gs"
    unfolding engine_snapshot_def by (induction "eg_lookups e" arbitrary: e) (simp_all add: zip_map2 comp_def zip_same_conv_map)
  have "group_ok L4 L6 (length out) sg" if "sg \<in> set ?gs" for sg
  proof -
    from that obtain l g where "l \<in> set (eg_lookups e)" "g \<in> set (lo_groups l)" "sg = (tb_source (lo_table l), g)" by auto
    moreover from this obtain width where "source_ok L4 L6 width (tb_source (lo_table l))"
      "fields_ok width (length out) (lo_groups l)"
      using engine_reachable_ok [OF assms(1)] assms(2) by (auto simp: engine_ok_def list_all2_conv_all_nth in_set_conv_nth)
    ultimately show ?thesis by (force simp: group_ok_def fields_ok_def field_ok_def list_all_iff)
  qed
  then show ?thesis
    using enrich_groups_last [of ?gs L4 L6 "replicate (length out) None" flow] by (simp add: snapshot_enrich_def groups)
qed

definition example_source :: "(((u32 \<times> nat) \<times> row) list, ((u128 \<times> nat) \<times> row) list) source" where
  "example_source = ExactSource (exact_table_insert [KeyNumber 80] (example_row ''web'') hm_empty)"

definition example_engine :: "(((u32 \<times> nat) \<times> row) list, ((u128 \<times> nat) \<times> row) list) engine" where
  "example_engine = fst (the (engine_add prefix_ref prefix_ref [''site'']
     [\<lparr>fp_keys = [lookup_number ''dst_port'' cf_dst_port], fp_source_column = ''site'', fp_output_field = ''service''\<rparr>]
     (Inr example_source) engine_new))"

lemma example_engine_reachable: "engine_reachable prefix_ref prefix_ref [1] example_engine"
    "eg_output_fields example_engine = [''service'']"
proof -
  let ?m = "\<lparr>fp_keys = [lookup_number ''dst_port'' cf_dst_port], fp_source_column = ''site'', fp_output_field = ''service''\<rparr>"
  have ok: "source_ok prefix_ref prefix_ref (length [''site'']) example_source"
    by (simp add: source_ok_def example_source_def source_lookup_def exact_table_lookup_def exact_table_insert_def hm_laws example_row_def)
  obtain e r where add: "engine_add prefix_ref prefix_ref [''site''] [?m] (Inr example_source) engine_new = Some (e, r)"
    "eg_output_fields e = [''service'']"
    by (simp add: engine_add_def engine_new_def table_new_def)
  then have e: "example_engine = e" by (simp add: example_engine_def)
  have "engine_reachable prefix_ref prefix_ref ([] @ [length [''site'']]) e"
    by (rule engine_reachable.added [OF engine_reachable.new _ ok add(1)]) (simp add: MAX_KEYS_def)
  then show "engine_reachable prefix_ref prefix_ref [1] example_engine" "eg_output_fields example_engine = [''service'']"
    using e add(2) by simp_all
qed

theorem enrich_last_match_witness:
  "snapshot_enrich prefix_ref prefix_ref example_engine (engine_snapshot example_engine)
    ((common_flow_new IpfixFlow)\<lparr>cf_dst_port := Some 80\<rparr>) [Some ''stale''] = Some [Some ''web'']"
proof -
  let ?flow = "(common_flow_new IpfixFlow)\<lparr>cf_dst_port := Some 80\<rparr>"
  obtain out' where out': "snapshot_enrich prefix_ref prefix_ref example_engine (engine_snapshot example_engine) ?flow [Some ''stale''] = Some out'"
    "length out' = 1" "out' ! 0 = last_or None (offers prefix_ref prefix_ref ?flow
      (concat (map (\<lambda>l. map (\<lambda>g. (tb_source (lo_table l), g)) (lo_groups l)) (eg_lookups example_engine))) 0)"
    using enrich_last_match [OF example_engine_reachable(1), of "[Some ''stale'']" ?flow] example_engine_reachable(2) by auto
  moreover have "concat (map (\<lambda>l. map (\<lambda>g. (tb_source (lo_table l), g)) (lo_groups l)) (eg_lookups example_engine)) =
      [(example_source, \<lparr>gr_keys = [lookup_number ''dst_port'' cf_dst_port], gr_fields = [(0, 0)]\<rparr>)]"
    by (simp add: example_engine_def engine_add_def engine_new_def table_new_def table_record_load_def)
  ultimately show ?thesis
    by (auto simp: offers_def keys_of_def lookup_number_def example_source_def source_lookup_def exact_table_lookup_def
        exact_table_insert_def hm_laws row_offers_def List.map_filter_simps example_row_def length_Suc_conv)
qed

end
