(* ===== verification/OutputEncoder.thy ===== *)
theory OutputEncoder
  imports Enrich Destination
begin

text \<open>
  The encoders of the collector's output (\<^verbatim>\<open>rustflow_collect/src/sink/encoder\<close>: the trait, NDJSON and discard)
  and the writer under them that counts bytes (\<^verbatim>\<open>sink/metrics.rs\<close>).

  Parameters are \<open>stream_ops\<close>, one write and the flush of an open stream, and \<open>json\<close>, the text \<^verbatim>\<open>serde_json\<close>
  gives a flow with further entries. A file stream is named by the path the file was opened under. Interrupted
  writes are taken to be repeated inside \<open>st_write\<close>. \<^verbatim>\<open>BufWriter\<close> is modelled as the standard library has it.
  Counters are natural numbers.

  \<open>encoder_spec\<close> is what an encoder promises its sink: what it has put into the file and what it still holds make up the
  header and the lines of its records, and finishing puts all of it into the file. NDJSON and discard keep it.
\<close>

section \<open>Streams\<close>

record output_metrics =
  om_flows :: nat
  om_bytes :: nat
  om_files :: nat
  om_write_errors :: nat
  om_rotate_errors :: nat

text \<open>What the sink acts on: the world, the metrics and the jobs handed to the hook.\<close>

record 'w out =
  ow_world :: 'w
  ow_metrics :: output_metrics
  ow_jobs :: "job list"

record 'w stream_ops =
  st_write :: "writer \<Rightarrow> bytes \<Rightarrow> 'w \<Rightarrow> 'w \<times> (io_error + nat)"
  st_flush :: "writer \<Rightarrow> 'w \<Rightarrow> 'w \<times> io_error option"

locale stream_spec = fs_spec F files
  for F :: "'w fs" and files :: "'w \<Rightarrow> path \<Rightarrow> bytes option" +
  fixes S :: "'w stream_ops"
  assumes open_truncated_ok: "fs_open_truncated F p w = (w', None) \<Longrightarrow> files w' = (files w)(p := Some [])"
    and open_truncated_err: "fs_open_truncated F p w = (w', Some e) \<Longrightarrow> files w' = files w"
    and create_dir_all_files: "files (fst (fs_create_dir_all F p w)) = files w"
    and write_ok: "st_write S (FileWriter p) b w = (w', Inr n) \<Longrightarrow> files w p = Some c \<Longrightarrow>
      n \<le> length b \<and> files w' = (files w)(p := Some (c @ take n b))"
    and write_err: "st_write S (FileWriter p) b w = (w', Inl e) \<Longrightarrow> files w p = Some c \<Longrightarrow> files w' = files w"
    and flush_files: "files (fst (st_flush S wr w)) = files w"

definition counting_write :: "'w stream_ops \<Rightarrow> writer \<Rightarrow> bytes \<Rightarrow> 'w out \<Rightarrow> 'w out \<times> (io_error + nat)" where
  "counting_write S wr buf out = (case st_write S wr buf (ow_world out) of
       (w, Inl e) \<Rightarrow> (out\<lparr>ow_world := w\<rparr>, Inl e)
     | (w, Inr n) \<Rightarrow>
         (out\<lparr>ow_world := w, ow_metrics := (ow_metrics out)\<lparr>om_bytes := om_bytes (ow_metrics out) + n\<rparr>\<rparr>, Inr n))"

definition counting_flush :: "'w stream_ops \<Rightarrow> writer \<Rightarrow> 'w out \<Rightarrow> 'w out \<times> io_error option" where
  "counting_flush S wr out = (case st_flush S wr (ow_world out) of (w, r) \<Rightarrow> (out\<lparr>ow_world := w\<rparr>, r))"

section \<open>Buffered writing\<close>

definition WRITE_BUFFER_BYTES :: nat where
  "WRITE_BUFFER_BYTES = 256 * 1024"

text \<open>The loop of \<^verbatim>\<open>write_all\<close> and \<^verbatim>\<open>flush_buf\<close>: what could not be written comes back.\<close>

fun write_from :: "'w stream_ops \<Rightarrow> writer \<Rightarrow> bytes \<Rightarrow> 'w out \<Rightarrow> 'w out \<times> bytes \<times> io_error option" where
  "write_from S wr buf out =
     (if buf = [] then (out, [], None)
      else case counting_write S wr buf out of
        (out, Inl e) \<Rightarrow> (out, buf, Some e)
      | (out, Inr n) \<Rightarrow>
          if n = 0 then (out, buf, Some OtherError) else write_from S wr (drop n buf) out)"

declare write_from.simps [simp del]

record buf_writer =
  bw_out :: writer
  bw_buf :: bytes

definition bw_flush_buf :: "'w stream_ops \<Rightarrow> buf_writer \<Rightarrow> 'w out \<Rightarrow> buf_writer \<times> 'w out \<times> io_error option" where
  "bw_flush_buf S self out = (case write_from S (bw_out self) (bw_buf self) out of
     (out, rest, r) \<Rightarrow> (self\<lparr>bw_buf := rest\<rparr>, out, r))"

definition bw_write_all ::
    "'w stream_ops \<Rightarrow> bytes \<Rightarrow> buf_writer \<Rightarrow> 'w out \<Rightarrow> buf_writer \<times> 'w out \<times> io_error option" where
  "bw_write_all S buf self out =
     (let spare = WRITE_BUFFER_BYTES - length (bw_buf self) in
      if length buf < spare then (self\<lparr>bw_buf := bw_buf self @ buf\<rparr>, out, None)
      else case (if length buf > spare then bw_flush_buf S self out else (self, out, None)) of
        (self, out, Some e) \<Rightarrow> (self, out, Some e)
      | (self, out, None) \<Rightarrow>
          if length buf \<ge> WRITE_BUFFER_BYTES
          then (case write_from S (bw_out self) buf out of (out, _, r) \<Rightarrow> (self, out, r))
          else (self\<lparr>bw_buf := bw_buf self @ buf\<rparr>, out, None))"

definition bw_flush :: "'w stream_ops \<Rightarrow> buf_writer \<Rightarrow> 'w out \<Rightarrow> buf_writer \<times> 'w out \<times> io_error option" where
  "bw_flush S self out = (case bw_flush_buf S self out of
       (self, out, Some e) \<Rightarrow> (self, out, Some e)
     | (self, out, None) \<Rightarrow> (case counting_flush S (bw_out self) out of (out, r) \<Rightarrow> (self, out, r)))"

definition bw_drop :: "'w stream_ops \<Rightarrow> buf_writer \<Rightarrow> 'w out \<Rightarrow> 'w out" where
  "bw_drop S self out = fst (snd (bw_flush_buf S self out))"

section \<open>The interface\<close>

record ('e, 'w) encoder_ops =
  en_open :: "writer \<Rightarrow> string list \<Rightarrow> 'w out \<Rightarrow> 'w out \<times> (io_error + 'e)"
  en_encode :: "common_flow \<Rightarrow> enriched \<Rightarrow> 'e \<Rightarrow> 'w out \<Rightarrow> 'e \<times> 'w out \<times> io_error option"
  en_write_raw :: "bytes \<Rightarrow> 'e \<Rightarrow> 'w out \<Rightarrow> 'e \<times> 'w out \<times> io_error option"
  en_flush :: "'e \<Rightarrow> 'w out \<Rightarrow> 'e \<times> 'w out \<times> io_error option"
  en_finish :: "'e \<Rightarrow> 'w out \<Rightarrow> 'e \<times> 'w out \<times> io_error option"
  en_drop :: "'e \<Rightarrow> 'w out \<Rightarrow> 'w out"

text \<open>How an operation may change the world: the file at \<open>p\<close>, and of the metrics the count of bytes.\<close>

definition same_counts :: "'w out \<Rightarrow> 'w out \<Rightarrow> bool" where
  "same_counts out out' \<longleftrightarrow> (ow_metrics out')\<lparr>om_bytes := 0\<rparr> = (ow_metrics out)\<lparr>om_bytes := 0\<rparr>"

definition only_file :: "('w \<Rightarrow> path \<Rightarrow> bytes option) \<Rightarrow> path \<Rightarrow> bytes \<Rightarrow> 'w out \<Rightarrow> 'w out \<Rightarrow> bool" where
  "only_file files p d out out' \<longleftrightarrow> files (ow_world out') = (files (ow_world out))(p := Some d) \<and>
     same_counts out out' \<and> ow_jobs out' = ow_jobs out"

locale encoder_spec =
  fixes files :: "'w \<Rightarrow> path \<Rightarrow> bytes option" and E :: "('e, 'w) encoder_ops"
    and writer_of :: "'e \<Rightarrow> writer" and names_of :: "'e \<Rightarrow> string list" and held :: "'e \<Rightarrow> bytes"
    and header :: "string list \<Rightarrow> bytes" and line :: "string list \<Rightarrow> common_flow \<Rightarrow> enriched \<Rightarrow> bytes"
    and raw :: "bytes \<Rightarrow> bytes"
  assumes open_ok: "en_open E (FileWriter p) names out = (out', Inr e) \<Longrightarrow> files (ow_world out) p = Some [] \<Longrightarrow>
      writer_of e = FileWriter p \<and> names_of e = names \<and> (\<exists>d. only_file files p d out out' \<and> d @ held e = header names)"
    and encode_ok: "en_encode E flow en e out = (e', out', r) \<Longrightarrow> writer_of e = FileWriter p \<Longrightarrow>
      files (ow_world out) p = Some c \<Longrightarrow>
      writer_of e' = FileWriter p \<and> names_of e' = names_of e \<and>
      (\<exists>d. only_file files p d out out' \<and> (r = None \<longrightarrow> d @ held e' = c @ held e @ line (names_of e) flow en))"
    and write_raw_ok: "en_write_raw E b e out = (e', out', r) \<Longrightarrow> writer_of e = FileWriter p \<Longrightarrow>
      files (ow_world out) p = Some c \<Longrightarrow>
      writer_of e' = FileWriter p \<and> names_of e' = names_of e \<and>
      (\<exists>d. only_file files p d out out' \<and> (r = None \<longrightarrow> d @ held e' = c @ held e @ raw b))"
    and flush_ok: "en_flush E e out = (e', out', r) \<Longrightarrow> writer_of e = FileWriter p \<Longrightarrow>
      files (ow_world out) p = Some c \<Longrightarrow>
      writer_of e' = FileWriter p \<and> names_of e' = names_of e \<and>
      (\<exists>d. only_file files p d out out' \<and> (r = None \<longrightarrow> d @ held e' = c @ held e))"
    and finish_ok: "en_finish E e out = (e', out', r) \<Longrightarrow> writer_of e = FileWriter p \<Longrightarrow>
      files (ow_world out) p = Some c \<Longrightarrow>
      \<exists>d. only_file files p d out out' \<and> (r = None \<longrightarrow> d = c @ held e \<and> held e' = [])"
    and drop_ok: "held e = [] \<Longrightarrow> en_drop E e out = out"
    and counts_kept: "same_counts out (fst (en_open E wr names out))" "same_counts out (fst (snd (en_encode E flow en e out)))"
      "same_counts out (fst (snd (en_write_raw E b e out)))" "same_counts out (fst (snd (en_flush E e out)))"
      "same_counts out (fst (snd (en_finish E e out)))" "same_counts out (en_drop E e out)"

section \<open>NDJSON\<close>

type_synonym json = "common_flow \<Rightarrow> (string \<times> string) list \<Rightarrow> bytes option"

record ndjson =
  nj_out :: buf_writer
  nj_names :: "string list"

definition ndjson_open :: "writer \<Rightarrow> string list \<Rightarrow> 'w out \<Rightarrow> 'w out \<times> (io_error + ndjson)" where
  "ndjson_open wr enriched_fields out =
     (out, Inr \<lparr>nj_out = \<lparr>bw_out = wr, bw_buf = []\<rparr>, nj_names = enriched_fields\<rparr>)"

text \<open>The entries of \<^verbatim>\<open>EnrichedMap\<close>: the fields that have a value.\<close>

definition enriched_entries :: "string list \<Rightarrow> enriched \<Rightarrow> (string \<times> string) list" where
  "enriched_entries names vals =
     List.map_filter (\<lambda>(name, v). map_option (Pair name) v) (zip names vals)"

definition write_line ::
    "'w stream_ops \<Rightarrow> bytes option \<Rightarrow> buf_writer \<Rightarrow> 'w out \<Rightarrow> buf_writer \<times> 'w out \<times> io_error option" where
  "write_line S text self out = (case text of
       None \<Rightarrow> (self, out, Some OtherError)
     | Some line \<Rightarrow> bw_write_all S (line @ [10]) self out)"

definition on_out :: "ndjson \<Rightarrow> buf_writer \<times> 'w out \<times> io_error option \<Rightarrow> ndjson \<times> 'w out \<times> io_error option" where
  "on_out self r = (self\<lparr>nj_out := fst r\<rparr>, snd r)"

definition ndjson_encode ::
    "'w stream_ops \<Rightarrow> json \<Rightarrow> common_flow \<Rightarrow> enriched \<Rightarrow> ndjson \<Rightarrow> 'w out \<Rightarrow> ndjson \<times> 'w out \<times> io_error option" where
  "ndjson_encode S json flow vals self out =
     on_out self (write_line S (json flow (enriched_entries (nj_names self) vals)) (nj_out self) out)"

fun split_inclusive :: "bytes \<Rightarrow> bytes list" where
  "split_inclusive [] = []"
| "split_inclusive (b # bs) =
     (if b = 10 then [b] # split_inclusive bs
      else case split_inclusive bs of [] \<Rightarrow> [[b]] | l # ls \<Rightarrow> (b # l) # ls)"

fun write_lines :: "'w stream_ops \<Rightarrow> bytes list \<Rightarrow> buf_writer \<Rightarrow> 'w out \<Rightarrow> buf_writer \<times> 'w out \<times> io_error option" where
  "write_lines S [] self out = (self, out, None)"
| "write_lines S (l # ls) self out = (case bw_write_all S l self out of
       (self, out, Some e) \<Rightarrow> (self, out, Some e)
     | (self, out, None) \<Rightarrow> write_lines S ls self out)"

definition ndjson_write_raw :: "'w stream_ops \<Rightarrow> bytes \<Rightarrow> ndjson \<Rightarrow> 'w out \<Rightarrow> ndjson \<times> 'w out \<times> io_error option" where
  "ndjson_write_raw S lines self out = on_out self (write_lines S (split_inclusive lines) (nj_out self) out)"

definition ndjson_flush :: "'w stream_ops \<Rightarrow> ndjson \<Rightarrow> 'w out \<Rightarrow> ndjson \<times> 'w out \<times> io_error option" where
  "ndjson_flush S self out = on_out self (bw_flush S (nj_out self) out)"

definition ndjson_finish :: "'w stream_ops \<Rightarrow> ndjson \<Rightarrow> 'w out \<Rightarrow> ndjson \<times> 'w out \<times> io_error option" where
  "ndjson_finish S self out = on_out self (bw_flush S (nj_out self) out)"

definition ndjson_ops :: "'w stream_ops \<Rightarrow> json \<Rightarrow> (ndjson, 'w) encoder_ops" where
  "ndjson_ops S json = \<lparr>en_open = ndjson_open, en_encode = ndjson_encode S json, en_write_raw = ndjson_write_raw S,
     en_flush = ndjson_flush S, en_finish = ndjson_finish S, en_drop = (\<lambda>self. bw_drop S (nj_out self))\<rparr>"

section \<open>Discard\<close>

text \<open>\<^verbatim>\<open>Discard\<close> keeps nothing; for the laws it is given the writer it drops and the names it ignores.\<close>

definition discard_ops :: "(writer \<times> string list, 'w) encoder_ops" where
  "discard_ops = \<lparr>en_open = (\<lambda>wr names out. (out, Inr (wr, names))), en_encode = (\<lambda>_ _ e out. (e, out, None)),
     en_write_raw = (\<lambda>_ e out. (e, out, None)), en_flush = (\<lambda>e out. (e, out, None)),
     en_finish = (\<lambda>e out. (e, out, None)), en_drop = (\<lambda>_ out. out)\<rparr>"

lemma only_file_refl: "files (ow_world out) p = Some d \<Longrightarrow> only_file files p d out out"
  by (auto simp: only_file_def same_counts_def fun_upd_idem)

lemma only_file_trans: "only_file files p c out out1 \<Longrightarrow> only_file files p d out1 out2 \<Longrightarrow> only_file files p d out out2"
  by (auto simp: only_file_def same_counts_def)

interpretation discard: encoder_spec files discard_ops fst snd "\<lambda>_. []" "\<lambda>_. []" "\<lambda>_ _ _. []" "\<lambda>_. []"
  by unfold_locales (auto simp: discard_ops_def only_file_refl same_counts_def)

section \<open>NDJSON keeps the contract\<close>

context stream_spec
begin

lemma counting_write_ok:
  assumes "counting_write S (FileWriter p) b out = (out', r)" and "files (ow_world out) p = Some c"
  shows "case r of Inr n \<Rightarrow> n \<le> length b \<and> only_file files p (c @ take n b) out out' | Inl _ \<Rightarrow> only_file files p c out out'"
proof -
  obtain w r' where st: "st_write S (FileWriter p) b (ow_world out) = (w, r')" by force
  show ?thesis
    using assms st write_ok [OF _ assms(2)] write_err [OF _ assms(2)]
    by (cases r') (auto simp: counting_write_def only_file_def same_counts_def fun_upd_idem)
qed

lemma write_from_ok:
  assumes "write_from S (FileWriter p) b out = (out', rest, r)" and "files (ow_world out) p = Some c"
  shows "(\<exists>d. only_file files p d out out' \<and> d @ rest = c @ b) \<and> (r = None \<longrightarrow> rest = [])"
  using assms
proof (induction b arbitrary: c out rule: length_induct)
  case (1 b)
  show ?case
  proof (cases "b = []")
    case True
    then show ?thesis using 1 by (auto simp: write_from.simps intro: only_file_refl)
  next
    case False
    obtain o1 r1 where w: "counting_write S (FileWriter p) b out = (o1, r1)" by force
    note step = counting_write_ok [OF w 1(3)]
    show ?thesis
    proof (cases "\<exists>n. r1 = Inr n \<and> n \<noteq> 0")
      case True
      then obtain n where n: "r1 = Inr n" "n \<noteq> 0" by blast
      then have first: "only_file files p (c @ take n b) out o1" using step by simp
      then have "files (ow_world o1) p = Some (c @ take n b)" by (simp add: only_file_def)
      moreover have "write_from S (FileWriter p) (drop n b) o1 = (out', rest, r)"
        using 1(2) False w n by (simp add: write_from.simps [of _ _ b])
      moreover have "length (drop n b) < length b" using n False by simp
      ultimately show ?thesis
        using 1(1) [rule_format, of "drop n b" o1 "c @ take n b"]
        by (auto intro: only_file_trans [OF first])
    next
      case False
      then show ?thesis
        using 1(2) \<open>b \<noteq> []\<close> w step by (cases r1) (auto simp: write_from.simps [of _ _ b])
    qed
  qed
qed

lemma flush_buf_ok:
  assumes "bw_flush_buf S self out = (self', out', r)" and "bw_out self = FileWriter p" and "files (ow_world out) p = Some c"
  shows "bw_out self' = FileWriter p \<and> (\<exists>d. only_file files p d out out' \<and> d @ bw_buf self' = c @ bw_buf self) \<and>
    (r = None \<longrightarrow> bw_buf self' = [])"
  using assms write_from_ok [OF _ assms(3), of "bw_buf self"]
  by (auto simp: bw_flush_buf_def split: prod.splits)

lemma write_all_ok:
  assumes "bw_write_all S b self out = (self', out', r)" and "bw_out self = FileWriter p" and "files (ow_world out) p = Some c"
  shows "bw_out self' = FileWriter p \<and>
    (\<exists>d. only_file files p d out out' \<and> (r = None \<longrightarrow> d @ bw_buf self' = c @ bw_buf self @ b))"
proof (cases "length b < WRITE_BUFFER_BYTES - length (bw_buf self)")
  case True
  then show ?thesis using assms by (auto simp: bw_write_all_def intro: only_file_refl)
next
  case False
  obtain s1 o1 r1 where first: "(if length b > WRITE_BUFFER_BYTES - length (bw_buf self) then bw_flush_buf S self out else (self, out, None)) =
      (s1, o1, r1)" by (metis prod_cases3)
  then obtain d where d: "bw_out s1 = FileWriter p" "only_file files p d out o1" "d @ bw_buf s1 = c @ bw_buf self"
    using flush_buf_ok [OF _ assms(2,3), of s1 o1 r1] assms(2,3) only_file_refl [of files out p c]
    by (cases "length b > WRITE_BUFFER_BYTES - length (bw_buf self)") auto
  then have at: "files (ow_world o1) p = Some d" by (simp add: only_file_def)
  have emptied: "bw_buf s1 = []" if "length b \<ge> WRITE_BUFFER_BYTES" "r1 = None"
    using first that flush_buf_ok [OF _ assms(2,3), of s1 o1 r1]
    by (cases "bw_buf self = []"; cases "bw_buf self")
      (auto simp: WRITE_BUFFER_BYTES_def split: if_splits)
  show ?thesis
  proof (cases r1)
    case (Some e)
    then show ?thesis using assms(1) False first d by (auto simp: bw_write_all_def Let_def)
  next
    case None
    show ?thesis
    proof (cases "length b \<ge> WRITE_BUFFER_BYTES")
      case True
      obtain o2 rest where w: "write_from S (FileWriter p) b o1 = (o2, rest, r)" and res: "self' = s1" "out' = o2"
        using assms(1) False first None True d(1) by (auto simp: bw_write_all_def Let_def split: prod.splits)
      show ?thesis
        using write_from_ok [OF w at] emptied [OF True None] d unfolding res
        by (auto intro: only_file_trans)
    next
      case False': False
      then show ?thesis
        using assms(1) False first None d by (auto simp: bw_write_all_def Let_def)
    qed
  qed
qed

lemma flush_ok:
  assumes "bw_flush S self out = (self', out', r)" and "bw_out self = FileWriter p" and "files (ow_world out) p = Some c"
  shows "bw_out self' = FileWriter p \<and> (\<exists>d. only_file files p d out out' \<and> d @ bw_buf self' = c @ bw_buf self) \<and>
    (r = None \<longrightarrow> bw_buf self' = [])"
proof -
  obtain s1 o1 r1 where first: "bw_flush_buf S self out = (s1, o1, r1)" by (metis prod_cases3)
  note step = flush_buf_ok [OF this assms(2,3)]
  have same: "only_file files p d o1 (fst (counting_flush S wr o1))" if "files (ow_world o1) p = Some d" for wr d
    using that flush_files [of wr "ow_world o1"]
    by (auto simp: counting_flush_def only_file_def same_counts_def fun_upd_idem split: prod.splits)
  show ?thesis
  proof (cases r1)
    case None
    obtain o2 r2 where second: "counting_flush S (bw_out s1) o1 = (o2, r2)" by force
    from step obtain d where d: "only_file files p d out o1" "d @ bw_buf s1 = c @ bw_buf self" by blast
    moreover have "only_file files p d o1 o2"
      using same [of d "bw_out s1"] d(1) second by (simp add: only_file_def)
    ultimately show ?thesis
      using assms(1) first second None step by (auto simp: bw_flush_def intro: only_file_trans)
  qed (use assms(1) first step in \<open>auto simp: bw_flush_def\<close>)
qed

lemma write_lines_ok:
  assumes "write_lines S ls self out = (self', out', r)" and "bw_out self = FileWriter p" and "files (ow_world out) p = Some c"
  shows "bw_out self' = FileWriter p \<and>
    (\<exists>d. only_file files p d out out' \<and> (r = None \<longrightarrow> d @ bw_buf self' = c @ bw_buf self @ concat ls))"
  using assms
proof (induction ls arbitrary: self out c)
  case (Cons l ls)
  obtain s1 o1 r1 where first: "bw_write_all S l self out = (s1, o1, r1)" by (metis prod_cases3)
  from write_all_ok [OF this Cons.prems(2,3)] obtain d where
    d: "bw_out s1 = FileWriter p" "only_file files p d out o1" "r1 = None \<longrightarrow> d @ bw_buf s1 = c @ bw_buf self @ l" by blast
  show ?case
  proof (cases r1)
    case None
    then have "write_lines S ls s1 o1 = (self', out', r)" using Cons.prems(1) first by simp
    moreover have "files (ow_world o1) p = Some d" using d(2) by (simp add: only_file_def)
    ultimately obtain d' where d': "bw_out self' = FileWriter p" "only_file files p d' o1 out'"
      "r = None \<longrightarrow> d' @ bw_buf self' = d @ bw_buf s1 @ concat ls"
      using Cons.IH [of s1 o1 d] d(1) by blast
    have "r = None \<longrightarrow> d' @ bw_buf self' = c @ bw_buf self @ l @ concat ls"
      using d'(3) d(3) None by (metis append.assoc)
    then show ?thesis using d'(1) only_file_trans [OF d(2) d'(2)] by (metis concat.simps(2))
  qed (use Cons.prems(1) first d in auto)
qed (auto intro: only_file_refl)

lemma write_line_ok:
  assumes "write_line S text self out = (self', out', r)" and "bw_out self = FileWriter p" and "files (ow_world out) p = Some c"
  shows "bw_out self' = FileWriter p \<and>
    (\<exists>d. only_file files p d out out' \<and> (r = None \<longrightarrow> d @ bw_buf self' = c @ bw_buf self @ the text @ [10]))"
  using assms write_all_ok [OF _ assms(2,3), of "the text @ [10]"]
  by (auto simp: write_line_def intro: only_file_refl split: option.splits)

lemma drop_empty: "bw_buf self = [] \<Longrightarrow> bw_drop S self out = out"
  by (simp add: bw_drop_def bw_flush_buf_def write_from.simps)

end

lemma counting_counts: "same_counts out (fst (counting_write S wr b out))"
  by (auto simp: counting_write_def same_counts_def split: prod.splits sum.splits)

lemma write_from_counts: "same_counts out (fst (write_from S wr b out))"
proof (induction b arbitrary: out rule: length_induct)
  case (1 b)
  show ?case
  proof (cases "b = []")
    case False
    then show ?thesis
      using counting_counts [of out S wr b] 1 [rule_format, of "drop n b" for n]
      by (auto simp: write_from.simps [of _ _ b] same_counts_def split: prod.splits sum.splits)
  qed (simp add: write_from.simps same_counts_def)
qed

lemma same_counts_trans [trans]: "same_counts a b \<Longrightarrow> same_counts b c \<Longrightarrow> same_counts a c"
  by (simp add: same_counts_def)

lemma buffered_counts:
  "same_counts out (fst (snd (bw_flush_buf S self out)))" "same_counts out (fst (snd (bw_write_all S b self out)))"
  "same_counts out (fst (snd (bw_flush S self out)))" "same_counts out (fst (snd (write_line S text self out)))"
  "same_counts out (fst (snd (write_lines S ls self out)))"
proof -
  have flush: "same_counts out (fst (snd (bw_flush_buf S self out)))" for self out
    using write_from_counts [of out S "bw_out self" "bw_buf self"]
    by (simp add: bw_flush_buf_def case_prod_beta)
  have all: "same_counts out (fst (snd (bw_write_all S b self out)))" for b self out
    using flush [of out self] same_counts_trans [OF flush write_from_counts]  write_from_counts [of out S "bw_out self" b]
    by (auto simp: bw_write_all_def Let_def case_prod_beta same_counts_def split: option.splits)
  have "same_counts out (fst (snd (write_lines S ls self out)))" for self out
  proof (induction ls arbitrary: self out)
    case (Cons l ls)
    then show ?case using all [of out l self] by (auto simp: same_counts_def split: prod.splits option.splits)
  qed (simp add: same_counts_def)
  moreover have "same_counts out (fst (snd (write_line S text self out)))"
    using all by (auto simp: write_line_def same_counts_def split: option.splits)
  ultimately show "same_counts out (fst (snd (bw_flush_buf S self out)))" "same_counts out (fst (snd (bw_write_all S b self out)))"
    "same_counts out (fst (snd (write_line S text self out)))" "same_counts out (fst (snd (write_lines S ls self out)))"
    using flush all by blast+
  show "same_counts out (fst (snd (bw_flush S self out)))"
    using flush [of out self] by (auto simp: bw_flush_def counting_flush_def same_counts_def split: prod.splits option.splits)
qed

lemma concat_split_inclusive: "concat (split_inclusive b) = b"
  by (induction b) (auto split: list.splits)

text \<open>A line of NDJSON: the text of the flow with its entries, and a newline. What \<^verbatim>\<open>serde_json\<close> refuses has none.\<close>

definition ndjson_line :: "json \<Rightarrow> string list \<Rightarrow> common_flow \<Rightarrow> enriched \<Rightarrow> bytes" where
  "ndjson_line json names flow vals = the (json flow (enriched_entries names vals)) @ [10]"

lemma ndjson_spec:
  assumes "stream_spec F files S"
  shows "encoder_spec files (ndjson_ops S json) (\<lambda>e. bw_out (nj_out e)) nj_names (\<lambda>e. bw_buf (nj_out e)) (\<lambda>_. [])
    (ndjson_line json) (\<lambda>b. b)"
proof -
  note lib = stream_spec.write_line_ok [OF assms] stream_spec.write_lines_ok [OF assms] stream_spec.flush_ok [OF assms]
  show ?thesis
  proof
    fix p names out out' and e :: ndjson
    assume "en_open (ndjson_ops S json) (FileWriter p) names out = (out', Inr e)" and "files (ow_world out) p = Some []"
    then show "bw_out (nj_out e) = FileWriter p \<and> nj_names e = names \<and>
        (\<exists>d. only_file files p d out out' \<and> d @ bw_buf (nj_out e) = [])"
      by (auto simp: ndjson_ops_def ndjson_open_def intro: only_file_refl)
  next
    fix flow en out out' r p c and e e' :: ndjson
    assume "en_encode (ndjson_ops S json) flow en e out = (e', out', r)" and "bw_out (nj_out e) = FileWriter p"
      and "files (ow_world out) p = Some c"
    then show "bw_out (nj_out e') = FileWriter p \<and> nj_names e' = nj_names e \<and> (\<exists>d. only_file files p d out out' \<and>
        (r = None \<longrightarrow> d @ bw_buf (nj_out e') = c @ bw_buf (nj_out e) @ ndjson_line json (nj_names e) flow en))"
      using lib(1) [of "json flow (enriched_entries (nj_names e) en)" "nj_out e" out "nj_out e'" out' r p c]
      by (auto simp: ndjson_ops_def ndjson_encode_def on_out_def ndjson_line_def prod_eq_iff)
  next
    fix b out out' r p c and e e' :: ndjson
    assume "en_write_raw (ndjson_ops S json) b e out = (e', out', r)" and "bw_out (nj_out e) = FileWriter p"
      and "files (ow_world out) p = Some c"
    then show "bw_out (nj_out e') = FileWriter p \<and> nj_names e' = nj_names e \<and> (\<exists>d. only_file files p d out out' \<and>
        (r = None \<longrightarrow> d @ bw_buf (nj_out e') = c @ bw_buf (nj_out e) @ b))"
      using lib(2) [of "split_inclusive b" "nj_out e" out "nj_out e'" out' r p c]
      by (auto simp: ndjson_ops_def ndjson_write_raw_def on_out_def concat_split_inclusive prod_eq_iff)
  next
    fix out out' r p c and e e' :: ndjson
    assume "en_flush (ndjson_ops S json) e out = (e', out', r)" and "bw_out (nj_out e) = FileWriter p"
      and "files (ow_world out) p = Some c"
    then have "bw_flush S (nj_out e) out = (nj_out e', out', r)" "bw_out (nj_out e) = FileWriter p" "files (ow_world out) p = Some c"
      and names: "nj_names e' = nj_names e"
      by (auto simp: ndjson_ops_def ndjson_flush_def on_out_def prod_eq_iff)
    from lib(3) [OF this(1-3)] obtain d where "bw_out (nj_out e') = FileWriter p" "only_file files p d out out'"
      "d @ bw_buf (nj_out e') = c @ bw_buf (nj_out e)" by blast
    with names show "bw_out (nj_out e') = FileWriter p \<and> nj_names e' = nj_names e \<and> (\<exists>d. only_file files p d out out' \<and>
        (r = None \<longrightarrow> d @ bw_buf (nj_out e') = c @ bw_buf (nj_out e)))" by blast
  next
    fix out out' r p c and e e' :: ndjson
    assume "en_finish (ndjson_ops S json) e out = (e', out', r)" and "bw_out (nj_out e) = FileWriter p"
      and "files (ow_world out) p = Some c"
    then have "bw_flush S (nj_out e) out = (nj_out e', out', r)" "bw_out (nj_out e) = FileWriter p" "files (ow_world out) p = Some c"
      by (auto simp: ndjson_ops_def ndjson_finish_def on_out_def prod_eq_iff)
    from lib(3) [OF this] show "\<exists>d. only_file files p d out out' \<and> (r = None \<longrightarrow> d = c @ bw_buf (nj_out e) \<and> bw_buf (nj_out e') = [])"
      by (metis append_Nil2)
  next
    fix out and e :: ndjson
    assume "bw_buf (nj_out e) = []"
    then show "en_drop (ndjson_ops S json) e out = out"
      by (simp add: ndjson_ops_def stream_spec.drop_empty [OF assms])
  qed (auto simp: ndjson_ops_def ndjson_open_def ndjson_encode_def ndjson_write_raw_def ndjson_flush_def ndjson_finish_def
      on_out_def bw_drop_def same_counts_def buffered_counts [unfolded same_counts_def])
qed

section \<open>A stream\<close>

definition stream_ref :: "file_list stream_ops" where
  "stream_ref = \<lparr>st_write = (\<lambda>wr b w. case wr of
        FileWriter p \<Rightarrow> (case map_of w p of Some c \<Rightarrow> ((p, c @ b) # w, Inr (length b)) | None \<Rightarrow> (w, Inl NotFound))
      | _ \<Rightarrow> (w, Inr (length b))),
     st_flush = (\<lambda>_ w. (w, None))\<rparr>"

interpretation stream_ref: stream_spec fs_ref map_of stream_ref
  by unfold_locales (auto simp: fs_ref_def stream_ref_def split: option.splits)

end
