(* ===== verification/RotatingSink.thy ===== *)
theory RotatingSink
  imports OutputEncoder
begin

text \<open>
  The output of the collector: a destination and the encoder of its current window (\<^verbatim>\<open>rustflow_collect/src/sink/rotating.rs\<close>).

  The encoder is the \<^verbatim>\<open>dyn Encoder\<close> that \<^verbatim>\<open>Serialization::open\<close> makes, given by its operations; times are
  arguments. A job for the hook is put into \<open>ow_jobs\<close>; what the hook does with it is in \<open>Hook\<close>.

  The lemmas lead to \<open>sink_step\<close>: an operation that reports no error keeps the account of the sink, which says
  what is in the files closed so far and in the current one.
\<close>

record 'e window =
  wn_encoder :: 'e
  wn_pending :: "pending_rename option"
  wn_rotate_at :: "int option"

record 'e rotating_sink =
  rs_destination :: destination
  rs_enriched_fields :: "string list"
  rs_current :: "'e window option"
  rs_hook :: bool

section \<open>Operations\<close>

definition commit_pending :: "'w fs \<Rightarrow> pending_rename option \<Rightarrow> 'w out \<Rightarrow> 'w out \<times> (io_error + path option)" where
  "commit_pending F pending out = (case pending of
       None \<Rightarrow> (out, Inr None)
     | Some p \<Rightarrow> (case pending_commit F p (ow_world out) of (w, r) \<Rightarrow> (out\<lparr>ow_world := w\<rparr>, map_sum id Some r)))"

definition window_close ::
    "'w fs \<Rightarrow> ('e, 'w) encoder_ops \<Rightarrow> bool \<Rightarrow> 'e window \<Rightarrow> 'w out \<Rightarrow> 'w out \<times> io_error option" where
  "window_close F E hook self out =
     (case en_finish E (wn_encoder self) out of (encoder, out, finished) \<Rightarrow>
      case commit_pending F (wn_pending self) out of (out, committed) \<Rightarrow>
      case (case finished of Some e \<Rightarrow> Inl e | None \<Rightarrow> committed) of
        Inl e \<Rightarrow> (en_drop E encoder out, Some e)
      | Inr path \<Rightarrow>
          let out = (case (path, wn_pending self) of
                (Some path, Some p) \<Rightarrow>
                  if hook then out\<lparr>ow_jobs := ow_jobs out @ [\<lparr>job_path = path, job_window = pr_window p\<rparr>]\<rparr> else out
              | _ \<Rightarrow> out)
          in (en_drop E encoder out, None))"

definition open_window ::
    "'w fs \<Rightarrow> chrono \<Rightarrow> calendar \<Rightarrow> ('e, 'w) encoder_ops \<Rightarrow> 'e rotating_sink \<Rightarrow> datetime \<Rightarrow> 'w out \<Rightarrow>
     'w out \<times> (io_error + 'e window)" where
  "open_window F C K E self now out = (case open_for F C K (rs_destination self) now (ow_world out) of
       (w, Inl e) \<Rightarrow> (out\<lparr>ow_world := w\<rparr>, Inl e)
     | (w, Inr file) \<Rightarrow>
         (case en_open E (op_writer file) (rs_enriched_fields self) (out\<lparr>ow_world := w\<rparr>) of
            (out, Inl e) \<Rightarrow>
              ((case op_pending file of None \<Rightarrow> out | Some p \<Rightarrow> out\<lparr>ow_world := pending_drop F p (ow_world out)\<rparr>), Inl e)
          | (out, Inr encoder) \<Rightarrow>
              ((if op_pending file \<noteq> None
                then out\<lparr>ow_metrics := (ow_metrics out)\<lparr>om_files := om_files (ow_metrics out) + 1\<rparr>\<rparr> else out),
               Inr \<lparr>wn_encoder = encoder, wn_pending = op_pending file, wn_rotate_at = op_rotate_at file\<rparr>)))"

definition sink_open_at ::
    "'w fs \<Rightarrow> chrono \<Rightarrow> calendar \<Rightarrow> ('e, 'w) encoder_ops \<Rightarrow> destination \<Rightarrow> string list \<Rightarrow> datetime \<Rightarrow> 'w out \<Rightarrow>
     'w out \<times> (io_error + 'e rotating_sink)" where
  "sink_open_at F C K E destination enriched_fields now out =
     (let sink = \<lparr>rs_destination = destination, rs_enriched_fields = enriched_fields, rs_current = None, rs_hook = False\<rparr> in
      case open_window F C K E sink now out of
        (out, Inl e) \<Rightarrow> (out, Inl e)
      | (out, Inr win) \<Rightarrow> (out, Inr (sink\<lparr>rs_current := Some win\<rparr>)))"

definition with_hook :: "'e rotating_sink \<Rightarrow> 'e rotating_sink" where
  "with_hook self = self\<lparr>rs_hook := True\<rparr>"

definition sink_window ::
    "'w fs \<Rightarrow> chrono \<Rightarrow> calendar \<Rightarrow> ('e, 'w) encoder_ops \<Rightarrow> 'e rotating_sink \<Rightarrow> datetime \<Rightarrow> 'w out \<Rightarrow>
     'e rotating_sink \<times> 'w out \<times> (io_error + 'e window)" where
  "sink_window F C K E self now out = (case rs_current self of
       Some win \<Rightarrow> (self, out, Inr win)
     | None \<Rightarrow>
         (case open_window F C K E self now out of
            (out, Inl e) \<Rightarrow> (self, out, Inl e)
          | (out, Inr win) \<Rightarrow> (self\<lparr>rs_current := Some win\<rparr>, out, Inr win)))"

text \<open>Running an operation of the current window's encoder and keeping its new state.\<close>

definition on_encoder ::
    "'e rotating_sink \<Rightarrow> 'e window \<Rightarrow> 'e \<times> 'w out \<times> io_error option \<Rightarrow> 'e rotating_sink \<times> 'w out \<times> io_error option" where
  "on_encoder self win r = (self\<lparr>rs_current := Some (win\<lparr>wn_encoder := fst r\<rparr>)\<rparr>, snd r)"

definition sink_write ::
    "'w fs \<Rightarrow> chrono \<Rightarrow> calendar \<Rightarrow> ('e, 'w) encoder_ops \<Rightarrow> common_flow \<Rightarrow> enriched \<Rightarrow> datetime \<Rightarrow> 'e rotating_sink \<Rightarrow> 'w out \<Rightarrow>
     'e rotating_sink \<times> 'w out \<times> io_error option" where
  "sink_write F C K E flow enriched now self out = (case sink_window F C K E self now out of
       (self, out, Inl e) \<Rightarrow> (self, out, Some e)
     | (self, out, Inr win) \<Rightarrow> on_encoder self win (en_encode E flow enriched (wn_encoder win) out))"

definition sink_write_raw ::
    "'w fs \<Rightarrow> chrono \<Rightarrow> calendar \<Rightarrow> ('e, 'w) encoder_ops \<Rightarrow> bytes \<Rightarrow> datetime \<Rightarrow> 'e rotating_sink \<Rightarrow> 'w out \<Rightarrow>
     'e rotating_sink \<times> 'w out \<times> io_error option" where
  "sink_write_raw F C K E lines now self out = (case sink_window F C K E self now out of
       (self, out, Inl e) \<Rightarrow> (self, out, Some e)
     | (self, out, Inr win) \<Rightarrow> on_encoder self win (en_write_raw E lines (wn_encoder win) out))"

definition rotate_if_due ::
    "'w fs \<Rightarrow> chrono \<Rightarrow> ('e, 'w) encoder_ops \<Rightarrow> datetime \<Rightarrow> 'e rotating_sink \<Rightarrow> 'w out \<Rightarrow>
     'e rotating_sink \<times> 'w out \<times> (io_error + bool)" where
  "rotate_if_due F C E now self out = (case rs_current self \<bind> wn_rotate_at of
       None \<Rightarrow> (self, out, Inr False)
     | Some rotate_at \<Rightarrow>
         if ch_timestamp C now < rotate_at then (self, out, Inr False)
         else case rs_current self of
           None \<Rightarrow> (self, out, Inr True)
         | Some previous \<Rightarrow>
             (case window_close F E (rs_hook self) previous out of
                (out, Some e) \<Rightarrow> (self\<lparr>rs_current := None\<rparr>, out, Inl e)
              | (out, None) \<Rightarrow> (self\<lparr>rs_current := None\<rparr>, out, Inr True)))"

definition sink_flush :: "('e, 'w) encoder_ops \<Rightarrow> 'e rotating_sink \<Rightarrow> 'w out \<Rightarrow> 'e rotating_sink \<times> 'w out \<times> io_error option" where
  "sink_flush E self out = (case rs_current self of
       Some win \<Rightarrow> on_encoder self win (en_flush E (wn_encoder win) out)
     | None \<Rightarrow> (self, out, None))"

text \<open>The result of the code is that of the last window; before it returns, it also waits for the threads of the hook and of the expirer,
  which \<open>Hook\<close> and \<open>Destination\<close> model and which change nothing of the result.\<close>

definition sink_finish :: "'w fs \<Rightarrow> ('e, 'w) encoder_ops \<Rightarrow> 'e rotating_sink \<Rightarrow> 'w out \<Rightarrow> 'w out \<times> io_error option" where
  "sink_finish F E self out = (case rs_current self of
       Some win \<Rightarrow> window_close F E (rs_hook self) win out
     | None \<Rightarrow> (out, None))"

section \<open>Names\<close>

context calendar_spec
begin

lemma temp_not_window_path:
  assumes "layout_ok self" and "four_digit_year t" and "dt_nanos t = 0"
    and "four_digit_year t'" and "dt_nanos t' = 0" and "numbered number"
  shows "temp_path F (path_for K self t) \<noteq> window_path self t' number"
proof
  assume "temp_path F (path_for K self t) = window_path self t' number"
  then have "last (temp_path F (path_for K self t)) = last (window_path self t' number)" by simp
  then have "''.'' @ window_name self t [] @ ''.'' @ show_nat (fs_process_id F) @ ''.tmp'' = window_name self t' number"
    unfolding window_temp [OF assms(1,2)] window_path_def by simp
  then show False
    using name_of_window(1) [OF assms(1,4,5,6)] name_of_window(2) [OF assms(1-3), of "[]" "fs_process_id F"]
    by (simp add: numbered_def)
qed

end


section \<open>The account of a sink\<close>

datatype out_record = FlowRecord common_flow enriched | RawRecord bytes

definition record_bytes ::
    "(string list \<Rightarrow> common_flow \<Rightarrow> enriched \<Rightarrow> bytes) \<Rightarrow> (bytes \<Rightarrow> bytes) \<Rightarrow> string list \<Rightarrow> out_record \<Rightarrow> bytes" where
  "record_bytes line raw names r = (case r of FlowRecord flow enriched \<Rightarrow> line names flow enriched | RawRecord b \<Rightarrow> raw b)"

definition file_bytes ::
    "(string list \<Rightarrow> bytes) \<Rightarrow> (string list \<Rightarrow> common_flow \<Rightarrow> enriched \<Rightarrow> bytes) \<Rightarrow> (bytes \<Rightarrow> bytes) \<Rightarrow> string list \<Rightarrow>
     out_record list \<Rightarrow> bytes" where
  "file_bytes header line raw names rs = header names @ concat (map (record_bytes line raw names) rs)"

definition window_time :: "datetime \<Rightarrow> bool" where
  "window_time t \<longleftrightarrow> four_digit_year t \<and> dt_nanos t = 0"

definition clock_ok :: "int \<Rightarrow> datetime \<Rightarrow> bool" where
  "clock_ok n now \<longleftrightarrow> \<bar>dt_secs now\<bar> \<le> 2 ^ 40 \<and> window_time (DateTime (dt_secs now div n * n) 0)"

text \<open>\<open>own_file\<close>: a name a window's file may end up with.\<close>

definition own_file :: "layout \<Rightarrow> path \<Rightarrow> bool" where
  "own_file lay p \<longleftrightarrow> (\<exists>t number. window_time t \<and> numbered number \<and> p = window_path lay t number)"

definition temporary_file :: "'w fs \<Rightarrow> calendar \<Rightarrow> layout \<Rightarrow> path \<Rightarrow> bool" where
  "temporary_file F K lay p \<longleftrightarrow> (\<exists>t. window_time t \<and> p = temp_path F (path_for K lay t))"

text \<open>What the files hold: \<open>closed\<close> lists the files completed so far with their records, none of which
  was there at the start, in \<open>w0\<close>; and every other file is as it was, but for the temporary ones.\<close>

definition completed ::
    "('w \<Rightarrow> path \<Rightarrow> bytes option) \<Rightarrow> (out_record list \<Rightarrow> bytes) \<Rightarrow> 'w fs \<Rightarrow> calendar \<Rightarrow> layout \<Rightarrow> 'w \<Rightarrow>
     (path \<times> out_record list) list \<Rightarrow> 'w \<Rightarrow> bool" where
  "completed files content F K lay w0 closed w \<longleftrightarrow> distinct (map fst closed) \<and>
     (\<forall>(p, rs) \<in> set closed. own_file lay p \<and> files w0 p = None \<and> files w p = Some (content rs)) \<and>
     (\<forall>q. files w0 q \<noteq> None \<and> \<not> temporary_file F K lay q \<longrightarrow> files w q = files w0 q)"

locale sink_spec = streams: stream_spec F files S + encoder_spec files E writer_of names_of held header line raw +
    dates: dates_spec C K
  for F :: "'w fs" and files and S and E :: "('e, 'w) encoder_ops" and writer_of names_of held header line raw
    and C :: chrono and K :: calendar +
  fixes lay :: layout and n :: int and names :: "string list"
  assumes layout: "layout_ok lay" and interval: "0 < n" "n \<le> 2 ^ 40"
begin

abbreviation content :: "out_record list \<Rightarrow> bytes" where
  "content \<equiv> file_bytes header line raw names"

abbreviation temp :: "datetime \<Rightarrow> path" where
  "temp t \<equiv> temp_path F (path_for K lay t)"

definition current_ok :: "out_record list \<Rightarrow> 'w \<Rightarrow> 'e window \<Rightarrow> bool" where
  "current_ok cur w win \<longleftrightarrow> (\<exists>t d. window_time t \<and>
     wn_pending win = Some \<lparr>pr_tmp = temp t, pr_final_path = path_for K lay t, pr_window = t, pr_committed = False\<rparr> \<and>
     writer_of (wn_encoder win) = FileWriter (temp t) \<and> names_of (wn_encoder win) = names \<and>
     files w (temp t) = Some d \<and> d @ held (wn_encoder win) = content cur)"

definition account :: "'w \<Rightarrow> (path \<times> out_record list) list \<Rightarrow> out_record list \<Rightarrow> 'e rotating_sink \<Rightarrow> 'w \<Rightarrow> bool" where
  "account w0 closed cur sink w \<longleftrightarrow> rs_destination sink = DestPartitioned lay n \<and> rs_enriched_fields sink = names \<and>
     completed files content F K lay w0 closed w \<and>
     (case rs_current sink of None \<Rightarrow> cur = [] | Some win \<Rightarrow> current_ok cur w win)"

lemma own_not_temp: "own_file lay p \<Longrightarrow> window_time t \<Longrightarrow> p \<noteq> temp t"
  using dates.temp_not_window_path [OF layout] unfolding own_file_def window_time_def by metis

lemma completed_temp:
  assumes "completed files content F K lay w0 closed w" and "window_time t" and "files w' = (files w)(temp t := c)"
  shows "completed files content F K lay w0 closed w'"
  using assms own_not_temp [OF _ assms(2)] unfolding completed_def temporary_file_def by (fastforce simp: split_beta)

lemma open_window_ok:
  assumes "open_window F C K E sink now out = (out', Inr win)" and "clock_ok n now"
    and "rs_destination sink = DestPartitioned lay n" and "rs_enriched_fields sink = names"
    and "completed files content F K lay w0 closed (ow_world out)"
  shows "current_ok [] (ow_world out') win \<and> completed files content F K lay w0 closed (ow_world out')"
proof -
  define t where "t = DateTime (dt_secs now div n * n) 0"
  have t: "window_time t" using assms(2) by (simp add: clock_ok_def t_def)
  have "0 \<le> dt_secs now mod n" "dt_secs now mod n < n" using interval(1) by simp_all
  moreover have "\<bar>dt_secs now\<bar> \<le> 2 ^ 40" using assms(2) by (simp add: clock_ok_def)
  ultimately have "\<bar>dt_secs now div n * n\<bar> \<le> 2 ^ 41"
    using interval(2) minus_mod_eq_div_mult [of "dt_secs now" n] by simp
  then have stamp: "ch_from_timestamp C (dt_secs now div n * n) 0 = Some t"
    using dates.from_timestamp_spec [of "dt_secs now div n * n" 0] by (simp add: t_def)
  obtain w1 out1 e where opened: "create_file F (temp t) (ow_world out) = (w1, None)"
    and enc: "en_open E (FileWriter (temp t)) names (out\<lparr>ow_world := w1\<rparr>) = (out1, Inr e)"
    and win: "wn_encoder win = e"
      "wn_pending win = Some \<lparr>pr_tmp = temp t, pr_final_path = path_for K lay t, pr_window = t, pr_committed = False\<rparr>"
      "ow_world out' = ow_world out1"
    using assms(1,3,4) interval(1) stamp dates.timestamp_spec [of now]
    by (auto simp: open_window_def open_for_def div_euclid_def Let_def split: prod.splits sum.splits option.splits)
  have w1: "files w1 = (files (ow_world out))(temp t := Some [])"
    using opened streams.open_truncated_ok streams.create_dir_all_files
    by (auto simp: create_file_def split: prod.splits option.splits) (metis fst_conv)+
  obtain d where d: "writer_of e = FileWriter (temp t)" "names_of e = names"
    "only_file files (temp t) d (out\<lparr>ow_world := w1\<rparr>) out1" "d @ held e = header names"
    using open_ok [OF enc] w1 by auto
  have "files (ow_world out1) = (files (ow_world out))(temp t := Some d)"
    using d(3) w1 by (simp add: only_file_def)
  then show ?thesis
    using completed_temp [OF assms(5) t] d t win
    by (auto simp: current_ok_def file_bytes_def)
qed

lemma step_encoder:
  assumes "current_ok cur (ow_world out) win" and "completed files content F K lay w0 closed (ow_world out)"
    and step: "\<And>p c. writer_of (wn_encoder win) = FileWriter p \<Longrightarrow> files (ow_world out) p = Some c \<Longrightarrow>
      writer_of e' = FileWriter p \<and> names_of e' = names_of (wn_encoder win) \<and>
      (\<exists>d. only_file files p d out out' \<and> d @ held e' = c @ held (wn_encoder win) @ b)"
    and "content cur @ (if names_of (wn_encoder win) = names then b else []) = content cur'"
  shows "current_ok cur' (ow_world out') (win\<lparr>wn_encoder := e'\<rparr>) \<and> completed files content F K lay w0 closed (ow_world out')"
proof -
  obtain t c where t: "window_time t"
      "wn_pending win = Some \<lparr>pr_tmp = temp t, pr_final_path = path_for K lay t, pr_window = t, pr_committed = False\<rparr>"
    and enc: "writer_of (wn_encoder win) = FileWriter (temp t)" "names_of (wn_encoder win) = names"
      "files (ow_world out) (temp t) = Some c" "c @ held (wn_encoder win) = content cur"
    using assms(1) unfolding current_ok_def by blast
  obtain d where d: "writer_of e' = FileWriter (temp t)" "names_of e' = names" "only_file files (temp t) d out out'"
      "d @ held e' = c @ held (wn_encoder win) @ b"
    using step [OF enc(1,3)] enc(2) by blast
  have "d @ held e' = content cur'" using d(4) enc(2,4) assms(4) by (metis append.assoc)
  moreover have "files (ow_world out') = (files (ow_world out))(temp t := Some d)"
    using d(3) by (simp add: only_file_def)
  ultimately show ?thesis
    using completed_temp [OF assms(2) t(1)] t d(1,2) by (auto simp: current_ok_def)
qed

lemma content_snoc: "content (cur @ [r]) = content cur @ record_bytes line raw names r"
  by (simp add: file_bytes_def)

lemma window_close_ok:
  assumes "window_close F E hook win out = (out', None)" and "current_ok cur (ow_world out) win"
    and "completed files content F K lay w0 closed (ow_world out)"
  shows "\<exists>p. completed files content F K lay w0 (closed @ [(p, cur)]) (ow_world out')"
proof -
  obtain t c where t: "window_time t"
      "wn_pending win = Some \<lparr>pr_tmp = temp t, pr_final_path = path_for K lay t, pr_window = t, pr_committed = False\<rparr>"
      (is "_ = Some ?p")
    and enc: "writer_of (wn_encoder win) = FileWriter (temp t)"
      "files (ow_world out) (temp t) = Some c" "c @ held (wn_encoder win) = content cur"
    using assms(2) unfolding current_ok_def by blast
  obtain e1 out1 r1 where fin: "en_finish E (wn_encoder win) out = (e1, out1, r1)" by (metis prod_cases3)
  obtain w2 r2 where commit: "pending_commit F ?p (ow_world out1) = (w2, r2)" by force
  from assms(1) fin commit t(2) obtain path where ok: "r1 = None" "r2 = Inr path"
    by (cases r2) (auto simp: window_close_def commit_pending_def split: option.splits)
  from finish_ok [OF fin enc(1,2)] ok(1) have d: "only_file files (temp t) (content cur) out out1" "held e1 = []"
    using enc(3) by auto
  then have w1: "files (ow_world out1) = (files (ow_world out))(temp t := Some (content cur))" by (simp add: only_file_def)
  have world: "ow_world out' = w2"
    using assms(1) fin commit t(2) ok d(2) drop_ok [OF d(2)]
    by (auto simp: window_close_def commit_pending_def Let_def split: if_splits)
  have "claim_from F (temp t) (path_for K lay t) (candidates (path_for K lay t)) (ow_world out1) = (w2, Inr path)"
    using commit ok(2) by (simp add: pending_commit_def pending_claim_def pending_drop_def claim_final_name_def case_prod_beta)
  then have path: "path \<in> set (candidates (path_for K lay t))" "files (ow_world out1) path = None"
      "files w2 = (files (ow_world out1))(path := files (ow_world out1) (temp t), temp t := None)"
    using streams.claim_outcome [of "temp t" "path_for K lay t" _ "ow_world out1" w2 "Inr path"]
      dates.temp_not_candidate [OF layout] t(1) by (auto simp: window_time_def)
  have own: "own_file lay path"
    using path(1) t(1) dates.window_candidates [OF layout, of t]
    unfolding own_file_def numbered_def window_time_def by auto
  have differ: "path \<noteq> temp t" by (rule own_not_temp [OF own t(1)])
  have before: "completed files content F K lay w0 closed (ow_world out1)"
    by (rule completed_temp [OF assms(3) t(1) w1])
  have fresh: "files (ow_world out) path = None" using path(2) w1 differ by simp
  have "path \<notin> fst ` set closed" using fresh assms(3) unfolding completed_def by force
  have absent: "files w0 path = None"
  proof (rule ccontr)
    assume "files w0 path \<noteq> None"
    moreover have "\<not> temporary_file F K lay path" using own own_not_temp unfolding temporary_file_def by blast
    ultimately show False using assms(3) fresh unfolding completed_def by metis
  qed
  have w2: "files w2 = (files (ow_world out))(path := Some (content cur), temp t := None)"
    using path(3) w1 differ by auto
  have "own_file lay p \<and> files w0 p = None \<and> files w2 p = Some (content rs)"
    if "(p, rs) \<in> set (closed @ [(path, cur)])" for p rs
  proof (cases "(p, rs) \<in> set closed")
    case True
    then have "own_file lay p" "files w0 p = None" "files (ow_world out) p = Some (content rs)"
      using assms(3) unfolding completed_def by auto
    moreover from this have "p \<noteq> path" "p \<noteq> temp t" using fresh own_not_temp [OF _ t(1)] by auto
    ultimately show ?thesis using w2 by simp
  qed (use that own absent w2 differ in auto)
  moreover have "files w2 q = files w0 q" if "files w0 q \<noteq> None \<and> \<not> temporary_file F K lay q" for q
  proof -
    have "q \<noteq> path" "q \<noteq> temp t" using that absent t(1) unfolding temporary_file_def by auto
    then show ?thesis using assms(3) that w2 unfolding completed_def by simp
  qed
  moreover have "distinct (map fst (closed @ [(path, cur)]))"
    using assms(3) \<open>path \<notin> fst ` set closed\<close> unfolding completed_def by simp
  ultimately have "completed files content F K lay w0 (closed @ [(path, cur)]) w2"
    unfolding completed_def by blast
  then show ?thesis using world by blast
qed

lemma sink_window_ok:
  assumes "sink_window F C K E sink now out = (sink', out', Inr win)" and "account w0 closed cur sink (ow_world out)"
    and "clock_ok n now"
  shows "account w0 closed cur sink' (ow_world out') \<and> rs_current sink' = Some win"
  using assms(1,2) open_window_ok [OF _ assms(3), of sink out out' win w0 closed]
  by (auto simp: sink_window_def account_def split: option.splits prod.splits sum.splits)

lemma account_encoder:
  assumes "account w0 closed cur sink (ow_world out)" and "rs_current sink = Some win"
    and "\<And>p c. writer_of (wn_encoder win) = FileWriter p \<Longrightarrow> files (ow_world out) p = Some c \<Longrightarrow>
      writer_of (fst r) = FileWriter p \<and> names_of (fst r) = names_of (wn_encoder win) \<and>
      (\<exists>d. only_file files p d out (fst (snd r)) \<and> d @ held (fst r) = c @ held (wn_encoder win) @ b)"
    and "content cur @ (if names_of (wn_encoder win) = names then b else []) = content cur'"
    and "on_encoder sink win r = (sink', out', res)"
  shows "account w0 closed cur' sink' (ow_world out')"
  using step_encoder [OF _ _ assms(3,4), of w0 closed] assms(1,2,5)
  by (auto simp: account_def on_encoder_def)

lemma sink_write_ok:
  assumes "sink_write F C K E flow en now sink out = (sink', out', None)" and "account w0 closed cur sink (ow_world out)"
    and "clock_ok n now"
  shows "account w0 closed (cur @ [FlowRecord flow en]) sink' (ow_world out')"
proof -
  obtain s1 o1 win where win: "sink_window F C K E sink now out = (s1, o1, Inr win)"
    and step: "on_encoder s1 win (en_encode E flow en (wn_encoder win) o1) = (sink', out', None)"
    using assms(1) by (auto simp: sink_write_def split: prod.splits sum.splits)
  from sink_window_ok [OF win assms(2,3)] have s1: "account w0 closed cur s1 (ow_world o1)" "rs_current s1 = Some win" by auto
  obtain e' o' where enc: "en_encode E flow en (wn_encoder win) o1 = (e', o', None)"
    using step by (cases "en_encode E flow en (wn_encoder win) o1") (auto simp: on_encoder_def)
  show ?thesis
    by (rule account_encoder [OF s1 _ _ step, of "line (names_of (wn_encoder win)) flow en"])
      (use encode_ok [OF enc] s1 in \<open>auto simp: enc content_snoc record_bytes_def account_def current_ok_def\<close>)
qed

lemma sink_write_raw_ok:
  assumes "sink_write_raw F C K E b now sink out = (sink', out', None)" and "account w0 closed cur sink (ow_world out)"
    and "clock_ok n now"
  shows "account w0 closed (cur @ [RawRecord b]) sink' (ow_world out')"
proof -
  obtain s1 o1 win where win: "sink_window F C K E sink now out = (s1, o1, Inr win)"
    and step: "on_encoder s1 win (en_write_raw E b (wn_encoder win) o1) = (sink', out', None)"
    using assms(1) by (auto simp: sink_write_raw_def split: prod.splits sum.splits)
  from sink_window_ok [OF win assms(2,3)] have s1: "account w0 closed cur s1 (ow_world o1)" "rs_current s1 = Some win" by auto
  obtain e' o' where enc: "en_write_raw E b (wn_encoder win) o1 = (e', o', None)"
    using step by (cases "en_write_raw E b (wn_encoder win) o1") (auto simp: on_encoder_def)
  show ?thesis
    by (rule account_encoder [OF s1 _ _ step, of "raw b"])
      (use write_raw_ok [OF enc] s1 in \<open>auto simp: enc content_snoc record_bytes_def account_def current_ok_def\<close>)
qed

lemma sink_flush_ok:
  assumes "sink_flush E sink out = (sink', out', None)" and "account w0 closed cur sink (ow_world out)"
  shows "account w0 closed cur sink' (ow_world out')"
proof (cases "rs_current sink")
  case (Some win)
  then have step: "on_encoder sink win (en_flush E (wn_encoder win) out) = (sink', out', None)"
    using assms(1) by (simp add: sink_flush_def)
  obtain e' o' where enc: "en_flush E (wn_encoder win) out = (e', o', None)"
    using step by (cases "en_flush E (wn_encoder win) out") (auto simp: on_encoder_def)
  show ?thesis
    by (rule account_encoder [OF assms(2) Some _ _ step, of "[]"]) (use flush_ok [OF enc] in \<open>auto simp: enc\<close>)
qed (use assms in \<open>simp add: sink_flush_def\<close>)

lemma rotate_ok:
  assumes "rotate_if_due F C E now sink out = (sink', out', Inr b)" and "account w0 closed cur sink (ow_world out)"
  shows "\<exists>closed' cur'. account w0 closed' cur' sink' (ow_world out') \<and>
    concat (map snd closed') @ cur' = concat (map snd closed) @ cur"
proof (cases "sink' = sink \<and> out' = out")
  case False
  obtain win where current: "rs_current sink = Some win"
    using assms(1) False by (cases "rs_current sink") (simp_all add: rotate_if_due_def)
  obtain out1 r where close: "window_close F E (rs_hook sink) win out = (out1, r)" by force
  then have win: "window_close F E (rs_hook sink) win out = (out', None)" "sink' = sink\<lparr>rs_current := None\<rparr>"
    using assms(1) False current
    by (cases "wn_rotate_at win"; cases r; simp add: rotate_if_due_def split: if_splits)+
  then obtain p where "completed files content F K lay w0 (closed @ [(p, cur)]) (ow_world out')"
    using window_close_ok [OF win(1), of cur w0 closed] assms(2) current unfolding account_def by auto
  then have "account w0 (closed @ [(p, cur)]) [] sink' (ow_world out')"
    using assms(2) win(2) by (simp add: account_def)
  then show ?thesis by (intro exI [of _ "closed @ [(p, cur)]"] exI [of _ "[]"]) simp
qed (use assms(2) in blast)

lemma finish_sink_ok:
  assumes "sink_finish F E sink out = (out', None)" and "account w0 closed cur sink (ow_world out)"
  shows "\<exists>closed'. completed files content F K lay w0 closed' (ow_world out') \<and>
    concat (map snd closed') = concat (map snd closed) @ cur"
proof (cases "rs_current sink")
  case (Some win)
  then obtain p where "completed files content F K lay w0 (closed @ [(p, cur)]) (ow_world out')"
    using window_close_ok [of "rs_hook sink" win out out' cur w0 closed] assms
    unfolding account_def by (auto simp: sink_finish_def)
  then show ?thesis by (intro exI [of _ "closed @ [(p, cur)]"]) simp
qed (use assms in \<open>auto simp: sink_finish_def account_def\<close>)

lemma sink_open_ok:
  assumes "sink_open_at F C K E (DestPartitioned lay n) names now out = (out', Inr sink)" and "clock_ok n now"
  shows "account (ow_world out) [] [] sink (ow_world out')"
  using assms(1) open_window_ok [OF _ assms(2), of _ out out' _ "ow_world out" "[]"]
  by (auto simp: sink_open_at_def account_def completed_def Let_def split: prod.splits sum.splits)

end

section \<open>Counters\<close>

text \<open>No operation of the sink touches the counters of flows and errors.\<close>

definition tallies :: "'w out \<Rightarrow> nat \<times> nat \<times> nat" where
  "tallies out = (om_flows (ow_metrics out), om_write_errors (ow_metrics out), om_rotate_errors (ow_metrics out))"

lemma same_counts_errors: "same_counts out out' \<Longrightarrow> tallies out' = tallies out"
  unfolding same_counts_def tallies_def
  by (metis output_metrics.simps(1,4,5) output_metrics.surjective output_metrics.update_convs(2))

lemma tallies_update [simp]:
  "tallies (out\<lparr>ow_world := w\<rparr>) = tallies out" "tallies (out\<lparr>ow_jobs := j\<rparr>) = tallies out"
  "tallies (out\<lparr>ow_metrics := (ow_metrics out)\<lparr>om_files := k\<rparr>\<rparr>) = tallies out"
  by (simp_all add: tallies_def)

context encoder_spec
begin

lemmas encoder_errors = counts_kept [THEN same_counts_errors]

lemma close_errors: "tallies (fst (window_close F E hook win out)) = tallies out"
  using encoder_errors(5) [of "wn_encoder win" out]
  by (auto simp: window_close_def commit_pending_def Let_def encoder_errors(6) split: prod.splits option.splits sum.splits)

lemma open_window_errors: "tallies (fst (open_window F C K E self now out)) = tallies out"
  using encoder_errors(1) [of _ _ "out\<lparr>ow_world := _\<rparr>"]
  by (auto simp: open_window_def split: prod.splits option.splits sum.splits) (metis tallies_update(1) fst_conv)+

lemma sink_errors:
  "tallies (fst (snd (sink_write F C K E flow en now self out))) = tallies out"
  "tallies (fst (snd (sink_write_raw F C K E b now self out))) = tallies out"
  "tallies (fst (snd (sink_flush E self out))) = tallies out"
  "tallies (fst (snd (rotate_if_due F C E now self out))) = tallies out"
proof -
  have win: "tallies (fst (snd (sink_window F C K E self now out))) = tallies out"
    using open_window_errors [of F C K self now out] by (auto simp: sink_window_def split: option.splits prod.splits sum.splits)
  then show "tallies (fst (snd (sink_write F C K E flow en now self out))) = tallies out"
    "tallies (fst (snd (sink_write_raw F C K E b now self out))) = tallies out"
    by (auto simp: sink_write_def sink_write_raw_def on_encoder_def encoder_errors split: prod.splits sum.splits)
  show "tallies (fst (snd (sink_flush E self out))) = tallies out"
    by (auto simp: sink_flush_def on_encoder_def encoder_errors split: option.splits)
  show "tallies (fst (snd (rotate_if_due F C E now self out))) = tallies out"
    using close_errors [of F "rs_hook self" _ out]
    by (auto simp: rotate_if_due_def split: option.splits prod.splits) (metis fst_conv)+
qed

end

section \<open>A sink\<close>

interpretation sink_ref: sink_spec fs_ref map_of stream_ref "ndjson_ops stream_ref json" "\<lambda>e. bw_out (nj_out e)" nj_names
  "\<lambda>e. bw_buf (nj_out e)" "\<lambda>_. []" "ndjson_line json" "\<lambda>b. b" chrono_ref calendar_ref example_layout 300 names
  for json names
  by (intro sink_spec.intro sink_spec_axioms.intro ndjson_spec [OF stream_ref.stream_spec_axioms] stream_ref.stream_spec_axioms
      dates_ref.dates_spec_axioms example_layout_ok) simp_all

end
