(* ===== verification/Pipeline.thy ===== *)
theory Pipeline
  imports RotatingSink
begin

text \<open>
  The pipeline between the ingest threads and the encoder thread (\<^verbatim>\<open>rustflow_collect/src/sink/pipeline\<close>): producers
  that gather records into chunks, the channel, the encoder's loop, its flush timer and its error reports.

  A channel is what was sent over it and whether its receiver is still there; that a full channel makes the sender
  wait changes no value. Instants are nanoseconds. One turn of the encoder's loop is a \<open>loop_event\<close>: the chunk it received, if
  any, the readings of the clocks it takes, and the tables as they are then; the list ends where every producer is gone.
  \<open>None\<close> is a panic.

  Shown: a producer loses, doubles and delays nothing; and when the loop has counted no error, every record it
  received is in exactly one of the files it completed, in order.
\<close>

section \<open>The flush timer\<close>

record flush_timer =
  ft_next :: nat
  ft_interval :: nat

definition timer_new :: "nat \<Rightarrow> nat \<Rightarrow> flush_timer" where
  "timer_new now interval = \<lparr>ft_next = now + interval, ft_interval = interval\<rparr>"

definition timer_remaining :: "nat \<Rightarrow> flush_timer \<Rightarrow> nat" where
  "timer_remaining now self = ft_next self - now"

definition timer_due :: "nat \<Rightarrow> flush_timer \<Rightarrow> flush_timer \<times> bool" where
  "timer_due now self =
     (if now < ft_next self then (self, False)
      else let anchored = ft_next self + ft_interval self
           in (self\<lparr>ft_next := (if anchored > now then anchored else now + ft_interval self)\<rparr>, True))"

section \<open>Error reports\<close>

text \<open>\<open>se_log\<close> is what was logged, newest last: the operation, and whether it failed or recovered.\<close>

record sink_errors =
  se_write_failing :: bool
  se_rotate_failing :: bool
  se_flush_failing :: bool
  se_log :: "(string \<times> bool) list"

definition errors_new :: sink_errors where
  "errors_new = \<lparr>se_write_failing = False, se_rotate_failing = False, se_flush_failing = False, se_log = []\<rparr>"

definition observe_result ::
    "string \<Rightarrow> bool \<times> nat \<times> (string \<times> bool) list \<Rightarrow> io_error option \<Rightarrow> bool \<times> nat \<times> (string \<times> bool) list" where
  "observe_result what st result = (case (st, result) of
       ((failing, counter, log), None) \<Rightarrow>
         if failing then (False, counter, log @ [(what, False)]) else (failing, counter, log)
     | ((failing, counter, log), Some _) \<Rightarrow>
         (True, counter + 1, if \<not> failing then log @ [(what, True)] else log))"

definition errors_write :: "io_error option \<Rightarrow> sink_errors \<Rightarrow> 'w out \<Rightarrow> sink_errors \<times> 'w out" where
  "errors_write result self out =
     (case observe_result ''output write'' (se_write_failing self, om_write_errors (ow_metrics out), se_log self) result of
        (failing, counter, log) \<Rightarrow>
          (self\<lparr>se_write_failing := failing, se_log := log\<rparr>,
           out\<lparr>ow_metrics := (ow_metrics out)\<lparr>om_write_errors := counter\<rparr>\<rparr>))"

definition errors_flush :: "io_error option \<Rightarrow> sink_errors \<Rightarrow> 'w out \<Rightarrow> sink_errors \<times> 'w out" where
  "errors_flush result self out =
     (case observe_result ''output flush'' (se_flush_failing self, om_write_errors (ow_metrics out), se_log self) result of
        (failing, counter, log) \<Rightarrow>
          (self\<lparr>se_flush_failing := failing, se_log := log\<rparr>,
           out\<lparr>ow_metrics := (ow_metrics out)\<lparr>om_write_errors := counter\<rparr>\<rparr>))"

definition errors_rotate :: "io_error + bool \<Rightarrow> sink_errors \<Rightarrow> 'w out \<Rightarrow> sink_errors \<times> 'w out" where
  "errors_rotate result self out = (case (case result of Inr False \<Rightarrow> None | Inr True \<Rightarrow> Some None | Inl e \<Rightarrow> Some (Some e)) of
       None \<Rightarrow> (self, out)
     | Some result \<Rightarrow>
         (case observe_result ''output rotation'' (se_rotate_failing self, om_rotate_errors (ow_metrics out), se_log self) result of
            (failing, counter, log) \<Rightarrow>
              (self\<lparr>se_rotate_failing := failing, se_log := log\<rparr>,
               out\<lparr>ow_metrics := (ow_metrics out)\<lparr>om_rotate_errors := counter\<rparr>\<rparr>)))"

section \<open>Producers\<close>

definition FLUSH_INTERVAL :: nat where
  "FLUSH_INTERVAL = 250000000"

definition CHUNK_RECORDS :: nat where
  "CHUNK_RECORDS = 256"

definition CHUNK_FLUSH_TIMEOUT :: nat where
  "CHUNK_FLUSH_TIMEOUT = 100000000"

datatype chunk = FlowsChunk "common_flow list" | RawChunk bytes nat

record channel =
  cn_sent :: "chunk list"
  cn_open :: bool

record producer =
  pd_flows :: "common_flow list"
  pd_raw :: bytes
  pd_raw_records :: nat
  pd_raw_flows :: nat
  pd_discard :: bool
  pd_chunk_started :: nat

definition pipeline_producer :: "bool \<Rightarrow> nat \<Rightarrow> producer" where
  "pipeline_producer discard now = \<lparr>pd_flows = [], pd_raw = [], pd_raw_records = 0, pd_raw_flows = 0,
     pd_discard = discard, pd_chunk_started = now\<rparr>"

text \<open>\<open>False\<close> is \<^verbatim>\<open>EncoderGone\<close>.\<close>

definition send_chunk :: "chunk \<Rightarrow> channel \<Rightarrow> channel \<times> bool" where
  "send_chunk c ch = (if cn_open ch then (ch\<lparr>cn_sent := cn_sent ch @ [c]\<rparr>, True) else (ch, False))"

definition flush_flows :: "producer \<Rightarrow> channel \<Rightarrow> producer \<times> channel \<times> bool" where
  "flush_flows self ch =
     (if pd_flows self \<noteq> [] then (self\<lparr>pd_flows := []\<rparr>, send_chunk (FlowsChunk (pd_flows self)) ch) else (self, ch, True))"

definition producer_flush :: "producer \<Rightarrow> channel \<Rightarrow> producer \<times> channel \<times> bool" where
  "producer_flush self ch = (case flush_flows self ch of
       (self, ch, False) \<Rightarrow> (self, ch, False)
     | (self, ch, True) \<Rightarrow>
         if pd_raw_records self > 0
         then (self\<lparr>pd_raw := [], pd_raw_flows := 0, pd_raw_records := 0\<rparr>,
               send_chunk (RawChunk (pd_raw self) (pd_raw_flows self)) ch)
         else (self, ch, True))"

definition start_chunk :: "nat \<Rightarrow> producer \<Rightarrow> producer" where
  "start_chunk now self =
     (if pd_flows self = [] \<and> pd_raw_records self = 0 then self\<lparr>pd_chunk_started := now\<rparr> else self)"

definition send_if_ready :: "nat \<Rightarrow> nat \<Rightarrow> producer \<Rightarrow> channel \<Rightarrow> producer \<times> channel \<times> bool" where
  "send_if_ready now recs self ch =
     (if recs \<ge> CHUNK_RECORDS \<or> now - pd_chunk_started self \<ge> CHUNK_FLUSH_TIMEOUT
      then producer_flush self ch else (self, ch, True))"

definition producer_push ::
    "(common_flow list \<Rightarrow> common_flow list) \<Rightarrow> nat \<Rightarrow> nat \<Rightarrow> producer \<Rightarrow> channel \<Rightarrow> producer \<times> channel \<times> bool" where
  "producer_push decode now now' self ch =
     (let self = start_chunk now self; self = self\<lparr>pd_flows := decode (pd_flows self)\<rparr>
      in send_if_ready now' (length (pd_flows self)) self ch)"

text \<open>The text of a packet is an argument; packets always serialize.\<close>

definition producer_push_raw ::
    "bytes \<Rightarrow> nat \<Rightarrow> nat \<Rightarrow> nat \<Rightarrow> producer \<Rightarrow> channel \<Rightarrow> producer \<times> channel \<times> bool" where
  "producer_push_raw text flows now now' self ch =
     (let self = start_chunk now self;
          self = (if \<not> pd_discard self then self\<lparr>pd_raw := pd_raw self @ text @ [10]\<rparr> else self);
          self = self\<lparr>pd_raw_records := pd_raw_records self + 1, pd_raw_flows := pd_raw_flows self + flows\<rparr>
      in send_if_ready now' (pd_raw_records self) self ch)"

definition producer_drop :: "producer \<Rightarrow> channel \<Rightarrow> channel" where
  "producer_drop self ch = fst (snd (producer_flush self ch))"

section \<open>The encoder's loop\<close>

record ('e, 'w, 'm4, 'm6) encoder_env =
  ev_fs :: "'w fs"
  ev_chrono :: chrono
  ev_calendar :: calendar
  ev_encoder :: "('e, 'w) encoder_ops"
  ev_lib4 :: "(u32, 'm4) prefix_lib"
  ev_lib6 :: "(u128, 'm6) prefix_lib"

record ('m4, 'm6) loop_event =
  le_chunk :: "chunk option"
  le_now_rotate :: datetime
  le_now_write :: "nat \<Rightarrow> datetime"
  le_engine :: "('m4, 'm6) engine"
  le_instant :: nat
  le_now_flush :: datetime

record ('e, 'w) loop_state =
  lp_enriched :: enriched
  lp_errors :: sink_errors
  lp_timer :: flush_timer
  lp_sink :: "'e rotating_sink"
  lp_out :: "'w out"

definition on_sink ::
    "('r \<Rightarrow> sink_errors \<Rightarrow> 'w out \<Rightarrow> sink_errors \<times> 'w out) \<Rightarrow> 'e rotating_sink \<times> 'w out \<times> 'r \<Rightarrow> ('e, 'w) loop_state \<Rightarrow>
     ('e, 'w) loop_state" where
  "on_sink report r st = (case r of (sink, out, result) \<Rightarrow> case report result (lp_errors st) out of (errors, out) \<Rightarrow>
     st\<lparr>lp_sink := sink, lp_errors := errors, lp_out := out\<rparr>)"

definition loop_rotate ::
    "('e, 'w, 'm4, 'm6) encoder_env \<Rightarrow> datetime \<Rightarrow> ('e, 'w) loop_state \<Rightarrow> ('e, 'w) loop_state" where
  "loop_rotate env now st =
     on_sink errors_rotate (rotate_if_due (ev_fs env) (ev_chrono env) (ev_encoder env) now (lp_sink st) (lp_out st)) st"

definition add_flows :: "nat \<Rightarrow> ('e, 'w) loop_state \<Rightarrow> ('e, 'w) loop_state" where
  "add_flows n st = st\<lparr>lp_out := (lp_out st)\<lparr>ow_metrics := (ow_metrics (lp_out st))\<lparr>om_flows := om_flows (ow_metrics (lp_out st)) + n\<rparr>\<rparr>\<rparr>"

fun write_flows ::
    "('e, 'w, 'm4, 'm6) encoder_env \<Rightarrow> ('m4, 'm6) loop_event \<Rightarrow> common_flow list \<Rightarrow> nat \<Rightarrow> ('e, 'w) loop_state \<Rightarrow>
     ('e, 'w) loop_state option" where
  "write_flows env ev [] i st = Some st"
| "write_flows env ev (flow # flows) i st =
     (case snapshot_enrich (ev_lib4 env) (ev_lib6 env) (le_engine ev) (engine_snapshot (le_engine ev)) flow (lp_enriched st) of
        None \<Rightarrow> None
      | Some enriched \<Rightarrow>
          let st = st\<lparr>lp_enriched := enriched\<rparr>;
              st = on_sink errors_write (sink_write (ev_fs env) (ev_chrono env) (ev_calendar env) (ev_encoder env) flow enriched
                (le_now_write ev i) (lp_sink st) (lp_out st)) st
          in write_flows env ev flows (i + 1) st)"

definition loop_chunk ::
    "('e, 'w, 'm4, 'm6) encoder_env \<Rightarrow> ('m4, 'm6) loop_event \<Rightarrow> chunk \<Rightarrow> ('e, 'w) loop_state \<Rightarrow> ('e, 'w) loop_state option" where
  "loop_chunk env ev c st = (case c of
       FlowsChunk flows \<Rightarrow> map_option (add_flows (length flows)) (write_flows env ev flows 0 st)
     | RawChunk lines flows \<Rightarrow>
         Some (add_flows flows (on_sink errors_write (sink_write_raw (ev_fs env) (ev_chrono env) (ev_calendar env)
           (ev_encoder env) lines (le_now_write ev 0) (lp_sink st) (lp_out st)) st)))"

definition loop_turn ::
    "('e, 'w, 'm4, 'm6) encoder_env \<Rightarrow> ('m4, 'm6) loop_event \<Rightarrow> ('e, 'w) loop_state \<Rightarrow> ('e, 'w) loop_state option" where
  "loop_turn env ev st = (case (case le_chunk ev of
         None \<Rightarrow> Some st
       | Some c \<Rightarrow> loop_chunk env ev c (loop_rotate env (le_now_rotate ev) st)) of
       None \<Rightarrow> None
     | Some st \<Rightarrow>
         (case timer_due (le_instant ev) (lp_timer st) of (timer, due) \<Rightarrow>
            let st = st\<lparr>lp_timer := timer\<rparr> in
            if due then
              let st = loop_rotate env (le_now_flush ev) st
              in Some (on_sink errors_flush (sink_flush (ev_encoder env) (lp_sink st) (lp_out st)) st)
            else Some st))"

fun loop_turns ::
    "('e, 'w, 'm4, 'm6) encoder_env \<Rightarrow> ('m4, 'm6) loop_event list \<Rightarrow> ('e, 'w) loop_state \<Rightarrow> ('e, 'w) loop_state option" where
  "loop_turns env [] st = Some st"
| "loop_turns env (ev # evs) st = loop_turn env ev st \<bind> loop_turns env evs"

definition encoder_loop ::
    "('e, 'w, 'm4, 'm6) encoder_env \<Rightarrow> ('m4, 'm6) loop_event list \<Rightarrow> nat \<Rightarrow> nat \<Rightarrow> 'e rotating_sink \<Rightarrow> 'w out \<Rightarrow>
     ('w out \<times> io_error option) option" where
  "encoder_loop env evs output_fields now sink out =
     (case loop_turns env evs \<lparr>lp_enriched = replicate output_fields None, lp_errors = errors_new,
         lp_timer = timer_new now FLUSH_INTERVAL, lp_sink = sink, lp_out = out\<rparr> of
        None \<Rightarrow> None
      | Some st \<Rightarrow> Some (sink_finish (ev_fs env) (ev_encoder env) (lp_sink st) (lp_out st)))"

section \<open>What a producer owes\<close>

datatype producer_event = PushFlows "common_flow list" nat nat | PushRaw bytes nat nat nat | FlushNow

definition producer_step :: "producer_event \<Rightarrow> producer \<times> channel \<Rightarrow> producer \<times> channel" where
  "producer_step ev st = (case ev of
       PushFlows flows now now' \<Rightarrow> (case producer_push (\<lambda>v. v @ flows) now now' (fst st) (snd st) of (p, ch, _) \<Rightarrow> (p, ch))
     | PushRaw js flows now now' \<Rightarrow> (case producer_push_raw js flows now now' (fst st) (snd st) of (p, ch, _) \<Rightarrow> (p, ch))
     | FlushNow \<Rightarrow> (case producer_flush (fst st) (snd st) of (p, ch, _) \<Rightarrow> (p, ch)))"

definition event_flows :: "producer_event \<Rightarrow> common_flow list" where
  "event_flows ev = (case ev of PushFlows flows _ _ \<Rightarrow> flows | _ \<Rightarrow> [])"

definition event_lines :: "bool \<Rightarrow> producer_event \<Rightarrow> bytes" where
  "event_lines discard ev = (case ev of PushRaw js _ _ _ \<Rightarrow> if discard then [] else js @ [10] | _ \<Rightarrow> [])"

definition event_raw_flows :: "producer_event \<Rightarrow> nat" where
  "event_raw_flows ev = (case ev of PushRaw _ flows _ _ \<Rightarrow> flows | _ \<Rightarrow> 0)"

definition sent_flows :: "chunk list \<Rightarrow> common_flow list" where
  "sent_flows cs = concat (map (\<lambda>c. case c of FlowsChunk flows \<Rightarrow> flows | _ \<Rightarrow> []) cs)"

definition sent_lines :: "chunk list \<Rightarrow> bytes" where
  "sent_lines cs = concat (map (\<lambda>c. case c of RawChunk lines _ \<Rightarrow> lines | _ \<Rightarrow> []) cs)"

definition sent_raw_flows :: "chunk list \<Rightarrow> nat" where
  "sent_raw_flows cs = (\<Sum>c \<leftarrow> cs. case c of RawChunk _ n \<Rightarrow> n | _ \<Rightarrow> 0)"

lemma sent_simps [simp]:
  "sent_flows (a @ b) = sent_flows a @ sent_flows b" "sent_lines (a @ b) = sent_lines a @ sent_lines b"
  "sent_raw_flows (a @ b) = sent_raw_flows a + sent_raw_flows b"
  "sent_flows (FlowsChunk fs # cs) = fs @ sent_flows cs" "sent_flows (RawChunk ls n # cs) = sent_flows cs"
  "sent_lines (FlowsChunk fs # cs) = sent_lines cs" "sent_lines (RawChunk ls n # cs) = ls @ sent_lines cs"
  "sent_raw_flows (FlowsChunk fs # cs) = sent_raw_flows cs" "sent_raw_flows (RawChunk ls n # cs) = n + sent_raw_flows cs"
  "sent_flows [] = []" "sent_lines [] = []" "sent_raw_flows [] = 0"
  by (simp_all add: sent_flows_def sent_lines_def sent_raw_flows_def)

text \<open>What a producer still owes: everything it was given, \<open>fs\<close>, \<open>ls\<close> and \<open>n\<close>, is sent or held.\<close>

definition producer_owes :: "common_flow list \<Rightarrow> bytes \<Rightarrow> nat \<Rightarrow> producer \<times> channel \<Rightarrow> bool" where
  "producer_owes fs ls n st \<longleftrightarrow> cn_open (snd st) \<and> sent_flows (cn_sent (snd st)) @ pd_flows (fst st) = fs \<and>
     sent_lines (cn_sent (snd st)) @ pd_raw (fst st) = ls \<and> sent_raw_flows (cn_sent (snd st)) + pd_raw_flows (fst st) = n \<and>
     FlowsChunk [] \<notin> set (cn_sent (snd st)) \<and> (pd_raw_records (fst st) = 0 \<longrightarrow> pd_raw (fst st) = [] \<and> pd_raw_flows (fst st) = 0)"

definition held_back :: "producer \<Rightarrow> bool" where
  "held_back p \<longleftrightarrow> pd_flows p \<noteq> [] \<or> 0 < pd_raw_records p"

lemma producer_flush_owes:
  assumes "producer_flush p ch = (p', ch', ok)" and "producer_owes fs ls n (p, ch)"
  shows "ok \<and> producer_owes fs ls n (p', ch') \<and> \<not> held_back p' \<and> pd_discard p' = pd_discard p"
  using assms
  by (auto simp: producer_flush_def flush_flows_def send_chunk_def producer_owes_def held_back_def split: if_splits)

lemma send_if_ready_owes:
  assumes "send_if_ready now recs p ch = (p', ch', ok)" and "producer_owes fs ls n (p, ch)"
  shows "ok \<and> producer_owes fs ls n (p', ch') \<and> pd_discard p' = pd_discard p \<and>
    (held_back p' \<longrightarrow> p' = p \<and> recs < CHUNK_RECORDS \<and> now < pd_chunk_started p + CHUNK_FLUSH_TIMEOUT)"
  using assms producer_flush_owes [OF _ assms(2), of p' ch' ok]
  by (auto simp: send_if_ready_def split: if_splits)

lemma start_chunk_simps [simp]:
  "pd_flows (start_chunk now p) = pd_flows p" "pd_raw (start_chunk now p) = pd_raw p"
  "pd_raw_records (start_chunk now p) = pd_raw_records p" "pd_raw_flows (start_chunk now p) = pd_raw_flows p"
  "pd_discard (start_chunk now p) = pd_discard p"
  by (simp_all add: start_chunk_def)

definition producer_bounded :: "producer \<Rightarrow> bool" where
  "producer_bounded p \<longleftrightarrow> length (pd_flows p) < CHUNK_RECORDS \<and> pd_raw_records p < CHUNK_RECORDS"

lemma producer_step_owes:
  assumes "producer_owes fs ls n st" and "producer_bounded (fst st)"
  shows "producer_owes (fs @ event_flows ev) (ls @ event_lines (pd_discard (fst st)) ev) (n + event_raw_flows ev) (producer_step ev st) \<and>
    producer_bounded (fst (producer_step ev st)) \<and> pd_discard (fst (producer_step ev st)) = pd_discard (fst st)"
proof (cases ev)
  case (PushFlows flows now now')
  define p where "p = (start_chunk now (fst st))\<lparr>pd_flows := pd_flows (fst st) @ flows\<rparr>"
  obtain p' ch' ok where ready: "send_if_ready now' (length (pd_flows p)) p (snd st) = (p', ch', ok)" by (metis prod_cases3)
  have "producer_owes (fs @ flows) ls n (p, snd st)"
    using assms(1) by (auto simp: producer_owes_def p_def)
  from send_if_ready_owes [OF ready this] assms(2) show ?thesis
    using ready PushFlows
    by (auto simp: producer_step_def producer_push_def Let_def p_def event_flows_def event_lines_def event_raw_flows_def
        producer_bounded_def held_back_def CHUNK_RECORDS_def)
next
  case (PushRaw js flows now now')
  define p where "p = (let s = (if \<not> pd_discard (fst st) then (start_chunk now (fst st))\<lparr>pd_raw := pd_raw (fst st) @ js @ [10]\<rparr>
      else start_chunk now (fst st)) in s\<lparr>pd_raw_records := pd_raw_records (fst st) + 1, pd_raw_flows := pd_raw_flows (fst st) + flows\<rparr>)"
  obtain p' ch' ok where ready: "send_if_ready now' (pd_raw_records p) p (snd st) = (p', ch', ok)" by (metis prod_cases3)
  have "producer_owes fs (ls @ event_lines (pd_discard (fst st)) ev) (n + flows) (p, snd st)"
    using assms(1) PushRaw by (auto simp: producer_owes_def p_def Let_def event_lines_def)
  from send_if_ready_owes [OF ready this] assms(2) show ?thesis
    using ready PushRaw
    by (cases "pd_discard (fst st)")
      (auto simp: producer_step_def producer_push_raw_def Let_def p_def event_flows_def event_raw_flows_def
        producer_bounded_def held_back_def CHUNK_RECORDS_def)
next
  case FlushNow
  obtain p' ch' ok where "producer_flush (fst st) (snd st) = (p', ch', ok)" by (metis prod_cases3)
  with producer_flush_owes [OF this, of fs ls n] assms show ?thesis
    using FlushNow
    by (auto simp: producer_step_def event_flows_def event_lines_def event_raw_flows_def producer_bounded_def held_back_def
        CHUNK_RECORDS_def)
qed

lemma producer_run_owes:
  assumes "producer_owes fs ls n st" and "producer_bounded (fst st)"
  shows "producer_owes (fs @ concat (map event_flows evs)) (ls @ concat (map (event_lines (pd_discard (fst st))) evs))
      (n + (\<Sum>ev \<leftarrow> evs. event_raw_flows ev)) (fold producer_step evs st) \<and> producer_bounded (fst (fold producer_step evs st))"
  using assms
proof (induction evs arbitrary: fs ls n st)
  case (Cons ev evs)
  from producer_step_owes [OF Cons.prems, of ev] Cons.IH [of "fs @ event_flows ev" "ls @ event_lines (pd_discard (fst st)) ev" "n + event_raw_flows ev" "producer_step ev st"]
  show ?case by (simp add: add.assoc)
qed simp

lemma producer_push_ok:
  assumes "producer_owes fs ls n st"
  shows "producer_push (\<lambda>v. v @ flows) now now' (fst st) (snd st) = (p, ch, ok) \<Longrightarrow> ok"
    and "producer_push_raw js m now now' (fst st) (snd st) = (p, ch, ok) \<Longrightarrow> ok"
proof -
  have "producer_owes (fs @ flows) ls n ((start_chunk now (fst st))\<lparr>pd_flows := pd_flows (fst st) @ flows\<rparr>, snd st)"
    using assms by (simp add: producer_owes_def)
  then show "producer_push (\<lambda>v. v @ flows) now now' (fst st) (snd st) = (p, ch, ok) \<Longrightarrow> ok"
    using send_if_ready_owes by (fastforce simp: producer_push_def Let_def)
  have open': "producer_flush q (snd st) = (p, ch, ok) \<Longrightarrow> ok" for q
    using assms by (auto simp: producer_owes_def producer_flush_def flush_flows_def send_chunk_def split: if_splits)
  then show "producer_push_raw js m now now' (fst st) (snd st) = (p, ch, ok) \<Longrightarrow> ok"
    by (auto simp: producer_push_raw_def Let_def send_if_ready_def split: if_splits)
qed

text \<open>Since when something waits, told from the history alone: the time of the push that first left something held back, with nothing held
  back before it; a push has the clock when it begins and when it looks whether to send.\<close>

definition event_begins :: "producer_event \<Rightarrow> nat option" where
  "event_begins ev = (case ev of PushFlows _ now _ \<Rightarrow> Some now | PushRaw _ _ now _ \<Rightarrow> Some now | FlushNow \<Rightarrow> None)"

fun held_since :: "producer_event list \<Rightarrow> producer \<times> channel \<Rightarrow> nat option \<Rightarrow> nat option" where
  "held_since [] st since = since"
| "held_since (ev # evs) st since =
     (let st' = producer_step ev st
      in held_since evs st' (if held_back (fst st') then (case since of Some t \<Rightarrow> Some t | None \<Rightarrow> event_begins ev) else None))"

definition waited :: "nat \<Rightarrow> nat option \<Rightarrow> nat" where
  "waited now since = (case since of Some t \<Rightarrow> now - t | None \<Rightarrow> 0)"

lemma held_since_append:
  "held_since (evs @ evs') st since = held_since evs' (fold producer_step evs st) (held_since evs st since)"
  by (induction evs arbitrary: st since) (simp_all add: Let_def)

text \<open>The field \<open>pd_chunk_started\<close> is that time.\<close>

definition since_ok :: "producer \<Rightarrow> nat option \<Rightarrow> bool" where
  "since_ok p since \<longleftrightarrow> since = (if held_back p then Some (pd_chunk_started p) else None)"

lemma start_chunk_started:
  assumes "since_ok p since"
  shows "pd_chunk_started (start_chunk now p) = (case since of Some t \<Rightarrow> t | None \<Rightarrow> now)"
  using assms by (auto simp: since_ok_def start_chunk_def held_back_def)

lemma send_if_ready_started:
  assumes "producer_owes fs ls n (p, ch)" and "held_back (fst (send_if_ready now recs p ch))"
  shows "pd_chunk_started (fst (send_if_ready now recs p ch)) = pd_chunk_started p \<and> now < pd_chunk_started p + CHUNK_FLUSH_TIMEOUT"
proof -
  obtain p' ch' ok where "send_if_ready now recs p ch = (p', ch', ok)" by (metis prod_cases3)
  with send_if_ready_owes [OF this assms(1)] assms(2) show ?thesis by simp
qed

lemma producer_step_since:
  fixes ev :: producer_event
  assumes "producer_owes fs ls n st" and "since_ok (fst st) since"
  defines "st' \<equiv> producer_step ev st"
  defines "since' \<equiv> (if held_back (fst st') then (case since of Some t \<Rightarrow> Some t | None \<Rightarrow> event_begins ev) else None)"
  shows "since_ok (fst st') since' \<and>
    (case ev of PushFlows _ _ now' \<Rightarrow> waited now' since' < CHUNK_FLUSH_TIMEOUT
     | PushRaw _ _ _ now' \<Rightarrow> waited now' since' < CHUNK_FLUSH_TIMEOUT | FlushNow \<Rightarrow> True)"
proof -
  have zero: "0 < CHUNK_FLUSH_TIMEOUT" by (simp add: CHUNK_FLUSH_TIMEOUT_def)
  note started = start_chunk_started [OF assms(2)]
  show ?thesis
  proof (cases ev)
    case (PushFlows flows now now')
    let ?p = "(start_chunk now (fst st))\<lparr>pd_flows := pd_flows (fst st) @ flows\<rparr>"
    have owes: "producer_owes (fs @ flows) ls n (?p, snd st)" using assms(1) by (simp add: producer_owes_def)
    have st': "fst st' = fst (send_if_ready now' (length (pd_flows ?p)) ?p (snd st))"
      by (simp add: st'_def PushFlows producer_step_def producer_push_def Let_def case_prod_beta)
    show ?thesis
      using send_if_ready_started [OF owes, of now' "length (pd_flows ?p)"] started [of now] zero
      by (auto simp: PushFlows since'_def since_ok_def waited_def event_begins_def st' split: option.splits)
  next
    case (PushRaw js m now now')
    let ?q = "start_chunk now (fst st)"
    let ?r = "if \<not> pd_discard ?q then ?q\<lparr>pd_raw := pd_raw ?q @ js @ [10]\<rparr> else ?q"
    let ?p = "?r\<lparr>pd_raw_records := pd_raw_records ?r + 1, pd_raw_flows := pd_raw_flows ?r + m\<rparr>"
    have owes: "producer_owes fs (ls @ event_lines (pd_discard (fst st)) ev) (n + m) (?p, snd st)"
      using assms(1) by (simp add: PushRaw producer_owes_def event_lines_def)
    have st': "fst st' = fst (send_if_ready now' (pd_raw_records ?p) ?p (snd st))"
      by (simp add: st'_def PushRaw producer_step_def producer_push_raw_def Let_def case_prod_beta)
    have "pd_chunk_started ?p = pd_chunk_started ?q" by simp
    then show ?thesis
      using send_if_ready_started [OF owes, of now' "pd_raw_records ?p"] started [of now] zero
      unfolding PushRaw since'_def since_ok_def waited_def event_begins_def st' producer_event.case
      by (auto split: option.splits simp del: if_split_asm)
  next
    case FlushNow
    obtain p ch ok where flush: "producer_flush (fst st) (snd st) = (p, ch, ok)" by (metis prod_cases3)
    then have "fst st' = p" by (simp add: st'_def FlushNow producer_step_def)
    moreover have "\<not> held_back p" using producer_flush_owes [OF flush, of fs ls n] assms(1) by simp
    ultimately show ?thesis by (simp add: FlushNow since'_def since_ok_def)
  qed
qed

lemma held_since_ok:
  assumes "producer_owes fs ls n st" and "producer_bounded (fst st)" and "since_ok (fst st) since"
  shows "since_ok (fst (fold producer_step evs st)) (held_since evs st since)"
  using assms
proof (induction evs arbitrary: fs ls n st since)
  case (Cons ev evs)
  show ?case
    using Cons.IH [OF conjunct1 [OF producer_step_owes [OF Cons.prems(1,2), of ev]]] producer_step_owes [OF Cons.prems(1,2), of ev]
      producer_step_since [OF Cons.prems(1,3), of ev]
    by (simp add: Let_def)
qed simp

lemma last_push_waits:
  assumes "producer_owes fs ls n st" and "since_ok (fst st) since"
  shows "waited now' (held_since [PushFlows flows now now'] st since) < CHUNK_FLUSH_TIMEOUT"
    and "waited now' (held_since [PushRaw js m now now'] st since) < CHUNK_FLUSH_TIMEOUT"
  using producer_step_since [OF assms, of "PushFlows flows now now'"] producer_step_since [OF assms, of "PushRaw js m now now'"]
  by (simp_all add: Let_def)

text \<open>C7. A producer loses, doubles and reorders nothing: whatever it is given, once it is dropped the chunks sent hold
  all the flows, all the lines of raw packets and the count of their flows; a chunk of flows is never empty; it never
  holds back as many as \<open>CHUNK_RECORDS\<close> records of a kind after an operation; nor, after a packet is pushed, does it hold back anything
  since a push that began \<open>CHUNK_FLUSH_TIMEOUT\<close> ago or earlier, the push that left something held back when nothing had been.\<close>

theorem producer_conserves:
  fixes evs :: "producer_event list" and discard start
  defines "st \<equiv> fold producer_step evs (pipeline_producer discard start, \<lparr>cn_sent = [], cn_open = True\<rparr>)"
  defines "chunks \<equiv> cn_sent (producer_drop (fst st) (snd st))"
  shows "sent_flows chunks = concat (map event_flows evs) \<and> sent_lines chunks = concat (map (event_lines discard) evs) \<and>
    sent_raw_flows chunks = (\<Sum>ev \<leftarrow> evs. event_raw_flows ev) \<and> FlowsChunk [] \<notin> set chunks \<and>
    length (pd_flows (fst st)) < CHUNK_RECORDS \<and> pd_raw_records (fst st) < CHUNK_RECORDS \<and>
    waited now' (held_since (evs @ [PushFlows flows now now']) (pipeline_producer discard start, \<lparr>cn_sent = [], cn_open = True\<rparr>) None)
      < CHUNK_FLUSH_TIMEOUT \<and>
    waited now' (held_since (evs @ [PushRaw js m now now']) (pipeline_producer discard start, \<lparr>cn_sent = [], cn_open = True\<rparr>) None)
      < CHUNK_FLUSH_TIMEOUT"
proof -
  have start: "producer_owes [] [] 0 (pipeline_producer discard start, \<lparr>cn_sent = [], cn_open = True\<rparr>)"
    "producer_bounded (pipeline_producer discard start)" "pd_discard (pipeline_producer discard start) = discard"
    by (simp_all add: producer_owes_def producer_bounded_def pipeline_producer_def CHUNK_RECORDS_def)
  have owes: "producer_owes (concat (map event_flows evs)) (concat (map (event_lines discard) evs)) (\<Sum>ev \<leftarrow> evs. event_raw_flows ev) st"
    and bounded: "producer_bounded (fst st)"
    using producer_run_owes [OF start(1), of evs] start(2,3) by (simp_all add: st_def)
  obtain p ch ok where flush: "producer_flush (fst st) (snd st) = (p, ch, ok)" by (metis prod_cases3)
  from producer_flush_owes [OF this, of "concat (map event_flows evs)"] owes
  have flushed: "producer_owes (concat (map event_flows evs)) (concat (map (event_lines discard) evs)) (\<Sum>ev \<leftarrow> evs. event_raw_flows ev) (p, ch)"
    "\<not> held_back p" by (metis prod.collapse)+
  have "since_ok (pipeline_producer discard start) None"
    by (simp add: since_ok_def held_back_def pipeline_producer_def)
  then have since: "since_ok (fst st) (held_since evs (pipeline_producer discard start, \<lparr>cn_sent = [], cn_open = True\<rparr>) None)"
    using held_since_ok [OF start(1)] start(2) by (simp add: st_def)
  have "chunks = cn_sent ch" by (simp add: chunks_def producer_drop_def flush)
  then show ?thesis
    using flushed bounded last_push_waits [OF owes since]
    unfolding held_since_append st_def [symmetric]
    by (auto simp: producer_owes_def held_back_def [of p] producer_bounded_def simp del: held_since.simps)
qed

section \<open>Nothing is lost on the way to the files\<close>

lemma tallies_on_sink_write:
  "tallies (snd (errors_write r errs out)) =
     (fst (tallies out), fst (snd (tallies out)) + (if r = None then 0 else 1), snd (snd (tallies out)))"
  "tallies (snd (errors_flush r errs out)) =
     (fst (tallies out), fst (snd (tallies out)) + (if r = None then 0 else 1), snd (snd (tallies out)))"
  by (auto simp: errors_write_def errors_flush_def observe_result_def tallies_def split: prod.splits option.splits)

lemma tallies_on_sink_rotate:
  "tallies (snd (errors_rotate r errs out)) =
     (fst (tallies out), fst (snd (tallies out)), snd (snd (tallies out)) + (if isl r then 1 else 0))"
  by (auto simp: errors_rotate_def observe_result_def tallies_def split: prod.splits option.splits sum.splits bool.splits)

lemma reports_keep_world:
  "ow_world (snd (errors_write r1 errs out)) = ow_world out" "ow_world (snd (errors_flush r1 errs out)) = ow_world out"
  "ow_world (snd (errors_rotate r2 errs out)) = ow_world out"
  by (auto simp: errors_write_def errors_flush_def errors_rotate_def split: prod.splits option.splits)

lemma enrich_groups_length:
  "enrich_groups L4 L6 flow gs out = Some out' \<Longrightarrow> length out' = length out"
proof (induction gs arbitrary: out)
  case (Cons sg gs)
  have set: "set_fields r fs out = Some out' \<Longrightarrow> length out' = length out" for r fs out out'
    by (induction r fs out rule: set_fields.induct) (auto split: if_splits option.splits)
  obtain s g where "sg = (s, g)" by force
  with Cons.prems obtain mid where "enrich_group L4 L6 flow s g out = Some mid" "enrich_groups L4 L6 flow gs mid = Some out'"
    by (auto split: bind_splits)
  then show ?case using Cons.IH [of mid] set by (auto simp: enrich_group_def split: option.splits bind_splits)
qed simp

text \<open>What a turn of the loop has to write, with \<open>k\<close> output fields.\<close>

definition enriched_flow ::
    "('e, 'w, 'm4, 'm6) encoder_env \<Rightarrow> nat \<Rightarrow> ('m4, 'm6) engine \<Rightarrow> common_flow \<Rightarrow> enriched" where
  "enriched_flow env k engine flow =
     the (snapshot_enrich (ev_lib4 env) (ev_lib6 env) engine (engine_snapshot engine) flow (replicate k None))"

definition chunk_records :: "('e, 'w, 'm4, 'm6) encoder_env \<Rightarrow> nat \<Rightarrow> ('m4, 'm6) loop_event \<Rightarrow> out_record list" where
  "chunk_records env k ev = (case le_chunk ev of
       None \<Rightarrow> []
     | Some (FlowsChunk flows) \<Rightarrow> map (\<lambda>f. FlowRecord f (enriched_flow env k (le_engine ev) f)) flows
     | Some (RawChunk lines _) \<Rightarrow> [RawRecord lines])"

definition chunk_flows :: "chunk option \<Rightarrow> nat" where
  "chunk_flows c = (case c of None \<Rightarrow> 0 | Some (FlowsChunk flows) \<Rightarrow> length flows | Some (RawChunk _ n) \<Rightarrow> n)"

lemma snapshot_enrich_eq:
  assumes "snapshot_enrich (ev_lib4 env) (ev_lib6 env) engine (engine_snapshot engine) flow out = Some enriched"
  shows "enriched = enriched_flow env (length out) engine flow \<and> length enriched = length out"
proof -
  have "snapshot_enrich (ev_lib4 env) (ev_lib6 env) engine (engine_snapshot engine) flow (replicate (length out) None) = Some enriched"
    using assms by (simp add: snapshot_enrich_def)
  then show ?thesis
    using assms enrich_groups_length by (fastforce simp: enriched_flow_def snapshot_enrich_def)
qed

definition event_ok :: "int \<Rightarrow> ('m4, 'm6) loop_event \<Rightarrow> bool" where
  "event_ok n ev \<longleftrightarrow> clock_ok n (le_now_rotate ev) \<and> (\<forall>i. clock_ok n (le_now_write ev i)) \<and> clock_ok n (le_now_flush ev)"

context sink_spec
begin

text \<open>As long as the error counters are still \<open>we\<close> and \<open>re\<close>, the account of the sink holds the records so far.\<close>

definition loop_ok :: "'w \<Rightarrow> nat \<Rightarrow> nat \<Rightarrow> nat \<Rightarrow> nat \<Rightarrow> out_record list \<Rightarrow> ('e, 'w) loop_state \<Rightarrow> bool" where
  "loop_ok w0 k fl we re recs st \<longleftrightarrow> length (lp_enriched st) = k \<and> fst (tallies (lp_out st)) = fl \<and>
     we \<le> fst (snd (tallies (lp_out st))) \<and> re \<le> snd (snd (tallies (lp_out st))) \<and>
     (fst (snd (tallies (lp_out st))) = we \<and> snd (snd (tallies (lp_out st))) = re \<longrightarrow>
       (\<exists>closed cur. account w0 closed cur (lp_sink st) (ow_world (lp_out st)) \<and> concat (map snd closed) @ cur = recs))"

lemma loop_ok_sink:
  assumes "loop_ok w0 k fl we re recs st" and "tallies (fst (snd r)) = tallies (lp_out st)"
    and "tallies (snd (report (snd (snd r)) (lp_errors st) (fst (snd r)))) =
      (fl, fst (snd (tallies (fst (snd r)))) + x, snd (snd (tallies (fst (snd r)))) + y)"
    and "ow_world (snd (report (snd (snd r)) (lp_errors st) (fst (snd r)))) = ow_world (fst (snd r))"
    and "\<And>closed cur. x = 0 \<Longrightarrow> y = 0 \<Longrightarrow> account w0 closed cur (lp_sink st) (ow_world (lp_out st)) \<Longrightarrow>
      \<exists>closed' cur'. account w0 closed' cur' (fst r) (ow_world (fst (snd r))) \<and>
        concat (map snd closed') @ cur' = concat (map snd closed) @ cur @ new"
  shows "loop_ok w0 k fl we re (recs @ new) (on_sink report r st)"
  using assms by (auto simp: loop_ok_def on_sink_def split: prod.splits)

definition env_ok :: "('e, 'w, 'm4, 'm6) encoder_env \<Rightarrow> bool" where
  "env_ok env \<longleftrightarrow> ev_fs env = F \<and> ev_chrono env = C \<and> ev_calendar env = K \<and> ev_encoder env = E"

lemma loop_ok_flows: "loop_ok w0 k fl we re recs st \<Longrightarrow> fst (tallies (lp_out st)) = fl"
  by (simp add: loop_ok_def)

lemma loop_rotate_ok:
  assumes "loop_ok w0 k fl we re recs st" and "env_ok env"
  shows "loop_ok w0 k fl we re recs (loop_rotate env now st)"
proof -
  obtain sink out r where rot: "rotate_if_due F C E now (lp_sink st) (lp_out st) = (sink, out, r)" by (metis prod_cases3)
  have "tallies out = tallies (lp_out st)" using sink_errors(4) [of F C now "lp_sink st" "lp_out st"] by (simp add: rot)
  then have "loop_ok w0 k fl we re (recs @ []) (on_sink errors_rotate (sink, out, r) st)"
    using assms(1) rotate_ok [of now "lp_sink st" "lp_out st" sink out "projr r"] rot
    by (intro loop_ok_sink [where x = 0 and y = "if isl r then 1 else 0"])
      (auto simp: tallies_on_sink_rotate reports_keep_world loop_ok_flows [OF assms(1)] split: if_splits)
  then show ?thesis using assms(2) rot by (simp add: loop_rotate_def env_ok_def)
qed

lemma loop_flush_ok:
  assumes "loop_ok w0 k fl we re recs st" and "env_ok env"
  shows "loop_ok w0 k fl we re recs (on_sink errors_flush (sink_flush (ev_encoder env) (lp_sink st) (lp_out st)) st)"
proof -
  obtain sink out r where flush: "sink_flush E (lp_sink st) (lp_out st) = (sink, out, r)" by (metis prod_cases3)
  have "tallies out = tallies (lp_out st)" using sink_errors(3) [of "lp_sink st" "lp_out st"] by (simp add: flush)
  then have "loop_ok w0 k fl we re (recs @ []) (on_sink errors_flush (sink, out, r) st)"
    using assms(1) sink_flush_ok [of "lp_sink st" "lp_out st" sink out] flush
    by (intro loop_ok_sink [where x = "if r = None then 0 else 1" and y = 0])
      (auto simp: tallies_on_sink_write reports_keep_world loop_ok_flows [OF assms(1)] split: if_splits, blast)
  then show ?thesis using assms(2) flush by (simp add: env_ok_def)
qed

lemma loop_raw_ok:
  assumes "loop_ok w0 k fl we re recs st" and "env_ok env" and "clock_ok n now"
  shows "loop_ok w0 k fl we re (recs @ [RawRecord b])
    (on_sink errors_write (sink_write_raw (ev_fs env) (ev_chrono env) (ev_calendar env) (ev_encoder env) b now
      (lp_sink st) (lp_out st)) st)"
proof -
  obtain sink out r where step: "sink_write_raw F C K E b now (lp_sink st) (lp_out st) = (sink, out, r)" by (metis prod_cases3)
  have "tallies out = tallies (lp_out st)" using sink_errors(2) [of F C K b now "lp_sink st" "lp_out st"] by (simp add: step)
  then have "loop_ok w0 k fl we re (recs @ [RawRecord b]) (on_sink errors_write (sink, out, r) st)"
    using assms(1) sink_write_raw_ok [OF _ _ assms(3), of b "lp_sink st" "lp_out st" sink out] step
    by (intro loop_ok_sink [where x = "if r = None then 0 else 1" and y = 0])
      (auto simp: tallies_on_sink_write reports_keep_world loop_ok_flows [OF assms(1)] split: if_splits, metis append.assoc)
  then show ?thesis using assms(2) step by (simp add: env_ok_def)
qed

lemma loop_write_ok:
  assumes "loop_ok w0 k fl we re recs st" and "env_ok env" and "clock_ok n now" and "length en = k"
  shows "loop_ok w0 k fl we re (recs @ [FlowRecord flow en])
    (on_sink errors_write (sink_write (ev_fs env) (ev_chrono env) (ev_calendar env) (ev_encoder env) flow en now
      (lp_sink st) (lp_out st)) (st\<lparr>lp_enriched := en\<rparr>))"
proof -
  obtain sink out r where step: "sink_write F C K E flow en now (lp_sink st) (lp_out st) = (sink, out, r)" by (metis prod_cases3)
  have "tallies out = tallies (lp_out st)" using sink_errors(1) [of F C K flow en now "lp_sink st" "lp_out st"] by (simp add: step)
  moreover have "loop_ok w0 k fl we re recs (st\<lparr>lp_enriched := en\<rparr>)" using assms(1,4) by (simp add: loop_ok_def)
  ultimately have "loop_ok w0 k fl we re (recs @ [FlowRecord flow en]) (on_sink errors_write (sink, out, r) (st\<lparr>lp_enriched := en\<rparr>))"
    using sink_write_ok [OF _ _ assms(3), of flow en "lp_sink st" "lp_out st" sink out] step
    by (intro loop_ok_sink [where x = "if r = None then 0 else 1" and y = 0])
      (auto simp: tallies_on_sink_write reports_keep_world loop_ok_flows [OF assms(1)] split: if_splits, metis append.assoc)
  then show ?thesis using assms(2) step by (simp add: env_ok_def)
qed

lemma write_flows_ok:
  assumes "write_flows env ev flows i st = Some st'" and "loop_ok w0 k fl we re recs st" and "env_ok env" and "event_ok n ev"
  shows "loop_ok w0 k fl we re (recs @ map (\<lambda>f. FlowRecord f (enriched_flow env k (le_engine ev) f)) flows) st'"
  using assms(1,2)
proof (induction flows arbitrary: i st recs)
  case (Cons flow flows)
  obtain en where en: "snapshot_enrich (ev_lib4 env) (ev_lib6 env) (le_engine ev) (engine_snapshot (le_engine ev)) flow (lp_enriched st) = Some en"
    using Cons.prems(1) by (auto split: option.splits)
  have "length (lp_enriched st) = k" using Cons.prems(2) by (simp add: loop_ok_def)
  with snapshot_enrich_eq [OF en] have eq: "en = enriched_flow env k (le_engine ev) flow" "length en = k" by auto
  have "clock_ok n (le_now_write ev i)" using assms(4) by (simp add: event_ok_def)
  from Cons.IH [OF _ loop_write_ok [OF Cons.prems(2) assms(3) this eq(2)], of "i + 1"] show ?case
    using Cons.prems(1) en eq(1) by (simp add: Let_def)
qed simp

lemma add_flows_ok: "loop_ok w0 k fl we re recs st \<Longrightarrow> loop_ok w0 k (fl + m) we re recs (add_flows m st)"
  by (simp add: loop_ok_def add_flows_def tallies_def)

lemma loop_chunk_ok:
  assumes "loop_chunk env ev c st = Some st'" and "loop_ok w0 k fl we re recs st" and "env_ok env" and "event_ok n ev"
    and "le_chunk ev = Some c"
  shows "loop_ok w0 k (fl + chunk_flows (Some c)) we re (recs @ chunk_records env k ev) st'"
proof (cases c)
  case (FlowsChunk flows)
  then show ?thesis
    using assms write_flows_ok [OF _ assms(2-4)] add_flows_ok
    by (auto simp: loop_chunk_def chunk_flows_def chunk_records_def)
next
  case (RawChunk lines m)
  then show ?thesis
    using assms add_flows_ok [OF loop_raw_ok [OF assms(2,3)], of "le_now_write ev 0" m lines]
    by (auto simp: loop_chunk_def chunk_flows_def chunk_records_def event_ok_def)
qed

lemma loop_turn_ok:
  assumes "loop_turn env ev st = Some st'" and "loop_ok w0 k fl we re recs st" and "env_ok env" and "event_ok n ev"
  shows "loop_ok w0 k (fl + chunk_flows (le_chunk ev)) we re (recs @ chunk_records env k ev) st'"
proof -
  obtain mid where mid: "(case le_chunk ev of None \<Rightarrow> Some st | Some c \<Rightarrow> loop_chunk env ev c (loop_rotate env (le_now_rotate ev) st)) = Some mid"
    using assms(1) by (auto simp: loop_turn_def split: option.splits)
  then have ok: "loop_ok w0 k (fl + chunk_flows (le_chunk ev)) we re (recs @ chunk_records env k ev) mid"
    using assms(2) loop_chunk_ok [OF _ loop_rotate_ok [OF assms(2,3)] assms(3,4)]
    by (cases "le_chunk ev") (auto simp: chunk_flows_def chunk_records_def)
  obtain timer due where timer: "timer_due (le_instant ev) (lp_timer mid) = (timer, due)" by force
  from ok have timed: "loop_ok w0 k (fl + chunk_flows (le_chunk ev)) we re (recs @ chunk_records env k ev) (mid\<lparr>lp_timer := timer\<rparr>)"
    by (simp add: loop_ok_def)
  show ?thesis
    using assms(1) mid timer timed loop_flush_ok [OF loop_rotate_ok [OF timed assms(3)] assms(3)]
    by (cases due) (auto simp: loop_turn_def Let_def)
qed

lemma loop_turns_ok:
  assumes "loop_turns env evs st = Some st'" and "loop_ok w0 k fl we re recs st" and "env_ok env" and "\<forall>ev \<in> set evs. event_ok n ev"
  shows "loop_ok w0 k (fl + (\<Sum>ev \<leftarrow> evs. chunk_flows (le_chunk ev))) we re (recs @ concat (map (chunk_records env k) evs)) st'"
  using assms(1,2,4)
proof (induction evs arbitrary: st fl recs)
  case (Cons ev evs)
  then obtain mid where "loop_turn env ev st = Some mid" "loop_turns env evs mid = Some st'" by (auto split: bind_splits)
  then show ?case
    using Cons.IH [OF _ loop_turn_ok [OF _ Cons.prems(2) assms(3)], of mid ev] Cons.prems(3) by (simp add: add.assoc)
qed simp

lemma sink_finish_tallies: "tallies (fst (sink_finish F E sink out)) = tallies out"
  using close_errors by (auto simp: sink_finish_def split: option.splits)

lemma sink_open_tallies: "tallies (fst (sink_open_at F C K E d names now out)) = tallies out"
  using open_window_errors by (auto simp: sink_open_at_def Let_def split: prod.splits sum.splits) (metis fst_conv)+

lemma account_hook: "account w0 closed cur (sink\<lparr>rs_hook := h\<rparr>) w = account w0 closed cur sink w"
  by (simp add: account_def)

lemma encoder_loop_ok:
  assumes "env_ok env" and "sink_open_at F C K E (DestPartitioned lay n) names now out = (out1, Inr sink)"
    and "clock_ok n now" and "\<forall>ev \<in> set evs. event_ok n ev"
    and "encoder_loop env evs k instant (sink\<lparr>rs_hook := h\<rparr>) out1 = Some (out2, None)"
    and "snd (tallies out2) = snd (tallies out)"
  shows "fst (tallies out2) = fst (tallies out) + (\<Sum>ev \<leftarrow> evs. chunk_flows (le_chunk ev)) \<and>
    (\<exists>closed. completed files content F K lay (ow_world out) closed (ow_world out2) \<and>
      concat (map snd closed) = concat (map (chunk_records env k) evs))"
proof -
  define st where "st = \<lparr>lp_enriched = replicate k None, lp_errors = errors_new,
    lp_timer = timer_new instant FLUSH_INTERVAL, lp_sink = sink\<lparr>rs_hook := h\<rparr>, lp_out = out1\<rparr>"
  obtain st' where run: "loop_turns env evs st = Some st'" and finish: "sink_finish F E (lp_sink st') (lp_out st') = (out2, None)"
    using assms(1,5) by (auto simp: encoder_loop_def st_def env_ok_def split: option.splits)
  have start: "tallies out1 = tallies out"
    using sink_open_tallies [of "DestPartitioned lay n" now out] assms(2) by simp
  moreover have "account (ow_world out) [] [] (sink\<lparr>rs_hook := h\<rparr>) (ow_world out1)"
    using sink_open_ok [OF assms(2,3)] by (simp add: account_hook)
  ultimately have "loop_ok (ow_world out) k (fst (tallies out)) (fst (snd (tallies out))) (snd (snd (tallies out))) [] st"
    unfolding loop_ok_def by (auto simp: st_def intro: exI [of _ "[]"])
  from loop_turns_ok [OF run this assms(1,4)]
  have ok: "loop_ok (ow_world out) k (fst (tallies out) + (\<Sum>ev \<leftarrow> evs. chunk_flows (le_chunk ev))) (fst (snd (tallies out)))
    (snd (snd (tallies out))) (concat (map (chunk_records env k) evs)) st'" by simp
  have final: "tallies (lp_out st') = tallies out2" using sink_finish_tallies [of "lp_sink st'" "lp_out st'"] finish by simp
  from ok assms(6) obtain closed cur where "account (ow_world out) closed cur (lp_sink st') (ow_world (lp_out st'))"
    "concat (map snd closed) @ cur = concat (map (chunk_records env k) evs)"
    unfolding loop_ok_def final by auto
  with finish_sink_ok [OF finish] ok show ?thesis by (metis final loop_ok_def)
qed

end

text \<open>C6. Nothing that reaches the encoder thread is lost: when it ends without an error, in its counters or of its finish, the
  records of all chunks, each flow with its enrichment, are in the files it completed, every record once and in
  the order received, between nothing but the encoder's header; the files have names of the tree that no file had before,
  every other file is as it was but for temporary ones, and the counter of flows has grown by all that the chunks carried.\<close>

theorem encoder_loop_lossless:
  assumes "sink_spec F files S E writer_of names_of held header line raw C K lay n"
    and "ev_fs env = F" and "ev_chrono env = C" and "ev_calendar env = K" and "ev_encoder env = E"
    and "sink_open_at F C K E (DestPartitioned lay n) names now out = (out1, Inr sink)"
    and "clock_ok n now" and "\<forall>ev \<in> set evs. event_ok n ev"
    and "encoder_loop env evs (length names) instant (sink\<lparr>rs_hook := h\<rparr>) out1 = Some (out2, None)"
    and "om_write_errors (ow_metrics out2) = om_write_errors (ow_metrics out)"
    and "om_rotate_errors (ow_metrics out2) = om_rotate_errors (ow_metrics out)"
  shows "om_flows (ow_metrics out2) = om_flows (ow_metrics out) + (\<Sum>ev \<leftarrow> evs. chunk_flows (le_chunk ev)) \<and>
    (\<exists>closed. completed files (file_bytes header line raw names) F K lay (ow_world out) closed (ow_world out2) \<and>
      concat (map snd closed) = concat (map (chunk_records env (length names)) evs))"
  using sink_spec.encoder_loop_ok [OF assms(1) _ assms(6-9)] assms(2-5,10,11)
  by (simp add: sink_spec.env_ok_def [OF assms(1)] tallies_def)

definition example_env :: "(ndjson, file_list, ((u32 \<times> nat) \<times> row) list, ((u128 \<times> nat) \<times> row) list) encoder_env" where
  "example_env = \<lparr>ev_fs = fs_ref, ev_chrono = chrono_ref, ev_calendar = calendar_ref,
     ev_encoder = ndjson_ops stream_ref (\<lambda>_ entries. Some (concat (map (map of_char \<circ> snd) entries))),
     ev_lib4 = prefix_ref, ev_lib6 = prefix_ref\<rparr>"

definition example_event :: "(((u32 \<times> nat) \<times> row) list, ((u128 \<times> nat) \<times> row) list) loop_event" where
  "example_event = \<lparr>le_chunk = Some (RawChunk [65, 10] 3), le_now_rotate = example_time, le_now_write = (\<lambda>_. example_time),
     le_engine = engine_new, le_instant = FLUSH_INTERVAL, le_now_flush = example_time\<rparr>"

definition example_out :: "file_list out" where
  "example_out = \<lparr>ow_world = [], ow_metrics = \<lparr>om_flows = 0, om_bytes = 0, om_files = 0, om_write_errors = 0,
     om_rotate_errors = 0\<rparr>, ow_jobs = []\<rparr>"

definition example_sink :: "ndjson rotating_sink" where
  "example_sink = \<lparr>rs_destination = DestPartitioned example_layout 300, rs_enriched_fields = [],
     rs_current = Some \<lparr>wn_encoder = \<lparr>nj_out = \<lparr>bw_out = FileWriter (pr_tmp example_pending), bw_buf = []\<rparr>, nj_names = []\<rparr>,
       wn_pending = Some example_pending, wn_rotate_at = Some 1787832600\<rparr>, rs_hook = False\<rparr>"

definition example_opened :: "file_list out" where
  "example_opened = example_out\<lparr>ow_world := [(pr_tmp example_pending, [])],
     ow_metrics := (ow_metrics example_out)\<lparr>om_files := 1\<rparr>\<rparr>"

lemma example_stamp:
  "ch_from_timestamp chrono_ref 1787832300 0 = Some example_time" "ch_timestamp chrono_ref example_time = 1787832300"
  by (simp_all add: chrono_ref_def dt_checked_def dt_in_range_def example_time_def)

lemma example_sink_opened:
  "sink_open_at fs_ref chrono_ref calendar_ref (ev_encoder example_env) (DestPartitioned example_layout 300) [] example_time
     example_out = (example_opened, Inr example_sink)"
proof -
  have "create_file fs_ref tmp [] = ([(tmp, [])], None)" for tmp
    by (simp add: create_file_def fs_ref_def split: option.split)
  then show ?thesis
    by (simp add: sink_open_at_def open_window_def open_for_def div_euclid_def example_stamp Let_def example_env_def ndjson_ops_def
        ndjson_open_def example_out_def example_opened_def example_sink_def example_pending_def)
qed

text \<open>The definitions a run of the loop goes through.\<close>

lemmas loop_defs = encoder_loop_def loop_turn_def loop_chunk_def loop_rotate_def rotate_if_due_def on_sink_def errors_rotate_def
  sink_write_raw_def sink_write_def sink_window_def on_encoder_def example_env_def ndjson_ops_def ndjson_write_raw_def
  ndjson_encode_def write_line_def ndjson_flush_def ndjson_finish_def on_out_def bw_write_all_def bw_flush_def
  bw_flush_buf_def write_from.simps counting_write_def counting_flush_def stream_ref_def errors_write_def errors_flush_def
  observe_result_def errors_new_def add_flows_def timer_new_def timer_due_def sink_flush_def sink_finish_def window_close_def
  commit_pending_def pending_commit_def pending_claim_def pending_drop_def claim_final_name_def fs_ref_def fs_delete_def bw_drop_def
  WRITE_BUFFER_BYTES_def FLUSH_INTERVAL_def example_stamp example_out_def example_sink_def example_opened_def Let_def

lemma example_final:
  obtains cs where "candidates (pr_final_path example_pending) = pr_final_path example_pending # cs"
    and "pr_tmp example_pending \<noteq> pr_final_path example_pending"
proof -
  obtain cs where cs: "candidates (pr_final_path example_pending) = pr_final_path example_pending # cs"
    by (simp add: candidates_def Let_def)
  moreover have "pr_tmp example_pending \<noteq> pr_final_path example_pending"
    using calendar_ref.temp_not_candidate [OF example_layout_ok, of fs_ref] cs by (auto simp: example_pending_def)
  ultimately show thesis using that by blast
qed

theorem encoder_loop_lossless_witness:
  "\<exists>out2 closed. encoder_loop example_env [example_event] 0 0 (example_sink\<lparr>rs_hook := True\<rparr>) example_opened = Some (out2, None) \<and>
     om_flows (ow_metrics out2) = 3 \<and> concat (map snd closed) = [RawRecord [65, 10]] \<and>
     completed map_of (file_bytes (\<lambda>_. []) (ndjson_line (\<lambda>_ entries. Some (concat (map (map of_char \<circ> snd) entries))))
       (\<lambda>b. b) []) fs_ref calendar_ref example_layout [] closed (ow_world out2)"
proof -
  obtain cs where "candidates (pr_final_path example_pending) = pr_final_path example_pending # cs"
    and "pr_tmp example_pending \<noteq> pr_final_path example_pending" by (rule example_final)
  then have "\<exists>out2. encoder_loop example_env [example_event] 0 0 (example_sink\<lparr>rs_hook := True\<rparr>) example_opened = Some (out2, None) \<and>
      om_write_errors (ow_metrics out2) = 0 \<and> om_rotate_errors (ow_metrics out2) = 0"
    by (simp add: loop_defs example_event_def)
  then obtain out2 where run: "encoder_loop example_env [example_event] 0 0 (example_sink\<lparr>rs_hook := True\<rparr>) example_opened = Some (out2, None)"
      "om_write_errors (ow_metrics out2) = 0" "om_rotate_errors (ow_metrics out2) = 0" by blast
  have clock: "clock_ok 300 example_time" by code_simp
  have ok: "\<forall>ev \<in> set [example_event]. event_ok 300 ev"
    using clock by (simp add: event_ok_def example_event_def)
  have env: "ev_fs example_env = fs_ref" "ev_chrono example_env = chrono_ref" "ev_calendar example_env = calendar_ref"
    "ev_encoder example_env = ndjson_ops stream_ref (\<lambda>_ entries. Some (concat (map (map of_char \<circ> snd) entries)))"
    by (simp_all add: example_env_def)
  from encoder_loop_lossless [OF sink_ref.sink_spec_axioms env example_sink_opened [unfolded env] clock ok] run
  have "om_flows (ow_metrics out2) = om_flows (ow_metrics example_out) + (\<Sum>ev \<leftarrow> [example_event]. chunk_flows (le_chunk ev)) \<and>
    (\<exists>closed. completed map_of (file_bytes (\<lambda>_. []) (ndjson_line (\<lambda>_ entries. Some (concat (map (map of_char \<circ> snd) entries))))
       (\<lambda>b. b) []) fs_ref calendar_ref example_layout (ow_world example_out) closed (ow_world out2) \<and>
      concat (map snd closed) = concat (map (chunk_records example_env (length ([] :: string list))) [example_event]))"
    by (simp add: example_out_def)
  then show ?thesis
    using run(1) by (auto simp: example_out_def example_event_def chunk_flows_def chunk_records_def)
qed

end
