(* ===== verification/Collect.thy ===== *)
theory Collect
  imports Pipeline Processor
begin

text \<open>
  The ingest threads of the collector: where datagrams come from (\<^verbatim>\<open>rustflow_collect/src/source.rs\<close>), what is counted
  per exporter (\<^verbatim>\<open>metrics.rs\<close>) and the loop that parses, converts and hands over (\<^verbatim>\<open>collect\<close> of \<^verbatim>\<open>lib.rs\<close>).

  The loop is generic in \<^verbatim>\<open>P: Processor\<close>; \<open>processor_ops\<close> is that trait, \<open>processor_spec\<close> what the loop relies on, and both
  processors keep it. Sockets and pcap readers are the results of their reads, as lists. Counters are natural numbers, and a
  metric family is a function from its labels, an exporter's label being its address; the handles that \<^verbatim>\<open>ExporterMetrics\<close>
  caches are those of the families.

  Shown: every datagram is counted once, every flow of every packet parsed is handed to the encoder in
  order, and, with the loop of the encoder, ends up in a file.
\<close>

section \<open>Sources\<close>

datatype datagram = Datagram ip_addr bytes "int option" | Idle | End

datatype read_error = WouldBlock | TimedOut | Interrupted | OtherReadError

definition is_retryable :: "read_error \<Rightarrow> bool" where
  "is_retryable e \<longleftrightarrow> e \<in> {WouldBlock, TimedOut, Interrupted}"

text \<open>The source address and payload that were received, the time then, and whether shutdown was requested before.\<close>

definition socket_next :: "chrono \<Rightarrow> bool \<Rightarrow> read_error + ip_addr \<times> bytes \<Rightarrow> datetime \<Rightarrow> datagram" where
  "socket_next C shutdown received now =
     (if shutdown then End
      else case received of
        Inr (src, payload) \<Rightarrow> Datagram src payload (ch_timestamp_nanos_opt C now)
      | Inl e \<Rightarrow> if is_retryable e then Idle else Idle)"

text \<open>One try per element: whether shutdown was requested, and the packet read, with its capture time in nanoseconds, an
  error, or the end of the file.\<close>

fun pcap_next ::
    "etherparse \<Rightarrow> u32 \<Rightarrow> (bool \<times> (unit + nat \<times> bytes) option) list \<Rightarrow> datagram \<times> (bool \<times> (unit + nat \<times> bytes) option) list" where
  "pcap_next E link_type [] = (End, [])"
| "pcap_next E link_type ((shutdown, read) # reads) =
     (if shutdown then (End, (shutdown, read) # reads)
      else case read of
        None \<Rightarrow> (End, reads)
      | Some (Inl _) \<Rightarrow> (End, reads)
      | Some (Inr (timestamp, data)) \<Rightarrow>
          (case parse_udp_packet E link_type data of
             None \<Rightarrow> pcap_next E link_type reads
           | Some (src, payload) \<Rightarrow>
               (Datagram src payload (if timestamp < 2 ^ 63 then Some (int timestamp) else None), reads)))"

section \<open>Metrics of exporters\<close>

record input_metrics =
  im_packets_received :: "string \<times> ip_addr \<Rightarrow> nat"
  im_bytes_received :: "ip_addr \<Rightarrow> nat"
  im_flows_processed :: "string \<times> ip_addr \<Rightarrow> nat"
  im_parse_errors :: "string \<times> ip_addr \<Rightarrow> nat"
  im_unknown_version :: "ip_addr \<Rightarrow> nat"
  im_last_seen :: "string \<times> ip_addr \<Rightarrow> int"

definition inc_by :: "'k \<Rightarrow> nat \<Rightarrow> ('k \<Rightarrow> nat) \<Rightarrow> 'k \<Rightarrow> nat" where
  "inc_by k n f = f(k := f k + n)"

text \<open>\<open>now\<close> is the time in seconds that stands in for a missing one.\<close>

definition heard_from :: "string \<Rightarrow> ip_addr \<Rightarrow> int option \<Rightarrow> int \<Rightarrow> input_metrics \<Rightarrow> input_metrics" where
  "heard_from family src time_received_ns now m =
     (let secs = (case time_received_ns of Some ns \<Rightarrow> ns div 1000000000 | None \<Rightarrow> now)
      in m\<lparr>im_last_seen := (im_last_seen m)((family, src) := secs)\<rparr>)"

definition record_packet :: "string \<Rightarrow> ip_addr \<Rightarrow> string \<Rightarrow> nat \<Rightarrow> nat \<Rightarrow> input_metrics \<Rightarrow> input_metrics" where
  "record_packet family src version n flow_count m =
     m\<lparr>im_packets_received := inc_by (family, src) 1 (im_packets_received m),
       im_bytes_received := inc_by src n (im_bytes_received m),
       im_flows_processed := inc_by (version, src) flow_count (im_flows_processed m)\<rparr>"

definition record_parse_error :: "string \<Rightarrow> ip_addr \<Rightarrow> string \<Rightarrow> nat \<Rightarrow> input_metrics \<Rightarrow> input_metrics" where
  "record_parse_error family src version n m =
     m\<lparr>im_packets_received := inc_by (family, src) 1 (im_packets_received m),
       im_bytes_received := inc_by src n (im_bytes_received m),
       im_parse_errors := inc_by (version, src) 1 (im_parse_errors m)\<rparr>"

definition record_unknown_version :: "string \<Rightarrow> ip_addr \<Rightarrow> nat \<Rightarrow> input_metrics \<Rightarrow> input_metrics" where
  "record_unknown_version family src n m =
     m\<lparr>im_packets_received := inc_by (family, src) 1 (im_packets_received m),
       im_bytes_received := inc_by src n (im_bytes_received m),
       im_unknown_version := inc_by src 1 (im_unknown_version m)\<rparr>"

section \<open>Processors\<close>

record ('p, 'k) processor_ops =
  po_name :: string
  po_parse :: "nat \<Rightarrow> ip_addr \<Rightarrow> bytes \<Rightarrow> 'p \<Rightarrow> 'p \<times> 'k option"
  po_convert_into :: "'p \<Rightarrow> ip_addr \<Rightarrow> 'k \<Rightarrow> int option \<Rightarrow> common_flow list \<Rightarrow> common_flow list"
  po_version_of :: "bytes \<Rightarrow> common_flow_type option"
  po_version :: "'k \<Rightarrow> common_flow_type"
  po_flow_count :: "'k \<Rightarrow> nat"
  po_json :: "'k \<Rightarrow> bytes"

text \<open>\<open>json\<close> is what \<^verbatim>\<open>serde_json\<close> writes for a packet.\<close>

definition netflow_ops :: "libs \<Rightarrow> (netflow_packet \<Rightarrow> bytes) \<Rightarrow> (netflow_processor, netflow_packet) processor_ops" where
  "netflow_ops L json = \<lparr>po_name = ''netflow'', po_parse = netflow_parse L, po_convert_into = netflow_convert_into L,
     po_version_of = netflow_version_of, po_version = netflow_packet_version, po_flow_count = netflow_packet_flow_count,
     po_json = json\<rparr>"

definition sflow_ops :: "libs \<Rightarrow> (sflow_packet \<Rightarrow> bytes) \<Rightarrow> (unit, sflow_packet) processor_ops" where
  "sflow_ops L json = \<lparr>po_name = ''sflow'', po_parse = (\<lambda>_ _ payload self. (self, sflow_parse L payload)),
     po_convert_into = (\<lambda>_ _. sflow_convert_into L), po_version_of = sflow_version_of, po_version = sflow_packet_version,
     po_flow_count = sflow_packet_flow_count, po_json = json\<rparr>"

section \<open>The loop\<close>

datatype output_format = RawFormat | CommonFormat

text \<open>One turn of the loop: what the source gave, and the clocks read: of the parser, of the metrics, and of the
  producer, twice.\<close>

record ingest_event =
  ie_datagram :: datagram
  ie_now :: nat
  ie_seconds :: int
  ie_started :: nat
  ie_elapsed :: nat

record 'p ingest_state =
  is_processor :: 'p
  is_metrics :: input_metrics
  is_producer :: producer
  is_channel :: channel

text \<open>\<open>Some ok\<close> leaves the loop.\<close>

definition collect_turn ::
    "('p, 'k) processor_ops \<Rightarrow> output_format \<Rightarrow> ingest_event \<Rightarrow> 'p ingest_state \<Rightarrow> 'p ingest_state \<times> bool option" where
  "collect_turn P format ev st = (case ie_datagram ev of
       End \<Rightarrow> (st, Some True)
     | Idle \<Rightarrow> (case producer_flush (is_producer st) (is_channel st) of
           (p, ch, ok) \<Rightarrow> (st\<lparr>is_producer := p, is_channel := ch\<rparr>, if ok then None else Some False))
     | Datagram src payload time_received_ns \<Rightarrow>
         let st = st\<lparr>is_metrics := heard_from (po_name P) src time_received_ns (ie_seconds ev) (is_metrics st)\<rparr> in
         (case po_parse P (ie_now ev) src payload (is_processor st) of
            (processor, None) \<Rightarrow>
              (st\<lparr>is_processor := processor,
                 is_metrics := (case po_version_of P payload of
                     Some version \<Rightarrow> record_parse_error (po_name P) src (flow_type_name version) (length payload) (is_metrics st)
                   | None \<Rightarrow> record_unknown_version (po_name P) src (length payload) (is_metrics st))\<rparr>, None)
          | (processor, Some packet) \<Rightarrow>
              let st = st\<lparr>is_processor := processor,
                 is_metrics := record_packet (po_name P) src (flow_type_name (po_version P packet)) (length payload)
                   (po_flow_count P packet) (is_metrics st)\<rparr> in
              (case (case format of
                   RawFormat \<Rightarrow> producer_push_raw (po_json P packet) (po_flow_count P packet) (ie_started ev) (ie_elapsed ev)
                     (is_producer st) (is_channel st)
                 | CommonFormat \<Rightarrow> producer_push (po_convert_into P processor src packet time_received_ns) (ie_started ev)
                     (ie_elapsed ev) (is_producer st) (is_channel st)) of
                 (p, ch, ok) \<Rightarrow> (st\<lparr>is_producer := p, is_channel := ch\<rparr>, if ok then None else Some False))))"

fun collect_loop ::
    "('p, 'k) processor_ops \<Rightarrow> output_format \<Rightarrow> ingest_event list \<Rightarrow> 'p ingest_state \<Rightarrow> 'p ingest_state \<times> bool option" where
  "collect_loop P format [] st = (st, None)"
| "collect_loop P format (ev # evs) st = (case collect_turn P format ev st of
       (st, Some ok) \<Rightarrow> (st, Some ok)
     | (st, None) \<Rightarrow> collect_loop P format evs st)"

text \<open>The producer is dropped at the end.\<close>

definition collect ::
    "('p, 'k) processor_ops \<Rightarrow> output_format \<Rightarrow> ingest_event list \<Rightarrow> 'p ingest_state \<Rightarrow> 'p ingest_state \<times> bool option" where
  "collect P format evs st = (case collect_loop P format evs st of
     (st, result) \<Rightarrow> (st\<lparr>is_channel := producer_drop (is_producer st) (is_channel st)\<rparr>, result))"

section \<open>What the loop relies on\<close>

locale processor_spec =
  fixes P :: "('p, 'k) processor_ops"
  assumes convert_appends: "po_convert_into P p src k ns flows = flows @ po_convert_into P p src k ns []"
    and convert_count: "length (po_convert_into P p src k ns []) = po_flow_count P k"
    and parse_version: "po_parse P now src payload p = (p', Some k) \<Longrightarrow> po_version_of P payload = Some (po_version P k)"

interpretation netflow: processor_spec "netflow_ops L json" for L json
proof unfold_locales
  fix p src k ns flows
  show "po_convert_into (netflow_ops L json) p src k ns flows = flows @ po_convert_into (netflow_ops L json) p src k ns []"
    and "length (po_convert_into (netflow_ops L json) p src k ns []) = po_flow_count (netflow_ops L json) k"
    using netflow_flows_of_packet [of L p src k ns flows] by (simp_all add: netflow_ops_def netflow_convert_def)
next
  fix now src payload p p' k
  assume "po_parse (netflow_ops L json) now src payload p = (p', Some k)"
  then show "po_version_of (netflow_ops L json) payload = Some (po_version (netflow_ops L json) k)"
    using netflow_flows_of_packet [of L p src k None "[]" now payload] by (simp add: netflow_ops_def)
qed

interpretation sflow: processor_spec "sflow_ops L json" for L json
proof unfold_locales
  fix p :: unit and src k ns flows
  show "po_convert_into (sflow_ops L json) p src k ns flows = flows @ po_convert_into (sflow_ops L json) p src k ns []"
    by (simp add: sflow_ops_def sflow_convert_into_def)
  show "length (po_convert_into (sflow_ops L json) p src k ns []) = po_flow_count (sflow_ops L json) k"
    using sflow_flows_of_packet [of L "[]" ns] by (cases k) (simp add: sflow_ops_def)
next
  fix now src payload k and p p' :: unit
  assume "po_parse (sflow_ops L json) now src payload p = (p', Some k)"
  then show "po_version_of (sflow_ops L json) payload = Some (po_version (sflow_ops L json) k)"
    using sflow_flows_of_packet [of L payload None] by (simp add: sflow_ops_def)
qed

section \<open>Everything is counted and handed over\<close>

text \<open>The datagrams up to the end, each with the state of the processor after it and what it was parsed as.\<close>

type_synonym ('p, 'k) parsed_datagram = "'p \<times> ip_addr \<times> bytes \<times> int option \<times> 'k option"

fun parsed_datagrams :: "('p, 'k) processor_ops \<Rightarrow> ingest_event list \<Rightarrow> 'p \<Rightarrow> ('p, 'k) parsed_datagram list" where
  "parsed_datagrams P [] p = []"
| "parsed_datagrams P (ev # evs) p = (case ie_datagram ev of
       End \<Rightarrow> []
     | Idle \<Rightarrow> parsed_datagrams P evs p
     | Datagram src payload ns \<Rightarrow>
         (case po_parse P (ie_now ev) src payload p of (p, r) \<Rightarrow> (p, src, payload, ns, r) # parsed_datagrams P evs p))"

definition converted :: "('p, 'k) processor_ops \<Rightarrow> ('p, 'k) parsed_datagram \<Rightarrow> common_flow list" where
  "converted P d = (case d of (p, src, _, ns, Some k) \<Rightarrow> po_convert_into P p src k ns [] | _ \<Rightarrow> [])"

definition packet_line :: "('p, 'k) processor_ops \<Rightarrow> bool \<Rightarrow> ('p, 'k) parsed_datagram \<Rightarrow> bytes" where
  "packet_line P discard d = (case d of (_, _, _, _, Some k) \<Rightarrow> if discard then [] else po_json P k @ [10] | _ \<Rightarrow> [])"

definition carried_flows :: "('p, 'k) processor_ops \<Rightarrow> ('p, 'k) parsed_datagram \<Rightarrow> nat" where
  "carried_flows P d = (case d of (_, _, _, _, Some k) \<Rightarrow> po_flow_count P k | _ \<Rightarrow> 0)"

text \<open>The datagrams a counter of the label \<open>s\<close>, or \<open>(v, s)\<close>, counts.\<close>

definition from_source :: "ip_addr \<Rightarrow> ('p, 'k) parsed_datagram list \<Rightarrow> ('p, 'k) parsed_datagram list" where
  "from_source s ds = filter (\<lambda>(_, src, _). src = s) ds"

definition failed_with :: "('p, 'k) processor_ops \<Rightarrow> common_flow_type option \<Rightarrow> ('p, 'k) parsed_datagram \<Rightarrow> bool" where
  "failed_with P v d = (case d of (_, _, payload, _, r) \<Rightarrow> r = None \<and> po_version_of P payload = v)"

definition of_version :: "('p, 'k) processor_ops \<Rightarrow> common_flow_type \<Rightarrow> ('p, 'k) parsed_datagram \<Rightarrow> bool" where
  "of_version P v d = (case d of (_, _, _, _, Some k) \<Rightarrow> po_version P k = v | _ \<Rightarrow> False)"

definition counted :: "('p, 'k) processor_ops \<Rightarrow> ('p, 'k) parsed_datagram list \<Rightarrow> input_metrics \<Rightarrow> input_metrics \<Rightarrow> bool" where
  "counted P ds m m' \<longleftrightarrow> (\<forall>s.
     im_packets_received m' (po_name P, s) = im_packets_received m (po_name P, s) + length (from_source s ds) \<and>
     im_bytes_received m' s = im_bytes_received m s + (\<Sum>(_, _, payload, _) \<leftarrow> from_source s ds. length payload) \<and>
     im_unknown_version m' s = im_unknown_version m s + length (filter (failed_with P None) (from_source s ds)) \<and>
     (\<forall>v. im_parse_errors m' (flow_type_name v, s) = im_parse_errors m (flow_type_name v, s) +
         length (filter (failed_with P (Some v)) (from_source s ds)) \<and>
       im_flows_processed m' (flow_type_name v, s) = im_flows_processed m (flow_type_name v, s) +
         (\<Sum>d \<leftarrow> filter (of_version P v) (from_source s ds). carried_flows P d)))"

lemma flow_type_name_inj: "flow_type_name v = flow_type_name v' \<longleftrightarrow> v = v'"
  by (cases v; cases v') (simp_all add: flow_type_name_def)

lemma counted_refl: "counted P [] m m"
  by (simp add: counted_def from_source_def)

lemma counted_trans: "counted P ds m m1 \<Longrightarrow> counted P ds' m1 m2 \<Longrightarrow> counted P (ds @ ds') m m2"
  by (simp add: counted_def from_source_def)

definition count_datagram ::
    "('p, 'k) processor_ops \<Rightarrow> ip_addr \<Rightarrow> bytes \<Rightarrow> 'k option \<Rightarrow> input_metrics \<Rightarrow> input_metrics" where
  "count_datagram P src payload r m = (case r of
       Some k \<Rightarrow> record_packet (po_name P) src (flow_type_name (po_version P k)) (length payload) (po_flow_count P k) m
     | None \<Rightarrow> (case po_version_of P payload of
         Some version \<Rightarrow> record_parse_error (po_name P) src (flow_type_name version) (length payload) m
       | None \<Rightarrow> record_unknown_version (po_name P) src (length payload) m))"

lemma counted_one:
  "counted P [(p, src, payload, ns, r)] m (count_datagram P src payload r (heard_from (po_name P) src ns now m))"
  by (auto simp: counted_def from_source_def count_datagram_def heard_from_def record_packet_def record_parse_error_def
      record_unknown_version_def inc_by_def failed_with_def of_version_def carried_flows_def flow_type_name_inj Let_def
      split: option.splits)

definition handed_flows :: "('p, 'k) processor_ops \<Rightarrow> output_format \<Rightarrow> ('p, 'k) parsed_datagram list \<Rightarrow> common_flow list" where
  "handed_flows P format ds = (case format of CommonFormat \<Rightarrow> concat (map (converted P) ds) | RawFormat \<Rightarrow> [])"

definition handed_lines :: "('p, 'k) processor_ops \<Rightarrow> output_format \<Rightarrow> bool \<Rightarrow> ('p, 'k) parsed_datagram list \<Rightarrow> bytes" where
  "handed_lines P format discard ds = (case format of RawFormat \<Rightarrow> concat (map (packet_line P discard) ds) | CommonFormat \<Rightarrow> [])"

definition handed_raw_flows :: "('p, 'k) processor_ops \<Rightarrow> output_format \<Rightarrow> ('p, 'k) parsed_datagram list \<Rightarrow> nat" where
  "handed_raw_flows P format ds = (case format of RawFormat \<Rightarrow> \<Sum>d \<leftarrow> ds. carried_flows P d | CommonFormat \<Rightarrow> 0)"

lemma handed_append [simp]:
  "handed_flows P format (ds @ ds') = handed_flows P format ds @ handed_flows P format ds'"
  "handed_lines P format discard (ds @ ds') = handed_lines P format discard ds @ handed_lines P format discard ds'"
  "handed_raw_flows P format (ds @ ds') = handed_raw_flows P format ds + handed_raw_flows P format ds'"
  by (cases format; simp add: handed_flows_def handed_lines_def handed_raw_flows_def)+

definition ingest_ok ::
    "('p, 'k) processor_ops \<Rightarrow> output_format \<Rightarrow> bool \<Rightarrow> input_metrics \<Rightarrow> ('p, 'k) parsed_datagram list \<Rightarrow> 'p ingest_state \<Rightarrow> bool" where
  "ingest_ok P format discard m ds st \<longleftrightarrow>
     producer_owes (handed_flows P format ds) (handed_lines P format discard ds) (handed_raw_flows P format ds)
       (is_producer st, is_channel st) \<and>
     producer_bounded (is_producer st) \<and> pd_discard (is_producer st) = discard \<and> counted P ds m (is_metrics st)"

context processor_spec
begin

lemma datagram_turn:
  assumes "ie_datagram ev = Datagram src payload ns" and "po_parse P (ie_now ev) src payload (is_processor st) = (p, r)"
    and "collect_turn P format ev st = (st', res)" and "ingest_ok P format discard m ds st"
  shows "res = None \<and> is_processor st' = p \<and> ingest_ok P format discard m (ds @ [(p, src, payload, ns, r)]) st'"
proof -
  let ?d = "(p, src, payload, ns, r)"
  have m: "is_metrics st' = count_datagram P src payload r (heard_from (po_name P) src ns (ie_seconds ev) (is_metrics st))"
    using assms(1-3) by (auto simp: collect_turn_def count_datagram_def Let_def split: option.splits prod.splits)
  have counts: "counted P (ds @ [?d]) m (is_metrics st')"
    unfolding m by (rule counted_trans [OF _ counted_one]) (use assms(4) in \<open>simp add: ingest_ok_def\<close>)
  have owes: "producer_owes (handed_flows P format ds) (handed_lines P format discard ds) (handed_raw_flows P format ds)
      (is_producer st, is_channel st)" "producer_bounded (is_producer st)" "pd_discard (is_producer st) = discard"
    using assms(4) by (simp_all add: ingest_ok_def)
  show ?thesis
  proof (cases r)
    case None
    then have "is_producer st' = is_producer st" "is_channel st' = is_channel st" "res = None" "is_processor st' = p"
      using assms(1-3) by (auto simp: collect_turn_def Let_def split: option.splits)
    then show ?thesis
      using owes counts None
      by (cases format) (simp_all add: ingest_ok_def handed_flows_def handed_lines_def handed_raw_flows_def converted_def
          packet_line_def carried_flows_def)
  next
    case (Some k)
    have into: "po_convert_into P p src k ns = (\<lambda>v. v @ po_convert_into P p src k ns [])"
      by (rule ext) (rule convert_appends)
    define pev where "pev = (case format of RawFormat \<Rightarrow> PushRaw (po_json P k) (po_flow_count P k) (ie_started ev) (ie_elapsed ev)
      | CommonFormat \<Rightarrow> PushFlows (po_convert_into P p src k ns []) (ie_started ev) (ie_elapsed ev))"
    obtain p1 ch1 ok where push: "(case format of
        RawFormat \<Rightarrow> producer_push_raw (po_json P k) (po_flow_count P k) (ie_started ev) (ie_elapsed ev) (is_producer st) (is_channel st)
      | CommonFormat \<Rightarrow> producer_push (po_convert_into P p src k ns) (ie_started ev) (ie_elapsed ev) (is_producer st) (is_channel st))
        = (p1, ch1, ok)" by (metis prod_cases3)
    then have step: "producer_step pev (is_producer st, is_channel st) = (p1, ch1)"
      using into by (cases format) (simp_all add: producer_step_def pev_def)
    have st': "is_producer st' = p1" "is_channel st' = ch1" "is_processor st' = p" "res = (if ok then None else Some False)"
      using assms(1-3) Some push by (auto simp: collect_turn_def Let_def split: if_splits output_format.splits)
    have ok: "ok"
    proof (cases format)
      case CommonFormat
      then have "producer_push (\<lambda>v. v @ po_convert_into P p src k ns []) (ie_started ev) (ie_elapsed ev)
          (is_producer st) (is_channel st) = (p1, ch1, ok)"
        by (subst into [symmetric]) (use push in simp)
      then show ?thesis using producer_push_ok(1) [OF owes(1)] by simp
    next
      case RawFormat
      then show ?thesis using push producer_push_ok(2) [OF owes(1)] by simp
    qed
    from producer_step_owes [OF owes(1), of pev] owes(2,3) step
    have "producer_owes (handed_flows P format (ds @ [?d])) (handed_lines P format discard (ds @ [?d])) (handed_raw_flows P format (ds @ [?d])) (p1, ch1)"
      "producer_bounded p1" "pd_discard p1 = discard"
      using Some
      by (cases format; simp add: pev_def event_flows_def event_lines_def event_raw_flows_def handed_flows_def handed_lines_def
          handed_raw_flows_def converted_def packet_line_def carried_flows_def)+
    then show ?thesis using st' ok counts by (simp add: ingest_ok_def)
  qed
qed

lemma collect_loop_ok:
  assumes "collect_loop P format evs st = (st', res)" and "ingest_ok P format discard m ds st"
  shows "res \<noteq> Some False \<and> ingest_ok P format discard m (ds @ parsed_datagrams P evs (is_processor st)) st'"
  using assms
proof (induction evs arbitrary: st ds)
  case (Cons ev evs)
  show ?case
  proof (cases "ie_datagram ev")
    case (Datagram src payload ns)
    obtain p r where parse: "po_parse P (ie_now ev) src payload (is_processor st) = (p, r)" by force
    obtain st1 res1 where turn: "collect_turn P format ev st = (st1, res1)" by force
    note one = datagram_turn [OF Datagram parse turn Cons.prems(2)]
    then have "collect_loop P format evs st1 = (st', res)" using Cons.prems(1) turn by simp
    from Cons.IH [OF this conjunct2 [OF conjunct2 [OF one]]] one show ?thesis by (simp add: Datagram parse)
  next
    case Idle
    obtain p ch ok where flush: "producer_flush (is_producer st) (is_channel st) = (p, ch, ok)" by (metis prod_cases3)
    from producer_flush_owes [OF flush] Cons.prems(2)
    have ok: "ok" and next_ok: "ingest_ok P format discard m ds (st\<lparr>is_producer := p, is_channel := ch\<rparr>)"
      by (auto simp: ingest_ok_def producer_bounded_def held_back_def CHUNK_RECORDS_def)
    have "collect_loop P format evs (st\<lparr>is_producer := p, is_channel := ch\<rparr>) = (st', res)"
      using Cons.prems(1) flush ok by (simp add: collect_turn_def Idle)
    from Cons.IH [OF this next_ok] show ?thesis by (simp add: Idle)
  next
    case End
    then show ?thesis using Cons.prems by (auto simp: collect_turn_def)
  qed
qed simp

lemma collect_ok:
  assumes "collect P format evs st = (st', res)" and "ingest_ok P format discard m ds st"
    and "all = ds @ parsed_datagrams P evs (is_processor st)"
  shows "res \<noteq> Some False \<and> sent_flows (cn_sent (is_channel st')) = handed_flows P format all \<and>
    sent_lines (cn_sent (is_channel st')) = handed_lines P format discard all \<and>
    sent_raw_flows (cn_sent (is_channel st')) = handed_raw_flows P format all \<and> counted P all m (is_metrics st')"
proof -
  obtain st1 where loop: "collect_loop P format evs st = (st1, res)"
    and st': "st' = st1\<lparr>is_channel := producer_drop (is_producer st1) (is_channel st1)\<rparr>"
    using assms(1) by (auto simp: collect_def split: prod.splits)
  from collect_loop_ok [OF loop assms(2)] have ok: "res \<noteq> Some False" "ingest_ok P format discard m all st1"
    unfolding assms(3) by auto
  obtain p ch ok where flush: "producer_flush (is_producer st1) (is_channel st1) = (p, ch, ok)" by (metis prod_cases3)
  from producer_flush_owes [OF flush] ok(2) show ?thesis
    using ok by (auto simp: ingest_ok_def st' producer_drop_def flush producer_owes_def held_back_def)
qed

end

lemma ingest_ok_start:
  "ingest_ok P format discard m [] \<lparr>is_processor = p, is_metrics = m, is_producer = pipeline_producer discard start,
      is_channel = \<lparr>cn_sent = [], cn_open = True\<rparr>\<rparr>"
  by (cases format) (simp_all add: ingest_ok_def producer_owes_def producer_bounded_def pipeline_producer_def counted_refl
      handed_flows_def handed_lines_def handed_raw_flows_def CHUNK_RECORDS_def)

text \<open>C5. The ingest loop loses nothing and counts everything: with the encoder there, the flows of every packet parsed are sent
  to it, once and in the order the packets came, or in the raw format a line for each of the packets; and for every exporter the counters have grown by its
  datagrams, their bytes, the flows of the packets parsed, and the datagrams that did not parse, by their version or as of
  an unknown one.\<close>

theorem collect_forwards_all:
  assumes "processor_spec P"
    and "collect P format evs \<lparr>is_processor = p, is_metrics = m, is_producer = pipeline_producer discard start,
      is_channel = \<lparr>cn_sent = [], cn_open = True\<rparr>\<rparr> = (st, res)"
  shows "res \<noteq> Some False \<and>
    sent_flows (cn_sent (is_channel st)) = handed_flows P format (parsed_datagrams P evs p) \<and>
    sent_lines (cn_sent (is_channel st)) = handed_lines P format discard (parsed_datagrams P evs p) \<and>
    sent_raw_flows (cn_sent (is_channel st)) = handed_raw_flows P format (parsed_datagrams P evs p) \<and>
    counted P (parsed_datagrams P evs p) m (is_metrics st)"
  using processor_spec.collect_ok [OF assms(1,2) ingest_ok_start refl] by simp

section \<open>From datagrams to files\<close>

definition recorded_flows :: "out_record list \<Rightarrow> common_flow list" where
  "recorded_flows rs = concat (map (\<lambda>r. case r of FlowRecord f _ \<Rightarrow> [f] | RawRecord _ \<Rightarrow> []) rs)"

definition recorded_lines :: "out_record list \<Rightarrow> bytes" where
  "recorded_lines rs = concat (map (\<lambda>r. case r of FlowRecord _ _ \<Rightarrow> [] | RawRecord b \<Rightarrow> b) rs)"

lemma recorded_append [simp]:
  "recorded_flows (a @ b) = recorded_flows a @ recorded_flows b" "recorded_lines (a @ b) = recorded_lines a @ recorded_lines b"
  by (simp_all add: recorded_flows_def recorded_lines_def)

lemma recorded_chunk:
  "recorded_flows (chunk_records env k ev) = sent_flows (case le_chunk ev of None \<Rightarrow> [] | Some c \<Rightarrow> [c])"
  "recorded_lines (chunk_records env k ev) = sent_lines (case le_chunk ev of None \<Rightarrow> [] | Some c \<Rightarrow> [c])"
  "chunk_flows (le_chunk ev) = length (sent_flows (case le_chunk ev of None \<Rightarrow> [] | Some c \<Rightarrow> [c])) +
     sent_raw_flows (case le_chunk ev of None \<Rightarrow> [] | Some c \<Rightarrow> [c])"
  by (auto simp: chunk_records_def recorded_flows_def recorded_lines_def chunk_flows_def comp_def
      split: option.split chunk.split)

lemma recorded_chunks:
  "recorded_flows (concat (map (chunk_records env k) evs)) = sent_flows (List.map_filter le_chunk evs) \<and>
   recorded_lines (concat (map (chunk_records env k) evs)) = sent_lines (List.map_filter le_chunk evs) \<and>
   (\<Sum>ev \<leftarrow> evs. chunk_flows (le_chunk ev)) = length (sent_flows (List.map_filter le_chunk evs)) +
     sent_raw_flows (List.map_filter le_chunk evs)"
proof (induction evs)
  case (Cons ev evs)
  have "List.map_filter le_chunk (ev # evs) = (case le_chunk ev of None \<Rightarrow> [] | Some c \<Rightarrow> [c]) @ List.map_filter le_chunk evs"
    by (simp add: List.map_filter_def split: option.split)
  then show ?case using Cons by (simp add: recorded_chunk)
qed (simp add: List.map_filter_def recorded_flows_def recorded_lines_def)

lemma record_enriched:
  assumes "FlowRecord f e \<in> set (concat (map (chunk_records env k) evs))"
  shows "\<exists>ev \<in> set evs. e = enriched_flow env k (le_engine ev) f"
proof -
  from assms obtain ev where ev: "ev \<in> set evs" "FlowRecord f e \<in> set (chunk_records env k ev)" by auto
  then have "e = enriched_flow env k (le_engine ev) f"
    by (cases "le_chunk ev"; cases "the (le_chunk ev)") (auto simp: chunk_records_def)
  with ev(1) show ?thesis by blast
qed

context processor_spec
begin

lemma carried_handed:
  "length (handed_flows P format ds) + handed_raw_flows P format ds = (\<Sum>d \<leftarrow> ds. carried_flows P d)"
  by (cases format; induction ds)
    (auto simp: handed_flows_def handed_raw_flows_def converted_def carried_flows_def convert_count split: option.splits prod.splits)

end

text \<open>C4. From the datagrams to the files: what the ingest loop parses is what the encoder's loop writes. When the encoder ends
  with no error counted, the files it completed hold the flows of all packets parsed, or their lines, once each and in
  order, every flow with the enrichment that the tables gave it then; their bytes are the
  encoder's, no other file is touched, and the counter of flows has grown by the flows the packets carried.\<close>

theorem collected_flows_written:
  assumes "processor_spec P" and "sink_spec F files S E writer_of names_of held header line raw C K lay n"
    and "collect P format ievs \<lparr>is_processor = p, is_metrics = m, is_producer = pipeline_producer discard start,
      is_channel = \<lparr>cn_sent = [], cn_open = True\<rparr>\<rparr> = (st, res)"
    and "ev_fs env = F" and "ev_chrono env = C" and "ev_calendar env = K" and "ev_encoder env = E"
    and "sink_open_at F C K E (DestPartitioned lay n) names now out = (out1, Inr sink)"
    and "clock_ok n now" and "\<forall>ev \<in> set evs. event_ok n ev" and "List.map_filter le_chunk evs = cn_sent (is_channel st)"
    and "encoder_loop env evs (length names) instant (sink\<lparr>rs_hook := h\<rparr>) out1 = Some (out2, None)"
    and "om_write_errors (ow_metrics out2) = om_write_errors (ow_metrics out)"
    and "om_rotate_errors (ow_metrics out2) = om_rotate_errors (ow_metrics out)"
  shows "\<exists>closed. completed files (file_bytes header line raw names) F K lay (ow_world out) closed (ow_world out2) \<and>
    recorded_flows (concat (map snd closed)) = handed_flows P format (parsed_datagrams P ievs p) \<and>
    recorded_lines (concat (map snd closed)) = handed_lines P format discard (parsed_datagrams P ievs p) \<and>
    (\<forall>f e. FlowRecord f e \<in> set (concat (map snd closed)) \<longrightarrow>
      (\<exists>ev \<in> set evs. e = enriched_flow env (length names) (le_engine ev) f)) \<and>
    om_flows (ow_metrics out2) = om_flows (ow_metrics out) + (\<Sum>d \<leftarrow> parsed_datagrams P ievs p. carried_flows P d)"
proof -
  have "ingest_ok P format discard m [] \<lparr>is_processor = p, is_metrics = m, is_producer = pipeline_producer discard start,
      is_channel = \<lparr>cn_sent = [], cn_open = True\<rparr>\<rparr>"
    by (rule ingest_ok_start)
  from processor_spec.collect_ok [OF assms(1,3) this refl]
  have sent: "sent_flows (cn_sent (is_channel st)) = handed_flows P format (parsed_datagrams P ievs p)"
    "sent_lines (cn_sent (is_channel st)) = handed_lines P format discard (parsed_datagrams P ievs p)"
    "sent_raw_flows (cn_sent (is_channel st)) = handed_raw_flows P format (parsed_datagrams P ievs p)" by simp_all
  from sink_spec.encoder_loop_ok [OF assms(2) _ assms(8-10,12)] assms(4-7,13,14)
  obtain closed where closed: "completed files (file_bytes header line raw names) F K lay (ow_world out) closed (ow_world out2)"
      "concat (map snd closed) = concat (map (chunk_records env (length names)) evs)"
    and flows: "om_flows (ow_metrics out2) = om_flows (ow_metrics out) + (\<Sum>ev \<leftarrow> evs. chunk_flows (le_chunk ev))"
    by (auto simp: sink_spec.env_ok_def [OF assms(2)] tallies_def)
  show ?thesis
    using closed flows sent recorded_chunks [of env "length names" evs] record_enriched [of _ _ env "length names" evs]
      processor_spec.carried_handed [OF assms(1), of format "parsed_datagrams P ievs p"]
    by (intro exI [of _ closed]) (simp add: assms(11))
qed

section \<open>A datagram\<close>

definition example_processor :: netflow_processor where
  "example_processor = netflow_new 0"

definition example_payload :: bytes where
  "example_payload = v5_encode bufmut_ref v5_example []"

definition example_ingest :: "ingest_event list" where
  "example_ingest =
     [\<lparr>ie_datagram = Datagram first_exporter [0, 1] None, ie_now = 0, ie_seconds = 0, ie_started = 0, ie_elapsed = 0\<rparr>,
      \<lparr>ie_datagram = Datagram first_exporter example_payload (Some 7), ie_now = 1, ie_seconds = 0, ie_started = 1, ie_elapsed = 1\<rparr>,
      \<lparr>ie_datagram = End, ie_now = 2, ie_seconds = 0, ie_started = 2, ie_elapsed = 2\<rparr>]"

definition no_input :: input_metrics where
  "no_input = \<lparr>im_packets_received = (\<lambda>_. 0), im_bytes_received = (\<lambda>_. 0), im_flows_processed = (\<lambda>_. 0),
     im_parse_errors = (\<lambda>_. 0), im_unknown_version = (\<lambda>_. 0), im_last_seen = (\<lambda>_. 0)\<rparr>"

abbreviation example_ops :: "(netflow_processor, netflow_packet) processor_ops" where
  "example_ops \<equiv> netflow_ops libs_ref (\<lambda>_. [])"

abbreviation example_state :: "netflow_processor ingest_state" where
  "example_state \<equiv> \<lparr>is_processor = example_processor, is_metrics = no_input, is_producer = pipeline_producer False 0,
     is_channel = \<lparr>cn_sent = [], cn_open = True\<rparr>\<rparr>"

lemma example_parsed:
  "netflow_parse libs_ref now src [0, 1] p = (p, None)"
  "netflow_parse libs_ref now src example_payload p = (p, Some (PacketV5 v5_example))"
proof -
  have "payload_version [0, 1] = Some 1"
    by (simp add: payload_version_def from_be_bytes_def be_nat_def)
  then show "netflow_parse libs_ref now src [0, 1] p = (p, None)"
    by (simp add: netflow_parse_def NETFLOW_V5_VERSION_def NETFLOW_V9_VERSION_def IPFIX_VERSION_def)
  have "parse_netflow_v5_packet v5_nom_ref (example_payload @ []) = Some ([], v5_example)"
    unfolding example_payload_def by (rule v5_ref.parse_encoded_packet [OF bufmut_ref.bufmut_spec_axioms v5_example_ok])
  then have parsed: "parse_netflow_v5_packet v5_nom_ref example_payload = Some ([], v5_example)" by simp
  with v5_ref.parse_packet_cases [of example_payload] have "payload_version example_payload = Some NETFLOW_V5_VERSION"
    by (auto simp: payload_version_def split: if_splits)
  with parsed show "netflow_parse libs_ref now src example_payload p = (p, Some (PacketV5 v5_example))"
    by (simp add: netflow_parse_def libs_ref_def)
qed

definition example_flow_of :: common_flow where
  "example_flow_of = hd (netflow_convert_into libs_ref example_processor first_exporter (PacketV5 v5_example) (Some 7) [])"

lemma example_converted:
  "netflow_convert_into libs_ref example_processor first_exporter (PacketV5 v5_example) (Some 7) [] = [example_flow_of]"
proof -
  have count: "netflow_packet_flow_count (PacketV5 v5_example) = 1"
    by (simp add: netflow_packet_flow_count_def v5_example_def)
  have "length (netflow_convert_into libs_ref example_processor first_exporter (PacketV5 v5_example) (Some 7) []) = 1"
    using netflow.convert_count [of libs_ref "\<lambda>_. []" example_processor first_exporter "PacketV5 v5_example" "Some 7"] count
    by (simp only: netflow_ops_def processor_ops.simps)
  then show ?thesis unfolding example_flow_of_def by (metis One_nat_def length_0_conv length_Suc_conv list.sel(1))
qed

lemma example_collect:
  "\<exists>st. collect example_ops CommonFormat example_ingest example_state = (st, Some True) \<and>
     cn_sent (is_channel st) = [FlowsChunk [example_flow_of]]"
  by (simp add: collect_def example_ingest_def collect_turn_def netflow_ops_def example_parsed example_converted
      producer_push_def start_chunk_def pipeline_producer_def send_if_ready_def producer_drop_def producer_flush_def
      flush_flows_def send_chunk_def CHUNK_RECORDS_def CHUNK_FLUSH_TIMEOUT_def Let_def)

theorem collect_forwards_all_witness:
  "\<exists>st res. collect example_ops CommonFormat example_ingest example_state = (st, res) \<and>
     sent_flows (cn_sent (is_channel st)) = [example_flow_of] \<and> im_packets_received (is_metrics st) (''netflow'', first_exporter) = 2"
proof -
  from example_collect obtain st where st: "collect example_ops CommonFormat example_ingest example_state = (st, Some True)"
    "cn_sent (is_channel st) = [FlowsChunk [example_flow_of]]" by blast
  from collect_forwards_all [OF netflow.processor_spec_axioms st(1)]
  have "counted example_ops (parsed_datagrams example_ops example_ingest example_processor) no_input (is_metrics st)" by blast
  then have "im_packets_received (is_metrics st) (''netflow'', first_exporter) = 2"
    by (simp add: counted_def netflow_ops_def no_input_def from_source_def example_ingest_def example_parsed)
  then show ?thesis using st by (intro exI [of _ st] exI [of _ "Some True"]) simp
qed

theorem collected_flows_written_witness:
  "\<exists>st out2 closed. collect example_ops CommonFormat example_ingest example_state = (st, Some True) \<and>
     encoder_loop example_env [example_event\<lparr>le_chunk := Some (FlowsChunk [example_flow_of])\<rparr>] 0 0
       (example_sink\<lparr>rs_hook := False\<rparr>) example_opened = Some (out2, None) \<and>
     completed map_of (file_bytes (\<lambda>_. []) (ndjson_line (\<lambda>_ entries. Some (concat (map (map of_char \<circ> snd) entries))))
       (\<lambda>b. b) []) fs_ref calendar_ref example_layout [] closed (ow_world out2) \<and>
     recorded_flows (concat (map snd closed)) = handed_flows example_ops CommonFormat
       (parsed_datagrams example_ops example_ingest example_processor)"
proof -
  let ?ev = "example_event\<lparr>le_chunk := Some (FlowsChunk [example_flow_of])\<rparr>"
  obtain st where st: "collect example_ops CommonFormat example_ingest example_state = (st, Some True)"
    "cn_sent (is_channel st) = [FlowsChunk [example_flow_of]]" using example_collect by blast
  obtain cs where "candidates (pr_final_path example_pending) = pr_final_path example_pending # cs"
    and "pr_tmp example_pending \<noteq> pr_final_path example_pending" by (rule example_final)
  then have "\<exists>out2. encoder_loop example_env [?ev] (length ([] :: string list)) 0 (example_sink\<lparr>rs_hook := False\<rparr>) example_opened =
      Some (out2, None) \<and> om_write_errors (ow_metrics out2) = 0 \<and> om_rotate_errors (ow_metrics out2) = 0"
    by (simp add: loop_defs example_event_def snapshot_enrich_def engine_snapshot_def engine_new_def enriched_entries_def
        List.map_filter_def)
  then obtain out2 where run: "encoder_loop example_env [?ev] (length ([] :: string list)) 0 (example_sink\<lparr>rs_hook := False\<rparr>) example_opened =
      Some (out2, None)"
      "om_write_errors (ow_metrics out2) = 0" "om_rotate_errors (ow_metrics out2) = 0" by blast
  have clock: "clock_ok 300 example_time" by code_simp
  have ok: "\<forall>ev \<in> set [?ev]. event_ok 300 ev" using clock by (simp add: event_ok_def example_event_def)
  have sent: "List.map_filter le_chunk [?ev] = cn_sent (is_channel st)" by (simp add: st(2) List.map_filter_def)
  have env: "ev_fs example_env = fs_ref" "ev_chrono example_env = chrono_ref" "ev_calendar example_env = calendar_ref"
    "ev_encoder example_env = ndjson_ops stream_ref (\<lambda>_ entries. Some (concat (map (map of_char \<circ> snd) entries)))"
    by (simp_all add: example_env_def)
  from collected_flows_written [OF netflow.processor_spec_axioms sink_ref.sink_spec_axioms st(1) env
      example_sink_opened [unfolded env] clock ok sent run(1)] run(2,3)
  obtain closed where "completed map_of (file_bytes (\<lambda>_. []) (ndjson_line (\<lambda>_ entries. Some (concat (map (map of_char \<circ> snd) entries))))
       (\<lambda>b. b) []) fs_ref calendar_ref example_layout (ow_world example_out) closed (ow_world out2)"
     "recorded_flows (concat (map snd closed)) = handed_flows example_ops CommonFormat
       (parsed_datagrams example_ops example_ingest example_processor)"
    by (auto simp: example_out_def)
  then show ?thesis using st(1) run(1) by (auto simp: example_out_def)
qed

end
