(* ===== verification/Reader.thy ===== *)
theory Reader
  imports Collect
begin

text \<open>
  The readers of the \<^verbatim>\<open>rustflow\<close> library, which give the flows of a socket or a capture file one at a time:
  \<^verbatim>\<open>reader.rs\<close>, \<^verbatim>\<open>async_reader.rs\<close> and \<^verbatim>\<open>pcap_reader.rs\<close>.

  A reader is generic in its processor, \<open>processor_ops\<close>. What the socket gives is a list, one element for each call of
  \<^verbatim>\<open>recv_from\<close>: the clock of the parser, the result and the time; a read that would need more than the list has blocks, which is
  \<open>None\<close>. A capture file is the list of its packets, with errors where the file is malformed. \<open>Inl\<close> is an I/O error.

  Shown: reading until the file ends, or the socket has nothing more, gives the flows of every datagram, in order and each
  once, whatever comes between them. They are \<open>converted\<close>, the flows the ingest loop hands on for a datagram.
\<close>

section \<open>Socket readers\<close>

datatype 'k read_result =
    ReadPacket nat ip_addr 'k
  | ReadParseError nat ip_addr "common_flow_type option"
  | RawTimeout
  | RawEnd

datatype read_event = ReadFlow common_flow | ReadTimeout | ReadEnd

record 'p flow_reader =
  rd_processor :: 'p
  rd_pending :: "common_flow list"

type_synonym reception = "nat \<times> (read_error + ip_addr \<times> bytes) \<times> datetime"

definition reader_new :: "'p \<Rightarrow> 'p flow_reader" where
  "reader_new processor = \<lparr>rd_processor = processor, rd_pending = []\<rparr>"

definition with_processor :: "'p \<Rightarrow> 'p flow_reader \<Rightarrow> 'p flow_reader" where
  "with_processor processor self = self\<lparr>rd_processor := processor\<rparr>"

definition process_into ::
    "('p, 'k) processor_ops \<Rightarrow> nat \<Rightarrow> ip_addr \<Rightarrow> bytes \<Rightarrow> int option \<Rightarrow> common_flow list \<Rightarrow> 'p \<Rightarrow> 'p \<times> common_flow list" where
  "process_into P now src payload time_received_ns flows self = (case po_parse P now src payload self of
       (self, Some packet) \<Rightarrow> (self, po_convert_into P self src packet time_received_ns flows)
     | (self, None) \<Rightarrow> (self, flows))"

definition raw_result ::
    "('p, 'k) processor_ops \<Rightarrow> nat \<Rightarrow> ip_addr \<Rightarrow> bytes \<Rightarrow> 'p flow_reader \<Rightarrow> 'p flow_reader \<times> 'k read_result" where
  "raw_result P now src payload self = (case po_parse P now src payload (rd_processor self) of
       (processor, Some packet) \<Rightarrow> (self\<lparr>rd_processor := processor\<rparr>, ReadPacket (length payload) src packet)
     | (processor, None) \<Rightarrow>
         (self\<lparr>rd_processor := processor\<rparr>, ReadParseError (length payload) src (po_version_of P payload)))"

definition reader_read_raw ::
    "('p, 'k) processor_ops \<Rightarrow> reception \<Rightarrow> 'p flow_reader \<Rightarrow> 'p flow_reader \<times> (read_error + 'k read_result)" where
  "reader_read_raw P r self = (case r of (now, received, _) \<Rightarrow> (case received of
       Inl e \<Rightarrow> if is_retryable e then (self, Inr RawTimeout) else (self, Inl e)
     | Inr (src, payload) \<Rightarrow> apsnd Inr (raw_result P now src payload self)))"

fun reader_read ::
    "chrono \<Rightarrow> ('p, 'k) processor_ops \<Rightarrow> reception list \<Rightarrow> 'p flow_reader \<Rightarrow>
     ((read_error + read_event) \<times> 'p flow_reader \<times> reception list) option" where
  "reader_read C P rs self = (case rd_pending self of
       flow # flows \<Rightarrow> Some (Inr (ReadFlow flow), self\<lparr>rd_pending := flows\<rparr>, rs)
     | [] \<Rightarrow> (case rs of
         [] \<Rightarrow> None
       | (now, received, time) # rs \<Rightarrow> (case received of
           Inl e \<Rightarrow> if is_retryable e then Some (Inr ReadTimeout, self, rs) else Some (Inl e, self, rs)
         | Inr (src, payload) \<Rightarrow>
             (case process_into P now src payload (ch_timestamp_nanos_opt C time) (rd_pending self) (rd_processor self) of
                (processor, flows) \<Rightarrow> reader_read C P rs (self\<lparr>rd_processor := processor, rd_pending := flows\<rparr>)))))"

text \<open>The iterator skips the timeouts. \<open>Some None\<close> ends it.\<close>

definition iterator_item :: "'e + read_event \<Rightarrow> ('e + common_flow) option option" where
  "iterator_item r = (case r of
       Inr (ReadFlow flow) \<Rightarrow> Some (Some (Inr flow))
     | Inr ReadTimeout \<Rightarrow> None
     | Inr ReadEnd \<Rightarrow> Some None
     | Inl e \<Rightarrow> Some (Some (Inl e)))"

text \<open>\<open>read\<close> is the read of either reader, on its state. Every turn that finds a timeout uses up a reception, so
  one more than their number is enough fuel (\<open>iterator_next_stream\<close>).\<close>

fun iterator_next :: "nat \<Rightarrow> ('s \<Rightarrow> (('e + read_event) \<times> 's) option) \<Rightarrow> 's \<Rightarrow> (('e + common_flow) option \<times> 's) option" where
  "iterator_next 0 read s = None"
| "iterator_next (Suc n) read s = (case read s of
       None \<Rightarrow> None
     | Some (r, s) \<Rightarrow> (case iterator_item r of
         Some item \<Rightarrow> Some (item, s)
       | None \<Rightarrow> iterator_next n read s))"

definition reader_next ::
    "chrono \<Rightarrow> ('p, 'k) processor_ops \<Rightarrow> 'p flow_reader \<times> reception list \<Rightarrow>
     ((read_error + common_flow) option \<times> 'p flow_reader \<times> reception list) option" where
  "reader_next C P s = iterator_next (Suc (length (snd s))) (\<lambda>(self, rs). reader_read C P rs self) s"

text \<open>The asynchronous reader has no read timeout, so every error is one.\<close>

definition async_read_raw ::
    "('p, 'k) processor_ops \<Rightarrow> reception \<Rightarrow> 'p flow_reader \<Rightarrow> 'p flow_reader \<times> (read_error + 'k read_result)" where
  "async_read_raw P r self = (case r of (now, received, _) \<Rightarrow> (case received of
       Inl e \<Rightarrow> (self, Inl e)
     | Inr (src, payload) \<Rightarrow> apsnd Inr (raw_result P now src payload self)))"

fun async_read ::
    "chrono \<Rightarrow> ('p, 'k) processor_ops \<Rightarrow> reception list \<Rightarrow> 'p flow_reader \<Rightarrow>
     ((read_error + common_flow) \<times> 'p flow_reader \<times> reception list) option" where
  "async_read C P rs self = (case rd_pending self of
       flow # flows \<Rightarrow> Some (Inr flow, self\<lparr>rd_pending := flows\<rparr>, rs)
     | [] \<Rightarrow> (case rs of
         [] \<Rightarrow> None
       | (now, received, time) # rs \<Rightarrow> (case received of
           Inl e \<Rightarrow> Some (Inl e, self, rs)
         | Inr (src, payload) \<Rightarrow>
             (case process_into P now src payload (ch_timestamp_nanos_opt C time) (rd_pending self) (rd_processor self) of
                (processor, flows) \<Rightarrow> async_read C P rs (self\<lparr>rd_processor := processor, rd_pending := flows\<rparr>)))))"

section \<open>Readers of capture files\<close>

text \<open>A packet of the file is the parser's clock, the capture time in nanoseconds and the frame.\<close>

type_synonym capture = "unit + nat \<times> nat \<times> bytes"

fun pcap_read_raw ::
    "etherparse \<Rightarrow> ('p, 'k) processor_ops \<Rightarrow> u32 \<Rightarrow> capture list \<Rightarrow> 'p flow_reader \<Rightarrow>
     (unit + 'k read_result) \<times> 'p flow_reader \<times> capture list" where
  "pcap_read_raw E P link_type [] self = (Inr RawEnd, self, [])"
| "pcap_read_raw E P link_type (c # cs) self = (case c of
       Inl e \<Rightarrow> (Inl e, self, cs)
     | Inr (now, _, data) \<Rightarrow> (case parse_udp_packet E link_type data of
         None \<Rightarrow> pcap_read_raw E P link_type cs self
       | Some (src, payload) \<Rightarrow> (case raw_result P now src payload self of (self, r) \<Rightarrow> (Inr r, self, cs))))"

definition capture_time :: "nat \<Rightarrow> int option" where
  "capture_time nanos = (if nanos < 2 ^ 63 then Some (int nanos) else None)"

fun pcap_read ::
    "etherparse \<Rightarrow> ('p, 'k) processor_ops \<Rightarrow> u32 \<Rightarrow> capture list \<Rightarrow> 'p flow_reader \<Rightarrow>
     (unit + read_event) \<times> 'p flow_reader \<times> capture list" where
  "pcap_read E P link_type cs self = (case rd_pending self of
       flow # flows \<Rightarrow> (Inr (ReadFlow flow), self\<lparr>rd_pending := flows\<rparr>, cs)
     | [] \<Rightarrow> (case cs of
         [] \<Rightarrow> (Inr ReadEnd, self, [])
       | Inl e # cs \<Rightarrow> (Inl e, self, cs)
       | Inr (now, timestamp, data) # cs \<Rightarrow> (case parse_udp_packet E link_type data of
           None \<Rightarrow> pcap_read E P link_type cs self
         | Some (src, payload) \<Rightarrow>
             (case process_into P now src payload (capture_time timestamp) (rd_pending self) (rd_processor self) of
                (processor, flows) \<Rightarrow> pcap_read E P link_type cs (self\<lparr>rd_processor := processor, rd_pending := flows\<rparr>)))))"

text \<open>A capture file has no timeouts, so the iterator takes one turn.\<close>

definition pcap_reader_next ::
    "etherparse \<Rightarrow> ('p, 'k) processor_ops \<Rightarrow> u32 \<Rightarrow> 'p flow_reader \<times> capture list \<Rightarrow>
     ((unit + common_flow) option \<times> 'p flow_reader \<times> capture list) option" where
  "pcap_reader_next E P link_type s = iterator_next 1 (\<lambda>(self, cs). Some (pcap_read E P link_type cs self)) s"

section \<open>What reading gives\<close>

text \<open>What all the reads of a socket give together: what is pending, then for every reception its flows, a timeout or its
  error.\<close>

definition on_read_error :: "read_error \<Rightarrow> read_error + read_event" where
  "on_read_error e = (if is_retryable e then Inr ReadTimeout else Inl e)"

fun reception_events ::
    "(read_error \<Rightarrow> read_error + read_event) \<Rightarrow> chrono \<Rightarrow> ('p, 'k) processor_ops \<Rightarrow> reception list \<Rightarrow> 'p \<Rightarrow> (read_error + read_event) list" where
  "reception_events err C P [] p = []"
| "reception_events err C P ((now, received, time) # rs) p = (case received of
       Inl e \<Rightarrow> err e # reception_events err C P rs p
     | Inr (src, payload) \<Rightarrow> (case po_parse P now src payload p of (p, r) \<Rightarrow>
         map (Inr \<circ> ReadFlow) (converted P (p, src, payload, ch_timestamp_nanos_opt C time, r)) @ reception_events err C P rs p))"

definition socket_events ::
    "(read_error \<Rightarrow> read_error + read_event) \<Rightarrow> chrono \<Rightarrow> ('p, 'k) processor_ops \<Rightarrow> reception list \<Rightarrow> 'p flow_reader \<Rightarrow> (read_error + read_event) list" where
  "socket_events err C P rs self = map (Inr \<circ> ReadFlow) (rd_pending self) @ reception_events err C P rs (rd_processor self)"

fun capture_events ::
    "etherparse \<Rightarrow> ('p, 'k) processor_ops \<Rightarrow> u32 \<Rightarrow> capture list \<Rightarrow> 'p \<Rightarrow> (unit + read_event) list" where
  "capture_events E P link_type [] p = []"
| "capture_events E P link_type (c # cs) p = (case c of
       Inl e \<Rightarrow> Inl e # capture_events E P link_type cs p
     | Inr (now, timestamp, data) \<Rightarrow> (case parse_udp_packet E link_type data of
         None \<Rightarrow> capture_events E P link_type cs p
       | Some (src, payload) \<Rightarrow> (case po_parse P now src payload p of (p, r) \<Rightarrow>
           map (Inr \<circ> ReadFlow) (converted P (p, src, payload, capture_time timestamp, r)) @ capture_events E P link_type cs p)))"

definition file_events ::
    "etherparse \<Rightarrow> ('p, 'k) processor_ops \<Rightarrow> u32 \<Rightarrow> capture list \<Rightarrow> 'p flow_reader \<Rightarrow> (unit + read_event) list" where
  "file_events E P link_type cs self =
     map (Inr \<circ> ReadFlow) (rd_pending self) @ capture_events E P link_type cs (rd_processor self)"

text \<open>The results of the first \<open>n\<close> calls.\<close>

fun first_reads :: "nat \<Rightarrow> ('s \<Rightarrow> ('r \<times> 's) option) \<Rightarrow> 's \<Rightarrow> 'r list" where
  "first_reads 0 read s = []"
| "first_reads (Suc n) read s = (case read s of None \<Rightarrow> [] | Some (r, s) \<Rightarrow> r # first_reads n read s)"

lemma first_reads_map:
  assumes "\<And>s. case read s of None \<Rightarrow> stream s = [] | Some (r, s') \<Rightarrow> stream s = f r # stream s'"
  shows "map f (first_reads n read s) = take n (stream s)"
proof (induction n arbitrary: s)
  case (Suc n)
  then show ?case using assms [of s] by (auto split: option.splits)
qed simp

lemma first_reads_stream:
  assumes "\<And>s. case read s of None \<Rightarrow> stream s = [] | Some (r, s') \<Rightarrow> stream s = r # stream s'"
  shows "first_reads n read s = take n (stream s)"
  using first_reads_map [where read = read and stream = stream and f = "\<lambda>r. r"] assms by simp

lemma process_into_converted:
  "process_into P now src payload ns [] p = (case po_parse P now src payload p of (p, r) \<Rightarrow> (p, converted P (p, src, payload, ns, r)))"
  by (simp add: process_into_def converted_def split: prod.split option.split)

lemma reader_read_events:
  "case reader_read C P rs self of None \<Rightarrow> socket_events on_read_error C P rs self = []
   | Some (r, self', rs') \<Rightarrow> socket_events on_read_error C P rs self = r # socket_events on_read_error C P rs' self' \<and> length rs' \<le> length rs \<and>
       (r = Inr ReadTimeout \<longrightarrow> length rs' < length rs) \<and> r \<noteq> Inr ReadEnd"
proof (induction rs arbitrary: self)
  case Nil
  then show ?case by (cases "rd_pending self") (simp_all add: socket_events_def on_read_error_def reader_read.simps [of C P "[]" self])
next
  case (Cons c rs)
  obtain now received time where c: "c = (now, received, time)" by (cases c)
  show ?case
  proof (cases "rd_pending self")
    case pending: Nil
    show ?thesis
    proof (cases received)
      case (Inr d)
      obtain src payload where d: "d = (src, payload)" by (cases d)
      obtain p r where parse: "po_parse P now src payload (rd_processor self) = (p, r)" by force
      show ?thesis
        using Cons [of "self\<lparr>rd_processor := p, rd_pending := converted P (p, src, payload, ch_timestamp_nanos_opt C time, r)\<rparr>"]
          reader_read.simps [of C P "c # rs" self]
        by (auto simp: pending c Inr d parse process_into_converted socket_events_def on_read_error_def simp del: reader_read.simps split: option.splits)
    qed (simp add: pending c socket_events_def on_read_error_def reader_read.simps [of C P "(now, received, time) # rs" self])
  qed (simp add: socket_events_def on_read_error_def reader_read.simps [of C P "c # rs" self])
qed

lemma async_read_events:
  "case async_read C P rs self of None \<Rightarrow> socket_events Inl C P rs self = []
   | Some (r, self', rs') \<Rightarrow> socket_events Inl C P rs self = map_sum id ReadFlow r # socket_events Inl C P rs' self'"
proof (induction rs arbitrary: self)
  case Nil
  then show ?case by (cases "rd_pending self") (simp_all add: socket_events_def async_read.simps [of C P "[]" self])
next
  case (Cons c rs)
  obtain now received time where c: "c = (now, received, time)" by (cases c)
  show ?case
  proof (cases "rd_pending self")
    case pending: Nil
    show ?thesis
    proof (cases received)
      case (Inr d)
      obtain src payload where d: "d = (src, payload)" by (cases d)
      obtain p r where parse: "po_parse P now src payload (rd_processor self) = (p, r)" by force
      show ?thesis
        using Cons [of "self\<lparr>rd_processor := p, rd_pending := converted P (p, src, payload, ch_timestamp_nanos_opt C time, r)\<rparr>"]
          async_read.simps [of C P "c # rs" self]
        by (auto simp: pending c Inr d parse process_into_converted socket_events_def simp del: async_read.simps split: option.splits)
    qed (simp add: pending c socket_events_def async_read.simps [of C P "(now, received, time) # rs" self])
  qed (simp add: socket_events_def async_read.simps [of C P "c # rs" self])
qed

lemma pcap_read_events:
  "case pcap_read E P link_type cs self of (r, self', cs') \<Rightarrow>
     (case file_events E P link_type cs self of
        [] \<Rightarrow> r = Inr ReadEnd \<and> file_events E P link_type cs' self' = []
      | e # es \<Rightarrow> r = e \<and> file_events E P link_type cs' self' = es)"
proof (induction cs arbitrary: self)
  case Nil
  then show ?case by (cases "rd_pending self") (simp_all add: file_events_def pcap_read.simps [of E P link_type "[]" self])
next
  case (Cons c cs)
  show ?case
  proof (cases "rd_pending self")
    case pending: Nil
    show ?thesis
    proof (cases c)
      case (Inl e)
      then show ?thesis by (simp add: pending file_events_def pcap_read.simps [of E P link_type "c # cs" self])
    next
      case (Inr d)
      obtain now timestamp data where d: "d = (now, timestamp, data)" by (cases d)
      show ?thesis
      proof (cases "parse_udp_packet E link_type data")
        case None
        then show ?thesis
          using Cons [of self] pcap_read.simps [of E P link_type "c # cs" self]
          by (simp add: pending Inr d file_events_def del: pcap_read.simps)
      next
        case (Some s)
        obtain src payload where s: "s = (src, payload)" by (cases s)
        obtain p r where parse: "po_parse P now src payload (rd_processor self) = (p, r)" by force
        show ?thesis
          using Cons [of "self\<lparr>rd_processor := p, rd_pending := converted P (p, src, payload, capture_time timestamp, r)\<rparr>"]
            pcap_read.simps [of E P link_type "c # cs" self]
          by (simp add: pending Inr d Some s parse process_into_converted file_events_def del: pcap_read.simps)
      qed
    qed
  qed (simp add: file_events_def pcap_read.simps [of E P link_type "c # cs" self])
qed

lemma iterator_next_stream:
  assumes "length rs < n"
  shows "case iterator_next n (\<lambda>(self, rs). reader_read C P rs self) (self, rs) of
      None \<Rightarrow> List.map_filter iterator_item (socket_events on_read_error C P rs self) = []
    | Some (item, self', rs') \<Rightarrow> List.map_filter iterator_item (socket_events on_read_error C P rs self) =
        item # List.map_filter iterator_item (socket_events on_read_error C P rs' self')"
  using assms
proof (induction n arbitrary: self rs)
  case (Suc n)
  note one = reader_read_events [of C P rs self]
  show ?case
  proof (cases "reader_read C P rs self")
    case (Some x)
    then obtain r self' rs' where x: "reader_read C P rs self = Some (r, self', rs')" by (cases x) auto
    show ?thesis
    proof (cases "iterator_item r")
      case None
      then have "r = Inr ReadTimeout" using one x by (auto simp: iterator_item_def split: sum.splits read_event.splits)
      then have "length rs' < n" using one x Suc.prems by auto
      moreover have "List.map_filter iterator_item (socket_events on_read_error C P rs self) =
          List.map_filter iterator_item (socket_events on_read_error C P rs' self')"
        using one by (simp add: x None List.map_filter_simps del: reader_read.simps)
      ultimately show ?thesis
        using Suc.IH [of rs' self'] by (simp add: x None del: reader_read.simps split: option.splits prod.splits)
    qed (use one in \<open>simp add: x List.map_filter_simps del: reader_read.simps\<close>)
  qed (use one in \<open>simp add: List.map_filter_simps del: reader_read.simps\<close>)
qed simp

lemma take_padded:
  assumes "\<And>s. case read s of (r, s') \<Rightarrow> (case stream s of [] \<Rightarrow> r = e \<and> stream s' = [] | x # xs \<Rightarrow> r = x \<and> stream s' = xs)"
  shows "first_reads n (Some \<circ> read) s = take n (stream s @ replicate n e)"
proof (induction n arbitrary: s)
  case (Suc n)
  obtain r s' where r: "read s = (r, s')" by force
  show ?case
  proof (cases "stream s")
    case Nil
    with assms [of s] r Suc [of s'] show ?thesis by simp
  next
    case (Cons x xs)
    with assms [of s] r Suc [of s'] show ?thesis by (simp add: take_Cons' replicate_append_same flip: replicate_append_same)
  qed
qed simp


text \<open>C1. Readers give every flow: the results of the calls of \<open>read\<close>, however many, are the flows that were pending and then, for each
  thing the socket or the file gives, the flows its datagram is converted to, in order, or its timeout or error; at the end of a file
  they are \<open>ReadEnd\<close> for ever. The iterator gives the same without the timeouts, and the asynchronous reader the same with every error
  reported.\<close>

theorem readers_give_every_flow:
  "first_reads n (\<lambda>(self, rs). reader_read C P rs self) (self, rs) = take n (socket_events on_read_error C P rs self) \<and>
   first_reads n (reader_next C P) (self, rs) =
     take n (List.map_filter iterator_item (socket_events on_read_error C P rs self)) \<and>
   map (map_sum id ReadFlow) (first_reads n (\<lambda>(self, rs). async_read C P rs self) (self, rs)) =
     take n (socket_events Inl C P rs self) \<and>
   first_reads n (Some \<circ> (\<lambda>(self, cs). pcap_read E P link_type cs self)) (self, cs) =
     take n (file_events E P link_type cs self @ replicate n (Inr ReadEnd))"
proof (intro conjI)
  show "first_reads n (\<lambda>(self, rs). reader_read C P rs self) (self, rs) = take n (socket_events on_read_error C P rs self)"
    using first_reads_stream [where read = "\<lambda>(self, rs). reader_read C P rs self" and stream = "\<lambda>(self, rs). socket_events on_read_error C P rs self"]
      reader_read_events [where C = C and P = P] by (fastforce split: option.splits prod.splits)
  show "first_reads n (reader_next C P) (self, rs) =
     take n (List.map_filter iterator_item (socket_events on_read_error C P rs self))"
    using first_reads_stream [where read = "reader_next C P" and stream = "\<lambda>(self, rs). List.map_filter iterator_item (socket_events on_read_error C P rs self)"]
      iterator_next_stream [OF lessI, where C = C and P = P] by (fastforce simp: reader_next_def split: option.splits prod.splits)
  show "map (map_sum id ReadFlow) (first_reads n (\<lambda>(self, rs). async_read C P rs self) (self, rs)) =
     take n (socket_events Inl C P rs self)"
    using first_reads_map [where read = "\<lambda>(self, rs). async_read C P rs self" and stream = "\<lambda>(self, rs). socket_events Inl C P rs self" and f = "map_sum id ReadFlow"]
      async_read_events [where C = C and P = P] by (fastforce split: option.splits prod.splits)
  show "first_reads n (Some \<circ> (\<lambda>(self, cs). pcap_read E P link_type cs self)) (self, cs) =
     take n (file_events E P link_type cs self @ replicate n (Inr ReadEnd))"
    using take_padded [where read = "\<lambda>(self, cs). pcap_read E P link_type cs self" and stream = "\<lambda>(self, cs). file_events E P link_type cs self"]
      pcap_read_events [where E = E and P = P and link_type = link_type] by (fastforce split: prod.splits)
qed

end
