(* ===== verification/EnrichConfig.thy ===== *)
theory EnrichConfig
  imports Enrich Destination
begin

text \<open>
  The configuration of an enrichment source (\<^verbatim>\<open>rustflow_collect/src/enrich/config.rs\<close>): the text of an
  \<^verbatim>\<open>--enrich\<close> option, the parameters in it, the mappings of columns to output fields and the checks of a source.

  Parameters (\<open>config_texts\<close>) are \<^verbatim>\<open>str::trim\<close>, the durations \<^verbatim>\<open>duration_str\<close> reads, in
  nanoseconds, and \<^verbatim>\<open>std::path::absolute\<close>. Errors carry no message.

  Shown: a configuration that is accepted is one the engine can be given, whatever the text was: its lookup keys have
  the types and number the source expects, and every mapping names one of its columns.
\<close>

record config_texts =
  ct_trim :: "string \<Rightarrow> string"
  ct_duration :: "string \<Rightarrow> nat option"
  ct_absolute :: "string \<Rightarrow> string option"

definition ok_then :: "'e + 'a \<Rightarrow> ('a \<Rightarrow> 'e + 'b) \<Rightarrow> 'e + 'b" where
  "ok_then r f = (case r of Inl e \<Rightarrow> Inl e | Inr x \<Rightarrow> f x)"

definition ok_or :: "'e \<Rightarrow> 'a option \<Rightarrow> 'e + 'a" where
  "ok_or e x = (case x of None \<Rightarrow> Inl e | Some x \<Rightarrow> Inr x)"

fun split_char :: "char \<Rightarrow> string \<Rightarrow> string list" where
  "split_char c [] = [[]]"
| "split_char c (x # xs) =
     (if x = c then [] # split_char c xs
      else case split_char c xs of w # ws \<Rightarrow> (x # w) # ws | [] \<Rightarrow> [[x]])"

fun collect_all :: "('x \<Rightarrow> 'e + 'y) \<Rightarrow> 'x list \<Rightarrow> 'e + 'y list" where
  "collect_all f [] = Inr []"
| "collect_all f (x # xs) = ok_then (f x) (\<lambda>y. ok_then (collect_all f xs) (\<lambda>ys. Inr (y # ys)))"

section \<open>Sources\<close>

datatype source_format = FormatCsv "string list" csv_lookup | FormatMmdb

datatype origin = OriginFile string | OriginCommand string nat

definition origin_path :: "origin \<Rightarrow> string" where
  "origin_path self = (case self of OriginFile path \<Rightarrow> path | OriginCommand program _ \<Rightarrow> program)"

datatype reload_policy = ReloadNever | ReloadInterval nat | ReloadWatch nat

record source_config =
  sf_origin :: origin
  sf_format :: source_format
  sf_reload :: reload_policy
  sf_columns :: "string list"

definition source_config_new ::
    "config_texts \<Rightarrow> origin \<Rightarrow> source_format \<Rightarrow> string list \<Rightarrow> reload_policy \<Rightarrow> enrich_error + source_config" where
  "source_config_new T origin format columns reload =
     (if origin_path origin = [] then Inl ConfigError
      else if (case origin of
           OriginCommand _ timeout \<Rightarrow>
             format = FormatMmdb \<or> (case reload of ReloadWatch _ \<Rightarrow> True | _ \<Rightarrow> False) \<or> timeout = 0
         | OriginFile _ \<Rightarrow> False) then Inl ConfigError
      else if columns = [] then Inl ConfigError
      else if list_ex (\<lambda>c. ct_trim T c = []) columns \<or> \<not> distinct columns then Inl ConfigError
      else if (case format of
           FormatCsv key_columns _ \<Rightarrow> key_columns = [] \<or> list_ex (\<lambda>c. ct_trim T c = []) key_columns
         | FormatMmdb \<Rightarrow> False) then Inl ConfigError
      else ok_then (case origin of
             OriginFile path \<Rightarrow> ok_then (ok_or OtherEnrichError (ct_absolute T path)) (\<lambda>p. Inr (OriginFile p))
           | OriginCommand program timeout \<Rightarrow>
               ok_then (ok_or OtherEnrichError (ct_absolute T program)) (\<lambda>p. Inr (OriginCommand p timeout)))
           (\<lambda>origin. Inr \<lparr>sf_origin = origin, sf_format = format, sf_reload = reload, sf_columns = columns\<rparr>))"

definition DEFAULT_DEBOUNCE :: nat where
  "DEFAULT_DEBOUNCE = 250000000"

definition MIN_INTERVAL :: nat where
  "MIN_INTERVAL = 10000000000"

definition DEFAULT_TIMEOUT :: nat where
  "DEFAULT_TIMEOUT = 30000000000"

definition reload_policy_from_str :: "config_texts \<Rightarrow> string \<Rightarrow> enrich_error + reload_policy" where
  "reload_policy_from_str T v =
     (if v = ''never'' then Inr ReloadNever
      else if v = ''watch'' then Inr (ReloadWatch DEFAULT_DEBOUNCE)
      else ok_then (ok_or ConfigError (ct_duration T v)) (\<lambda>interval.
        if interval < MIN_INTERVAL then Inl ConfigError else Inr (ReloadInterval interval)))"

section \<open>The option\<close>

record enrichment_config =
  ec_source :: source_config
  ec_mappings :: "field_mapping list"

definition PARAMETERS :: "string list" where
  "PARAMETERS = [''type'', ''format'', ''source'', ''command'', ''timeout'', ''key_column'', ''fields'', ''reload'']"

datatype enrich_kind = KindPrefix | KindExact

definition enrich_kind_from_str :: "string \<Rightarrow> enrich_error + enrich_kind" where
  "enrich_kind_from_str v =
     (if v = ''prefix_lookup'' then Inr KindPrefix else if v = ''exact'' then Inr KindExact else Inl ConfigError)"

datatype text_format = TextCsv | TextMmdb

definition ascii_lower :: "char \<Rightarrow> char" where
  "ascii_lower c = (if 65 \<le> (of_char c :: nat) \<and> (of_char c :: nat) \<le> 90 then char_of ((of_char c :: nat) + 32) else c)"

definition eq_ignore_ascii_case :: "string \<Rightarrow> string \<Rightarrow> bool" where
  "eq_ignore_ascii_case a b \<longleftrightarrow> map ascii_lower a = map ascii_lower b"

definition text_format_from_str :: "string \<Rightarrow> enrich_error + text_format" where
  "text_format_from_str v =
     (if eq_ignore_ascii_case v ''csv'' then Inr TextCsv
      else if eq_ignore_ascii_case v ''mmdb'' then Inr TextMmdb else Inl ConfigError)"

definition parse_spec_text :: "config_texts \<Rightarrow> lookup_key list \<Rightarrow> string \<Rightarrow> enrich_error + field_mapping" where
  "parse_spec_text T keys spec = (case split_once CHR '':'' spec of
       None \<Rightarrow> Inl ConfigError
     | Some (s, f) \<Rightarrow>
         (if ct_trim T s = [] \<or> ct_trim T f = [] then Inl ConfigError
          else Inr \<lparr>fp_keys = keys, fp_source_column = ct_trim T s, fp_output_field = ct_trim T f\<rparr>))"

definition parse_group_text :: "config_texts \<Rightarrow> string \<Rightarrow> enrich_error + field_mapping list" where
  "parse_group_text T grp = ok_then (ok_or ConfigError (split_once CHR ''@'' grp)) (\<lambda>(key, specs).
     ok_then (collect_all (\<lambda>k. lookup_key_from_str (ct_trim T k)) (split_char CHR ''+'' key)) (\<lambda>keys.
     if length keys > MAX_KEYS then Inl ConfigError
     else ok_then (collect_all (parse_spec_text T keys)
            (filter (\<lambda>s. s \<noteq> []) (map (ct_trim T) (split_char CHR ''|'' specs)))) (\<lambda>mappings.
       if mappings = [] then Inl ConfigError else Inr mappings)))"

definition parse_field_mappings :: "config_texts \<Rightarrow> string \<Rightarrow> enrich_error + field_mapping list" where
  "parse_field_mappings T v =
     ok_then (collect_all (parse_group_text T)
       (filter (\<lambda>g. g \<noteq> []) (map (ct_trim T) (split_char CHR '';'' v)))) (\<lambda>mappings.
     if concat mappings = [] then Inl ConfigError else Inr (concat mappings))"

fun parse_params :: "config_texts \<Rightarrow> string list \<Rightarrow> (string, string) hashmap \<Rightarrow> enrich_error + (string, string) hashmap" where
  "parse_params T [] params = Inr params"
| "parse_params T (part # parts) params = (case split_once CHR ''='' part of
       None \<Rightarrow> Inl ConfigError
     | Some (key, v) \<Rightarrow>
         let key = ct_trim T key; v = ct_trim T v in
         if v = [] then Inl ConfigError
         else if key \<notin> set PARAMETERS then Inl ConfigError
         else if hm_get params key \<noteq> None then Inl ConfigError
         else parse_params T parts (hm_insert key v params))"

definition parse_origin :: "config_texts \<Rightarrow> (string, string) hashmap \<Rightarrow> enrich_error + origin" where
  "parse_origin T params = (case (hm_get params ''source'', hm_get params ''command'') of
       (Some path, None) \<Rightarrow> (if hm_get params ''timeout'' \<noteq> None then Inl ConfigError else Inr (OriginFile path))
     | (None, Some program) \<Rightarrow>
         (case hm_get params ''timeout'' of
            Some v \<Rightarrow> ok_then (ok_or ConfigError (ct_duration T v)) (\<lambda>timeout. Inr (OriginCommand program timeout))
          | None \<Rightarrow> Inr (OriginCommand program DEFAULT_TIMEOUT))
     | _ \<Rightarrow> Inl ConfigError)"

definition path_of_text :: "string \<Rightarrow> path" where
  "path_of_text s = path_push [] s"

definition parse_text_format :: "(string, string) hashmap \<Rightarrow> origin \<Rightarrow> enrich_error + text_format" where
  "parse_text_format params origin = (case (hm_get params ''format'', origin) of
       (Some format, _) \<Rightarrow> text_format_from_str format
     | (None, OriginFile path) \<Rightarrow>
         ok_then (ok_or ConfigError (path_stem_extension (path_of_text path) \<bind> snd)) text_format_from_str
     | (None, OriginCommand _ _) \<Rightarrow> Inr TextCsv)"

definition parse_source_format ::
    "config_texts \<Rightarrow> (string, string) hashmap \<Rightarrow> text_format \<Rightarrow> enrich_kind \<Rightarrow> key_type list \<Rightarrow> enrich_error + source_format" where
  "parse_source_format T params format kind key_types = (case (format, kind) of
       (TextCsv, kind) \<Rightarrow>
         ok_then (ok_or ConfigError (hm_get params ''key_column'')) (\<lambda>v.
           let key_columns = map (ct_trim T) (split_char CHR ''+'' v) in
           if length key_columns \<noteq> length key_types then Inl ConfigError
           else Inr (FormatCsv key_columns (case kind of KindPrefix \<Rightarrow> CsvPrefix | KindExact \<Rightarrow> CsvExact key_types)))
     | (TextMmdb, KindPrefix) \<Rightarrow>
         (if hm_get params ''key_column'' \<noteq> None then Inl ConfigError else Inr FormatMmdb)
     | (TextMmdb, KindExact) \<Rightarrow> Inl ConfigError)"

definition mapping_types :: "field_mapping \<Rightarrow> key_type list" where
  "mapping_types m = map lk_key_type (fp_keys m)"

definition source_columns :: "field_mapping list \<Rightarrow> string list" where
  "source_columns mappings = fold (\<lambda>m columns.
     if fp_source_column m \<in> set columns then columns else columns @ [fp_source_column m]) mappings []"

definition parse_enrich_arg :: "config_texts \<Rightarrow> string \<Rightarrow> enrich_error + enrichment_config" where
  "parse_enrich_arg T arg =
     ok_then (parse_params T (split_char CHR '','' arg) hm_empty) (\<lambda>params.
     ok_then (ok_then (ok_or ConfigError (hm_get params ''type'')) enrich_kind_from_str) (\<lambda>kind.
     ok_then (parse_origin T params) (\<lambda>origin.
     ok_then (parse_text_format params origin) (\<lambda>format.
     ok_then (ok_then (ok_or ConfigError (hm_get params ''fields'')) (parse_field_mappings T)) (\<lambda>mappings.
     let key_types = mapping_types (mappings ! 0) in
     if list_ex (\<lambda>m. mapping_types m \<noteq> key_types) mappings then Inl ConfigError
     else if kind = KindPrefix \<and> key_types \<noteq> [KtIp] then Inl ConfigError
     else ok_then (parse_source_format T params format kind key_types) (\<lambda>format.
     ok_then (case hm_get params ''reload'' of
         Some v \<Rightarrow> reload_policy_from_str T v | None \<Rightarrow> Inr ReloadNever) (\<lambda>reload.
     ok_then (source_config_new T origin format (source_columns mappings) reload) (\<lambda>src.
     Inr \<lparr>ec_source = src, ec_mappings = mappings\<rparr>))))))))"

section \<open>Accepted configurations\<close>

lemma ok_then_Inr [simp]: "ok_then r f = Inr y \<longleftrightarrow> (\<exists>x. r = Inr x \<and> f x = Inr y)"
  by (auto simp: ok_then_def split: sum.splits)

lemma ok_or_Inr [simp]: "ok_or e x = Inr y \<longleftrightarrow> x = Some y"
  by (simp add: ok_or_def split: option.split)

lemma guard_Inr: "(if b then Inl e else r) = Inr y \<longleftrightarrow> \<not> b \<and> r = Inr y"
  by simp

lemma collect_all_iff: "collect_all f xs = Inr ys \<longleftrightarrow> list_all2 (\<lambda>x y. f x = Inr y) xs ys"
  by (induction xs arbitrary: ys) (auto simp: list_all2_Cons1)

lemma collect_all_set: "collect_all f xs = Inr ys \<Longrightarrow> y \<in> set ys \<Longrightarrow> \<exists>x \<in> set xs. f x = Inr y"
  by (force simp: collect_all_iff list_all2_conv_all_nth in_set_conv_nth)

lemma lookup_key_known: "lookup_key_from_str v = Inr k \<Longrightarrow> k \<in> set LOOKUP_KEYS \<and> lk_name k = v"
  by (auto simp: lookup_key_from_str_def find_Some_iff split: option.splits)

lemma parsed_mapping:
  assumes "parse_field_mappings T v = Inr mappings" and "m \<in> set mappings"
  shows "fp_keys m \<noteq> [] \<and> length (fp_keys m) \<le> MAX_KEYS \<and> set (fp_keys m) \<subseteq> set LOOKUP_KEYS"
proof -
  from assms obtain g grp where g: "parse_group_text T grp = Inr g" "m \<in> set g"
    unfolding parse_field_mappings_def by (auto split: if_splits) (meson collect_all_set)
  then obtain key specs keys where keys: "collect_all (\<lambda>k. lookup_key_from_str (ct_trim T k)) (split_char CHR ''+'' key) = Inr keys"
    "length keys \<le> MAX_KEYS" and ms: "collect_all (parse_spec_text T keys) specs = Inr g"
    unfolding parse_group_text_def by (auto split: if_splits)
  have "fp_keys m = keys"
    using collect_all_set [OF ms g(2)] by (auto simp: parse_spec_text_def guard_Inr split: option.splits)
  moreover have "split_char c s \<noteq> []" for c s by (cases s) (auto split: list.splits)
  ultimately show ?thesis
    using keys lookup_key_known by (fastforce simp: collect_all_iff list_all2_conv_all_nth in_set_conv_nth)
qed

lemma source_columns_set: "set (source_columns mappings) = fp_source_column ` set mappings"
proof -
  have "set (fold (\<lambda>m columns. if fp_source_column m \<in> set columns then columns else columns @ [fp_source_column m]) ms cs) =
      set cs \<union> fp_source_column ` set ms" for ms cs
    by (induction ms arbitrary: cs) auto
  from this [of mappings "[]"] show ?thesis by (simp add: source_columns_def)
qed

lemma length_mapping_types: "length (mapping_types m) = length (fp_keys m)"
  by (simp add: mapping_types_def)

text \<open>C12. A configuration that is accepted can be given to the engine, whatever the text of the option: it has columns, all
  different, and every mapping takes one of them; every mapping combines between one and \<open>MAX_KEYS\<close> keys, known ones and of the
  same types as those of the others, as many as there are key columns, and a single address for prefixes; and a
  command is read as CSV, within a time, and not watched.\<close>

theorem enrich_arg_accepted:
  assumes "parse_enrich_arg T arg = Inr config"
  shows "ec_mappings config \<noteq> [] \<and> sf_columns (ec_source config) \<noteq> [] \<and> distinct (sf_columns (ec_source config)) \<and>
    (\<forall>m \<in> set (ec_mappings config). fp_source_column m \<in> set (sf_columns (ec_source config)) \<and>
      fp_keys m \<noteq> [] \<and> length (fp_keys m) \<le> MAX_KEYS \<and> set (fp_keys m) \<subseteq> set LOOKUP_KEYS \<and>
      (case sf_format (ec_source config) of
         FormatCsv key_columns lookup \<Rightarrow> length key_columns = length (fp_keys m) \<and> key_columns \<noteq> [] \<and>
           mapping_types m = (case lookup of CsvPrefix \<Rightarrow> [KtIp] | CsvExact key_types \<Rightarrow> key_types)
       | FormatMmdb \<Rightarrow> mapping_types m = [KtIp])) \<and>
    (case sf_origin (ec_source config) of
       OriginCommand _ timeout \<Rightarrow> sf_format (ec_source config) \<noteq> FormatMmdb \<and> 0 < timeout \<and>
         (\<forall>d. sf_reload (ec_source config) \<noteq> ReloadWatch d)
     | OriginFile _ \<Rightarrow> True)"
proof -
  from assms obtain params kind origin format fields mappings src_format reload src where
    fields: "parse_field_mappings T fields = Inr mappings"
    and types: "\<not> list_ex (\<lambda>m. mapping_types m \<noteq> mapping_types (mappings ! 0)) mappings"
    and prefix: "\<not> (kind = KindPrefix \<and> mapping_types (mappings ! 0) \<noteq> [KtIp])"
    and format: "parse_source_format T params format kind (mapping_types (mappings ! 0)) = Inr src_format"
    and src: "source_config_new T origin src_format (source_columns mappings) reload = Inr src"
    and config: "config = \<lparr>ec_source = src, ec_mappings = mappings\<rparr>"
    unfolding parse_enrich_arg_def Let_def ok_then_Inr ok_or_Inr guard_Inr sum.inject by blast
  have "mappings \<noteq> []" using fields by (auto simp: parse_field_mappings_def split: if_splits)
  have parts: "sf_columns src = source_columns mappings" "source_columns mappings \<noteq> []" "distinct (source_columns mappings)"
    "sf_format src = src_format"
    "case sf_origin src of OriginCommand _ timeout \<Rightarrow> src_format \<noteq> FormatMmdb \<and> 0 < timeout \<and> (\<forall>d. sf_reload src \<noteq> ReloadWatch d)
     | OriginFile _ \<Rightarrow> True"
    "case src_format of FormatCsv key_columns _ \<Rightarrow> key_columns \<noteq> [] | FormatMmdb \<Rightarrow> True"
    using src by (auto simp: source_config_new_def split: if_splits origin.splits source_format.splits reload_policy.splits)
  have "case src_format of
      FormatCsv key_columns lookup \<Rightarrow> length key_columns = length (fp_keys m) \<and>
        mapping_types m = (case lookup of CsvPrefix \<Rightarrow> [KtIp] | CsvExact key_types \<Rightarrow> key_types)
    | FormatMmdb \<Rightarrow> mapping_types m = [KtIp]" if "m \<in> set mappings" for m
    using format prefix types that
    by (cases format; cases kind)
      (auto simp: parse_source_format_def Let_def list_ex_iff guard_Inr length_mapping_types [symmetric])
  then show ?thesis
    using parsed_mapping [OF fields] parts \<open>mappings \<noteq> []\<close> unfolding config
    by (auto simp: source_columns_set split: source_format.splits origin.splits)
qed

definition sample_config_texts :: config_texts where
  "sample_config_texts = \<lparr>ct_trim = id, ct_duration = (\<lambda>s. Some (length s * MIN_INTERVAL)), ct_absolute = Some\<rparr>"

definition sample_enrich_arg :: string where
  "sample_enrich_arg =
     ''type=exact,source=a.csv,key_column=if+vlan,fields=in_if+src_vlan@name:if_name|desc:if_desc,reload=1m''"

lemma ok_then_weak: "r = r' \<Longrightarrow> ok_then r f = ok_then r' f"
  by simp

lemma ok_then_eval: "ok_then (Inl e) f = Inl e" "ok_then (Inr x) f = f x" "ok_or e None = Inl e" "ok_or e (Some x) = Inr x"
  by (simp_all add: ok_then_def ok_or_def)

lemma sample_enrich_arg_accepted: "\<not> isl (parse_enrich_arg sample_config_texts sample_enrich_arg)"
  by (simp add: sample_config_texts_def sample_enrich_arg_def parse_enrich_arg_def PARAMETERS_def split_once_def
      enrich_kind_from_str_def parse_origin_def parse_text_format_def path_of_text_def path_push_def path_stem_extension_def
      rsplit_once_def path_file_name_def text_format_from_str_def eq_ignore_ascii_case_def ascii_lower_def
      parse_field_mappings_def parse_group_text_def parse_spec_text_def lookup_key_from_str_def LOOKUP_KEYS_def
      lookup_ip_def lookup_number_def lookup_required_def MAX_KEYS_def mapping_types_def parse_source_format_def
      reload_policy_from_str_def MIN_INTERVAL_def source_columns_def source_config_new_def origin_path_def ok_then_eval
      hm_get_def hm_insert_def hm_empty_def
      cong: ok_then_weak)

theorem enrich_arg_accepted_witness:
  "sf_columns (ec_source (projr (parse_enrich_arg sample_config_texts sample_enrich_arg))) \<noteq> []"
  using enrich_arg_accepted [of sample_config_texts sample_enrich_arg "projr (parse_enrich_arg sample_config_texts sample_enrich_arg)"]
    sample_enrich_arg_accepted by (simp add: sum.collapse)

end
