(* ===== verification/SourceCommand.thy ===== *)
theory SourceCommand
  imports EnrichConfig
begin

text \<open>
  Enrichment sources that are the output of a command (\<^verbatim>\<open>rustflow_collect/src/enrich/source/command.rs\<close>), how a
  configured source is loaded (\<^verbatim>\<open>source/mod.rs\<close>) and what starts a reload (\<^verbatim>\<open>table/reload.rs\<close>).

  The run of a command is what its parts observe: a \<open>poll\<close> is one turn of a wait, with the cancel flag, the clock in nanoseconds, what
  came over the channel from the thread that reads the pipe, and the exit status, of which a turn looks at those it asks for. A list that
  ends while a loop still waits gives \<open>None\<close>: the run is not over. What parses the output is a \<open>client\<close>: a state that
  says how many bytes it wants next, or its result. Killing the child, with everything it started, is the flag of the result.

  Shown: a value comes only out of a run whose command exited successfully and whose whole output was read before the time was up; every other
  run gives an error, and its command was killed unless it had exited; and a run is over two turns after its time is.
\<close>

section \<open>The limit\<close>

record limit =
  lm_timeout :: nat
  lm_deadline :: nat

definition limit_new :: "nat \<Rightarrow> nat \<Rightarrow> limit" where
  "limit_new now timeout = \<lparr>lm_timeout = timeout, lm_deadline = now + timeout\<rparr>"

datatype pipe_item = Chunk bytes | ChunkFailed | PollTimeout | Disconnected

record poll =
  pl_cancelled :: bool
  pl_now :: nat
  pl_received :: pipe_item
  pl_status :: "unit + exit_status option"

definition limit_check :: "limit \<Rightarrow> poll \<Rightarrow> run_error option" where
  "limit_check self p =
     (if pl_cancelled p then Some IoCancelled
      else if pl_now p \<ge> lm_deadline self then Some (IoTimedOut (lm_timeout self))
      else None)"

section \<open>The output of the command\<close>

text \<open>The thread that reads the pipe: its reads, and the items it sends before the end of the pipe ends it.\<close>

definition CHUNK_SIZE :: nat where
  "CHUNK_SIZE = 64 * 1024"

datatype pipe_read = PipeBytes bytes | PipeInterrupted | PipeFailed

fun pipe_thread :: "pipe_read list \<Rightarrow> pipe_item list" where
  "pipe_thread [] = []"
| "pipe_thread (PipeBytes b # reads) = (if b = [] then [] else Chunk b # pipe_thread reads)"
| "pipe_thread (PipeInterrupted # reads) = pipe_thread reads"
| "pipe_thread (PipeFailed # reads) = [ChunkFailed]"

record command_output =
  co_chunk :: bytes
  co_ended :: bool

definition output_new :: command_output where
  "output_new = \<lparr>co_chunk = [], co_ended = False\<rparr>"

fun output_read :: "limit \<Rightarrow> nat \<Rightarrow> command_output \<Rightarrow> poll list \<Rightarrow> ((run_error + bytes) \<times> command_output \<times> poll list) option" where
  "output_read limit n self polls =
     (if min n (length (co_chunk self)) > 0 \<or> n = 0 \<or> co_ended self
      then Some (Inr (take n (co_chunk self)), self\<lparr>co_chunk := drop n (co_chunk self)\<rparr>, polls)
      else case polls of
        [] \<Rightarrow> None
      | p # polls \<Rightarrow> (case limit_check limit p of
          Some e \<Rightarrow> Some (Inl e, self, polls)
        | None \<Rightarrow> (case pl_received p of
            Chunk b \<Rightarrow> output_read limit n (self\<lparr>co_chunk := b\<rparr>) polls
          | ChunkFailed \<Rightarrow> Some (Inl IoOther, self, polls)
          | PollTimeout \<Rightarrow> output_read limit n self polls
          | Disconnected \<Rightarrow> output_read limit n (self\<lparr>co_ended := True\<rparr>) polls)))"

declare output_read.simps [simp del]

text \<open>A parser that may never end, by itself or because of the reads it makes, has the result \<open>None\<close>.\<close>

record ('s, 't) client =
  cl_next :: "'s \<Rightarrow> 't + nat"
  cl_feed :: "'s \<Rightarrow> run_error + bytes \<Rightarrow> 's"

partial_function (option) run_client ::
    "('s, 't) client \<Rightarrow> limit \<Rightarrow> 's \<Rightarrow> command_output \<Rightarrow> poll list \<Rightarrow> ('t \<times> command_output \<times> poll list) option" where
  "run_client P limit s out polls = (case cl_next P s of
       Inl t \<Rightarrow> Some (t, out, polls)
     | Inr n \<Rightarrow> (case output_read limit n out polls of
         None \<Rightarrow> None
       | Some (r, out, polls) \<Rightarrow> run_client P limit (cl_feed P s r) out polls))"

text \<open>What is left to read and to wait for. \<^verbatim>\<open>io::copy\<close> reads into a buffer of \<open>COPY_SIZE\<close> until there is nothing more.\<close>

definition COPY_SIZE :: nat where
  "COPY_SIZE = 8192"

fun item_bytes :: "pipe_item \<Rightarrow> bytes" where
  "item_bytes (Chunk b) = b"
| "item_bytes _ = []"

definition left_to_read :: "command_output \<Rightarrow> poll list \<Rightarrow> nat" where
  "left_to_read out polls = length (co_chunk out) + (\<Sum>p \<leftarrow> polls. Suc (length (item_bytes (pl_received p))))"

lemma output_read_left:
  "output_read limit n out polls = Some (Inr b, out', polls') \<Longrightarrow> left_to_read out' polls' + length b \<le> left_to_read out polls"
proof (induction polls arbitrary: out)
  case Nil
  then show ?case by (auto simp: output_read.simps [of limit n out "[]"] left_to_read_def split: if_splits)
next
  case (Cons p polls)
  have "min n (length (co_chunk out)) = 0 \<Longrightarrow> n \<noteq> 0 \<Longrightarrow> co_chunk out = []" by (simp add: min_def split: if_splits)
  with Cons show ?case
    by (fastforce simp: output_read.simps [of limit n out "p # polls"] left_to_read_def
        split: if_splits option.splits pipe_item.splits dest: Cons.IH)
qed

function drain :: "limit \<Rightarrow> command_output \<Rightarrow> poll list \<Rightarrow> ((run_error + unit) \<times> poll list) option" where
  "drain limit out polls = (case output_read limit COPY_SIZE out polls of
       None \<Rightarrow> None
     | Some (Inl e, out, polls) \<Rightarrow> Some (Inl e, polls)
     | Some (Inr [], out, polls) \<Rightarrow> Some (Inr (), polls)
     | Some (Inr (b # bs), out, polls) \<Rightarrow> drain limit out polls)"
  by pat_completeness auto
termination
  by (relation "measure (\<lambda>(limit, out, polls). left_to_read out polls)") (auto dest!: output_read_left)

declare drain.simps [simp del]

section \<open>The process\<close>

definition status_success :: "exit_status \<Rightarrow> bool" where
  "status_success s \<longleftrightarrow> s = ExitCode 0"

fun process_wait :: "limit \<Rightarrow> poll list \<Rightarrow> ((run_error + exit_status) \<times> poll list) option" where
  "process_wait limit [] = None"
| "process_wait limit (p # polls) = (case pl_status p of
       Inl _ \<Rightarrow> Some (Inl IoOther, polls)
     | Inr (Some status) \<Rightarrow> Some (Inr status, polls)
     | Inr None \<Rightarrow> (case limit_check limit p of
         Some e \<Rightarrow> Some (Inl e, polls)
       | None \<Rightarrow> process_wait limit polls))"

text \<open>Whether the command and the thread that reads it could be started, and the time then. The result comes with whether dropping the
  process has killed the child.\<close>

record command_start =
  cs_spawned :: bool
  cs_thread :: bool
  cs_now :: nat

definition command_read ::
    "('s, enrich_error + 't) client \<Rightarrow> 's \<Rightarrow> command_start \<Rightarrow> nat \<Rightarrow> poll list \<Rightarrow> ((enrich_error + 't) \<times> bool) option" where
  "command_read P s start timeout polls =
     (let limit = limit_new (cs_now start) timeout in
      if \<not> cs_spawned start then Some (Inl (IoError IoOther), False)
      else if \<not> cs_thread start then Some (Inl (IoError IoOther), True)
      else case run_client P limit s output_new polls of
        None \<Rightarrow> None
      | Some (parsed, out, polls) \<Rightarrow> (case drain limit out polls of
          None \<Rightarrow> None
        | Some (Inl e, _) \<Rightarrow> Some (Inl (IoError e), True)
        | Some (Inr _, polls) \<Rightarrow> (case process_wait limit polls of
            None \<Rightarrow> None
          | Some (Inl e, _) \<Rightarrow> Some (Inl (IoError e), True)
          | Some (Inr status, _) \<Rightarrow>
              Some (if status_success status then parsed else Inl (CommandError status), False))))"

section \<open>A result is that of the whole output of a successful run\<close>

definition in_time :: "limit \<Rightarrow> poll list \<Rightarrow> bool" where
  "in_time limit polls \<longleftrightarrow> (\<forall>p \<in> set polls. limit_check limit p = None)"

lemma in_time_simps [simp]:
  "in_time limit []" "in_time limit (p # polls) \<longleftrightarrow> limit_check limit p = None \<and> in_time limit polls"
  "in_time limit (polls @ polls') \<longleftrightarrow> in_time limit polls \<and> in_time limit polls'"
  by (auto simp: in_time_def)

text \<open>Time passes, and what was cancelled stays so.\<close>

definition time_passes :: "poll list \<Rightarrow> bool" where
  "time_passes polls \<longleftrightarrow> sorted_wrt (\<lambda>p q. pl_now p \<le> pl_now q \<and> (pl_cancelled p \<longrightarrow> pl_cancelled q)) polls"

lemma time_passes_over:
  assumes "time_passes (a @ b)" and "\<not> in_time limit a" and "q \<in> set b"
  shows "limit_check limit q \<noteq> None"
  using assms by (fastforce simp: time_passes_def sorted_wrt_append in_time_def limit_check_def split: if_splits)

text \<open>The bytes still to come, up to where the channel is disconnected.\<close>

fun delivered :: "poll list \<Rightarrow> bytes" where
  "delivered [] = []"
| "delivered (p # polls) = (case pl_received p of
       Chunk b \<Rightarrow> b @ delivered polls
     | PollTimeout \<Rightarrow> delivered polls
     | _ \<Rightarrow> [])"

definition unread :: "command_output \<Rightarrow> poll list \<Rightarrow> bytes" where
  "unread out polls = co_chunk out @ (if co_ended out then [] else delivered polls)"

definition exhausted :: "command_output \<Rightarrow> bool" where
  "exhausted out \<longleftrightarrow> co_chunk out = [] \<and> co_ended out"

definition waiting :: "command_output \<Rightarrow> bool" where
  "waiting out \<longleftrightarrow> co_chunk out = [] \<and> \<not> co_ended out"

lemma output_read_cases:
  assumes "output_read limit n out polls = Some (r, out', polls')"
  shows "\<exists>used. polls = used @ polls' \<and>
    (case r of
       Inr b \<Rightarrow> in_time limit used \<and> unread out polls = b @ unread out' polls' \<and> (0 < n \<and> b = [] \<longrightarrow> exhausted out')
     | Inl e \<Rightarrow> waiting out' \<and> (in_time limit used \<longrightarrow> e = IoOther))"
  using assms
proof (induction polls arbitrary: out)
  case Nil
  then show ?case
    by (auto simp: output_read.simps [of limit n out "[]"] unread_def exhausted_def min_def split: if_splits)
next
  case (Cons p polls)
  show ?case
  proof (cases "min n (length (co_chunk out)) > 0 \<or> n = 0 \<or> co_ended out")
    case True
    then have "r = Inr (take n (co_chunk out))" "out' = out\<lparr>co_chunk := drop n (co_chunk out)\<rparr>" "polls' = p # polls"
      using Cons.prems by (auto simp: output_read.simps [of limit n out "p # polls"])
    moreover have "co_chunk out = [] \<Longrightarrow> 0 < n \<Longrightarrow> co_ended out" using True by simp
    ultimately show ?thesis
      by (intro exI [of _ "[]"]) (auto simp: unread_def exhausted_def)
  next
    case False
    then have empty: "co_chunk out = []" "\<not> co_ended out" "0 < n" by (auto simp: min_def split: if_splits)
    show ?thesis
    proof (cases "limit_check limit p")
      case (Some e)
      then show ?thesis
        using Cons.prems False empty by (auto simp: output_read.simps [of limit n out "p # polls"] waiting_def intro!: exI [of _ "[p]"])
    next
      case None
      note step = Cons.prems [unfolded output_read.simps [of limit n out "p # polls"] if_not_P [OF False] list.case None option.case]
      have later: ?thesis
        if "output_read limit n out1 polls = Some (r, out', polls')" and "unread out1 polls = unread out (p # polls)" for out1
      proof -
        from Cons.IH [OF that(1)] obtain used where "polls = used @ polls'"
          "case r of Inr b \<Rightarrow> in_time limit used \<and> unread out1 polls = b @ unread out' polls' \<and> (0 < n \<and> b = [] \<longrightarrow> exhausted out')
           | Inl e \<Rightarrow> waiting out' \<and> (in_time limit used \<longrightarrow> e = IoOther)" by blast
        then show ?thesis using None that(2) by (intro exI [of _ "p # used"]) (simp split: sum.splits)
      qed
      show ?thesis
      proof (cases "pl_received p")
        case (Chunk b)
        show ?thesis by (rule later [of "out\<lparr>co_chunk := b\<rparr>"]) (use step Chunk empty in \<open>simp_all add: unread_def\<close>)
      next
        case ChunkFailed
        then show ?thesis using step None empty by (auto simp: waiting_def intro!: exI [of _ "[p]"])
      next
        case PollTimeout
        show ?thesis by (rule later [of out]) (use step PollTimeout empty in \<open>simp_all add: unread_def\<close>)
      next
        case Disconnected
        show ?thesis by (rule later [of "out\<lparr>co_ended := True\<rparr>"]) (use step Disconnected empty in \<open>simp_all add: unread_def\<close>)
      qed
    qed
  qed
qed

text \<open>The output is at its end only once the thread that reads the pipe is gone, which is when it has sent everything.\<close>

definition pipe_closed :: "poll list \<Rightarrow> bool" where
  "pipe_closed polls \<longleftrightarrow> (\<exists>q \<in> set polls. pl_received q = Disconnected)"

lemma pipe_closed_simps [simp]:
  "\<not> pipe_closed []" "pipe_closed (p # polls) \<longleftrightarrow> pl_received p = Disconnected \<or> pipe_closed polls"
  "pipe_closed (polls @ polls') \<longleftrightarrow> pipe_closed polls \<or> pipe_closed polls'"
  by (auto simp: pipe_closed_def)

lemma output_read_ended:
  assumes "output_read limit n out polls = Some (r, out', polls')" and "polls = used @ polls'" and "co_ended out'"
  shows "co_ended out \<or> pipe_closed used"
  using assms
proof (induction polls arbitrary: out used)
  case Nil
  then show ?case by (auto simp: output_read.simps [of limit n out "[]"] split: if_splits)
next
  case (Cons p polls)
  have stop: "co_ended out \<or> pipe_closed used"
    if out1: "output_read limit n out1 polls = Some (r, out', polls')" "co_ended out1 \<longrightarrow> co_ended out \<or> pl_received p = Disconnected" for out1
  proof -
    obtain used1 where used1: "polls = used1 @ polls'" using output_read_cases [OF out1(1)] by blast
    then have "used = p # used1" using Cons.prems(2) by simp
    then show ?thesis using Cons.IH [OF out1(1) used1 Cons.prems(3)] out1(2) by auto
  qed
  show ?case
    using Cons.prems(1,3)
    by (auto simp: output_read.simps [of limit n out "p # polls"] split: if_splits option.splits pipe_item.splits dest: stop)
qed

text \<open>Either everything was in time, or the output is where the limit stopped it.\<close>

definition undisturbed :: "limit \<Rightarrow> poll list \<Rightarrow> command_output \<Rightarrow> bool" where
  "undisturbed limit used out \<longleftrightarrow> (in_time limit used \<or> waiting out) \<and> (co_ended out \<longrightarrow> pipe_closed used)"

lemma waiting_reads_nothing:
  assumes "output_read limit n out polls = Some (Inr b, out', polls')" and "waiting out" and "time_passes (used @ polls)"
    and "\<not> in_time limit used"
  shows "n = 0 \<and> out' = out \<and> polls' = polls"
proof (cases polls)
  case Nil
  then show ?thesis using assms(1,2) by (auto simp: output_read.simps [of limit n out "[]"] waiting_def split: if_splits)
next
  case (Cons p ps)
  then have "limit_check limit p \<noteq> None" using time_passes_over [OF assms(3,4), of p] by simp
  then show ?thesis
    using assms(1,2) Cons by (auto simp: output_read.simps [of limit n out "p # ps"] waiting_def split: if_splits)
qed

lemma run_client_undisturbed:
  fixes P :: "('s, 't) client"
  assumes "run_client P limit s out polls = Some r"
  shows "\<forall>before. time_passes (before @ polls) \<longrightarrow> undisturbed limit before out \<longrightarrow>
    (\<exists>used. polls = used @ snd (snd r) \<and> undisturbed limit (before @ used) (fst (snd r)))"
proof (rule run_client.raw_induct [where Pa = "\<lambda>((((P, limit), s), out), polls) r. \<forall>before. time_passes (before @ polls) \<longrightarrow>
    undisturbed limit before out \<longrightarrow> (\<exists>used. polls = used @ snd (snd r) \<and> undisturbed limit (before @ used) (fst (snd r)))",
    OF _ assms, unfolded prod.case])
  fix run :: "('s, 't) client \<Rightarrow> limit \<Rightarrow> 's \<Rightarrow> command_output \<Rightarrow> poll list \<Rightarrow> ('t \<times> command_output \<times> poll list) option"
  fix P limit s out polls r
  assume rec: "\<And>P limit s out polls r. run P limit s out polls = Some r \<Longrightarrow>
      \<forall>before. time_passes (before @ polls) \<longrightarrow> undisturbed limit before out \<longrightarrow>
        (\<exists>used. polls = used @ snd (snd r) \<and> undisturbed limit (before @ used) (fst (snd r)))"
    and step: "(case cl_next P s of
        Inl t \<Rightarrow> Some (t, out, polls)
      | Inr n \<Rightarrow> (case output_read limit n out polls of None \<Rightarrow> None
        | Some (r, out, polls) \<Rightarrow> run P limit (cl_feed P s r) out polls)) = Some r"
  show "\<forall>before. time_passes (before @ polls) \<longrightarrow> undisturbed limit before out \<longrightarrow>
      (\<exists>used. polls = used @ snd (snd r) \<and> undisturbed limit (before @ used) (fst (snd r)))"
  proof (cases "cl_next P s")
    case (Inl t)
    then show ?thesis using step by auto
  next
    case (Inr n)
    then obtain x out1 polls1 where read: "output_read limit n out polls = Some (x, out1, polls1)"
      and next_run: "run P limit (cl_feed P s x) out1 polls1 = Some r"
      using step by (auto split: option.splits)
    obtain used where used: "polls = used @ polls1" and x: "case x of
         Inr b \<Rightarrow> in_time limit used \<and> unread out polls = b @ unread out1 polls1 \<and> (0 < n \<and> b = [] \<longrightarrow> exhausted out1)
       | Inl e \<Rightarrow> waiting out1 \<and> (in_time limit used \<longrightarrow> e = IoOther)"
      using output_read_cases [OF read] by blast
    show ?thesis
    proof (intro allI impI)
      fix before assume time: "time_passes (before @ polls)" and before: "undisturbed limit before out"
      have "undisturbed limit (before @ used) out1"
      proof (cases x)
        case Inl
        then show ?thesis using x by (simp add: undisturbed_def waiting_def)
      next
        case (Inr b)
        then show ?thesis
          using before x waiting_reads_nothing [OF read [unfolded Inr] _ time] output_read_ended [OF read used]
          by (auto simp: undisturbed_def)
      qed
      moreover have "time_passes ((before @ used) @ polls1)" using time used by simp
      ultimately obtain used1 where "polls1 = used1 @ snd (snd r)" "undisturbed limit ((before @ used) @ used1) (fst (snd r))"
        using rec [OF next_run] by blast
      then show "\<exists>used. polls = used @ snd (snd r) \<and> undisturbed limit (before @ used) (fst (snd r))"
        using used by (intro exI [of _ "used @ used1"]) simp
    qed
  qed
qed

lemma drain_in_time:
  assumes "drain limit out polls = Some (Inr (), polls')" and "time_passes (before @ polls)" and "undisturbed limit before out"
  shows "\<exists>used. polls = used @ polls' \<and> in_time limit (before @ used) \<and> pipe_closed (before @ used)"
  using assms
proof (induction limit out polls arbitrary: before rule: drain.induct)
  case (1 limit out polls)
  obtain b out1 polls1 where read: "output_read limit COPY_SIZE out polls = Some (Inr b, out1, polls1)"
    using 1(2) by (auto simp: drain.simps [of limit out polls] split: option.splits sum.splits)
  obtain used where used: "polls = used @ polls1" "in_time limit used" "b = [] \<longrightarrow> exhausted out1"
    using output_read_cases [OF read] by (auto simp: COPY_SIZE_def)
  have before: "in_time limit before"
  proof (rule ccontr)
    assume over: "\<not> in_time limit before"
    then have wait: "waiting out" using 1(4) by (simp add: undisturbed_def)
    from waiting_reads_nothing [OF read this 1(3) over] show False by (simp add: COPY_SIZE_def)
  qed
  show ?case
  proof (cases b)
    case Nil
    then have "polls1 = polls'" using 1(2) read by (simp add: drain.simps [of limit out polls])
    moreover have "pipe_closed (before @ used)"
      using output_read_ended [OF read used(1)] used(3) Nil 1(4) by (auto simp: exhausted_def undisturbed_def)
    ultimately show ?thesis using used before by auto
  next
    case (Cons x xs)
    then have "drain limit out1 polls1 = Some (Inr (), polls')" using 1(2) read by (simp add: drain.simps [of limit out polls])
    moreover have "time_passes ((before @ used) @ polls1)" using 1(3) used(1) by simp
    moreover have "undisturbed limit (before @ used) out1"
      using before used(2) output_read_ended [OF read used(1)] 1(4) by (auto simp: undisturbed_def)
    ultimately obtain used1 where "polls1 = used1 @ polls'" "in_time limit ((before @ used) @ used1)" "pipe_closed ((before @ used) @ used1)"
      using 1(1) [OF read [unfolded Cons] refl refl refl refl] by blast
    then show ?thesis using used(1) by auto
  qed
qed

lemma process_wait_exit:
  assumes "process_wait limit polls = Some (Inr status, polls')"
  shows "\<exists>used p. polls = used @ p # polls' \<and> in_time limit used \<and> pl_status p = Inr (Some status)"
  using assms
proof (induction polls)
  case (Cons p polls)
  show ?case
  proof (cases "pl_status p = Inr None \<and> limit_check limit p = None")
    case True
    with Cons obtain used q where "polls = used @ q # polls'" "in_time limit used" "pl_status q = Inr (Some status)" by auto
    with True show ?thesis by (intro exI [of _ "p # used"] exI [of _ q]) simp
  next
    case False
    with Cons.prems have "pl_status p = Inr (Some status)" "polls = polls'"
      by (auto split: sum.splits option.splits)
    then show ?thesis by (intro exI [of _ "[]"] exI [of _ p]) simp
  qed
qed simp

text \<open>A parser that reads to the end, with a buffer of \<open>n\<close> bytes, and parses what it got or reports the error.\<close>

datatype 'e reading = Gathered bytes | Finished "'e + bytes"

definition read_to_end :: "(run_error + bytes \<Rightarrow> 't) \<Rightarrow> nat \<Rightarrow> (run_error reading, 't) client" where
  "read_to_end f n = \<lparr>cl_next = (\<lambda>s. case s of Gathered _ \<Rightarrow> Inr n | Finished r \<Rightarrow> Inl (f r)),
     cl_feed = (\<lambda>s r. case s of
         Gathered bs \<Rightarrow> (case r of Inl e \<Rightarrow> Finished (Inl e) | Inr b \<Rightarrow> if b = [] then Finished (Inr bs) else Gathered (bs @ b))
       | Finished _ \<Rightarrow> s)\<rparr>"

lemma run_read_to_end:
  "run_client (read_to_end f n) limit (Finished r) out polls = Some (f r, out, polls)"
  "run_client (read_to_end f n) limit (Gathered bs) out polls = (case output_read limit n out polls of
      None \<Rightarrow> None
    | Some (Inl e, out, polls) \<Rightarrow> Some (f (Inl e), out, polls)
    | Some (Inr b, out, polls) \<Rightarrow> if b = [] then Some (f (Inr bs), out, polls)
        else run_client (read_to_end f n) limit (Gathered (bs @ b)) out polls)"
  by (subst run_client.simps, simp add: read_to_end_def)
    (subst run_client.simps, auto simp: read_to_end_def run_client.simps split: option.split sum.split)

lemma read_to_end_result:
  assumes "run_client (read_to_end f n) limit (Gathered bs) out polls = Some (t, out', polls')" and "0 < n"
  shows "t = f (Inr (bs @ unread out polls)) \<or> (\<exists>e. t = f (Inl e))"
  using assms(1)
proof (induction "left_to_read out polls" arbitrary: bs out polls rule: less_induct)
  case less
  obtain x out1 polls1 where read: "output_read limit n out polls = Some (x, out1, polls1)"
    using less.prems by (auto simp: run_read_to_end(2) split: option.splits)
  show ?case
  proof (cases x)
    case (Inl e)
    then show ?thesis using less.prems read by (auto simp: run_read_to_end(2))
  next
    case (Inr b)
    note x = output_read_cases [OF read]
    show ?thesis
    proof (cases "b = []")
      case True
      then have "exhausted out1" "unread out polls = unread out1 polls1" using x Inr assms(2) by auto
      then show ?thesis using less.prems read Inr True by (auto simp: run_read_to_end(2) exhausted_def unread_def)
    next
      case False
      then have "run_client (read_to_end f n) limit (Gathered (bs @ b)) out1 polls1 = Some (t, out', polls')"
        using less.prems read Inr by (simp add: run_read_to_end(2))
      moreover have "left_to_read out1 polls1 < left_to_read out polls"
        using output_read_left [OF read [unfolded Inr]] False by (cases b) auto
      ultimately show ?thesis using less.hyps [of out1 polls1 "bs @ b"] x Inr by auto
    qed
  qed
qed

section \<open>A run is over soon after its time\<close>

text \<open>A read that meets a turn over the limit is over there at the latest, and only an error uses that turn up.\<close>

lemma output_read_over:
  assumes "limit_check limit p \<noteq> None"
  shows "\<exists>r out' left. output_read limit n out (ps @ p # rest) = Some (r, out', left @ rest) \<and> (\<forall>b. r = Inr b \<longrightarrow> (\<exists>l. left = l @ [p]))"
proof (induction ps arbitrary: out)
  case Nil
  then show ?case
    using assms by (auto simp: output_read.simps [of limit n out "p # rest"])
next
  case (Cons q ps)
  show ?case
  proof (cases "min n (length (co_chunk out)) > 0 \<or> n = 0 \<or> co_ended out")
    case True
    then show ?thesis
      by (intro exI [of _ "Inr (take n (co_chunk out))"] exI [of _ "out\<lparr>co_chunk := drop n (co_chunk out)\<rparr>"] exI [of _ "q # ps @ [p]"])
        (auto simp: output_read.simps [of limit n out "q # ps @ p # rest"])
  next
    case False
    note step = output_read.simps [of limit n out "(q # ps) @ p # rest", unfolded if_not_P [OF False] append_Cons list.case]
    show ?thesis
    proof (cases "limit_check limit q")
      case (Some e)
      then show ?thesis by (intro exI [of _ "Inl e"] exI [of _ out] exI [of _ "ps @ [p]"]) (simp add: step)
    next
      case None
      show ?thesis
      proof (cases "pl_received q")
        case (Chunk b)
        then show ?thesis using Cons.IH [of "out\<lparr>co_chunk := b\<rparr>"] None by (simp add: step)
      next
        case ChunkFailed
        then show ?thesis using None by (intro exI [of _ "Inl IoOther"] exI [of _ out] exI [of _ "ps @ [p]"]) (simp add: step)
      next
        case PollTimeout
        then show ?thesis using Cons.IH [of out] None by (simp add: step)
      next
        case Disconnected
        then show ?thesis using Cons.IH [of "out\<lparr>co_ended := True\<rparr>"] None by (simp add: step)
      qed
    qed
  qed
qed

lemma read_to_end_over:
  assumes "limit_check limit p \<noteq> None"
  shows "\<exists>t out' left. run_client (read_to_end f n) limit (Gathered bs) out (ps @ p # rest) = Some (t, out', left @ rest)"
proof (induction "left_to_read out (ps @ p # rest)" arbitrary: bs out ps rule: less_induct)
  case less
  obtain r out1 left where read: "output_read limit n out (ps @ p # rest) = Some (r, out1, left @ rest)"
    and left: "\<forall>b. r = Inr b \<longrightarrow> (\<exists>l. left = l @ [p])"
    using output_read_over [OF assms, of n out ps rest] by (elim exE conjE) (rule that)
  show ?case
  proof (cases r)
    case (Inl e)
    then show ?thesis using read by (simp add: run_read_to_end(2))
  next
    case (Inr b)
    then obtain l where l: "left = l @ [p]" using left by blast
    show ?thesis
    proof (cases "b = []")
      case True
      then show ?thesis using read Inr by (simp add: run_read_to_end(2))
    next
      case False
      have "left_to_read out1 (l @ p # rest) < left_to_read out (ps @ p # rest)"
        using output_read_left [OF read [unfolded Inr]] False l by (cases b) auto
      from less.hyps [OF this, of "bs @ b"] show ?thesis using read Inr False l by (simp add: run_read_to_end(2))
    qed
  qed
qed

lemma drain_over:
  assumes "limit_check limit p \<noteq> None"
  shows "\<exists>r polls'. drain limit out (ps @ [p]) = Some (r, polls') \<and> (r = Inr () \<longrightarrow> p \<in> set polls')"
proof (induction "left_to_read out (ps @ [p])" arbitrary: out ps rule: less_induct)
  case less
  obtain r out1 left where read: "output_read limit COPY_SIZE out (ps @ [p]) = Some (r, out1, left)"
    and left: "\<forall>b. r = Inr b \<longrightarrow> (\<exists>l. left = l @ [p])"
    using output_read_over [OF assms, of COPY_SIZE out ps "[]"] by (metis append_Nil2)
  show ?case
  proof (cases r)
    case (Inl e)
    then show ?thesis using read by (simp add: drain.simps [of limit out])
  next
    case (Inr b)
    then obtain l where l: "left = l @ [p]" using left by blast
    show ?thesis
    proof (cases b)
      case Nil
      then show ?thesis using read Inr l by (simp add: drain.simps [of limit out])
    next
      case (Cons x xs)
      then have "left_to_read out1 (l @ [p]) < left_to_read out (ps @ [p])"
        using output_read_left [OF read [unfolded Inr]] l by simp
      from less.hyps [OF this] show ?thesis using read Inr Cons l by (simp add: drain.simps [of limit out])
    qed
  qed
qed

lemma process_wait_over:
  assumes "limit_check limit p \<noteq> None" and "p \<in> set polls"
  shows "\<exists>r polls'. process_wait limit polls = Some (r, polls')"
  using assms by (induction polls) (auto split: sum.split option.split)

section \<open>Loading a source\<close>

text \<open>What loading calls: opening a file for the \<^verbatim>\<open>csv\<close> library, this library as a reader of a stream, and
  \<^verbatim>\<open>MmdbSource::open\<close>.\<close>

record ('m4, 'm6, 's) loader =
  ld_texts :: key_texts
  ld_v4 :: "(u32, 'm4) prefix_lib"
  ld_v6 :: "(u128, 'm6) prefix_lib"
  ld_open_csv :: "string \<Rightarrow> run_error + csv_input"
  ld_csv :: "('s, csv_input) client"
  ld_csv_start :: 's
  ld_open_mmdb :: "string \<Rightarrow> string list \<Rightarrow> enrich_error + mmdb_source"

text \<open>The closure given to \<^verbatim>\<open>command::read\<close>. \<open>csv_open\<close> never panics (\<open>csv_open_total\<close>).\<close>

definition command_parse ::
    "('m4, 'm6, 's) loader \<Rightarrow> string list \<Rightarrow> csv_lookup \<Rightarrow> schema \<Rightarrow> csv_input \<Rightarrow> enrich_error + ('m4, 'm6) source" where
  "command_parse D key_columns lookup schema input =
     (case csv_open (ld_texts D) (ld_v4 D) (ld_v6 D) input key_columns lookup schema of
        None \<Rightarrow> Inl DataError
      | Some (Inl e) \<Rightarrow> Inl e
      | Some (Inr source) \<Rightarrow> if source_len (ld_v4 D) (ld_v6 D) source = 0 then Inl DataError else Inr source)"

definition then_parse :: "('r \<Rightarrow> 't) \<Rightarrow> ('s, 'r) client \<Rightarrow> ('s, 't) client" where
  "then_parse f P = \<lparr>cl_next = (\<lambda>s. map_sum f id (cl_next P s)), cl_feed = cl_feed P\<rparr>"

definition load_source ::
    "('m4, 'm6, 's) loader \<Rightarrow> source_config \<Rightarrow> command_start \<Rightarrow> poll list \<Rightarrow> (enrich_error + ('m4, 'm6) source) option" where
  "load_source D config start polls =
     (let schema = sf_columns config in
      case (sf_format config, sf_origin config) of
        (FormatCsv key_columns lookup, OriginFile path) \<Rightarrow>
          (case ld_open_csv D path of
             Inl e \<Rightarrow> Some (Inl (IoError e))
           | Inr input \<Rightarrow> csv_open (ld_texts D) (ld_v4 D) (ld_v6 D) input key_columns lookup schema)
      | (FormatCsv key_columns lookup, OriginCommand program timeout) \<Rightarrow>
          map_option fst (command_read (then_parse (command_parse D key_columns lookup schema) (ld_csv D)) (ld_csv_start D)
            start timeout polls)
      | (FormatMmdb, OriginFile path) \<Rightarrow> Some (map_sum id MmdbSource (ld_open_mmdb D path schema))
      | (FormatMmdb, OriginCommand program timeout) \<Rightarrow> Some (Inl ConfigError))"

definition open_source ::
    "('m4, 'm6, 's) loader \<Rightarrow> source_config \<Rightarrow> command_start \<Rightarrow> poll list \<Rightarrow> (enrich_error + ('m4, 'm6) source) option" where
  "open_source D config start polls = map_option (map_sum LoadError id) (load_source D config start polls)"

lemma read_records_total:
  assumes "length column_indexes = length schema"
  shows "read_records T key_indexes column_indexes schema emit recs t \<noteq> None"
proof (induction recs arbitrary: t)
  case (Cons r recs)
  then show ?case using assms by (cases r) (auto simp: Let_def schema_row_def split: sum.split)
qed simp

lemma csv_read_total: "csv_read T input key_columns schema emit t \<noteq> None"
  using read_records_total [OF positions_length, unfolded not_None_eq]
  by (auto simp: csv_read_def Let_def split: option.split sum.split)

lemma csv_open_total: "csv_open T L4 L6 input key_columns lookup schema \<noteq> None"
  by (cases lookup) (simp_all add: csv_open_def csv_read_total del: not_None_eq)

section \<open>Reloads\<close>

datatype reload_event = Reload | WatcherError

datatype reload_recv = ReloadReceived reload_event | ReloadTimedOut | ReloadDisconnected

text \<open>Only \<^verbatim>\<open>recv_timeout\<close> times out.\<close>

definition reload_next :: "reload_policy \<Rightarrow> reload_recv \<Rightarrow> reload_event option" where
  "reload_next policy r = (case policy of
       ReloadInterval _ \<Rightarrow> (case r of
           ReloadReceived ev \<Rightarrow> Some ev
         | ReloadTimedOut \<Rightarrow> Some Reload
         | ReloadDisconnected \<Rightarrow> None)
     | _ \<Rightarrow> (case r of ReloadReceived ev \<Rightarrow> Some ev | _ \<Rightarrow> None))"

datatype fs_change = FsCreate | FsModify | FsRemove | FsOther

record fs_event =
  fe_rescan :: bool
  fe_kind :: fs_change
  fe_paths :: "string list"

definition watched_event :: "string \<Rightarrow> unit + fs_event list \<Rightarrow> reload_event option" where
  "watched_event target result = (case result of
       Inr events \<Rightarrow>
         if list_ex (\<lambda>ev. fe_rescan ev \<or> fe_kind ev \<in> {FsCreate, FsModify, FsRemove} \<and> target \<in> set (fe_paths ev)) events
         then Some Reload else None
     | Inl _ \<Rightarrow> Some WatcherError)"

text \<open>The callback of \<^verbatim>\<open>Table::new\<close>, on the table and the counter of watcher failures; \<open>loaded\<close> is what opening the source
  gives in this turn.\<close>

definition on_reload_event ::
    "(u32, 'm4) prefix_lib \<Rightarrow> (u128, 'm6) prefix_lib \<Rightarrow> reload_event \<Rightarrow> enrich_error + ('m4, 'm6) source \<Rightarrow>
     ('m4, 'm6) table \<times> nat \<Rightarrow> ('m4, 'm6) table \<times> nat" where
  "on_reload_event L4 L6 ev loaded = (\<lambda>(self, watcher_failures). case ev of
       Reload \<Rightarrow> (fst (table_reload L4 L6 loaded self), watcher_failures)
     | WatcherError \<Rightarrow> (self, watcher_failures + 1))"

fun reload_loop ::
    "(u32, 'm4) prefix_lib \<Rightarrow> (u128, 'm6) prefix_lib \<Rightarrow> reload_policy \<Rightarrow>
     (reload_recv \<times> (enrich_error + ('m4, 'm6) source)) list \<Rightarrow> ('m4, 'm6) table \<times> nat \<Rightarrow> ('m4, 'm6) table \<times> nat" where
  "reload_loop L4 L6 policy [] st = st"
| "reload_loop L4 L6 policy ((r, loaded) # turns) st = (case reload_next policy r of
       None \<Rightarrow> st
     | Some ev \<Rightarrow> reload_loop L4 L6 policy turns (on_reload_event L4 L6 ev loaded st))"

definition reload_worker ::
    "(u32, 'm4) prefix_lib \<Rightarrow> (u128, 'm6) prefix_lib \<Rightarrow> reload_policy \<Rightarrow>
     (reload_recv \<times> (enrich_error + ('m4, 'm6) source)) list \<Rightarrow> ('m4, 'm6) table \<times> nat \<Rightarrow> ('m4, 'm6) table \<times> nat" where
  "reload_worker L4 L6 policy turns st = (if policy = ReloadNever then st else reload_loop L4 L6 policy turns st)"

text \<open>The loads of the turns up to the end, and the sources among them.\<close>

fun reload_loads :: "reload_policy \<Rightarrow> (reload_recv \<times> 'x) list \<Rightarrow> 'x list" where
  "reload_loads policy [] = []"
| "reload_loads policy ((r, loaded) # turns) = (case reload_next policy r of
       None \<Rightarrow> []
     | Some Reload \<Rightarrow> loaded # reload_loads policy turns
     | Some WatcherError \<Rightarrow> reload_loads policy turns)"

definition good_loads :: "('e + 'x) list \<Rightarrow> 'x list" where
  "good_loads xs = List.map_filter (case_sum (\<lambda>_. None) Some) xs"

lemma reload_loop_good:
  "tb_source (fst (reload_loop L4 L6 policy turns (self, n))) = last (tb_source self # good_loads (reload_loads policy turns)) \<and>
   tb_loads_total (fst (reload_loop L4 L6 policy turns (self, n))) =
     tb_loads_total self + length (good_loads (reload_loads policy turns)) \<and>
   tb_reload_failures_total (fst (reload_loop L4 L6 policy turns (self, n))) + length (good_loads (reload_loads policy turns)) =
     tb_reload_failures_total self + length (reload_loads policy turns)"
proof (induction turns arbitrary: self n)
  case (Cons x turns)
  obtain r loaded where x: "x = (r, loaded)" by force
  show ?case
  proof (cases "reload_next policy r")
    case (Some ev)
    show ?thesis
      using Cons.IH [of "fst (on_reload_event L4 L6 ev loaded (self, n))" "snd (on_reload_event L4 L6 ev loaded (self, n))"]
      by (cases ev; cases loaded) (auto simp: x Some on_reload_event_def table_reload_def table_record_load_def good_loads_def
          List.map_filter_simps Let_def)
  qed (simp add: x good_loads_def List.map_filter_simps)
qed (simp add: good_loads_def List.map_filter_simps)

section \<open>Properties\<close>

text \<open>The two ways a run ends.\<close>

lemma command_read_cases:
  assumes "command_read P s start timeout polls = Some (r, killed)" and "time_passes polls"
  obtains (exited) t used p rest status out left where "\<not> killed" "cs_spawned start" "polls = used @ p # rest"
      "pl_status p = Inr (Some status)" "run_client P (limit_new (cs_now start) timeout) s output_new polls = Some (t, out, left)"
      "r = (if status_success status then t else Inl (CommandError status))"
      "in_time (limit_new (cs_now start) timeout) used" "pipe_closed used"
    | (failed) e where "r = Inl (IoError e)" "killed \<longleftrightarrow> cs_spawned start"
proof -
  let ?limit = "limit_new (cs_now start) timeout"
  show thesis
  proof (cases "cs_spawned start \<and> cs_thread start")
    case False
    then show thesis using assms(1) failed by (auto simp: command_read_def Let_def split: if_splits)
  next
    case True
    then obtain t out polls1 where run: "run_client P ?limit s output_new polls = Some (t, out, polls1)"
      using assms(1) by (auto simp: command_read_def Let_def split: option.splits)
    then obtain d polls2 where drain: "drain ?limit out polls1 = Some (d, polls2)"
      using assms(1) True by (auto simp: command_read_def Let_def split: option.splits)
    show thesis
    proof (cases d)
      case (Inl e)
      then have "r = Inl (IoError e) \<and> killed" using assms(1) True run drain by (simp add: command_read_def Let_def)
      then show thesis using True failed [of e] by simp
    next
      case (Inr u)
      then obtain w polls3 where wait: "process_wait ?limit polls2 = Some (w, polls3)"
        using assms(1) True run drain by (auto simp: command_read_def Let_def split: option.splits)
      show thesis
      proof (cases w)
        case (Inl e)
        then have "r = Inl (IoError e) \<and> killed"
          using assms(1) True run drain \<open>d = Inr u\<close> wait by (simp add: command_read_def Let_def)
        then show thesis using True failed [of e] by simp
      next
        case (Inr status)
        obtain used where used: "polls = used @ polls1" "undisturbed ?limit used out"
          using run_client_undisturbed [OF run, rule_format, of "[]"] assms(2) by (auto simp: undisturbed_def output_new_def)
        have "drain ?limit out polls1 = Some (Inr (), polls2)" using drain \<open>d = Inr u\<close> by simp
        from drain_in_time [OF this _ used(2)] used(1) assms(2)
        obtain used1 where used1: "polls1 = used1 @ polls2" "in_time ?limit (used @ used1)" "pipe_closed (used @ used1)" by auto
        from process_wait_exit [OF wait [unfolded Inr]]
        obtain used2 p where "polls2 = used2 @ p # polls3" "in_time ?limit used2" "pl_status p = Inr (Some status)" by blast
        then show thesis
          using exited [of "used @ used1 @ used2" p polls3 status t out polls1] assms(1) True run drain \<open>d = Inr u\<close> wait Inr
            used used1 by (simp add: command_read_def Let_def) blast
      qed
    qed
  qed
qed

lemma run_then_parse:
  fixes P :: "('s, 'r) client" and f :: "'r \<Rightarrow> 't"
  assumes "run_client (then_parse f P) limit s out polls = Some r"
  shows "\<exists>x. fst r = f x"
proof -
  have "\<forall>P. Q = then_parse f P \<longrightarrow> (\<exists>x. fst r = f x)" if "run_client Q limit s out polls = Some r" for Q :: "('s, 't) client"
  proof (rule run_client.raw_induct [where Pa = "\<lambda>((((Q, limit), s), out), polls) r. \<forall>P. Q = then_parse f P \<longrightarrow> (\<exists>x. fst r = f x)",
        OF _ that, unfolded prod.case])
    fix run :: "('s, 't) client \<Rightarrow> limit \<Rightarrow> 's \<Rightarrow> command_output \<Rightarrow> poll list \<Rightarrow> ('t \<times> command_output \<times> poll list) option"
    fix Q limit s out polls r
    assume rec: "\<And>Q limit s out polls r. run Q limit s out polls = Some r \<Longrightarrow> \<forall>P. Q = then_parse f P \<longrightarrow> (\<exists>x. fst r = f x)"
      and step: "(case cl_next Q s of
          Inl t \<Rightarrow> Some (t, out, polls)
        | Inr n \<Rightarrow> (case output_read limit n out polls of None \<Rightarrow> None
          | Some (r, out, polls) \<Rightarrow> run Q limit (cl_feed Q s r) out polls)) = Some r"
    show "\<forall>P. Q = then_parse f P \<longrightarrow> (\<exists>x. fst r = f x)"
    proof (intro allI impI)
      fix P assume Q: "Q = then_parse f P"
      show "\<exists>x. fst r = f x"
      proof (cases "cl_next P s")
        case (Inl t)
        then have "cl_next Q s = Inl (f t)" by (simp add: Q then_parse_def)
        then show ?thesis using step by auto
      next
        case (Inr n)
        then have "cl_next Q s = Inr n" by (simp add: Q then_parse_def)
        then obtain x out1 polls1 where "run Q limit (cl_feed Q s x) out1 polls1 = Some r"
          using step by (auto split: option.splits)
        from rec [OF this] Q show ?thesis by blast
      qed
    qed
  qed
  then show ?thesis using assms by blast
qed

text \<open>A table read from a command has rows, and the command exited successfully after its whole output was read, in time.\<close>

lemma load_command_trusted:
  assumes "load_source D config start polls = Some (Inr source)" and "sf_origin config = OriginCommand program timeout"
    and "time_passes polls"
  shows "source_len (ld_v4 D) (ld_v6 D) source \<noteq> 0 \<and>
    (\<exists>used p rest. polls = used @ p # rest \<and> in_time (limit_new (cs_now start) timeout) used \<and> pipe_closed used \<and>
      pl_status p = Inr (Some (ExitCode 0)))"
proof -
  obtain key_columns lookup killed where r: "command_read (then_parse (command_parse D key_columns lookup (sf_columns config)) (ld_csv D))
      (ld_csv_start D) start timeout polls = Some (Inr source, killed)"
    using assms(1,2) by (auto simp: load_source_def Let_def split: source_format.splits)
  show ?thesis
    using r assms(3)
  proof (cases rule: command_read_cases)
    case (exited t used p rest status out left)
    then have "t = Inr source" "status = ExitCode 0" by (auto simp: status_success_def split: if_splits)
    moreover obtain input where "t = command_parse D key_columns lookup (sf_columns config) input"
      using run_then_parse [OF exited(5)] by auto
    ultimately show ?thesis
      using exited by (auto simp: command_parse_def split: option.splits sum.splits if_splits)
  qed auto
qed

text \<open>C2. The output of a command counts only if the command exited successfully, after all of it was read, and before the time was up and
  nobody had cancelled: the turns of the run go through one in which the thread that reads the pipe, having sent everything, is gone, and
  only then come to the one that sees the exit, with no turn before that over the limit; otherwise the result is an error, that of the
  exit status whatever was parsed. A command that was started is killed unless its exit was seen, and then the result is the error that
  stopped it.\<close>

theorem command_result_trusted:
  assumes "command_read P s start timeout polls = Some (r, killed)" and "time_passes polls"
  shows "(\<forall>v. r = Inr v \<longrightarrow> \<not> killed \<and> (\<exists>reading q waits p rest. polls = reading @ q # waits @ p # rest \<and>
       pl_received q = Disconnected \<and> in_time (limit_new (cs_now start) timeout) (reading @ q # waits) \<and>
       pl_status p = Inr (Some (ExitCode 0)))) \<and>
     (killed \<longrightarrow> (\<exists>e. r = Inl (IoError e))) \<and>
     (cs_spawned start \<and> \<not> killed \<longrightarrow> (\<exists>p \<in> set polls. \<exists>status. pl_status p = Inr (Some status) \<and>
       (\<not> status_success status \<longrightarrow> r = Inl (CommandError status))))"
  using assms
proof (cases rule: command_read_cases)
  case (exited t used p rest status out left)
  obtain reading q waits where "used = reading @ q # waits" "pl_received q = Disconnected"
    using exited(8) unfolding pipe_closed_def by (meson split_list)
  then have seen: "\<exists>reading q waits p rest. polls = reading @ q # waits @ p # rest \<and> pl_received q = Disconnected \<and>
      in_time (limit_new (cs_now start) timeout) (reading @ q # waits) \<and> pl_status p = Inr (Some (ExitCode 0))"
    if "status_success status"
    using exited that unfolding status_success_def
    by (intro exI [of _ reading] exI [of _ q] exI [of _ waits] exI [of _ p] exI [of _ rest]) simp
  have "p \<in> set polls" using exited by simp
  then show ?thesis using exited(1,4,6) seen by (cases "status_success status") auto
qed auto

definition strict_bytes :: "run_error + bytes \<Rightarrow> enrich_error + bytes" where
  "strict_bytes r = (case r of Inl e \<Rightarrow> Inl (IoError e) | Inr b \<Rightarrow> Inr b)"

definition example_polls :: "poll list" where
  "example_polls =
     [\<lparr>pl_cancelled = False, pl_now = 1, pl_received = Chunk [97, 98], pl_status = Inr None\<rparr>,
      \<lparr>pl_cancelled = False, pl_now = 2, pl_received = Disconnected, pl_status = Inr None\<rparr>,
      \<lparr>pl_cancelled = False, pl_now = 3, pl_received = PollTimeout, pl_status = Inr (Some (ExitCode 0))\<rparr>]"

theorem command_result_trusted_witness:
  "\<exists>killed. command_read (read_to_end strict_bytes 8) (Gathered []) \<lparr>cs_spawned = True, cs_thread = True, cs_now = 0\<rparr> 10
     example_polls = Some (Inr [97, 98], killed) \<and> \<not> killed"
proof -
  let ?limit = "limit_new 0 10"
  have "output_read ?limit 8 output_new example_polls = Some (Inr [97, 98], output_new, tl example_polls)"
    "output_read ?limit 8 output_new (tl example_polls) = Some (Inr [], output_new\<lparr>co_ended := True\<rparr>, tl (tl example_polls))"
    "output_read ?limit COPY_SIZE (output_new\<lparr>co_ended := True\<rparr>) (tl (tl example_polls)) =
       Some (Inr [], output_new\<lparr>co_ended := True\<rparr>, tl (tl example_polls))"
    "process_wait ?limit (tl (tl example_polls)) = Some (Inr (ExitCode 0), [])"
    by (simp_all add: example_polls_def output_read.simps output_new_def limit_new_def limit_check_def)
  then have run: "command_read (read_to_end strict_bytes 8) (Gathered []) \<lparr>cs_spawned = True, cs_thread = True, cs_now = 0\<rparr> 10
     example_polls = Some (Inr [97, 98], False)"
    by (simp add: command_read_def run_read_to_end drain.simps [of ?limit] status_success_def strict_bytes_def Let_def)
  moreover have "time_passes example_polls" by (simp add: time_passes_def example_polls_def)
  ultimately show ?thesis using command_result_trusted by blast
qed

text \<open>C3. A run is over two turns after its time: whatever the command does, when two turns have met the limit, reading its output to the end and
  waiting for it has given a result; and a result that is no error is that of parsing every byte the command printed.\<close>

theorem command_run_ends:
  assumes "limit_check (limit_new (cs_now start) timeout) p \<noteq> None" and "limit_check (limit_new (cs_now start) timeout) q \<noteq> None"
    and "0 < n" and "\<forall>e. \<exists>e'. f (Inl e) = Inl e'" and "time_passes (ps @ [p, q])"
  shows "\<exists>r killed. command_read (read_to_end f n) (Gathered []) start timeout (ps @ [p, q]) = Some (r, killed) \<and>
     (\<forall>v. r = Inr v \<longrightarrow> f (Inr (delivered (ps @ [p, q]))) = Inr v)"
proof -
  let ?limit = "limit_new (cs_now start) timeout" and ?polls = "ps @ [p, q]"
  obtain t out left where run: "run_client (read_to_end f n) ?limit (Gathered []) output_new ?polls = Some (t, out, left @ [q])"
    using read_to_end_over [OF assms(1), of f n "[]" output_new ps "[q]"] by auto
  obtain d polls1 where drain: "drain ?limit out (left @ [q]) = Some (d, polls1)" "d = Inr () \<longrightarrow> q \<in> set polls1"
    using drain_over [OF assms(2)] by blast
  obtain w polls2 where wait: "d = Inr () \<Longrightarrow> process_wait ?limit polls1 = Some (w, polls2)"
    using process_wait_over [OF assms(2), of polls1] drain(2) by (cases "d = Inr ()") auto
  have "command_read (read_to_end f n) (Gathered []) start timeout ?polls \<noteq> None"
    using run drain(1) wait by (cases d; cases w) (simp_all add: command_read_def Let_def del: not_None_eq)
  then obtain r killed where r: "command_read (read_to_end f n) (Gathered []) start timeout ?polls = Some (r, killed)"
    by auto
  have "f (Inr (delivered ?polls)) = Inr v" if "r = Inr v" for v
    using r assms(5)
  proof (cases rule: command_read_cases)
    case (exited t used p rest status out left)
    then have "t = Inr v" using that by (simp split: if_splits)
    then show ?thesis
      using read_to_end_result [OF exited(5) assms(3)] assms(4) by (auto simp: unread_def output_new_def) (metis Inr_Inl_False)
  qed (use that in auto)
  then show ?thesis using r by blast
qed

theorem command_run_ends_witness:
  "\<exists>r killed. command_read (read_to_end strict_bytes 8) (Gathered []) \<lparr>cs_spawned = True, cs_thread = True, cs_now = 0\<rparr> 10
     [\<lparr>pl_cancelled = False, pl_now = 4, pl_received = PollTimeout, pl_status = Inr None\<rparr>,
      \<lparr>pl_cancelled = False, pl_now = 10, pl_received = PollTimeout, pl_status = Inr None\<rparr>,
      \<lparr>pl_cancelled = False, pl_now = 11, pl_received = PollTimeout, pl_status = Inr None\<rparr>] = Some (r, killed)"
  using command_run_ends [of "\<lparr>cs_spawned = True, cs_thread = True, cs_now = 0\<rparr>" 10
      "\<lparr>pl_cancelled = False, pl_now = 10, pl_received = PollTimeout, pl_status = Inr None\<rparr>"
      "\<lparr>pl_cancelled = False, pl_now = 11, pl_received = PollTimeout, pl_status = Inr None\<rparr>" 8 strict_bytes
      "[\<lparr>pl_cancelled = False, pl_now = 4, pl_received = PollTimeout, pl_status = Inr None\<rparr>]"]
  by (fastforce simp: limit_check_def limit_new_def strict_bytes_def time_passes_def)

end
